(* ===== verification/Prelude.thy ===== *)
theory Prelude
  imports Main "HOL-Library.Word" "HOL-Library.Signed_Division"
begin

text \<open>
  Shared vocabulary of the development: the Rust integer types as words, little-endian
  byte strings, the saturating and checked operations of the standard library, the
  result of a computation that may panic, and the generic lemmas the component
  theories use.
\<close>

unbundle bit_operations_syntax

section \<open>Types\<close>

type_synonym u8 = "8 word"
type_synonym u16 = "16 word"
type_synonym u32 = "32 word"
type_synonym u64 = "64 word"
type_synonym i32 = "32 word"
  \<comment> \<open>an i32 is the same 32 bits, read with \<^const>\<open>sint\<close> and widened with \<^const>\<open>signed\<close>\<close>

type_synonym bytes = "8 word list"

text \<open>
  A computation of the host that either returns or panics (a failed \<open>expect\<close>, an index
  out of range, an unchecked index out of range).
\<close>

datatype 'a may_panic = Returns 'a | Panics

primrec bind_panic :: "'a may_panic \<Rightarrow> ('a \<Rightarrow> 'b may_panic) \<Rightarrow> 'b may_panic" where
  "bind_panic (Returns x) f = f x"
| "bind_panic Panics f = Panics"

section \<open>Collections of rewrite rules\<close>

named_theorems opcode_simps \<open>definitions of opcode, kind and cost constants\<close>
named_theorems rust_defs \<open>definitions of standard-library operations\<close>

section \<open>Standard-library integer operations\<close>

definition saturating_sub :: "'a::len word \<Rightarrow> 'a word \<Rightarrow> 'a word" where
  [rust_defs]: "saturating_sub a b = (if a < b then 0 else a - b)"

definition saturating_add :: "'a::len word \<Rightarrow> 'a word \<Rightarrow> 'a word" where
  [rust_defs]: "saturating_add a b =
     (if unat a + unat b < 2 ^ LENGTH('a) then a + b else - 1)"

definition saturating_mul :: "'a::len word \<Rightarrow> 'a word \<Rightarrow> 'a word" where
  [rust_defs]: "saturating_mul a b =
     (if unat a * unat b < 2 ^ LENGTH('a) then a * b else - 1)"

definition checked_sub :: "'a::len word \<Rightarrow> 'a word \<Rightarrow> 'a word option" where
  [rust_defs]: "checked_sub a b = (if b \<le> a then Some (a - b) else None)"

text \<open>\<open>n.div_ceil(d)\<close> and \<open>n.next_multiple_of(d)\<close> on values that do not overflow.\<close>

definition div_ceil :: "nat \<Rightarrow> nat \<Rightarrow> nat" where
  [rust_defs]: "div_ceil n d = (n + d - 1) div d"

definition next_multiple_of :: "nat \<Rightarrow> nat \<Rightarrow> nat" where
  [rust_defs]: "next_multiple_of n d = div_ceil n d * d"

text \<open>\<open>Vec::resize(n, x)\<close>.\<close>

definition resize :: "'a list \<Rightarrow> nat \<Rightarrow> 'a \<Rightarrow> 'a list" where
  "resize xs n x = take n xs @ replicate (n - length xs) x"

lemma unat_saturating_add:
  "unat (saturating_add a b) = min (unat a + unat b) (2 ^ LENGTH('a) - 1)"
  for a b :: "'a::len word"
proof (cases "unat a + unat b < 2 ^ LENGTH('a)")
  case True
  then show ?thesis by (simp add: saturating_add_def unat_word_ariths)
next
  case False
  then show ?thesis by (simp add: saturating_add_def unsigned_minus_1_eq_mask mask_eq_exp_minus_1)
qed

lemma unat_saturating_sub: "unat (saturating_sub a b) = unat a - unat b"
  by (cases "a < b") (simp_all add: saturating_sub_def unat_sub not_less word_le_nat_alt word_less_nat_alt)

lemma checked_sub_Some: "checked_sub a b = Some c \<longleftrightarrow> b \<le> a \<and> c = a - b"
  by (auto simp: checked_sub_def)

lemma checked_sub_None: "checked_sub a b = None \<longleftrightarrow> a < b"
  by (auto simp: checked_sub_def not_le)

lemma length_resize [simp]: "length (resize xs n x) = n"
  by (simp add: resize_def)

lemma nth_resize: "i < n \<Longrightarrow> resize xs n x ! i = (if i < length xs then xs ! i else x)"
  by (auto simp: resize_def nth_append)

lemma resize_same [simp]: "resize xs (length xs) x = xs"
  by (simp add: resize_def)

lemma div_ceil_bounds:
  assumes "0 < d"
  shows "n \<le> div_ceil n d * d" and "div_ceil n d * d < n + d"
proof -
  have "div_ceil n d * d + (n + d - 1) mod d = n + d - 1"
    by (simp add: div_ceil_def)
  moreover have "(n + d - 1) mod d < d" using assms by simp
  ultimately show "n \<le> div_ceil n d * d" and "div_ceil n d * d < n + d"
    using assms by linarith+
qed

lemma div_ceil_multiple: "0 < d \<Longrightarrow> div_ceil (k * d) d = k"
proof -
  assume d: "0 < d"
  then have "k * d + d - 1 = (d - 1) + k * d" by simp
  then have "div_ceil (k * d) d = ((d - 1) + k * d) div d" by (simp only: div_ceil_def)
  also have "\<dots> = k" using d by (simp only: div_mult_self1) simp
  finally show ?thesis .
qed

section \<open>Little-endian byte strings\<close>

primrec le_nat :: "bytes \<Rightarrow> nat" where
  "le_nat [] = 0"
| "le_nat (b # bs) = unat b + 256 * le_nat bs"

definition from_le_bytes :: "bytes \<Rightarrow> 'a::len word" where
  "from_le_bytes bs = of_nat (le_nat bs)"

primrec to_le_bytes :: "nat \<Rightarrow> 'a::len word \<Rightarrow> bytes" where
  "to_le_bytes 0 w = []"
| "to_le_bytes (Suc n) w = ucast w # to_le_bytes n (drop_bit 8 w)"

lemma unat_less_256: "unat (b :: u8) < 256"
  using unsigned_less [of b] by simp

lemma length_to_le_bytes [simp]: "length (to_le_bytes n w) = n"
  by (induction n arbitrary: w) simp_all

lemma le_nat_less: "le_nat bs < 256 ^ length bs"
proof (induction bs)
  case (Cons b bs)
  have "unat b < 256" by (rule unat_less_256)
  with Cons show ?case by simp
qed simp

lemma unat_from_le_bytes:
  "8 * length bs \<le> LENGTH('a) \<Longrightarrow> unat (from_le_bytes bs :: 'a::len word) = le_nat bs"
proof -
  assume len: "8 * length bs \<le> LENGTH('a)"
  have "(256::nat) ^ length bs = 2 ^ (8 * length bs)" by (simp add: power_mult)
  also have "\<dots> \<le> 2 ^ LENGTH('a)" using len by (intro power_increasing) auto
  finally show ?thesis
    using le_nat_less [of bs] by (simp add: from_le_bytes_def unat_of_nat take_bit_eq_mod)
qed

lemma le_nat_to_le_bytes: "le_nat (to_le_bytes n w) = unat w mod 256 ^ n"
  for w :: "'a::len word"
proof (induction n arbitrary: w)
  case (Suc n)
  have "unat (ucast w :: u8) = unat w mod 256"
    by (simp add: unsigned_ucast_eq take_bit_eq_mod)
  moreover have "unat (drop_bit 8 w) = unat w div 256"
    by (simp add: unat_drop_bit_eq drop_bit_nat_def del: drop_bit_eq_div)
  ultimately show ?case by (simp add: Suc mod_mult2_eq)
qed simp

lemma from_to_le_bytes:
  "LENGTH('a) \<le> 8 * n \<Longrightarrow> from_le_bytes (to_le_bytes n w) = (w :: 'a::len word)"
proof -
  assume "LENGTH('a) \<le> 8 * n"
  then have "(2::nat) ^ LENGTH('a) \<le> 256 ^ n"
    using power_increasing [of "LENGTH('a)" "8 * n" "2::nat"] by (simp add: power_mult)
  then have "unat w < 256 ^ n" using unsigned_less [of w] less_le_trans by blast
  then show ?thesis by (simp add: from_le_bytes_def le_nat_to_le_bytes)
qed

lemma le_nat_inj: "length as = length bs \<Longrightarrow> le_nat as = le_nat bs \<Longrightarrow> as = bs"
proof (induction as bs rule: list_induct2)
  case (Cons a as b bs)
  have "unat a < 256" "unat b < 256"
    using unat_less_256 by simp_all
  moreover have "unat a + 256 * le_nat as = unat b + 256 * le_nat bs"
    using Cons.prems by simp
  ultimately have ab: "unat a = unat b"
    by (metis mod_mult_self2 mod_less)
  then have "le_nat as = le_nat bs" using Cons.prems by simp
  with Cons.IH ab show ?case by (simp add: word_unat_eq_iff)
qed simp

lemma to_from_le_bytes:
  assumes "8 * length bs \<le> LENGTH('a)"
  shows "to_le_bytes (length bs) (from_le_bytes bs :: 'a::len word) = bs"
proof (rule le_nat_inj)
  show "le_nat (to_le_bytes (length bs) (from_le_bytes bs :: 'a word)) = le_nat bs"
    using le_nat_less [of bs] by (simp add: le_nat_to_le_bytes unat_from_le_bytes assms)
qed simp

section \<open>Lists\<close>

lemma take_drop_nth: "i + n \<le> length xs \<Longrightarrow> k < n \<Longrightarrow> take n (drop i xs) ! k = xs ! (i + k)"
  by simp

text \<open>\<open>dst[s..s + n].copy_from_slice(src)\<close> for a range inside \<open>dst\<close>.\<close>

definition write_slice :: "'a list \<Rightarrow> nat \<Rightarrow> 'a list \<Rightarrow> 'a list" where
  "write_slice xs s ys = take s xs @ ys @ drop (s + length ys) xs"

lemma length_write_slice [simp]:
  "s + length ys \<le> length xs \<Longrightarrow> length (write_slice xs s ys) = length xs"
  by (simp add: write_slice_def)

lemma nth_write_slice:
  "s + length ys \<le> length xs \<Longrightarrow> i < length xs \<Longrightarrow>
   write_slice xs s ys ! i = (if s \<le> i \<and> i < s + length ys then ys ! (i - s) else xs ! i)"
  by (auto simp: write_slice_def nth_append)

lemma read_write_slice:
  "s + length ys \<le> length xs \<Longrightarrow> take (length ys) (drop s (write_slice xs s ys)) = ys"
  by (simp add: write_slice_def)

section \<open>Words\<close>

lemma and_mask_less:
  "unat (w AND mask n) < 2 ^ n" for w :: "'a::len word"
  by (simp add: unsigned_take_bit_eq take_bit_nat_less_exp flip: take_bit_eq_mask)

section \<open>Bit fields\<close>

text \<open>\<open>bit_unfold\<close> reads a bit of a shifted and masked word; \<open>mask_numerals\<close> first turns the numeral
  masks of the source into \<open>mask n\<close>, so that the bit index stays symbolic.\<close>

named_theorems bit_unfold
lemmas [bit_unfold] =
  bit_signed_drop_bit_iff bit_push_bit_iff bit_or_iff bit_and_iff bit_drop_bit_eq bit_unsigned_iff
  comp_def bit_mask_iff

lemma mask_numerals:
  "(1::'a::len word) = mask 1" "(3::'a word) = mask 2" "(7::'a word) = mask 3"
  "(15::'a word) = mask 4" "(31::'a word) = mask 5" "(63::'a word) = mask 6"
  "(127::'a word) = mask 7" "(255::'a word) = mask 8" "(1023::'a word) = mask 10"
  by (simp_all add: mask_eq_exp_minus_1)

lemmas mask16 = mask_numerals [where 'a = 16]
lemmas mask32 = mask_numerals [where 'a = 32]

lemma bound_take_bit: "take_bit n w = w \<longleftrightarrow> (\<forall>k. n \<le> k \<longrightarrow> \<not> bit w k)" for w :: "'a::len word"
  by (metis bit_eqI bit_take_bit_iff not_le)

lemma word_less_exp: 
  fixes w :: "'a::len word"
  assumes "\<And>k. n \<le> k \<Longrightarrow> \<not> bit w k" "n < LENGTH('a)" 
  shows "w < 2 ^ n"
proof -
  have "take_bit n w = w" using assms bound_take_bit by blast
  then have "unat w < 2 ^ n" by (metis unsigned_take_bit_eq take_bit_nat_less_exp)
  moreover have "unat (2 ^ n :: 'a word) = 2 ^ n" 
    using assms(2) unsigned_of_nat [of "2 ^ n", where 'b = 'a and 'a = nat] by (simp add: take_bit_nat_eq_self)
  ultimately show ?thesis by (simp add: word_less_nat_alt)
qed

end
