(* ===== verification/Regs.thy ===== *)
theory Regs
  imports Prelude
begin

text \<open>
  The register file of \<open>nub/nub-exec/src/regs.rs\<close>: the classification of the 5-bit
  register indices of RV64E, the slot map and its table, and the fifteen general-purpose
  registers with the program counter. The interpreter's accessors \<open>reg_read\<close> and
  \<open>reg_write\<close> of \<open>interp.rs\<close> are here too.
\<close>

section \<open>Classification\<close>

definition REG_COUNT :: nat where
  "REG_COUNT = 15"

datatype reg_class = Zero | Gpr u8 | ReservedReg

definition classify_reg :: "u8 \<Rightarrow> reg_class" where
  "classify_reg x =
     (let n = x AND 31 in
      if n = 0 then Zero
      else if n = 1 then Gpr 0
      else if n = 2 then Gpr 1
      else if n = 3 then Gpr 13
      else if n = 4 then Gpr 14
      else if 5 \<le> n \<and> n \<le> 15 then Gpr (n - 3)
      else ReservedReg)"

definition reg_slot_or_ff :: "u8 \<Rightarrow> u8" where
  "reg_slot_or_ff x = (case classify_reg x of Gpr s \<Rightarrow> s | _ \<Rightarrow> 0xFF)"

definition reg_is_reserved :: "u8 \<Rightarrow> bool" where
  "reg_is_reserved x = (case classify_reg x of ReservedReg \<Rightarrow> True | _ \<Rightarrow> False)"

definition reg_is_spilled :: "u8 \<Rightarrow> bool" where
  "reg_is_spilled x = (case classify_reg x of Gpr s \<Rightarrow> s = 13 \<or> s = 14 | _ \<Rightarrow> False)"

definition REG_SLOT_LUT :: "u8 list" where
  "REG_SLOT_LUT = map (\<lambda>x. reg_slot_or_ff (of_nat x)) [0..<32]"

section \<open>The register file\<close>

record regs =
  gpr :: "u64 list"
  pc :: u64

definition new_regs :: regs where
  "new_regs = \<lparr>gpr = replicate REG_COUNT 0, pc = 0\<rparr>"

definition regs_read :: "regs \<Rightarrow> nat \<Rightarrow> u64" where
  "regs_read r i = (if i < length (gpr r) then gpr r ! i else 0)"

definition regs_write :: "regs \<Rightarrow> nat \<Rightarrow> u64 \<Rightarrow> regs" where
  "regs_write r i v = (if i < length (gpr r) then r\<lparr>gpr := (gpr r)[i := v]\<rparr> else r)"

definition reg_read :: "regs \<Rightarrow> u8 \<Rightarrow> u64" where
  "reg_read r x =
     (let s = REG_SLOT_LUT ! unat (x AND 31) in if s = 0xFF then 0 else gpr r ! unat s)"

definition reg_write :: "regs \<Rightarrow> u8 \<Rightarrow> u64 \<Rightarrow> regs" where
  "reg_write r x v =
     (let s = REG_SLOT_LUT ! unat (x AND 31) in
      if s \<noteq> 0xFF then r\<lparr>gpr := (gpr r)[unat s := v]\<rparr> else r)"

text \<open>The array \<open>gpr\<close> has a fixed length.\<close>

definition wf_regs :: "regs \<Rightarrow> bool" where
  "wf_regs r \<longleftrightarrow> length (gpr r) = REG_COUNT"

section \<open>Lemmas\<close>

lemma and_31: "unat (x AND 31) = unat x mod 32" for x :: u8
proof -
  have "x AND 31 = take_bit 5 x" by (simp add: take_bit_eq_mask mask_eq_exp_minus_1)
  then have "unat (x AND 31) = take_bit 5 (unat x)" by (simp only: unsigned_take_bit_eq)
  then show ?thesis by (simp add: take_bit_eq_mod)
qed

text \<open>
  A property of the low five bits of a register index is checked on the 32 indices.
\<close>

lemma reg_index_cases:
  assumes "\<And>n. n < 32 \<Longrightarrow> P (of_nat n :: u8)"
    and "\<And>x. P (x AND 31) \<Longrightarrow> P x"
  shows "P (x :: u8)"
proof -
  have "unat (x AND 31) < 32" by (simp add: and_31)
  then have "P (of_nat (unat (x AND 31)))" by (rule assms(1))
  then have "P (x AND 31)" by simp
  then show ?thesis by (rule assms(2))
qed

lemma less_32_cases:
  assumes "(n::nat) < 32"
  shows "n \<in> {0, 1, 2, 3, 4, 5, 6, 7, 8, 9, 10, 11, 12, 13, 14, 15,
    16, 17, 18, 19, 20, 21, 22, 23, 24, 25, 26, 27, 28, 29, 30, 31}"
  using assms unfolding insert_iff empty_iff by arith

lemma classify_reg_and [simp]: "classify_reg (x AND 31) = classify_reg x"
  by (simp add: classify_reg_def and.assoc)

lemma slot_lut: "REG_SLOT_LUT ! unat (x AND 31) = reg_slot_or_ff x"
proof -
  have "unat (x AND 31) < 32" by (simp add: and_31)
  then have "REG_SLOT_LUT ! unat (x AND 31) = reg_slot_or_ff (of_nat (unat (x AND 31)))"
    by (simp only: REG_SLOT_LUT_def nth_map length_upt nth_upt) simp
  then show ?thesis by (simp add: reg_slot_or_ff_def)
qed

lemma reg_slot_bound: "reg_slot_or_ff x = 0xFF \<or> unat (reg_slot_or_ff x) < REG_COUNT"
proof (rule reg_index_cases [where P = "\<lambda>x. reg_slot_or_ff x = 0xFF \<or> unat (reg_slot_or_ff x) < REG_COUNT"])
  fix n :: nat
  assume "n < 32"
  then show "reg_slot_or_ff (of_nat n) = 0xFF \<or> unat (reg_slot_or_ff (of_nat n)) < REG_COUNT"
    by (drule_tac less_32_cases) (elim insertE emptyE; simp add: reg_slot_or_ff_def classify_reg_def REG_COUNT_def)
qed (simp add: reg_slot_or_ff_def)

lemma reg_is_reserved_iff: "reg_is_reserved x \<longleftrightarrow> 16 \<le> unat x mod 32"
proof (rule reg_index_cases [where P = "\<lambda>x. reg_is_reserved x \<longleftrightarrow> 16 \<le> unat x mod 32"])
  fix n :: nat
  assume "n < 32"
  then show "reg_is_reserved (of_nat n) \<longleftrightarrow> 16 \<le> unat (of_nat n :: u8) mod 32"
    by (drule_tac less_32_cases) (elim insertE emptyE; simp add: reg_is_reserved_def classify_reg_def)
next
  fix x :: u8
  assume "reg_is_reserved (x AND 31) \<longleftrightarrow> 16 \<le> unat (x AND 31) mod 32"
  then show "reg_is_reserved x \<longleftrightarrow> 16 \<le> unat x mod 32"
    by (simp add: reg_is_reserved_def and_31)
qed

lemma reg_slot_ff_iff: "reg_slot_or_ff x = 0xFF \<longleftrightarrow> unat x mod 32 = 0 \<or> reg_is_reserved x"
proof (rule reg_index_cases
    [where P = "\<lambda>x. reg_slot_or_ff x = 0xFF \<longleftrightarrow> unat x mod 32 = 0 \<or> reg_is_reserved x"])
  fix n :: nat
  assume "n < 32"
  then show "reg_slot_or_ff (of_nat n) = 0xFF \<longleftrightarrow>
      unat (of_nat n :: u8) mod 32 = 0 \<or> reg_is_reserved (of_nat n)"
    by (drule_tac less_32_cases)
      (elim insertE emptyE; simp add: reg_slot_or_ff_def reg_is_reserved_def classify_reg_def)
next
  fix x :: u8
  assume "reg_slot_or_ff (x AND 31) = 0xFF \<longleftrightarrow>
      unat (x AND 31) mod 32 = 0 \<or> reg_is_reserved (x AND 31)"
  then show "reg_slot_or_ff x = 0xFF \<longleftrightarrow> unat x mod 32 = 0 \<or> reg_is_reserved x"
    by (simp add: reg_slot_or_ff_def reg_is_reserved_def and_31)
qed

text \<open>The slot determines the register: the inverse of the map, on the sixteen slots.\<close>

definition reg_of_slot :: "u8 \<Rightarrow> nat" where
  "reg_of_slot s =
     (if s = 0 then 1 else if s = 1 then 2 else if s = 13 then 3 else if s = 14 then 4
      else unat s + 3)"

lemma reg_of_slot: "reg_slot_or_ff x \<noteq> 0xFF \<Longrightarrow> reg_of_slot (reg_slot_or_ff x) = unat x mod 32"
proof (rule reg_index_cases [where P = "\<lambda>x. reg_slot_or_ff x \<noteq> 0xFF \<longrightarrow>
      reg_of_slot (reg_slot_or_ff x) = unat x mod 32", THEN mp])
  fix n :: nat
  assume "n < 32"
  then show "reg_slot_or_ff (of_nat n) \<noteq> 0xFF \<longrightarrow>
      reg_of_slot (reg_slot_or_ff (of_nat n)) = unat (of_nat n :: u8) mod 32"
    by (drule_tac less_32_cases)
      (elim insertE emptyE; simp add: reg_slot_or_ff_def classify_reg_def reg_of_slot_def)
qed (simp_all add: reg_slot_or_ff_def and_31)

lemma reg_slot_inj:
  "reg_slot_or_ff x = reg_slot_or_ff y \<Longrightarrow> reg_slot_or_ff x \<noteq> 0xFF \<Longrightarrow> unat x mod 32 = unat y mod 32"
  by (metis reg_of_slot)

lemma reg_slot_mod: "unat x mod 32 = unat y mod 32 \<Longrightarrow> reg_slot_or_ff x = reg_slot_or_ff y"
proof -
  assume "unat x mod 32 = unat y mod 32"
  then have "x AND 31 = y AND 31" by (simp add: word_unat_eq_iff and_31)
  then have "classify_reg x = classify_reg y" by (metis classify_reg_and)
  then show ?thesis by (simp add: reg_slot_or_ff_def)
qed

lemma reg_write_slot:
  "reg_write r x v =
     (if reg_slot_or_ff x = 0xFF then r else r\<lparr>gpr := (gpr r)[unat (reg_slot_or_ff x) := v]\<rparr>)"
  by (simp add: reg_write_def slot_lut)

lemma reg_read_slot:
  "reg_read r x = (if reg_slot_or_ff x = 0xFF then 0 else gpr r ! unat (reg_slot_or_ff x))"
  by (simp add: reg_read_def slot_lut Let_def)

lemma wf_reg_write [simp]: "wf_regs (reg_write r x v) = wf_regs r"
  by (simp add: reg_write_slot wf_regs_def)

lemma wf_regs_pc [simp]: "wf_regs (r\<lparr>pc := v\<rparr>) = wf_regs r"
  by (simp add: wf_regs_def)

lemma wf_new_regs: "wf_regs new_regs"
  by (simp add: wf_regs_def new_regs_def)

lemma pc_reg_write [simp]: "pc (reg_write r x v) = pc r"
  by (simp add: reg_write_slot)

lemma reg_read_x0: "reg_read r 0 = 0"
  by (simp add: reg_read_slot reg_slot_or_ff_def classify_reg_def)

lemma reg_read_write_same:
  assumes "wf_regs r" and "reg_slot_or_ff x \<noteq> 0xFF"
  shows "reg_read (reg_write r x v) x = v"
  using assms reg_slot_bound [of x] by (auto simp: reg_read_slot reg_write_slot wf_regs_def)

lemma reg_read_write_other:
  assumes "unat x mod 32 \<noteq> unat y mod 32"
  shows "reg_read (reg_write r x v) y = reg_read r y"
proof (cases "reg_slot_or_ff x = 0xFF")
  case False
  with assms have "reg_slot_or_ff x \<noteq> reg_slot_or_ff y" using reg_slot_inj by blast
  then have "unat (reg_slot_or_ff x) \<noteq> unat (reg_slot_or_ff y)" by (simp add: word_unat_eq_iff)
  then show ?thesis by (simp add: reg_read_slot reg_write_slot)
qed (simp add: reg_write_slot)

section \<open>The register-file interface\<close>

text \<open>
  What the interpreter relies on: the sixteen registers of RV64E behave as an array whose
  element 0 is the constant zero, and the registers that do not exist read as zero.
\<close>

locale register_file =
  fixes read :: "'r \<Rightarrow> u8 \<Rightarrow> u64"
    and upd :: "'r \<Rightarrow> u8 \<Rightarrow> u64 \<Rightarrow> 'r"
    and ok :: "'r \<Rightarrow> bool"
    and live :: "u8 \<Rightarrow> bool"
  assumes read_dead: "\<not> live x \<Longrightarrow> read r x = 0"
    and upd_dead: "\<not> live x \<Longrightarrow> upd r x v = r"
    and read_same: "ok r \<Longrightarrow> live x \<Longrightarrow> unat x mod 32 = unat y mod 32 \<Longrightarrow> read (upd r x v) y = v"
    and read_other: "unat x mod 32 \<noteq> unat y mod 32 \<Longrightarrow> read (upd r x v) y = read r y"
    and upd_ok: "ok r \<Longrightarrow> ok (upd r x v)"
begin

lemma read_upd:
  "ok r \<Longrightarrow> read (upd r x v) y = (if live x \<and> unat x mod 32 = unat y mod 32 then v else read r y)"
  using read_same read_other upd_dead by auto

lemma upd_twice: "ok r \<Longrightarrow> live x \<Longrightarrow> read (upd (upd r x v) x w) y = read (upd r x w) y"
  using upd_ok read_upd by auto

lemma upd_commute:
  "ok r \<Longrightarrow> unat x mod 32 \<noteq> unat x' mod 32 \<Longrightarrow>
   read (upd (upd r x v) x' w) y = read (upd (upd r x' w) x v) y"
  using upd_ok read_upd by auto

end

interpretation rf: register_file reg_read reg_write wf_regs "\<lambda>x. reg_slot_or_ff x \<noteq> 0xFF"
proof
  fix r :: regs and x y :: u8 and v :: u64
  assume ok: "wf_regs r" and live: "reg_slot_or_ff x \<noteq> 0xFF"
    and eq: "unat x mod 32 = unat y mod 32"
  from eq have "reg_slot_or_ff y = reg_slot_or_ff x" by (rule reg_slot_mod [symmetric])
  then have "reg_read (reg_write r x v) y = reg_read (reg_write r x v) x"
    by (simp add: reg_read_slot)
  with ok live show "reg_read (reg_write r x v) y = v" by (simp add: reg_read_write_same)
qed (simp_all add: reg_read_write_other, simp_all add: reg_read_slot reg_write_slot)

end
