(* ===== verification/Gas.thy ===== *)
theory Gas
  imports Regs
begin

text \<open>
  The gas counter of \<open>nub/nub-exec/src/gas.rs\<close>, and the resource constants and cost
  functions of \<open>nub/nub-exec/src/gas_const.rs\<close>.
\<close>

section \<open>The counter\<close>

record gas_counter =
  remaining :: u64

definition gas_new :: "u64 \<Rightarrow> gas_counter" where
  "gas_new initial = \<lparr>remaining = initial\<rparr>"

text \<open>
  \<open>charge\<close> returns \<open>Ok(())\<close> (here True) and deducts, or exhausts the counter and
  returns \<open>Err(OutOfGas)\<close> (here False).
\<close>

definition charge :: "gas_counter \<Rightarrow> u64 \<Rightarrow> bool \<times> gas_counter" where
  "charge g cost =
     (case checked_sub (remaining g) cost of
        Some new \<Rightarrow> (True, g\<lparr>remaining := new\<rparr>)
      | None \<Rightarrow> (False, g\<lparr>remaining := 0\<rparr>))"

definition gas_set :: "gas_counter \<Rightarrow> u64 \<Rightarrow> gas_counter" where
  "gas_set g v = g\<lparr>remaining := v\<rparr>"

section \<open>Resource constants\<close>

definition PAGE_SIZE :: nat where
  "PAGE_SIZE = 4096"

definition MEM_CYCLES_BASE :: u8 where
  "MEM_CYCLES_BASE = 25"

definition PAGE_IN_COST :: u64 where
  "PAGE_IN_COST = 64"

definition COW_COST :: u64 where
  "COW_COST = 256"

definition COMPILE_COST_PER_PAGE :: u64 where
  "COMPILE_COST_PER_PAGE = 512"

definition MAX_PAGES_PER_ACCESS :: u64 where
  "MAX_PAGES_PER_ACCESS = 2"

definition CALL_FRAME_COST :: u64 where
  "CALL_FRAME_COST = 1024"

definition HOST_CALL_FLOOR :: u64 where
  "HOST_CALL_FLOOR = 100"

definition MGMT_OP_COST :: u64 where
  "MGMT_OP_COST = 100"

definition ecall_dynamic_cost :: "bool \<Rightarrow> u64" where
  "ecall_dynamic_cost is_ecalli = (if is_ecalli then HOST_CALL_FLOOR else MGMT_OP_COST)"

definition call_frame_cost :: "u32 \<Rightarrow> u32 \<Rightarrow> u64" where
  "call_frame_cost code_len ro_units =
     (let code_pages = of_nat (div_ceil (unat code_len) PAGE_SIZE) in
      saturating_add
        (saturating_add CALL_FRAME_COST (saturating_mul code_pages COMPILE_COST_PER_PAGE))
        (saturating_mul (ucast ro_units) PAGE_IN_COST))"

definition compute_scale :: "u32 \<Rightarrow> u8" where
  "compute_scale accessible_pages =
     (if accessible_pages \<le> 2048 then 1
      else if accessible_pages \<le> 8192 then 2
      else if accessible_pages \<le> 65536 then 3
      else 4)"

definition mem_cycles_for :: "u32 \<Rightarrow> u8" where
  "mem_cycles_for accessible_pages = saturating_mul MEM_CYCLES_BASE (compute_scale accessible_pages)"

definition accessible_pages :: "u32 \<Rightarrow> u32 \<Rightarrow> u32" where
  "accessible_pages mem_size data_base = saturating_sub mem_size data_base div 4096"

section \<open>Lemmas\<close>

lemma charge_ok: "cost \<le> remaining g \<Longrightarrow> charge g cost = (True, g\<lparr>remaining := remaining g - cost\<rparr>)"
  by (simp add: charge_def checked_sub_def)

lemma charge_fail: "remaining g < cost \<Longrightarrow> charge g cost = (False, g\<lparr>remaining := 0\<rparr>)"
  by (simp add: charge_def checked_sub_def)

lemma charge_fst: "fst (charge g cost) \<longleftrightarrow> cost \<le> remaining g"
  by (auto simp: charge_def checked_sub_def)

lemma unat_charge: "unat (remaining (snd (charge g cost))) = unat (remaining g) - unat cost"
  by (auto simp: charge_def checked_sub_def unat_sub word_le_nat_alt)

lemma charge_le: "remaining (snd (charge g cost)) \<le> remaining g"
  by (simp add: word_le_nat_alt unat_charge)

text \<open>A counter never gains from charges, and a failed charge leaves an exhausted counter.\<close>

primrec charge_all :: "gas_counter \<Rightarrow> u64 list \<Rightarrow> gas_counter" where
  "charge_all g [] = g"
| "charge_all g (c # cs) = charge_all (snd (charge g c)) cs"

lemma charge_all_total:
  "unat (remaining (charge_all g cs)) = unat (remaining g) - sum_list (map unat cs)"
  by (induction cs arbitrary: g) (simp_all add: unat_charge)

lemma compute_scale_mono: "a \<le> b \<Longrightarrow> compute_scale a \<le> compute_scale b"
  by (auto simp: compute_scale_def)

lemma mem_cycles_for_scale:
  "mem_cycles_for n = MEM_CYCLES_BASE * compute_scale n \<and> unat (mem_cycles_for n) \<le> 100"
  by (auto simp: mem_cycles_for_def compute_scale_def MEM_CYCLES_BASE_def saturating_mul_def)

lemma call_frame_cost_exact:
  "unat (call_frame_cost code_len ro_units) =
     1024 + 512 * div_ceil (unat code_len) 4096 + 64 * unat ro_units"
proof -
  let ?p = "div_ceil (unat code_len) 4096"
  have "unat code_len < 2 ^ 32" and r: "unat ro_units < 2 ^ 32"
    using unsigned_less [of code_len] unsigned_less [of ro_units] by simp_all
  then have p: "?p \<le> 2 ^ 20"
    by (simp add: div_ceil_def)
  have pw: "unat (of_nat ?p :: u64) = ?p"
    using p by (simp add: unat_of_nat take_bit_eq_mod)
  have m1: "unat (saturating_mul (of_nat ?p :: u64) 512) = 512 * ?p"
    using p pw by (simp add: saturating_mul_def unat_word_ariths)
  have m2: "unat (saturating_mul (ucast ro_units :: u64) 64) = 64 * unat ro_units"
    using r by (simp add: saturating_mul_def unat_word_ariths unsigned_ucast_eq take_bit_eq_mod)
  show ?thesis
    using p r m1 m2
    by (simp add: call_frame_cost_def Let_def PAGE_SIZE_def CALL_FRAME_COST_def
      COMPILE_COST_PER_PAGE_def PAGE_IN_COST_def unat_saturating_add)
qed

end
