(* ===== verification/Instruction.thy ===== *)
theory Instruction
  imports Gas
begin

text \<open>
  The RV64+C+custom-0 decoder of \<open>nub/nub-exec/src/instruction.rs\<close>. The flat enum
  \<open>Inst\<close> is one constructor per operand layout applied to a mnemonic: \<open>Inst::Lb {rd, rs1,
  imm}\<close> is \<open>Load Lb rd rs1 imm\<close>. The mnemonics are grouped as the sections of the enum
  are. Registers and shift amounts are \<open>u8\<close>, immediates are \<open>i32\<close>, as in the source.
\<close>

section \<open>Instructions\<close>

datatype load_op = Lb | Lh | Lw | Ld | Lbu | Lhu | Lwu

datatype store_op = Sb | Sh | Sw | Sd

datatype alu_imm_op = Addi | Slti | Sltiu | Andi | Ori | Xori | Addiw

datatype shift_imm_op = Slli | Srli | Srai | Slliw | Srliw | Sraiw

datatype alu_op =
    Add | Sub | Sll | Srl | Sra | Slt | Sltu | Xor | Or | And
  | Addw | Subw | Sllw | Srlw | Sraw

datatype muldiv_op =
    Mul | Mulh | Mulhsu | Mulhu | Div | Divu | Rem | Remu
  | Mulw | Divw | Divuw | Remw | Remuw

datatype zbb_unary_op =
  Clz | Clzw | Ctz | Ctzw | Cpop | Cpopw | SextB | SextH | ZextH | Rev8 | OrcB

datatype zbb_op =
    Min_op | Minu | Max_op | Maxu | Andn | Orn | Xnor | Rol | Ror | Rolw | Rorw

datatype zbb_imm_op = Rori | Roriw

datatype zba_op = Sh1add | Sh2add | Sh3add | Sh1adduw | Sh2adduw | Sh3adduw | Adduw

datatype zbs_op = Bclr | Bset | Binv | Bext

datatype zbs_imm_op = Bclri | Bseti | Binvi | Bexti

datatype zicond_op = CzeroEqz | CzeroNez

datatype branch_op = Beq | Bne | Blt | Bge | Bltu | Bgeu

datatype inst =
    Load load_op u8 u8 i32                \<comment> \<open>rd, rs1, imm\<close>
  | Store store_op u8 u8 i32              \<comment> \<open>rs1, rs2, imm\<close>
  | AluImm alu_imm_op u8 u8 i32           \<comment> \<open>rd, rs1, imm\<close>
  | ShiftImm shift_imm_op u8 u8 u8        \<comment> \<open>rd, rs1, shamt\<close>
  | Alu alu_op u8 u8 u8                   \<comment> \<open>rd, rs1, rs2\<close>
  | MulDiv muldiv_op u8 u8 u8             \<comment> \<open>rd, rs1, rs2\<close>
  | ZbbUnary zbb_unary_op u8 u8           \<comment> \<open>rd, rs1\<close>
  | Zbb zbb_op u8 u8 u8                   \<comment> \<open>rd, rs1, rs2\<close>
  | ZbbImm zbb_imm_op u8 u8 u8            \<comment> \<open>rd, rs1, shamt\<close>
  | Zba zba_op u8 u8 u8                   \<comment> \<open>rd, rs1, rs2\<close>
  | Slliuw u8 u8 u8                       \<comment> \<open>rd, rs1, shamt\<close>
  | Zbs zbs_op u8 u8 u8                   \<comment> \<open>rd, rs1, rs2\<close>
  | ZbsImm zbs_imm_op u8 u8 u8            \<comment> \<open>rd, rs1, shamt\<close>
  | Zicond zicond_op u8 u8 u8             \<comment> \<open>rd, rs1, rs2\<close>
  | Lui u8 i32                            \<comment> \<open>rd, imm\<close>
  | Auipc u8 i32                          \<comment> \<open>rd, imm\<close>
  | Jal u8 i32                            \<comment> \<open>rd, imm\<close>
  | Jalr u8 u8 i32                        \<comment> \<open>rd, rs1, imm\<close>
  | Branch branch_op u8 u8 i32            \<comment> \<open>rs1, rs2, imm\<close>
  | Fence
  | FenceI
  | Trap
  | EcallJar
  | Ecalli i32
  | Fallthrough
  | Reserved u32

fun uses_reserved_reg :: "inst \<Rightarrow> bool" where
  "uses_reserved_reg (Alu _ rd rs1 rs2) =
     (reg_is_reserved rd \<or> reg_is_reserved rs1 \<or> reg_is_reserved rs2)"
| "uses_reserved_reg (MulDiv _ rd rs1 rs2) =
     (reg_is_reserved rd \<or> reg_is_reserved rs1 \<or> reg_is_reserved rs2)"
| "uses_reserved_reg (Zbb _ rd rs1 rs2) =
     (reg_is_reserved rd \<or> reg_is_reserved rs1 \<or> reg_is_reserved rs2)"
| "uses_reserved_reg (Zba _ rd rs1 rs2) =
     (reg_is_reserved rd \<or> reg_is_reserved rs1 \<or> reg_is_reserved rs2)"
| "uses_reserved_reg (Zbs _ rd rs1 rs2) =
     (reg_is_reserved rd \<or> reg_is_reserved rs1 \<or> reg_is_reserved rs2)"
| "uses_reserved_reg (Zicond _ rd rs1 rs2) =
     (reg_is_reserved rd \<or> reg_is_reserved rs1 \<or> reg_is_reserved rs2)"
| "uses_reserved_reg (Load _ rd rs1 _) = (reg_is_reserved rd \<or> reg_is_reserved rs1)"
| "uses_reserved_reg (AluImm _ rd rs1 _) = (reg_is_reserved rd \<or> reg_is_reserved rs1)"
| "uses_reserved_reg (ShiftImm _ rd rs1 _) = (reg_is_reserved rd \<or> reg_is_reserved rs1)"
| "uses_reserved_reg (ZbbUnary _ rd rs1) = (reg_is_reserved rd \<or> reg_is_reserved rs1)"
| "uses_reserved_reg (ZbbImm _ rd rs1 _) = (reg_is_reserved rd \<or> reg_is_reserved rs1)"
| "uses_reserved_reg (Slliuw rd rs1 _) = (reg_is_reserved rd \<or> reg_is_reserved rs1)"
| "uses_reserved_reg (ZbsImm _ rd rs1 _) = (reg_is_reserved rd \<or> reg_is_reserved rs1)"
| "uses_reserved_reg (Jalr rd rs1 _) = (reg_is_reserved rd \<or> reg_is_reserved rs1)"
| "uses_reserved_reg (Store _ rs1 rs2 _) = (reg_is_reserved rs1 \<or> reg_is_reserved rs2)"
| "uses_reserved_reg (Branch _ rs1 rs2 _) = (reg_is_reserved rs1 \<or> reg_is_reserved rs2)"
| "uses_reserved_reg (Lui rd _) = reg_is_reserved rd"
| "uses_reserved_reg (Auipc rd _) = reg_is_reserved rd"
| "uses_reserved_reg (Jal rd _) = reg_is_reserved rd"
| "uses_reserved_reg Fence = False"
| "uses_reserved_reg FenceI = False"
| "uses_reserved_reg Trap = False"
| "uses_reserved_reg EcallJar = False"
| "uses_reserved_reg (Ecalli _) = False"
| "uses_reserved_reg Fallthrough = False"
| "uses_reserved_reg (Reserved _) = False"

section \<open>Raw-word register predicates\<close>

text \<open>\<open>(w >> lo) & m\<close>.\<close>

abbreviation bits_at :: "'a::len word \<Rightarrow> nat \<Rightarrow> 'a word \<Rightarrow> 'a word" where
  "bits_at w lo m \<equiv> drop_bit lo w AND m"

definition word_reg_class_hits :: "u32 \<Rightarrow> (u8 \<Rightarrow> bool) \<Rightarrow> bool" where
  "word_reg_class_hits w pred =
     (let r = (\<lambda>x :: u32. pred (ucast x));
          rd = bits_at w 7 0x1F;
          rs1 = bits_at w 15 0x1F;
          rs2 = bits_at w 20 0x1F;
          op = w AND 0x7F in
      if op = 0b0110011 \<or> op = 0b0111011 then r rd \<or> r rs1 \<or> r rs2
      else if op = 0b0000011 \<or> op = 0b0010011 \<or> op = 0b0011011 \<or> op = 0b1100111 then r rd \<or> r rs1
      else if op = 0b0100011 \<or> op = 0b1100011 then r rs1 \<or> r rs2
      else if op = 0b0110111 \<or> op = 0b0010111 \<or> op = 0b1101111 then r rd
      else False)"

definition word_uses_reserved_reg :: "u32 \<Rightarrow> bool" where
  "word_uses_reserved_reg w = word_reg_class_hits w reg_is_reserved"

definition word_uses_spilled_reg :: "u32 \<Rightarrow> bool" where
  "word_uses_spilled_reg w = word_reg_class_hits w reg_is_spilled"

section \<open>Immediates\<close>

definition imm_i :: "u32 \<Rightarrow> i32" where
  "imm_i w = signed_drop_bit 20 w"

definition imm_s :: "u32 \<Rightarrow> i32" where
  "imm_s w =
     (let hi = bits_at w 25 0x7F;
          lo = bits_at w 7 0x1F;
          raw = push_bit 5 hi OR lo in
      signed_drop_bit 20 (push_bit 20 raw))"

definition imm_b :: "u32 \<Rightarrow> i32" where
  "imm_b w =
     (let b12 = bits_at w 31 1;
          b11 = bits_at w 7 1;
          b10_5 = bits_at w 25 0x3F;
          b4_1 = bits_at w 8 0xF;
          raw = push_bit 12 b12 OR push_bit 11 b11 OR push_bit 5 b10_5 OR push_bit 1 b4_1 in
      signed_drop_bit 19 (push_bit 19 raw))"

definition imm_j :: "u32 \<Rightarrow> i32" where
  "imm_j w =
     (let b20 = bits_at w 31 1;
          b10_1 = bits_at w 21 0x3FF;
          b11 = bits_at w 20 1;
          b19_12 = bits_at w 12 0xFF;
          raw = push_bit 20 b20 OR push_bit 12 b19_12 OR push_bit 11 b11 OR push_bit 1 b10_1 in
      signed_drop_bit 11 (push_bit 11 raw))"

definition rs2_field :: "u32 \<Rightarrow> u32" where
  "rs2_field w = bits_at w 20 0x1F"

section \<open>32-bit decode\<close>

definition OP_LOAD :: u32 where [opcode_simps]: "OP_LOAD = 0b00000"
definition OP_STORE :: u32 where [opcode_simps]: "OP_STORE = 0b01000"
definition OP_BRANCH :: u32 where [opcode_simps]: "OP_BRANCH = 0b11000"
definition OP_JALR :: u32 where [opcode_simps]: "OP_JALR = 0b11001"
definition OP_CUSTOM_0 :: u32 where [opcode_simps]: "OP_CUSTOM_0 = 0b00010"
definition OP_CUSTOM_1 :: u32 where [opcode_simps]: "OP_CUSTOM_1 = 0b01010"
definition OP_MISC_MEM :: u32 where [opcode_simps]: "OP_MISC_MEM = 0b00011"
definition OP_JAL :: u32 where [opcode_simps]: "OP_JAL = 0b11011"
definition OP_IMM :: u32 where [opcode_simps]: "OP_IMM = 0b00100"
definition OP_OP :: u32 where [opcode_simps]: "OP_OP = 0b01100"
definition OP_SYSTEM :: u32 where [opcode_simps]: "OP_SYSTEM = 0b11100"
definition OP_AUIPC :: u32 where [opcode_simps]: "OP_AUIPC = 0b00101"
definition OP_LUI :: u32 where [opcode_simps]: "OP_LUI = 0b01101"
definition OP_OP_IMM_32 :: u32 where [opcode_simps]: "OP_OP_IMM_32 = 0b00110"
definition OP_OP_32 :: u32 where [opcode_simps]: "OP_OP_32 = 0b01110"

definition decode_load :: "u32 \<Rightarrow> u8 \<Rightarrow> u8 \<Rightarrow> u8 \<Rightarrow> inst" where
  "decode_load w rd rs1 funct3 =
     (let imm = imm_i w in
      if funct3 = 0b000 then Load Lb rd rs1 imm
      else if funct3 = 0b001 then Load Lh rd rs1 imm
      else if funct3 = 0b010 then Load Lw rd rs1 imm
      else if funct3 = 0b011 then Load Ld rd rs1 imm
      else if funct3 = 0b100 then Load Lbu rd rs1 imm
      else if funct3 = 0b101 then Load Lhu rd rs1 imm
      else if funct3 = 0b110 then Load Lwu rd rs1 imm
      else Reserved w)"

definition decode_store :: "u32 \<Rightarrow> u8 \<Rightarrow> u8 \<Rightarrow> u8 \<Rightarrow> inst" where
  "decode_store w rs1 rs2 funct3 =
     (let imm = imm_s w in
      if funct3 = 0b000 then Store Sb rs1 rs2 imm
      else if funct3 = 0b001 then Store Sh rs1 rs2 imm
      else if funct3 = 0b010 then Store Sw rs1 rs2 imm
      else if funct3 = 0b011 then Store Sd rs1 rs2 imm
      else Reserved w)"

definition decode_op_imm :: "u32 \<Rightarrow> u8 \<Rightarrow> u8 \<Rightarrow> u8 \<Rightarrow> inst" where
  "decode_op_imm w rd rs1 funct3 =
     (let imm = imm_i w;
          shamt = ucast (bits_at w 20 0x3F);
          shtype = bits_at w 26 0x3F in
      if funct3 = 0b000 then AluImm Addi rd rs1 imm
      else if funct3 = 0b010 then AluImm Slti rd rs1 imm
      else if funct3 = 0b011 then AluImm Sltiu rd rs1 imm
      else if funct3 = 0b100 then AluImm Xori rd rs1 imm
      else if funct3 = 0b110 then AluImm Ori rd rs1 imm
      else if funct3 = 0b111 then AluImm Andi rd rs1 imm
      else if funct3 = 0b001 then
        (if shtype = 0b000000 then ShiftImm Slli rd rs1 shamt
         else if shtype = 0b010010 then ZbsImm Bclri rd rs1 shamt
         else if shtype = 0b001010 then ZbsImm Bseti rd rs1 shamt
         else if shtype = 0b011010 then ZbsImm Binvi rd rs1 shamt
         else if shtype = 0b011000 then
           (if rs2_field w = 0b00000 then ZbbUnary Clz rd rs1
            else if rs2_field w = 0b00001 then ZbbUnary Ctz rd rs1
            else if rs2_field w = 0b00010 then ZbbUnary Cpop rd rs1
            else if rs2_field w = 0b00100 then ZbbUnary SextB rd rs1
            else if rs2_field w = 0b00101 then ZbbUnary SextH rd rs1
            else Reserved w)
         else Reserved w)
      else if funct3 = 0b101 then
        (if shtype = 0b000000 then ShiftImm Srli rd rs1 shamt
         else if shtype = 0b010000 then ShiftImm Srai rd rs1 shamt
         else if shtype = 0b010010 then ZbsImm Bexti rd rs1 shamt
         else if shtype = 0b011000 then ZbbImm Rori rd rs1 shamt
         else if shtype = 0b001010 then
           (if rs2_field w = 0b00111 then ZbbUnary OrcB rd rs1 else Reserved w)
         else if shtype = 0b011010 then
           (if rs2_field w = 0b11000 then ZbbUnary Rev8 rd rs1 else Reserved w)
         else Reserved w)
      else Reserved w)"

definition decode_op_imm_32 :: "u32 \<Rightarrow> u8 \<Rightarrow> u8 \<Rightarrow> u8 \<Rightarrow> inst" where
  "decode_op_imm_32 w rd rs1 funct3 =
     (let imm = imm_i w;
          shamt5 = ucast (bits_at w 20 0x1F);
          funct7 = bits_at w 25 0x7F in
      if funct3 = 0b000 then AluImm Addiw rd rs1 imm
      else if funct3 = 0b001 then
        (if funct7 = 0b0000000 then ShiftImm Slliw rd rs1 shamt5
         else if funct7 = 0b0000100 then Slliuw rd rs1 (ucast (bits_at w 20 0x3F))
         else if funct7 = 0b0110000 then
           (if rs2_field w = 0b00000 then ZbbUnary Clzw rd rs1
            else if rs2_field w = 0b00001 then ZbbUnary Ctzw rd rs1
            else if rs2_field w = 0b00010 then ZbbUnary Cpopw rd rs1
            else Reserved w)
         else Reserved w)
      else if funct3 = 0b101 then
        (if funct7 = 0b0000000 then ShiftImm Srliw rd rs1 shamt5
         else if funct7 = 0b0100000 then ShiftImm Sraiw rd rs1 shamt5
         else if funct7 = 0b0110000 then ZbbImm Roriw rd rs1 shamt5
         else Reserved w)
      else Reserved w)"

definition decode_op :: "u8 \<Rightarrow> u8 \<Rightarrow> u8 \<Rightarrow> u8 \<Rightarrow> u8 \<Rightarrow> u32 \<Rightarrow> inst" where
  "decode_op rd rs1 rs2 funct3 funct7 w =
     (if (funct7, funct3) = (0b0000000, 0b000) then Alu Add rd rs1 rs2
      else if (funct7, funct3) = (0b0100000, 0b000) then Alu Sub rd rs1 rs2
      else if (funct7, funct3) = (0b0000000, 0b001) then Alu Sll rd rs1 rs2
      else if (funct7, funct3) = (0b0000000, 0b010) then Alu Slt rd rs1 rs2
      else if (funct7, funct3) = (0b0000000, 0b011) then Alu Sltu rd rs1 rs2
      else if (funct7, funct3) = (0b0000000, 0b100) then Alu Xor rd rs1 rs2
      else if (funct7, funct3) = (0b0000000, 0b101) then Alu Srl rd rs1 rs2
      else if (funct7, funct3) = (0b0100000, 0b101) then Alu Sra rd rs1 rs2
      else if (funct7, funct3) = (0b0000000, 0b110) then Alu Or rd rs1 rs2
      else if (funct7, funct3) = (0b0000000, 0b111) then Alu And rd rs1 rs2
      else if (funct7, funct3) = (0b0000001, 0b000) then MulDiv Mul rd rs1 rs2
      else if (funct7, funct3) = (0b0000001, 0b001) then MulDiv Mulh rd rs1 rs2
      else if (funct7, funct3) = (0b0000001, 0b010) then MulDiv Mulhsu rd rs1 rs2
      else if (funct7, funct3) = (0b0000001, 0b011) then MulDiv Mulhu rd rs1 rs2
      else if (funct7, funct3) = (0b0000001, 0b100) then MulDiv Div rd rs1 rs2
      else if (funct7, funct3) = (0b0000001, 0b101) then MulDiv Divu rd rs1 rs2
      else if (funct7, funct3) = (0b0000001, 0b110) then MulDiv Rem rd rs1 rs2
      else if (funct7, funct3) = (0b0000001, 0b111) then MulDiv Remu rd rs1 rs2
      else if (funct7, funct3) = (0b0100000, 0b111) then Zbb Andn rd rs1 rs2
      else if (funct7, funct3) = (0b0100000, 0b110) then Zbb Orn rd rs1 rs2
      else if (funct7, funct3) = (0b0100000, 0b100) then Zbb Xnor rd rs1 rs2
      else if (funct7, funct3) = (0b0000101, 0b100) then Zbb Min_op rd rs1 rs2
      else if (funct7, funct3) = (0b0000101, 0b101) then Zbb Minu rd rs1 rs2
      else if (funct7, funct3) = (0b0000101, 0b110) then Zbb Max_op rd rs1 rs2
      else if (funct7, funct3) = (0b0000101, 0b111) then Zbb Maxu rd rs1 rs2
      else if (funct7, funct3) = (0b0110000, 0b001) then Zbb Rol rd rs1 rs2
      else if (funct7, funct3) = (0b0110000, 0b101) then Zbb Ror rd rs1 rs2
      else if (funct7, funct3) = (0b0010000, 0b010) then Zba Sh1add rd rs1 rs2
      else if (funct7, funct3) = (0b0010000, 0b100) then Zba Sh2add rd rs1 rs2
      else if (funct7, funct3) = (0b0010000, 0b110) then Zba Sh3add rd rs1 rs2
      else if (funct7, funct3) = (0b0100100, 0b001) then Zbs Bclr rd rs1 rs2
      else if (funct7, funct3) = (0b0010100, 0b001) then Zbs Bset rd rs1 rs2
      else if (funct7, funct3) = (0b0110100, 0b001) then Zbs Binv rd rs1 rs2
      else if (funct7, funct3) = (0b0100100, 0b101) then Zbs Bext rd rs1 rs2
      else if (funct7, funct3) = (0b0000111, 0b101) then Zicond CzeroEqz rd rs1 rs2
      else if (funct7, funct3) = (0b0000111, 0b111) then Zicond CzeroNez rd rs1 rs2
      else if (funct7, funct3) = (0b0000100, 0b100) \<and> rs2 = 0 then ZbbUnary ZextH rd rs1
      else Reserved w)"

definition decode_op_32 :: "u8 \<Rightarrow> u8 \<Rightarrow> u8 \<Rightarrow> u8 \<Rightarrow> u8 \<Rightarrow> u32 \<Rightarrow> inst" where
  "decode_op_32 rd rs1 rs2 funct3 funct7 w =
     (if (funct7, funct3) = (0b0000000, 0b000) then Alu Addw rd rs1 rs2
      else if (funct7, funct3) = (0b0100000, 0b000) then Alu Subw rd rs1 rs2
      else if (funct7, funct3) = (0b0000000, 0b001) then Alu Sllw rd rs1 rs2
      else if (funct7, funct3) = (0b0000000, 0b101) then Alu Srlw rd rs1 rs2
      else if (funct7, funct3) = (0b0100000, 0b101) then Alu Sraw rd rs1 rs2
      else if (funct7, funct3) = (0b0000001, 0b000) then MulDiv Mulw rd rs1 rs2
      else if (funct7, funct3) = (0b0000001, 0b100) then MulDiv Divw rd rs1 rs2
      else if (funct7, funct3) = (0b0000001, 0b101) then MulDiv Divuw rd rs1 rs2
      else if (funct7, funct3) = (0b0000001, 0b110) then MulDiv Remw rd rs1 rs2
      else if (funct7, funct3) = (0b0000001, 0b111) then MulDiv Remuw rd rs1 rs2
      else if (funct7, funct3) = (0b0110000, 0b001) then Zbb Rolw rd rs1 rs2
      else if (funct7, funct3) = (0b0110000, 0b101) then Zbb Rorw rd rs1 rs2
      else if (funct7, funct3) = (0b0000100, 0b000) then Zba Adduw rd rs1 rs2
      else if (funct7, funct3) = (0b0010000, 0b010) then Zba Sh1adduw rd rs1 rs2
      else if (funct7, funct3) = (0b0010000, 0b100) then Zba Sh2adduw rd rs1 rs2
      else if (funct7, funct3) = (0b0010000, 0b110) then Zba Sh3adduw rd rs1 rs2
      else Reserved w)"

definition decode_branch :: "u8 \<Rightarrow> u8 \<Rightarrow> u8 \<Rightarrow> i32 \<Rightarrow> u32 \<Rightarrow> inst" where
  "decode_branch rs1 rs2 funct3 imm w =
     (if funct3 = 0b000 then Branch Beq rs1 rs2 imm
      else if funct3 = 0b001 then Branch Bne rs1 rs2 imm
      else if funct3 = 0b100 then Branch Blt rs1 rs2 imm
      else if funct3 = 0b101 then Branch Bge rs1 rs2 imm
      else if funct3 = 0b110 then Branch Bltu rs1 rs2 imm
      else if funct3 = 0b111 then Branch Bgeu rs1 rs2 imm
      else Reserved w)"

definition decode_misc_mem :: "u8 \<Rightarrow> inst" where
  "decode_misc_mem funct3 =
     (if funct3 = 0b000 then Fence else if funct3 = 0b001 then FenceI else Reserved 0)"

definition decode_custom_0 :: "u32 \<Rightarrow> u8 \<Rightarrow> u8 \<Rightarrow> u8 \<Rightarrow> inst" where
  "decode_custom_0 w rd rs1 funct3 =
     (if funct3 = 0b000 then Trap
      else if funct3 = 0b001 then EcallJar
      else if funct3 = 0b010 then Ecalli (imm_i w)
      else if funct3 = 0b100 then Fallthrough
      else Reserved w)"

definition decode_32 :: "u32 \<Rightarrow> inst" where
  "decode_32 w =
     (let major = bits_at w 2 0x1F in
      if w AND 0b11 \<noteq> 0b11 then Reserved w
      else
        let rd = ucast (bits_at w 7 0x1F);
            rs1 = ucast (bits_at w 15 0x1F);
            rs2 = ucast (bits_at w 20 0x1F);
            funct3 = ucast (bits_at w 12 0x07);
            funct7 = ucast (bits_at w 25 0x7F) in
        if major = OP_LOAD then decode_load w rd rs1 funct3
        else if major = OP_STORE then decode_store w rs1 rs2 funct3
        else if major = OP_IMM then decode_op_imm w rd rs1 funct3
        else if major = OP_OP_IMM_32 then decode_op_imm_32 w rd rs1 funct3
        else if major = OP_OP then decode_op rd rs1 rs2 funct3 funct7 w
        else if major = OP_OP_32 then decode_op_32 rd rs1 rs2 funct3 funct7 w
        else if major = OP_LUI then Lui rd (w AND 0xFFFFF000)
        else if major = OP_AUIPC then Auipc rd (w AND 0xFFFFF000)
        else if major = OP_JAL then Jal rd (imm_j w)
        else if major = OP_JALR \<and> funct3 = 0 then Jalr rd rs1 (imm_i w)
        else if major = OP_BRANCH then decode_branch rs1 rs2 funct3 (imm_b w) w
        else if major = OP_MISC_MEM then decode_misc_mem funct3
        else if major = OP_SYSTEM then Reserved w
        else if major = OP_CUSTOM_0 then decode_custom_0 w rd rs1 funct3
        else if major = OP_CUSTOM_1 then Reserved w
        else Reserved w)"

section \<open>RVC decompression\<close>

definition creg :: "u16 \<Rightarrow> u8" where
  "creg r = ucast (r + 8)"

definition decode_ci_imm6 :: "u16 \<Rightarrow> i32" where
  "decode_ci_imm6 h =
     (let imm = push_bit 5 (bits_at h 12 1) OR bits_at h 2 0x1F in
      signed_drop_bit 26 (push_bit 26 (ucast imm)))"

definition decode_cj_imm :: "u16 \<Rightarrow> i32" where
  "decode_cj_imm h =
     (let b11 = bits_at h 12 1;
          b4 = bits_at h 11 1;
          b9_8 = bits_at h 9 0x3;
          b10 = bits_at h 8 1;
          b6 = bits_at h 7 1;
          b7 = bits_at h 6 1;
          b3_1 = bits_at h 3 0x7;
          b5 = bits_at h 2 1;
          imm = push_bit 11 b11 OR push_bit 10 b10 OR push_bit 8 b9_8 OR push_bit 7 b7
                OR push_bit 6 b6 OR push_bit 5 b5 OR push_bit 4 b4 OR push_bit 1 b3_1 in
      signed_drop_bit 20 (push_bit 20 (ucast imm)))"

definition decode_cb_imm :: "u16 \<Rightarrow> i32" where
  "decode_cb_imm h =
     (let b8 = bits_at h 12 1;
          b4_3 = bits_at h 10 0x3;
          b7_6 = bits_at h 5 0x3;
          b2_1 = bits_at h 3 0x3;
          b5 = bits_at h 2 1;
          imm = push_bit 8 b8 OR push_bit 6 b7_6 OR push_bit 5 b5 OR push_bit 3 b4_3
                OR push_bit 1 b2_1 in
      signed_drop_bit 23 (push_bit 23 (ucast imm)))"

text \<open>The first, discarded immediate of \<open>c.addi4spn\<close> (\<open>let _ = imm\<close>) has no effect and is left
  out; \<open>n\<close> is the one the source uses.\<close>

definition decompress_q0 :: "u16 \<Rightarrow> u16 \<Rightarrow> inst" where
  "decompress_q0 h f3 =
     (let rs1c = creg (bits_at h 7 0b111);
          rdrs2c = creg (bits_at h 2 0b111) in
      if f3 = 0b000 then
        (let n = push_bit 4 (bits_at h 11 0x3) OR push_bit 6 (bits_at h 7 0xF)
                 OR push_bit 2 (bits_at h 6 0x1) OR push_bit 3 (bits_at h 5 0x1) in
         if n = 0 then Reserved (ucast h) else AluImm Addi rdrs2c 2 (ucast n))
      else if f3 = 0b010 then
        (let imm = push_bit 3 (bits_at h 10 0x7) OR push_bit 2 (bits_at h 6 0x1)
                   OR push_bit 6 (bits_at h 5 0x1) in
         Load Lw rdrs2c rs1c (ucast imm))
      else if f3 = 0b011 then
        (let imm = push_bit 3 (bits_at h 10 0x7) OR push_bit 6 (bits_at h 5 0x3) in
         Load Ld rdrs2c rs1c (ucast imm))
      else if f3 = 0b110 then
        (let imm = push_bit 3 (bits_at h 10 0x7) OR push_bit 2 (bits_at h 6 0x1)
                   OR push_bit 6 (bits_at h 5 0x1) in
         Store Sw rs1c rdrs2c (ucast imm))
      else if f3 = 0b111 then
        (let imm = push_bit 3 (bits_at h 10 0x7) OR push_bit 6 (bits_at h 5 0x3) in
         Store Sd rs1c rdrs2c (ucast imm))
      else Reserved (ucast h))"

definition decompress_q1_misc_alu :: "u16 \<Rightarrow> inst" where
  "decompress_q1_misc_alu h =
     (let f6_10 = bits_at h 10 0b11;
          rdrs1c = creg (bits_at h 7 0b111) in
      if f6_10 = 0b00 \<or> f6_10 = 0b01 then
        (let shamt = ucast (push_bit 5 (bits_at h 12 1) OR bits_at h 2 0x1F) in
         if f6_10 = 0b00 then ShiftImm Srli rdrs1c rdrs1c shamt
         else ShiftImm Srai rdrs1c rdrs1c shamt)
      else if f6_10 = 0b10 then AluImm Andi rdrs1c rdrs1c (decode_ci_imm6 h)
      else if f6_10 = 0b11 then
        (let rs2c = creg (bits_at h 2 0b111);
             bit12 = bits_at h 12 1;
             f2 = bits_at h 5 0b11 in
         if (bit12, f2) = (0, 0b00) then Alu Sub rdrs1c rdrs1c rs2c
         else if (bit12, f2) = (0, 0b01) then Alu Xor rdrs1c rdrs1c rs2c
         else if (bit12, f2) = (0, 0b10) then Alu Or rdrs1c rdrs1c rs2c
         else if (bit12, f2) = (0, 0b11) then Alu And rdrs1c rdrs1c rs2c
         else if (bit12, f2) = (1, 0b00) then Alu Subw rdrs1c rdrs1c rs2c
         else if (bit12, f2) = (1, 0b01) then Alu Addw rdrs1c rdrs1c rs2c
         else Reserved (ucast h))
      else Reserved (ucast h))"

definition decompress_q1 :: "u16 \<Rightarrow> u16 \<Rightarrow> inst" where
  "decompress_q1 h f3 =
     (let rd = ucast (bits_at h 7 0x1F) :: u8 in
      if f3 = 0b000 then
        (if rd = 0 then AluImm Addi 0 0 0 else AluImm Addi rd rd (decode_ci_imm6 h))
      else if f3 = 0b001 then
        (if rd = 0 then Reserved (ucast h) else AluImm Addiw rd rd (decode_ci_imm6 h))
      else if f3 = 0b010 then
        (if rd = 0 then Reserved (ucast h) else AluImm Addi rd 0 (decode_ci_imm6 h))
      else if f3 = 0b011 then
        (if rd = 2 then
           (let imm = push_bit 9 (bits_at h 12 1) OR push_bit 4 (bits_at h 6 1)
                      OR push_bit 6 (bits_at h 5 1) OR push_bit 7 (bits_at h 3 0x3)
                      OR push_bit 5 (bits_at h 2 1);
                sx = signed_drop_bit 22 (push_bit 22 (ucast imm)) :: i32 in
            if sx = 0 then Reserved (ucast h) else AluImm Addi 2 2 sx)
         else if rd = 0 then Reserved (ucast h)
         else
           (let h = ucast h :: u32;
                imm = push_bit 17 (bits_at h 12 1) OR push_bit 12 (bits_at h 2 0x1F);
                sx = signed_drop_bit 14 (push_bit 14 imm) :: i32 in
            if sx = 0 then Reserved (h AND 0xFFFF) else Lui rd sx))
      else if f3 = 0b100 then decompress_q1_misc_alu h
      else if f3 = 0b101 then Jal 0 (decode_cj_imm h)
      else if f3 = 0b110 \<or> f3 = 0b111 then
        (let rs1 = creg (bits_at h 7 0b111);
             imm = decode_cb_imm h in
         if f3 = 0b110 then Branch Beq rs1 0 imm else Branch Bne rs1 0 imm)
      else Reserved (ucast h))"

definition decompress_q2 :: "u16 \<Rightarrow> u16 \<Rightarrow> inst" where
  "decompress_q2 h f3 =
     (let rdrs1 = ucast (bits_at h 7 0x1F) :: u8;
          rs2 = ucast (bits_at h 2 0x1F) :: u8 in
      if f3 = 0b000 then
        (if rdrs1 = 0 then Reserved (ucast h)
         else ShiftImm Slli rdrs1 rdrs1 (ucast (push_bit 5 (bits_at h 12 1) OR bits_at h 2 0x1F)))
      else if f3 = 0b010 then
        (if rdrs1 = 0 then Reserved (ucast h)
         else
           let imm = push_bit 5 (bits_at h 12 1) OR push_bit 2 (bits_at h 4 0x7)
                     OR push_bit 6 (bits_at h 2 0x3) in
           Load Lw rdrs1 2 (ucast imm))
      else if f3 = 0b011 then
        (if rdrs1 = 0 then Reserved (ucast h)
         else
           let imm = push_bit 5 (bits_at h 12 1) OR push_bit 3 (bits_at h 5 0x3)
                     OR push_bit 6 (bits_at h 2 0x7) in
           Load Ld rdrs1 2 (ucast imm))
      else if f3 = 0b100 then
        (let bit12 = bits_at h 12 1 in
         if bit12 = 0 \<and> rs2 = 0 \<and> rdrs1 \<noteq> 0 then Jalr 0 rdrs1 0
         else if bit12 = 0 \<and> rdrs1 \<noteq> 0 \<and> rs2 \<noteq> 0 then Alu Add rdrs1 0 rs2
         else if bit12 = 1 \<and> rdrs1 = 0 \<and> rs2 = 0 then Reserved (ucast h)
         else if bit12 = 1 \<and> rs2 = 0 \<and> rdrs1 \<noteq> 0 then Jalr 1 rdrs1 0
         else if bit12 = 1 \<and> rdrs1 \<noteq> 0 \<and> rs2 \<noteq> 0 then Alu Add rdrs1 rdrs1 rs2
         else Reserved (ucast h))
      else if f3 = 0b110 then
        (let imm = push_bit 2 (bits_at h 9 0xF) OR push_bit 6 (bits_at h 7 0x3) in
         Store Sw 2 rs2 (ucast imm))
      else if f3 = 0b111 then
        (let imm = push_bit 3 (bits_at h 10 0x7) OR push_bit 6 (bits_at h 7 0x7) in
         Store Sd 2 rs2 (ucast imm))
      else Reserved (ucast h))"

definition decompress :: "u16 \<Rightarrow> inst" where
  "decompress h =
     (let op = h AND 0b11;
          f3 = bits_at h 13 0b111 in
      if op = 0b00 then decompress_q0 h f3
      else if op = 0b01 then decompress_q1 h f3
      else if op = 0b10 then decompress_q2 h f3
      else Reserved (ucast h))"

section \<open>\<open>decode\<close>\<close>

definition reserve_if_reserved_reg :: "inst \<Rightarrow> u32 \<Rightarrow> inst" where
  "reserve_if_reserved_reg inst raw = (if uses_reserved_reg inst then Reserved raw else inst)"

definition decode :: "bytes \<Rightarrow> (inst \<times> u8) option" where
  "decode bs =
     (if length bs < 2 then None
      else
        let lo16 = from_le_bytes [bs ! 0, bs ! 1] :: u16 in
        if lo16 AND 0b11 \<noteq> 0b11 then
          Some (reserve_if_reserved_reg (decompress lo16) (ucast lo16), 2)
        else if length bs < 4 then None
        else
          let w = from_le_bytes [bs ! 0, bs ! 1, bs ! 2, bs ! 3] :: u32 in
          Some (reserve_if_reserved_reg (decode_32 w) w, 4))"

end
