(* ===== verification/Decoder.thy ===== *)
theory Decoder
  imports Instruction
begin

text \<open>
  What the decoder of \<open>Instruction\<close> guarantees: the shape of every decoded instruction (register
  indices, immediates and shift amounts in range), the length it reports, that it only looks at
  the bytes it consumes, and that the raw-word register predicates used by the recompiler agree
  with the decoded instruction.
\<close>

section \<open>Well-formed instructions\<close>

definition within :: "nat \<Rightarrow> i32 \<Rightarrow> bool" where
  "within n imm \<longleftrightarrow> - (2 ^ n) \<le> sint imm \<and> sint imm < 2 ^ n"

text \<open>Immediates and shift amounts in the range of their encoding; \<open>slli.uw\<close> never has a shift
  amount of 32 or more.\<close>

fun wf_imm :: "inst \<Rightarrow> bool" where
  "wf_imm (Load _ rd rs1 imm) = within 11 imm"
| "wf_imm (Store _ rs1 rs2 imm) = within 11 imm"
| "wf_imm (AluImm _ rd rs1 imm) = within 11 imm"
| "wf_imm (ShiftImm opr rd rs1 shamt) =
     (shamt < (if opr \<in> {Slli, Srli, Srai} then 64 else 32))"
| "wf_imm (ZbbImm opr rd rs1 shamt) = (shamt < (if opr = Rori then 64 else 32))"
| "wf_imm (Slliuw rd rs1 shamt) = (shamt < 32)"
| "wf_imm (ZbsImm _ rd rs1 shamt) = (shamt < 64)"
| "wf_imm (Lui rd imm) = (take_bit 12 imm = 0)"
| "wf_imm (Auipc rd imm) = (take_bit 12 imm = 0)"
| "wf_imm (Jal rd imm) = (even (sint imm) \<and> within 20 imm)"
| "wf_imm (Jalr rd rs1 imm) = within 11 imm"
| "wf_imm (Branch _ rs1 rs2 imm) = (even (sint imm) \<and> within 12 imm)"
| "wf_imm (Ecalli imm) = within 11 imm"
| "wf_imm _ = True"

text \<open>The fields of an instruction that name a register.\<close>

fun inst_regs :: "inst \<Rightarrow> u8 list" where
  "inst_regs (Load _ rd rs1 _) = [rd, rs1]"
| "inst_regs (Store _ rs1 rs2 _) = [rs1, rs2]"
| "inst_regs (AluImm _ rd rs1 _) = [rd, rs1]"
| "inst_regs (ShiftImm _ rd rs1 _) = [rd, rs1]"
| "inst_regs (Alu _ rd rs1 rs2) = [rd, rs1, rs2]"
| "inst_regs (MulDiv _ rd rs1 rs2) = [rd, rs1, rs2]"
| "inst_regs (ZbbUnary _ rd rs1) = [rd, rs1]"
| "inst_regs (Zbb _ rd rs1 rs2) = [rd, rs1, rs2]"
| "inst_regs (ZbbImm _ rd rs1 _) = [rd, rs1]"
| "inst_regs (Zba _ rd rs1 rs2) = [rd, rs1, rs2]"
| "inst_regs (Slliuw rd rs1 _) = [rd, rs1]"
| "inst_regs (Zbs _ rd rs1 rs2) = [rd, rs1, rs2]"
| "inst_regs (ZbsImm _ rd rs1 _) = [rd, rs1]"
| "inst_regs (Zicond _ rd rs1 rs2) = [rd, rs1, rs2]"
| "inst_regs (Lui rd _) = [rd]"
| "inst_regs (Auipc rd _) = [rd]"
| "inst_regs (Jal rd _) = [rd]"
| "inst_regs (Jalr rd rs1 _) = [rd, rs1]"
| "inst_regs (Branch _ rs1 rs2 _) = [rs1, rs2]"
| "inst_regs _ = []"

definition wf_inst :: "inst \<Rightarrow> bool" where
  "wf_inst i \<longleftrightarrow> (\<forall>r \<in> set (inst_regs i). r < 16) \<and> wf_imm i"

text \<open>What holds before \<open>reserve_if_reserved_reg\<close>: register fields of five bits.\<close>

definition wf_raw :: "inst \<Rightarrow> bool" where
  "wf_raw i \<longleftrightarrow> (\<forall>r \<in> set (inst_regs i). r < 32) \<and> wf_imm i"

fun is_reserved :: "inst \<Rightarrow> bool" where
  "is_reserved (Reserved raw) = True"
| "is_reserved _ = False"

text \<open>The equations that evaluate the decoder on concrete bytes.\<close>

lemmas decode_evals =
  decode_def from_le_bytes_def Let_def decode_32_def opcode_simps decode_load_def decode_store_def
  decode_op_imm_def decode_op_imm_32_def decode_op_def decode_op_32_def decode_branch_def
  decode_misc_mem_def decode_custom_0_def imm_i_def imm_s_def imm_b_def imm_j_def rs2_field_def
  decompress_def decompress_q0_def decompress_q1_def decompress_q1_misc_alu_def decompress_q2_def
  creg_def decode_ci_imm6_def decode_cj_imm_def decode_cb_imm_def reserve_if_reserved_reg_def
  reg_is_reserved_def reg_is_spilled_def classify_reg_def

section \<open>Ranges of the fields\<close>

lemma within_mono: "within m x \<Longrightarrow> m \<le> n \<Longrightarrow> within n x"
proof -
  assume "within m x" "m \<le> n"
  moreover have "(2::int) ^ m \<le> 2 ^ n" using \<open>m \<le> n\<close> by (rule power_increasing) simp
  ultimately show ?thesis by (simp only: within_def) linarith
qed

lemma signed_drop_bit_range:
  fixes w :: "32 word"
  assumes "n < 32"
  shows "within (31 - n) (signed_drop_bit n w)"
proof -
  have b: "- (2 ^ 31) \<le> sint w" "sint w < 2 ^ 31"
    using sint_ge [of w] sint_lt [of w] by simp_all
  have p: "(2::int) ^ 31 = 2 ^ (31 - n) * 2 ^ n" using assms by (simp flip: power_add)
  have "sint (signed_drop_bit n w) = sint w div 2 ^ n" 
    by (simp add: sint_signed_drop_bit_eq drop_bit_eq_div)
  moreover have "- (2 ^ (31 - n)) * 2 ^ n div 2 ^ n \<le> sint w div (2 ^ n :: int)"
    by (rule zdiv_mono1) (use b p in simp_all)
  moreover have "sint w div (2 ^ n :: int) < 2 ^ (31 - n)"
  proof (rule mult_right_less_imp_less [of _ "2 ^ n"])
    have "sint w div 2 ^ n * 2 ^ n \<le> sint w" by (simp flip: minus_mod_eq_div_mult)
    then show "sint w div 2 ^ n * 2 ^ n < (2 ^ (31 - n) * 2 ^ n :: int)" using b p by simp
  qed simp
  moreover have "- (2 ^ (31 - n)) * 2 ^ n div 2 ^ n = - (2 ^ (31 - n) :: int)"
    by (rule nonzero_mult_div_cancel_right) simp
  ultimately show ?thesis by (simp add: within_def)
qed

lemma imm_b_even: "\<not> bit (imm_b w) 0"
  unfolding imm_b_def Let_def bit_unfold by simp

lemma imm_j_even: "\<not> bit (imm_j w) 0"
  unfolding imm_j_def Let_def bit_unfold by simp

lemma cj_imm_even: "\<not> bit (decode_cj_imm h) 0"
  unfolding decode_cj_imm_def Let_def bit_unfold by simp

lemma cb_imm_even: "\<not> bit (decode_cb_imm h) 0"
  unfolding decode_cb_imm_def Let_def bit_unfold by simp

lemma ucast_u16_range:
  fixes h :: u16
  assumes "\<And>k. n \<le> k \<Longrightarrow> \<not> bit h k" 
  shows "0 \<le> sint (ucast h :: 32 word) \<and> sint (ucast h :: 32 word) < 2 ^ n"
proof -
  have "take_bit n h = h" using assms by (intro bit_eqI) (auto simp: bit_take_bit_iff not_less [symmetric])
  then have "uint h < 2 ^ n" by (metis unsigned_take_bit_eq take_bit_int_less_exp)
  moreover have "uint h < 2 ^ 16" using unsigned_less [of h] by simp
  moreover have "sint (ucast h :: 32 word) = uint h"
    by (simp add: signed_ucast_eq signed_take_bit_int_eq_self_iff) (use \<open>uint h < 2 ^ 16\<close> in \<open>simp add: order_trans [of _ 0]\<close>)
  ultimately show ?thesis by simp
qed

lemma within_ucast_u16:
  "(\<And>k. 11 \<le> k \<Longrightarrow> \<not> bit (h :: u16) k) \<Longrightarrow> within 11 (ucast h)" 
  using ucast_u16_range [of 11 h] by (simp add: within_def)

lemma creg_less: "creg (h AND 7) < 32"
proof -
  have "unat (h AND 7) \<le> 7" 
    using and_mask_less' [of 3 h] by (simp add: word_less_nat_alt mask_eq_exp_minus_1)
  then show ?thesis by (simp add: creg_def word_less_nat_alt unat_word_ariths unsigned_ucast_eq take_bit_eq_mod)
qed

lemma reg5_less32: "ucast (w AND 31 :: u32) < (32 :: u8)"
  using and_mask_less' [of 5 w] by (simp add: word_less_nat_alt mask_eq_exp_minus_1 unsigned_ucast_eq take_bit_eq_mod)

lemma reg5_less16: "ucast (h AND 31 :: u16) < (32 :: u8)"
  using and_mask_less' [of 5 h] by (simp add: word_less_nat_alt mask_eq_exp_minus_1 unsigned_ucast_eq take_bit_eq_mod)

lemma sh6_less32: "ucast (w AND 63 :: u32) < (64 :: u8)"
  using and_mask_less' [of 6 w] by (simp add: word_less_nat_alt mask_eq_exp_minus_1 unsigned_ucast_eq take_bit_eq_mod)

lemma shamt_rvc_less: "ucast (push_bit 5 (bits_at h 12 1) OR bits_at h 2 31 :: u16) < (64 :: u8)"
proof -
  have "ucast (push_bit 5 (bits_at h 12 1) OR bits_at h 2 31 :: u16) < (2 ^ 6 :: u8)"
    by (rule word_less_exp) (unfold mask16 bit_unfold, auto)
  then show ?thesis by simp
qed

lemma slliuw_shamt:
  assumes "bits_at w 25 127 = (4 :: u32)" shows "ucast (bits_at w 20 63) < (32 :: u8)"
proof -
  have "\<not> bit (bits_at w 25 127) 0" by (simp add: assms)
  then have "\<not> bit w 25" by (simp add: bit_unfold)
  then have "ucast (bits_at w 20 63) < (2 ^ 5 :: u8)"
    apply (intro word_less_exp) apply (unfold mask32 bit_unfold) 
    apply (auto simp: less_Suc_eq eval_nat_numeral) done
  then show ?thesis by simp
qed

lemma sint_even: "even (sint w) \<longleftrightarrow> \<not> bit w 0" for w :: i32
  using bit_sint_iff [of w 0] by (simp add: bit_0)

lemma imm_ranges:
  "within 11 (imm_i w)" "within 11 (imm_s w)" "within 12 (imm_b w)" "within 20 (imm_j w)"
  "within 11 (decode_ci_imm6 h)" "within 20 (decode_cj_imm h)" "within 12 (decode_cb_imm h)"
  unfolding imm_i_def imm_s_def imm_b_def imm_j_def decode_ci_imm6_def decode_cj_imm_def decode_cb_imm_def Let_def
  by (rule within_mono, rule signed_drop_bit_range, simp, simp)+

lemmas field_bounds = creg_less reg5_less32 reg5_less16 sh6_less32 shamt_rvc_less imm_ranges sint_even
  imm_b_even imm_j_even cj_imm_even cb_imm_even

section \<open>Every decoder yields five-bit registers and ranged immediates\<close>

lemma if_wf_raw: "(c \<Longrightarrow> wf_raw a) \<Longrightarrow> (\<not> c \<Longrightarrow> wf_raw b) \<Longrightarrow> wf_raw (if c then a else b)"
  by simp

lemma wf_raw_load: "rd < 32 \<Longrightarrow> rs1 < 32 \<Longrightarrow> wf_raw (decode_load w rd rs1 f3)"
  unfolding decode_load_def Let_def
  by (intro if_wf_raw) (simp_all add: wf_raw_def imm_ranges)

lemma wf_raw_store: "rs1 < 32 \<Longrightarrow> rs2 < 32 \<Longrightarrow> wf_raw (decode_store w rs1 rs2 f3)"
  unfolding decode_store_def Let_def
  by (intro if_wf_raw) (simp_all add: wf_raw_def imm_ranges)

lemma wf_raw_op_imm: "rd < 32 \<Longrightarrow> rs1 < 32 \<Longrightarrow> wf_raw (decode_op_imm w rd rs1 f3)"
  unfolding decode_op_imm_def Let_def
  by (intro if_wf_raw) (simp_all add: wf_raw_def field_bounds)

lemma wf_raw_op_imm_32: "rd < 32 \<Longrightarrow> rs1 < 32 \<Longrightarrow> wf_raw (decode_op_imm_32 w rd rs1 f3)"
  unfolding decode_op_imm_32_def Let_def
  by (intro if_wf_raw) (simp_all add: wf_raw_def field_bounds slliuw_shamt)

lemma wf_raw_op: "rd < 32 \<Longrightarrow> rs1 < 32 \<Longrightarrow> rs2 < 32 \<Longrightarrow> wf_raw (decode_op rd rs1 rs2 f3 f7 w)"
  unfolding decode_op_def Let_def
  by (intro if_wf_raw) (simp_all add: wf_raw_def)

lemma wf_raw_op_32: "rd < 32 \<Longrightarrow> rs1 < 32 \<Longrightarrow> rs2 < 32 \<Longrightarrow> wf_raw (decode_op_32 rd rs1 rs2 f3 f7 w)"
  unfolding decode_op_32_def Let_def
  by (intro if_wf_raw) (simp_all add: wf_raw_def)

lemma wf_raw_branch: "rs1 < 32 \<Longrightarrow> rs2 < 32 \<Longrightarrow> wf_raw (decode_branch rs1 rs2 f3 (imm_b w) w)"
  unfolding decode_branch_def Let_def
  by (intro if_wf_raw) (simp_all add: wf_raw_def field_bounds)

lemma wf_raw_decode_32: "wf_raw (decode_32 w)"
  unfolding decode_32_def Let_def
  apply (intro if_wf_raw wf_raw_load wf_raw_store wf_raw_op_imm wf_raw_op_imm_32 wf_raw_op wf_raw_op_32 wf_raw_branch)
  apply (simp_all add: reg5_less32)
  apply (simp_all add: wf_raw_def decode_misc_mem_def decode_custom_0_def field_bounds)
  done

lemma wf_raw_intros:
  "wf_raw a \<Longrightarrow> wf_raw b \<Longrightarrow> wf_raw (if c then a else b)"
  "rd < 32 \<Longrightarrow> rs1 < 32 \<Longrightarrow> within 11 imm \<Longrightarrow> wf_raw (Load lop rd rs1 imm)"
  "rs1 < 32 \<Longrightarrow> rs2 < 32 \<Longrightarrow> within 11 imm \<Longrightarrow> wf_raw (Store sop rs1 rs2 imm)"
  "rd < 32 \<Longrightarrow> rs1 < 32 \<Longrightarrow> within 11 imm \<Longrightarrow> wf_raw (AluImm aop rd rs1 imm)"
  "rd < 32 \<Longrightarrow> rs1 < 32 \<Longrightarrow> sh < 64 \<Longrightarrow> wf_raw (ShiftImm Slli rd rs1 sh)"
  "rd < 32 \<Longrightarrow> rs1 < 32 \<Longrightarrow> sh < 64 \<Longrightarrow> wf_raw (ShiftImm Srli rd rs1 sh)"
  "rd < 32 \<Longrightarrow> rs1 < 32 \<Longrightarrow> sh < 64 \<Longrightarrow> wf_raw (ShiftImm Srai rd rs1 sh)"
  "rd < 32 \<Longrightarrow> rs1 < 32 \<Longrightarrow> rs2 < 32 \<Longrightarrow> wf_raw (Alu rop rd rs1 rs2)"
  "rd < 32 \<Longrightarrow> rs1 < 32 \<Longrightarrow> within 11 imm \<Longrightarrow> wf_raw (Jalr rd rs1 imm)"
  "rd < 32 \<Longrightarrow> \<not> bit imm 0 \<Longrightarrow> within 20 imm \<Longrightarrow> wf_raw (Jal rd imm)"
  "rs1 < 32 \<Longrightarrow> rs2 < 32 \<Longrightarrow> \<not> bit imm 0 \<Longrightarrow> within 12 imm \<Longrightarrow> wf_raw (Branch bop rs1 rs2 imm)"
  "rd < 32 \<Longrightarrow> take_bit 12 imm = 0 \<Longrightarrow> wf_raw (Lui rd imm)"
  "wf_raw (Reserved raw)"
  by (simp_all add: wf_raw_def sint_even)

lemma reg_consts: "(0::u8) < 32" "(1::u8) < 32" "(2::u8) < 32" "within 11 0"
  by (simp_all add: within_def)

lemma addi16sp_range: "within 11 (signed_drop_bit 22 w)"
  by (rule within_mono, rule signed_drop_bit_range) simp_all

lemma lui_rvc: "take_bit 12 (signed_drop_bit 14 (push_bit 14 (push_bit 17 a OR push_bit 12 b))) = (0 :: i32)"
  by (rule bit_word_eqI) (simp only: bit_unfold bit_take_bit_iff, auto)

lemma wf_raw_q0: "wf_raw (decompress_q0 h f3)"
  unfolding decompress_q0_def Let_def
  by (intro wf_raw_intros field_bounds reg_consts; rule within_ucast_u16; unfold mask16 bit_unfold; auto)

lemma wf_raw_q1_misc_alu: "wf_raw (decompress_q1_misc_alu h)"
  unfolding decompress_q1_misc_alu_def Let_def
  by (intro wf_raw_intros field_bounds reg_consts)

lemma wf_raw_q1: "wf_raw (decompress_q1 h f3)"
  unfolding decompress_q1_def Let_def
  by (intro wf_raw_intros field_bounds reg_consts wf_raw_q1_misc_alu addi16sp_range lui_rvc)

lemma wf_raw_q2: "wf_raw (decompress_q2 h f3)"
  unfolding decompress_q2_def Let_def
  by (intro wf_raw_intros field_bounds reg_consts; rule within_ucast_u16; unfold mask16 bit_unfold; auto)

lemma wf_raw_decompress: "wf_raw (decompress h)"
  unfolding decompress_def Let_def
  by (intro wf_raw_intros wf_raw_q0 wf_raw_q1 wf_raw_q2)

section \<open>\<open>decode\<close>\<close>

lemma uses_reserved_reg_iff: "uses_reserved_reg i \<longleftrightarrow> (\<exists>r \<in> set (inst_regs i). reg_is_reserved r)"
  by (cases i) auto

lemma reserved_reg_less:
  assumes "r < (32 :: u8)" shows "reg_is_reserved r \<longleftrightarrow> \<not> r < 16"
  using assms by (simp add: reg_is_reserved_iff word_less_nat_alt not_less)

lemma wf_inst_raw: "wf_raw i \<Longrightarrow> \<not> uses_reserved_reg i \<Longrightarrow> wf_inst i"
  by (auto simp: wf_raw_def wf_inst_def uses_reserved_reg_iff reserved_reg_less)

lemma wf_reserve: "wf_raw i \<Longrightarrow> wf_inst (reserve_if_reserved_reg i raw)"
  by (auto simp: reserve_if_reserved_reg_def wf_inst_raw) (simp add: wf_inst_def)

lemma decode_cases:
  assumes "decode bs = Some (i, n)"
  obtains (compressed) h where "2 \<le> length bs" "h = from_le_bytes [bs ! 0, bs ! 1]" "h AND 3 \<noteq> 3" "n = 2" "i = reserve_if_reserved_reg (decompress h) (ucast h)"
  | (full) w where "4 \<le> length bs" "w = from_le_bytes [bs ! 0, bs ! 1, bs ! 2, bs ! 3]" "(from_le_bytes [bs ! 0, bs ! 1] :: u16) AND 3 = 3" "n = 4" "i = reserve_if_reserved_reg (decode_32 w) w"
  using assms by (auto simp: decode_def Let_def split: if_splits)

lemma decode_wf_inst: "decode bs = Some (i, n) \<Longrightarrow> wf_inst i"
  by (erule decode_cases) (simp_all add: wf_reserve wf_raw_decompress wf_raw_decode_32)

lemma decode_length: "decode bs = Some (i, n) \<Longrightarrow> (n = 2 \<or> n = 4) \<and> unat n \<le> length bs"
  by (erule decode_cases) simp_all

lemma decode_None_iff:
  "decode bs = None \<longleftrightarrow>
     length bs < 2 \<or> (length bs < 4 \<and> (from_le_bytes [bs ! 0, bs ! 1] :: u16) AND 0b11 = 0b11)"
  by (auto simp: decode_def Let_def)


text \<open>\<open>decode\<close> depends only on the bytes of the instruction it returns: the same prefix followed
  by anything decodes to the same instruction and length, so decoding a suffix of the code region
  and decoding a longer buffer agree.\<close>

theorem decode_prefix: 
  assumes "decode bs = Some (i, n)"
  shows "decode (take (unat n) bs @ xs) = Some (i, n)"
  using assms by (rule decode_cases) (simp_all add: decode_def nth_append Let_def)

theorem decode_prefix_witness:
  "decode (take (unat (4 :: u8)) [0x93, 0x00, 0x10, 0x00, 0xFF] @ [0x01]) =
     Some (AluImm Addi 1 0 1, 4)"
  by (rule decode_prefix) (simp add: decode_evals)

section \<open>Raw-word register predicates\<close>

definition names_regs :: "u8 list \<Rightarrow> inst \<Rightarrow> bool" where
  "names_regs rs i \<longleftrightarrow> is_reserved i \<or> inst_regs i = rs"

definition class_ok where
  "class_ok pred w i \<longleftrightarrow> is_reserved i \<or> (word_reg_class_hits w pred \<longleftrightarrow> (\<exists>r \<in> set (inst_regs i). pred r))"

lemma names_regs_if: "names_regs rs a \<Longrightarrow> names_regs rs b \<Longrightarrow> names_regs rs (if c then a else b)"
  by simp

lemma low7: "w AND 127 = push_bit 2 (bits_at w 2 31) OR (w AND 3)" for w :: u32
proof (rule bit_word_eqI)
  fix n assume "n < LENGTH(32)"
  then show "bit (w AND 127) n = bit (push_bit 2 (bits_at w 2 31) OR (w AND 3)) n"
    unfolding mask32 bit_unfold by (cases n rule: nat.exhaust; cases "n - 1") auto
qed

lemma names_regs_decoders:
  "names_regs [rd, rs1] (decode_load w rd rs1 f3)"
  "names_regs [rs1, rs2] (decode_store w rs1 rs2 f3)"
  "names_regs [rd, rs1] (decode_op_imm w rd rs1 f3)"
  "names_regs [rd, rs1] (decode_op_imm_32 w rd rs1 f3)"
  "names_regs [rd, rs1, rs2] (decode_op_32 rd rs1 rs2 f3 f7 w)"
  "names_regs [rs1, rs2] (decode_branch rs1 rs2 f3 imm w)"
  "names_regs [] (decode_misc_mem f3)"
  "names_regs [] (decode_custom_0 w rd rs1 f3)"
  unfolding decode_load_def decode_store_def decode_op_imm_def decode_op_imm_32_def decode_op_32_def
    decode_branch_def decode_misc_mem_def decode_custom_0_def Let_def
  by (intro names_regs_if; simp add: names_regs_def)+

lemma names_regs_op:
  "names_regs [rd, rs1, rs2] (decode_op rd rs1 rs2 f3 f7 w) \<or>
   rs2 = 0 \<and> names_regs [rd, rs1] (decode_op rd rs1 rs2 f3 f7 w)"
proof (cases "(f7, f3) = (0b0000100, 0b100) \<and> rs2 = 0")
  case True
  then show ?thesis by (simp add: decode_op_def names_regs_def)
next
  case False
  then have "names_regs [rd, rs1, rs2] (decode_op rd rs1 rs2 f3 f7 w)"
    unfolding decode_op_def if_not_P [OF False] by (intro names_regs_if; simp add: names_regs_def)
  then show ?thesis ..
qed

lemma class_ok_if: "(c \<Longrightarrow> class_ok p w a) \<Longrightarrow> (\<not> c \<Longrightarrow> class_ok p w b) \<Longrightarrow> class_ok p w (if c then a else b)"
  by simp

lemma class_okI: "names_regs rs i \<Longrightarrow> word_reg_class_hits w pred \<longleftrightarrow> (\<exists>r \<in> set rs. pred r) \<Longrightarrow> class_ok pred w i"
  by (auto simp: class_ok_def names_regs_def)

lemma class_hits_major:
  assumes "w AND 3 = 3" "bits_at w 2 31 = m"
  shows "m = OP_LOAD \<or> m = OP_IMM \<or> m = OP_OP_IMM_32 \<or> m = OP_JALR \<Longrightarrow>
           word_reg_class_hits w pred \<longleftrightarrow> (\<exists>r \<in> set [ucast (bits_at w 7 31), ucast (bits_at w 15 31)]. pred r)"
    and "m = OP_STORE \<or> m = OP_BRANCH \<Longrightarrow>
           word_reg_class_hits w pred \<longleftrightarrow> (\<exists>r \<in> set [ucast (bits_at w 15 31), ucast (bits_at w 20 31)]. pred r)"
    and "m = OP_OP \<or> m = OP_OP_32 \<Longrightarrow>
           word_reg_class_hits w pred \<longleftrightarrow> (\<exists>r \<in> set [ucast (bits_at w 7 31), ucast (bits_at w 15 31), ucast (bits_at w 20 31)]. pred r)"
    and "m = OP_LUI \<or> m = OP_AUIPC \<or> m = OP_JAL \<Longrightarrow>
           word_reg_class_hits w pred \<longleftrightarrow> (\<exists>r \<in> set [ucast (bits_at w 7 31)]. pred r)"
    and "m = OP_MISC_MEM \<or> m = OP_CUSTOM_0 \<Longrightarrow>
           word_reg_class_hits w pred \<longleftrightarrow> (\<exists>r \<in> set []. pred r)"
  using assms
  by (elim disjE; simp add: word_reg_class_hits_def low7 [of w] Let_def opcode_simps)+

lemma class_ok_op:
  assumes "\<not> pred 0" "word_reg_class_hits w pred \<longleftrightarrow> (\<exists>r \<in> set [rd, rs1, rs2]. pred r)"
  shows "class_ok pred w (decode_op rd rs1 rs2 f3 f7 w)"
  using names_regs_op [of rd rs1 rs2 f3 f7 w] assms by (auto simp: class_ok_def names_regs_def)

lemma class_ok_decode_32:
  assumes "w AND 3 = 3" "\<not> pred 0"
  shows "class_ok pred w (decode_32 w)"
proof -
  note hits = class_hits_major [OF assms(1) refl]
  have regs: "names_regs [rd] (Lui rd imm)" "names_regs [rd] (Auipc rd imm)" "names_regs [rd] (Jal rd imm)" 
    "names_regs [rd, rs1] (Jalr rd rs1 imm)" for rd rs1 imm by (simp_all add: names_regs_def)
  have res: "class_ok pred w (Reserved raw)" for raw by (simp add: class_ok_def)
  show ?thesis
    unfolding decode_32_def Let_def
    by (intro class_ok_if res class_ok_op [where pred = pred, OF assms(2)]; 
        (rule class_okI, rule names_regs_decoders regs)?, rule hits, simp)
qed

text \<open>The recompiler classifies raw words, the interpreter decoded instructions. For every
  32-bit encoding that decodes to an instruction, \<open>word_uses_reserved_reg\<close> and
  \<open>word_uses_spilled_reg\<close> on the word say exactly which register fields of the decoded
  instruction are reserved or spilled.\<close>

theorem word_predicates_agree:
  assumes "w AND 0b11 = 0b11" "\<not> is_reserved (decode_32 w)"
  shows "word_uses_reserved_reg w = uses_reserved_reg (decode_32 w) \<and>
         word_uses_spilled_reg w = (\<exists>r \<in> set (inst_regs (decode_32 w)). reg_is_spilled r)"
proof -
  have "\<not> reg_is_reserved 0" "\<not> reg_is_spilled 0" by (simp_all add: decode_evals)
  then show ?thesis
    using class_ok_decode_32 [of w reg_is_reserved] class_ok_decode_32 [of w reg_is_spilled] assms
    by (simp add: class_ok_def word_uses_reserved_reg_def word_uses_spilled_reg_def
        uses_reserved_reg_iff)
qed

theorem word_predicates_agree_witness:
  "word_uses_reserved_reg 0x00310833 = uses_reserved_reg (decode_32 0x00310833) \<and>
   word_uses_spilled_reg 0x00310833 =
     (\<exists>r \<in> set (inst_regs (decode_32 0x00310833)). reg_is_spilled r)"
  by (rule word_predicates_agree) (simp_all add: decode_evals)

text \<open>The agreement stops at encodings that decode to \<open>Reserved\<close>: an \<open>OP\<close> word with an undefined
  \<open>funct7\<close> and \<open>rd = x16\<close> is flagged by the raw-word predicate only.\<close>

lemma word_predicate_reserved_differs:
  "word_uses_reserved_reg 0xFE000833 \<and> \<not> uses_reserved_reg (decode_32 0xFE000833)"
  by (simp add: decode_evals word_uses_reserved_reg_def word_reg_class_hits_def)

text \<open>The documentation of \<open>decode\<close> promises \<open>None\<close> for two zero bytes; the code returns a
  \<open>Reserved\<close> instruction of length 2.\<close>

lemma decode_zero: "decode [0, 0] = Some (Reserved 0, 2)"
  by (simp add: decode_evals)

end
