(* ===== verification/Encode.thy ===== *)
theory Encode
  imports Decoder
begin

text \<open>
  The instruction encoders of \<open>rust/javm-fuzz/src/encode.rs\<close>: the format encoders, the table
  \<open>OPS\<close> of every emitted instruction, \<open>encode_op\<close>, and the constant materialisation
  \<open>li64\<close>. They are proved inverse to the decoder.
\<close>

section \<open>Format encoders\<close>

definition enc :: "u32 list \<Rightarrow> bytes" where
  "enc words = concat (map (to_le_bytes 4) words)"

definition enc_r :: "u32 \<Rightarrow> u32 \<Rightarrow> u32 \<Rightarrow> u8 \<Rightarrow> u8 \<Rightarrow> u8 \<Rightarrow> u32" where
  "enc_r opcode funct7 funct3 rd rs1 rs2 =
     push_bit 25 funct7 OR push_bit 20 (ucast rs2) OR push_bit 15 (ucast rs1)
     OR push_bit 12 funct3 OR push_bit 7 (ucast rd) OR opcode"

definition enc_i :: "u32 \<Rightarrow> u32 \<Rightarrow> u8 \<Rightarrow> u8 \<Rightarrow> i32 \<Rightarrow> u32" where
  "enc_i opcode funct3 rd rs1 imm =
     push_bit 20 (imm AND 0xFFF) OR push_bit 15 (ucast rs1)
     OR push_bit 12 funct3 OR push_bit 7 (ucast rd) OR opcode"

definition enc_s :: "u32 \<Rightarrow> u32 \<Rightarrow> u8 \<Rightarrow> u8 \<Rightarrow> i32 \<Rightarrow> u32" where
  "enc_s opcode funct3 rs1 rs2 imm =
     push_bit 25 (bits_at imm 5 0x7F) OR push_bit 20 (ucast rs2) OR push_bit 15 (ucast rs1)
     OR push_bit 12 funct3 OR push_bit 7 (imm AND 0x1F) OR opcode"

definition enc_b :: "u32 \<Rightarrow> u32 \<Rightarrow> u8 \<Rightarrow> u8 \<Rightarrow> i32 \<Rightarrow> u32" where
  "enc_b opcode funct3 rs1 rs2 imm =
     push_bit 31 (bits_at imm 12 1) OR push_bit 25 (bits_at imm 5 0x3F)
     OR push_bit 20 (ucast rs2) OR push_bit 15 (ucast rs1) OR push_bit 12 funct3
     OR push_bit 8 (bits_at imm 1 0xF) OR push_bit 7 (bits_at imm 11 1) OR opcode"

definition enc_u :: "u32 \<Rightarrow> u8 \<Rightarrow> u32 \<Rightarrow> u32" where
  "enc_u opcode rd imm20 = push_bit 12 (imm20 AND 0xFFFFF) OR push_bit 7 (ucast rd) OR opcode"

definition i_shift64 :: "u32 \<Rightarrow> u32 \<Rightarrow> u32 \<Rightarrow> u8 \<Rightarrow> u8 \<Rightarrow> u8 \<Rightarrow> u32" where
  "i_shift64 opcode funct3 funct6 rd rs1 shamt =
     (let imm = push_bit 6 (funct6 AND 0x3F) OR (ucast shamt AND 0x3F) in
      enc_i opcode funct3 rd rs1 imm)"

definition i_shift32 :: "u32 \<Rightarrow> u32 \<Rightarrow> u32 \<Rightarrow> u8 \<Rightarrow> u8 \<Rightarrow> u8 \<Rightarrow> u32" where
  "i_shift32 opcode funct3 funct7 rd rs1 shamt =
     (let imm = push_bit 5 (funct7 AND 0x7F) OR (ucast shamt AND 0x1F) in
      enc_i opcode funct3 rd rs1 imm)"

section \<open>The instruction table\<close>

definition OP :: u32 where [opcode_simps]: "OP = 0x33"
definition OP_IMM_7 :: u32 where [opcode_simps]: "OP_IMM_7 = 0x13"
definition OP_IMM_32 :: u32 where [opcode_simps]: "OP_IMM_32 = 0x1B"
definition OP_32 :: u32 where [opcode_simps]: "OP_32 = 0x3B"
definition LOAD :: u32 where [opcode_simps]: "LOAD = 0x03"
definition STORE :: u32 where [opcode_simps]: "STORE = 0x23"
definition BRANCH :: u32 where [opcode_simps]: "BRANCH = 0x63"
definition LUI :: u32 where [opcode_simps]: "LUI = 0x37"
definition AUIPC :: u32 where [opcode_simps]: "AUIPC = 0x17"

datatype fmt = FmtR | FmtI | FmtIShift | FmtIShift32 | FmtStore | FmtBranch | FmtU | FmtUnary

record op_spec =
  op_name :: string
  op_fmt :: fmt
  op_opcode :: u32
  op_funct3 :: u32
  op_aux :: u32

definition op :: "string \<Rightarrow> fmt \<Rightarrow> u32 \<Rightarrow> u32 \<Rightarrow> u32 \<Rightarrow> op_spec" where
  "op nm f opcode funct3 aux =
     \<lparr>op_name = nm, op_fmt = f, op_opcode = opcode, op_funct3 = funct3, op_aux = aux\<rparr>"

definition touches_memory_or_control :: "op_spec \<Rightarrow> bool" where
  "touches_memory_or_control spec \<longleftrightarrow>
     op_opcode spec = LOAD \<or> (case op_fmt spec of FmtStore \<Rightarrow> True | FmtBranch \<Rightarrow> True | _ \<Rightarrow> False)"

definition OPS :: "op_spec list" where
  "OPS =
     [op ''add'' FmtR OP 0 0x00,
      op ''sub'' FmtR OP 0 0x20,
      op ''sll'' FmtR OP 1 0x00,
      op ''slt'' FmtR OP 2 0x00,
      op ''sltu'' FmtR OP 3 0x00,
      op ''xor'' FmtR OP 4 0x00,
      op ''srl'' FmtR OP 5 0x00,
      op ''sra'' FmtR OP 5 0x20,
      op ''or'' FmtR OP 6 0x00,
      op ''and'' FmtR OP 7 0x00,
      op ''mul'' FmtR OP 0 0x01,
      op ''mulh'' FmtR OP 1 0x01,
      op ''mulhsu'' FmtR OP 2 0x01,
      op ''mulhu'' FmtR OP 3 0x01,
      op ''div'' FmtR OP 4 0x01,
      op ''divu'' FmtR OP 5 0x01,
      op ''rem'' FmtR OP 6 0x01,
      op ''remu'' FmtR OP 7 0x01,
      op ''min'' FmtR OP 4 0x05,
      op ''minu'' FmtR OP 5 0x05,
      op ''max'' FmtR OP 6 0x05,
      op ''maxu'' FmtR OP 7 0x05,
      op ''andn'' FmtR OP 7 0x20,
      op ''orn'' FmtR OP 6 0x20,
      op ''xnor'' FmtR OP 4 0x20,
      op ''rol'' FmtR OP 1 0x30,
      op ''ror'' FmtR OP 5 0x30,
      op ''sh1add'' FmtR OP 2 0x10,
      op ''sh2add'' FmtR OP 4 0x10,
      op ''sh3add'' FmtR OP 6 0x10,
      op ''bclr'' FmtR OP 1 0x24,
      op ''bext'' FmtR OP 5 0x24,
      op ''binv'' FmtR OP 1 0x34,
      op ''bset'' FmtR OP 1 0x14,
      op ''czero.eqz'' FmtR OP 5 0x07,
      op ''czero.nez'' FmtR OP 7 0x07,
      op ''addw'' FmtR OP_32 0 0x00,
      op ''subw'' FmtR OP_32 0 0x20,
      op ''sllw'' FmtR OP_32 1 0x00,
      op ''srlw'' FmtR OP_32 5 0x00,
      op ''sraw'' FmtR OP_32 5 0x20,
      op ''mulw'' FmtR OP_32 0 0x01,
      op ''divw'' FmtR OP_32 4 0x01,
      op ''divuw'' FmtR OP_32 5 0x01,
      op ''remw'' FmtR OP_32 6 0x01,
      op ''remuw'' FmtR OP_32 7 0x01,
      op ''adduw'' FmtR OP_32 0 0x04,
      op ''sh1add.uw'' FmtR OP_32 2 0x10,
      op ''sh2add.uw'' FmtR OP_32 4 0x10,
      op ''sh3add.uw'' FmtR OP_32 6 0x10,
      op ''rolw'' FmtR OP_32 1 0x30,
      op ''rorw'' FmtR OP_32 5 0x30,
      op ''addi'' FmtI OP_IMM_7 0 0,
      op ''slti'' FmtI OP_IMM_7 2 0,
      op ''sltiu'' FmtI OP_IMM_7 3 0,
      op ''xori'' FmtI OP_IMM_7 4 0,
      op ''ori'' FmtI OP_IMM_7 6 0,
      op ''andi'' FmtI OP_IMM_7 7 0,
      op ''addiw'' FmtI OP_IMM_32 0 0,
      op ''slli'' FmtIShift OP_IMM_7 1 0x00,
      op ''srli'' FmtIShift OP_IMM_7 5 0x00,
      op ''srai'' FmtIShift OP_IMM_7 5 0x10,
      op ''rori'' FmtIShift OP_IMM_7 5 0x18,
      op ''bclri'' FmtIShift OP_IMM_7 1 0x12,
      op ''bexti'' FmtIShift OP_IMM_7 5 0x12,
      op ''bseti'' FmtIShift OP_IMM_7 1 0x0A,
      op ''binvi'' FmtIShift OP_IMM_7 1 0x1A,
      op ''slliw'' FmtIShift32 OP_IMM_32 1 0x00,
      op ''srliw'' FmtIShift32 OP_IMM_32 5 0x00,
      op ''sraiw'' FmtIShift32 OP_IMM_32 5 0x20,
      op ''roriw'' FmtIShift32 OP_IMM_32 5 0x30,
      op ''clz'' FmtUnary OP_IMM_7 1 0x600,
      op ''ctz'' FmtUnary OP_IMM_7 1 0x601,
      op ''cpop'' FmtUnary OP_IMM_7 1 0x602,
      op ''sext.b'' FmtUnary OP_IMM_7 1 0x604,
      op ''sext.h'' FmtUnary OP_IMM_7 1 0x605,
      op ''orc.b'' FmtUnary OP_IMM_7 5 0x287,
      op ''rev8'' FmtUnary OP_IMM_7 5 0x6B8,
      op ''clzw'' FmtUnary OP_IMM_32 1 0x600,
      op ''ctzw'' FmtUnary OP_IMM_32 1 0x601,
      op ''cpopw'' FmtUnary OP_IMM_32 1 0x602,
      op ''lb'' FmtI LOAD 0 0,
      op ''lh'' FmtI LOAD 1 0,
      op ''lw'' FmtI LOAD 2 0,
      op ''ld'' FmtI LOAD 3 0,
      op ''lbu'' FmtI LOAD 4 0,
      op ''lhu'' FmtI LOAD 5 0,
      op ''lwu'' FmtI LOAD 6 0,
      op ''sb'' FmtStore STORE 0 0,
      op ''sh'' FmtStore STORE 1 0,
      op ''sw'' FmtStore STORE 2 0,
      op ''sd'' FmtStore STORE 3 0,
      op ''lui'' FmtU LUI 0 0,
      op ''auipc'' FmtU AUIPC 0 0,
      op ''beq'' FmtBranch BRANCH 0 0,
      op ''bne'' FmtBranch BRANCH 1 0,
      op ''blt'' FmtBranch BRANCH 4 0,
      op ''bge'' FmtBranch BRANCH 5 0,
      op ''bltu'' FmtBranch BRANCH 6 0,
      op ''bgeu'' FmtBranch BRANCH 7 0]"

definition encode_op :: "op_spec \<Rightarrow> u8 \<Rightarrow> u8 \<Rightarrow> u8 \<Rightarrow> i32 \<Rightarrow> u32" where
  "encode_op spec rd rs1 rs2 imm =
     (case op_fmt spec of
        FmtR \<Rightarrow> enc_r (op_opcode spec) (op_aux spec) (op_funct3 spec) rd rs1 rs2
      | FmtI \<Rightarrow> enc_i (op_opcode spec) (op_funct3 spec) rd rs1 imm
      | FmtIShift \<Rightarrow>
          i_shift64 (op_opcode spec) (op_funct3 spec) (op_aux spec) rd rs1 (ucast (imm AND 0x3F))
      | FmtIShift32 \<Rightarrow>
          i_shift32 (op_opcode spec) (op_funct3 spec) (op_aux spec) rd rs1 (ucast (imm AND 0x1F))
      | FmtStore \<Rightarrow> enc_s (op_opcode spec) (op_funct3 spec) rs1 rs2 imm
      | FmtBranch \<Rightarrow> enc_b (op_opcode spec) (op_funct3 spec) rs1 rs2 imm
      | FmtU \<Rightarrow> enc_u (op_opcode spec) rd imm
      | FmtUnary \<Rightarrow> enc_i (op_opcode spec) (op_funct3 spec) rd rs1 (op_aux spec))"

section \<open>Named helpers\<close>

definition HALT :: u32 where "HALT = 0x0000200B"

definition addi :: "u8 \<Rightarrow> u8 \<Rightarrow> i32 \<Rightarrow> u32" where
  "addi rd rs1 imm = enc_i OP_IMM_7 0 rd rs1 imm"

definition slli :: "u8 \<Rightarrow> u8 \<Rightarrow> u8 \<Rightarrow> u32" where
  "slli rd rs1 shamt = i_shift64 OP_IMM_7 1 0x00 rd rs1 shamt"

definition sd :: "u8 \<Rightarrow> u8 \<Rightarrow> i32 \<Rightarrow> u32" where
  "sd rs1 rs2 imm = enc_s STORE 3 rs1 rs2 imm"

definition li64 :: "u8 \<Rightarrow> u64 \<Rightarrow> u32 list" where
  "li64 rd v =
     (let chunk = (\<lambda>sh. ucast (bits_at v sh 0x7FF) :: i32) in
      addi rd 0 (ucast (bits_at v 55 0x1FF)) #
      concat (map (\<lambda>sh. [slli rd rd 11, addi rd rd (chunk sh)]) [44, 33, 22, 11, 0]))"

definition SIG_XREGS :: "u8 list" where
  "SIG_XREGS = [1, 2, 5, 6, 7, 8, 9, 10, 11, 12, 13, 14, 15]"

definition SIG_BASE_REG :: u8 where "SIG_BASE_REG = 3"

definition signature_epilogue :: "u32 \<Rightarrow> u32 list" where
  "signature_epilogue sig_base =
     li64 SIG_BASE_REG (ucast sig_base) @
     map (\<lambda>(i, xr). sd SIG_BASE_REG xr (of_nat (i * 8))) (enumerate 0 SIG_XREGS)"

section \<open>What the table means\<close>

text \<open>The instruction each table entry stands for, in table order, for given operands. Shift amounts
  and upper immediates are taken from the immediate operand.\<close>

definition mnemonics :: "u8 \<Rightarrow> u8 \<Rightarrow> u8 \<Rightarrow> i32 \<Rightarrow> (string \<times> inst) list" where
  "mnemonics rd rs1 rs2 imm =
     [(''add'', Alu Add rd rs1 rs2),
      (''sub'', Alu Sub rd rs1 rs2),
      (''sll'', Alu Sll rd rs1 rs2),
      (''slt'', Alu Slt rd rs1 rs2),
      (''sltu'', Alu Sltu rd rs1 rs2),
      (''xor'', Alu Xor rd rs1 rs2),
      (''srl'', Alu Srl rd rs1 rs2),
      (''sra'', Alu Sra rd rs1 rs2),
      (''or'', Alu Or rd rs1 rs2),
      (''and'', Alu And rd rs1 rs2),
      (''mul'', MulDiv Mul rd rs1 rs2),
      (''mulh'', MulDiv Mulh rd rs1 rs2),
      (''mulhsu'', MulDiv Mulhsu rd rs1 rs2),
      (''mulhu'', MulDiv Mulhu rd rs1 rs2),
      (''div'', MulDiv Div rd rs1 rs2),
      (''divu'', MulDiv Divu rd rs1 rs2),
      (''rem'', MulDiv Rem rd rs1 rs2),
      (''remu'', MulDiv Remu rd rs1 rs2),
      (''min'', Zbb Min_op rd rs1 rs2),
      (''minu'', Zbb Minu rd rs1 rs2),
      (''max'', Zbb Max_op rd rs1 rs2),
      (''maxu'', Zbb Maxu rd rs1 rs2),
      (''andn'', Zbb Andn rd rs1 rs2),
      (''orn'', Zbb Orn rd rs1 rs2),
      (''xnor'', Zbb Xnor rd rs1 rs2),
      (''rol'', Zbb Rol rd rs1 rs2),
      (''ror'', Zbb Ror rd rs1 rs2),
      (''sh1add'', Zba Sh1add rd rs1 rs2),
      (''sh2add'', Zba Sh2add rd rs1 rs2),
      (''sh3add'', Zba Sh3add rd rs1 rs2),
      (''bclr'', Zbs Bclr rd rs1 rs2),
      (''bext'', Zbs Bext rd rs1 rs2),
      (''binv'', Zbs Binv rd rs1 rs2),
      (''bset'', Zbs Bset rd rs1 rs2),
      (''czero.eqz'', Zicond CzeroEqz rd rs1 rs2),
      (''czero.nez'', Zicond CzeroNez rd rs1 rs2),
      (''addw'', Alu Addw rd rs1 rs2),
      (''subw'', Alu Subw rd rs1 rs2),
      (''sllw'', Alu Sllw rd rs1 rs2),
      (''srlw'', Alu Srlw rd rs1 rs2),
      (''sraw'', Alu Sraw rd rs1 rs2),
      (''mulw'', MulDiv Mulw rd rs1 rs2),
      (''divw'', MulDiv Divw rd rs1 rs2),
      (''divuw'', MulDiv Divuw rd rs1 rs2),
      (''remw'', MulDiv Remw rd rs1 rs2),
      (''remuw'', MulDiv Remuw rd rs1 rs2),
      (''adduw'', Zba Adduw rd rs1 rs2),
      (''sh1add.uw'', Zba Sh1adduw rd rs1 rs2),
      (''sh2add.uw'', Zba Sh2adduw rd rs1 rs2),
      (''sh3add.uw'', Zba Sh3adduw rd rs1 rs2),
      (''rolw'', Zbb Rolw rd rs1 rs2),
      (''rorw'', Zbb Rorw rd rs1 rs2),
      (''addi'', AluImm Addi rd rs1 imm),
      (''slti'', AluImm Slti rd rs1 imm),
      (''sltiu'', AluImm Sltiu rd rs1 imm),
      (''xori'', AluImm Xori rd rs1 imm),
      (''ori'', AluImm Ori rd rs1 imm),
      (''andi'', AluImm Andi rd rs1 imm),
      (''addiw'', AluImm Addiw rd rs1 imm),
      (''slli'', ShiftImm Slli rd rs1 (ucast imm)),
      (''srli'', ShiftImm Srli rd rs1 (ucast imm)),
      (''srai'', ShiftImm Srai rd rs1 (ucast imm)),
      (''rori'', ZbbImm Rori rd rs1 (ucast imm)),
      (''bclri'', ZbsImm Bclri rd rs1 (ucast imm)),
      (''bexti'', ZbsImm Bexti rd rs1 (ucast imm)),
      (''bseti'', ZbsImm Bseti rd rs1 (ucast imm)),
      (''binvi'', ZbsImm Binvi rd rs1 (ucast imm)),
      (''slliw'', ShiftImm Slliw rd rs1 (ucast imm)),
      (''srliw'', ShiftImm Srliw rd rs1 (ucast imm)),
      (''sraiw'', ShiftImm Sraiw rd rs1 (ucast imm)),
      (''roriw'', ZbbImm Roriw rd rs1 (ucast imm)),
      (''clz'', ZbbUnary Clz rd rs1),
      (''ctz'', ZbbUnary Ctz rd rs1),
      (''cpop'', ZbbUnary Cpop rd rs1),
      (''sext.b'', ZbbUnary SextB rd rs1),
      (''sext.h'', ZbbUnary SextH rd rs1),
      (''orc.b'', ZbbUnary OrcB rd rs1),
      (''rev8'', ZbbUnary Rev8 rd rs1),
      (''clzw'', ZbbUnary Clzw rd rs1),
      (''ctzw'', ZbbUnary Ctzw rd rs1),
      (''cpopw'', ZbbUnary Cpopw rd rs1),
      (''lb'', Load Lb rd rs1 imm),
      (''lh'', Load Lh rd rs1 imm),
      (''lw'', Load Lw rd rs1 imm),
      (''ld'', Load Ld rd rs1 imm),
      (''lbu'', Load Lbu rd rs1 imm),
      (''lhu'', Load Lhu rd rs1 imm),
      (''lwu'', Load Lwu rd rs1 imm),
      (''sb'', Store Sb rs1 rs2 imm),
      (''sh'', Store Sh rs1 rs2 imm),
      (''sw'', Store Sw rs1 rs2 imm),
      (''sd'', Store Sd rs1 rs2 imm),
      (''lui'', Lui rd (push_bit 12 imm)),
      (''auipc'', Auipc rd (push_bit 12 imm)),
      (''beq'', Branch Beq rs1 rs2 imm),
      (''bne'', Branch Bne rs1 rs2 imm),
      (''blt'', Branch Blt rs1 rs2 imm),
      (''bge'', Branch Bge rs1 rs2 imm),
      (''bltu'', Branch Bltu rs1 rs2 imm),
      (''bgeu'', Branch Bgeu rs1 rs2 imm)]"

definition imm_fits :: "fmt \<Rightarrow> i32 \<Rightarrow> bool" where
  "imm_fits f imm =
     (case f of
        FmtI \<Rightarrow> within 11 imm
      | FmtStore \<Rightarrow> within 11 imm
      | FmtBranch \<Rightarrow> within 12 imm \<and> even (sint imm)
      | FmtIShift \<Rightarrow> imm < 64
      | FmtIShift32 \<Rightarrow> imm < 32
      | _ \<Rightarrow> True)"

text \<open>\<open>fits n w\<close>: only the low \<open>n\<close> bits of \<open>w\<close> are set.\<close>

definition fits :: "nat \<Rightarrow> 'a::len word \<Rightarrow> bool" where
  "fits n w \<longleftrightarrow> (\<forall>k. bit w k \<longrightarrow> k < n)"

section \<open>Fields of an encoded word\<close>

lemma fitsD: "fits n w \<Longrightarrow> bit w k \<Longrightarrow> k < n" by (simp add: fits_def)

lemma fits_less: "w < 2 ^ n \<Longrightarrow> fits n w" for w :: "'a::len word"
proof -
  assume "w < 2 ^ n"
  have "unat w < 2 ^ n"
  proof (cases "n < LENGTH('a)")
    case True
    have "unat (2 ^ n :: 'a word) = 2 ^ n"
      using True unsigned_of_nat [of "2 ^ n", where 'b = 'a and 'a = nat] by (simp add: take_bit_nat_eq_self)
    with \<open>w < 2 ^ n\<close> show ?thesis by (simp add: word_less_nat_alt)
  next
    case False
    then have "(2::nat) ^ LENGTH('a) \<le> 2 ^ n" by (simp add: not_less)
    then show ?thesis using unsigned_less [of w, where 'a = nat] by linarith
  qed
  then have "take_bit n w = w" by (metis take_bit_nat_eq_self unsigned_take_bit_eq word_unat_eq_iff)
  then show ?thesis by (metis fits_def bit_take_bit_iff)
qed


lemma fits_bit: "fits n w \<Longrightarrow> n \<le> k \<Longrightarrow> \<not> bit w k"
  by (auto simp: fits_def not_less [symmetric])

lemma fits_ucast: "fits n w \<Longrightarrow> fits n (ucast w)"
  by (simp add: fits_def bit_unsigned_iff)

lemma field_eqI:
  fixes w x :: "'a::len word"
  assumes "fits n x" "\<forall>k < n. bit w (i + k) = bit x k"
  shows "bits_at w i (mask n) = x"
  using assms by (intro bit_word_eqI) (auto simp: bit_unfold dest: fitsD)

lemma low_eqI:
  fixes w x :: "'a::len word"
  assumes "fits n x" "\<forall>k < n. bit w k = bit x k"
  shows "w AND mask n = x"
  using field_eqI [of n x w 0] assms by simp

lemma less_numerals:
  "(\<forall>k < 2. P k) \<longleftrightarrow> P 0 \<and> P (1::nat)"
  "(\<forall>k < 3. P k) \<longleftrightarrow> P 0 \<and> P 1 \<and> P (2::nat)"
  "(\<forall>k < 5. P k) \<longleftrightarrow> P 0 \<and> P 1 \<and> P 2 \<and> P 3 \<and> P (4::nat)"
  "(\<forall>k < 7. P k) \<longleftrightarrow> P 0 \<and> P 1 \<and> P 2 \<and> P 3 \<and> P 4 \<and> P 5 \<and> P (6::nat)"
  by (simp_all add: numeral_eq_Suc All_less_Suc2)

lemma within_bit:
  assumes "within n imm" "n \<le> k" "k < 32"
  shows "bit imm k = bit imm n"
proof -
  have "signed_take_bit n (sint imm) = sint imm"
    using assms(1) by (simp add: within_def signed_take_bit_int_eq_self_iff)
  then have "bit (sint imm) k = bit (sint imm) (min k n)"
    using bit_signed_take_bit_iff [of n "sint imm" k] by (simp add: min.commute)
  then show ?thesis using assms by (simp add: bit_sint_iff min_def)
qed

lemma sext_eqI:
  fixes w :: i32
  assumes "within n imm" "n < 32" "\<forall>k \<le> n. bit w (31 - n + k) = bit imm k"
  shows "signed_drop_bit (31 - n) w = imm"
proof (rule bit_word_eqI)
  fix k assume k: "k < LENGTH(32)"
  have b: "bit w (31 - n + n) = bit imm n" using assms(3) by blast
  show "bit (signed_drop_bit (31 - n) w) k = bit imm k"
    using k assms within_bit [OF assms(1), of k] b
    by (cases "k \<le> n") (auto simp: bit_signed_drop_bit_iff)
qed

lemma le_numerals:
  "(\<forall>k \<le> 11. P k) \<longleftrightarrow> P 0 \<and> P 1 \<and> P 2 \<and> P 3 \<and> P 4 \<and> P 5 \<and> P 6 \<and> P 7 \<and> P 8 \<and> P 9 \<and> P 10 \<and> P (11::nat)"
  "(\<forall>k \<le> 12. P k) \<longleftrightarrow> P 0 \<and> P 1 \<and> P 2 \<and> P 3 \<and> P 4 \<and> P 5 \<and> P 6 \<and> P 7 \<and> P 8 \<and> P 9 \<and> P 10 \<and> P (11::nat) \<and> P 12"
  by (simp_all add: numeral_eq_Suc All_less_Suc2 flip: less_Suc_eq_le)

lemmas enc_bits = less_numerals bit_or_iff bit_push_bit_iff bit_unsigned_iff bit_and_iff bit_drop_bit_eq comp_def

lemma enc_r_fields:
  assumes "fits 7 opc" "fits 7 f7" "fits 3 f3" "fits 5 rd" "fits 5 rs1" "fits 5 rs2"
  defines "w \<equiv> enc_r opc f7 f3 rd rs1 rs2"
  shows "w AND mask 7 = opc" "bits_at w 7 (mask 5) = ucast rd"
    "bits_at w 15 (mask 5) = ucast rs1" "bits_at w 20 (mask 5) = ucast rs2" "bits_at w 12 (mask 3) = f3" "bits_at w 25 (mask 7) = f7"
  using assms(1-6) assms(1-6) [THEN fits_bit] unfolding w_def enc_r_def
  by (intro field_eqI low_eqI fits_ucast; simp add: enc_bits)+

lemma enc_i_fields:
  fixes imm :: i32
  assumes "fits 7 opc" "fits 3 f3" "fits 5 rd" "fits 5 rs1"
  defines "w \<equiv> enc_i opc f3 rd rs1 imm"
  shows "w AND mask 7 = opc" "bits_at w 7 (mask 5) = ucast rd"
    "bits_at w 15 (mask 5) = ucast rs1" "bits_at w 12 (mask 3) = f3" 
  using assms(1-4) assms(1-4) [THEN fits_bit] unfolding w_def enc_i_def
  by (intro field_eqI low_eqI fits_ucast; simp add: enc_bits)+

lemma enc_i_high:
  assumes "fits 7 opc" "fits 3 f3" "fits 5 rd" "fits 5 rs1"
  shows "\<forall>k \<le> 11. bit (enc_i opc f3 rd rs1 imm) (20 + k) = bit imm k"
  using assms(1-4) [THEN fits_bit] unfolding enc_i_def by (simp add: le_numerals enc_bits)

lemma imm_i_enc:
  assumes "fits 7 opc" "fits 3 f3" "fits 5 rd" "fits 5 rs1" "within 11 imm"
  shows "imm_i (enc_i opc f3 rd rs1 imm) = imm"
  using sext_eqI [where n = 11 and imm = imm and w = "enc_i opc f3 rd rs1 imm"] assms(5) enc_i_high [OF assms(1-4)]
  by (simp add: imm_i_def)

lemma enc_s_fields:
  fixes imm :: i32
  assumes "fits 7 opc" "fits 3 f3" "fits 5 rs1" "fits 5 rs2"
  defines "w \<equiv> enc_s opc f3 rs1 rs2 imm"
  shows "w AND mask 7 = opc" 
    "bits_at w 15 (mask 5) = ucast rs1" "bits_at w 20 (mask 5) = ucast rs2" "bits_at w 12 (mask 3) = f3" 
  using assms(1-4) assms(1-4) [THEN fits_bit] unfolding w_def enc_s_def
  by (intro field_eqI low_eqI fits_ucast; simp add: enc_bits)+

lemma imm_s_enc:
  assumes "fits 7 opc" "fits 3 f3" "fits 5 rs1" "fits 5 rs2" "within 11 imm"
  shows "imm_s (enc_s opc f3 rs1 rs2 imm) = imm"
  using assms(1-5) assms(1-4) [THEN fits_bit] unfolding imm_s_def enc_s_def Let_def
  apply (intro sext_eqI [where n = 11, simplified])
  apply simp
  apply (unfold le_numerals enc_bits) apply simp
  done

lemma enc_b_fields:
  fixes imm :: i32
  assumes "fits 7 opc" "fits 3 f3" "fits 5 rs1" "fits 5 rs2"
  defines "w \<equiv> enc_b opc f3 rs1 rs2 imm"
  shows "w AND mask 7 = opc" 
    "bits_at w 15 (mask 5) = ucast rs1" "bits_at w 20 (mask 5) = ucast rs2" "bits_at w 12 (mask 3) = f3" 
  using assms(1-4) assms(1-4) [THEN fits_bit] unfolding w_def enc_b_def
  by (intro field_eqI low_eqI fits_ucast; simp add: enc_bits)+

lemma enc_u_fields:
  fixes imm :: u32
  assumes "fits 7 opc" "fits 5 rd"
  defines "w \<equiv> enc_u opc rd imm"
  shows "w AND mask 7 = opc" "bits_at w 7 (mask 5) = ucast rd"
  using assms(1-2) assms(1-2) [THEN fits_bit] unfolding w_def enc_u_def
  by (intro field_eqI low_eqI fits_ucast; simp add: enc_bits)+

lemma imm_b_enc:
  assumes "fits 7 opc" "fits 3 f3" "fits 5 rs1" "fits 5 rs2" "within 12 imm" "even (sint imm)"
  shows "imm_b (enc_b opc f3 rs1 rs2 imm) = imm"
  using assms(1-5) assms(6) assms(1-4) [THEN fits_bit] unfolding imm_b_def enc_b_def Let_def sint_even
  apply (intro sext_eqI [where n = 12, simplified])
  apply simp
  apply (unfold le_numerals enc_bits) apply simp apply (simp add: eval_nat_numeral)
  done

lemma lui_enc:
  assumes "fits 7 opc" "fits 5 rd" 
  shows "enc_u opc rd imm AND 0xFFFFF000 = push_bit 12 imm"
proof -
  have m: "(0xFFFFF000 :: u32) = push_bit 12 (mask 20)" by (simp add: mask_eq_exp_minus_1)
  have m2: "(0xFFFFF :: u32) = mask 20" by (simp add: mask_eq_exp_minus_1)
  show ?thesis
  unfolding enc_u_def m m2
  using assms(1-2) [THEN fitsD] 
  by (intro bit_word_eqI) (force simp: bit_unfold)
qed

section \<open>Decoding an encoded word\<close>

lemma low7_fields:
  fixes w :: u32
  assumes "w AND mask 7 = opc"
  shows "w AND 3 = opc AND 3" "bits_at w 2 31 = bits_at opc 2 31"
proof -
  have "w AND mask 7 = opc" using assms by simp
  then have o: "opc = w AND 127" by (simp add: mask_eq_exp_minus_1)
  show "w AND 3 = opc AND 3" by (simp add: o and.assoc)
  show "bits_at w 2 31 = bits_at opc 2 31" unfolding o 
    by (rule bit_word_eqI) (unfold mask32 bit_unfold, auto)
qed

lemma mask_fold: "mask 3 = (7::u32)" "mask 5 = (31::u32)" "mask 7 = (127::u32)" "mask 6 = (63::u32)"
  by (simp_all add: mask_eq_exp_minus_1)

lemma fits_consts: "fits 7 OP" "fits 7 OP_IMM_7" "fits 7 OP_IMM_32" "fits 7 OP_32" "fits 7 LOAD" "fits 7 STORE"
  "fits 7 BRANCH" "fits 7 LUI" "fits 7 AUIPC"
  by (rule fits_less, simp add: opcode_simps)+

lemma ucast_back: "ucast (ucast (r :: u8) :: u32) = r"
  by (rule bit_word_eqI) (auto simp: bit_unsigned_iff)


lemma decode_32_opcode:
  fixes w :: u32
  defines "rd \<equiv> ucast (bits_at w 7 31)" and "rs1 \<equiv> ucast (bits_at w 15 31)" and "rs2 \<equiv> ucast (bits_at w 20 31)"
    and "f3 \<equiv> ucast (bits_at w 12 7)" and "f7 \<equiv> ucast (bits_at w 25 127)"
  shows "w AND mask 7 = OP \<Longrightarrow> decode_32 w = decode_op rd rs1 rs2 f3 f7 w"
    "w AND mask 7 = OP_32 \<Longrightarrow> decode_32 w = decode_op_32 rd rs1 rs2 f3 f7 w"
    "w AND mask 7 = OP_IMM_7 \<Longrightarrow> decode_32 w = decode_op_imm w rd rs1 f3"
    "w AND mask 7 = OP_IMM_32 \<Longrightarrow> decode_32 w = decode_op_imm_32 w rd rs1 f3"
    "w AND mask 7 = LOAD \<Longrightarrow> decode_32 w = decode_load w rd rs1 f3"
    "w AND mask 7 = STORE \<Longrightarrow> decode_32 w = decode_store w rs1 rs2 f3"
    "w AND mask 7 = BRANCH \<Longrightarrow> decode_32 w = decode_branch rs1 rs2 f3 (imm_b w) w"
    "w AND mask 7 = LUI \<Longrightarrow> decode_32 w = Lui rd (w AND 0xFFFFF000)"
    "w AND mask 7 = AUIPC \<Longrightarrow> decode_32 w = Auipc rd (w AND 0xFFFFF000)"
  unfolding rd_def rs1_def rs2_def f3_def f7_def
  by (frule low7_fields(1), drule low7_fields(2), simp only: decode_32_def Let_def, simp add: opcode_simps)+

lemma decode_enc:
  assumes "fits 3 f3" "fits 5 rd" "fits 5 rs1" 
  shows "fits 7 f7 \<Longrightarrow> fits 5 rs2 \<Longrightarrow> decode_32 (enc_r OP f7 f3 rd rs1 rs2) = decode_op rd rs1 rs2 (ucast f3) (ucast f7) (enc_r OP f7 f3 rd rs1 rs2)"
    "fits 7 f7 \<Longrightarrow> fits 5 rs2 \<Longrightarrow> decode_32 (enc_r OP_32 f7 f3 rd rs1 rs2) = decode_op_32 rd rs1 rs2 (ucast f3) (ucast f7) (enc_r OP_32 f7 f3 rd rs1 rs2)"
    "decode_32 (enc_i OP_IMM_7 f3 rd rs1 imm) = decode_op_imm (enc_i OP_IMM_7 f3 rd rs1 imm) rd rs1 (ucast f3)"
    "decode_32 (enc_i OP_IMM_32 f3 rd rs1 imm) = decode_op_imm_32 (enc_i OP_IMM_32 f3 rd rs1 imm) rd rs1 (ucast f3)"
    "decode_32 (enc_i LOAD f3 rd rs1 imm) = decode_load (enc_i LOAD f3 rd rs1 imm) rd rs1 (ucast f3)"
    "decode_32 (enc_s STORE f3 rd rs1 imm) = decode_store (enc_s STORE f3 rd rs1 imm) rd rs1 (ucast f3)"
    "decode_32 (enc_b BRANCH f3 rd rs1 imm) = decode_branch rd rs1 (ucast f3) (imm_b (enc_b BRANCH f3 rd rs1 imm)) (enc_b BRANCH f3 rd rs1 imm)"
  using assms
  by (subst decode_32_opcode; 
    simp add: enc_r_fields enc_i_fields enc_s_fields enc_b_fields enc_u_fields fits_consts lui_enc ucast_back flip: mask_fold)+

lemma decode_enc_u:
  assumes "fits 5 rd"
  shows "decode_32 (enc_u LUI rd imm) = Lui rd (push_bit 12 imm)"
    "decode_32 (enc_u AUIPC rd imm) = Auipc rd (push_bit 12 imm)"
  using assms
  by (subst decode_32_opcode; simp add: enc_u_fields fits_consts lui_enc ucast_back flip: mask_fold)+

lemma enc_i_imm_fields:
  fixes imm :: i32
  assumes "fits 7 opc" "fits 3 f3" "fits 5 rd" "fits 5 rs1"
  defines "w \<equiv> enc_i opc f3 rd rs1 imm"
  shows "bits_at w 20 63 = imm AND 63" "bits_at w 20 31 = imm AND 31"
    "bits_at w 26 63 = bits_at imm 6 63" "bits_at w 25 127 = bits_at imm 5 127"
proof -
  have h: "bit w (20 + k) = bit imm k" if "k \<le> 11" for k
    using enc_i_high [OF assms(1-4), of imm] that unfolding w_def by simp
  have h6: "bit w (26 + k) = bit imm (6 + k)" if "k \<le> 5" for k
    using h [of "6 + k"] that by simp
  have h5: "bit w (25 + k) = bit imm (5 + k)" if "k \<le> 6" for k
    using h [of "5 + k"] that by simp
  show "bits_at w 20 63 = imm AND 63" "bits_at w 20 31 = imm AND 31"
    "bits_at w 26 63 = bits_at imm 6 63" "bits_at w 25 127 = bits_at imm 5 127"
    by (rule bit_word_eqI, unfold mask32 bit_unfold, auto simp: h h6 h5)+
qed

lemma shift_imm_fields:
  fixes f :: u32 and sh :: u8
  shows "(push_bit 6 (f AND 63) OR (ucast sh AND 63)) AND 63 = ucast sh AND (63 :: u32)"
    "bits_at (push_bit 6 (f AND 63) OR (ucast sh AND 63)) 6 63 = f AND 63"
    "(push_bit 5 (f AND 127) OR (ucast sh AND 31)) AND 31 = ucast sh AND (31 :: u32)"
    "bits_at (push_bit 5 (f AND 127) OR (ucast sh AND 31)) 5 127 = f AND 127"
  by (rule bit_word_eqI, unfold mask32 bit_unfold, auto)+

lemma shamt_cast:
  assumes "fits 6 imm" shows "ucast (ucast (ucast (imm AND 63) :: u8) AND 63 :: u32) = (ucast (imm :: i32) :: u8)"
  using assms [THEN fitsD] by (intro bit_word_eqI) (unfold mask32 bit_unfold, auto)

lemma shamt_cast_32:
  assumes "fits 5 imm" shows "ucast (ucast (ucast (imm AND 31) :: u8) AND 31 :: u32) = (ucast (imm :: i32) :: u8)"
  using assms [THEN fitsD] by (intro bit_word_eqI) (unfold mask32 bit_unfold, auto)


lemma from_le_bytes_low:
  "(from_le_bytes [b0, b1] :: u16) AND 3 = 3 \<longleftrightarrow> unat b0 mod 4 = 3"
proof -
  have "unat ((from_le_bytes [b0, b1] :: u16) AND mask 2) = (unat b0 + 256 * unat b1) mod 4"
    using unat_from_le_bytes [of "[b0, b1]", where 'a = 16]
    unfolding take_bit_eq_mask [symmetric] unsigned_take_bit_eq by (simp add: take_bit_eq_mod)
  also have "\<dots> = unat b0 mod 4" by presburger
  finally show ?thesis by (simp add: word_unat_eq_iff mask_eq_exp_minus_1)
qed

lemma decode_to_le_bytes:
  assumes "w AND 3 = 3"
  shows "decode (to_le_bytes 4 w) = Some (reserve_if_reserved_reg (decode_32 w) w, 4)"
proof -
  obtain b1 b2 b3 where b: "to_le_bytes 4 w = [ucast w, b1, b2, b3]"
    by (simp add: eval_nat_numeral)
  have w: "from_le_bytes [ucast w, b1, b2, b3] = w" using from_to_le_bytes [of 4 w] b by simp
  have "w AND mask 2 = 3" using assms by (simp add: mask_eq_exp_minus_1)
  then have "unat w mod 4 = 3" 
    using unsigned_take_bit_eq [of 2 w, where 'a = nat] by (simp add: take_bit_eq_mod flip: take_bit_eq_mask)
  then have "unat (ucast w :: u8) mod 4 = 3" 
    by (simp add: unsigned_ucast_eq take_bit_eq_mod mod_mod_cancel)
  then show ?thesis unfolding b decode_def by (simp add: w from_le_bytes_low)
qed

lemma fits_funct: "fits 3 (0 :: u32)" "fits 3 (1 :: u32)" "fits 3 (2 :: u32)" "fits 3 (3 :: u32)" "fits 3 (4 :: u32)"
  "fits 3 (5 :: u32)" "fits 3 (6 :: u32)" "fits 3 (7 :: u32)"
  "fits 7 (0 :: u32)" "fits 7 (1 :: u32)" "fits 7 (4 :: u32)" "fits 7 (5 :: u32)" "fits 7 (7 :: u32)"
  "fits 7 (0x10 :: u32)" "fits 7 (0x14 :: u32)" "fits 7 (0x20 :: u32)" "fits 7 (0x24 :: u32)" "fits 7 (0x30 :: u32)" "fits 7 (0x34 :: u32)"
  by (rule fits_less, simp)+

lemma fits_imm: "imm < 64 \<Longrightarrow> fits 6 imm" "imm < 32 \<Longrightarrow> fits 5 imm" for imm :: i32
  by (rule fits_less, simp)+

lemmas enc_decode = decode_enc decode_enc_u bit.conj_disj_distrib2 and.assoc imm_i_enc imm_s_enc imm_b_enc fits_consts fits_funct fits_imm
  enc_i_imm_fields shift_imm_fields shamt_cast shamt_cast_32 rs2_field_def
  decode_op_def decode_op_32_def decode_op_imm_def decode_op_imm_32_def decode_load_def decode_store_def decode_branch_def

lemma encode_op_pairs:
  assumes "fits 5 rd" "fits 5 rs1" "fits 5 rs2"
  shows "list_all2 (\<lambda>spec (nm, i). op_name spec = nm \<and>
       (imm_fits (op_fmt spec) imm \<longrightarrow> decode_32 (encode_op spec rd rs1 rs2 imm) = i)) OPS (mnemonics rd rs1 rs2 imm)"
  unfolding OPS_def mnemonics_def list_all2_Cons list_all2_Nil prod.case
  apply (intro conjI TrueI)
  apply (simp_all add: assms op_def encode_op_def imm_fits_def i_shift64_def i_shift32_def Let_def enc_decode)
  done

lemma mnemonics_legal:
  assumes "rd < 16" "rs1 < 16" "rs2 < 16"
  shows "list_all (\<lambda>(nm, i). \<not> is_reserved i \<and> \<not> uses_reserved_reg i) (mnemonics rd rs1 rs2 imm)"
proof -
  have "\<not> reg_is_reserved r" if "r < 16" for r
    using that by (simp add: reg_is_reserved_iff word_less_nat_alt)
  then show ?thesis using assms by (simp add: mnemonics_def)
qed

lemma decode_of_decode_32:
  assumes "decode_32 w = i" "\<not> is_reserved i" "\<not> uses_reserved_reg i"
  shows "decode (to_le_bytes 4 w) = Some (i, 4)"
proof -
  have "decode_32 w = Reserved w" if "w AND 3 \<noteq> 3" using that by (simp add: decode_32_def)
  then have "w AND 3 = 3" using assms by force
  then show ?thesis using assms by (simp add: decode_to_le_bytes reserve_if_reserved_reg_def)
qed

text \<open>C37: Encoding and decoding are inverse on the whole instruction table. For every entry of
  \<open>OPS\<close> and any registers \<open>x0\<close> to \<open>x15\<close>, the four bytes of \<open>encode_op\<close> decode to exactly the
  instruction of that name with those operands, whenever the immediate is in the range of the
  entry's format.\<close>

theorem encode_decode:
  assumes "rd < 16" "rs1 < 16" "rs2 < 16"
  shows "list_all2
    (\<lambda>spec (nm, i). op_name spec = nm \<and>
       (imm_fits (op_fmt spec) imm \<longrightarrow>
          decode (to_le_bytes 4 (encode_op spec rd rs1 rs2 imm)) = Some (i, 4)))
    OPS (mnemonics rd rs1 rs2 imm)"
proof -
  have "fits 5 r" if "r < (16 :: u8)" for r
    by (rule fits_less) (use that in \<open>simp add: word_less_nat_alt\<close>)
  then have "list_all2 (\<lambda>spec (nm, i). op_name spec = nm \<and>
      (imm_fits (op_fmt spec) imm \<longrightarrow> decode_32 (encode_op spec rd rs1 rs2 imm) = i))
      OPS (mnemonics rd rs1 rs2 imm)"
    using assms by (intro encode_op_pairs)
  moreover have "\<forall>(nm, i) \<in> set (mnemonics rd rs1 rs2 imm).
      \<not> is_reserved i \<and> \<not> uses_reserved_reg i"
    using mnemonics_legal [OF assms, of imm] by (simp add: list_all_iff)
  ultimately show ?thesis
    by (elim list.rel_mono_strong) (auto intro!: decode_of_decode_32)
qed

theorem encode_decode_witness:
  "decode (to_le_bytes 4 (encode_op (OPS ! 94) 10 11 12 (- 4))) = Some (Branch Beq 11 12 (- 4), 4)"
proof -
  have "op_fmt (OPS ! 94) = FmtBranch" by (simp add: OPS_def op_def)
  moreover have "mnemonics 10 11 12 (- 4) ! 94 = (''beq'', Branch Beq 11 12 (- 4))"
    by (simp add: mnemonics_def)
  moreover have "length OPS = 100" by (simp add: OPS_def)
  ultimately show ?thesis
    using list_all2_nthD [OF encode_decode [of 10 11 12 "- 4"], of 94]
    by (simp add: imm_fits_def within_def)
qed

end
