(* ===== verification/Gas_Sim.thy ===== *)
theory Gas_Sim
  imports Gas
begin

text \<open>
  The single-pass pipeline simulator of \<open>nub/nub-exec/src/gas_sim.rs\<close> that prices a basic block:
  per-register completion cycles and a decode throughput of four slots per cycle. \<open>feed\<close>
  takes the registers of an instruction as bit masks, \<open>feed_direct\<close> as indices.
\<close>

text \<open>\<open>FastCost\<close> of \<open>gas_cost.rs\<close>.\<close>

record fast_cost =
  fc_cycles :: u8
  fc_decode_slots :: u8
  fc_exec_unit :: u8
  fc_src_mask :: u16
  fc_dst_mask :: u16
  fc_is_terminator :: bool
  fc_is_move_reg :: bool

record gas_simulator =
  reg_done :: "u32 list"
  sim_cycle :: u32
  decode_used :: u8
  max_done :: u32

definition sim_new :: gas_simulator where
  "sim_new = \<lparr>reg_done = replicate 15 0, sim_cycle = 0, decode_used = 0, max_done = 0\<rparr>"

text \<open>The decode step both feeds start with: a new cycle begins only when all four slots are used.\<close>

definition decode_step :: "gas_simulator \<Rightarrow> u8 \<Rightarrow> gas_simulator" where
  "decode_step s decode_slots =
     (if decode_used s \<ge> 4
      then s\<lparr>sim_cycle := sim_cycle s + 1, decode_used := decode_slots\<rparr>
      else s\<lparr>decode_used := decode_used s + decode_slots\<rparr>)"

definition feed_direct :: "gas_simulator \<Rightarrow> u8 \<Rightarrow> u8 \<Rightarrow> u8 \<Rightarrow> u8 \<Rightarrow> u8 \<Rightarrow> gas_simulator" where
  "feed_direct s0 cycles decode_slots src1 src2 dst =
     (let s = decode_step s0 decode_slots;
          start = sim_cycle s;
          start = (if src1 < 15 then max start (reg_done s ! unat src1) else start);
          start = (if src2 < 15 then max start (reg_done s ! unat src2) else start);
          done_at = start + ucast cycles;
          s = (if dst < 15 then s\<lparr>reg_done := (reg_done s)[unat dst := done_at]\<rparr> else s) in
      s\<lparr>max_done := max (max_done s) done_at\<rparr>)"

text \<open>\<open>u16::trailing_zeros\<close> (the width for zero).\<close>

definition trailing_zeros :: "'a::len word \<Rightarrow> nat" where
  "trailing_zeros w = length (takeWhile (\<lambda>i. \<not> bit w i) [0..<LENGTH('a)])"

text \<open>The bit loops \<open>while m != 0 { r = m.trailing_zeros(); m &= m - 1; ... }\<close> of \<open>feed\<close>.\<close>

lemma clear_lowest_less: "w \<noteq> 0 \<Longrightarrow> unat (w AND (w - 1)) < unat w" for w :: "'a::len word"
proof -
  assume "w \<noteq> 0"
  have "w AND (w - 1) \<le> w - 1" by (rule word_and_le1)
  also have "w - 1 < w" using \<open>w \<noteq> 0\<close> by (simp add: measure_unat word_less_nat_alt)
  finally show ?thesis by (simp add: word_less_nat_alt)
qed

function src_loop :: "u32 list \<Rightarrow> u16 \<Rightarrow> u32 \<Rightarrow> u32" where
  "src_loop rd src start =
     (if src = 0 then start
      else
        let r = trailing_zeros src;
            src' = src AND (src - 1) in
        src_loop rd src' (if r < 15 then max start (rd ! r) else start))"
  by pat_completeness auto
termination
  by (relation "measure (\<lambda>(_, src, _). unat src)") (auto simp: clear_lowest_less)

function dst_loop :: "u32 list \<Rightarrow> u16 \<Rightarrow> u32 \<Rightarrow> u32 list" where
  "dst_loop rd dst done_at =
     (if dst = 0 then rd
      else
        let r = trailing_zeros dst;
            dst' = dst AND (dst - 1) in
        dst_loop (if r < 15 then rd[r := done_at] else rd) dst' done_at)"
  by pat_completeness auto
termination
  by (relation "measure (\<lambda>(_, dst, _). unat dst)") (auto simp: clear_lowest_less)

declare src_loop.simps [simp del] dst_loop.simps [simp del]

definition feed :: "gas_simulator \<Rightarrow> fast_cost \<Rightarrow> gas_simulator" where
  "feed s0 cost =
     (let s = decode_step s0 (fc_decode_slots cost) in
      if fc_is_move_reg cost then
        let src_reg = trailing_zeros (fc_src_mask cost);
            dst_reg = trailing_zeros (fc_dst_mask cost) in
        if src_reg < 15 \<and> dst_reg < 15
        then s\<lparr>reg_done := (reg_done s)[dst_reg := reg_done s ! src_reg]\<rparr>
        else s
      else
        let start = src_loop (reg_done s) (fc_src_mask cost) (sim_cycle s);
            done_at = start + ucast (fc_cycles cost);
            s = s\<lparr>reg_done := dst_loop (reg_done s) (fc_dst_mask cost) done_at\<rparr> in
        s\<lparr>max_done := max (max_done s) done_at\<rparr>)"

definition flush_and_get_cost :: "gas_simulator \<Rightarrow> u32" where
  "flush_and_get_cost s = (if max_done s > 3 then max_done s - 3 else 1)"

definition sim_reset :: "gas_simulator \<Rightarrow> gas_simulator" where
  "sim_reset s = s\<lparr>reg_done := replicate 15 0, sim_cycle := 0, decode_used := 0, max_done := 0\<rparr>"

section \<open>Reference definitions\<close>

text \<open>The registers below \<open>n\<close> named by a mask, and the \<open>FastCost\<close> that names the same registers as
  the indices of \<open>feed_direct\<close>.\<close>

definition bits_below :: "nat \<Rightarrow> u16 \<Rightarrow> nat set" where
  "bits_below n w = {r. r < n \<and> bit w r}"

definition slot_mask :: "u8 \<Rightarrow> u16" where
  "slot_mask r = (if r < 15 then push_bit (unat r) 1 else 0)"

definition masks_cost :: "u8 \<Rightarrow> u8 \<Rightarrow> u8 \<Rightarrow> u8 \<Rightarrow> u8 \<Rightarrow> fast_cost" where
  "masks_cost cycles decode_slots src1 src2 dst =
     \<lparr>fc_cycles = cycles, fc_decode_slots = decode_slots, fc_exec_unit = 0,
      fc_src_mask = slot_mask src1 OR slot_mask src2, fc_dst_mask = slot_mask dst,
      fc_is_terminator = False, fc_is_move_reg = False\<rparr>"

text \<open>The pipeline model over unbounded numbers: no field can wrap.\<close>

record nat_sim =
  n_reg_done :: "nat list"
  n_cycle :: nat
  n_used :: nat
  n_max :: nat

definition feed_nat :: "nat_sim \<Rightarrow> nat \<Rightarrow> nat \<Rightarrow> nat option \<Rightarrow> nat option \<Rightarrow> nat option \<Rightarrow> nat_sim" where
  "feed_nat s cycles slots src1 src2 dst =
     (let full = n_used s \<ge> 4;
          now = (if full then n_cycle s + 1 else n_cycle s);
          ready = (\<lambda>r. case r of None \<Rightarrow> 0 | Some r \<Rightarrow> n_reg_done s ! r);
          done_at = max now (max (ready src1) (ready src2)) + cycles in
      \<lparr>n_reg_done = (case dst of None \<Rightarrow> n_reg_done s | Some r \<Rightarrow> (n_reg_done s)[r := done_at]),
       n_cycle = now, n_used = (if full then slots else n_used s + slots),
       n_max = max (n_max s) done_at\<rparr>)"

definition sim_abs :: "gas_simulator \<Rightarrow> nat_sim" where
  "sim_abs s = \<lparr>n_reg_done = map unat (reg_done s), n_cycle = unat (sim_cycle s),
     n_used = unat (decode_used s), n_max = unat (max_done s)\<rparr>"

definition slot_of :: "u8 \<Rightarrow> nat option" where
  "slot_of r = (if r < 15 then Some (unat r) else None)"

definition sim_bounded :: "nat \<Rightarrow> gas_simulator \<Rightarrow> bool" where
  "sim_bounded B s \<longleftrightarrow> length (reg_done s) = 15 \<and> (\<forall>d \<in> set (reg_done s). unat d \<le> B) \<and>
     unat (sim_cycle s) \<le> B \<and> unat (max_done s) \<le> B \<and> unat (decode_used s) \<le> 7"

section \<open>The bit loops visit exactly the set bits\<close>

lemma trailing_zeros_bit:
  fixes w :: "'a::len word"
  assumes "w \<noteq> 0"
  shows "trailing_zeros w < LENGTH('a)" "bit w (trailing_zeros w)"
proof -
  obtain n where n: "bit w n" "n < LENGTH('a)" 
    using assms bit_imp_le_length by (metis bit_word_eqI bit_0_eq bot_apply bot_bool_def)
  then have "\<exists>i \<in> set [0..<LENGTH('a)]. \<not> \<not> bit w i" by auto
  then have l: "trailing_zeros w < length [0..<LENGTH('a)]"
    unfolding trailing_zeros_def
    by (metis length_takeWhile_le takeWhile_eq_all_conv takeWhile_eq_take take_all_iff le_neq_implies_less)
  then show "trailing_zeros w < LENGTH('a)" by simp
  show "bit w (trailing_zeros w)"
    using nth_length_takeWhile [of "\<lambda>i. \<not> bit w i" "[0..<LENGTH('a)]"] l
    unfolding trailing_zeros_def [symmetric] by simp
qed

lemma trailing_zeros_below: "j < trailing_zeros w \<Longrightarrow> \<not> bit w j" for w :: "'a::len word"
proof -
  assume j: "j < trailing_zeros w"
  have "trailing_zeros w \<le> LENGTH('a)" unfolding trailing_zeros_def 
    using length_takeWhile_le [of _ "[0..<LENGTH('a)]"] by simp
  then show ?thesis
    using j nth_mem [of j "takeWhile (\<lambda>i. \<not> bit w i) [0..<LENGTH('a)]"] takeWhile_nth [of j "\<lambda>i. \<not> bit w i" "[0..<LENGTH('a)]"]
    by (auto simp: trailing_zeros_def dest: set_takeWhileD)
qed

lemma nat_clear_lowest:
  fixes u :: nat
  assumes "bit u t" "\<And>j. j < t \<Longrightarrow> \<not> bit u j"
  shows "bit u k \<and> bit (u - 1) k \<longleftrightarrow> bit u k \<and> k \<noteq> t"
proof -
  define m where "m = u div 2 ^ t div 2"
  have "take_bit t u = 0" by (rule bit_eqI) (use assms(2) in \<open>auto simp: bit_take_bit_iff\<close>)
  then have "u mod 2 ^ t = 0" by (simp add: take_bit_eq_mod)
  moreover have "odd (u div 2 ^ t)" using assms(1) by (simp add: bit_iff_odd)
  moreover have "u div 2 ^ t div 2 = m" by (simp add: m_def)
  ultimately have u: "u = 2 ^ t * (2 * m + 1)"
    by (metis odd_two_times_div_two_succ mult_div_mod_eq add.right_neutral)
  have u1: "u - 1 = 2 ^ t * (2 * m) + (2 ^ t - 1)" by (simp add: u algebra_simps)
  have lt: "(2::nat) ^ t - 1 < 2 ^ t" by simp
  have eq: "(u - 1) div 2 ^ t = 2 * m" 
  proof -
    have "(u - 1) div 2 ^ t = 2 * m + (2 ^ t - 1) div 2 ^ t" unfolding u1 by (rule div_mult_self4) simp
    then show ?thesis using div_less [OF lt] by simp
  qed
  consider "k < t" | "k = t" | j where "k = Suc t + j" by (metis less_antisym not_less_eq le_Suc_ex not_less)
  then show ?thesis
  proof cases
    case 1 then show ?thesis using assms(2) by blast
  next
    case 2 then show ?thesis using eq by (simp add: bit_iff_odd)
  next
    case 3
    have p: "x div 2 ^ k = x div 2 ^ t div 2 div 2 ^ j" for x :: nat
      unfolding 3 power_add power_Suc2 by (simp add: div_mult2_eq)
    have "(u - 1) div 2 ^ k = u div 2 ^ k" unfolding p eq by (simp add: m_def)
    then show ?thesis using 3 by (simp add: bit_iff_odd)
  qed
qed

lemma bit_clear_lowest:
  fixes w :: "'a::len word"
  assumes "w \<noteq> 0"
  shows "bit (w AND (w - 1)) k \<longleftrightarrow> bit w k \<and> k \<noteq> trailing_zeros w"
proof (cases "k < LENGTH('a)")
  case True
  have "unat (w - 1) = unat w - 1" using assms by (simp add: unat_minus_one)
  then have b: "bit (w - 1) k \<longleftrightarrow> bit (unat w - 1) k" 
    using True by (metis bit_unsigned_iff possible_bit_nat)
  have bb: "bit (unat w) j \<longleftrightarrow> bit w j" for j by (simp add: bit_unsigned_iff)
  show ?thesis
    unfolding bit_and_iff b
    using nat_clear_lowest [of "unat w" "trailing_zeros w" k] trailing_zeros_bit [OF assms] trailing_zeros_below [of _ w]
    by (simp add: bb)
qed (auto dest: bit_imp_le_length)

lemma bits_below_step:
  assumes "w \<noteq> 0"
  shows "bits_below 15 w = (if trailing_zeros w < 15 then insert (trailing_zeros w) (bits_below 15 (w AND (w - 1))) else bits_below 15 (w AND (w - 1)))"
  using bit_clear_lowest [OF assms] trailing_zeros_bit [OF assms] by (auto simp: bits_below_def)

lemma Max_insert_max:
  "finite S \<Longrightarrow> Max (insert (max a b) S) = Max (insert a (insert b S))" for S :: "'a::linorder set"
  by (cases "S = {}") (simp_all add: max.assoc)

lemma src_loop_Max: "src_loop rd src start = Max (insert start ((!) rd ` bits_below 15 src))"
proof (induction rd src start rule: src_loop.induct)
  case (1 rd src start)
  have fin: "finite (bits_below 15 w)" for w by (simp add: bits_below_def)
  show ?case
  proof (cases "src = 0")
    case True
    then show ?thesis by (simp add: src_loop.simps bits_below_def)
  next
    case False
    then show ?thesis
      using 1 [OF False refl refl] bits_below_step [OF False] fin
      by (subst src_loop.simps) (simp add: Let_def Max_insert_max del: Max_insert)
  qed
qed

lemma dst_loop_nth:
  "length (dst_loop rd dst d) = length rd \<and>
   (\<forall>r < length rd. dst_loop rd dst d ! r = (if r \<in> bits_below 15 dst then d else rd ! r))"
proof (induction rd dst d rule: dst_loop.induct)
  case (1 rd dst d)
  show ?case
  proof (cases "dst = 0")
    case True
    then show ?thesis by (simp add: dst_loop.simps bits_below_def)
  next
    case False
    then show ?thesis
      using 1 [OF False refl refl] bits_below_step [OF False]
      by (subst (1 2) dst_loop.simps) (auto simp: Let_def nth_list_update)
  qed
qed

section \<open>Index feed and mask feed agree\<close>

lemma bits_below_or: "bits_below n (a OR b) = bits_below n a \<union> bits_below n b"
  by (auto simp: bits_below_def bit_or_iff)

lemma bits_below_slot_mask: "bits_below 15 (slot_mask r) = (if r < 15 then {unat r} else {})"
proof -
  have "unat r < 15" if "r < 15" using that by (simp add: word_less_nat_alt)
  then show ?thesis by (auto simp: bits_below_def slot_mask_def bit_exp_iff)
qed

lemma decode_step_reg_done [simp]: "reg_done (decode_step s n) = reg_done s"
  by (simp add: decode_step_def)

text \<open>The optimised \<open>feed_direct\<close>, which takes register indices, leaves the simulator in exactly
  the state that \<open>feed\<close> leaves it in on the bit masks of the same registers, for every cost,
  every number of decode slots and every index including the "no register" value.\<close>

theorem feed_direct_eq_feed:
  assumes "length (reg_done s) = 15"
  shows "feed_direct s cycles decode_slots src1 src2 dst = feed s (masks_cost cycles decode_slots src1 src2 dst)"
proof -
  define st where "st = decode_step s decode_slots"
  have len: "length (reg_done st) = 15" using assms by (simp add: st_def)
  have src: "src_loop (reg_done st) (slot_mask src1 OR slot_mask src2) (sim_cycle st) =
     (let start = (if src1 < 15 then max (sim_cycle st) (reg_done st ! unat src1) else sim_cycle st) in
      if src2 < 15 then max start (reg_done st ! unat src2) else start)"
    by (simp add: src_loop_Max bits_below_or bits_below_slot_mask max.commute max.left_commute)
  have dst: "dst_loop (reg_done st) (slot_mask dst) d = (if dst < 15 then (reg_done st)[unat dst := d] else reg_done st)" for d
    using dst_loop_nth [of "reg_done st" "slot_mask dst" d]
    by (intro nth_equalityI) (auto simp: bits_below_slot_mask nth_list_update len)
  show ?thesis
    unfolding feed_direct_def feed_def masks_cost_def fast_cost.select_convs Let_def st_def [symmetric] 
      src dst by (cases st) simp
qed

theorem feed_direct_eq_feed_witness:
  "feed_direct sim_new 25 1 7 0xFF 3 = feed sim_new (masks_cost 25 1 7 0xFF 3)"
  by (rule feed_direct_eq_feed) (simp add: sim_new_def)

section \<open>No wrap-around\<close>

lemma sim_bounded_new: "sim_bounded 0 sim_new"
  by (simp add: sim_bounded_def sim_new_def)

lemma unat_max: "unat (max a b) = max (unat a) (unat b)" for a b :: "'a::len word"
  by (simp add: max_def word_le_nat_alt)

lemma decode_step_bounded:
  assumes "sim_bounded B s" "B + 256 < 2 ^ 32" "slots \<le> 4"
  shows "unat (sim_cycle (decode_step s slots)) = (if 4 \<le> unat (decode_used s) then unat (sim_cycle s) + 1 else unat (sim_cycle s))"
    "unat (decode_used (decode_step s slots)) = (if 4 \<le> unat (decode_used s) then unat slots else unat (decode_used s) + unat slots)"
    "max_done (decode_step s slots) = max_done s"
  using assms by (auto simp: decode_step_def sim_bounded_def word_le_nat_alt unat_word_ariths)

lemma feed_direct_refines:
  assumes b: "sim_bounded B s" and lim: "B + 256 < 2 ^ 32" and sl: "slots \<le> 4"
  shows "sim_abs (feed_direct s cycles slots src1 src2 dst) =
      feed_nat (sim_abs s) (unat cycles) (unat slots) (slot_of src1) (slot_of src2) (slot_of dst)"
    and "sim_bounded (B + 256) (feed_direct s cycles slots src1 src2 dst)"
proof -
  define st where "st = decode_step s slots"
  define start where "start = (let start = (if src1 < 15 then max (sim_cycle st) (reg_done st ! unat src1) else sim_cycle st) in
      if src2 < 15 then max start (reg_done st ! unat src2) else start)"
  note d = decode_step_bounded [OF assms, folded st_def]
  have rd: "reg_done st = reg_done s" by (simp add: st_def)
  have len: "length (reg_done s) = 15" using b by (simp add: sim_bounded_def)
  have nb: "unat (reg_done s ! unat r) \<le> B" if "r < 15" for r :: u8
    using b that len by (auto simp: sim_bounded_def word_less_nat_alt)
  have cy: "unat (sim_cycle st) \<le> B + 1" using d(1) b by (auto simp: sim_bounded_def)
  have us: "unat start = max (unat (sim_cycle st)) (max (case slot_of src1 of None \<Rightarrow> 0 | Some r \<Rightarrow> map unat (reg_done s) ! r)
      (case slot_of src2 of None \<Rightarrow> 0 | Some r \<Rightarrow> map unat (reg_done s) ! r))"
    by (auto simp: start_def Let_def unat_max rd slot_of_def len word_less_nat_alt)
  have sb: "unat start \<le> B + 1" 
    using us cy nb [of src1] nb [of src2] by (auto simp: slot_of_def len word_less_nat_alt split: if_splits)
  have cb: "unat cycles < 256" by (rule unat_less_256)
  have uc: "unat (ucast cycles :: u32) = unat cycles"
    using cb by (simp add: unsigned_ucast_eq take_bit_nat_eq_self)
  have dn: "unat (start + ucast cycles) = unat start + unat cycles"
    using sb cb lim by (subst unat_add_lem [THEN iffD1]) (auto simp: uc)
  have fd: "feed_direct s cycles slots src1 src2 dst =
     st\<lparr>reg_done := (if dst < 15 then (reg_done s)[unat dst := start + ucast cycles] else reg_done s),
        max_done := max (max_done s) (start + ucast cycles)\<rparr>"
    unfolding feed_direct_def Let_def st_def [symmetric] start_def rd [symmetric] d(3) [symmetric]
    by (cases st) (simp add: Let_def)
  show "sim_abs (feed_direct s cycles slots src1 src2 dst) =
      feed_nat (sim_abs s) (unat cycles) (unat slots) (slot_of src1) (slot_of src2) (slot_of dst)"
    unfolding fd feed_nat_def sim_abs_def Let_def nat_sim.select_convs
    using d(1,2) by (cases "dst < 15") (simp_all add: unat_max dn us map_update slot_of_def [of dst])
  show "sim_bounded (B + 256) (feed_direct s cycles slots src1 src2 dst)"
  proof -
    have "unat x \<le> B + 256" if "x \<in> set (reg_done (feed_direct s cycles slots src1 src2 dst))" for x
    proof -
      have "x = start + ucast cycles \<or> x \<in> set (reg_done s)"
        using that set_update_subset_insert by (fastforce simp: fd split: if_splits)
      then show ?thesis using dn sb cb b by (auto simp: sim_bounded_def)
    qed
    moreover have "unat (decode_used st) \<le> 7" 
      using d(2) sl b by (auto simp: sim_bounded_def word_le_nat_alt)
    ultimately show ?thesis
      using cy b dn sb cb unfolding sim_bounded_def by (auto simp: fd unat_max len)
  qed
qed

lemma sim_reset_new: "sim_reset s = sim_new"
  by (simp add: sim_reset_def sim_new_def)

lemma flush_pos: "1 \<le> unat (flush_and_get_cost s)"
  by (auto simp: flush_and_get_cost_def word_less_nat_alt unat_sub_if_size word_size)

end
