(* ===== verification/Gas_Cost.thy ===== *)
theory Gas_Cost
  imports Instruction Gas_Sim
begin

text \<open>
  The per-instruction and per-block gas model of \<open>nub/nub-exec/src/gas_cost.rs\<close>, with the
  records of \<open>predecode.rs\<close> it works on. Kinds index a cost table \<open>RV_GAS_COST_LUT\<close>; every
  kind that \<open>rv_op_metadata\<close> returns is below 38 (\<open>rv_kind_bound\<close>), so the array accesses of
  the source are in range.
\<close>

section \<open>Records\<close>

record gas_meta =
  kind :: u8
  src1_slot :: u8
  src2_slot :: u8
  dst_slot :: u8

record pre_inst =
  pi_inst :: inst
  pi_pc :: u32
  pi_next_pc :: u32
  is_gas_block_start :: bool
  pi_gas_meta :: gas_meta

record gas_cost_entry =
  ge_cycles :: u8
  ge_decode_slots :: u8
  ge_exec_unit :: u8
  ge_src_pat :: u8
  ge_dst_pat :: u8
  ge_flags :: u8
  ge_overlap_slots :: u8

section \<open>The cost table\<close>

definition EU_NONE :: u8 where [opcode_simps]: "EU_NONE = 0"
definition EU_ALU :: u8 where [opcode_simps]: "EU_ALU = 1"
definition EU_LOAD :: u8 where [opcode_simps]: "EU_LOAD = 2"
definition EU_STORE :: u8 where [opcode_simps]: "EU_STORE = 3"
definition EU_MUL :: u8 where [opcode_simps]: "EU_MUL = 4"
definition EU_DIV :: u8 where [opcode_simps]: "EU_DIV = 5"

definition DEFAULT_MEM_CYCLES :: u8 where [opcode_simps]: "DEFAULT_MEM_CYCLES = 25"

definition RVF_TERM :: u8 where [opcode_simps]: "RVF_TERM = 1"
definition RVF_OVERLAP_DST_SRC :: u8 where [opcode_simps]: "RVF_OVERLAP_DST_SRC = 2"
definition RVF_OVERLAP_RS1_RD :: u8 where [opcode_simps]: "RVF_OVERLAP_RS1_RD = 4"

definition rgc :: "u8 \<Rightarrow> u8 \<Rightarrow> u8 \<Rightarrow> u8 \<Rightarrow> u8 \<Rightarrow> u8 \<Rightarrow> gas_cost_entry" where
  "rgc cycles decode_slots exec_unit src_pat dst_pat flags =
     \<lparr>ge_cycles = cycles, ge_decode_slots = decode_slots, ge_exec_unit = exec_unit,
      ge_src_pat = src_pat, ge_dst_pat = dst_pat, ge_flags = flags, ge_overlap_slots = 0\<rparr>"

definition rgc_ov :: "u8 \<Rightarrow> u8 \<Rightarrow> u8 \<Rightarrow> u8 \<Rightarrow> u8 \<Rightarrow> u8 \<Rightarrow> u8 \<Rightarrow> gas_cost_entry" where
  "rgc_ov cycles overlap_if overlap_no exec_unit src_pat dst_pat flags =
     \<lparr>ge_cycles = cycles, ge_decode_slots = 0, ge_exec_unit = exec_unit,
      ge_src_pat = src_pat, ge_dst_pat = dst_pat, ge_flags = flags,
      ge_overlap_slots = overlap_if OR push_bit 4 overlap_no\<rparr>"

definition RV_KIND_RESERVED :: u8 where [opcode_simps]: "RV_KIND_RESERVED = 0"
definition RV_KIND_TRAP :: u8 where [opcode_simps]: "RV_KIND_TRAP = 1"
definition RV_KIND_FALLTHROUGH :: u8 where [opcode_simps]: "RV_KIND_FALLTHROUGH = 2"
definition RV_KIND_ECALL_JAR :: u8 where [opcode_simps]: "RV_KIND_ECALL_JAR = 3"
definition RV_KIND_ECALLI :: u8 where [opcode_simps]: "RV_KIND_ECALLI = 4"
definition RV_KIND_JALR :: u8 where [opcode_simps]: "RV_KIND_JALR = 5"
definition RV_KIND_FENCE :: u8 where [opcode_simps]: "RV_KIND_FENCE = 6"
definition RV_KIND_JAL :: u8 where [opcode_simps]: "RV_KIND_JAL = 7"
definition RV_KIND_BRANCH :: u8 where [opcode_simps]: "RV_KIND_BRANCH = 8"
definition RV_KIND_LOAD :: u8 where [opcode_simps]: "RV_KIND_LOAD = 9"
definition RV_KIND_STORE :: u8 where [opcode_simps]: "RV_KIND_STORE = 10"
definition RV_KIND_LUI :: u8 where [opcode_simps]: "RV_KIND_LUI = 11"
definition RV_KIND_ADDI :: u8 where [opcode_simps]: "RV_KIND_ADDI = 12"
definition RV_KIND_ADDIW :: u8 where [opcode_simps]: "RV_KIND_ADDIW = 13"
definition RV_KIND_ADD :: u8 where [opcode_simps]: "RV_KIND_ADD = 14"
definition RV_KIND_SLL :: u8 where [opcode_simps]: "RV_KIND_SLL = 15"
definition RV_KIND_SLT :: u8 where [opcode_simps]: "RV_KIND_SLT = 16"
definition RV_KIND_ADDW :: u8 where [opcode_simps]: "RV_KIND_ADDW = 17"
definition RV_KIND_SLLW :: u8 where [opcode_simps]: "RV_KIND_SLLW = 18"
definition RV_KIND_MUL :: u8 where [opcode_simps]: "RV_KIND_MUL = 19"
definition RV_KIND_MULW :: u8 where [opcode_simps]: "RV_KIND_MULW = 20"
definition RV_KIND_MULH :: u8 where [opcode_simps]: "RV_KIND_MULH = 21"
definition RV_KIND_MULHSU :: u8 where [opcode_simps]: "RV_KIND_MULHSU = 22"
definition RV_KIND_DIV :: u8 where [opcode_simps]: "RV_KIND_DIV = 23"
definition RV_KIND_ZBB_U1 :: u8 where [opcode_simps]: "RV_KIND_ZBB_U1 = 24"
definition RV_KIND_ZBB_CTZ :: u8 where [opcode_simps]: "RV_KIND_ZBB_CTZ = 25"
definition RV_KIND_ZBB_MINMAX :: u8 where [opcode_simps]: "RV_KIND_ZBB_MINMAX = 26"
definition RV_KIND_ZBB_INV :: u8 where [opcode_simps]: "RV_KIND_ZBB_INV = 27"
definition RV_KIND_ZBB_XNOR :: u8 where [opcode_simps]: "RV_KIND_ZBB_XNOR = 28"
definition RV_KIND_ZBB_ROT :: u8 where [opcode_simps]: "RV_KIND_ZBB_ROT = 29"
definition RV_KIND_ZBB_RORI :: u8 where [opcode_simps]: "RV_KIND_ZBB_RORI = 30"
definition RV_KIND_ZBB_ROTW :: u8 where [opcode_simps]: "RV_KIND_ZBB_ROTW = 31"
definition RV_KIND_ZBB_RORIW :: u8 where [opcode_simps]: "RV_KIND_ZBB_RORIW = 32"
definition RV_KIND_ZBA :: u8 where [opcode_simps]: "RV_KIND_ZBA = 33"
definition RV_KIND_ZBA_IMM :: u8 where [opcode_simps]: "RV_KIND_ZBA_IMM = 34"
definition RV_KIND_ZBS :: u8 where [opcode_simps]: "RV_KIND_ZBS = 35"
definition RV_KIND_ZBS_IMM :: u8 where [opcode_simps]: "RV_KIND_ZBS_IMM = 36"
definition RV_KIND_ZICOND :: u8 where [opcode_simps]: "RV_KIND_ZICOND = 37"

definition RV_LUT_LEN :: nat where "RV_LUT_LEN = 64"

definition RV_GAS_COST_LUT :: "gas_cost_entry list" where
  "RV_GAS_COST_LUT =
     (replicate RV_LUT_LEN (rgc 2 1 EU_NONE 0 0 RVF_TERM))
      [unat RV_KIND_RESERVED := rgc 2 1 EU_NONE 0 0 RVF_TERM,
       unat RV_KIND_TRAP := rgc 2 1 EU_NONE 0 0 RVF_TERM,
       unat RV_KIND_FALLTHROUGH := rgc 2 1 EU_NONE 0 0 RVF_TERM,
       unat RV_KIND_ECALL_JAR := rgc 100 4 EU_ALU 0 0 RVF_TERM,
       unat RV_KIND_ECALLI := rgc 100 4 EU_ALU 0 0 RVF_TERM,
       unat RV_KIND_JALR := rgc 22 1 EU_ALU 1 0 RVF_TERM,
       unat RV_KIND_FENCE := rgc 1 1 EU_NONE 0 0 0,
       unat RV_KIND_JAL := rgc 15 1 EU_ALU 0 1 RVF_TERM,
       unat RV_KIND_BRANCH := rgc 20 1 EU_ALU 2 0 RVF_TERM,
       unat RV_KIND_LOAD := rgc 25 1 EU_LOAD 1 1 0,
       unat RV_KIND_STORE := rgc 25 1 EU_STORE 2 0 0,
       unat RV_KIND_LUI := rgc 1 2 EU_NONE 0 1 0,
       unat RV_KIND_ADDI := rgc_ov 1 1 2 EU_ALU 1 1 RVF_OVERLAP_DST_SRC,
       unat RV_KIND_ADDIW := rgc_ov 2 2 3 EU_ALU 1 1 RVF_OVERLAP_DST_SRC,
       unat RV_KIND_ADD := rgc_ov 1 1 2 EU_ALU 2 1 RVF_OVERLAP_DST_SRC,
       unat RV_KIND_SLL := rgc_ov 1 2 3 EU_ALU 2 1 RVF_OVERLAP_RS1_RD,
       unat RV_KIND_SLT := rgc 3 3 EU_ALU 2 1 0,
       unat RV_KIND_ADDW := rgc_ov 2 2 3 EU_ALU 2 1 RVF_OVERLAP_DST_SRC,
       unat RV_KIND_SLLW := rgc_ov 2 3 4 EU_ALU 2 1 RVF_OVERLAP_RS1_RD,
       unat RV_KIND_MUL := rgc_ov 3 1 2 EU_MUL 2 1 RVF_OVERLAP_DST_SRC,
       unat RV_KIND_MULW := rgc_ov 4 2 3 EU_MUL 2 1 RVF_OVERLAP_DST_SRC,
       unat RV_KIND_MULH := rgc 4 4 EU_MUL 2 1 0,
       unat RV_KIND_MULHSU := rgc 6 4 EU_MUL 2 1 0,
       unat RV_KIND_DIV := rgc 60 4 EU_DIV 2 1 0,
       unat RV_KIND_ZBB_U1 := rgc 1 1 EU_ALU 1 1 0,
       unat RV_KIND_ZBB_CTZ := rgc 2 1 EU_ALU 1 1 0,
       unat RV_KIND_ZBB_MINMAX := rgc_ov 3 2 3 EU_ALU 2 1 RVF_OVERLAP_DST_SRC,
       unat RV_KIND_ZBB_INV := rgc 2 3 EU_ALU 2 1 0,
       unat RV_KIND_ZBB_XNOR := rgc_ov 2 2 3 EU_ALU 2 1 RVF_OVERLAP_DST_SRC,
       unat RV_KIND_ZBB_ROT := rgc_ov 1 2 3 EU_ALU 2 1 RVF_OVERLAP_RS1_RD,
       unat RV_KIND_ZBB_RORI := rgc_ov 1 1 2 EU_ALU 1 1 RVF_OVERLAP_DST_SRC,
       unat RV_KIND_ZBB_ROTW := rgc_ov 2 3 4 EU_ALU 2 1 RVF_OVERLAP_RS1_RD,
       unat RV_KIND_ZBB_RORIW := rgc_ov 2 2 3 EU_ALU 1 1 RVF_OVERLAP_DST_SRC,
       unat RV_KIND_ZBA := rgc_ov 1 1 2 EU_ALU 2 1 RVF_OVERLAP_DST_SRC,
       unat RV_KIND_ZBA_IMM := rgc_ov 1 1 2 EU_ALU 1 1 RVF_OVERLAP_DST_SRC,
       unat RV_KIND_ZBS := rgc_ov 1 1 2 EU_ALU 2 1 RVF_OVERLAP_DST_SRC,
       unat RV_KIND_ZBS_IMM := rgc_ov 1 1 2 EU_ALU 1 1 RVF_OVERLAP_DST_SRC,
       unat RV_KIND_ZICOND := rgc 2 2 EU_ALU 2 1 0]"

definition rv_slot_u8 :: "u8 \<Rightarrow> u8" where
  "rv_slot_u8 r = reg_slot_or_ff r"

definition is_spilled_slot :: "u8 \<Rightarrow> bool" where
  "is_spilled_slot slot \<longleftrightarrow> slot = 13 \<or> slot = 14"

section \<open>Instruction metadata\<close>

fun rv_op_metadata :: "inst \<Rightarrow> u8 \<times> u8 \<times> u8 \<times> u8" where
  "rv_op_metadata Trap = (RV_KIND_TRAP, 0, 0, 0)"
| "rv_op_metadata Fallthrough = (RV_KIND_FALLTHROUGH, 0, 0, 0)"
| "rv_op_metadata EcallJar = (RV_KIND_ECALL_JAR, 0, 0, 0)"
| "rv_op_metadata (Ecalli _) = (RV_KIND_ECALLI, 0, 0, 0)"
| "rv_op_metadata Fence = (RV_KIND_FENCE, 0, 0, 0)"
| "rv_op_metadata FenceI = (RV_KIND_FENCE, 0, 0, 0)"
| "rv_op_metadata (Reserved _) = (RV_KIND_RESERVED, 0, 0, 0)"
| "rv_op_metadata (Jal rd _) = (RV_KIND_JAL, 0, 0, rd)"
| "rv_op_metadata (Jalr _ rs1 _) = (RV_KIND_JALR, rs1, 0, 0)"
| "rv_op_metadata (Branch _ rs1 rs2 _) = (RV_KIND_BRANCH, rs1, rs2, 0)"
| "rv_op_metadata (Load _ rd rs1 _) = (RV_KIND_LOAD, rs1, 0, rd)"
| "rv_op_metadata (Store _ rs1 rs2 _) = (RV_KIND_STORE, rs1, rs2, 0)"
| "rv_op_metadata (Lui rd _) = (RV_KIND_LUI, 0, 0, rd)"
| "rv_op_metadata (Auipc rd _) = (RV_KIND_LUI, 0, 0, rd)"
| "rv_op_metadata (AluImm opr rd rs1 _) =
     (if opr = Addiw then (RV_KIND_ADDIW, rs1, 0, rd) else (RV_KIND_ADDI, rs1, 0, rd))"
| "rv_op_metadata (ShiftImm opr rd rs1 _) =
     (if opr \<in> {Slliw, Srliw, Sraiw} then (RV_KIND_ADDIW, rs1, 0, rd)
      else (RV_KIND_ADDI, rs1, 0, rd))"
| "rv_op_metadata (Alu opr rd rs1 rs2) =
     (if opr \<in> {Add, Sub, And, Or, Xor} then (RV_KIND_ADD, rs1, rs2, rd)
      else if opr \<in> {Sll, Srl, Sra} then (RV_KIND_SLL, rs1, rs2, rd)
      else if opr \<in> {Slt, Sltu} then (RV_KIND_SLT, rs1, rs2, rd)
      else if opr \<in> {Addw, Subw} then (RV_KIND_ADDW, rs1, rs2, rd)
      else (RV_KIND_SLLW, rs1, rs2, rd))"
| "rv_op_metadata (MulDiv opr rd rs1 rs2) =
     (if opr = Mul then (RV_KIND_MUL, rs1, rs2, rd)
      else if opr = Mulw then (RV_KIND_MULW, rs1, rs2, rd)
      else if opr \<in> {Mulh, Mulhu} then (RV_KIND_MULH, rs1, rs2, rd)
      else if opr = Mulhsu then (RV_KIND_MULHSU, rs1, rs2, rd)
      else (RV_KIND_DIV, rs1, rs2, rd))"
| "rv_op_metadata (ZbbUnary opr rd rs1) =
     (if opr \<in> {Ctz, Ctzw} then (RV_KIND_ZBB_CTZ, rs1, 0, rd)
      else (RV_KIND_ZBB_U1, rs1, 0, rd))"
| "rv_op_metadata (Zbb opr rd rs1 rs2) =
     (if opr \<in> {Min_op, Minu, Max_op, Maxu} then (RV_KIND_ZBB_MINMAX, rs1, rs2, rd)
      else if opr \<in> {Andn, Orn} then (RV_KIND_ZBB_INV, rs1, rs2, rd)
      else if opr = Xnor then (RV_KIND_ZBB_XNOR, rs1, rs2, rd)
      else if opr \<in> {Rol, Ror} then (RV_KIND_ZBB_ROT, rs1, rs2, rd)
      else (RV_KIND_ZBB_ROTW, rs1, rs2, rd))"
| "rv_op_metadata (ZbbImm opr rd rs1 _) =
     (if opr = Rori then (RV_KIND_ZBB_RORI, rs1, 0, rd) else (RV_KIND_ZBB_RORIW, rs1, 0, rd))"
| "rv_op_metadata (Zba _ rd rs1 rs2) = (RV_KIND_ZBA, rs1, rs2, rd)"
| "rv_op_metadata (Slliuw rd rs1 _) = (RV_KIND_ZBA_IMM, rs1, 0, rd)"
| "rv_op_metadata (Zbs _ rd rs1 rs2) = (RV_KIND_ZBS, rs1, rs2, rd)"
| "rv_op_metadata (ZbsImm _ rd rs1 _) = (RV_KIND_ZBS_IMM, rs1, 0, rd)"
| "rv_op_metadata (Zicond _ rd rs1 rs2) = (RV_KIND_ZICOND, rs1, rs2, rd)"

definition rv_gas_meta :: "inst \<Rightarrow> gas_meta" where
  "rv_gas_meta inst =
     (let (k, rs1, rs2, rd) = rv_op_metadata inst;
          entry = RV_GAS_COST_LUT ! unat k;
          src1 = (if ge_src_pat entry \<ge> 1 then rv_slot_u8 rs1 else 0xFF);
          src2 = (if ge_src_pat entry = 2 then rv_slot_u8 rs2 else 0xFF);
          dst = (if ge_dst_pat entry = 1 then rv_slot_u8 rd else 0xFF) in
      \<lparr>kind = k, src1_slot = src1, src2_slot = src2, dst_slot = dst\<rparr>)"

section \<open>Feeding the simulator\<close>

definition rv_feed_gas_kind ::
    "u8 \<Rightarrow> u8 \<Rightarrow> u8 \<Rightarrow> u8 \<Rightarrow> gas_simulator \<Rightarrow> u8 \<Rightarrow> bool \<times> gas_simulator" where
  "rv_feed_gas_kind k src1 src2 dst gas_sim mem_cycles =
     (let entry = RV_GAS_COST_LUT ! unat k;
          cycles = (if ge_exec_unit entry = EU_LOAD \<or> ge_exec_unit entry = EU_STORE
                    then mem_cycles else ge_cycles entry);
          spill_ops = of_bool (is_spilled_slot src1) + of_bool (is_spilled_slot src2)
                      + of_bool (is_spilled_slot dst);
          cycles = saturating_add cycles (saturating_mul mem_cycles spill_ops);
          decode_slots =
            (if ge_flags entry AND RVF_OVERLAP_DST_SRC \<noteq> 0 then
               let overlap = (dst \<noteq> 0xFF \<and> (dst = src1 \<or> dst = src2)) in
               if overlap then ge_overlap_slots entry AND 0x0F
               else drop_bit 4 (ge_overlap_slots entry)
             else if ge_flags entry AND RVF_OVERLAP_RS1_RD \<noteq> 0 then
               let overlap = (dst \<noteq> 0xFF \<and> src1 \<noteq> 0xFF \<and> dst = src1) in
               if overlap then ge_overlap_slots entry AND 0x0F
               else drop_bit 4 (ge_overlap_slots entry)
             else ge_decode_slots entry) in
      (ge_flags entry AND RVF_TERM \<noteq> 0, feed_direct gas_sim cycles decode_slots src1 src2 dst))"

definition rv_feed_gas_direct :: "gas_meta \<Rightarrow> gas_simulator \<Rightarrow> u8 \<Rightarrow> bool \<times> gas_simulator" where
  "rv_feed_gas_direct meta gas_sim mem_cycles =
     rv_feed_gas_kind (kind meta) (src1_slot meta) (src2_slot meta) (dst_slot meta) gas_sim mem_cycles"

text \<open>The scan \<open>while end < insts.len() && !insts[end].is_gas_block_start { end += 1 }\<close>.\<close>

function block_end :: "pre_inst list \<Rightarrow> nat \<Rightarrow> nat" where
  "block_end insts e =
     (if e < length insts \<and> \<not> is_gas_block_start (insts ! e) then block_end insts (e + 1) else e)"
  by pat_completeness auto
termination
  by (relation "measure (\<lambda>(insts, e). length insts - e)") auto

declare block_end.simps [simp del]

definition block_insts :: "pre_inst list \<Rightarrow> nat \<Rightarrow> pre_inst list" where
  "block_insts insts block_start =
     take (block_end insts (block_start + 1) - block_start) (drop block_start insts)"

definition rv_gas_cost_for_block :: "pre_inst list \<Rightarrow> nat \<Rightarrow> u8 \<Rightarrow> u32" where
  "rv_gas_cost_for_block insts block_start mem_cycles =
     (let sim = fold (\<lambda>i sim. snd (rv_feed_gas_direct (pi_gas_meta i) sim mem_cycles))
                  (block_insts insts block_start) sim_new in
      flush_and_get_cost sim)"

datatype mem_class = MemNone | MemLoad | MemStore

definition rv_kind_mem_class :: "u8 \<Rightarrow> mem_class" where
  "rv_kind_mem_class k =
     (let eu = ge_exec_unit (RV_GAS_COST_LUT ! unat k) in
      if eu = EU_LOAD then MemLoad else if eu = EU_STORE then MemStore else MemNone)"

definition rv_kind_reserve :: "u8 \<Rightarrow> u32" where
  "rv_kind_reserve k =
     (let r = (case rv_kind_mem_class k of
          MemLoad \<Rightarrow> 0
        | MemStore \<Rightarrow> saturating_mul COW_COST MAX_PAGES_PER_ACCESS
        | MemNone \<Rightarrow> 0) in
      ucast (min r 0xFFFFFFFF))"

definition rv_block_reserve_for_block :: "pre_inst list \<Rightarrow> nat \<Rightarrow> u32" where
  "rv_block_reserve_for_block insts block_start =
     (let reserve = fold (\<lambda>i reserve. saturating_add reserve
                       (ucast (rv_kind_reserve (kind (pi_gas_meta i))) :: u64))
                     (block_insts insts block_start) 0 in
      ucast (min reserve 0xFFFFFFFF))"

section \<open>Reference definitions\<close>

text \<open>The cycles and decode slots of one feed, and the block price in the unbounded pipeline model.\<close>

definition feed_cycles :: "u8 \<Rightarrow> u8 \<Rightarrow> u8 \<Rightarrow> u8 \<Rightarrow> u8 \<Rightarrow> u8" where
  "feed_cycles k src1 src2 dst mem_cycles =
     (let entry = RV_GAS_COST_LUT ! unat k in
      saturating_add
        (if ge_exec_unit entry \<in> {EU_LOAD, EU_STORE} then mem_cycles else ge_cycles entry)
        (saturating_mul mem_cycles (of_bool (is_spilled_slot src1) + of_bool (is_spilled_slot src2)
                      + of_bool (is_spilled_slot dst))))"

definition feed_slots :: "u8 \<Rightarrow> u8 \<Rightarrow> u8 \<Rightarrow> u8 \<Rightarrow> u8" where
  "feed_slots k src1 src2 dst =
     (let entry = RV_GAS_COST_LUT ! unat k;
          overlapping = ge_overlap_slots entry AND 0x0F;
          separate = drop_bit 4 (ge_overlap_slots entry) in
      if ge_flags entry AND RVF_OVERLAP_DST_SRC \<noteq> 0
      then (if dst \<noteq> 0xFF \<and> (dst = src1 \<or> dst = src2) then overlapping else separate)
      else if ge_flags entry AND RVF_OVERLAP_RS1_RD \<noteq> 0
      then (if dst \<noteq> 0xFF \<and> dst = src1 then overlapping else separate)
      else ge_decode_slots entry)"

definition feed_meta_nat :: "u8 \<Rightarrow> gas_meta \<Rightarrow> nat_sim \<Rightarrow> nat_sim" where
  "feed_meta_nat mem_cycles m s =
     feed_nat s (unat (feed_cycles (kind m) (src1_slot m) (src2_slot m) (dst_slot m) mem_cycles))
       (unat (feed_slots (kind m) (src1_slot m) (src2_slot m) (dst_slot m)))
       (slot_of (src1_slot m)) (slot_of (src2_slot m)) (slot_of (dst_slot m))"

definition block_cost_nat :: "gas_meta list \<Rightarrow> u8 \<Rightarrow> nat" where
  "block_cost_nat ms mem_cycles =
     max 1 (n_max (fold (feed_meta_nat mem_cycles) ms
       \<lparr>n_reg_done = replicate 15 0, n_cycle = 0, n_used = 0, n_max = 0\<rparr>) - 3)"

definition slots_ok :: "gas_cost_entry \<Rightarrow> bool" where
  "slots_ok e \<longleftrightarrow> ge_decode_slots e \<le> 4 \<and> ge_overlap_slots e AND 0x0F \<le> 4 \<and> drop_bit 4 (ge_overlap_slots e) \<le> 4"

fun is_store :: "inst \<Rightarrow> bool" where
  "is_store (Store _ _ _ _) = True"
| "is_store _ = False"

section \<open>The cost table\<close>

lemma lut_rows:
  "RV_GAS_COST_LUT ! unat RV_KIND_RESERVED = rgc 2 1 EU_NONE 0 0 RVF_TERM"
  "RV_GAS_COST_LUT ! unat RV_KIND_TRAP = rgc 2 1 EU_NONE 0 0 RVF_TERM"
  "RV_GAS_COST_LUT ! unat RV_KIND_FALLTHROUGH = rgc 2 1 EU_NONE 0 0 RVF_TERM"
  "RV_GAS_COST_LUT ! unat RV_KIND_ECALL_JAR = rgc 100 4 EU_ALU 0 0 RVF_TERM"
  "RV_GAS_COST_LUT ! unat RV_KIND_ECALLI = rgc 100 4 EU_ALU 0 0 RVF_TERM"
  "RV_GAS_COST_LUT ! unat RV_KIND_JALR = rgc 22 1 EU_ALU 1 0 RVF_TERM"
  "RV_GAS_COST_LUT ! unat RV_KIND_FENCE = rgc 1 1 EU_NONE 0 0 0"
  "RV_GAS_COST_LUT ! unat RV_KIND_JAL = rgc 15 1 EU_ALU 0 1 RVF_TERM"
  "RV_GAS_COST_LUT ! unat RV_KIND_BRANCH = rgc 20 1 EU_ALU 2 0 RVF_TERM"
  "RV_GAS_COST_LUT ! unat RV_KIND_LOAD = rgc 25 1 EU_LOAD 1 1 0"
  "RV_GAS_COST_LUT ! unat RV_KIND_STORE = rgc 25 1 EU_STORE 2 0 0"
  "RV_GAS_COST_LUT ! unat RV_KIND_LUI = rgc 1 2 EU_NONE 0 1 0"
  "RV_GAS_COST_LUT ! unat RV_KIND_ADDI = rgc_ov 1 1 2 EU_ALU 1 1 RVF_OVERLAP_DST_SRC"
  "RV_GAS_COST_LUT ! unat RV_KIND_ADDIW = rgc_ov 2 2 3 EU_ALU 1 1 RVF_OVERLAP_DST_SRC"
  "RV_GAS_COST_LUT ! unat RV_KIND_ADD = rgc_ov 1 1 2 EU_ALU 2 1 RVF_OVERLAP_DST_SRC"
  "RV_GAS_COST_LUT ! unat RV_KIND_SLL = rgc_ov 1 2 3 EU_ALU 2 1 RVF_OVERLAP_RS1_RD"
  "RV_GAS_COST_LUT ! unat RV_KIND_SLT = rgc 3 3 EU_ALU 2 1 0"
  "RV_GAS_COST_LUT ! unat RV_KIND_ADDW = rgc_ov 2 2 3 EU_ALU 2 1 RVF_OVERLAP_DST_SRC"
  "RV_GAS_COST_LUT ! unat RV_KIND_SLLW = rgc_ov 2 3 4 EU_ALU 2 1 RVF_OVERLAP_RS1_RD"
  "RV_GAS_COST_LUT ! unat RV_KIND_MUL = rgc_ov 3 1 2 EU_MUL 2 1 RVF_OVERLAP_DST_SRC"
  "RV_GAS_COST_LUT ! unat RV_KIND_MULW = rgc_ov 4 2 3 EU_MUL 2 1 RVF_OVERLAP_DST_SRC"
  "RV_GAS_COST_LUT ! unat RV_KIND_MULH = rgc 4 4 EU_MUL 2 1 0"
  "RV_GAS_COST_LUT ! unat RV_KIND_MULHSU = rgc 6 4 EU_MUL 2 1 0"
  "RV_GAS_COST_LUT ! unat RV_KIND_DIV = rgc 60 4 EU_DIV 2 1 0"
  "RV_GAS_COST_LUT ! unat RV_KIND_ZBB_U1 = rgc 1 1 EU_ALU 1 1 0"
  "RV_GAS_COST_LUT ! unat RV_KIND_ZBB_CTZ = rgc 2 1 EU_ALU 1 1 0"
  "RV_GAS_COST_LUT ! unat RV_KIND_ZBB_MINMAX = rgc_ov 3 2 3 EU_ALU 2 1 RVF_OVERLAP_DST_SRC"
  "RV_GAS_COST_LUT ! unat RV_KIND_ZBB_INV = rgc 2 3 EU_ALU 2 1 0"
  "RV_GAS_COST_LUT ! unat RV_KIND_ZBB_XNOR = rgc_ov 2 2 3 EU_ALU 2 1 RVF_OVERLAP_DST_SRC"
  "RV_GAS_COST_LUT ! unat RV_KIND_ZBB_ROT = rgc_ov 1 2 3 EU_ALU 2 1 RVF_OVERLAP_RS1_RD"
  "RV_GAS_COST_LUT ! unat RV_KIND_ZBB_RORI = rgc_ov 1 1 2 EU_ALU 1 1 RVF_OVERLAP_DST_SRC"
  "RV_GAS_COST_LUT ! unat RV_KIND_ZBB_ROTW = rgc_ov 2 3 4 EU_ALU 2 1 RVF_OVERLAP_RS1_RD"
  "RV_GAS_COST_LUT ! unat RV_KIND_ZBB_RORIW = rgc_ov 2 2 3 EU_ALU 1 1 RVF_OVERLAP_DST_SRC"
  "RV_GAS_COST_LUT ! unat RV_KIND_ZBA = rgc_ov 1 1 2 EU_ALU 2 1 RVF_OVERLAP_DST_SRC"
  "RV_GAS_COST_LUT ! unat RV_KIND_ZBA_IMM = rgc_ov 1 1 2 EU_ALU 1 1 RVF_OVERLAP_DST_SRC"
  "RV_GAS_COST_LUT ! unat RV_KIND_ZBS = rgc_ov 1 1 2 EU_ALU 2 1 RVF_OVERLAP_DST_SRC"
  "RV_GAS_COST_LUT ! unat RV_KIND_ZBS_IMM = rgc_ov 1 1 2 EU_ALU 1 1 RVF_OVERLAP_DST_SRC"
  "RV_GAS_COST_LUT ! unat RV_KIND_ZICOND = rgc 2 2 EU_ALU 2 1 0"
  by (simp_all add: RV_GAS_COST_LUT_def RV_LUT_LEN_def opcode_simps nth_list_update)

lemma lut_length: "length RV_GAS_COST_LUT = 64"
  by (simp add: RV_GAS_COST_LUT_def RV_LUT_LEN_def)

lemma rv_kind_bound: "unat (fst (rv_op_metadata i)) < 38"
  by (cases i) (simp_all add: opcode_simps)

lemma list_all_update: "list_all P xs \<Longrightarrow> P x \<Longrightarrow> list_all P (xs[i := x])"
  using set_update_subset_insert [of xs i x] by (auto simp: list_all_iff)

lemma lut_slots: "list_all slots_ok RV_GAS_COST_LUT"
  unfolding RV_GAS_COST_LUT_def
  by (intro list_all_update) (simp_all add: slots_ok_def rgc_def rgc_ov_def list_all_iff)

lemma rv_feed_gas_kind_eq:
  "rv_feed_gas_kind k src1 src2 dst sim mem_cycles =
     (ge_flags (RV_GAS_COST_LUT ! unat k) AND RVF_TERM \<noteq> 0,
      feed_direct sim (feed_cycles k src1 src2 dst mem_cycles) (feed_slots k src1 src2 dst) src1 src2 dst)"
  by (auto simp: rv_feed_gas_kind_def feed_cycles_def feed_slots_def Let_def)

lemma feed_slots_le:
  assumes "unat k < 64" shows "feed_slots k src1 src2 dst \<le> 4"
proof -
  have "slots_ok (RV_GAS_COST_LUT ! unat k)" using lut_slots assms by (simp add: list_all_length lut_length)
  then show ?thesis by (simp add: feed_slots_def slots_ok_def Let_def)
qed

lemma kind_meta: "kind (rv_gas_meta i) = fst (rv_op_metadata i)"
  by (simp add: rv_gas_meta_def Let_def split: prod.split)

section \<open>Blocks\<close>

lemma block_end_takeWhile:
  "e \<le> length insts \<Longrightarrow>
   block_end insts e = e + length (takeWhile (\<lambda>i. \<not> is_gas_block_start i) (drop e insts))"
proof (induction insts e rule: block_end.induct)
  case (1 insts e)
  show ?case
  proof (cases "e < length insts")
    case True
    then have d: "drop e insts = insts ! e # drop (Suc e) insts" by (simp add: Cons_nth_drop_Suc)
    show ?thesis using 1 True by (subst block_end.simps) (simp add: d)
  next
    case False
    then show ?thesis using 1 by (subst block_end.simps) simp
  qed
qed

lemma block_insts_eq:
  assumes "n < length insts"
  shows "block_insts insts n =
    insts ! n # takeWhile (\<lambda>i. \<not> is_gas_block_start i) (drop (Suc n) insts)"
proof -
  have d: "drop n insts = insts ! n # drop (Suc n) insts" using assms by (simp add: Cons_nth_drop_Suc)
  have "block_end insts (n + 1) - n = Suc (length (takeWhile (\<lambda>i. \<not> is_gas_block_start i) (drop (Suc n) insts)))"
    using assms by (simp add: block_end_takeWhile)
  then show ?thesis unfolding block_insts_def d by (simp flip: takeWhile_eq_take)
qed

lemma block_insts_subset: "set (block_insts insts n) \<subseteq> set insts"
  unfolding block_insts_def by (meson set_take_subset set_drop_subset subset_trans)

section \<open>Block prices\<close>

lemma fold_feed_refines:
  assumes "\<forall>m \<in> set ms. unat (kind m) < 64" "sim_bounded B s" "B + 256 * length ms < 2 ^ 32"
  shows "sim_abs (fold (\<lambda>m sim. snd (rv_feed_gas_direct m sim mem_cycles)) ms s) =
     fold (feed_meta_nat mem_cycles) ms (sim_abs s) \<and>
    sim_bounded (B + 256 * length ms) (fold (\<lambda>m sim. snd (rv_feed_gas_direct m sim mem_cycles)) ms s)"
  using assms
proof (induction ms arbitrary: s B)
  case (Cons m ms)
  let ?s = "snd (rv_feed_gas_direct m s mem_cycles)"
  have lim: "B + 256 < 2 ^ 32" using Cons.prems(3) by simp
  note r = feed_direct_refines [OF Cons.prems(2) lim feed_slots_le]
  have "sim_abs ?s = feed_meta_nat mem_cycles m (sim_abs s)" "sim_bounded (B + 256) ?s"
    using r Cons.prems(1) by (simp_all add: rv_feed_gas_direct_def rv_feed_gas_kind_eq feed_meta_nat_def)
  moreover have "B + 256 + 256 * length ms < 2 ^ 32" using Cons.prems(3) by simp
  ultimately show ?case using Cons.IH [of "B + 256" ?s] Cons.prems(1) by (simp add: add.assoc)
qed simp

text \<open>C38: The price of a block is exact. For every instruction stream of fewer than
  \<open>2 ^ 24\<close> instructions the \<open>u32\<close> simulator never wraps, and
  \<open>rv_gas_cost_for_block\<close> returns the completion cycle of the unbounded pipeline model minus 3, at
  least 1.\<close>

theorem block_cost_exact:
  assumes "\<forall>i \<in> set insts. pi_gas_meta i = rv_gas_meta (pi_inst i)" "length insts < 2 ^ 24"
  shows "unat (rv_gas_cost_for_block insts n mem_cycles) =
    block_cost_nat (map pi_gas_meta (block_insts insts n)) mem_cycles"
proof -
  let ?ms = "map pi_gas_meta (block_insts insts n)"
  note sub = block_insts_subset [of insts n]
  have "\<forall>m \<in> set ?ms. unat (kind m) < 64"
  proof (clarsimp simp: subsetD)
    fix i assume "i \<in> set (block_insts insts n)"
    then have "kind (pi_gas_meta i) = fst (rv_op_metadata (pi_inst i))" using assms(1) sub by (auto simp: kind_meta)
    then show "unat (kind (pi_gas_meta i)) < 64" using rv_kind_bound [of "pi_inst i"] by simp
  qed
  moreover have "0 + 256 * length ?ms < 2 ^ 32"
    using assms(2) by (simp add: block_insts_def)
  ultimately have "sim_abs (fold (\<lambda>m sim. snd (rv_feed_gas_direct m sim mem_cycles)) ?ms sim_new) =
     fold (feed_meta_nat mem_cycles) ?ms (sim_abs sim_new)"
    using fold_feed_refines sim_bounded_new by blast
  then have "unat (max_done (fold (\<lambda>m sim. snd (rv_feed_gas_direct m sim mem_cycles)) ?ms sim_new)) = 
     n_max (fold (feed_meta_nat mem_cycles) ?ms (sim_abs sim_new))"
    by (metis nat_sim.select_convs(4) sim_abs_def)
  moreover have "sim_abs sim_new = \<lparr>n_reg_done = replicate 15 0, n_cycle = 0, n_used = 0, n_max = 0\<rparr>"
    by (simp add: sim_abs_def sim_new_def)
  ultimately show ?thesis
    unfolding rv_gas_cost_for_block_def block_cost_nat_def Let_def flush_and_get_cost_def
    by (auto simp: fold_map comp_def word_less_nat_alt unat_sub_if_size word_size)
qed

theorem block_cost_exact_witness:
  "unat (rv_gas_cost_for_block
      [\<lparr>pi_inst = Fence, pi_pc = 0, pi_next_pc = 4, is_gas_block_start = True,
        pi_gas_meta = rv_gas_meta Fence\<rparr>] 0 25) =
   block_cost_nat (map pi_gas_meta (block_insts
      [\<lparr>pi_inst = Fence, pi_pc = 0, pi_next_pc = 4, is_gas_block_start = True,
        pi_gas_meta = rv_gas_meta Fence\<rparr>] 0)) 25"
  by (rule block_cost_exact) simp_all

section \<open>Block reserves\<close>

lemma rv_kind_reserve_meta:
  "rv_kind_reserve (kind (rv_gas_meta i)) = (if is_store i then 512 else 0)"
  by (cases i) (simp_all add: kind_meta rv_kind_reserve_def rv_kind_mem_class_def lut_rows rgc_def rgc_ov_def
    COW_COST_def MAX_PAGES_PER_ACCESS_def saturating_mul_def EU_NONE_def EU_ALU_def EU_LOAD_def EU_STORE_def EU_MUL_def EU_DIV_def)

lemma fold_saturating_add:
  "unat (fold (\<lambda>i acc. saturating_add acc (f i)) xs (a :: u64)) =
     min (unat a + (\<Sum>i \<leftarrow> xs. unat (f i))) (2 ^ 64 - 1)"
proof (induction xs arbitrary: a)
  case Nil
  show ?case using unsigned_less [of a, where 'a = nat] by simp
next
  case (Cons x xs)
  show ?case by (simp add: Cons.IH unat_saturating_add)
qed

lemma unat_block_reserve:
  assumes "\<forall>i \<in> set insts. pi_gas_meta i = rv_gas_meta (pi_inst i)"
  shows "unat (rv_block_reserve_for_block insts n) =
     min (512 * length (filter (\<lambda>i. is_store (pi_inst i)) (block_insts insts n))) (2 ^ 32 - 1)"
proof -
  note sub = block_insts_subset [of insts n]
  have s: "(\<Sum>i \<leftarrow> xs. unat (ucast (rv_kind_reserve (kind (pi_gas_meta i))) :: u64)) =
      512 * length (filter (\<lambda>i. is_store (pi_inst i)) xs)" if "set xs \<subseteq> set insts" for xs
    using that
  proof (induction xs)
    case (Cons x xs)
    then show ?case using assms by (simp add: rv_kind_reserve_meta)
  qed simp
  let ?r = "fold (\<lambda>i acc. saturating_add acc (ucast (rv_kind_reserve (kind (pi_gas_meta i))) :: u64)) (block_insts insts n) 0"
  have "unat ?r = min (512 * length (filter (\<lambda>i. is_store (pi_inst i)) (block_insts insts n))) (2 ^ 64 - 1)"
    by (simp only: fold_saturating_add s [OF sub]) simp
  moreover have "unat (ucast (min ?r 0xFFFFFFFF) :: u32) = min (unat ?r) (2 ^ 32 - 1)"
    by (simp add: unsigned_ucast_eq min_def word_le_nat_alt take_bit_nat_eq_self)
  ultimately show ?thesis unfolding rv_block_reserve_for_block_def Let_def by simp
qed

text \<open>The reserve of a block is the worst case of its stores, two copied pages of 256 gas each,
  and nothing for any other instruction, saturated at the largest \<open>u32\<close>.\<close>

theorem block_reserve_eq:
  assumes "\<forall>i \<in> set insts. pi_gas_meta i = rv_gas_meta (pi_inst i)"
  shows "unat (rv_block_reserve_for_block insts n) =
     min (512 * length (filter (\<lambda>i. is_store (pi_inst i)) (block_insts insts n))) (2 ^ 32 - 1)"
  using assms by (rule unat_block_reserve)

theorem block_reserve_eq_witness:
  "unat (rv_block_reserve_for_block
      [\<lparr>pi_inst = Store Sd 2 8 0, pi_pc = 0, pi_next_pc = 4, is_gas_block_start = True,
        pi_gas_meta = rv_gas_meta (Store Sd 2 8 0)\<rparr>] 0) = 512"
  using block_reserve_eq [of "[\<lparr>pi_inst = Store Sd 2 8 0, pi_pc = 0, pi_next_pc = 4,
      is_gas_block_start = True, pi_gas_meta = rv_gas_meta (Store Sd 2 8 0)\<rparr>]" 0]
  by (simp add: block_insts_eq)

end
