(* ===== verification/Predecode.thy ===== *)
theory Predecode
  imports Decoder Gas_Cost
begin

text \<open>
  The predecode pass of \<open>nub/nub-exec/src/predecode.rs\<close>: decode every instruction, mark the
  gas-block starts, price the blocks. The decode loop keeps its position in a \<open>u32\<close>
  (\<open>pc = next_pc as usize\<close>), so on code of \<open>2 ^ 32\<close> bytes or more it would start over; it is a
  \<open>partial_function\<close>, and shorter code is proved to be decoded to the end.
\<close>

section \<open>Block boundaries\<close>

fun is_ecall_block :: "inst \<Rightarrow> bool" where
  "is_ecall_block EcallJar = True"
| "is_ecall_block (Ecalli _) = True"
| "is_ecall_block _ = False"

fun is_terminator :: "inst \<Rightarrow> bool" where
  "is_terminator (Jal _ _) = True"
| "is_terminator (Jalr _ _ _) = True"
| "is_terminator (Branch _ _ _ _) = True"
| "is_terminator Trap = True"
| "is_terminator EcallJar = True"
| "is_terminator (Ecalli _) = True"
| "is_terminator Fallthrough = True"
| "is_terminator (Reserved _) = True"
| "is_terminator _ = False"

section \<open>The passes\<close>

record predecoded =
  pd_insts :: "pre_inst list"
  block_costs :: "u32 list"
  block_reserves :: "u32 list"
  decode_error_at :: "u32 option"

definition pre_entry :: "inst \<Rightarrow> nat \<Rightarrow> u8 \<Rightarrow> pre_inst" where
  "pre_entry inst pos len =
     \<lparr>pi_inst = inst, pi_pc = of_nat pos, pi_next_pc = of_nat (pos + unat len),
      is_gas_block_start = False, pi_gas_meta = rv_gas_meta inst\<rparr>"

partial_function (option) decode_pass ::
    "bytes \<Rightarrow> nat \<Rightarrow> pre_inst list \<Rightarrow> u32 option \<Rightarrow> (pre_inst list \<times> u32 option) option" where
  "decode_pass code pos insts err =
     (if pos < length code then
        (case decode (drop pos code) of
           None \<Rightarrow> Some (insts, Some (of_nat pos))
         | Some (inst, len) \<Rightarrow>
             let err' = (if is_reserved inst \<and> err = None then Some (of_nat pos) else err);
                 next_pc = of_nat (pos + unat len) :: u32 in
             decode_pass code (unat next_pc) (insts @ [pre_entry inst pos len]) err')
      else Some (insts, err))"

definition set_start :: "pre_inst list \<Rightarrow> nat \<Rightarrow> pre_inst list" where
  "set_start insts i = insts[i := (insts ! i)\<lparr>is_gas_block_start := True\<rparr>]"

definition mark_starts :: "pre_inst list \<Rightarrow> pre_inst list" where
  "mark_starts insts0 =
     (let insts = (if insts0 \<noteq> [] then set_start insts0 0 else insts0) in
      fold (\<lambda>i insts.
          let insts = (if i > 0 \<and> is_terminator (pi_inst (insts ! (i - 1)))
                       then set_start insts i else insts) in
          if is_ecall_block (pi_inst (insts ! i)) then set_start insts i else insts)
        [0..<length insts] insts)"

definition compute_block_costs :: "pre_inst list \<Rightarrow> u8 \<Rightarrow> u32 list \<times> u32 list" where
  "compute_block_costs insts mem_cycles =
     fold (\<lambda>i (costs, reserves).
         if is_gas_block_start (insts ! i) then
           if is_ecall_block (pi_inst (insts ! i)) then (costs[i := 0], reserves[i := 0])
           else (costs[i := rv_gas_cost_for_block insts i mem_cycles],
                 reserves[i := rv_block_reserve_for_block insts i])
         else (costs, reserves))
       [0..<length insts] (replicate (length insts) 0, replicate (length insts) 0)"

definition predecode_rv_with_mem_cycles :: "bytes \<Rightarrow> u8 \<Rightarrow> predecoded option" where
  "predecode_rv_with_mem_cycles code mem_cycles =
     (case decode_pass code 0 [] None of
        None \<Rightarrow> None
      | Some (insts0, err) \<Rightarrow>
          let insts = mark_starts insts0;
              (costs, reserves) = compute_block_costs insts mem_cycles in
          Some \<lparr>pd_insts = insts, block_costs = costs, block_reserves = reserves,
                decode_error_at = err\<rparr>)"

definition predecode :: "bytes \<Rightarrow> predecoded option" where
  "predecode code = predecode_rv_with_mem_cycles code DEFAULT_MEM_CYCLES"

section \<open>Reference definitions\<close>

text \<open>The decode loop over unbounded positions: what it decodes from a position on, and the error it
  records.\<close>

lemma decode_len_pos: "decode bs = Some (i, n) \<Longrightarrow> 0 < unat n"
  using decode_length [of bs i n] by auto

function decode_from :: "bytes \<Rightarrow> nat \<Rightarrow> pre_inst list" where
  "decode_from code p =
     (if p < length code then
        (case decode (drop p code) of
           None \<Rightarrow> []
         | Some (i, n) \<Rightarrow> pre_entry i p n # decode_from code (p + unat n))
      else [])"
  by pat_completeness auto
termination
  by (relation "measure (\<lambda>(code, p). length code - p)") (auto dest: decode_len_pos)

function error_from :: "bytes \<Rightarrow> nat \<Rightarrow> u32 option \<Rightarrow> u32 option" where
  "error_from code p err =
     (if p < length code then
        (case decode (drop p code) of
           None \<Rightarrow> Some (of_nat p)
         | Some (i, n) \<Rightarrow> error_from code (p + unat n) (if is_reserved i \<and> err = None then Some (of_nat p) else err))
      else err)"
  by pat_completeness auto
termination
  by (relation "measure (\<lambda>(code, p, _). length code - p)") (auto dest: decode_len_pos)

declare decode_from.simps [simp del] error_from.simps [simp del]

text \<open>Where a gas block starts, and which starts are priced statically.\<close>

definition starts_block :: "pre_inst list \<Rightarrow> nat \<Rightarrow> bool" where
  "starts_block insts i \<longleftrightarrow>
     i = 0 \<or> is_terminator (pi_inst (insts ! (i - 1))) \<or> is_ecall_block (pi_inst (insts ! i))"

definition static_block :: "pre_inst list \<Rightarrow> nat \<Rightarrow> bool" where
  "static_block insts i \<longleftrightarrow> is_gas_block_start (insts ! i) \<and> \<not> is_ecall_block (pi_inst (insts ! i))"

text \<open>Well-formed output: every entry is the decoding of its position, entries follow each other
  without gap from offset 0, starts are exactly the block starts, and costs and reserves are those
  of the blocks.\<close>

definition entry_ok :: "bytes \<Rightarrow> pre_inst \<Rightarrow> bool" where
  "entry_ok code x \<longleftrightarrow>
     (\<exists>n. decode (drop (unat (pi_pc x)) code) = Some (pi_inst x, n) \<and>
          unat (pi_next_pc x) = unat (pi_pc x) + unat n) \<and>
     unat (pi_next_pc x) \<le> length code \<and> pi_gas_meta x = rv_gas_meta (pi_inst x)"

fun contiguous :: "u32 \<Rightarrow> pre_inst list \<Rightarrow> bool" where
  "contiguous p [] = True"
| "contiguous p (x # xs) = (pi_pc x = p \<and> contiguous (pi_next_pc x) xs)"

definition wf_insts :: "bytes \<Rightarrow> pre_inst list \<Rightarrow> bool" where
  "wf_insts code insts \<longleftrightarrow> contiguous 0 insts \<and> list_all (entry_ok code) insts \<and>
     (\<forall>i < length insts. is_gas_block_start (insts ! i) \<longleftrightarrow> starts_block insts i)"

definition wf_predecoded :: "bytes \<Rightarrow> u8 \<Rightarrow> predecoded \<Rightarrow> bool" where
  "wf_predecoded code mc p \<longleftrightarrow>
     wf_insts code (pd_insts p) \<and>
     block_costs p = map (\<lambda>i. if static_block (pd_insts p) i then rv_gas_cost_for_block (pd_insts p) i mc else 0) [0..<length (pd_insts p)] \<and>
     block_reserves p = map (\<lambda>i. if static_block (pd_insts p) i then rv_block_reserve_for_block (pd_insts p) i else 0) [0..<length (pd_insts p)]"

section \<open>The decode loop\<close>

lemma decode_from_step:
  assumes "p < length code" "decode (drop p code) = Some (i, n)"
  shows "decode_from code p = pre_entry i p n # decode_from code (p + unat n)"
    "error_from code p err = error_from code (p + unat n) (if is_reserved i \<and> err = None then Some (of_nat p) else err)"
    "p + unat n \<le> length code"
  using assms decode_length [OF assms(2)]
  by (auto simp: decode_from.simps [of code p] error_from.simps [of code p])

lemma decode_from_stop:
  "\<not> p < length code \<or> decode (drop p code) = None \<Longrightarrow> decode_from code p = []"
  by (auto simp: decode_from.simps [of code p])

lemma unat_u32_of_nat: "n < 2 ^ 32 \<Longrightarrow> unat (of_nat n :: u32) = n"
  by (simp add: unsigned_of_nat take_bit_nat_eq_self)

lemma decode_pass_total:
  "length code < 2 ^ 32 \<Longrightarrow>
   decode_pass code p insts err = Some (insts @ decode_from code p, error_from code p err)"
proof (induction code p err arbitrary: insts rule: error_from.induct)
  case (1 code p err)
  consider "\<not> p < length code" | "p < length code" "decode (drop p code) = None"
    | i n where "p < length code" "decode (drop p code) = Some (i, n)" by fastforce
  then show ?case
  proof cases
    case 3
    let ?err = "if is_reserved i \<and> err = None then Some (of_nat p) else err"
    have u: "unat (of_nat (p + unat n) :: u32) = p + unat n"
      using decode_from_step(3) [OF 3] 1(2) by (intro unat_u32_of_nat) simp
    have "decode_pass code (p + unat n) (insts @ [pre_entry i p n]) ?err =
        Some ((insts @ [pre_entry i p n]) @ decode_from code (p + unat n), error_from code (p + unat n) ?err)"
      by (rule 1(1) [OF 3 refl 1(2)])
    then show ?thesis using 3 u 
      by (subst decode_pass.simps) (simp add: decode_from_step [OF 3] Let_def del: of_nat_add)
  qed (simp_all add: decode_pass.simps [of code p] decode_from.simps [of code p] error_from.simps [of code p])
qed

lemma decode_from_ok:
  "length code < 2 ^ 32 \<Longrightarrow> p \<le> length code \<Longrightarrow>
   contiguous (of_nat p) (decode_from code p) \<and> list_all (entry_ok code) (decode_from code p)"
proof (induction code p rule: decode_from.induct)
  case (1 code p)
  show ?case
  proof (cases "p < length code \<and> decode (drop p code) \<noteq> None")
    case False
    then have "decode_from code p = []" by (intro decode_from_stop) fastforce
    then show ?thesis by simp
  next
    case True
    then obtain i n where d: "p < length code" "decode (drop p code) = Some (i, n)" by auto
    note st = decode_from_step [OF d]
    have u: "unat (of_nat p :: u32) = p" "unat (of_nat (p + unat n) :: u32) = p + unat n"
      using 1(2,3) st(3) by (auto intro!: unat_u32_of_nat simp del: of_nat_add)
    have "entry_ok code (pre_entry i p n)"
      using d(2) st(3) u by (simp add: entry_ok_def pre_entry_def del: of_nat_add)
    moreover have "contiguous (of_nat (p + unat n)) (decode_from code (p + unat n)) \<and> list_all (entry_ok code) (decode_from code (p + unat n))"
      by (rule 1(1) [OF d refl 1(2) st(3)])
    ultimately show ?thesis by (simp add: st(1) pre_entry_def del: of_nat_add)
  qed
qed

lemma decode_from_not_start: "x \<in> set (decode_from code p) \<Longrightarrow> \<not> is_gas_block_start x"
proof (induction code p rule: decode_from.induct)
  case (1 code p)
  show ?case
  proof (cases "p < length code \<and> decode (drop p code) \<noteq> None")
    case False
    then have "decode_from code p = []" by (intro decode_from_stop) fastforce
    then show ?thesis using 1(2) by simp
  next
    case True
    then obtain i n where d: "p < length code" "decode (drop p code) = Some (i, n)" by auto
    then show ?thesis using 1 by (auto simp: decode_from_step(1) [OF d] pre_entry_def)
  qed
qed

lemma error_from_keeps: "error_from code p (Some e) \<noteq> None"
proof (induction code p "Some e" rule: error_from.induct)
  case (1 code p)
  then show ?case by (subst error_from.simps) (auto split: option.split)
qed

lemma error_from_None:
  "error_from code p None = None \<Longrightarrow> p \<le> length code \<Longrightarrow> length code < 2 ^ 32 \<Longrightarrow>
   list_all (\<lambda>x. \<not> is_reserved (pi_inst x)) (decode_from code p) \<and>
   (if decode_from code p = [] then p else unat (pi_next_pc (last (decode_from code p)))) = length code"
proof (induction code p rule: decode_from.induct)
  case (1 code p)
  consider "\<not> p < length code" | "p < length code" "decode (drop p code) = None"
    | i n where "p < length code" "decode (drop p code) = Some (i, n)" by fastforce
  then show ?case
  proof cases
    case 1 then show ?thesis using "1.prems" by (simp add: decode_from_stop)
  next
    case 2 then show ?thesis using "1.prems" by (simp add: error_from.simps [of code p])
  next
    case 3
    note st = decode_from_step [OF 3]
    have e: "error_from code (p + unat n) (if is_reserved i \<and> None = None then Some (of_nat p) else None) = None"
      using st(2) [of None] "1.prems"(1) by simp
    have nr: "\<not> is_reserved i" using e error_from_keeps [of code "p + unat n" "of_nat p"] by (auto simp: not_None_eq)
    have ih: "list_all (\<lambda>x. \<not> is_reserved (pi_inst x)) (decode_from code (p + unat n)) \<and>
   (if decode_from code (p + unat n) = [] then p + unat n else unat (pi_next_pc (last (decode_from code (p + unat n))))) = length code"
      using "1.IH" [OF 3 refl _ st(3) "1.prems"(3)] e nr by simp
    have "unat (of_nat (p + unat n) :: u32) = p + unat n"
      using "1.prems"(3) st(3) by (intro unat_u32_of_nat) simp
    then show ?thesis using ih nr unfolding st(1) by (auto simp: pre_entry_def simp del: of_nat_add split: if_splits)
  qed
qed

section \<open>Marking and pricing\<close>

lemma nth_set_start:
  "length (set_start insts i) = length insts"
  "j < length insts \<Longrightarrow> set_start insts i ! j = (if j = i then (insts ! j)\<lparr>is_gas_block_start := True\<rparr> else insts ! j)"
  by (auto simp: set_start_def nth_list_update)

definition mark_step :: "nat \<Rightarrow> pre_inst list \<Rightarrow> pre_inst list" where
  "mark_step i insts = (let insts = (if i > 0 \<and> is_terminator (pi_inst (insts ! (i - 1)))
                       then set_start insts i else insts) in
          if is_ecall_block (pi_inst (insts ! i)) then set_start insts i else insts)"

lemma mark_step_nth:
  assumes "i < length insts" "j < length insts"
  shows "mark_step i insts ! j = (if j = i \<and> (i > 0 \<and> is_terminator (pi_inst (insts ! (i - 1))) \<or> is_ecall_block (pi_inst (insts ! i)))
    then (insts ! j)\<lparr>is_gas_block_start := True\<rparr> else insts ! j)"
  using assms by (auto simp: mark_step_def Let_def nth_set_start)

lemma mark_step_length [simp]: "length (mark_step i insts) = length insts"
  by (simp add: mark_step_def Let_def nth_set_start)

lemma mark_fold:
  assumes "n \<le> length insts"
  shows "length (fold mark_step [0..<n] insts) = length insts \<and>
   (\<forall>j < length insts. fold mark_step [0..<n] insts ! j =
     (if j < n \<and> (j > 0 \<and> is_terminator (pi_inst (insts ! (j - 1))) \<or> is_ecall_block (pi_inst (insts ! j)))
      then (insts ! j)\<lparr>is_gas_block_start := True\<rparr> else insts ! j))"
  using assms
proof (induction n)
  case (Suc n)
  then show ?case by (auto simp: mark_step_nth less_Suc_eq)
qed simp

lemma mark_starts_nth:
  "length (mark_starts insts) = length insts"
  "j < length insts \<Longrightarrow> mark_starts insts ! j =
     (insts ! j)\<lparr>is_gas_block_start := is_gas_block_start (insts ! j) \<or> starts_block insts j\<rparr>"
proof -
  define i0 where "i0 = (if insts \<noteq> [] then set_start insts 0 else insts)"
  have l: "length i0 = length insts" by (simp add: i0_def nth_set_start)
  have n: "i0 ! j = (if j = 0 then (insts ! j)\<lparr>is_gas_block_start := True\<rparr> else insts ! j)" if "j < length insts" for j
    using that by (auto simp: i0_def nth_set_start)
  have m: "mark_starts insts = fold mark_step [0..<length i0] i0"
    unfolding mark_starts_def i0_def mark_step_def Let_def by simp
  show "length (mark_starts insts) = length insts" using mark_fold [of "length i0" i0] m l by simp
  show "mark_starts insts ! j =
     (insts ! j)\<lparr>is_gas_block_start := is_gas_block_start (insts ! j) \<or> starts_block insts j\<rparr>" if j: "j < length insts"
    using mark_fold [of "length i0" i0] m l j n [of j] n [of "j - 1"] by (auto simp: starts_block_def)
qed

definition cost_step :: "pre_inst list \<Rightarrow> u8 \<Rightarrow> nat \<Rightarrow> u32 list \<times> u32 list \<Rightarrow> u32 list \<times> u32 list" where
  "cost_step insts mem_cycles = (\<lambda>i (costs, reserves).
         if is_gas_block_start (insts ! i) then
           if is_ecall_block (pi_inst (insts ! i)) then (costs[i := 0], reserves[i := 0])
           else (costs[i := rv_gas_cost_for_block insts i mem_cycles],
                 reserves[i := rv_block_reserve_for_block insts i])
         else (costs, reserves))"

lemma cost_fold:
  assumes "n \<le> length insts"
  defines "z \<equiv> replicate (length insts) 0"
  shows "fold (cost_step insts mc) [0..<n] (z, z) =
    (map (\<lambda>i. if i < n \<and> static_block insts i then rv_gas_cost_for_block insts i mc else 0) [0..<length insts],
     map (\<lambda>i. if i < n \<and> static_block insts i then rv_block_reserve_for_block insts i else 0) [0..<length insts])"
  using assms(1)
proof (induction n)
  case 0
  then show ?case by (simp add: z_def map_replicate_trivial)
next
  case (Suc n)
  then show ?case
    by (auto simp: cost_step_def static_block_def less_Suc_eq intro!: nth_equalityI split: if_splits)
       (auto simp: nth_list_update)
qed

lemma compute_block_costs_eq:
  "compute_block_costs insts mc =
    (map (\<lambda>i. if static_block insts i then rv_gas_cost_for_block insts i mc else 0) [0..<length insts],
     map (\<lambda>i. if static_block insts i then rv_block_reserve_for_block insts i else 0) [0..<length insts])"
  unfolding compute_block_costs_def cost_step_def [symmetric]
  by (subst cost_fold) auto

section \<open>The whole pass\<close>

lemma contiguous_nth: "contiguous p xs \<Longrightarrow> Suc i < length xs \<Longrightarrow> pi_pc (xs ! Suc i) = pi_next_pc (xs ! i)"
proof (induction xs arbitrary: p i)
  case (Cons x xs)
  then show ?case by (cases i; cases xs) auto
qed simp

lemma entry_ok_pc_less: "entry_ok code x \<Longrightarrow> unat (pi_pc x) < unat (pi_next_pc x)"
  using decode_len_pos by (auto simp: entry_ok_def)

lemma contiguous_mark: 
  "length xs = length ys \<Longrightarrow> (\<And>i. i < length xs \<Longrightarrow> pi_pc (ys ! i) = pi_pc (xs ! i) \<and> pi_next_pc (ys ! i) = pi_next_pc (xs ! i)) \<Longrightarrow>
   contiguous p ys = contiguous p xs"
proof (induction xs ys arbitrary: p rule: list_induct2)
  case (Cons x xs y ys)
  then show ?case using Cons.prems [of 0] Cons.IH [of "pi_next_pc x"] Cons.prems [of "Suc i" for i] by auto
qed simp

lemma wf_mark_starts:
  assumes "length code < 2 ^ 32"
  shows "wf_insts code (mark_starts (decode_from code 0))"
proof -
  let ?d = "decode_from code 0"
  have ok: "contiguous 0 ?d" "list_all (entry_ok code) ?d" using decode_from_ok [OF assms, of 0] by simp_all
  note m = mark_starts_nth [where insts = ?d]
  have s: "mark_starts ?d ! j = (?d ! j)\<lparr>is_gas_block_start := starts_block ?d j\<rparr>" if "j < length ?d" for j
    using m that decode_from_not_start [OF nth_mem [OF that]] by simp
  have "contiguous 0 (mark_starts ?d) = contiguous 0 ?d"
    by (rule contiguous_mark) (simp_all add: m s)
  moreover have "list_all (entry_ok code) (mark_starts ?d)"
    using ok(2) by (auto simp: list_all_length m(1) s entry_ok_def)
  moreover have "starts_block (mark_starts ?d) j = starts_block ?d j" if "j < length ?d" for j
    using that s [of j] s [of "j - 1"] by (auto simp: starts_block_def)
  ultimately show ?thesis using ok by (auto simp: wf_insts_def m(1) s)
qed

lemma predecode_wf:
  assumes "length code < 2 ^ 32"
  shows "\<exists>p. predecode_rv_with_mem_cycles code mc = Some p \<and> wf_predecoded code mc p \<and>
    pd_insts p = mark_starts (decode_from code 0) \<and> decode_error_at p = error_from code 0 None"
  using wf_mark_starts [OF assms]
  by (simp add: predecode_rv_with_mem_cycles_def decode_pass_total [OF assms]
      compute_block_costs_eq Let_def wf_predecoded_def)

text \<open>C39: Predecoding terminates and its output is well-formed for all code shorter than \<open>2 ^ 32\<close>
  bytes: entries are exactly the decodings of consecutive positions from offset 0, a gas block starts
  at offset 0, after every terminator and at every \<open>ecall\<close>, and each start carries the cost and
  reserve of its block.\<close>

theorem predecode_total:
  assumes "length code < 2 ^ 32"
  shows "\<exists>p. predecode_rv_with_mem_cycles code mem_cycles = Some p \<and>
    wf_predecoded code mem_cycles p"
  using predecode_wf [OF assms] by blast

theorem predecode_total_witness:
  "\<exists>p. predecode_rv_with_mem_cycles [0x13, 0, 0, 0] 25 = Some p \<and>
    wf_predecoded [0x13, 0, 0, 0] 25 p"
  by (rule predecode_total) simp



text \<open>The two classifications of terminators agree on every instruction: the interpreter's
  \<open>is_terminator\<close> and the \<open>RVF_TERM\<close> bit of the gas table that the recompiler uses.\<close>

theorem terminators_agree:
  "is_terminator i \<longleftrightarrow> ge_flags (RV_GAS_COST_LUT ! unat (kind (rv_gas_meta i))) AND RVF_TERM \<noteq> 0"
  by (cases i) (simp_all add: kind_meta lut_rows rgc_def rgc_ov_def RVF_TERM_def RVF_OVERLAP_DST_SRC_def RVF_OVERLAP_RS1_RD_def)

text \<open>\<open>decode_error_at\<close> is documented as the offset of the first illegal encoding. A truncated
  tail overwrites it: here the reserved halfword at offset 0 is forgotten.\<close>

lemma error_overwritten: "map_option decode_error_at (predecode [0, 0, 3]) = Some (Some 2)"
proof -
  have "error_from [0, 0, 3] 0 None = Some 2"
    by (subst error_from.simps, simp add: decode_evals, subst error_from.simps, simp add: decode_evals)
  then show ?thesis by (simp add: predecode_def predecode_rv_with_mem_cycles_def decode_pass_total compute_block_costs_eq Let_def)
qed

end
