(* ===== verification/Alu.thy ===== *)
theory Alu
  imports Predecode
begin

text \<open>
  The value computed by each arithmetic arm of the \<open>match\<close> in \<open>Interpreter::run\<close>
  (\<open>nub/nub-exec/src/interp.rs\<close>), one equation per arm, and the condition of each branch.
  \<open>as i64\<close> and \<open>as u64\<close> do not change the 64 bits; \<open>as i32 as i64 as u64\<close> is
  sign extension; \<open>wrapping_shr\<close> on a signed value is the arithmetic shift. The theorems at the end
  compare the multiply/divide and the bit-manipulation groups with their mathematical meaning in the
  RISC-V manual.
\<close>

section \<open>Standard-library bit operations\<close>

definition leading_zeros :: "'a::len word \<Rightarrow> nat" where
  "leading_zeros w = length (takeWhile (\<lambda>i. \<not> bit w (LENGTH('a) - 1 - i)) [0..<LENGTH('a)])"

definition count_ones :: "'a::len word \<Rightarrow> nat" where
  "count_ones w = length (filter (bit w) [0..<LENGTH('a)])"

definition swap_bytes :: "u64 \<Rightarrow> u64" where
  "swap_bytes w = from_le_bytes (rev (to_le_bytes 8 w))"

text \<open>\<open>b as u64\<close> of a condition.\<close>

definition of_cond :: "bool \<Rightarrow> u64" where
  "of_cond b = (if b then 1 else 0)"

text \<open>\<open>v as i32 as i64 as u64\<close>.\<close>

definition sext32 :: "u32 \<Rightarrow> u64" where
  "sext32 v = scast v"

section \<open>ALU with immediate\<close>

fun alu_imm_val :: "alu_imm_op \<Rightarrow> u64 \<Rightarrow> i32 \<Rightarrow> u64" where
  "alu_imm_val Addi a imm = a + scast imm"
| "alu_imm_val Slti a imm = of_cond (a <s scast imm)"
| "alu_imm_val Sltiu a imm = of_cond (a < scast imm)"
| "alu_imm_val Andi a imm = a AND scast imm"
| "alu_imm_val Ori a imm = a OR scast imm"
| "alu_imm_val Xori a imm = a XOR scast imm"
| "alu_imm_val Addiw a imm = sext32 (ucast a + imm)"

fun shift_imm_val :: "shift_imm_op \<Rightarrow> u64 \<Rightarrow> u8 \<Rightarrow> u64" where
  "shift_imm_val Slli a shamt = push_bit (unat ((ucast shamt :: u32) AND 63)) a"
| "shift_imm_val Srli a shamt = drop_bit (unat ((ucast shamt :: u32) AND 63)) a"
| "shift_imm_val Srai a shamt = signed_drop_bit (unat ((ucast shamt :: u32) AND 63)) a"
| "shift_imm_val Slliw a shamt = sext32 (push_bit (unat ((ucast shamt :: u32) AND 31)) (ucast a))"
| "shift_imm_val Srliw a shamt = sext32 (drop_bit (unat ((ucast shamt :: u32) AND 31)) (ucast a))"
| "shift_imm_val Sraiw a shamt = sext32 (signed_drop_bit (unat ((ucast shamt :: u32) AND 31)) (ucast a))"

section \<open>ALU register-register\<close>

fun alu_val :: "alu_op \<Rightarrow> u64 \<Rightarrow> u64 \<Rightarrow> u64" where
  "alu_val Add a b = a + b"
| "alu_val Sub a b = a - b"
| "alu_val Sll a b = push_bit (unat ((ucast b :: u32) AND 63)) a"
| "alu_val Srl a b = drop_bit (unat ((ucast b :: u32) AND 63)) a"
| "alu_val Sra a b = signed_drop_bit (unat ((ucast b :: u32) AND 63)) a"
| "alu_val Slt a b = of_cond (a <s b)"
| "alu_val Sltu a b = of_cond (a < b)"
| "alu_val Xor a b = a XOR b"
| "alu_val Or a b = a OR b"
| "alu_val And a b = a AND b"
| "alu_val Addw a b = sext32 (ucast a + ucast b)"
| "alu_val Subw a b = sext32 (ucast a - ucast b)"
| "alu_val Sllw a b = sext32 (push_bit (unat ((ucast b :: u32) AND 31)) (ucast a))"
| "alu_val Srlw a b = sext32 (drop_bit (unat ((ucast b :: u32) AND 31)) (ucast a))"
| "alu_val Sraw a b = sext32 (signed_drop_bit (unat ((ucast b :: u32) AND 31)) (ucast a))"

section \<open>Multiply and divide\<close>

text \<open>\<open>a / b\<close> and \<open>a % b\<close> on signed machine integers round toward zero. \<open>i64::MIN\<close> and
  \<open>i32::MIN\<close> have only the top bit set.\<close>

definition signed_div :: "'a::len word \<Rightarrow> 'a word \<Rightarrow> 'a word" where
  "signed_div a b = word_of_int (sint a sdiv sint b)"

definition signed_rem :: "'a::len word \<Rightarrow> 'a word \<Rightarrow> 'a word" where
  "signed_rem a b = word_of_int (sint a smod sint b)"

fun muldiv_val :: "muldiv_op \<Rightarrow> u64 \<Rightarrow> u64 \<Rightarrow> u64" where
  "muldiv_val Mul a b = a * b"
| "muldiv_val Mulh a b = ucast (signed_drop_bit 64 ((scast a :: 128 word) * scast b))"
| "muldiv_val Mulhsu a b = ucast (signed_drop_bit 64 ((scast a :: 128 word) * ucast b))"
| "muldiv_val Mulhu a b = ucast (drop_bit 64 ((ucast a :: 128 word) * ucast b))"
| "muldiv_val Div a b =
     (if b = 0 then - 1 else if a = 0x8000000000000000 \<and> b = - 1 then a else signed_div a b)"
| "muldiv_val Divu a b = (if b = 0 then - 1 else a div b)"
| "muldiv_val Rem a b =
     (if b = 0 then a else if a = 0x8000000000000000 \<and> b = - 1 then 0 else signed_rem a b)"
| "muldiv_val Remu a b = (if b = 0 then a else a mod b)"
| "muldiv_val Mulw a b = sext32 (ucast a * ucast b)"
| "muldiv_val Divw a b =
     (let a = ucast a :: u32; b = ucast b in
      sext32 (if b = 0 then - 1 else if a = 0x80000000 \<and> b = - 1 then a else signed_div a b))"
| "muldiv_val Divuw a b =
     (let a = ucast a :: u32; b = ucast b in sext32 (if b = 0 then - 1 else a div b))"
| "muldiv_val Remw a b =
     (let a = ucast a :: u32; b = ucast b in
      sext32 (if b = 0 then a else if a = 0x80000000 \<and> b = - 1 then 0 else signed_rem a b))"
| "muldiv_val Remuw a b =
     (let a = ucast a :: u32; b = ucast b in sext32 (if b = 0 then a else a mod b))"

section \<open>Zbb\<close>

text \<open>The byte loop of \<open>orc.b\<close>.\<close>

primrec orc_b_loop :: "nat list \<Rightarrow> u64 \<Rightarrow> u64 \<Rightarrow> u64" where
  "orc_b_loop [] v out = out"
| "orc_b_loop (i # is) v out =
     orc_b_loop is v
       (if drop_bit (i * 8) v AND 0xFF \<noteq> 0 then out OR push_bit (i * 8) 0xFF else out)"

fun zbb_unary_val :: "zbb_unary_op \<Rightarrow> u64 \<Rightarrow> u64" where
  "zbb_unary_val Clz v = of_nat (leading_zeros v)"
| "zbb_unary_val Clzw v = of_nat (leading_zeros (ucast v :: u32))"
| "zbb_unary_val Ctz v = (if v = 0 then 64 else of_nat (trailing_zeros v))"
| "zbb_unary_val Ctzw v =
     (if (ucast v :: u32) = 0 then 32 else of_nat (trailing_zeros (ucast v :: u32)))"
| "zbb_unary_val Cpop v = of_nat (count_ones v)"
| "zbb_unary_val Cpopw v = of_nat (count_ones (ucast v :: u32))"
| "zbb_unary_val SextB v = scast (ucast v :: u8)"
| "zbb_unary_val SextH v = scast (ucast v :: u16)"
| "zbb_unary_val ZextH v = v AND 0xFFFF"
| "zbb_unary_val Rev8 v = swap_bytes v"
| "zbb_unary_val OrcB v = orc_b_loop [0..<8] v 0"

fun zbb_val :: "zbb_op \<Rightarrow> u64 \<Rightarrow> u64 \<Rightarrow> u64" where
  "zbb_val Min_op a b = (if b <s a then b else a)"
| "zbb_val Minu a b = min a b"
| "zbb_val Max_op a b = (if b <s a then a else b)"
| "zbb_val Maxu a b = max a b"
| "zbb_val Andn a b = a AND NOT b"
| "zbb_val Orn a b = a OR NOT b"
| "zbb_val Xnor a b = NOT (a XOR b)"
| "zbb_val Rol a b = word_rotl (unat ((ucast b :: u32) AND 63)) a"
| "zbb_val Ror a b = word_rotr (unat ((ucast b :: u32) AND 63)) a"
| "zbb_val Rolw a b = sext32 (word_rotl (unat ((ucast b :: u32) AND 31)) (ucast a))"
| "zbb_val Rorw a b = sext32 (word_rotr (unat ((ucast b :: u32) AND 31)) (ucast a))"

fun zbb_imm_val :: "zbb_imm_op \<Rightarrow> u64 \<Rightarrow> u8 \<Rightarrow> u64" where
  "zbb_imm_val Rori a shamt = word_rotr (unat ((ucast shamt :: u32) AND 63)) a"
| "zbb_imm_val Roriw a shamt = sext32 (word_rotr (unat ((ucast shamt :: u32) AND 31)) (ucast a))"

section \<open>Zba, Zbs, Zicond\<close>

fun zba_val :: "zba_op \<Rightarrow> u64 \<Rightarrow> u64 \<Rightarrow> u64" where
  "zba_val Sh1add a b = push_bit 1 a + b"
| "zba_val Sh2add a b = push_bit 2 a + b"
| "zba_val Sh3add a b = push_bit 3 a + b"
| "zba_val Sh1adduw a b = push_bit 1 (ucast (ucast a :: u32)) + b"
| "zba_val Sh2adduw a b = push_bit 2 (ucast (ucast a :: u32)) + b"
| "zba_val Sh3adduw a b = push_bit 3 (ucast (ucast a :: u32)) + b"
| "zba_val Adduw a b = ucast (ucast a :: u32) + b"

definition slliuw_val :: "u64 \<Rightarrow> u8 \<Rightarrow> u64" where
  "slliuw_val a shamt = push_bit (unat ((ucast shamt :: u32) AND 63)) (ucast (ucast a :: u32))"

fun zbs_val :: "zbs_op \<Rightarrow> u64 \<Rightarrow> u64 \<Rightarrow> u64" where
  "zbs_val Bclr a b = a AND NOT (push_bit (unat (b AND 63)) 1)"
| "zbs_val Bset a b = a OR push_bit (unat (b AND 63)) 1"
| "zbs_val Binv a b = a XOR push_bit (unat (b AND 63)) 1"
| "zbs_val Bext a b = drop_bit (unat (b AND 63)) a AND 1"

fun zbs_imm_val :: "zbs_imm_op \<Rightarrow> u64 \<Rightarrow> u8 \<Rightarrow> u64" where
  "zbs_imm_val Bclri a shamt = a AND NOT (push_bit (unat (shamt AND 63)) 1)"
| "zbs_imm_val Bseti a shamt = a OR push_bit (unat (shamt AND 63)) 1"
| "zbs_imm_val Binvi a shamt = a XOR push_bit (unat (shamt AND 63)) 1"
| "zbs_imm_val Bexti a shamt = drop_bit (unat (shamt AND 63)) a AND 1"

fun zicond_val :: "zicond_op \<Rightarrow> u64 \<Rightarrow> u64 \<Rightarrow> u64" where
  "zicond_val CzeroEqz a b = (if b = 0 then 0 else a)"
| "zicond_val CzeroNez a b = (if b \<noteq> 0 then 0 else a)"

section \<open>Branch conditions\<close>

fun branch_taken :: "branch_op \<Rightarrow> u64 \<Rightarrow> u64 \<Rightarrow> bool" where
  "branch_taken Beq a b \<longleftrightarrow> a = b"
| "branch_taken Bne a b \<longleftrightarrow> a \<noteq> b"
| "branch_taken Blt a b \<longleftrightarrow> a <s b"
| "branch_taken Bge a b \<longleftrightarrow> b \<le>s a"
| "branch_taken Bltu a b \<longleftrightarrow> a < b"
| "branch_taken Bgeu a b \<longleftrightarrow> b \<le> a"

section \<open>Multiplication and division are the mathematical ones\<close>

text \<open>The RISC-V meaning as an integer, before truncation to 64 bits.\<close>

definition lo_s :: "u64 \<Rightarrow> int" where
  "lo_s x = sint (ucast x :: u32)"

definition lo_u :: "u64 \<Rightarrow> int" where
  "lo_u x = uint (ucast x :: u32)"

fun muldiv_spec :: "muldiv_op \<Rightarrow> u64 \<Rightarrow> u64 \<Rightarrow> int" where
  "muldiv_spec Mul a b = sint a * sint b"
| "muldiv_spec Mulh a b = (sint a * sint b) div 2 ^ 64"
| "muldiv_spec Mulhsu a b = (sint a * uint b) div 2 ^ 64"
| "muldiv_spec Mulhu a b = (uint a * uint b) div 2 ^ 64"
| "muldiv_spec Div a b = (if sint b = 0 then - 1 else sint a sdiv sint b)"
| "muldiv_spec Divu a b = (if uint b = 0 then 2 ^ 64 - 1 else uint a div uint b)"
| "muldiv_spec Rem a b = (if sint b = 0 then sint a else sint a smod sint b)"
| "muldiv_spec Remu a b = (if uint b = 0 then uint a else uint a mod uint b)"
| "muldiv_spec Mulw a b = signed_take_bit 31 (lo_s a * lo_s b)"
| "muldiv_spec Divw a b = signed_take_bit 31 (if lo_s b = 0 then - 1 else lo_s a sdiv lo_s b)"
| "muldiv_spec Divuw a b = signed_take_bit 31 (if lo_u b = 0 then 2 ^ 32 - 1 else lo_u a div lo_u b)"
| "muldiv_spec Remw a b = signed_take_bit 31 (if lo_s b = 0 then lo_s a else lo_s a smod lo_s b)"
| "muldiv_spec Remuw a b = signed_take_bit 31 (if lo_u b = 0 then lo_u a else lo_u a mod lo_u b)"

lemma sext32_of_int: "sext32 (word_of_int k) = word_of_int (signed_take_bit 31 k)"
  by (simp add: sext32_def signed_of_int)

lemma sint_range64: "- (2 ^ 63) \<le> sint a \<and> sint a < 2 ^ 63" for a :: u64
  using sint_greater_eq [of a] sint_less [of a] by simp

lemma uint_range64: "0 \<le> uint a \<and> uint a < 2 ^ 64" for a :: u64
  using uint_bounded [of a] by simp

lemma signed_high:
  fixes p :: int
  assumes "- (2 ^ 127) \<le> p" "p < 2 ^ 127"
  shows "ucast (signed_drop_bit 64 (word_of_int p :: 128 word)) = (word_of_int (p div 2 ^ 64) :: u64)"
proof -
  have s: "sint (word_of_int p :: 128 word) = p" using assms by (simp add: sint_sbintrunc' signed_take_bit_int_eq_self)
  have "signed_drop_bit 64 (word_of_int p :: 128 word) = word_of_int (p div 2 ^ 64)"
    by (metis drop_bit_eq_div s sint_signed_drop_bit_eq of_int_sint scast_id)
  then show ?thesis by (simp add: ucast_down_wi is_down)
qed

lemma scast_128: "(scast a :: 128 word) = word_of_int (sint a)" for a :: u64
  by simp

lemma ucast_128: "(ucast a :: 128 word) = word_of_int (uint a)" for a :: u64
  by simp

lemma mult_range:
  fixes x y :: int
  assumes "- (2 ^ 63) \<le> x" "x < 2 ^ 63" "- (2 ^ 63) \<le> y" "y < 2 ^ 64"
  shows "- (2 ^ 127) \<le> x * y" "x * y < 2 ^ 127"
proof -
  have "\<bar>x\<bar> * \<bar>y\<bar> \<le> 2 ^ 63 * (2 ^ 64 - 1)" using assms by (intro mult_mono) auto
  then have "\<bar>x * y\<bar> < 2 ^ 127" by (simp add: abs_mult)
  then show "- (2 ^ 127) \<le> x * y" "x * y < 2 ^ 127" by linarith+
qed

lemma mulhu_high: "ucast (drop_bit 64 ((ucast a :: 128 word) * ucast b)) = (word_of_int (uint a * uint b div 2 ^ 64) :: u64)" for a b :: u64
proof -
  have "uint a * uint b \<le> (2 ^ 64 - 1) * (2 ^ 64 - 1)" using uint_range64 [of a] uint_range64 [of b] by (intro mult_mono) auto
  then have p: "uint a * uint b < 2 ^ 128" by simp
  have "uint ((ucast a :: 128 word) * ucast b) = uint a * uint b"
    using p uint_range64 [of a] uint_range64 [of b]
    by (simp only: uint_word_ariths ucast_128 uint_word_of_int) simp
  then have "uint (drop_bit 64 ((ucast a :: 128 word) * ucast b)) = uint a * uint b div 2 ^ 64"
    using p by (simp only: drop_bit_eq_div uint_div) simp
  then show ?thesis by (simp only: ucast_eq)
qed

lemma sint_eq_0: "sint w = 0 \<longleftrightarrow> w = 0" for w :: "'a::len word"
  using signed_word_eqI [of w 0] by auto

lemma div_overflow: 
  "word_of_int (sint (0x8000000000000000 :: u64) sdiv sint (- 1 :: u64)) = (0x8000000000000000 :: u64)"
  "word_of_int (sint (0x80000000 :: u32) sdiv sint (- 1 :: u32)) = (0x80000000 :: u32)"
  "sint (0x8000000000000000 :: u64) smod sint (- 1 :: u64) = 0"
  "sint (0x80000000 :: u32) smod sint (- 1 :: u32) = 0"
  by (simp_all add: signed_divide_int_def signed_modulo_int_def)

lemma umax64: "word_of_int (2 ^ 64 - 1) = (- 1 :: u64)" by simp
lemma umax32: "word_of_int (2 ^ 32 - 1) = (- 1 :: u32)" by simp

text \<open>C35: The multiply and divide instructions compute what the RISC-V manual says: the low or high half of the
  exact signed, unsigned or mixed product, and the quotient and remainder rounded toward zero, with the
  prescribed results for a zero divisor and for signed overflow; the 32-bit forms sign-extend.\<close>

theorem muldiv_correct: "muldiv_val op a b = word_of_int (muldiv_spec op a b)"
proof (cases op)
  case Mul
  then show ?thesis by simp
next
  case Mulh
  have "- (2 ^ 127) \<le> sint a * sint b" "sint a * sint b < 2 ^ 127"
    using mult_range [of "sint a" "sint b"] sint_range64 [of a] sint_range64 [of b] by auto
  from signed_high [OF this] show ?thesis
    by (simp only: Mulh muldiv_val.simps muldiv_spec.simps scast_128 of_int_mult)
next
  case Mulhsu
  have "- (2 ^ 127) \<le> sint a * uint b" "sint a * uint b < 2 ^ 127"
    using mult_range [of "sint a" "uint b"] sint_range64 [of a] uint_range64 [of b] by auto
  from signed_high [OF this] show ?thesis
    by (simp only: Mulhsu muldiv_val.simps muldiv_spec.simps scast_128 ucast_128 of_int_mult)
next
  case Mulhu
  then show ?thesis by (simp add: mulhu_high)
next
  case Div
  then show ?thesis using div_overflow(1) by (auto simp: signed_div_def sint_eq_0)
next
  case Divu
  show ?thesis by (cases "b = 0") (simp_all only: Divu muldiv_val.simps muldiv_spec.simps word_div_def uint_0_iff refl if_True if_False umax64)
next
  case Rem
  then show ?thesis using div_overflow(3) by (auto simp: signed_rem_def sint_eq_0)
next
  case Remu
  show ?thesis by (cases "b = 0") (simp_all only: Remu muldiv_val.simps muldiv_spec.simps word_mod_def uint_0_iff refl if_True if_False word_of_int_uint)
next
  case Mulw
  then show ?thesis by (simp add: lo_s_def flip: sext32_of_int)
next
  case Divw
  then show ?thesis using div_overflow(2) by (auto simp: Let_def signed_div_def sint_eq_0 lo_s_def simp flip: sext32_of_int)
next
  case Divuw
  show ?thesis by (cases "(ucast b :: u32) = 0")
    (simp_all only: Divuw muldiv_val.simps muldiv_spec.simps Let_def lo_u_def sext32_of_int [symmetric] word_div_def uint_0_iff refl if_True if_False umax32)
next
  case Remw
  then show ?thesis using div_overflow(4) by (auto simp: Let_def signed_rem_def sint_eq_0 lo_s_def simp flip: sext32_of_int)
next
  case Remuw
  show ?thesis by (cases "(ucast b :: u32) = 0")
    (simp_all only: Remuw muldiv_val.simps muldiv_spec.simps Let_def lo_u_def sext32_of_int [symmetric] word_mod_def uint_0_iff refl if_True if_False word_of_int_uint)
qed

section \<open>Bit manipulation\<close>

lemma finite_bits: "finite {k. bit w k}" for w :: "'a::len word"
  by (rule finite_subset [of _ "{..<LENGTH('a)}"]) (auto dest: bit_imp_le_length)

lemma bits_ne: "w \<noteq> 0 \<Longrightarrow> {k. bit w k} \<noteq> {}" for w :: "'a::len word"
  using bit_word_eqI [of w 0] by auto

lemma leading_zeros_Max:
  fixes w :: "'a::len word"
  assumes "w \<noteq> 0"
  shows "leading_zeros w = LENGTH('a) - 1 - Max {k. bit w k}"
proof -
  define M where "M = Max {k. bit w k}"
  have M: "bit w M" "\<And>j. bit w j \<Longrightarrow> j \<le> M" using Max_in [OF finite_bits bits_ne [OF assms]] Max_ge [OF finite_bits]
    by (auto simp: M_def)
  then have Ml: "M < LENGTH('a)" by (simp add: bit_imp_le_length)
  define n where "n = LENGTH('a) - 1 - M"
  have nl: "n < LENGTH('a)" "LENGTH('a) - 1 - n = M" using Ml by (auto simp: n_def)
  have "[0..<LENGTH('a)] = [0..<n] @ n # [Suc n..<LENGTH('a)]"
    using nl(1) upt_add_eq_append [of 0 n "LENGTH('a) - n"] by (simp add: upt_conv_Cons)
  moreover have "\<not> bit w (LENGTH('a) - 1 - i)" if "i < n" for i
    using M(2) [of "LENGTH('a) - 1 - i"] that Ml by (auto simp: n_def)
  then have "takeWhile (\<lambda>i. \<not> bit w (LENGTH('a) - 1 - i)) ([0..<n] @ n # [Suc n..<LENGTH('a)]) =
      [0..<n] @ takeWhile (\<lambda>i. \<not> bit w (LENGTH('a) - 1 - i)) (n # [Suc n..<LENGTH('a)])"
    by (intro takeWhile_append2) simp
  ultimately have "takeWhile (\<lambda>i. \<not> bit w (LENGTH('a) - 1 - i)) [0..<LENGTH('a)] = [0..<n]"
    using M(1) nl(2) by (simp only: takeWhile.simps) simp
  then show ?thesis by (simp add: leading_zeros_def n_def M_def)
qed

lemma trailing_zeros_Min:
  fixes w :: "'a::len word"
  assumes "w \<noteq> 0"
  shows "trailing_zeros w = Min {k. bit w k}"
  using trailing_zeros_bit [OF assms] trailing_zeros_below [of _ w]
  by (intro Min_eqI [symmetric]) (auto simp: finite_bits not_less [symmetric])

lemma leading_zeros_0: "leading_zeros (0 :: 'a::len word) = LENGTH('a)"
  unfolding leading_zeros_def by (subst takeWhile_eq_all_conv [THEN iffD2]) simp_all

lemma count_ones_card: "count_ones w = card {k. bit w k}" for w :: "'a::len word"
proof -
  have "{k. bit w k} = set (filter (bit w) [0..<LENGTH('a)])" by (auto dest: bit_imp_le_length)
  then show ?thesis by (simp add: count_ones_def del: set_filter flip: distinct_card)
qed

lemma bit_byte: "drop_bit (i * 8) v AND 0xFF \<noteq> 0 \<longleftrightarrow> (\<exists>j. j div 8 = i \<and> bit v j)" for v :: u64
proof -
  have m: "(0xFF :: u64) = mask 8" by (simp add: mask_eq_exp_minus_1)
  have "drop_bit (i * 8) v AND 0xFF \<noteq> 0 \<longleftrightarrow> (\<exists>r. r < 64 \<and> r < 8 \<and> bit v (i * 8 + r))"
    unfolding m by (auto simp: bit_eq_iff bit_simps)
  also have "\<dots> \<longleftrightarrow> (\<exists>r. r < 8 \<and> bit v (i * 8 + r))" by (intro ex_cong1) auto
  also have "\<dots> \<longleftrightarrow> (\<exists>j. j div 8 = i \<and> bit v j)"
  proof
    assume "\<exists>r. r < 8 \<and> bit v (i * 8 + r)"
    then obtain r where "r < 8" "bit v (i * 8 + r)" by blast
    then show "\<exists>j. j div 8 = i \<and> bit v j" by (intro exI [of _ "i * 8 + r"]) simp
  next
    assume "\<exists>j. j div 8 = i \<and> bit v j"
    then obtain j where "j div 8 = i" "bit v j" by blast
    then show "\<exists>r. r < 8 \<and> bit v (i * 8 + r)" by (intro exI [of _ "j mod 8"]) (auto simp: div_mult_mod_eq)
  qed
  finally show ?thesis .
qed

lemma orc_b_loop_bit:
  "bit (orc_b_loop is v out) k \<longleftrightarrow> bit out k \<or> k < 64 \<and> k div 8 \<in> set is \<and> (\<exists>j. j div 8 = k div 8 \<and> bit v j)"
proof (induction "is" arbitrary: out)
  case (Cons i "is")
  have m: "(0xFF :: u64) = mask 8" by (simp add: mask_eq_exp_minus_1)
  have "bit (push_bit (i * 8) 0xFF :: u64) k \<longleftrightarrow> k < 64 \<and> k div 8 = i"
    unfolding m by (auto simp: bit_simps)
  then show ?case by (auto simp: Cons bit_byte bit_or_iff simp del: push_bit_numeral)
qed simp

lemma bit_le_bytes: "bit (from_le_bytes bs :: 'a::len word) k \<longleftrightarrow> k < LENGTH('a) \<and> k < 8 * length bs \<and> bit (bs ! (k div 8)) (k mod 8)"
proof -
  have "bit (le_nat bs) k \<longleftrightarrow> k < 8 * length bs \<and> bit (bs ! (k div 8)) (k mod 8)"
  proof (induction bs arbitrary: k)
    case (Cons b bs)
    show ?case
    proof (cases "k < 8")
      case True
      have "(2::nat) ^ 8 = 2 ^ k * 2 ^ (8 - k)" using True by (simp flip: power_add)
      then have "(unat b + 2 ^ 8 * le_nat bs) div 2 ^ k = unat b div 2 ^ k + 2 ^ (8 - k) * le_nat bs"
        by (simp only: mult.assoc) (simp add: add.commute)
      then have "bit (le_nat (b # bs)) k \<longleftrightarrow> bit (unat b) k" using True by (simp add: bit_iff_odd)
      then show ?thesis using True by (simp add: bit_unsigned_iff)
    next
      case False
      have "(unat b + 256 * le_nat bs) div 2 ^ k = (unat b + 256 * le_nat bs) div 2 ^ 8 div 2 ^ (k - 8)"
        using False by (simp only: div_mult2_eq [symmetric] power_add [symmetric]) simp
      also have "\<dots> = le_nat bs div 2 ^ (k - 8)" using unat_less_256 [of b] by simp
      finally have "bit (le_nat (b # bs)) k \<longleftrightarrow> bit (le_nat bs) (k - 8)" by (simp add: bit_iff_odd)
      moreover have "k div 8 = Suc ((k - 8) div 8)" "k mod 8 = (k - 8) mod 8" using False by (auto simp: le_div_geq le_mod_geq)
      ultimately show ?thesis using Cons [of "k - 8"] False by auto
    qed
  qed simp
  then show ?thesis by (simp add: from_le_bytes_def bit_simps)
qed
lemma bit_to_le_bytes: "i < n \<Longrightarrow> j < 8 \<Longrightarrow> bit (to_le_bytes n w ! i) j \<longleftrightarrow> bit w (8 * i + j)" for w :: "'a::len word"
proof (induction n arbitrary: w i)
  case (Suc n)
  then show ?case by (cases i) (auto simp: bit_simps add.assoc dest: bit_imp_le_length)
qed simp

lemma swap_bytes_bit: "bit (swap_bytes v) k \<longleftrightarrow> k < 64 \<and> bit v (8 * (7 - k div 8) + k mod 8)"
proof (cases "k < 64")
  case True
  then have "k div 8 < 8" by (simp add: less_mult_imp_div_less)
  then show ?thesis using True by (simp add: swap_bytes_def bit_le_bytes rev_nth bit_to_le_bytes)
qed (auto simp: swap_bytes_def bit_le_bytes)

lemma Max_bits: "Max {k. bit w k} < 64" if "w \<noteq> 0" for w :: u64
  using Max_in [OF finite_bits bits_ne [OF that]] by (auto dest: bit_imp_le_length)

lemma Min_bits: "Min {k. bit w k} < 64" if "w \<noteq> 0" for w :: u64
  using Min_in [OF finite_bits bits_ne [OF that]] by (auto dest: bit_imp_le_length)

text \<open>The counting and byte instructions of the Zbb extension have their mathematical meaning: \<open>clz\<close> and
  \<open>ctz\<close> give the distance of the highest and lowest set bit from the ends of the word (64 for
  zero), \<open>cpop\<close> the number of set bits, \<open>orc.b\<close> sets exactly the bits of the bytes that are not
  zero, and \<open>rev8\<close> reverses the bytes.\<close>

theorem zbb_unary_correct:
  "unat (zbb_unary_val Clz v) = (if v = 0 then 64 else 63 - Max {k. bit v k}) \<and>
   unat (zbb_unary_val Ctz v) = (if v = 0 then 64 else Min {k. bit v k}) \<and>
   unat (zbb_unary_val Cpop v) = card {k. bit v k} \<and>
   {k. bit (zbb_unary_val OrcB v) k} = {k. k < 64 \<and> (\<exists>j. j div 8 = k div 8 \<and> bit v j)} \<and>
   {k. bit (zbb_unary_val Rev8 v) k} = {k. k < 64 \<and> bit v (8 * (7 - k div 8) + k mod 8)}"
proof -
  have small: "unat (of_nat n :: u64) = n" if "n \<le> 64" for n
    using that by (simp add: unsigned_of_nat take_bit_nat_eq_self)
  have card: "card {k. bit v k} \<le> 64"
  proof -
    have "{k. bit v k} \<subseteq> {..<64}" by (auto dest: bit_imp_le_length)
    from card_mono [OF _ this] show ?thesis by simp
  qed
  have clz: "leading_zeros v = 63 - Max {k. bit v k}" if "v \<noteq> 0" using leading_zeros_Max [OF that] by simp
  show ?thesis
    using card trailing_zeros_Min [of v] Min_bits [of v] clz
    by (auto simp: small leading_zeros_0 count_ones_card swap_bytes_bit orc_b_loop_bit less_mult_imp_div_less)
qed

end
