(* ===== verification/Mat.thy ===== *)
theory Mat
  imports Gas
begin

text \<open>
  The per-page materialisation state machine of \<open>nub/nub-exec/src/mat.rs\<close>: page kinds, page
  states, the charge of one page touch, and the pages an access touches.
\<close>

definition CLUSTER_SHIFT :: nat where "CLUSTER_SHIFT = 21"

definition cluster_of :: "u32 \<Rightarrow> u32" where
  "cluster_of addr = drop_bit CLUSTER_SHIFT addr"

definition unit_base :: "u32 \<Rightarrow> u32 \<Rightarrow> u32" where
  "unit_base addr cap_start =
     (let cluster_lo = push_bit CLUSTER_SHIFT (cluster_of addr) in max cluster_lo cap_start)"

datatype page_kind = PinnedCapRo | UnpinnedCapCow | EphemeralZero

fun page_kind_as_u8 :: "page_kind \<Rightarrow> u8" where
  "page_kind_as_u8 PinnedCapRo = 0"
| "page_kind_as_u8 UnpinnedCapCow = 1"
| "page_kind_as_u8 EphemeralZero = 2"

definition page_kind_from_u8 :: "u8 \<Rightarrow> page_kind option" where
  "page_kind_from_u8 v =
     (if v = 0 then Some PinnedCapRo
      else if v = 1 then Some UnpinnedCapCow
      else if v = 2 then Some EphemeralZero
      else None)"

datatype page_state = NotPresent | PresentRo | PresentRw

fun page_state_as_u8 :: "page_state \<Rightarrow> u8" where
  "page_state_as_u8 NotPresent = 0"
| "page_state_as_u8 PresentRo = 1"
| "page_state_as_u8 PresentRw = 2"

definition page_state_from_u8 :: "u8 \<Rightarrow> page_state" where
  "page_state_from_u8 v =
     (if v = 1 then PresentRo else if v = 2 then PresentRw else NotPresent)"

text \<open>\<open>Err(HardFault)\<close> is \<open>None\<close>.\<close>

definition charge_for :: "page_state \<Rightarrow> page_kind \<Rightarrow> bool \<Rightarrow> (u64 \<times> page_state) option" where
  "charge_for state kind is_write =
     (if is_write \<and> kind = PinnedCapRo then None
      else Some (case (state, is_write) of
        (NotPresent, False) \<Rightarrow> (0, PresentRo)
      | (NotPresent, True) \<Rightarrow> (COW_COST, PresentRw)
      | (PresentRo, True) \<Rightarrow> (COW_COST, PresentRw)
      | (PresentRo, False) \<Rightarrow> (0, PresentRo)
      | (PresentRw, _) \<Rightarrow> (0, PresentRw)))"

text \<open>\<open>PageSet\<close>: the two page bases and how many of them are live.\<close>

record page_set =
  pages :: "u32 list"
  page_set_len :: u8

definition as_slice :: "page_set \<Rightarrow> u32 list" where
  "as_slice s = take (unat (page_set_len s)) (pages s)"

definition access_pages :: "u32 \<Rightarrow> u32 \<Rightarrow> page_set" where
  "access_pages addr width =
     (let mask = 4096 - 1;
          base = addr AND NOT mask;
          off = addr AND mask in
      if off + width > 4096 then \<lparr>pages = [base, base + 4096], page_set_len = 2\<rparr>
      else \<lparr>pages = [base, 0], page_set_len = 1\<rparr>)"

section \<open>Properties\<close>

lemma page_kind_roundtrip: "page_kind_from_u8 (page_kind_as_u8 k) = Some k"
  by (cases k) (simp_all add: page_kind_from_u8_def)

lemma page_state_roundtrip: "page_state_from_u8 (page_state_as_u8 s) = s"
  by (cases s) (simp_all add: page_state_from_u8_def)

lemma unit_base_bounds:
  "cap_start \<le> unit_base addr cap_start"
  "cap_start \<le> addr \<Longrightarrow> unit_base addr cap_start \<le> addr"
  unfolding unit_base_def Let_def cluster_of_def CLUSTER_SHIFT_def
proof -
  show "cap_start \<le> max (push_bit 21 (drop_bit 21 addr)) cap_start" by simp
  assume "cap_start \<le> addr"
  moreover have "push_bit 21 (drop_bit 21 addr) \<le> addr"
  proof -
    have "push_bit 21 (drop_bit 21 addr) = addr AND NOT (mask 21)"
      by (rule bit_word_eqI) (auto simp: bit_push_bit_iff bit_drop_bit_eq bit_and_iff bit_not_iff bit_mask_iff)
    then show ?thesis by (simp add: word_and_le2)
  qed
  ultimately show "max (push_bit 21 (drop_bit 21 addr)) cap_start \<le> addr" by simp
qed

lemma charge_for_read: "\<exists>s'. charge_for s k False = Some (0, s')"
  by (cases s) (simp_all add: charge_for_def)

lemma charge_for_cases:
  assumes "charge_for s k w = Some (c, s')"
  shows "c \<le> COW_COST" "w \<Longrightarrow> s' = PresentRw \<and> k \<noteq> PinnedCapRo" "s = PresentRw \<Longrightarrow> c = 0 \<and> s' = PresentRw"
    "c \<noteq> 0 \<Longrightarrow> s \<noteq> PresentRw \<and> s' = PresentRw" "\<not> w \<Longrightarrow> c = 0"
  using assms by (cases s; cases w; auto simp: charge_for_def split: if_splits)+

end
