(* ===== verification/Memory.thy ===== *)
theory Memory
  imports Mat
begin

text \<open>
  The flat-buffer memory of \<open>nub/nub-exec/src/mem.rs\<close>. \<open>trait Memory\<close> is the record
  \<open>memory_ops\<close> of operations over a backend type, \<open>CopyingMemory\<close> the record
  \<open>copying_memory\<close> and its operations \<open>cm_*\<close>, collected in \<open>copying_ops\<close>. \<open>usize\<close> values
  are natural numbers. Operations whose body can hit a Rust panic (an index out of range, an
  \<open>expect\<close> that fails) return a \<open>may_panic\<close>.
\<close>

section \<open>Data\<close>

definition perm_NONE :: u8 where [opcode_simps]: "perm_NONE = 0"
definition perm_RO :: u8 where [opcode_simps]: "perm_RO = 1"
definition perm_RW :: u8 where [opcode_simps]: "perm_RW = 2"

datatype access = ReadOnly | ReadWrite

datatype mem_access = MemOk | MemPageFault u32 | WriteProtected u32

datatype map_error = UnalignedStart u64 | UnalignedSize u64 | MapOverflow

text \<open>\<open>trait Memory\<close>. A touch returns whether it succeeded (\<open>False\<close> is \<open>Err(TouchFault)\<close>), the
  new memory and the new gas counter.\<close>

record 'm memory_ops =
  read_u8 :: "'m \<Rightarrow> u32 \<Rightarrow> u8 option"
  read_u16_le :: "'m \<Rightarrow> u32 \<Rightarrow> u16 option"
  read_u32_le :: "'m \<Rightarrow> u32 \<Rightarrow> u32 option"
  read_u64_le :: "'m \<Rightarrow> u32 \<Rightarrow> u64 option"
  write_u8 :: "'m \<Rightarrow> u32 \<Rightarrow> u8 \<Rightarrow> bool \<times> 'm"
  write_u16_le :: "'m \<Rightarrow> u32 \<Rightarrow> u16 \<Rightarrow> bool \<times> 'm"
  write_u32_le :: "'m \<Rightarrow> u32 \<Rightarrow> u32 \<Rightarrow> bool \<times> 'm"
  write_u64_le :: "'m \<Rightarrow> u32 \<Rightarrow> u64 \<Rightarrow> bool \<times> 'm"
  map_region :: "'m \<Rightarrow> u64 \<Rightarrow> u64 \<Rightarrow> access \<Rightarrow> bytes option \<Rightarrow> (map_error + 'm) may_panic"
  perm_of :: "'m \<Rightarrow> u32 \<Rightarrow> u8"
  mem_read :: "'m \<Rightarrow> u32 \<Rightarrow> nat \<Rightarrow> mem_access + bytes"
  mem_write :: "'m \<Rightarrow> u32 \<Rightarrow> bytes \<Rightarrow> mem_access + 'm"
  touch_read :: "'m \<Rightarrow> u32 \<Rightarrow> u32 \<Rightarrow> gas_counter \<Rightarrow> (bool \<times> 'm \<times> gas_counter) may_panic"
  touch_write :: "'m \<Rightarrow> u32 \<Rightarrow> u32 \<Rightarrow> gas_counter \<Rightarrow> (bool \<times> 'm \<times> gas_counter) may_panic"

record copying_memory =
  m_base :: u32
  flat_mem :: bytes
  perms :: "u8 list"
  mat_state :: "u8 list"
  m_code_base :: u32
  m_code_top :: u32
  heap_base :: u32
  heap_top :: u32
  max_heap_pages :: u32

section \<open>Construction\<close>

definition cm_new :: copying_memory where
  "cm_new =
     \<lparr>m_base = 0, flat_mem = [], perms = [], mat_state = [], m_code_base = 0, m_code_top = 0,
      heap_base = 0, heap_top = 0, max_heap_pages = 0\<rparr>"

definition off :: "copying_memory \<Rightarrow> u32 \<Rightarrow> nat" where
  "off m addr = unat (addr - m_base m)"

definition with_pages :: "u32 \<Rightarrow> u8 \<Rightarrow> copying_memory" where
  "with_pages n_pages default_perm =
     (let bytes = unat n_pages * PAGE_SIZE in
      \<lparr>m_base = 0, flat_mem = replicate bytes 0, perms = replicate (unat n_pages) default_perm,
       mat_state = replicate (unat n_pages) (page_state_as_u8 NotPresent),
       m_code_base = 0, m_code_top = 0, heap_base = 0, heap_top = 0, max_heap_pages = 0\<rparr>)"

text \<open>\<open>u32::next_multiple_of\<close> on the code length wraps in a release build.\<close>

definition set_code_region :: "copying_memory \<Rightarrow> u32 \<Rightarrow> u32 \<Rightarrow> copying_memory" where
  "set_code_region m code_base code_len =
     (let rounded = of_nat (next_multiple_of (unat code_len) PAGE_SIZE) in
      m\<lparr>m_code_base := code_base, m_code_top := saturating_add code_base rounded\<rparr>)"

definition is_code_page :: "copying_memory \<Rightarrow> u32 \<Rightarrow> bool" where
  "is_code_page m page_addr \<longleftrightarrow>
     m_code_top m > m_code_base m \<and> page_addr \<ge> m_code_base m \<and> page_addr < m_code_top m"

definition cm_perm_of :: "copying_memory \<Rightarrow> u32 \<Rightarrow> u8" where
  "cm_perm_of m addr =
     (let page = off m addr div PAGE_SIZE in
      if page < length (perms m) then perms m ! page else perm_NONE)"

definition page_index :: "copying_memory \<Rightarrow> u32 \<Rightarrow> nat option" where
  "page_index m page_addr =
     (let ofs = off m page_addr in
      if ofs < length (flat_mem m) then Some (ofs div PAGE_SIZE) else None)"

section \<open>First-touch accounting\<close>

text \<open>The first loop of \<open>touch_data\<close>: every page is a declared data page, writable for a write.\<close>

fun pages_accessible :: "copying_memory \<Rightarrow> u32 list \<Rightarrow> bool \<Rightarrow> bool may_panic" where
  "pages_accessible m [] is_write = Returns True"
| "pages_accessible m (p # ps) is_write =
     (case page_index m p of
        Some i \<Rightarrow>
          if i < length (perms m) then
            let pm = perms m ! i in
            if pm = perm_NONE \<or> (is_write \<and> pm \<noteq> perm_RW) then Returns False
            else pages_accessible m ps is_write
          else Panics
      | None \<Rightarrow> Returns False)"

text \<open>The second loop: charge and advance every page.\<close>

fun materialize :: "copying_memory \<Rightarrow> u32 list \<Rightarrow> bool \<Rightarrow> u64 \<Rightarrow> (copying_memory \<times> u64) may_panic" where
  "materialize m [] is_write tot = Returns (m, tot)"
| "materialize m (p # ps) is_write tot =
     (case page_index m p of
        None \<Rightarrow> Panics
      | Some i \<Rightarrow>
          if i < length (perms m) then
            if perms m ! i \<noteq> perm_RO then
              if i < length (mat_state m) then
                (case charge_for (page_state_from_u8 (mat_state m ! i)) UnpinnedCapCow is_write of
                   None \<Rightarrow> Panics
                 | Some (c, nxt) \<Rightarrow>
                     materialize (m\<lparr>mat_state := (mat_state m)[i := page_state_as_u8 nxt]\<rparr>) ps
                       is_write (tot + c))
              else Panics
            else materialize m ps is_write tot
          else Panics)"

definition touch_data ::
    "copying_memory \<Rightarrow> u32 list \<Rightarrow> bool \<Rightarrow> gas_counter \<Rightarrow> (bool \<times> copying_memory \<times> gas_counter) may_panic"
where
  "touch_data m ps is_write gas =
     (case pages_accessible m ps is_write of
        Panics \<Rightarrow> Panics
      | Returns False \<Rightarrow> Returns (False, m, gas)
      | Returns True \<Rightarrow>
          (case materialize m ps is_write 0 of
             Panics \<Rightarrow> Panics
           | Returns (m', tot) \<Rightarrow>
               (case charge gas tot of
                  (True, gas') \<Rightarrow> Returns (True, m', gas')
                | (False, _) \<Rightarrow> Panics)))"

definition touch_code :: "copying_memory \<Rightarrow> u32 list \<Rightarrow> bool \<Rightarrow> bool" where
  "touch_code m ps is_write \<longleftrightarrow> \<not> is_write \<and> list_all (is_code_page m) ps"

definition touch ::
    "copying_memory \<Rightarrow> u32 \<Rightarrow> u32 \<Rightarrow> bool \<Rightarrow> gas_counter \<Rightarrow> (bool \<times> copying_memory \<times> gas_counter) may_panic"
where
  "touch m addr width is_write gas =
     (let ps = as_slice (access_pages addr width) in
      case page_index m (ps ! 0) of
        Some i \<Rightarrow>
          if i < length (perms m) then
            if perms m ! i \<noteq> perm_NONE then touch_data m ps is_write gas
            else if is_code_page m (ps ! 0) then Returns (touch_code m ps is_write, m, gas)
            else Returns (True, m, gas)
          else Panics
      | None \<Rightarrow>
          if is_code_page m (ps ! 0) then Returns (touch_code m ps is_write, m, gas)
          else Returns (True, m, gas))"

definition cm_touch_read ::
    "copying_memory \<Rightarrow> u32 \<Rightarrow> u32 \<Rightarrow> gas_counter \<Rightarrow> (bool \<times> copying_memory \<times> gas_counter) may_panic"
where
  "cm_touch_read m addr width gas = touch m addr width False gas"

definition cm_touch_write ::
    "copying_memory \<Rightarrow> u32 \<Rightarrow> u32 \<Rightarrow> gas_counter \<Rightarrow> (bool \<times> copying_memory \<times> gas_counter) may_panic"
where
  "cm_touch_write m addr width gas = touch m addr width True gas"

section \<open>Reads and writes\<close>

definition cm_read_u8 :: "copying_memory \<Rightarrow> u32 \<Rightarrow> u8 option" where
  "cm_read_u8 m addr =
     (let a = off m addr in
      if a < length (flat_mem m) then Some (flat_mem m ! a) else None)"

definition cm_read_u16_le :: "copying_memory \<Rightarrow> u32 \<Rightarrow> u16 option" where
  "cm_read_u16_le m addr =
     (let a = off m addr in
      if a + 2 \<le> length (flat_mem m) then Some (from_le_bytes (take 2 (drop a (flat_mem m)))) else None)"

definition cm_read_u32_le :: "copying_memory \<Rightarrow> u32 \<Rightarrow> u32 option" where
  "cm_read_u32_le m addr =
     (let a = off m addr in
      if a + 4 \<le> length (flat_mem m) then Some (from_le_bytes (take 4 (drop a (flat_mem m)))) else None)"

definition cm_read_u64_le :: "copying_memory \<Rightarrow> u32 \<Rightarrow> u64 option" where
  "cm_read_u64_le m addr =
     (let a = off m addr in
      if a + 8 \<le> length (flat_mem m) then Some (from_le_bytes (take 8 (drop a (flat_mem m)))) else None)"

definition cm_write_u8 :: "copying_memory \<Rightarrow> u32 \<Rightarrow> u8 \<Rightarrow> bool \<times> copying_memory" where
  "cm_write_u8 m addr v =
     (let a = off m addr in
      if a < length (flat_mem m) then (True, m\<lparr>flat_mem := (flat_mem m)[a := v]\<rparr>)
      else (False, m))"

definition cm_write_u16_le :: "copying_memory \<Rightarrow> u32 \<Rightarrow> u16 \<Rightarrow> bool \<times> copying_memory" where
  "cm_write_u16_le m addr v =
     (let a = off m addr in
      if a + 2 \<le> length (flat_mem m) then (True, m\<lparr>flat_mem := write_slice (flat_mem m) a (to_le_bytes 2 v)\<rparr>)
      else (False, m))"

definition cm_write_u32_le :: "copying_memory \<Rightarrow> u32 \<Rightarrow> u32 \<Rightarrow> bool \<times> copying_memory" where
  "cm_write_u32_le m addr v =
     (let a = off m addr in
      if a + 4 \<le> length (flat_mem m) then (True, m\<lparr>flat_mem := write_slice (flat_mem m) a (to_le_bytes 4 v)\<rparr>)
      else (False, m))"

definition cm_write_u64_le :: "copying_memory \<Rightarrow> u32 \<Rightarrow> u64 \<Rightarrow> bool \<times> copying_memory" where
  "cm_write_u64_le m addr v =
     (let a = off m addr in
      if a + 8 \<le> length (flat_mem m) then (True, m\<lparr>flat_mem := write_slice (flat_mem m) a (to_le_bytes 8 v)\<rparr>)
      else (False, m))"

section \<open>Mapping and slow paths\<close>

text \<open>\<open>for p in first..=last { perms[p] = byte }\<close>, which panics when \<open>last\<close> is out of range.\<close>

definition fill_perms :: "u8 list \<Rightarrow> nat \<Rightarrow> nat \<Rightarrow> u8 \<Rightarrow> u8 list may_panic" where
  "fill_perms ps first_page last_page b =
     (if last_page < length ps
      then Returns (map (\<lambda>i. if first_page \<le> i \<and> i \<le> last_page then b else ps ! i) [0..<length ps])
      else Panics)"

definition grow :: "copying_memory \<Rightarrow> nat \<Rightarrow> copying_memory" where
  "grow m rel_end =
     (if rel_end > length (flat_mem m) then
        let needed_pages = div_ceil rel_end PAGE_SIZE;
            m = m\<lparr>flat_mem := resize (flat_mem m) rel_end 0\<rparr>;
            m = (if length (perms m) < needed_pages
                 then m\<lparr>perms := resize (perms m) needed_pages perm_NONE\<rparr> else m) in
        (if length (mat_state m) < needed_pages
         then m\<lparr>mat_state := resize (mat_state m) needed_pages (page_state_as_u8 NotPresent)\<rparr>
         else m)
      else m)"

definition cm_map_region ::
    "copying_memory \<Rightarrow> u64 \<Rightarrow> u64 \<Rightarrow> access \<Rightarrow> bytes option \<Rightarrow> (map_error + copying_memory) may_panic"
where
  "cm_map_region m start sz acc init =
     (if unat start mod PAGE_SIZE \<noteq> 0 then Returns (Inl (UnalignedStart start))
      else if unat sz mod PAGE_SIZE \<noteq> 0 then Returns (Inl (UnalignedSize sz))
      else if start < ucast (m_base m) then Returns (Inl (UnalignedStart start))
      else
        let rel_start = unat (start - ucast (m_base m));
            rel_end = rel_start + unat sz in
        if rel_end \<ge> 2 ^ 64 then Returns (Inl MapOverflow)
        else
          let m = grow m rel_end;
              perm_byte = (case acc of ReadOnly \<Rightarrow> perm_RO | ReadWrite \<Rightarrow> perm_RW);
              first_page = rel_start div PAGE_SIZE;
              last_page = rel_end div PAGE_SIZE - 1 in
          bind_panic (if sz > 0 then fill_perms (perms m) first_page last_page perm_byte
                      else Returns (perms m))
            (\<lambda>ps.
              let m = m\<lparr>perms := ps\<rparr> in
              case init of
                None \<Rightarrow> Returns (Inr m)
              | Some bs \<Rightarrow>
                  let n = min (length bs) (unat sz) in
                  if rel_start + n \<le> length (flat_mem m)
                  then Returns (Inr (m\<lparr>flat_mem := write_slice (flat_mem m) rel_start (take n bs)\<rparr>))
                  else Panics))"

definition page_mask :: "u32 \<Rightarrow> u32" where
  "page_mask addr = addr AND NOT (4096 - 1)"

definition cm_read :: "copying_memory \<Rightarrow> u32 \<Rightarrow> nat \<Rightarrow> mem_access + bytes" where
  "cm_read m addr len =
     (let a = off m addr;
          e = a + len in
      if e \<ge> 2 ^ 64 then Inl (MemPageFault (page_mask addr))
      else if e > length (flat_mem m) then Inl (MemPageFault (page_mask addr))
      else Inr (take (e - a) (drop a (flat_mem m))))"

text \<open>The permission loop \<open>for p in start_page..=last_page\<close> of \<open>write\<close>, which stops at the first page
  that is not writable.\<close>

function write_perms :: "u8 list \<Rightarrow> nat \<Rightarrow> nat \<Rightarrow> nat option" where
  "write_perms ps p last_page =
     (if p \<le> last_page then
        if (if p < length ps then ps ! p else perm_NONE) \<noteq> perm_RW then Some p
        else write_perms ps (p + 1) last_page
      else None)"
  by pat_completeness auto
termination
  by (relation "measure (\<lambda>(ps, p, last_page). Suc last_page - p)") auto

declare write_perms.simps [simp del]

text \<open>\<open>end - 1\<close> is a \<open>usize\<close> subtraction and wraps for an empty write at offset 0.\<close>

definition cm_write :: "copying_memory \<Rightarrow> u32 \<Rightarrow> bytes \<Rightarrow> mem_access + copying_memory" where
  "cm_write m addr bs =
     (let a = off m addr;
          e = a + length bs in
      if e \<ge> 2 ^ 64 then Inl (MemPageFault (page_mask addr))
      else if e > length (flat_mem m) then Inl (MemPageFault (page_mask addr))
      else
        let start_page = a div PAGE_SIZE;
            last_page = ((e + 2 ^ 64 - 1) mod 2 ^ 64) div PAGE_SIZE in
        case write_perms (perms m) start_page last_page of
          Some p \<Rightarrow> Inl (WriteProtected (of_nat p * 4096))
        | None \<Rightarrow> Inr (m\<lparr>flat_mem := write_slice (flat_mem m) a bs\<rparr>))"

definition copying_ops :: "copying_memory memory_ops" where
  "copying_ops =
     \<lparr>read_u8 = cm_read_u8, read_u16_le = cm_read_u16_le, read_u32_le = cm_read_u32_le,
      read_u64_le = cm_read_u64_le, write_u8 = cm_write_u8, write_u16_le = cm_write_u16_le,
      write_u32_le = cm_write_u32_le, write_u64_le = cm_write_u64_le, map_region = cm_map_region,
      perm_of = cm_perm_of, mem_read = cm_read, mem_write = cm_write,
      touch_read = cm_touch_read, touch_write = cm_touch_write\<rparr>"

end
