(* ===== verification/Memory_Laws.thy ===== *)
theory Memory_Laws
  imports Memory
begin

text \<open>
  Laws of the memory backend of \<open>Memory\<close>: well-formedness is kept by every operation; a touch charges
  the copy-on-write cost exactly once per page and changes materialisation states only; a read sees the
  last write; \<open>map_region\<close> installs bytes and permissions where asked and nowhere else;
  \<open>access_pages\<close> lists exactly the pages of the accessed bytes. The locale \<open>memory_backend\<close> is the contract
  the interpreter relies on, interpreted here for \<open>CopyingMemory\<close>.
\<close>

section \<open>Well-formedness and materialisation\<close>

text \<open>The base is page aligned and the three vectors agree in size.\<close>

definition wf_mem :: "copying_memory \<Rightarrow> bool" where
  "wf_mem m \<longleftrightarrow> PAGE_SIZE dvd unat (m_base m) \<and> length (flat_mem m) = PAGE_SIZE * length (perms m) \<and>
     length (mat_state m) = length (perms m)"

text \<open>The pages a 32-bit address can reach whose first write is still to be charged: not read-only and
  not yet in the private read-write state.\<close>

definition cold_pages :: "copying_memory \<Rightarrow> nat set" where
  "cold_pages m = {i. i < length (perms m) \<and> i < 2 ^ 20 \<and> perms m ! i \<noteq> perm_RO \<and>
     page_state_from_u8 (mat_state m ! i) \<noteq> PresentRw}"

text \<open>\<open>m'\<close> differs from \<open>m\<close> in materialisation states only.\<close>
definition remat :: "copying_memory \<Rightarrow> copying_memory \<Rightarrow> bool" where
  "remat m m' \<longleftrightarrow> m' = m\<lparr>mat_state := mat_state m'\<rparr>"

lemma remat_refl [simp]: "remat m m" by (simp add: remat_def)

lemma remat_trans: "remat m m1 \<Longrightarrow> remat m1 m' \<Longrightarrow> remat m m'"
  unfolding remat_def by (cases m; cases m1; cases m'; simp)

lemma remat_same:
  assumes "remat m m'"
  shows "m_base m' = m_base m" "flat_mem m' = flat_mem m" "perms m' = perms m"
    "m_code_base m' = m_code_base m" "m_code_top m' = m_code_top m" "page_index m' p = page_index m p"
  by (subst assms [unfolded remat_def], simp add: page_index_def off_def)+

lemma off_less: "off m a < 4096 * 2 ^ 20"
  using unsigned_less [of "a - m_base m", where 'a = nat] by (simp add: off_def)

lemma page_index_less:
  "wf_mem m \<Longrightarrow> page_index m p = Some i \<Longrightarrow> i < length (perms m) \<and> i < length (mat_state m) \<and> i < 2 ^ 20"
  using off_less [of m p]
  by (auto simp: wf_mem_def page_index_def Let_def PAGE_SIZE_def less_mult_imp_div_less mult.commute split: if_splits)

lemma page_index_mat [simp]: "page_index (m\<lparr>mat_state := x\<rparr>) p = page_index m p"
  by (simp add: page_index_def off_def)

lemma finite_cold [simp]: "finite (cold_pages m)" by (simp add: cold_pages_def)

lemma page_state_codes: "page_state_from_u8 0 = NotPresent" "page_state_from_u8 1 = PresentRo" "page_state_from_u8 2 = PresentRw"
  by (simp_all add: page_state_from_u8_def)

definition page_charge :: "copying_memory \<Rightarrow> bool \<Rightarrow> nat \<Rightarrow> nat" where
  "page_charge m is_write i = (if is_write \<and> i \<in> cold_pages m then 256 else 0)"

lemma materialize_step:
  assumes "wf_mem m" "page_index m p = Some i" "is_write \<Longrightarrow> perms m ! i = perm_RW"
  obtains m' where 
    "\<And>ps tot. materialize m (p # ps) is_write tot = materialize m' ps is_write (tot + of_nat (page_charge m is_write i))"
    "wf_mem m'" "remat m m'"
    "cold_pages m' = cold_pages m - (if is_write then {i} else {})"
proof (cases "perms m ! i = perm_RO")
  case True
  then have "\<not> is_write" using assms(3) by (auto simp: perm_RO_def perm_RW_def)
  then show ?thesis using True assms(1,2) page_index_less [OF assms(1,2)]
    by (intro that [of m]) (auto simp: page_charge_def)
next
  case False
  define s where "s = page_state_from_u8 (mat_state m ! i)"
  obtain c nxt where c: "charge_for s UnpinnedCapCow is_write = Some (c, nxt)"
    by (cases s; cases is_write) (auto simp: charge_for_def)
  define m' where "m' = m\<lparr>mat_state := (mat_state m)[i := page_state_as_u8 nxt]\<rparr>"
  note il = page_index_less [OF assms(1,2)]
  have cc: "c = of_nat (page_charge m is_write i)"
    using c il False by (cases s; cases is_write) (auto simp: charge_for_def page_charge_def cold_pages_def s_def [symmetric] COW_COST_def)
  have cold: "cold_pages m' = cold_pages m - (if is_write then {i} else {})"
    using c il by (cases s; cases is_write) (auto simp: charge_for_def cold_pages_def m'_def s_def [symmetric] nth_list_update page_state_codes)
  have mat: "materialize m (p # ps) is_write tot = materialize m' ps is_write (tot + of_nat (page_charge m is_write i))" for ps tot
    using il False c assms(2) by (simp add: s_def [symmetric] m'_def cc)
  have "wf_mem m'" using assms(1) by (simp add: wf_mem_def m'_def)
  then show ?thesis using that [of m'] mat cold by (simp add: m'_def remat_def)
qed

definition page_indices :: "copying_memory \<Rightarrow> u32 list \<Rightarrow> nat set" where
  "page_indices m ps = {i. \<exists>p \<in> set ps. page_index m p = Some i}"

lemma page_indices_simps [simp]: "page_indices m [] = {}"
  "page_index m p = Some i \<Longrightarrow> page_indices m (p # ps) = insert i (page_indices m ps)"
  by (auto simp: page_indices_def)

lemma materialize_spec:
  assumes "wf_mem m" "\<forall>p \<in> set ps. \<exists>i. page_index m p = Some i \<and> (is_write \<longrightarrow> perms m ! i = perm_RW)"
  shows "\<exists>m' c. materialize m ps is_write tot = Returns (m', tot + of_nat c) \<and> wf_mem m' \<and>
     remat m m' \<and>
     cold_pages m' = cold_pages m - (if is_write then page_indices m ps else {}) \<and>
     c = (if is_write then 256 * card (cold_pages m \<inter> page_indices m ps) else 0)"
  using assms
proof (induction ps arbitrary: m tot)
  case Nil
  then show ?case by auto
next
  case (Cons p ps)
  obtain i where i: "page_index m p = Some i" "is_write \<Longrightarrow> perms m ! i = perm_RW" using Cons.prems(2) by auto
  obtain m1 where m1: "\<And>ps tot. materialize m (p # ps) is_write tot = materialize m1 ps is_write (tot + of_nat (page_charge m is_write i))"
    "wf_mem m1" "remat m m1"
    "cold_pages m1 = cold_pages m - (if is_write then {i} else {})"
    using materialize_step [OF Cons.prems(1) i] by metis
  have pi: "page_index m1 q = page_index m q" for q by (rule remat_same [OF m1(3)])
  have pm: "perms m1 = perms m" by (rule remat_same [OF m1(3)])
  have pis: "page_indices m1 ps = page_indices m ps" by (simp add: page_indices_def pi)
  obtain m' c where m': "materialize m1 ps is_write (tot + of_nat (page_charge m is_write i)) = Returns (m', tot + of_nat (page_charge m is_write i) + of_nat c)"
     "wf_mem m'" "remat m1 m'"
     "cold_pages m' = cold_pages m1 - (if is_write then page_indices m1 ps else {})"
     "c = (if is_write then 256 * card (cold_pages m1 \<inter> page_indices m1 ps) else 0)"
    using Cons.IH [OF m1(2), of "tot + of_nat (page_charge m is_write i)"] Cons.prems(2) by (auto simp: pi pm)
  have card: "card (cold_pages m \<inter> insert i (page_indices m ps)) = 
     (if i \<in> cold_pages m then 1 else 0) + card ((cold_pages m - {i}) \<inter> page_indices m ps)"
  proof (cases "i \<in> cold_pages m")
    case True
    then have "cold_pages m \<inter> insert i (page_indices m ps) = insert i ((cold_pages m - {i}) \<inter> page_indices m ps)" by auto
    then show ?thesis using True by simp
  next
    case False
    then have "cold_pages m \<inter> insert i (page_indices m ps) = (cold_pages m - {i}) \<inter> page_indices m ps" by auto
    then show ?thesis using False by simp
  qed
  have "remat m m'" using m1(3) m'(3) by (rule remat_trans)
  moreover have "cold_pages m' = cold_pages m - (if is_write then page_indices m (p # ps) else {})"
    using m'(4) m1(4) by (auto simp: pis i(1))
  moreover have "page_charge m is_write i + c = (if is_write then 256 * card (cold_pages m \<inter> page_indices m (p # ps)) else 0)"
    using m'(5) m1(4) card by (simp add: page_charge_def pis i(1) algebra_simps)
  ultimately show ?case using m'(1,2) m1(1) by (auto simp: add.assoc simp flip: of_nat_add)
qed

section \<open>Touch\<close>

definition accessible :: "copying_memory \<Rightarrow> bool \<Rightarrow> u32 \<Rightarrow> bool" where
  "accessible m is_write p \<longleftrightarrow> (\<exists>i. page_index m p = Some i \<and> perms m ! i \<noteq> perm_NONE \<and> (is_write \<longrightarrow> perms m ! i = perm_RW))"

lemma pages_accessible_spec:
  "wf_mem m \<Longrightarrow> pages_accessible m ps is_write = Returns (\<forall>p \<in> set ps. accessible m is_write p)"
proof (induction ps)
  case (Cons p ps)
  then show ?case
    using page_index_less [OF Cons.prems, of p]
    by (auto simp: accessible_def Let_def perm_NONE_def perm_RW_def split: option.split)
qed simp

lemma as_slice_access: 
  "as_slice (access_pages a w) \<noteq> []" "length (as_slice (access_pages a w)) \<le> 2"
  "as_slice (access_pages a w) ! 0 = a AND NOT 4095"
  by (auto simp: as_slice_def access_pages_def Let_def)

lemma touch_data_spec:
  assumes "wf_mem m" "length ps \<le> 2"
  shows "\<exists>ok m' c. (\<forall>gas. c \<le> unat (remaining gas) \<longrightarrow>
       touch_data m ps is_write gas = Returns (ok, m', gas\<lparr>remaining := remaining gas - of_nat c\<rparr>)) \<and>
     wf_mem m' \<and> remat m m' \<and> c \<le> 512 \<and> c + 256 * card (cold_pages m') = 256 * card (cold_pages m) \<and>
     (ok \<longleftrightarrow> (\<forall>p \<in> set ps. accessible m is_write p)) \<and>
     c = (if ok \<and> is_write then 256 * card (cold_pages m \<inter> page_indices m ps) else 0) \<and>
     cold_pages m' = cold_pages m - (if ok \<and> is_write then page_indices m ps else {})"
proof (cases "\<forall>p \<in> set ps. accessible m is_write p")
  case False
  then have "pages_accessible m ps is_write = Returns False"
    using pages_accessible_spec [OF assms(1), of ps is_write] by auto
  then show ?thesis using assms(1) False
    by (intro exI [of _ False] exI [of _ m] exI [of _ 0]) (auto simp: touch_data_def)
next
  case True
  then have "\<forall>p \<in> set ps. \<exists>i. page_index m p = Some i \<and> (is_write \<longrightarrow> perms m ! i = perm_RW)"
    by (auto simp: accessible_def)
  from materialize_spec [OF assms(1) this, of 0] obtain m' c where m':
    "materialize m ps is_write 0 = Returns (m', of_nat c)" "wf_mem m'" "remat m m'"
    "cold_pages m' = cold_pages m - (if is_write then page_indices m ps else {})"
    "c = (if is_write then 256 * card (cold_pages m \<inter> page_indices m ps) else 0)" by auto
  have "page_indices m ps \<subseteq> set (map (\<lambda>p. the (page_index m p)) ps)" by (force simp: page_indices_def)
  then have "card (page_indices m ps) \<le> 2" 
    using assms(2) card_mono [OF finite_set] card_length by (metis length_map le_trans)
  moreover have "finite (page_indices m ps)" using \<open>page_indices m ps \<subseteq> _\<close> finite_set finite_subset by blast
  ultimately have "card (cold_pages m \<inter> page_indices m ps) \<le> 2" by (meson Int_lower2 card_mono le_trans)
  then have c512: "c \<le> 512" using m'(5) by simp
  have "card (cold_pages m - page_indices m ps) + card (cold_pages m \<inter> page_indices m ps) = card (cold_pages m)"
    by (metis add.commute card_Int_Diff finite_cold)
  then have cc: "c + 256 * card (cold_pages m') = 256 * card (cold_pages m)" using m'(4,5) by auto
  have "touch_data m ps is_write gas = Returns (True, m', gas\<lparr>remaining := remaining gas - of_nat c\<rparr>)"
    if "c \<le> unat (remaining gas)" for gas
  proof -
    have "unat (of_nat c :: u64) = c" using c512 by (simp add: unsigned_of_nat take_bit_nat_eq_self)
    then have "charge gas (of_nat c) = (True, gas\<lparr>remaining := remaining gas - of_nat c\<rparr>)"
      using that by (intro charge_ok) (simp add: word_le_nat_alt)
    then show ?thesis using True m'(1) assms(1) by (simp add: touch_data_def pages_accessible_spec)
  qed
  then show ?thesis using m' c512 cc True by (intro exI [of _ True] exI [of _ m'] exI [of _ c]) auto
qed

lemma touch_cases:
  fixes a w :: u32
  assumes "wf_mem m"
  defines "ps \<equiv> as_slice (access_pages a w)"
  shows "(\<forall>gas. touch m a w is_write gas = touch_data m ps is_write gas) \<and> (\<exists>i. page_index m (ps ! 0) = Some i \<and> perms m ! i \<noteq> perm_NONE) \<or>
    (\<exists>ok. (\<forall>gas. touch m a w is_write gas = Returns (ok, m, gas))) \<and> \<not> (\<exists>i. page_index m (ps ! 0) = Some i \<and> perms m ! i \<noteq> perm_NONE)"
  unfolding touch_def ps_def [symmetric] Let_def using page_index_less [OF assms(1), of "ps ! 0"]
  by (cases "page_index m (ps ! 0)") auto

lemma touch_spec:
  assumes "wf_mem m"
  shows "\<exists>ok m' c. (\<forall>gas. c \<le> unat (remaining gas) \<longrightarrow>
       touch m a w is_write gas = Returns (ok, m', gas\<lparr>remaining := remaining gas - of_nat c\<rparr>)) \<and>
     wf_mem m' \<and> remat m m' \<and> c \<le> 512 \<and> c + 256 * card (cold_pages m') = 256 * card (cold_pages m) \<and>
     (\<not> is_write \<longrightarrow> c = 0)"
  using touch_cases [OF assms, of a w is_write]
proof (elim disjE conjE exE)
  assume t: "\<forall>gas. touch m a w is_write gas = touch_data m (as_slice (access_pages a w)) is_write gas"
  show ?thesis unfolding t [rule_format]
    using touch_data_spec [OF assms as_slice_access(2), of a w is_write]
    by (elim exE conjE, intro exI conjI) (assumption+, simp)
next
  fix ok assume "\<forall>gas. touch m a w is_write gas = Returns (ok, m, gas)"
  then show ?thesis using assms by (intro exI [of _ ok] exI [of _ m] exI [of _ 0]) auto
qed

section \<open>Reads and writes\<close>

definition store_bytes :: "copying_memory \<Rightarrow> nat \<Rightarrow> bytes \<Rightarrow> copying_memory" where
  "store_bytes m a bs = m\<lparr>flat_mem := write_slice (flat_mem m) a bs\<rparr>"

lemma write_slice_single: "a < length xs \<Longrightarrow> write_slice xs a [v] = xs[a := v]"
  by (rule nth_equalityI) (auto simp: nth_write_slice nth_list_update)

lemma to_le_bytes_1: "to_le_bytes 1 (v :: u8) = [v]"
  by (simp add: eval_nat_numeral)

lemma cm_write_eq:
  "cm_write_u8 m addr v1 = (if off m addr + 1 \<le> length (flat_mem m) then (True, store_bytes m (off m addr) (to_le_bytes 1 v1)) else (False, m))"
  "cm_write_u16_le m addr v2 = (if off m addr + 2 \<le> length (flat_mem m) then (True, store_bytes m (off m addr) (to_le_bytes 2 v2)) else (False, m))"
  "cm_write_u32_le m addr v4 = (if off m addr + 4 \<le> length (flat_mem m) then (True, store_bytes m (off m addr) (to_le_bytes 4 v4)) else (False, m))"
  "cm_write_u64_le m addr v8 = (if off m addr + 8 \<le> length (flat_mem m) then (True, store_bytes m (off m addr) (to_le_bytes 8 v8)) else (False, m))"
  by (simp_all add: cm_write_u8_def cm_write_u16_le_def cm_write_u32_le_def cm_write_u64_le_def Let_def store_bytes_def
      write_slice_single to_le_bytes_1 [simplified] Suc_le_eq)

lemma cm_read_eq:
  "cm_read_u8 m addr = (if off m addr + 1 \<le> length (flat_mem m) then Some (from_le_bytes (take 1 (drop (off m addr) (flat_mem m)))) else None)"
  by (simp add: cm_read_u8_def Let_def Suc_le_eq take_Suc_conv_app_nth from_le_bytes_def hd_drop_conv_nth take_Suc)

lemma read_stored:
  assumes "off m addr + k \<le> length (flat_mem m)"
  shows "take k (drop (off m addr) (flat_mem (store_bytes m (off m addr) (to_le_bytes k v)))) = to_le_bytes k v"
  using read_write_slice [of "off m addr" "to_le_bytes k v" "flat_mem m"] assms by (simp add: store_bytes_def)

lemma store_bytes_frame:
  assumes "off m addr + length bs \<le> length (flat_mem m)" "length bs \<le> unat (b - addr)"
  shows "cm_read_u8 (store_bytes m (off m addr) bs) b = cm_read_u8 m b"
proof -
  have "\<not> (off m addr \<le> off m b \<and> off m b < off m addr + length bs)"
  proof
    assume r: "off m addr \<le> off m b \<and> off m b < off m addr + length bs"
    have "unat ((b - m_base m) - (addr - m_base m)) = off m b - off m addr"
      unfolding off_def by (rule unat_sub) (use r in \<open>simp add: off_def word_le_nat_alt\<close>)
    then have "unat (b - addr) = off m b - off m addr" by simp
    then show False using r assms(2) by linarith
  qed
  then show ?thesis
    using assms(1) by (auto simp: cm_read_u8_def Let_def store_bytes_def off_def nth_write_slice)
qed

lemma wf_store_bytes [simp]: "off m addr + length bs \<le> length (flat_mem m) \<Longrightarrow> wf_mem m \<Longrightarrow> wf_mem (store_bytes m (off m addr) bs)"
  by (simp add: wf_mem_def store_bytes_def)

lemma store_bytes_same [simp]: "perms (store_bytes m a bs) = perms m" "mat_state (store_bytes m a bs) = mat_state m"
  "m_base (store_bytes m a bs) = m_base m" "cold_pages (store_bytes m a bs) = cold_pages m" "off (store_bytes m a bs) = off m"
  by (simp_all add: store_bytes_def cold_pages_def off_def fun_eq_iff)



lemma read_stored_le:
  "off m a + 1 \<le> length (flat_mem m) \<Longrightarrow> cm_read_u8 (store_bytes m (off m a) (to_le_bytes 1 v1)) a = Some v1"
  "off m a + 2 \<le> length (flat_mem m) \<Longrightarrow> cm_read_u16_le (store_bytes m (off m a) (to_le_bytes 2 v2)) a = Some v2"
  "off m a + 4 \<le> length (flat_mem m) \<Longrightarrow> cm_read_u32_le (store_bytes m (off m a) (to_le_bytes 4 v4)) a = Some v4"
  "off m a + 8 \<le> length (flat_mem m) \<Longrightarrow> cm_read_u64_le (store_bytes m (off m a) (to_le_bytes 8 v8)) a = Some v8"
  using read_stored [of m a 1 v1] read_stored [of m a 2 v2] read_stored [of m a 4 v4] read_stored [of m a 8 v8]
  by (simp_all add: cm_read_u8_def cm_read_u16_le_def cm_read_u32_le_def cm_read_u64_le_def Let_def from_to_le_bytes)
    (simp_all add: store_bytes_def nth_write_slice)

definition stores :: "nat \<Rightarrow> copying_memory \<Rightarrow> u32 \<Rightarrow> (copying_memory \<Rightarrow> bool) \<Rightarrow> bool \<times> copying_memory \<Rightarrow> bool" where
  "stores k m a reads r \<longleftrightarrow> (case r of (ok, m') \<Rightarrow>
     if ok then reads m' \<and> (\<forall>b. k \<le> unat (b - a) \<longrightarrow> cm_read_u8 m' b = cm_read_u8 m b) else m' = m)"

text \<open>Memory is a byte store. After a write of any width that succeeds, a read of the same width at
  the same address returns the written value and every byte outside the written range reads as before;
  a write that fails changes nothing. The addresses wrap around the 32-bit space.\<close>

theorem read_over_write:
  "stores 1 m a (\<lambda>m'. cm_read_u8 m' a = Some v1) (cm_write_u8 m a v1) \<and>
   stores 2 m a (\<lambda>m'. cm_read_u16_le m' a = Some v2) (cm_write_u16_le m a v2) \<and>
   stores 4 m a (\<lambda>m'. cm_read_u32_le m' a = Some v4) (cm_write_u32_le m a v4) \<and>
   stores 8 m a (\<lambda>m'. cm_read_u64_le m' a = Some v8) (cm_write_u64_le m a v8)"
  unfolding stores_def cm_write_eq by (simp add: read_stored_le store_bytes_frame del: One_nat_def)

section \<open>Construction and mapping\<close>

lemma wf_cm_new: "wf_mem cm_new" by (simp add: wf_mem_def cm_new_def)

lemma wf_with_pages: "wf_mem (with_pages n p)"
  by (simp add: wf_mem_def with_pages_def Let_def)

lemma wf_set_code_region: "wf_mem m \<Longrightarrow> wf_mem (set_code_region m b l)"
  by (simp add: wf_mem_def set_code_region_def Let_def)

lemma grow_spec:
  assumes "wf_mem m" "PAGE_SIZE dvd e"
  shows "wf_mem (grow m e)" "e \<le> length (flat_mem (grow m e))" "m_base (grow m e) = m_base m"
    "length (flat_mem (grow m e)) = max (length (flat_mem m)) e"
    "i < length (flat_mem (grow m e)) \<Longrightarrow> flat_mem (grow m e) ! i = (if i < length (flat_mem m) then flat_mem m ! i else 0)"
    "p < length (perms (grow m e)) \<Longrightarrow> perms (grow m e) ! p = (if p < length (perms m) then perms m ! p else perm_NONE)"
proof -
  obtain k where k: "e = k * PAGE_SIZE" using assms(2) by (metis dvd_def mult.commute)
  have dc: "div_ceil e PAGE_SIZE = k" unfolding k by (rule div_ceil_multiple) (simp add: PAGE_SIZE_def)
  have lt: "length (flat_mem m) < e \<longleftrightarrow> length (perms m) < k"
    using assms(1) by (simp add: wf_mem_def k PAGE_SIZE_def)
  have fg: "flat_mem (grow m e) = (if length (flat_mem m) < e then resize (flat_mem m) e 0 else flat_mem m)"
    by (simp add: grow_def Let_def)
  show "wf_mem (grow m e)" using assms(1) lt by (auto simp: grow_def dc Let_def wf_mem_def k [symmetric]) (simp add: k mult.commute)
  show "e \<le> length (flat_mem (grow m e))" by (simp add: grow_def Let_def)
  show "m_base (grow m e) = m_base m" by (simp add: grow_def Let_def)
  show "length (flat_mem (grow m e)) = max (length (flat_mem m)) e" by (simp add: grow_def Let_def)
  show "i < length (flat_mem (grow m e)) \<Longrightarrow> flat_mem (grow m e) ! i = (if i < length (flat_mem m) then flat_mem m ! i else 0)"
    by (auto simp: fg nth_resize split: if_splits)
  show "p < length (perms (grow m e)) \<Longrightarrow> perms (grow m e) ! p = (if p < length (perms m) then perms m ! p else perm_NONE)"
    using lt by (auto simp: grow_def Let_def dc nth_resize split: if_splits)
qed

definition access_perm :: "access \<Rightarrow> u8" where
  "access_perm acc = (case acc of ReadOnly \<Rightarrow> perm_RO | ReadWrite \<Rightarrow> perm_RW)"

lemma map_region_spec:
  assumes wf: "wf_mem m" and al: "unat start mod PAGE_SIZE = 0" "unat sz mod PAGE_SIZE = 0" "ucast (m_base m) \<le> start"
  defines "s \<equiv> unat start - unat (m_base m)"
  assumes ov: "s + unat sz < 2 ^ 64"
  shows "\<exists>m'. cm_map_region m start sz acc init = Returns (Inr m') \<and> wf_mem m' \<and> m_base m' = m_base m \<and>
    length (flat_mem m') = max (length (flat_mem m)) (s + unat sz) \<and>
    (\<forall>i < length (flat_mem m'). flat_mem m' ! i =
       (case init of
          Some bs \<Rightarrow> if s \<le> i \<and> i < s + min (length bs) (unat sz) then bs ! (i - s)
                     else if i < length (flat_mem m) then flat_mem m ! i else 0
        | None \<Rightarrow> if i < length (flat_mem m) then flat_mem m ! i else 0)) \<and>
    (\<forall>p < length (perms m'). perms m' ! p =
       (if s \<le> PAGE_SIZE * p \<and> PAGE_SIZE * p < s + unat sz then access_perm acc
        else if p < length (perms m) then perms m ! p else perm_NONE))"
proof -
  have ub: "unat (ucast (m_base m) :: u64) = unat (m_base m)"
    using unsigned_less [of "m_base m", where 'a = nat] by (simp add: unsigned_ucast_eq take_bit_nat_eq_self)
  have rs: "unat (start - ucast (m_base m)) = s"
    using al(3) by (simp add: unat_sub ub s_def)
  have ds: "PAGE_SIZE dvd s" using al(1) wf by (auto simp: s_def wf_mem_def mod_eq_0_iff_dvd intro!: dvd_diff_nat)
  have dz: "PAGE_SIZE dvd unat sz" using al(2) by (simp add: mod_eq_0_iff_dvd)
  have de: "PAGE_SIZE dvd s + unat sz" using ds dz by simp
  note g = grow_spec [OF wf de]
  let ?g = "grow m (s + unat sz)"
  have lp: "length (flat_mem ?g) = PAGE_SIZE * length (perms ?g)" using g(1) by (simp add: wf_mem_def)
  obtain a where a: "s = PAGE_SIZE * a" using ds by (auto simp: dvd_def)
  obtain b where b: "unat sz = PAGE_SIZE * b" using dz by (auto simp: dvd_def)
  have pos: "0 < PAGE_SIZE" by (simp add: PAGE_SIZE_def)
  have ab: "a + b \<le> length (perms ?g)"
  proof -
    have "PAGE_SIZE * (a + b) \<le> PAGE_SIZE * length (perms ?g)" using g(2) lp a b by (simp add: distrib_left)
    then show ?thesis using pos by simp
  qed
  define ps' where "ps' = map (\<lambda>i. if a \<le> i \<and> i < a + b then access_perm acc else perms ?g ! i) [0..<length (perms ?g)]"
  have fill: "(if sz > 0 then fill_perms (perms ?g) (s div PAGE_SIZE) ((s + unat sz) div PAGE_SIZE - 1) (access_perm acc) else Returns (perms ?g)) = Returns ps'"
  proof (cases "sz > 0")
    case True
    then have "b > 0" using b by (cases b) (auto simp: unat_eq_0 word_greater_zero_iff)
    moreover have "(s + unat sz) div PAGE_SIZE = a + b" "s div PAGE_SIZE = a"
      using pos by (simp_all add: a b flip: distrib_left)
    ultimately show ?thesis using True ab by (auto simp: fill_perms_def ps'_def)
  next
    case False
    then have "b = 0" using b pos by (simp add: word_greater_zero_iff)
    then show ?thesis using False by (auto simp: ps'_def intro!: nth_equalityI)
  qed
  have cond: "s \<le> PAGE_SIZE * p \<and> PAGE_SIZE * p < s + unat sz \<longleftrightarrow> a \<le> p \<and> p < a + b" for p
    using pos unfolding a b by (simp flip: distrib_left)
  have perm: "\<forall>p < length ps'. ps' ! p = (if s \<le> PAGE_SIZE * p \<and> PAGE_SIZE * p < s + unat sz then access_perm acc
        else if p < length (perms m) then perms m ! p else perm_NONE)"
    unfolding cond using g(6) by (simp add: ps'_def)
  have lps: "length ps' = length (perms ?g)" by (simp add: ps'_def)
  define fl where "fl = (case init of None \<Rightarrow> flat_mem ?g | Some bs \<Rightarrow> write_slice (flat_mem ?g) s (take (min (length bs) (unat sz)) bs))"
  have call: "cm_map_region m start sz acc init = Returns (Inr (?g\<lparr>perms := ps', flat_mem := fl\<rparr>))"
    using al ov fill g(2) unfolding cm_map_region_def Let_def rs access_perm_def [symmetric]
    by (auto simp: not_le not_less fl_def min_def split: option.split)
  have lfl: "length fl = length (flat_mem ?g)" using g(2) by (auto simp: fl_def split: option.split)
  have "wf_mem (?g\<lparr>perms := ps', flat_mem := fl\<rparr>)" using g(1) by (simp add: wf_mem_def lps lfl)
  moreover have "\<forall>i < length fl. fl ! i = (case init of
          Some bs \<Rightarrow> if s \<le> i \<and> i < s + min (length bs) (unat sz) then bs ! (i - s)
                     else if i < length (flat_mem m) then flat_mem m ! i else 0
        | None \<Rightarrow> if i < length (flat_mem m) then flat_mem m ! i else 0)"
    using g(2,5) lfl by (auto simp: fl_def nth_write_slice less_diff_conv2 simp del: min_less_iff_conj split: option.split)
  ultimately show ?thesis using call perm g(3,4) lfl by simp
qed

text \<open>What a successful \<open>map_region\<close> leaves behind: the buffer covers the region, the region holds the
  initial bytes (cut to the region) over whatever was there, its pages have the requested permission, and
  all else is as before, fresh bytes being zero and fresh pages inaccessible.\<close>

definition region_mapped ::
    "copying_memory \<Rightarrow> nat \<Rightarrow> nat \<Rightarrow> access \<Rightarrow> bytes option \<Rightarrow> copying_memory \<Rightarrow> bool"
where
  "region_mapped m s n acc init m' \<longleftrightarrow>
    m_base m' = m_base m \<and> length (flat_mem m') = max (length (flat_mem m)) (s + n) \<and>
    (\<forall>i < length (flat_mem m'). flat_mem m' ! i =
       (case init of
          Some bs \<Rightarrow> if s \<le> i \<and> i < s + min (length bs) n then bs ! (i - s)
                     else if i < length (flat_mem m) then flat_mem m ! i else 0
        | None \<Rightarrow> if i < length (flat_mem m) then flat_mem m ! i else 0)) \<and>
    (\<forall>p < length (perms m'). perms m' ! p =
       (if s \<le> PAGE_SIZE * p \<and> PAGE_SIZE * p < s + n then access_perm acc
        else if p < length (perms m) then perms m ! p else perm_NONE))"

definition mappable :: "copying_memory \<Rightarrow> u64 \<Rightarrow> u64 \<Rightarrow> bool" where
  "mappable m start sz \<longleftrightarrow>
     unat start mod PAGE_SIZE = 0 \<and> unat sz mod PAGE_SIZE = 0 \<and> unat (m_base m) \<le> unat start \<and>
     unat start - unat (m_base m) + unat sz < 2 ^ 64"

lemma ucast_u32_le: "ucast b \<le> x \<longleftrightarrow> unat b \<le> unat x" for b :: u32 and x :: u64
  using unsigned_less [of b, where 'a = nat] by (simp add: word_le_nat_alt unsigned_ucast_eq take_bit_nat_eq_self)

lemma map_region_rejects:
  assumes "\<not> mappable m start sz"
  shows "\<exists>e. cm_map_region m start sz acc init = Returns (Inl e)"
proof (cases "start < ucast (m_base m)")
  case True
  then show ?thesis by (simp add: cm_map_region_def)
next
  case False
  then have le: "unat (m_base m) \<le> unat start" by (simp add: not_less ucast_u32_le)
  have "unat (start - ucast (m_base m)) = unat start - unat (m_base m)"
    using False unsigned_less [of "m_base m", where 'a = nat]
    by (simp add: unat_sub not_less unsigned_ucast_eq take_bit_nat_eq_self)
  then show ?thesis using assms le False by (auto simp: cm_map_region_def mappable_def Let_def)
qed

text \<open>\<open>CopyingMemory::map_region\<close> never panics on a well-formed memory. It succeeds exactly when start
  and size are page aligned, the region is not below the memory's base and its end fits the address type,
  and then it installs exactly the requested bytes and permissions, extending the buffer when needed and
  keeping the memory well formed; in every other case it returns an error.\<close>

theorem map_region_correct:
  assumes "wf_mem m"
  shows "if mappable m start sz
    then \<exists>m'. cm_map_region m start sz acc init = Returns (Inr m') \<and> wf_mem m' \<and>
           region_mapped m (unat start - unat (m_base m)) (unat sz) acc init m'
    else \<exists>e. cm_map_region m start sz acc init = Returns (Inl e)"
  using map_region_spec [OF assms, of start sz acc init] map_region_rejects [of m start sz acc init]
  by (auto simp: mappable_def region_mapped_def ucast_u32_le)

theorem map_region_correct_witness:
  "\<exists>m'. cm_map_region cm_new 4096 8192 ReadWrite (Some [7, 8]) = Returns (Inr m') \<and> wf_mem m' \<and>
     region_mapped cm_new 4096 8192 ReadWrite (Some [7, 8]) m'"
  using map_region_correct [OF wf_cm_new, of 4096 8192 ReadWrite "Some [7, 8]"]
  by (simp add: mappable_def cm_new_def PAGE_SIZE_def)

lemma touch_write_eq:
  assumes "wf_mem m" "page_index m (a AND NOT 4095) = Some i" "perms m ! i \<noteq> perm_NONE"
  shows "touch m a w is_write gas = touch_data m (as_slice (access_pages a w)) is_write gas"
  using assms page_index_less [OF assms(1,2)] by (simp add: touch_def as_slice_access(3) Let_def)

text \<open>A guest store's first-touch accounting is exact. On a well-formed memory and an address in a declared
  data page, \<open>touch\<close> for a write succeeds exactly when every page of the access is writable. It then
  debits 256 for each of these pages that has not been written before and marks exactly those pages as
  private, so a page is charged at most once; when it fails nothing changes. Bytes and permissions are
  never changed by a touch.\<close>

theorem touch_write_exact:
  fixes a w :: u32
  assumes "wf_mem m" "page_index m (a AND NOT 4095) = Some i" "perms m ! i \<noteq> perm_NONE"
    "512 \<le> unat (remaining gas)"
  defines "ps \<equiv> as_slice (access_pages a w)"
  defines "ok \<equiv> \<forall>p \<in> set ps. accessible m True p"
  defines "fresh \<equiv> (if ok then cold_pages m \<inter> page_indices m ps else {})"
  shows "\<exists>m'. touch m a w True gas =
      Returns (ok, m', gas\<lparr>remaining := remaining gas - of_nat (256 * card fresh)\<rparr>) \<and>
    remat m m' \<and> wf_mem m' \<and> cold_pages m' = cold_pages m - fresh"
proof -
  obtain b m' c where t: "\<forall>gas. c \<le> unat (remaining gas) \<longrightarrow>
       touch_data m ps True gas = Returns (b, m', gas\<lparr>remaining := remaining gas - of_nat c\<rparr>)"
    "wf_mem m'" "remat m m'" "c \<le> 512" "b \<longleftrightarrow> ok" 
    "c = (if b then 256 * card (cold_pages m \<inter> page_indices m ps) else 0)"
    "cold_pages m' = cold_pages m - (if b then page_indices m ps else {})"
    using touch_data_spec [OF assms(1) as_slice_access(2), of a w True] unfolding ps_def ok_def by auto
  have c: "c = 256 * card fresh" "cold_pages m' = cold_pages m - fresh" using t(5-7) by (auto simp: fresh_def)
  have "touch m a w True gas = Returns (b, m', gas\<lparr>remaining := remaining gas - of_nat c\<rparr>)"
    unfolding touch_write_eq [OF assms(1-3)] ps_def [symmetric] using t(1,4) assms(4) by auto
  then show ?thesis using t c by auto
qed

lemma straddle_pages: "as_slice (access_pages 4092 8) = [0, 4096]"
  by (simp add: as_slice_def access_pages_def Let_def)

theorem touch_write_exact_witness:
  "\<exists>m'. touch (with_pages 2 perm_RW) 4092 8 True \<lparr>remaining = 1000\<rparr> = Returns (True, m', \<lparr>remaining = 488\<rparr>) \<and>
     remat (with_pages 2 perm_RW) m' \<and> wf_mem m' \<and> cold_pages m' = {}"
proof -
  define m where "m = with_pages 2 perm_RW"
  have pi: "page_index m 0 = Some 0" "page_index m 4096 = Some 1"
    by (simp_all add: m_def page_index_def with_pages_def off_def PAGE_SIZE_def Let_def)
  have two: "unat (2 :: u32) = Suc (Suc 0)" by simp
  have pm: "perms m = [perm_RW, perm_RW]" "mat_state m = [0, 0]"
    unfolding m_def with_pages_def Let_def two by simp_all
  have acc: "\<forall>p \<in> set [0, 4096]. accessible m True p"
    by (simp add: accessible_def pi pm perm_RW_def perm_NONE_def)
  have cold: "cold_pages m = {0, 1}"
    by (auto simp: cold_pages_def pm perm_RW_def perm_RO_def less_Suc_eq page_state_codes)
  have idx: "page_indices m [0, 4096] = {0, 1}" by (simp add: pi)
  have p0: "page_index m (4092 AND NOT 4095) = Some 0" "perms m ! 0 \<noteq> perm_NONE"
    using pi(1) by (simp_all add: pm perm_RW_def perm_NONE_def)
  have wf: "wf_mem m" by (simp add: m_def wf_with_pages)
  show ?thesis
    unfolding m_def [symmetric]
    using touch_write_exact [OF wf p0, of "\<lparr>remaining = 1000\<rparr>" 8]
    unfolding straddle_pages if_P [OF acc] idx cold using acc by simp
qed

section \<open>Corner cases\<close>

text \<open>A page declared inaccessible but inside the buffer can be loaded from: neither the touch nor the read
  looks at \<open>perm::NONE\<close> there.\<close>

lemma none_page_readable:
  "cm_perm_of (with_pages 1 perm_NONE) 0 = perm_NONE \<and>
   cm_touch_read (with_pages 1 perm_NONE) 0 1 gas = Returns (True, with_pages 1 perm_NONE, gas) \<and>
   cm_read_u8 (with_pages 1 perm_NONE) 0 = Some 0"
  by (simp add: cm_perm_of_def with_pages_def off_def PAGE_SIZE_def Let_def cm_touch_read_def touch_def
      as_slice_def access_pages_def page_index_def is_code_page_def cm_read_u8_def)

text \<open>An empty write at the start of a writable memory is refused: the index of the last byte wraps.\<close>

lemma empty_write_refused: "cm_write (with_pages 1 perm_RW) 0 [] = Inl (WriteProtected 4096)"
  by (simp add: cm_write_def with_pages_def off_def PAGE_SIZE_def Let_def write_perms.simps [of _ 0]
      write_perms.simps [of _ "Suc 0"] perm_RW_def perm_NONE_def)

section \<open>Pages of an access\<close>

lemma page_mask_unat: "unat (x AND NOT 4095 :: u32) = 4096 * (unat x div 4096)"
proof -
  have "x AND NOT 4095 = x AND NOT (mask 12)" by (simp add: mask_eq_exp_minus_1)
  also have "\<dots> = push_bit 12 (drop_bit 12 x)"
    by (rule bit_word_eqI) (auto simp: bit_push_bit_iff bit_drop_bit_eq bit_and_iff bit_not_iff bit_mask_iff)
  finally have "x AND NOT 4095 = push_bit 12 (drop_bit 12 x)" .
  moreover have "unat (drop_bit 12 x) = unat x div 4096" by (simp add: unat_drop_bit_eq drop_bit_nat_def del: drop_bit_eq_div)
  moreover have "4096 * (unat x div 4096) < 2 ^ 32" using unsigned_less [of x, where 'a = nat]
    by (intro le_less_trans [OF times_div_less_eq_dividend]) simp
  ultimately show ?thesis 
    by (simp add: push_bit_eq_mult unat_word_ariths mult.commute)
qed

lemma page_of_offset:
  fixes addr :: u32
  assumes "i \<le> 8"
  defines "q \<equiv> unat addr div 4096"
  shows "unat ((addr + of_nat i) AND NOT 4095 :: u32) =
    (if unat addr mod 4096 + i < 4096 then 4096 * q else (4096 * q + 4096) mod 2 ^ 32)"
proof -
  define r where "r = unat addr mod 4096"
  have a: "unat addr = 4096 * q + r" "r < 4096" by (simp_all add: q_def r_def)
  have q: "q < 2 ^ 20" using unsigned_less [of addr, where 'a = nat] by (simp add: q_def less_mult_imp_div_less)
  have u: "unat (addr + of_nat i) = (4096 * q + (r + i)) mod 2 ^ 32"
    using assms(1) by (simp add: unat_word_ariths unsigned_of_nat take_bit_nat_eq_self a add.assoc)
  show ?thesis
  proof (cases "r + i < 4096")
    case True
    then have "(4096 * q + (r + i)) mod 2 ^ 32 = 4096 * q + (r + i)" using q by simp
    moreover have "(4096 * q + (r + i)) div 4096 = q" using True by simp
    ultimately show ?thesis unfolding page_mask_unat u using True by (simp add: r_def [symmetric])
  next
    case False
    then obtain j where j: "r + i = 4096 + j" using le_Suc_ex not_less by metis
    have jl: "j < 4096" using j a(2) assms(1) by simp
    have "(4096 * q + (r + i)) mod 2 ^ 32 = 4096 * ((q + 1) mod 2 ^ 20) + j"
    proof -
      have "4096 * q + (r + i) = 4096 * (q + 1) + j" using j by simp
      moreover have "q + 1 < 2 ^ 20 \<or> q + 1 = 2 ^ 20" using q by auto
      ultimately show ?thesis using jl by (auto simp: mod_less)
    qed
    then have "unat ((addr + of_nat i) AND NOT 4095) = 4096 * ((q + 1) mod 2 ^ 20)"
      unfolding page_mask_unat u using jl by simp
    moreover have "4096 * ((q + 1) mod 2 ^ 20) = (4096 * q + 4096) mod 2 ^ 32"
      by (simp only: mult_mod_right distrib_left) simp
    ultimately show ?thesis using False by (simp add: r_def [symmetric])
  qed
qed

text \<open>\<open>access_pages\<close> lists exactly the pages an access of one to eight bytes touches: the page bases of
  the accessed bytes, an access that crosses a page boundary or wraps around the 32-bit address space
  included.\<close>

theorem access_pages_exact:
  assumes "1 \<le> width" "width \<le> 8"
  shows "set (as_slice (access_pages addr width)) =
    (\<lambda>i. (addr + of_nat i) AND NOT 4095) ` {..<unat width}"
proof -
  have w: "1 \<le> unat width" "unat width \<le> 8" using assms by (simp_all add: word_le_nat_alt)
  have off: "unat (addr AND 4095) = unat addr mod 4096"
  proof -
    have "addr AND 4095 = take_bit 12 addr" by (simp add: take_bit_eq_mask mask_eq_exp_minus_1)
    then show ?thesis by (simp only: unsigned_take_bit_eq) (simp add: take_bit_eq_mod)
  qed
  define base where "base = addr AND NOT 4095"
  have b: "unat base = 4096 * (unat addr div 4096)" unfolding base_def by (rule page_mask_unat)
  have strad: "(addr AND 4095) + width > 4096 \<longleftrightarrow> 4096 < unat addr mod 4096 + unat width"
  proof -
    have "unat ((addr AND 4095) + width) = unat addr mod 4096 + unat width"
    proof -
      have "unat addr mod 4096 + unat width < 2 ^ 32"
        using w mod_less_divisor [of 4096 "unat addr"] by (simp del: mod_less_divisor)
      then show ?thesis by (simp only: unat_word_ariths off) simp
    qed
    then show ?thesis by (simp add: word_less_nat_alt)
  qed
  have pg: "(addr + of_nat i) AND NOT 4095 = (if unat addr mod 4096 + i < 4096 then base else base + 4096)" if "i < unat width" for i
    using page_of_offset [of i addr] that w b by (simp add: word_unat_eq_iff unat_word_ariths)
  have sl: "as_slice (access_pages addr width) = (if 4096 < unat addr mod 4096 + unat width then [base, base + 4096] else [base])"
    using strad by (simp add: as_slice_def access_pages_def Let_def base_def)
  have lt: "unat addr mod 4096 < 4096" by simp
  define r n where "r = unat addr mod 4096" and "n = unat width"
  have "(\<lambda>i. (addr + of_nat i) AND NOT 4095) ` {..<n} = (\<lambda>i. if r + i < 4096 then base else base + 4096) ` {..<n}"
    using pg by (intro image_cong) (auto simp: r_def n_def)
  also have "\<dots> = (if 4096 < r + n then {base, base + 4096} else {base})"
  proof (cases "4096 < r + n")
    case True
    then have "4096 - r < n" "r + 0 < 4096" "0 < n" using lt by (auto simp: r_def)
    then have "base \<in> (\<lambda>i. if r + i < 4096 then base else base + 4096) ` {..<n}"
      "base + 4096 \<in> (\<lambda>i. if r + i < 4096 then base else base + 4096) ` {..<n}"
      by (force intro: rev_image_eqI [of 0], force intro: rev_image_eqI [of "4096 - r"])
    then show ?thesis using True by auto
  next
    case False
    then have "(if r + i < 4096 then base else base + 4096) = base" if "i < n" for i using that by simp
    moreover have "{..<n} \<noteq> {}" using w by (auto simp: n_def lessThan_empty_iff)
    ultimately show ?thesis using False by (simp add: image_constant_conv cong: image_cong_simp)
  qed
  finally show ?thesis by (simp only: sl r_def n_def) simp
qed

theorem access_pages_exact_witness:
  "set (as_slice (access_pages 4093 8)) = (\<lambda>i. (4093 + of_nat i) AND NOT 4095) ` {..<unat (8 :: u32)}"
  by (rule access_pages_exact) simp_all

section \<open>The contract of a memory backend\<close>

text \<open>\<open>m'\<close> has the permissions of \<open>m\<close> and its bytes outside the \<open>k\<close> bytes from \<open>a\<close>.\<close>

definition store_frame :: "'m memory_ops \<Rightarrow> nat \<Rightarrow> u32 \<Rightarrow> 'm \<Rightarrow> 'm \<Rightarrow> bool" where
  "store_frame ops k a m m' \<longleftrightarrow> perm_of ops m' = perm_of ops m \<and>
     (\<forall>b. k \<le> unat (b - a) \<longrightarrow> read_u8 ops m' b = read_u8 ops m b)"

text \<open>The contract of \<open>trait Memory\<close> the interpreter relies on: an invariant, and a potential bounding what
  first-touch charges are still to come. A read touch is free; a write touch charges at most 512, out of
  the potential; no operation changes bytes it was not asked to change; permissions are per page.\<close>

locale memory_backend =
  fixes ops :: "'m memory_ops" and inv :: "'m \<Rightarrow> bool" and pot :: "'m \<Rightarrow> nat"
  assumes pot_bound: "inv m \<Longrightarrow> pot m < 2 ^ 32"
    and touch_read_law: "inv m \<Longrightarrow> \<exists>ok m'. (\<forall>gas. touch_read ops m a w gas = Returns (ok, m', gas)) \<and>
      inv m' \<and> pot m' = pot m \<and> store_frame ops 0 a m m'"
    and touch_write_law: "inv m \<Longrightarrow> \<exists>ok m' c. (\<forall>gas. c \<le> unat (remaining gas) \<longrightarrow>
        touch_write ops m a w gas = Returns (ok, m', gas\<lparr>remaining := remaining gas - of_nat c\<rparr>)) \<and>
      c \<le> 512 \<and> c + pot m' = pot m \<and> inv m' \<and> store_frame ops 0 a m m'"
    and write_u8_law: "inv m \<Longrightarrow> write_u8 ops m a v1 = (ok, m') \<Longrightarrow> inv m' \<and> pot m' = pot m \<and> store_frame ops 1 a m m'"
    and write_u16_law: "inv m \<Longrightarrow> write_u16_le ops m a v2 = (ok, m') \<Longrightarrow> inv m' \<and> pot m' = pot m \<and> store_frame ops 2 a m m'"
    and write_u32_law: "inv m \<Longrightarrow> write_u32_le ops m a v4 = (ok, m') \<Longrightarrow> inv m' \<and> pot m' = pot m \<and> store_frame ops 4 a m m'"
    and write_u64_law: "inv m \<Longrightarrow> write_u64_le ops m a v8 = (ok, m') \<Longrightarrow> inv m' \<and> pot m' = pot m \<and> store_frame ops 8 a m m'"
    and perm_page: "inv m \<Longrightarrow> a AND NOT 4095 = b AND NOT 4095 \<Longrightarrow> perm_of ops m a = perm_of ops m b"
begin

text \<open>A store of at most eight bytes whose first and last byte are writable writes writable pages only.\<close>

lemma writable_span:
  assumes "inv m" "1 \<le> k" "k \<le> 8" "perm_of ops m a = p" "perm_of ops m (a + of_nat (k - 1)) = p" "unat (b - a) < k"
  shows "perm_of ops m b = p"
proof -
  have b: "b = a + of_nat (unat (b - a))" by simp
  have "(a + of_nat (unat (b - a))) AND NOT 4095 \<in> {a AND NOT 4095, (a + of_nat (k - 1)) AND NOT 4095}"
    using page_of_offset [of "unat (b - a)" a] page_of_offset [of 0 a] page_of_offset [of "k - 1" a] assms(2,3,6)
    by (auto simp: word_unat_eq_iff split: if_splits)
  then show ?thesis using assms(4,5) perm_page [OF assms(1)] b by (metis insertE singletonD)
qed

end

lemma off_div:
  fixes b :: u32
  assumes "wf_mem m"
  defines "q \<equiv> unat b div 4096" and "k \<equiv> unat (m_base m) div 4096"
  shows "off m b div 4096 = (if k \<le> q then q - k else 2 ^ 20 + q - k)"
proof -
  define r where "r = unat b mod 4096"
  have b: "unat b = 4096 * q + r" "r < 4096" by (simp_all add: q_def r_def)
  have k: "unat (m_base m) = 4096 * k" using assms(1) by (simp add: wf_mem_def k_def PAGE_SIZE_def)
  have kl: "k < 2 ^ 20" using unsigned_less [of "m_base m", where 'a = nat] k by simp
  show ?thesis
  proof (cases "k \<le> q")
    case True
    then have "off m b = 4096 * (q - k) + r" by (simp add: off_def unat_sub_if' b k)
    then show ?thesis using True b(2) by simp
  next
    case False
    then have "4096 * q + r < 4096 * k" using b(2) by linarith
    then have "off m b = 4096 * (2 ^ 20 + q - k) + r" using kl
      by (simp add: off_def unat_sub_if' b k)
    then show ?thesis using False b(2) by simp
  qed
qed

lemma cm_perm_page:
  assumes "wf_mem m" "a AND NOT 4095 = b AND NOT 4095"
  shows "cm_perm_of m a = cm_perm_of m b"
proof -
  have "4096 * (unat a div 4096) = 4096 * (unat b div 4096)" using assms(2) by (metis page_mask_unat)
  then have "unat a div 4096 = unat b div 4096" by simp
  then show ?thesis using off_div [OF assms(1), of a] off_div [OF assms(1), of b] by (simp add: cm_perm_of_def PAGE_SIZE_def)
qed

lemma cm_perm_of_same:
  "cm_perm_of (store_bytes m i bs) = cm_perm_of m" "remat m m' \<Longrightarrow> cm_perm_of m' = cm_perm_of m"
  using remat_same [of m m'] by (simp_all add: cm_perm_of_def fun_eq_iff off_def Let_def)

lemma remat_read: "remat m m' \<Longrightarrow> cm_read_u8 m' = cm_read_u8 m"
  using remat_same [of m m'] by (simp add: cm_read_u8_def fun_eq_iff off_def Let_def)

lemma store_frame_write:
  assumes "wf_mem m" "(if off m a + length bs \<le> length (flat_mem m) then (True, store_bytes m (off m a) bs) else (False, m)) = (ok, m')"
  shows "wf_mem m' \<and> card (cold_pages m') = card (cold_pages m) \<and> store_frame copying_ops (length bs) a m m'"
  using assms by (auto simp: store_frame_def copying_ops_def cm_perm_of_same store_bytes_frame split: if_splits)

lemma card_cold: "card (cold_pages m) \<le> 2 ^ 20"
  using card_mono [of "{..< 2 ^ 20}" "cold_pages m"] by (auto simp: cold_pages_def)

lemma store_frame_remat: "remat m m' \<Longrightarrow> store_frame copying_ops k a m m'"
  by (simp add: store_frame_def copying_ops_def cm_perm_of_same remat_read)

lemma cm_touch_ops: "touch_read copying_ops m a w gas = touch m a w False gas" "touch_write copying_ops m a w gas = touch m a w True gas"
  by (simp_all add: copying_ops_def cm_touch_read_def cm_touch_write_def)

interpretation cm: memory_backend copying_ops wf_mem "\<lambda>m. 256 * card (cold_pages m)"
proof
  fix a b w :: u32 and v1 :: u8 and v2 :: u16 and v4 :: u32 and v8 :: u64 and ok and m m' :: copying_memory
  assume wf: "wf_mem m"
  show "256 * card (cold_pages m) < 2 ^ 32" using card_cold [of m] by simp
  show "\<exists>ok m'. (\<forall>gas. touch_read copying_ops m a w gas = Returns (ok, m', gas)) \<and> wf_mem m' \<and>
      256 * card (cold_pages m') = 256 * card (cold_pages m) \<and> store_frame copying_ops 0 a m m'"
  proof -
    obtain ok m' c where t: "\<forall>gas. c \<le> unat (remaining gas) \<longrightarrow>
        touch m a w False gas = Returns (ok, m', gas\<lparr>remaining := remaining gas - of_nat c\<rparr>)"
      "wf_mem m'" "remat m m'" "c + 256 * card (cold_pages m') = 256 * card (cold_pages m)" "c = 0"
      using touch_spec [OF wf, of a w False] by auto
    then show ?thesis unfolding cm_touch_ops by (intro exI [of _ ok] exI [of _ m']) (simp add: store_frame_remat)
  qed
  show "\<exists>ok m' c. (\<forall>gas. c \<le> unat (remaining gas) \<longrightarrow>
        touch_write copying_ops m a w gas = Returns (ok, m', gas\<lparr>remaining := remaining gas - of_nat c\<rparr>)) \<and>
      c \<le> 512 \<and> c + 256 * card (cold_pages m') = 256 * card (cold_pages m) \<and> wf_mem m' \<and> store_frame copying_ops 0 a m m'"
    unfolding cm_touch_ops using touch_spec [OF wf, of a w True]
    by (elim exE conjE, intro exI conjI) (assumption | erule store_frame_remat)+
  show "write_u8 copying_ops m a v1 = (ok, m') \<Longrightarrow> wf_mem m' \<and> 256 * card (cold_pages m') = 256 * card (cold_pages m) \<and> store_frame copying_ops 1 a m m'"
    using store_frame_write [OF wf, of a "to_le_bytes 1 v1" ok m'] cm_write_eq(1) [of m a v1] by (simp add: copying_ops_def)
  show "write_u16_le copying_ops m a v2 = (ok, m') \<Longrightarrow> wf_mem m' \<and> 256 * card (cold_pages m') = 256 * card (cold_pages m) \<and> store_frame copying_ops 2 a m m'"
    using store_frame_write [OF wf, of a "to_le_bytes 2 v2" ok m'] cm_write_eq(2) [of m a v2] by (simp add: copying_ops_def)
  show "write_u32_le copying_ops m a v4 = (ok, m') \<Longrightarrow> wf_mem m' \<and> 256 * card (cold_pages m') = 256 * card (cold_pages m) \<and> store_frame copying_ops 4 a m m'"
    using store_frame_write [OF wf, of a "to_le_bytes 4 v4" ok m'] cm_write_eq(3) [of m a v4] by (simp add: copying_ops_def)
  show "write_u64_le copying_ops m a v8 = (ok, m') \<Longrightarrow> wf_mem m' \<and> 256 * card (cold_pages m') = 256 * card (cold_pages m) \<and> store_frame copying_ops 8 a m m'"
    using store_frame_write [OF wf, of a "to_le_bytes 8 v8" ok m'] cm_write_eq(4) [of m a v8] by (simp add: copying_ops_def)
  show "a AND NOT 4095 = b AND NOT 4095 \<Longrightarrow> perm_of copying_ops m a = perm_of copying_ops m b"
    using cm_perm_page [OF wf, of a b] by (simp only: copying_ops_def memory_ops.select_convs)
qed

end
