(* ===== verification/Interp.thy ===== *)
theory Interp
  imports Alu Memory_Laws
begin

text \<open>
  The interpreter of \<open>nub/nub-exec/src/interp.rs\<close>, with the exit reasons of \<open>exit.rs\<close> and
  the ecall interface of \<open>ecall.rs\<close>. The state \<open>Interpreter::run\<close> mutates (registers, memory, gas,
  handler) is the record \<open>machine\<close>. \<open>M: Memory\<close> is the parameter \<open>ops\<close> and the ecall
  handler the parameter \<open>handle\<close>, a function on the handler's own state. One iteration of the loop is
  \<open>step\<close>: the block gate, the instruction, the advance; the loop is \<open>run_loop\<close>, where not
  returning is \<open>None\<close>. An index out of range (undefined behaviour for \<open>get_unchecked\<close>) and a failed
  \<open>expect\<close> are \<open>Panics\<close>.
\<close>

section \<open>Exits and ecalls\<close>

datatype exit_reason =
    Exit_Halt
  | Exit_Trap
  | Exit_Panic
  | Exit_OutOfGas
  | Exit_PageFault u32
  | Exit_HostCall u32
  | Exit_Ecall

datatype ecall_kind = Kind_Ecall | Kind_Ecalli u32

datatype ecall_result = Continue | Exit exit_reason

type_synonym ('m, 'h) handler = "ecall_kind \<Rightarrow> 'h \<Rightarrow> regs \<Rightarrow> 'm \<Rightarrow> ecall_result \<times> 'h \<times> regs \<times> 'm"

definition panicking_handler :: "('m, unit) handler" where
  "panicking_handler k h r m = (Exit Exit_Panic, h, r, m)"

section \<open>State\<close>

record ('m, 'h) machine =
  m_regs :: regs
  m_mem :: 'm
  m_gas :: gas_counter
  m_handler :: 'h

definition set_pc :: "u32 \<Rightarrow> ('m, 'h) machine \<Rightarrow> ('m, 'h) machine" where
  "set_pc pos s = s\<lparr>m_regs := (m_regs s)\<lparr>pc := ucast pos\<rparr>\<rparr>"

definition put_reg :: "u8 \<Rightarrow> u64 \<Rightarrow> ('m, 'h) machine \<Rightarrow> ('m, 'h) machine" where
  "put_reg x v s = s\<lparr>m_regs := reg_write (m_regs s) x v\<rparr>"

text \<open>What an arm of the \<open>match\<close> does with control: fall to the next instruction, continue at an
  instruction index, or return from \<open>run\<close>.\<close>

datatype flow = Next | Goto nat | Return exit_reason

section \<open>Helpers\<close>

definition compute_addr :: "regs \<Rightarrow> u8 \<Rightarrow> i32 \<Rightarrow> u32" where
  "compute_addr r rs1 imm = ucast (reg_read r rs1) + imm"

text \<open>\<open>u32::next_multiple_of\<close> wraps in a release build.\<close>

definition read_code :: "bytes \<Rightarrow> u32 \<Rightarrow> u32 \<Rightarrow> nat \<Rightarrow> u64 option" where
  "read_code code code_base addr width =
     (case checked_sub addr code_base of
        None \<Rightarrow> None
      | Some d \<Rightarrow>
          let off = unat d;
              rounded = unat (of_nat (next_multiple_of (unat (of_nat (length code) :: u32)) PAGE_SIZE) :: u32) in
          if off + width > rounded then None
          else Some (from_le_bytes
                 (map (\<lambda>k. if k < width \<and> off + k < length code then code ! (off + k) else 0) [0..<8])))"

definition load_u8 :: "'m memory_ops \<Rightarrow> 'm \<Rightarrow> bytes \<Rightarrow> u32 \<Rightarrow> u32 \<Rightarrow> u8 option" where
  "load_u8 ops m code code_base addr =
     (case read_u8 ops m addr of
        Some v \<Rightarrow> Some v
      | None \<Rightarrow> map_option ucast (read_code code code_base addr 1))"

definition load_u16 :: "'m memory_ops \<Rightarrow> 'm \<Rightarrow> bytes \<Rightarrow> u32 \<Rightarrow> u32 \<Rightarrow> u16 option" where
  "load_u16 ops m code code_base addr =
     (case read_u16_le ops m addr of
        Some v \<Rightarrow> Some v
      | None \<Rightarrow> map_option ucast (read_code code code_base addr 2))"

definition load_u32 :: "'m memory_ops \<Rightarrow> 'm \<Rightarrow> bytes \<Rightarrow> u32 \<Rightarrow> u32 \<Rightarrow> u32 option" where
  "load_u32 ops m code code_base addr =
     (case read_u32_le ops m addr of
        Some v \<Rightarrow> Some v
      | None \<Rightarrow> map_option ucast (read_code code code_base addr 4))"

definition load_u64 :: "'m memory_ops \<Rightarrow> 'm \<Rightarrow> bytes \<Rightarrow> u32 \<Rightarrow> u32 \<Rightarrow> u64 option" where
  "load_u64 ops m code code_base addr =
     (case read_u64_le ops m addr of
        Some v \<Rightarrow> Some v
      | None \<Rightarrow> read_code code code_base addr 8)"

definition store_writable :: "'m memory_ops \<Rightarrow> 'm \<Rightarrow> u32 \<Rightarrow> u32 \<Rightarrow> bool" where
  "store_writable ops m addr width \<longleftrightarrow>
     perm_of ops m addr = perm_RW \<and> perm_of ops m (addr + (width - 1)) = perm_RW"

definition page_fault :: "u32 \<Rightarrow> u32 \<Rightarrow> ('m, 'h) machine \<Rightarrow> flow \<times> ('m, 'h) machine" where
  "page_fault pos addr s = (Return (Exit_PageFault (addr AND NOT 0xFFF)), set_pc pos s)"

text \<open>\<open>slice::binary_search_by_key\<close>: halve \<open>size\<close> until one candidate is left.\<close>

function bsearch_loop :: "u32 list \<Rightarrow> u32 \<Rightarrow> nat \<Rightarrow> nat \<Rightarrow> nat" where
  "bsearch_loop ks key base n =
     (if n > 1 then
        let half = n div 2;
            mid = base + half in
        bsearch_loop ks key (if ks ! mid > key then base else mid) (n - half)
      else base)"
  by pat_completeness auto
termination
  by (relation "measure (\<lambda>(ks, key, base, n). n)") auto

declare bsearch_loop.simps [simp del]

definition binary_search :: "u32 list \<Rightarrow> u32 \<Rightarrow> nat option" where
  "binary_search ks key =
     (if ks = [] then None
      else let base = bsearch_loop ks key 0 (length ks) in
           if ks ! base = key then Some base else None)"

definition find_idx_for_pc :: "pre_inst list \<Rightarrow> u32 \<Rightarrow> nat option" where
  "find_idx_for_pc insts target = binary_search (map pi_pc insts) target"

text \<open>\<open>Some(i) if insts[i].is_gas_block_start => i\<close>.\<close>

definition find_block_start :: "pre_inst list \<Rightarrow> u32 \<Rightarrow> nat option" where
  "find_block_start insts target =
     (case find_idx_for_pc insts target of
        Some i \<Rightarrow> if is_gas_block_start (insts ! i) then Some i else None
      | None \<Rightarrow> None)"

section \<open>Memory instructions\<close>

fun load_width :: "load_op \<Rightarrow> u32" where
  "load_width Lb = 1" | "load_width Lh = 2" | "load_width Lw = 4" | "load_width Ld = 8"
| "load_width Lbu = 1" | "load_width Lhu = 2" | "load_width Lwu = 4"

fun load_val :: "load_op \<Rightarrow> 'm memory_ops \<Rightarrow> 'm \<Rightarrow> bytes \<Rightarrow> u32 \<Rightarrow> u32 \<Rightarrow> u64 option" where
  "load_val Lb ops m code code_base addr = map_option scast (load_u8 ops m code code_base addr)"
| "load_val Lh ops m code code_base addr = map_option scast (load_u16 ops m code code_base addr)"
| "load_val Lw ops m code code_base addr = map_option scast (load_u32 ops m code code_base addr)"
| "load_val Ld ops m code code_base addr = load_u64 ops m code code_base addr"
| "load_val Lbu ops m code code_base addr = map_option ucast (load_u8 ops m code code_base addr)"
| "load_val Lhu ops m code code_base addr = map_option ucast (load_u16 ops m code code_base addr)"
| "load_val Lwu ops m code code_base addr = map_option ucast (load_u32 ops m code code_base addr)"

definition exec_load ::
    "'m memory_ops \<Rightarrow> bytes \<Rightarrow> u32 \<Rightarrow> u32 \<Rightarrow> load_op \<Rightarrow> u8 \<Rightarrow> u8 \<Rightarrow> i32 \<Rightarrow> ('m, 'h) machine \<Rightarrow>
     (flow \<times> ('m, 'h) machine) may_panic"
where
  "exec_load ops code code_base pos lop rd rs1 imm s =
     (let addr = compute_addr (m_regs s) rs1 imm in
      bind_panic (touch_read ops (m_mem s) addr (load_width lop) (m_gas s)) (\<lambda>(ok, m, g).
        let s = s\<lparr>m_mem := m, m_gas := g\<rparr> in
        if \<not> ok then Returns (page_fault pos addr s)
        else case load_val lop ops m code code_base addr of
               Some v \<Rightarrow> Returns (Next, put_reg rd v s)
             | None \<Rightarrow> Returns (page_fault pos addr s)))"

fun store_width :: "store_op \<Rightarrow> u32" where
  "store_width Sb = 1" | "store_width Sh = 2" | "store_width Sw = 4" | "store_width Sd = 8"

fun store_val :: "store_op \<Rightarrow> 'm memory_ops \<Rightarrow> 'm \<Rightarrow> u32 \<Rightarrow> u64 \<Rightarrow> bool \<times> 'm" where
  "store_val Sb ops m addr v = write_u8 ops m addr (ucast v)"
| "store_val Sh ops m addr v = write_u16_le ops m addr (ucast v)"
| "store_val Sw ops m addr v = write_u32_le ops m addr (ucast v)"
| "store_val Sd ops m addr v = write_u64_le ops m addr v"

definition exec_store ::
    "'m memory_ops \<Rightarrow> u32 \<Rightarrow> store_op \<Rightarrow> u8 \<Rightarrow> u8 \<Rightarrow> i32 \<Rightarrow> ('m, 'h) machine \<Rightarrow>
     (flow \<times> ('m, 'h) machine) may_panic"
where
  "exec_store ops pos sop rs1 rs2 imm s =
     (let addr = compute_addr (m_regs s) rs1 imm in
      bind_panic (touch_write ops (m_mem s) addr (store_width sop) (m_gas s)) (\<lambda>(ok, m, g).
        let s = s\<lparr>m_mem := m, m_gas := g\<rparr> in
        if \<not> ok \<or> \<not> store_writable ops m addr (store_width sop) then Returns (page_fault pos addr s)
        else case store_val sop ops m addr (reg_read (m_regs s) rs2) of
               (True, m) \<Rightarrow> Returns (Next, s\<lparr>m_mem := m\<rparr>)
             | (False, m) \<Rightarrow> Returns (page_fault pos addr (s\<lparr>m_mem := m\<rparr>))))"

section \<open>Control flow\<close>

text \<open>\<open>(pc as i64).wrapping_add(imm as i64) as u32\<close>.\<close>

definition branch_target :: "u32 \<Rightarrow> i32 \<Rightarrow> u32" where
  "branch_target pos imm = ucast ((ucast pos :: u64) + scast imm)"

definition jump_to :: "pre_inst list \<Rightarrow> u32 \<Rightarrow> u32 \<Rightarrow> ('m, 'h) machine \<Rightarrow> flow \<times> ('m, 'h) machine" where
  "jump_to insts pos target s =
     (case find_block_start insts target of
        Some i \<Rightarrow> (Goto i, s)
      | None \<Rightarrow> (Return Exit_Panic, set_pc pos s))"

definition link :: "u32 \<Rightarrow> u8 \<Rightarrow> u32 \<Rightarrow> ('m, 'h) machine \<Rightarrow> ('m, 'h) machine" where
  "link code_base rd next_pos s =
     (if rd \<noteq> 0 then put_reg rd (ucast (code_base + next_pos)) s else s)"

definition exec_jal ::
    "pre_inst list \<Rightarrow> u32 \<Rightarrow> u32 \<Rightarrow> u32 \<Rightarrow> u8 \<Rightarrow> i32 \<Rightarrow> ('m, 'h) machine \<Rightarrow> flow \<times> ('m, 'h) machine"
where
  "exec_jal insts code_base pos next_pos rd imm s =
     jump_to insts pos (branch_target pos imm) (link code_base rd next_pos s)"

definition exec_jalr ::
    "pre_inst list \<Rightarrow> u32 \<Rightarrow> u32 \<Rightarrow> u32 \<Rightarrow> u8 \<Rightarrow> u8 \<Rightarrow> i32 \<Rightarrow> ('m, 'h) machine \<Rightarrow> flow \<times> ('m, 'h) machine"
where
  "exec_jalr insts code_base pos next_pos rd rs1 imm s =
     (let target_va = ucast (reg_read (m_regs s) rs1) + imm in
      jump_to insts pos (target_va - code_base) (link code_base rd next_pos s))"

definition exec_branch ::
    "pre_inst list \<Rightarrow> u32 \<Rightarrow> branch_op \<Rightarrow> u8 \<Rightarrow> u8 \<Rightarrow> i32 \<Rightarrow> ('m, 'h) machine \<Rightarrow> flow \<times> ('m, 'h) machine"
where
  "exec_branch insts pos bop rs1 rs2 imm s =
     (if branch_taken bop (reg_read (m_regs s) rs1) (reg_read (m_regs s) rs2)
      then jump_to insts pos (branch_target pos imm) s
      else (Next, s))"

definition exec_ecall ::
    "('m, 'h) handler \<Rightarrow> pre_inst list \<Rightarrow> u32 \<Rightarrow> u32 \<Rightarrow> ecall_kind \<Rightarrow> bool \<Rightarrow> ('m, 'h) machine \<Rightarrow>
     (flow \<times> ('m, 'h) machine) may_panic"
where
  "exec_ecall handle insts pos next_pos k is_ecalli s =
     (let cost = ecall_dynamic_cost is_ecalli in
      if remaining (m_gas s) < cost then Returns (Return Exit_OutOfGas, set_pc pos s)
      else case charge (m_gas s) cost of
        (False, _) \<Rightarrow> Panics
      | (True, g) \<Rightarrow>
          let s = set_pc next_pos (s\<lparr>m_gas := g\<rparr>) in
          (case handle k (m_handler s) (m_regs s) (m_mem s) of
             (r, h, rg, m) \<Rightarrow>
               let s = s\<lparr>m_handler := h, m_regs := rg, m_mem := m\<rparr> in
               Returns (case r of
                 Continue \<Rightarrow>
                   (case find_idx_for_pc insts next_pos of
                      Some i \<Rightarrow> (Goto i, s)
                    | None \<Rightarrow> (Return Exit_Panic, s))
               | Exit x \<Rightarrow> (Return x, s))))"

section \<open>One instruction\<close>

fun exec_inst ::
    "'m memory_ops \<Rightarrow> ('m, 'h) handler \<Rightarrow> pre_inst list \<Rightarrow> bytes \<Rightarrow> u32 \<Rightarrow> u32 \<Rightarrow> u32 \<Rightarrow> inst \<Rightarrow>
     ('m, 'h) machine \<Rightarrow> (flow \<times> ('m, 'h) machine) may_panic"
where
  "exec_inst ops handle insts code code_base pos next_pos (Load lop rd rs1 imm) s =
     exec_load ops code code_base pos lop rd rs1 imm s"
| "exec_inst ops handle insts code code_base pos next_pos (Store sop rs1 rs2 imm) s =
     exec_store ops pos sop rs1 rs2 imm s"
| "exec_inst ops handle insts code code_base pos next_pos (AluImm aop rd rs1 imm) s =
     Returns (Next, put_reg rd (alu_imm_val aop (reg_read (m_regs s) rs1) imm) s)"
| "exec_inst ops handle insts code code_base pos next_pos (ShiftImm aop rd rs1 shamt) s =
     Returns (Next, put_reg rd (shift_imm_val aop (reg_read (m_regs s) rs1) shamt) s)"
| "exec_inst ops handle insts code code_base pos next_pos (Alu aop rd rs1 rs2) s =
     Returns (Next, put_reg rd (alu_val aop (reg_read (m_regs s) rs1) (reg_read (m_regs s) rs2)) s)"
| "exec_inst ops handle insts code code_base pos next_pos (MulDiv aop rd rs1 rs2) s =
     Returns (Next, put_reg rd (muldiv_val aop (reg_read (m_regs s) rs1) (reg_read (m_regs s) rs2)) s)"
| "exec_inst ops handle insts code code_base pos next_pos (ZbbUnary aop rd rs1) s =
     Returns (Next, put_reg rd (zbb_unary_val aop (reg_read (m_regs s) rs1)) s)"
| "exec_inst ops handle insts code code_base pos next_pos (Zbb aop rd rs1 rs2) s =
     Returns (Next, put_reg rd (zbb_val aop (reg_read (m_regs s) rs1) (reg_read (m_regs s) rs2)) s)"
| "exec_inst ops handle insts code code_base pos next_pos (ZbbImm aop rd rs1 shamt) s =
     Returns (Next, put_reg rd (zbb_imm_val aop (reg_read (m_regs s) rs1) shamt) s)"
| "exec_inst ops handle insts code code_base pos next_pos (Zba aop rd rs1 rs2) s =
     Returns (Next, put_reg rd (zba_val aop (reg_read (m_regs s) rs1) (reg_read (m_regs s) rs2)) s)"
| "exec_inst ops handle insts code code_base pos next_pos (Slliuw rd rs1 shamt) s =
     Returns (Next, put_reg rd (slliuw_val (reg_read (m_regs s) rs1) shamt) s)"
| "exec_inst ops handle insts code code_base pos next_pos (Zbs aop rd rs1 rs2) s =
     Returns (Next, put_reg rd (zbs_val aop (reg_read (m_regs s) rs1) (reg_read (m_regs s) rs2)) s)"
| "exec_inst ops handle insts code code_base pos next_pos (ZbsImm aop rd rs1 shamt) s =
     Returns (Next, put_reg rd (zbs_imm_val aop (reg_read (m_regs s) rs1) shamt) s)"
| "exec_inst ops handle insts code code_base pos next_pos (Zicond aop rd rs1 rs2) s =
     Returns (Next, put_reg rd (zicond_val aop (reg_read (m_regs s) rs1) (reg_read (m_regs s) rs2)) s)"
| "exec_inst ops handle insts code code_base pos next_pos (Lui rd imm) s =
     Returns (Next, put_reg rd (scast imm) s)"
| "exec_inst ops handle insts code code_base pos next_pos (Auipc rd imm) s =
     Returns (Next, put_reg rd (sext32 (code_base + pos + imm)) s)"
| "exec_inst ops handle insts code code_base pos next_pos (Jal rd imm) s =
     Returns (exec_jal insts code_base pos next_pos rd imm s)"
| "exec_inst ops handle insts code code_base pos next_pos (Jalr rd rs1 imm) s =
     Returns (exec_jalr insts code_base pos next_pos rd rs1 imm s)"
| "exec_inst ops handle insts code code_base pos next_pos (Branch bop rs1 rs2 imm) s =
     Returns (exec_branch insts pos bop rs1 rs2 imm s)"
| "exec_inst ops handle insts code code_base pos next_pos Fence s = Returns (Next, s)"
| "exec_inst ops handle insts code code_base pos next_pos FenceI s = Returns (Next, s)"
| "exec_inst ops handle insts code code_base pos next_pos Trap s = Returns (Return Exit_Trap, set_pc pos s)"
| "exec_inst ops handle insts code code_base pos next_pos EcallJar s =
     exec_ecall handle insts pos next_pos Kind_Ecall False s"
| "exec_inst ops handle insts code code_base pos next_pos (Ecalli imm) s =
     exec_ecall handle insts pos next_pos (Kind_Ecalli imm) True s"
| "exec_inst ops handle insts code code_base pos next_pos Fallthrough s = Returns (Next, s)"
| "exec_inst ops handle insts code code_base pos next_pos (Reserved w) s =
     Returns (Return Exit_Panic, set_pc pos s)"

section \<open>The loop\<close>

text \<open>The gas gate at a block start: the result says whether the block is entered.\<close>

definition block_gate ::
    "predecoded \<Rightarrow> nat \<Rightarrow> pre_inst \<Rightarrow> ('m, 'h) machine \<Rightarrow> (bool \<times> ('m, 'h) machine) may_panic"
where
  "block_gate pd idx x s =
     (if is_gas_block_start x then
        if idx < length (block_costs pd) then
          let cost = ucast (block_costs pd ! idx) :: u64 in
          if cost \<noteq> 0 then
            if idx < length (block_reserves pd) then
              let reserve = ucast (block_reserves pd ! idx) :: u64 in
              if remaining (m_gas s) < cost + reserve then Returns (False, set_pc (pi_pc x) s)
              else case charge (m_gas s) cost of
                     (True, g) \<Rightarrow> Returns (True, s\<lparr>m_gas := g\<rparr>)
                   | (False, g) \<Rightarrow> Panics
            else Panics
          else Returns (True, s)
        else Panics
      else Returns (True, s))"

text \<open>The end of an iteration: the index of the next instruction, or the exit when control runs off the
  end of the code.\<close>

definition advance ::
    "pre_inst list \<Rightarrow> nat \<Rightarrow> u32 \<Rightarrow> flow \<times> ('m, 'h) machine \<Rightarrow> (exit_reason + nat) \<times> ('m, 'h) machine"
where
  "advance insts idx next_pos r =
     (case r of
        (Return x, s) \<Rightarrow> (Inl x, s)
      | (Goto i, s) \<Rightarrow> (Inr i, s)
      | (Next, s) \<Rightarrow>
          if idx + 1 \<ge> length insts then (Inl Exit_Panic, set_pc next_pos s) else (Inr (idx + 1), s))"

definition step ::
    "'m memory_ops \<Rightarrow> ('m, 'h) handler \<Rightarrow> predecoded \<Rightarrow> bytes \<Rightarrow> u32 \<Rightarrow> nat \<Rightarrow> ('m, 'h) machine \<Rightarrow>
     ((exit_reason + nat) \<times> ('m, 'h) machine) may_panic"
where
  "step ops handle pd code code_base idx s =
     (if idx < length (pd_insts pd) then
        let x = pd_insts pd ! idx in
        bind_panic (block_gate pd idx x s) (\<lambda>(entered, s).
          if \<not> entered then Returns (Inl Exit_OutOfGas, s)
          else bind_panic (exec_inst ops handle (pd_insts pd) code code_base (pi_pc x) (pi_next_pc x) (pi_inst x) s)
                 (\<lambda>r. Returns (advance (pd_insts pd) idx (pi_next_pc x) r)))
      else Panics)"

partial_function (option) run_loop ::
    "'m memory_ops \<Rightarrow> ('m, 'h) handler \<Rightarrow> predecoded \<Rightarrow> bytes \<Rightarrow> u32 \<Rightarrow> nat \<Rightarrow> ('m, 'h) machine \<Rightarrow>
     (exit_reason \<times> ('m, 'h) machine) may_panic option"
where
  "run_loop ops handle pd code code_base idx s =
     (case step ops handle pd code code_base idx s of
        Panics \<Rightarrow> Some Panics
      | Returns (Inl x, s') \<Rightarrow> Some (Returns (x, s'))
      | Returns (Inr i, s') \<Rightarrow> run_loop ops handle pd code code_base i s')"

definition run ::
    "'m memory_ops \<Rightarrow> ('m, 'h) handler \<Rightarrow> predecoded \<Rightarrow> bytes \<Rightarrow> u32 \<Rightarrow> ('m, 'h) machine \<Rightarrow>
     (exit_reason \<times> ('m, 'h) machine) may_panic option"
where
  "run ops handle pd code code_base s =
     (if pd_insts pd = [] then Some (Returns (Exit_Panic, s))
      else case find_block_start (pd_insts pd) (ucast (pc (m_regs s))) of
             Some i \<Rightarrow> run_loop ops handle pd code code_base i s
           | None \<Rightarrow> Some (Returns (Exit_Panic, s)))"

section \<open>Programs\<close>

record program =
  prog_code :: bytes
  prog_predecode :: predecoded
  prog_code_base :: u32

definition program_new :: "bytes \<Rightarrow> u32 \<Rightarrow> program option" where
  "program_new code code_base =
     (case predecode code of
        Some pd \<Rightarrow> Some \<lparr>prog_code = code, prog_predecode = pd, prog_code_base = code_base\<rparr>
      | None \<Rightarrow> None)"

definition run_program ::
    "'m memory_ops \<Rightarrow> ('m, 'h) handler \<Rightarrow> program \<Rightarrow> ('m, 'h) machine \<Rightarrow>
     (exit_reason \<times> ('m, 'h) machine) may_panic option"
where
  "run_program ops handle p s = run ops handle (prog_predecode p) (prog_code p) (prog_code_base p) s"

end
