(* ===== verification/Interp_Laws.thy ===== *)
theory Interp_Laws
  imports Interp
begin

text \<open>
  One iteration of the interpreter loop. The binary search finds exactly the instruction at a
  program counter; the locale \<open>ecall_contract\<close> states what a handler promises; every arm and then every
  step, started in a well-formed state whose remaining stores are funded, returns without panic, keeps
  the state well formed, leaves bytes of non-writable pages alone, and behaves the same with more gas
  or another stored program counter (\<open>resumes\<close>). The locale \<open>interpreter\<close> joins the contracts of the memory
  and of the handler with a well-formed predecoded program.
\<close>

section \<open>Resolving a program counter\<close>

lemma bsearch_loop_bound:
  "0 < n \<Longrightarrow> base \<le> bsearch_loop ks key base n \<and> bsearch_loop ks key base n < base + n"
proof (induction ks key base n rule: bsearch_loop.induct)
  case (1 ks key base n)
  then show ?case by (subst (1 2) bsearch_loop.simps) (force simp: Let_def)
qed

lemma bsearch_loop_hit:
  assumes "sorted_wrt (<) ks" "ks ! j = key" "base \<le> j" "j < base + n" "base + n \<le> length ks"
  shows "bsearch_loop ks key base n = j"
  using assms
proof (induction ks key base n rule: bsearch_loop.induct)
  case (1 ks key base n)
  show ?case
  proof (cases "n > 1")
    case True
    let ?m = "base + n div 2"
    have m: "?m < length ks" using 1(2-) True by simp
    have "ks ! ?m > key \<longleftrightarrow> j < ?m"
      using 1(2-) m sorted_wrt_nth_less [of "(<)" ks j ?m] sorted_wrt_nth_less [of "(<)" ks ?m j]
      by (metis leD less_le_trans linorder_neqE_nat not_less_iff_gr_or_eq)
    then show ?thesis using True 1 by (subst bsearch_loop.simps) (auto simp: Let_def)
  next
    case False
    then show ?thesis using 1(2-) by (subst bsearch_loop.simps) auto
  qed
qed

lemma binary_search_iff:
  assumes "sorted_wrt (<) ks"
  shows "binary_search ks key = Some i \<longleftrightarrow> i < length ks \<and> ks ! i = key"
proof
  assume "binary_search ks key = Some i"
  then show "i < length ks \<and> ks ! i = key"
    using bsearch_loop_bound [of "length ks" 0 ks key] by (auto simp: binary_search_def Let_def split: if_splits)
next
  assume "i < length ks \<and> ks ! i = key"
  then show "binary_search ks key = Some i"
    using bsearch_loop_hit [OF assms, of i key 0 "length ks"] by (auto simp: binary_search_def Let_def)
qed

lemma pcs_sorted:
  assumes "wf_insts code insts"
  shows "sorted_wrt (<) (map pi_pc insts)"
proof -
  have c: "contiguous 0 insts" "list_all (entry_ok code) insts" using assms by (auto simp: wf_insts_def)
  have "sorted_wrt (<) (map pi_pc xs) \<and> (xs \<noteq> [] \<longrightarrow> pi_pc (hd xs) = p)" if "contiguous p xs" "list_all (entry_ok code) xs" for p xs
    using that
  proof (induction xs arbitrary: p)
    case (Cons x xs)
    then have IH: "sorted_wrt (<) (map pi_pc xs)" "xs \<noteq> [] \<longrightarrow> pi_pc (hd xs) = pi_next_pc x" by auto
    have "pi_pc x < pi_next_pc x" using Cons.prems(2) by (auto simp: word_less_nat_alt dest: entry_ok_pc_less)
    then have "\<forall>y \<in> set xs. pi_pc x < pi_pc y"
      using IH by (cases xs) (auto intro: less_trans)
    then show ?case using IH Cons.prems by simp
  qed simp
  from this [OF c] show ?thesis by simp
qed

lemma find_idx_iff:
  "wf_insts code insts \<Longrightarrow>
   find_idx_for_pc insts target = Some i \<longleftrightarrow> i < length insts \<and> pi_pc (insts ! i) = target"
  using binary_search_iff [OF pcs_sorted, of code insts target i] by (auto simp: find_idx_for_pc_def)

lemma find_block_start_iff:
  "wf_insts code insts \<Longrightarrow>
   find_block_start insts target = Some i \<longleftrightarrow>
     i < length insts \<and> pi_pc (insts ! i) = target \<and> is_gas_block_start (insts ! i)"
  unfolding conj_assoc [symmetric]
  by (simp only: find_idx_iff [symmetric]) (auto simp: find_block_start_def split: option.split)

section \<open>Contracts\<close>

text \<open>What the interpreter needs of an ecall handler: it keeps the register file, the memory and its own
  state well formed.\<close>

locale ecall_contract =
  fixes handle :: "('m, 'h) handler" and inv :: "'m \<Rightarrow> bool" and hinv :: "'h \<Rightarrow> bool"
  assumes handle_keeps: "hinv h \<Longrightarrow> wf_regs r \<Longrightarrow> inv m \<Longrightarrow> handle k h r m = (res, h', r', m') \<Longrightarrow>
    hinv h' \<and> wf_regs r' \<and> inv m'"

interpretation panicking: ecall_contract panicking_handler wf_mem "\<lambda>_. True"
  by unfold_locales (simp add: panicking_handler_def)

definition mach_ok :: "('m \<Rightarrow> bool) \<Rightarrow> ('h \<Rightarrow> bool) \<Rightarrow> ('m, 'h) machine \<Rightarrow> bool" where
  "mach_ok minv hinv s \<longleftrightarrow> wf_regs (m_regs s) \<and> minv (m_mem s) \<and> hinv (m_handler s)"

abbreviation gas_of :: "('m, 'h) machine \<Rightarrow> nat" where
  "gas_of s \<equiv> unat (remaining (m_gas s))"

text \<open>The stores from an instruction to the end of its block, and the condition under which their
  first-touch charges cannot exhaust the counter.\<close>

definition stores_left :: "pre_inst list \<Rightarrow> nat \<Rightarrow> nat" where
  "stores_left insts idx = length (filter (\<lambda>i. is_store (pi_inst i)) (block_insts insts idx))"

definition funded :: "('m \<Rightarrow> nat) \<Rightarrow> nat \<Rightarrow> ('m, 'h) machine \<Rightarrow> bool" where
  "funded pot n s \<longleftrightarrow> min (512 * n) (pot (m_mem s)) \<le> gas_of s"

text \<open>\<open>t\<close> is \<open>s\<close> with \<open>d\<close> more gas and possibly another program counter.\<close>

definition resumes :: "u64 \<Rightarrow> ('m, 'h) machine \<Rightarrow> ('m, 'h) machine \<Rightarrow> bool" where
  "resumes d s t \<longleftrightarrow> gas_of s + unat d < 2 ^ 64 \<and> remaining (m_gas t) = remaining (m_gas s) + d \<and>
     m_mem t = m_mem s \<and> m_handler t = m_handler s \<and> gpr (m_regs t) = gpr (m_regs s)"

lemma resumes_refl: "resumes 0 s s"
  using unsigned_less [of "remaining (m_gas s)", where 'a = nat] by (simp add: resumes_def)

lemma resumes_gas: "resumes d s t \<Longrightarrow> gas_of t = gas_of s + unat d"
  by (simp add: resumes_def unat_word_ariths)

lemma resumes_read: "resumes d s t \<Longrightarrow> reg_read (m_regs t) x = reg_read (m_regs s) x"
  by (simp add: resumes_def reg_read_def Let_def)

lemma resumes_addr: "resumes d s t \<Longrightarrow> compute_addr (m_regs t) x imm = compute_addr (m_regs s) x imm"
  by (simp add: compute_addr_def resumes_read)

lemma resumes_put: "resumes d s t \<Longrightarrow> resumes d (put_reg x v s) (put_reg x v t)"
  by (simp add: resumes_def put_reg_def reg_write_def Let_def)

lemma resumes_pc: "resumes d s t \<Longrightarrow> resumes d (set_pc p s) (set_pc p t)"
  by (simp add: resumes_def set_pc_def)

lemma set_pc_same: "resumes d s t \<Longrightarrow> m_regs (set_pc p t) = m_regs (set_pc p s)"
  by (simp add: resumes_def set_pc_def)

lemma resumes_mem: "resumes d s t \<Longrightarrow> resumes d (s\<lparr>m_mem := m\<rparr>) (t\<lparr>m_mem := m\<rparr>)"
  by (simp add: resumes_def)

text \<open>The outcome of one arm, from \<open>s\<close> and from \<open>t\<close>: the same control, and the state invariant.\<close>

definition arm_ok :: "('m \<Rightarrow> bool) \<Rightarrow> ('h \<Rightarrow> bool) \<Rightarrow> u64 \<Rightarrow> (nat \<Rightarrow> bool) \<Rightarrow>
    (flow \<times> ('m, 'h) machine) may_panic \<Rightarrow> (flow \<times> ('m, 'h) machine) may_panic \<Rightarrow> flow \<Rightarrow> ('m, 'h) machine \<Rightarrow> bool" where
  "arm_ok minv hinv d target a b fl s' \<longleftrightarrow> a = Returns (fl, s') \<and> mach_ok minv hinv s' \<and>
     (\<exists>t'. b = Returns (fl, t') \<and> resumes d s' t' \<and> (\<forall>x. fl = Return x \<longrightarrow> m_regs t' = m_regs s')) \<and>
     (\<forall>i. fl = Goto i \<longrightarrow> target i)"

lemma ok_simps [simp]:
  "mach_ok minv hinv (put_reg x v s) = mach_ok minv hinv s"
  "mach_ok minv hinv (set_pc p s) = mach_ok minv hinv s"
  "m_gas (put_reg x v s) = m_gas s" "m_gas (set_pc p s) = m_gas s"
  "m_mem (put_reg x v s) = m_mem s" "m_mem (set_pc p s) = m_mem s"
  "m_handler (put_reg x v s) = m_handler s" "m_handler (set_pc p s) = m_handler s"
  by (simp_all add: mach_ok_def put_reg_def set_pc_def)

lemma arm_page_fault:
  "resumes d s t \<Longrightarrow> mach_ok minv hinv s \<Longrightarrow>
   arm_ok minv hinv d target (Returns (page_fault p a s)) (Returns (page_fault p a t)) (fst (page_fault p a s)) (snd (page_fault p a s))"
  by (simp add: arm_ok_def page_fault_def resumes_pc set_pc_same)

text \<open>Permissions and the bytes of pages that are not writable are as before.\<close>

definition protects :: "'m memory_ops \<Rightarrow> 'm \<Rightarrow> 'm \<Rightarrow> bool" where
  "protects ops m m' \<longleftrightarrow> perm_of ops m' = perm_of ops m \<and>
     (\<forall>b. perm_of ops m b \<noteq> perm_RW \<longrightarrow> read_u8 ops m' b = read_u8 ops m b)"

lemma protects_refl [simp]: "protects ops m m" by (simp add: protects_def)

lemma protects_trans: "protects ops m m1 \<Longrightarrow> protects ops m1 m2 \<Longrightarrow> protects ops m m2"
  by (auto simp: protects_def)

context memory_backend
begin

lemma exec_load_ok:
  assumes "resumes d s t" "mach_ok inv hinv s"
  shows "\<exists>fl s'. arm_ok inv hinv d target (exec_load ops code cb p lop rd rs1 imm s)
      (exec_load ops code cb p lop rd rs1 imm t) fl s' \<and>
    m_gas s' = m_gas s \<and> pot (m_mem s') = pot (m_mem s) \<and> protects ops (m_mem s) (m_mem s')"
proof -
  let ?a = "compute_addr (m_regs s) rs1 imm"
  have mi: "inv (m_mem s)" using assms(2) by (simp add: mach_ok_def)
  obtain ok m' where t: "\<And>gas. touch_read ops (m_mem s) ?a (load_width lop) gas = Returns (ok, m', gas)"
    "inv m'" "pot m' = pot (m_mem s)" "store_frame ops 0 ?a (m_mem s) m'"
    using touch_read_law [OF mi] by metis
  have f: "protects ops (m_mem s) m'" using t(4) by (simp add: store_frame_def protects_def)
  have mt: "m_mem t = m_mem s" using assms(1) by (simp add: resumes_def)
  define s1 t1 where "s1 = s\<lparr>m_mem := m', m_gas := m_gas s\<rparr>" and "t1 = t\<lparr>m_mem := m', m_gas := m_gas t\<rparr>"
  have r: "resumes d s1 t1" "mach_ok inv hinv s1"
    using assms t(2) by (simp_all add: s1_def t1_def mach_ok_def resumes_def)
  have es: "exec_load ops code cb p lop rd rs1 imm s =
      (if \<not> ok then Returns (page_fault p ?a s1)
       else case load_val lop ops m' code cb ?a of Some v \<Rightarrow> Returns (Next, put_reg rd v s1) | None \<Rightarrow> Returns (page_fault p ?a s1))"
    by (simp add: exec_load_def t s1_def Let_def split: option.split)
  have et: "exec_load ops code cb p lop rd rs1 imm t =
      (if \<not> ok then Returns (page_fault p ?a t1)
       else case load_val lop ops m' code cb ?a of Some v \<Rightarrow> Returns (Next, put_reg rd v t1) | None \<Rightarrow> Returns (page_fault p ?a t1))"
    by (simp add: exec_load_def resumes_addr [OF assms(1)] mt t t1_def Let_def split: option.split)
  note pf = arm_page_fault [OF r, of target p ?a]
  show ?thesis
  proof (cases "if ok then load_val lop ops m' code cb ?a else None")
    case None
    then have "exec_load ops code cb p lop rd rs1 imm s = Returns (page_fault p ?a s1)"
      "exec_load ops code cb p lop rd rs1 imm t = Returns (page_fault p ?a t1)"
      by (auto simp: es et split: if_splits)
    then show ?thesis using pf f t(3)
      by (intro exI [of _ "fst (page_fault p ?a s1)"] exI [of _ "snd (page_fault p ?a s1)"]) (simp add: s1_def page_fault_def)
  next
    case (Some v)
    then show ?thesis using r f t(3)
      by (intro exI [of _ Next] exI [of _ "put_reg rd v s1"]) (auto simp: es et arm_ok_def resumes_put s1_def split: if_splits)
  qed
qed
lemma store_val_ok:
  assumes "inv m" "store_writable ops m a (store_width sop)" "store_val sop ops m a v = (ok, m')"
  shows "inv m' \<and> pot m' = pot m \<and> protects ops m m'"
proof -
  define k where "k = unat (store_width sop)"
  have k: "1 \<le> k" "k \<le> 8" "store_width sop - 1 = of_nat (k - 1)" by (cases sop; simp add: k_def)+
  have m': "inv m' \<and> pot m' = pot m \<and> store_frame ops k a m m'"
    using write_u8_law [OF assms(1), of a "ucast v" ok m'] write_u16_law [OF assms(1), of a "ucast v" ok m']
      write_u32_law [OF assms(1), of a "ucast v" ok m'] write_u64_law [OF assms(1), of a v ok m'] assms(3)
    by (cases sop) (simp_all add: k_def)
  have "perm_of ops m b = perm_RW" if "unat (b - a) < k" for b
    using writable_span [OF assms(1) k(1,2) _ _ that, of perm_RW] assms(2) k(3) by (simp add: store_writable_def)
  then show ?thesis using m' by (auto simp: protects_def store_frame_def not_less [symmetric])
qed

lemma exec_store_ok:
  assumes "resumes d s t" "mach_ok inv hinv s" "funded pot (Suc n) s"
  shows "\<exists>fl s'. arm_ok inv hinv d target (exec_store ops p sop rs1 rs2 imm s)
      (exec_store ops p sop rs1 rs2 imm t) fl s' \<and>
    gas_of s' \<le> gas_of s \<and> funded pot n s' \<and> protects ops (m_mem s) (m_mem s')"
proof -
  let ?a = "compute_addr (m_regs s) rs1 imm" and ?w = "store_width sop" and ?v = "reg_read (m_regs s) rs2"
  have mi: "inv (m_mem s)" using assms(2) by (simp add: mach_ok_def)
  obtain ok m' c where t: "\<And>gas. c \<le> unat (remaining gas) \<Longrightarrow>
      touch_write ops (m_mem s) ?a ?w gas = Returns (ok, m', gas\<lparr>remaining := remaining gas - of_nat c\<rparr>)"
    "c \<le> 512" "c + pot m' = pot (m_mem s)" "inv m'" "store_frame ops 0 ?a (m_mem s) m'"
    using touch_write_law [OF mi, of ?a ?w] by metis
  have cg: "c \<le> gas_of s" using assms(3) t(2,3) by (auto simp: funded_def min_def split: if_splits)
  have cu: "unat (of_nat c :: u64) = c" using t(2) by (simp add: unsigned_of_nat take_bit_nat_eq_self)
  have f: "protects ops (m_mem s) m'" using t(5) by (simp add: store_frame_def protects_def)
  have mt: "m_mem t = m_mem s" using assms(1) by (simp add: resumes_def)
  define s1 where "s1 = s\<lparr>m_mem := m', m_gas := (m_gas s)\<lparr>remaining := remaining (m_gas s) - of_nat c\<rparr>\<rparr>"
  define t1 where "t1 = t\<lparr>m_mem := m', m_gas := (m_gas t)\<lparr>remaining := remaining (m_gas t) - of_nat c\<rparr>\<rparr>"
  have g1: "gas_of s1 = gas_of s - c" using cg by (simp add: s1_def unat_sub word_le_nat_alt cu)
  have r: "resumes d s1 t1" "mach_ok inv hinv s1"
    using assms t(4) g1 cg by (auto simp: s1_def t1_def mach_ok_def resumes_def)
  have fu: "funded pot n s1" using assms(3) t(2,3) g1 cg by (auto simp: funded_def s1_def min_def split: if_splits)
  have ct: "c \<le> gas_of t" using cg resumes_gas [OF assms(1)] by simp
  have es: "exec_store ops p sop rs1 rs2 imm s =
      (if \<not> ok \<or> \<not> store_writable ops m' ?a ?w then Returns (page_fault p ?a s1)
       else case store_val sop ops m' ?a ?v of (b, m) \<Rightarrow> Returns (if b then (Next, s1\<lparr>m_mem := m\<rparr>) else page_fault p ?a (s1\<lparr>m_mem := m\<rparr>)))"
    by (simp add: exec_store_def t(1) [OF cg] s1_def Let_def split: prod.split bool.split)
  have et: "exec_store ops p sop rs1 rs2 imm t =
      (if \<not> ok \<or> \<not> store_writable ops m' ?a ?w then Returns (page_fault p ?a t1)
       else case store_val sop ops m' ?a ?v of (b, m) \<Rightarrow> Returns (if b then (Next, t1\<lparr>m_mem := m\<rparr>) else page_fault p ?a (t1\<lparr>m_mem := m\<rparr>)))"
    by (simp add: exec_store_def resumes_addr [OF assms(1)] resumes_read [OF assms(1)] mt t(1) [OF ct] t1_def Let_def split: prod.split bool.split)
  show ?thesis
  proof (cases "ok \<and> store_writable ops m' ?a ?w")
    case False
    then show ?thesis using arm_page_fault [OF r, of target p ?a] f fu g1
      by (intro exI [of _ "fst (page_fault p ?a s1)"] exI [of _ "snd (page_fault p ?a s1)"])
        (auto simp: es et page_fault_def s1_def funded_def)
  next
    case True
    obtain b m2 where b: "store_val sop ops m' ?a ?v = (b, m2)" by fastforce
    have m2: "inv m2" "pot m2 = pot m'" "protects ops m' m2" using store_val_ok [OF t(4) _ b] True by auto
    let ?s2 = "s1\<lparr>m_mem := m2\<rparr>" and ?t2 = "t1\<lparr>m_mem := m2\<rparr>"
    have r2: "resumes d ?s2 ?t2" "mach_ok inv hinv ?s2" "funded pot n ?s2" "gas_of ?s2 \<le> gas_of s" "protects ops (m_mem s) m2"
      using resumes_mem [OF r(1)] r(2) fu m2 g1 protects_trans [OF f m2(3)] by (auto simp: mach_ok_def funded_def s1_def)
    then show ?thesis using arm_page_fault [OF r2(1,2), of target p ?a] True
      by (intro exI [of _ "if b then Next else fst (page_fault p ?a ?s2)"] exI [of _ "if b then ?s2 else snd (page_fault p ?a ?s2)"])
        (auto simp: es et b arm_ok_def page_fault_def funded_def)
  qed
qed
end

section \<open>One step\<close>

definition block_target :: "pre_inst list \<Rightarrow> nat \<Rightarrow> bool" where
  "block_target insts i \<longleftrightarrow> i < length insts \<and> is_gas_block_start (insts ! i)"

lemma jump_to_ok:
  assumes "wf_insts code insts" "resumes d s t" "mach_ok minv hinv s"
  shows "\<exists>fl s'. arm_ok minv hinv d (block_target insts) (Returns (jump_to insts p tgt s)) (Returns (jump_to insts p tgt t)) fl s' \<and>
    m_gas s' = m_gas s \<and> m_mem s' = m_mem s"
proof (cases "find_block_start insts tgt")
  case None
  then show ?thesis using assms(2,3)
    by (intro exI [of _ "Return Exit_Panic"] exI [of _ "set_pc p s"]) (simp add: jump_to_def arm_ok_def resumes_pc set_pc_same)
next
  case (Some i)
  then have "block_target insts i" using find_block_start_iff [OF assms(1)] by (simp add: block_target_def)
  then show ?thesis using Some assms(2,3)
    by (intro exI [of _ "Goto i"] exI [of _ s]) (simp add: jump_to_def arm_ok_def)
qed

lemma resumes_link: "resumes d s t \<Longrightarrow> resumes d (link cb rd n s) (link cb rd n t)"
  by (simp add: link_def resumes_put)

lemma link_simps [simp]:
  "mach_ok minv hinv (link cb rd n s) = mach_ok minv hinv s" "m_gas (link cb rd n s) = m_gas s" "m_mem (link cb rd n s) = m_mem s"
  by (simp_all add: link_def)

lemma succ_unique:
  assumes "wf_insts code insts" "idx < length insts" "i < length insts" "pi_pc (insts ! i) = pi_next_pc (insts ! idx)"
  shows "i = Suc idx"
proof -
  have s: "sorted_wrt (<) (map pi_pc insts)" by (rule pcs_sorted [OF assms(1)])
  have lt: "pi_pc (insts ! j) < pi_pc (insts ! k)" if "j < k" "k < length insts" for j k
    using sorted_wrt_nth_less [OF s, of j k] that by simp
  have "pi_pc (insts ! idx) < pi_pc (insts ! i)"
    using assms entry_ok_pc_less [of code "insts ! idx"] by (auto simp: wf_insts_def list_all_length word_less_nat_alt)
  then have less: "idx < i" using lt [of i idx] assms(2) by (cases "i < idx") (auto simp: not_less le_less)
  show ?thesis
  proof (rule ccontr)
    assume "i \<noteq> Suc idx"
    then have si: "Suc idx < i" using less by simp
    then have "pi_pc (insts ! Suc idx) = pi_next_pc (insts ! idx)"
      using contiguous_nth [of 0 insts idx] assms(1,3) by (auto simp: wf_insts_def)
    then show False using lt [OF si assms(3)] assms(4) by simp
  qed
qed

lemma after_terminator:
  assumes "wf_insts code insts" "idx < length insts" "is_terminator (pi_inst (insts ! idx))"
    "find_idx_for_pc insts (pi_next_pc (insts ! idx)) = Some i"
  shows "block_target insts i"
proof -
  have i: "i < length insts" "pi_pc (insts ! i) = pi_next_pc (insts ! idx)" using find_idx_iff [OF assms(1)] assms(4) by auto
  have "i = Suc idx" by (rule succ_unique [OF assms(1,2) i])
  then show ?thesis using assms(1,3) i(1) by (simp add: block_target_def wf_insts_def starts_block_def)
qed

lemma exec_ecall_eq:
  assumes "100 \<le> gas_of s"
    "s1 = set_pc n (s\<lparr>m_gas := (m_gas s)\<lparr>remaining := remaining (m_gas s) - 100\<rparr>\<rparr>)"
    "handle k (m_handler s1) (m_regs s1) (m_mem s1) = (res, h, rg, m)"
  shows "exec_ecall handle insts p n k b s =
    Returns (case res of Continue \<Rightarrow> (case find_idx_for_pc insts n of Some i \<Rightarrow> Goto i | None \<Rightarrow> Return Exit_Panic) | Exit x \<Rightarrow> Return x,
      s1\<lparr>m_handler := h, m_regs := rg, m_mem := m\<rparr>)"
proof -
  have "charge (m_gas s) 100 = (True, (m_gas s)\<lparr>remaining := remaining (m_gas s) - 100\<rparr>)"
    using assms(1) by (intro charge_ok) (simp add: word_le_nat_alt)
  moreover have "ecall_dynamic_cost b = 100" by (simp add: ecall_dynamic_cost_def HOST_CALL_FLOOR_def MGMT_OP_COST_def)
  moreover have "\<not> remaining (m_gas s) < 100" using assms(1) by (simp add: word_less_nat_alt)
  ultimately show ?thesis
    by (simp only: exec_ecall_def Let_def if_False prod.case bool.case assms(2) [symmetric] assms(3))
      (simp split: ecall_result.split option.split)
qed

context ecall_contract
begin

lemma exec_ecall_ok:
  assumes "wf_insts code insts" "idx < length insts" "is_terminator (pi_inst (insts ! idx))"
    "resumes d s t" "mach_ok inv hinv s" "100 \<le> gas_of s"
  shows "\<exists>fl s'. arm_ok inv hinv d (block_target insts) (exec_ecall handle insts p (pi_next_pc (insts ! idx)) k b s)
      (exec_ecall handle insts p (pi_next_pc (insts ! idx)) k b t) fl s' \<and> fl \<noteq> Next \<and> gas_of s' = gas_of s - 100"
proof -
  let ?n = "pi_next_pc (insts ! idx)"
  have gt: "100 \<le> gas_of t" using assms(6) resumes_gas [OF assms(4)] by simp
  define s1 t1 where "s1 = set_pc ?n (s\<lparr>m_gas := (m_gas s)\<lparr>remaining := remaining (m_gas s) - 100\<rparr>\<rparr>)"
    and "t1 = set_pc ?n (t\<lparr>m_gas := (m_gas t)\<lparr>remaining := remaining (m_gas t) - 100\<rparr>\<rparr>)"
  have g1: "gas_of s1 = gas_of s - 100" using assms(6) by (simp add: s1_def unat_sub word_le_nat_alt)
  have r: "resumes d s1 t1" "mach_ok inv hinv s1" "m_regs t1 = m_regs s1" "m_mem t1 = m_mem s1" "m_handler t1 = m_handler s1"
    using assms(4,5) g1 by (auto simp: s1_def t1_def mach_ok_def resumes_def set_pc_def)
  obtain res h rg m where h: "handle k (m_handler s1) (m_regs s1) (m_mem s1) = (res, h, rg, m)" by (metis prod_cases4)
  have keep: "hinv h \<and> wf_regs rg \<and> inv m" using handle_keeps [OF _ _ _ h] r(2) by (simp add: mach_ok_def)
  let ?s2 = "s1\<lparr>m_handler := h, m_regs := rg, m_mem := m\<rparr>" and ?t2 = "t1\<lparr>m_handler := h, m_regs := rg, m_mem := m\<rparr>"
  let ?fl = "case res of Continue \<Rightarrow> (case find_idx_for_pc insts ?n of Some i \<Rightarrow> Goto i | None \<Rightarrow> Return Exit_Panic) | Exit x \<Rightarrow> Return x"
  have es: "exec_ecall handle insts p ?n k b s = Returns (?fl, ?s2)"
    by (rule exec_ecall_eq [of _ s1, OF assms(6) s1_def]) (rule h)
  have et: "exec_ecall handle insts p ?n k b t = Returns (?fl, ?t2)"
    by (rule exec_ecall_eq [of _ t1, OF gt t1_def]) (simp only: r(3-5) h)
  have tgt: "block_target insts i" if "find_idx_for_pc insts ?n = Some i" for i
    using after_terminator [OF assms(1-3) that] .
  have "arm_ok inv hinv d (block_target insts) (Returns (?fl, ?s2)) (Returns (?fl, ?t2)) ?fl ?s2"
    using r(1) keep tgt by (auto simp: arm_ok_def mach_ok_def resumes_def split: ecall_result.split option.split)
  moreover have "?fl \<noteq> Next" by (simp split: ecall_result.split option.split)
  moreover have "gas_of ?s2 = gas_of s - 100" using g1 by simp
  ultimately show ?thesis unfolding es et by blast
qed

end

text \<open>What one instruction guarantees, \<open>n\<close> being the stores left in the block.\<close>

definition inst_ok :: "'m memory_ops \<Rightarrow> ('m \<Rightarrow> bool) \<Rightarrow> ('h \<Rightarrow> bool) \<Rightarrow> ('m \<Rightarrow> nat) \<Rightarrow> u64 \<Rightarrow> pre_inst list \<Rightarrow> nat \<Rightarrow> inst \<Rightarrow>
    (flow \<times> ('m, 'h) machine) may_panic \<Rightarrow> (flow \<times> ('m, 'h) machine) may_panic \<Rightarrow> ('m, 'h) machine \<Rightarrow> bool" where
  "inst_ok ops minv hinv pot d insts n i a b s \<longleftrightarrow> (\<exists>fl s'. arm_ok minv hinv d (block_target insts) a b fl s' \<and>
     gas_of s' \<le> gas_of s \<and> (is_ecall_block i \<longrightarrow> gas_of s' < gas_of s \<and> fl \<noteq> Next) \<and>
     (fl = Next \<longrightarrow> funded pot (n - (if is_store i then 1 else 0)) s') \<and>
     (\<not> is_ecall_block i \<longrightarrow> protects ops (m_mem s) (m_mem s')))"

lemma inst_okI:
  assumes "\<exists>fl s'. arm_ok minv hinv d (block_target insts) a b fl s' \<and> m_gas s' = m_gas s \<and>
      pot (m_mem s') = pot (m_mem s) \<and> protects ops (m_mem s) (m_mem s')"
    "funded pot n s" "\<not> is_ecall_block i" "\<not> is_store i"
  shows "inst_ok ops minv hinv pot d insts n i a b s"
  using assms unfolding inst_ok_def by (elim exE conjE, intro exI conjI) (auto simp: funded_def)

lemma pure_ok:
  assumes "resumes d s t" "mach_ok minv hinv s" "funded pot n s" "\<not> is_ecall_block i" "\<not> is_store i"
    "a = Returns (Next, put_reg rd v s)" "b = Returns (Next, put_reg rd v t)"
  shows "inst_ok ops minv hinv pot d insts n i a b s"
  using assms by (intro inst_okI exI [of _ Next] exI [of _ "put_reg rd v s"]) (auto simp: arm_ok_def resumes_put)

lemma skip_ok:
  assumes "resumes d s t" "mach_ok minv hinv s" "funded pot n s" "\<not> is_ecall_block i" "\<not> is_store i"
    "a = Returns (Next, s)" "b = Returns (Next, t)"
  shows "inst_ok ops minv hinv pot d insts n i a b s"
  using assms by (intro inst_okI exI [of _ Next] exI [of _ s]) (auto simp: arm_ok_def)

lemma stop_ok:
  assumes "resumes d s t" "mach_ok minv hinv s" "funded pot n s" "\<not> is_ecall_block i" "\<not> is_store i"
    "a = Returns (Return x, set_pc p s)" "b = Returns (Return x, set_pc p t)"
  shows "inst_ok ops minv hinv pot d insts n i a b s"
  using assms by (intro inst_okI exI [of _ "Return x"] exI [of _ "set_pc p s"]) (auto simp: arm_ok_def resumes_pc set_pc_same)

lemma jump_ok:
  assumes "wf_insts code insts" "resumes d s t" "mach_ok minv hinv s" "funded pot n s" "\<not> is_ecall_block i" "\<not> is_store i"
    "a = Returns (jump_to insts p tgt (link cb rd n' s))" "b = Returns (jump_to insts p tgt (link cb rd n' t))"
  shows "inst_ok ops minv hinv pot d insts n i a b s"
proof -
  obtain fl s' where "arm_ok minv hinv d (block_target insts) a b fl s'" "m_gas s' = m_gas s" "m_mem s' = m_mem s"
    using jump_to_ok [OF assms(1) resumes_link [OF assms(2)], of minv hinv cb rd n' p tgt] assms by auto
  then show ?thesis using assms by (intro inst_okI exI [of _ fl] exI [of _ s']) simp_all
qed

locale interpreter = memory_backend ops inv pot + ecall_contract handle inv hinv
  for ops :: "'m memory_ops" and inv :: "'m \<Rightarrow> bool" and pot :: "'m \<Rightarrow> nat"
    and handle :: "('m, 'h) handler" and hinv :: "'h \<Rightarrow> bool" +
  fixes pd :: predecoded and code :: bytes and cb :: u32 and mc :: u8
  assumes wf_pd: "wf_predecoded code mc pd"
begin

lemma wf_insts_pd: "wf_insts code (pd_insts pd)"
  using wf_pd by (simp add: wf_predecoded_def)

lemma exec_inst_ok:
  fixes idx :: nat
  defines "x \<equiv> pd_insts pd ! idx"
  assumes "idx < length (pd_insts pd)" "resumes d s t" "mach_ok inv hinv s" "funded pot n s"
    "is_store (pi_inst x) \<Longrightarrow> 0 < n" "is_ecall_block (pi_inst x) \<Longrightarrow> 100 \<le> gas_of s"
  shows "inst_ok ops inv hinv pot d (pd_insts pd) n (pi_inst x)
    (exec_inst ops handle (pd_insts pd) code cb (pi_pc x) (pi_next_pc x) (pi_inst x) s)
    (exec_inst ops handle (pd_insts pd) code cb (pi_pc x) (pi_next_pc x) (pi_inst x) t) s"
proof -
  note R = assms(3) and rd = resumes_read [OF assms(3)]
  note prems = assms(3-5)
  show ?thesis
  proof (cases "pi_inst x")
    case (Load lop rdr rs1 imm)
    then show ?thesis using exec_load_ok [OF R assms(4)] assms(5) by (intro inst_okI) auto
  next
    case (Store sop rs1 rs2 imm)
    obtain k where "n = Suc k" using assms(6) Store by (cases n) auto
    then show ?thesis
      using exec_store_ok [OF R assms(4), of k "block_target (pd_insts pd)" "pi_pc x" sop rs1 rs2 imm] assms(5) Store
      by (auto simp: inst_ok_def)
  next
    case (Branch bop rs1 rs2 imm)
    show ?thesis
    proof (cases "branch_taken bop (reg_read (m_regs s) rs1) (reg_read (m_regs s) rs2)")
      case True
      then show ?thesis using Branch prems
        by (intro jump_ok [OF wf_insts_pd prems, where p = "pi_pc x" and tgt = "branch_target (pi_pc x) imm" and rd = 0])
          (auto simp: exec_branch_def rd link_def)
    next
      case False
      then show ?thesis using Branch prems by (intro skip_ok) (auto simp: exec_branch_def rd)
    qed
  next
    case (Jal rdr imm)
    then show ?thesis using prems by (intro jump_ok [OF wf_insts_pd prems]) (auto simp: exec_jal_def)
  next
    case (Jalr rdr rs1 imm)
    then show ?thesis using prems by (intro jump_ok [OF wf_insts_pd prems]) (auto simp: exec_jalr_def rd Let_def)
  next
    case EcallJar
    then show ?thesis
      using exec_ecall_ok [OF wf_insts_pd assms(2) _ R assms(4), of "pi_pc x" Kind_Ecall False] assms(7)
      by (simp add: x_def [symmetric]) (fastforce simp: inst_ok_def)
  next
    case (Ecalli imm)
    then show ?thesis
      using exec_ecall_ok [OF wf_insts_pd assms(2) _ R assms(4), of "pi_pc x" "Kind_Ecalli imm" True] assms(7)
      by (simp add: x_def [symmetric]) (fastforce simp: inst_ok_def)
  qed (simp_all add: rd pure_ok [OF prems _ _ refl refl] skip_ok [OF prems _ _ refl refl] stop_ok [OF prems _ _ refl refl])
qed
end

text \<open>The gas a block start asks for, and when the loop stops there.\<close>

definition gate_need :: "predecoded \<Rightarrow> nat \<Rightarrow> nat" where
  "gate_need pd idx = (if is_ecall_block (pi_inst (pd_insts pd ! idx)) then 100
     else unat (block_costs pd ! idx) + unat (block_reserves pd ! idx))"

definition pauses :: "predecoded \<Rightarrow> nat \<Rightarrow> ('m, 'h) machine \<Rightarrow> bool" where
  "pauses pd idx s \<longleftrightarrow> is_gas_block_start (pd_insts pd ! idx) \<and> gas_of s < gate_need pd idx"

text \<open>Between iterations: well formed, and inside a block the remaining stores are funded.\<close>

definition running :: "('m \<Rightarrow> bool) \<Rightarrow> ('h \<Rightarrow> bool) \<Rightarrow> ('m \<Rightarrow> nat) \<Rightarrow> predecoded \<Rightarrow> nat \<Rightarrow> ('m, 'h) machine \<Rightarrow> bool" where
  "running minv hinv pot pd idx s \<longleftrightarrow> idx < length (pd_insts pd) \<and> mach_ok minv hinv s \<and>
     (is_gas_block_start (pd_insts pd ! idx) \<or> funded pot (stores_left (pd_insts pd) idx) s)"

lemma ucast_u32_u64: "unat (ucast w :: u64) = unat w" for w :: u32
  using unsigned_less [of w, where 'a = nat] by (simp add: unsigned_ucast_eq take_bit_nat_eq_self)

lemma stores_left_Suc:
  "Suc idx < length insts \<Longrightarrow> \<not> is_gas_block_start (insts ! Suc idx) \<Longrightarrow>
   stores_left insts idx = (if is_store (pi_inst (insts ! idx)) then 1 else 0) + stores_left insts (Suc idx)"
  by (simp add: stores_left_def block_insts_eq takeWhile.simps Cons_nth_drop_Suc [symmetric])

lemma stores_left_pos: "idx < length insts \<Longrightarrow> is_store (pi_inst (insts ! idx)) \<Longrightarrow> 0 < stores_left insts idx"
  by (simp add: stores_left_def block_insts_eq)

definition gate_cost :: "predecoded \<Rightarrow> nat \<Rightarrow> nat" where
  "gate_cost pd idx = (if is_gas_block_start (pd_insts pd ! idx) \<and> \<not> is_ecall_block (pi_inst (pd_insts pd ! idx))
     then unat (block_costs pd ! idx) else 0)"

definition pay :: "nat \<Rightarrow> ('m, 'h) machine \<Rightarrow> ('m, 'h) machine" where
  "pay c s = s\<lparr>m_gas := (m_gas s)\<lparr>remaining := remaining (m_gas s) - of_nat c\<rparr>\<rparr>"

lemma pay_simps [simp]: "pay 0 s = s" "m_mem (pay c s) = m_mem s" "m_regs (pay c s) = m_regs s"
  "mach_ok minv hinv (pay c s) = mach_ok minv hinv s"
  by (simp_all add: pay_def mach_ok_def)

lemma gas_of_pay: "c \<le> gas_of s \<Longrightarrow> gas_of (pay c s) = gas_of s - c"
proof -
  assume c: "c \<le> gas_of s"
  then have "c < 2 ^ 64" using unsigned_less [of "remaining (m_gas s)", where 'a = nat] by simp
  then have "unat (of_nat c :: u64) = c" by (simp add: unsigned_of_nat take_bit_nat_eq_self)
  then show ?thesis using c by (simp add: pay_def unat_sub word_le_nat_alt)
qed

lemma resumes_pay: "resumes d s t \<Longrightarrow> c \<le> gas_of s \<Longrightarrow> resumes d (pay c s) (pay c t)"
  using gas_of_pay [of c s] by (auto simp: resumes_def pay_def)

context interpreter
begin

lemma tables:
  assumes "idx < length (pd_insts pd)"
  shows "idx < length (block_costs pd)" "idx < length (block_reserves pd)"
    "is_ecall_block (pi_inst (pd_insts pd ! idx)) \<Longrightarrow> block_costs pd ! idx = 0"
    "is_gas_block_start (pd_insts pd ! idx) \<Longrightarrow> \<not> is_ecall_block (pi_inst (pd_insts pd ! idx)) \<Longrightarrow>
       1 \<le> unat (block_costs pd ! idx) \<and>
       unat (block_reserves pd ! idx) = min (512 * stores_left (pd_insts pd) idx) (2 ^ 32 - 1)"
proof -
  have "\<forall>i \<in> set (pd_insts pd). pi_gas_meta i = rv_gas_meta (pi_inst i)"
    using wf_insts_pd by (auto simp: wf_insts_def entry_ok_def list_all_iff)
  note r = unat_block_reserve [OF this]
  show "idx < length (block_costs pd)" "idx < length (block_reserves pd)"
    using wf_pd assms by (simp_all add: wf_predecoded_def)
  show "is_ecall_block (pi_inst (pd_insts pd ! idx)) \<Longrightarrow> block_costs pd ! idx = 0"
    using wf_pd assms by (simp add: wf_predecoded_def static_block_def)
  show "is_gas_block_start (pd_insts pd ! idx) \<Longrightarrow> \<not> is_ecall_block (pi_inst (pd_insts pd ! idx)) \<Longrightarrow>
       1 \<le> unat (block_costs pd ! idx) \<and>
       unat (block_reserves pd ! idx) = min (512 * stores_left (pd_insts pd) idx) (2 ^ 32 - 1)"
    using wf_pd assms flush_pos r by (simp add: wf_predecoded_def static_block_def rv_gas_cost_for_block_def stores_left_def Let_def)
qed

lemma ecall_starts: "idx < length (pd_insts pd) \<Longrightarrow> is_ecall_block (pi_inst (pd_insts pd ! idx)) \<Longrightarrow> is_gas_block_start (pd_insts pd ! idx)"
  using wf_insts_pd by (simp add: wf_insts_def starts_block_def)

lemma gate_sum: "unat (ucast (block_costs pd ! idx) + ucast (block_reserves pd ! idx) :: u64) = unat (block_costs pd ! idx) + unat (block_reserves pd ! idx)"
  using unsigned_less [of "block_costs pd ! idx", where 'a = nat] unsigned_less [of "block_reserves pd ! idx", where 'a = nat]
  by (simp add: unat_word_ariths ucast_u32_u64)

lemma step_pauses:
  assumes "idx < length (pd_insts pd)" "pauses pd idx s"
  shows "step ops handle pd code cb idx s = Returns (Inl Exit_OutOfGas, set_pc (pi_pc (pd_insts pd ! idx)) s)"
proof (cases "is_ecall_block (pi_inst (pd_insts pd ! idx))")
  case True
  then obtain b k where "exec_inst ops handle (pd_insts pd) code cb p n (pi_inst (pd_insts pd ! idx)) s = exec_ecall handle (pd_insts pd) p n k b s" for p n
    by (cases "pi_inst (pd_insts pd ! idx)") auto
  moreover have "remaining (m_gas s) < ecall_dynamic_cost b" for b
    using True assms(2) by (simp add: pauses_def gate_need_def word_less_nat_alt ecall_dynamic_cost_def HOST_CALL_FLOOR_def MGMT_OP_COST_def)
  ultimately show ?thesis using True assms tables [OF assms(1)]
    by (simp add: step_def block_gate_def Let_def exec_ecall_def advance_def)
next
  case False
  then have "ucast (block_costs pd ! idx) \<noteq> (0 :: u64)" "is_gas_block_start (pd_insts pd ! idx)" using tables(4) [OF assms(1)] assms(2) by (auto simp: pauses_def word_unat_eq_iff ucast_u32_u64)
  moreover have "remaining (m_gas s) < ucast (block_costs pd ! idx) + ucast (block_reserves pd ! idx)"
    using assms(2) False by (simp add: word_less_nat_alt gate_sum pauses_def gate_need_def)
  ultimately show ?thesis using assms(1) tables(1,2) [OF assms(1)]
    by (simp add: step_def block_gate_def Let_def)
qed

lemma gate_passes:
  assumes "running inv hinv pot pd idx s" "\<not> pauses pd idx s"
  shows "block_gate pd idx (pd_insts pd ! idx) s = Returns (True, pay (gate_cost pd idx) s)"
    "gate_cost pd idx \<le> gas_of s"
    "funded pot (stores_left (pd_insts pd) idx) (pay (gate_cost pd idx) s) \<or> is_ecall_block (pi_inst (pd_insts pd ! idx))"
    "is_gas_block_start (pd_insts pd ! idx) \<Longrightarrow> 1 \<le> gate_cost pd idx \<or> is_ecall_block (pi_inst (pd_insts pd ! idx)) \<and> 100 \<le> gas_of s"
proof -
  let ?x = "pd_insts pd ! idx"
  have l: "idx < length (pd_insts pd)" using assms(1) by (simp add: running_def)
  note tb = tables [OF l]
  have "(block_gate pd idx ?x s = Returns (True, pay (gate_cost pd idx) s) \<and> gate_cost pd idx \<le> gas_of s) \<and>
     (funded pot (stores_left (pd_insts pd) idx) (pay (gate_cost pd idx) s) \<or> is_ecall_block (pi_inst ?x)) \<and>
     (is_gas_block_start ?x \<longrightarrow> 1 \<le> gate_cost pd idx \<or> is_ecall_block (pi_inst ?x) \<and> 100 \<le> gas_of s)"
  proof (cases "is_gas_block_start ?x \<and> \<not> is_ecall_block (pi_inst ?x)")
    case True
    let ?c = "unat (block_costs pd ! idx)" and ?r = "unat (block_reserves pd ! idx)"
    have c: "1 \<le> ?c" "?r = min (512 * stores_left (pd_insts pd) idx) (2 ^ 32 - 1)" using tb(4) True by auto
    have g: "?c + ?r \<le> gas_of s" using assms(2) True by (simp add: pauses_def gate_need_def)
    have gc: "gate_cost pd idx = ?c" using True by (simp add: gate_cost_def)
    have w: "of_nat ?c = (ucast (block_costs pd ! idx) :: u64)" by (simp add: word_unat_eq_iff ucast_u32_u64 unsigned_of_nat take_bit_nat_eq_self)
    have "charge (m_gas s) (of_nat ?c) = (True, (m_gas s)\<lparr>remaining := remaining (m_gas s) - of_nat ?c\<rparr>)"
      using g by (intro charge_ok) (simp add: w word_le_nat_alt ucast_u32_u64)
    moreover have "\<not> remaining (m_gas s) < ucast (block_costs pd ! idx) + ucast (block_reserves pd ! idx)"
      using g by (simp add: word_less_nat_alt gate_sum)
    moreover have "ucast (block_costs pd ! idx) \<noteq> (0 :: u64)" using c(1) by (auto simp: word_unat_eq_iff ucast_u32_u64)
    ultimately have "block_gate pd idx ?x s = Returns (True, pay ?c s)"
      using True tb(1,2) by (simp add: block_gate_def Let_def pay_def w)
    moreover have "funded pot (stores_left (pd_insts pd) idx) (pay ?c s)"
      using c g pot_bound [of "m_mem s"] assms(1) by (auto simp: funded_def gas_of_pay running_def mach_ok_def min_def split: if_splits)
    ultimately show ?thesis using c g gc by simp
  next
    case False
    then have gc: "gate_cost pd idx = 0" by (auto simp: gate_cost_def)
    have "block_gate pd idx ?x s = Returns (True, s)"
      using False tb(1,3) by (auto simp: block_gate_def Let_def)
    moreover have "funded pot (stores_left (pd_insts pd) idx) s \<or> is_ecall_block (pi_inst ?x)"
      using False assms(1) by (auto simp: running_def)
    ultimately show ?thesis using False assms(2) by (auto simp: gc pauses_def gate_need_def)
  qed
  then show "block_gate pd idx ?x s = Returns (True, pay (gate_cost pd idx) s)" "gate_cost pd idx \<le> gas_of s"
    "funded pot (stores_left (pd_insts pd) idx) (pay (gate_cost pd idx) s) \<or> is_ecall_block (pi_inst ?x)"
    "is_gas_block_start ?x \<Longrightarrow> 1 \<le> gate_cost pd idx \<or> is_ecall_block (pi_inst ?x) \<and> 100 \<le> gas_of s"
    by blast+
qed

end

end
