(* ===== verification/Interp_Run.thy ===== *)
theory Interp_Run
  imports Interp_Laws
begin

text \<open>
  The interpreter loop as a whole: it terminates (the gas pays for every block and a block ends), it
  never panics, it protects non-writable memory, and running out of gas is a pause from which adding
  gas resumes as if the gas had been there from the start.
\<close>

lemma resumes_mach_ok: "resumes d s t \<Longrightarrow> mach_ok minv hinv t = mach_ok minv hinv s"
  by (simp add: resumes_def mach_ok_def wf_regs_def)

lemma resumes_funded: "resumes d s t \<Longrightarrow> funded pot n s \<Longrightarrow> funded pot n t"
  using resumes_gas [of d s t] by (simp add: funded_def resumes_def)

lemma resumes_running: "resumes d s t \<Longrightarrow> running minv hinv pot pd idx s \<Longrightarrow> running minv hinv pot pd idx t"
  by (auto simp: running_def resumes_mach_ok resumes_funded)

lemma resumes_pauses: "resumes d s t \<Longrightarrow> \<not> pauses pd idx s \<Longrightarrow> \<not> pauses pd idx t"
  using resumes_gas [of d s t] by (auto simp: pauses_def)

text \<open>Every iteration decreases this measure: a block start pays at least one unit of gas, and inside a
  block the index grows.\<close>

definition loop_measure :: "predecoded \<Rightarrow> nat \<Rightarrow> ('m, 'h) machine \<Rightarrow> nat" where
  "loop_measure pd idx s = gas_of s * (length (pd_insts pd) + 2) +
     (if is_gas_block_start (pd_insts pd ! idx) then 0 else 1 + (length (pd_insts pd) - idx))"

context interpreter
begin

lemma step_ok:
  assumes "running inv hinv pot pd idx s" "\<not> pauses pd idx s" "resumes d s t"
  shows "\<exists>r s' t'. step ops handle pd code cb idx s = Returns (r, s') \<and> step ops handle pd code cb idx t = Returns (r, t') \<and>
    resumes d s' t' \<and> (\<forall>x. r = Inl x \<longrightarrow> m_regs t' = m_regs s') \<and> mach_ok inv hinv s' \<and>
    gas_of s' \<le> gas_of s \<and> (is_gas_block_start (pd_insts pd ! idx) \<longrightarrow> gas_of s' < gas_of s) \<and>
    (\<forall>i. r = Inr i \<longrightarrow> running inv hinv pot pd i s' \<and> (is_gas_block_start (pd_insts pd ! i) \<or> i = Suc idx)) \<and>
    (\<not> is_ecall_block (pi_inst (pd_insts pd ! idx)) \<longrightarrow> protects ops (m_mem s) (m_mem s'))"
proof -
  let ?x = "pd_insts pd ! idx" and ?c = "gate_cost pd idx" and ?n = "stores_left (pd_insts pd) idx"
  let ?e = "\<lambda>s. exec_inst ops handle (pd_insts pd) code cb (pi_pc ?x) (pi_next_pc ?x) (pi_inst ?x) s"
  have l: "idx < length (pd_insts pd)" using assms(1) by (simp add: running_def)
  note gs = gate_passes [OF assms(1,2)]
  note gt = gate_passes [OF resumes_running [OF assms(3,1)] resumes_pauses [OF assms(3,2)]]
  have ss: "step ops handle pd code cb idx s = bind_panic (?e (pay ?c s)) (\<lambda>r. Returns (advance (pd_insts pd) idx (pi_next_pc ?x) r))"
    using l gs(1) by (simp add: step_def Let_def)
  have st: "step ops handle pd code cb idx t = bind_panic (?e (pay ?c t)) (\<lambda>r. Returns (advance (pd_insts pd) idx (pi_next_pc ?x) r))"
    using l gt(1) by (simp add: step_def Let_def)
  have gp: "gas_of (pay ?c s) = gas_of s - ?c" by (rule gas_of_pay [OF gs(2)])
  define n where "n = (if is_ecall_block (pi_inst ?x) then 0 else ?n)"
  have ec: "is_ecall_block (pi_inst ?x) \<Longrightarrow> 100 \<le> gas_of (pay ?c s)"
    using gs(4) ecall_starts [OF l] gp by (auto simp: gate_cost_def)
  have "is_store (pi_inst ?x) \<Longrightarrow> \<not> is_ecall_block (pi_inst ?x)" by (cases "pi_inst ?x") auto
  then have "inst_ok ops inv hinv pot d (pd_insts pd) n (pi_inst ?x) (?e (pay ?c s)) (?e (pay ?c t)) (pay ?c s)"
    using assms(1,3) gs(2,3) ec stores_left_pos [OF l]
    by (intro exec_inst_ok l resumes_pay) (auto simp: n_def running_def funded_def)
  then obtain fl s' where i: "arm_ok inv hinv d (block_target (pd_insts pd)) (?e (pay ?c s)) (?e (pay ?c t)) fl s'"
    "gas_of s' \<le> gas_of (pay ?c s)" "is_ecall_block (pi_inst ?x) \<longrightarrow> gas_of s' < gas_of (pay ?c s) \<and> fl \<noteq> Next"
    "fl = Next \<longrightarrow> funded pot (n - (if is_store (pi_inst ?x) then 1 else 0)) s'"
    "\<not> is_ecall_block (pi_inst ?x) \<longrightarrow> protects ops (m_mem s) (m_mem s')" by (auto simp: inst_ok_def)
  then obtain t' where a: "?e (pay ?c s) = Returns (fl, s')" "?e (pay ?c t) = Returns (fl, t')" "resumes d s' t'" "mach_ok inv hinv s'"
    "\<forall>x. fl = Return x \<longrightarrow> m_regs t' = m_regs s'" "\<forall>i. fl = Goto i \<longrightarrow> block_target (pd_insts pd) i" by (auto simp: arm_ok_def)
  have gl: "gas_of s' \<le> gas_of s" "is_gas_block_start ?x \<longrightarrow> gas_of s' < gas_of s"
    using i(2,3) gs(2,4) gp by auto
  let ?adv = "advance (pd_insts pd) idx (pi_next_pc ?x)"
  have run: "running inv hinv pot pd (Suc idx) s'" if "fl = Next" "Suc idx < length (pd_insts pd)"
    using that i(3,4) a(4) stores_left_Suc [OF that(2)]
    by (cases "is_gas_block_start (pd_insts pd ! Suc idx)") (auto simp: running_def n_def split: if_splits)
  obtain r s2 where r: "?adv (fl, s') = (r, s2)" by fastforce
  obtain t2 where t2: "?adv (fl, t') = (r, t2)" using r by (cases fl) (auto simp: advance_def split: if_splits)
  have "resumes d s2 t2 \<and> (\<forall>x. r = Inl x \<longrightarrow> m_regs t2 = m_regs s2) \<and> mach_ok inv hinv s2 \<and> gas_of s2 = gas_of s' \<and> m_mem s2 = m_mem s' \<and>
    (\<forall>i. r = Inr i \<longrightarrow> running inv hinv pot pd i s2 \<and> (is_gas_block_start (pd_insts pd ! i) \<or> i = Suc idx))"
    using r t2 a run by (cases fl) (auto simp: advance_def resumes_pc set_pc_same block_target_def running_def split: if_splits)
  then show ?thesis using ss st a(1,2) r t2 gl i(5) by (intro exI [of _ r] exI [of _ s2] exI [of _ t2]) simp
qed

section \<open>The loop\<close>

lemma loop_induct [consumes 1, case_names pause stop more]:
  assumes "running inv hinv pot pd idx s"
    and "\<And>idx s. running inv hinv pot pd idx s \<Longrightarrow> pauses pd idx s \<Longrightarrow> P idx s"
    and "\<And>idx s x s'. running inv hinv pot pd idx s \<Longrightarrow> \<not> pauses pd idx s \<Longrightarrow>
      step ops handle pd code cb idx s = Returns (Inl x, s') \<Longrightarrow> P idx s"
    and "\<And>idx s i s'. running inv hinv pot pd idx s \<Longrightarrow> \<not> pauses pd idx s \<Longrightarrow>
      step ops handle pd code cb idx s = Returns (Inr i, s') \<Longrightarrow> running inv hinv pot pd i s' \<Longrightarrow> P i s' \<Longrightarrow> P idx s"
  shows "P idx s"
  using assms(1)
proof (induction "loop_measure pd idx s" arbitrary: idx s rule: less_induct)
  case less
  show ?case
  proof (cases "pauses pd idx s")
    case True
    then show ?thesis using assms(2) less.prems by blast
  next
    case False
    obtain r s' where st: "step ops handle pd code cb idx s = Returns (r, s')" "gas_of s' \<le> gas_of s"
      "is_gas_block_start (pd_insts pd ! idx) \<longrightarrow> gas_of s' < gas_of s"
      "\<forall>i. r = Inr i \<longrightarrow> running inv hinv pot pd i s' \<and> (is_gas_block_start (pd_insts pd ! i) \<or> i = Suc idx)"
      using step_ok [OF less.prems False resumes_refl] by blast
    show ?thesis
    proof (cases r)
      case (Inl x)
      then show ?thesis using assms(3) [OF less.prems False] st(1) by blast
    next
      case (Inr i)
      have ri: "running inv hinv pot pd i s'" using st(4) Inr by blast
      have "loop_measure pd i s' < loop_measure pd idx s"
      proof (cases "is_gas_block_start (pd_insts pd ! idx)")
        case True
        then have "Suc (gas_of s') * (length (pd_insts pd) + 2) \<le> gas_of s * (length (pd_insts pd) + 2)"
          using st(3) by (intro mult_le_mono1) simp
        moreover have "length (pd_insts pd) - i \<le> length (pd_insts pd)" by simp
        ultimately show ?thesis unfolding loop_measure_def if_P [OF True] add_mult_distrib by (cases "is_gas_block_start (pd_insts pd ! i)") auto
      next
        case False
        have "gas_of s' * (length (pd_insts pd) + 2) \<le> gas_of s * (length (pd_insts pd) + 2)" using st(2) by (intro mult_le_mono1)
        then show ?thesis using False st(4) Inr ri by (auto simp: loop_measure_def running_def)
      qed
      from less.hyps [OF this ri] show ?thesis using assms(4) [OF less.prems False] st(1) Inr ri by blast
    qed
  qed
qed

end

definition top_up :: "u64 \<Rightarrow> ('m, 'h) machine \<Rightarrow> ('m, 'h) machine" where
  "top_up d s = s\<lparr>m_gas := (m_gas s)\<lparr>remaining := remaining (m_gas s) + d\<rparr>\<rparr>"

lemma resumes_top_up: "gas_of s + unat d < 2 ^ 64 \<Longrightarrow> resumes d s (top_up d s)"
  by (simp add: resumes_def top_up_def)

lemma resumes_0_eq: "resumes 0 s t \<Longrightarrow> m_regs t = m_regs s \<Longrightarrow> t = s"
  by (cases s; cases t) (auto simp: resumes_def intro: gas_counter.equality)

lemma exec_ecall_cases:
  assumes "exec_ecall handle insts p n k b s = Returns (fl, s')"
  shows "gas_of s < 100 \<or> (\<exists>h r. m_mem s' = snd (snd (snd (handle k h r (m_mem s)))) \<and>
     (fl = Return Exit_OutOfGas \<longrightarrow> fst (handle k h r (m_mem s)) = Exit Exit_OutOfGas))"
proof (cases "gas_of s < 100")
  case False
  define s1 where "s1 = set_pc n (s\<lparr>m_gas := (m_gas s)\<lparr>remaining := remaining (m_gas s) - 100\<rparr>\<rparr>)"
  obtain res h rg m where h: "handle k (m_handler s1) (m_regs s1) (m_mem s1) = (res, h, rg, m)" by (metis prod_cases4)
  have "100 \<le> gas_of s" using False by simp
  from exec_ecall_eq [of s s1 n handle k res h rg m insts p b, OF this s1_def h] assms
  have "fl = (case res of Continue \<Rightarrow> (case find_idx_for_pc insts n of Some i \<Rightarrow> Goto i | None \<Rightarrow> Return Exit_Panic) | Exit x \<Rightarrow> Return x)"
    "m_mem s' = m" by auto
  moreover have "m_mem s1 = m_mem s" by (simp add: s1_def)
  ultimately show ?thesis using h
    by (intro disjI2 exI [of _ "m_handler s1"] exI [of _ "m_regs s1"]) (auto split: ecall_result.splits option.splits)
qed simp

lemma bind_panic_eq: "bind_panic a f = Returns y \<longleftrightarrow> (\<exists>x. a = Returns x \<and> f x = Returns y)"
  by (cases a) auto

lemma exec_inst_oog:
  "exec_inst ops handle insts code cb p n i s = Returns (Return Exit_OutOfGas, s') \<Longrightarrow> is_ecall_block i"
  by (cases i)
    (auto simp: exec_load_def exec_store_def exec_jal_def exec_jalr_def exec_branch_def jump_to_def page_fault_def Let_def bind_panic_eq
      split: if_splits option.splits bool.splits prod.splits)

context interpreter
begin

lemma run_loop_pause:
  "idx < length (pd_insts pd) \<Longrightarrow> pauses pd idx s \<Longrightarrow>
   run_loop ops handle pd code cb idx s = Some (Returns (Exit_OutOfGas, set_pc (pi_pc (pd_insts pd ! idx)) s))"
  by (subst run_loop.simps) (simp add: step_pauses)

lemma run_loop_stop:
  "step ops handle pd code cb idx s = Returns (Inl x, s') \<Longrightarrow> run_loop ops handle pd code cb idx s = Some (Returns (x, s'))"
  by (subst run_loop.simps) simp

lemma run_loop_more:
  "step ops handle pd code cb idx s = Returns (Inr i, s') \<Longrightarrow> run_loop ops handle pd code cb idx s = run_loop ops handle pd code cb i s'"
  by (subst run_loop.simps) simp

lemma run_loop_total:
  assumes "running inv hinv pot pd idx s"
  shows "\<exists>x s'. run_loop ops handle pd code cb idx s = Some (Returns (x, s')) \<and> mach_ok inv hinv s' \<and> gas_of s' \<le> gas_of s"
  using assms
proof (induction rule: loop_induct)
  case (pause idx s)
  then show ?case by (simp add: running_def run_loop_pause)
next
  case (stop idx s x s')
  then show ?case using step_ok [OF stop(1,2) resumes_refl] run_loop_stop [OF stop(3)] by auto
next
  case (more idx s i s')
  then show ?case using step_ok [OF more(1,2) resumes_refl] run_loop_more [OF more(3)] by fastforce
qed

lemma step_ecall:
  assumes "running inv hinv pot pd idx s" "\<not> pauses pd idx s" "step ops handle pd code cb idx s = Returns (r, s')"
    "is_ecall_block (pi_inst (pd_insts pd ! idx)) \<or> r = Inl Exit_OutOfGas"
  shows "\<exists>k h rg. m_mem s' = snd (snd (snd (handle k h rg (m_mem s)))) \<and>
     (r = Inl Exit_OutOfGas \<longrightarrow> fst (handle k h rg (m_mem s)) = Exit Exit_OutOfGas)"
proof -
  let ?x = "pd_insts pd ! idx" and ?c = "gate_cost pd idx"
  have l: "idx < length (pd_insts pd)" using assms(1) by (simp add: running_def)
  note g = gate_passes [OF assms(1,2)]
  obtain fl s2 where e: "exec_inst ops handle (pd_insts pd) code cb (pi_pc ?x) (pi_next_pc ?x) (pi_inst ?x) (pay ?c s) = Returns (fl, s2)"
    and a: "(r, s') = advance (pd_insts pd) idx (pi_next_pc ?x) (fl, s2)"
    using assms(3) l g(1) by (auto simp: step_def Let_def bind_panic_eq)
  have fl: "r = Inl Exit_OutOfGas \<Longrightarrow> fl = Return Exit_OutOfGas" "m_mem s' = m_mem s2"
    using a by (auto simp: advance_def split: flow.splits if_splits)
  have ec: "is_ecall_block (pi_inst ?x)" using assms(4) fl(1) exec_inst_oog e by blast
  then obtain k b where "exec_ecall handle (pd_insts pd) (pi_pc ?x) (pi_next_pc ?x) k b (pay ?c s) = Returns (fl, s2)"
    using e by (cases "pi_inst ?x") auto
  moreover have "\<not> gas_of (pay ?c s) < 100" using g(4) [OF ecall_starts [OF l ec]] ec by (auto simp: gate_cost_def)
  ultimately show ?thesis using exec_ecall_cases [of handle "pd_insts pd" "pi_pc ?x" "pi_next_pc ?x" k b "pay ?c s" fl s2] fl by auto
qed

lemma run_loop_protects:
  assumes "running inv hinv pot pd idx s" "\<And>k h r m. protects ops m (snd (snd (snd (handle k h r m))))"
  shows "\<exists>x s'. run_loop ops handle pd code cb idx s = Some (Returns (x, s')) \<and> protects ops (m_mem s) (m_mem s')"
  using assms(1)
proof (induction rule: loop_induct)
  case (pause idx s)
  then show ?case by (simp add: running_def run_loop_pause)
next
  case (stop idx s x s')
  then show ?case
    using step_ok [OF stop(1,2) resumes_refl] step_ecall [OF stop(1-3)] run_loop_stop [OF stop(3)] assms(2) by fastforce
next
  case (more idx s i s')
  have "protects ops (m_mem s) (m_mem s')"
    using step_ok [OF more(1,2) resumes_refl] step_ecall [OF more(1-3)] assms(2) more(3) by fastforce
  then show ?case using more(5) run_loop_more [OF more(3)] protects_trans by fastforce
qed

lemma resume_loop:
  assumes "running inv hinv pot pd idx s" "resumes d s t" "\<And>k h r m. fst (handle k h r m) \<noteq> Exit Exit_OutOfGas"
  shows "(\<exists>x s' t'. run_loop ops handle pd code cb idx s = Some (Returns (x, s')) \<and> run_loop ops handle pd code cb idx t = Some (Returns (x, t')) \<and>
       resumes d s' t' \<and> m_regs t' = m_regs s' \<and> x \<noteq> Exit_OutOfGas) \<or>
    (\<exists>i u v. run_loop ops handle pd code cb idx s = Some (Returns (Exit_OutOfGas, set_pc (pi_pc (pd_insts pd ! i)) u)) \<and>
       running inv hinv pot pd i u \<and> pauses pd i u \<and> resumes d u v \<and> run_loop ops handle pd code cb idx t = run_loop ops handle pd code cb i v)"
  using assms(1,2)
proof (induction arbitrary: t rule: loop_induct)
  case (pause idx s)
  then have "run_loop ops handle pd code cb idx s = Some (Returns (Exit_OutOfGas, set_pc (pi_pc (pd_insts pd ! idx)) s))"
    by (simp add: running_def run_loop_pause)
  then show ?case using pause by (intro disjI2 exI [of _ idx] exI [of _ s] exI [of _ t]) simp
next
  case (stop idx s x s')
  obtain t' where t': "step ops handle pd code cb idx t = Returns (Inl x, t')" "resumes d s' t'" "m_regs t' = m_regs s'"
    using step_ok [OF stop(1,2,4)] stop(3) by auto
  have "x \<noteq> Exit_OutOfGas" using step_ecall [OF stop(1-3)] assms(3) by blast
  then show ?case using run_loop_stop [OF stop(3)] run_loop_stop [OF t'(1)] t'
    by (intro disjI1 exI [of _ x] exI [of _ s'] exI [of _ t']) simp
next
  case (more idx s i s')
  obtain t' where t': "step ops handle pd code cb idx t = Returns (Inr i, t')" "resumes d s' t'"
    using step_ok [OF more(1,2,6)] more(3) by auto
  show ?case using more(5) [OF t'(2)] unfolding run_loop_more [OF more(3)] run_loop_more [OF t'(1)] .
qed

lemma run_loop_pc:
  assumes "running inv hinv pot pd idx s" "resumes 0 s t" "\<And>k h r m. fst (handle k h r m) \<noteq> Exit Exit_OutOfGas"
  shows "run_loop ops handle pd code cb idx t = run_loop ops handle pd code cb idx s"
  using resume_loop [OF assms]
proof (elim disjE exE conjE)
  fix i u v
  assume a: "run_loop ops handle pd code cb idx s = Some (Returns (Exit_OutOfGas, set_pc (pi_pc (pd_insts pd ! i)) u))"
    "running inv hinv pot pd i u" "pauses pd i u" "resumes 0 u v" "run_loop ops handle pd code cb idx t = run_loop ops handle pd code cb i v"
  have "pauses pd i v" using a(3,4) by (simp add: pauses_def resumes_def)
  then have "run_loop ops handle pd code cb i v = Some (Returns (Exit_OutOfGas, set_pc (pi_pc (pd_insts pd ! i)) v))"
    using a(2) by (simp add: run_loop_pause running_def)
  moreover have "set_pc (pi_pc (pd_insts pd ! i)) v = set_pc (pi_pc (pd_insts pd ! i)) u"
    by (rule resumes_0_eq [OF resumes_pc [OF a(4)] set_pc_same [OF a(4)]])
  ultimately show ?thesis using a(1,5) by simp
next
  fix x s' t'
  assume "run_loop ops handle pd code cb idx s = Some (Returns (x, s'))" "run_loop ops handle pd code cb idx t = Some (Returns (x, t'))"
    "resumes 0 s' t'" "m_regs t' = m_regs s'"
  then show ?thesis using resumes_0_eq by auto
qed

end

context interpreter
begin

lemma entry_running:
  "find_block_start (pd_insts pd) tgt = Some i \<Longrightarrow> mach_ok inv hinv s \<Longrightarrow> running inv hinv pot pd i s"
  using find_block_start_iff [OF wf_insts_pd, of tgt i] by (simp add: running_def)

lemma run_total:
  assumes "mach_ok inv hinv s"
  shows "\<exists>x s'. run ops handle pd code cb s = Some (Returns (x, s')) \<and> mach_ok inv hinv s' \<and> gas_of s' \<le> gas_of s"
proof (cases "find_block_start (pd_insts pd) (ucast (pc (m_regs s)))")
  case None
  then show ?thesis using assms by (auto simp: run_def)
next
  case (Some i)
  then show ?thesis using run_loop_total [OF entry_running [OF Some assms]] assms by (auto simp: run_def)
qed

lemma run_protects:
  assumes "mach_ok inv hinv s" "\<And>k h r m. protects ops m (snd (snd (snd (handle k h r m))))"
  shows "\<exists>x s'. run ops handle pd code cb s = Some (Returns (x, s')) \<and> protects ops (m_mem s) (m_mem s')"
proof (cases "find_block_start (pd_insts pd) (ucast (pc (m_regs s)))")
  case None
  then show ?thesis by (auto simp: run_def)
next
  case (Some i)
  then show ?thesis using run_loop_protects [OF entry_running [OF Some assms(1)] assms(2)] by (auto simp: run_def)
qed

lemma run_resume:
  assumes "mach_ok inv hinv s" "\<And>k h r m. fst (handle k h r m) \<noteq> Exit Exit_OutOfGas"
    "run ops handle pd code cb s = Some (Returns (Exit_OutOfGas, s'))" "gas_of s + unat d < 2 ^ 64"
  shows "run ops handle pd code cb (top_up d s') = run ops handle pd code cb (top_up d s)"
proof -
  obtain idx where idx: "find_block_start (pd_insts pd) (ucast (pc (m_regs s))) = Some idx" and ne: "pd_insts pd \<noteq> []"
    and rl: "run_loop ops handle pd code cb idx s = Some (Returns (Exit_OutOfGas, s'))"
    using assms(3) by (auto simp: run_def split: if_splits option.splits)
  have rs: "running inv hinv pot pd idx s" by (rule entry_running [OF idx assms(1)])
  obtain i u v where u: "s' = set_pc (pi_pc (pd_insts pd ! i)) u" "running inv hinv pot pd i u" "pauses pd i u" "resumes d u v"
    "run_loop ops handle pd code cb idx (top_up d s) = run_loop ops handle pd code cb i v"
    using resume_loop [OF rs resumes_top_up [OF assms(4)] assms(2)] rl by auto
  have start: "find_block_start (pd_insts pd) (pi_pc (pd_insts pd ! i)) = Some i"
    using u(2,3) find_block_start_iff [OF wf_insts_pd] by (simp add: running_def pauses_def)
  have "resumes 0 v (top_up d s')" using u(4) unsigned_less [of "remaining (m_gas v)", where 'a = nat]
    by (simp add: u(1) resumes_def top_up_def set_pc_def)
  from run_loop_pc [OF resumes_running [OF u(4,2)] this assms(2)]
  have "run_loop ops handle pd code cb i (top_up d s') = run_loop ops handle pd code cb i v" .
  moreover have "run ops handle pd code cb (top_up d s') = run_loop ops handle pd code cb i (top_up d s')"
    using ne start by (simp add: run_def u(1) top_up_def set_pc_def ucast_up_ucast_id is_up)
  moreover have "run ops handle pd code cb (top_up d s) = run_loop ops handle pd code cb idx (top_up d s)"
    using ne idx by (simp add: run_def top_up_def)
  ultimately show ?thesis using u(5) by simp
qed

end

lemma interpreterI:
  assumes "length code < 2 ^ 32" "program_new code cb = Some p" "ecall_contract handle wf_mem hinv"
  shows "interpreter copying_ops wf_mem (\<lambda>m. 256 * card (cold_pages m)) handle hinv (prog_predecode p) (prog_code p) DEFAULT_MEM_CYCLES"
proof -
  have "wf_predecoded (prog_code p) DEFAULT_MEM_CYCLES (prog_predecode p)"
    using assms(2) predecode_wf [OF assms(1), of DEFAULT_MEM_CYCLES] by (auto simp: program_new_def predecode_def split: option.splits)
  then show ?thesis using assms(3) cm.memory_backend_axioms by (simp add: interpreter_def interpreter_axioms_def)
qed


text \<open>The instance for the copying memory and the panicking handler, on any code that fits the 32-bit
  address space.\<close>

definition fitting :: "bytes \<Rightarrow> bytes" where
  "fitting code = take (2 ^ 32 - 1) code"

interpretation cp: interpreter copying_ops wf_mem "\<lambda>m. 256 * card (cold_pages m)" panicking_handler "\<lambda>_. True"
    "the (predecode (fitting code))" "fitting code" cb DEFAULT_MEM_CYCLES for code cb
proof
  have "length (fitting code) < 2 ^ 32" by (simp add: fitting_def min_def)
  from predecode_wf [OF this, of DEFAULT_MEM_CYCLES] show "wf_predecoded (fitting code) DEFAULT_MEM_CYCLES (the (predecode (fitting code)))"
    by (auto simp: predecode_def)
qed

section \<open>Properties of the interpreter\<close>

lemma program_new_total: "length code < 2 ^ 32 \<Longrightarrow> \<exists>p. program_new code cb = Some p"
  using predecode_wf [of code DEFAULT_MEM_CYCLES] by (auto simp: program_new_def predecode_def)

text \<open>C1: Running any code is safe and ends. For every byte string shorter than 4 GiB, every well-formed
  memory and register file, every amount of gas and every ecall handler that keeps its state well
  formed, \<open>Program::new\<close> followed by \<open>Interpreter::run\<close> returns an exit reason: the loop
  terminates, no index is out of range, and neither of the two \<open>expect\<close>s on the gas counter nor the one inside
  the first-touch charge can fail. The gas counter never grows and memory and registers stay well
  formed.\<close>

theorem run_program_safe:
  assumes "length code < 2 ^ 32" "ecall_contract handle wf_mem hinv" "mach_ok wf_mem hinv s"
  shows "\<exists>p x s'. program_new code cb = Some p \<and>
    run_program copying_ops handle p s = Some (Returns (x, s')) \<and> mach_ok wf_mem hinv s' \<and> gas_of s' \<le> gas_of s"
proof -
  obtain p where p: "program_new code cb = Some p" using program_new_total [OF assms(1)] by blast
  show ?thesis
    using interpreter.run_total [OF interpreterI [OF assms(1) p assms(2)] assms(3)] p by (auto simp: run_program_def)
qed

definition start_machine :: "u64 \<Rightarrow> (copying_memory, unit) machine" where
  "start_machine g = \<lparr>m_regs = new_regs, m_mem = with_pages 4 perm_RW, m_gas = \<lparr>remaining = g\<rparr>, m_handler = ()\<rparr>"

lemma start_machine_ok: "mach_ok wf_mem (\<lambda>_. True) (start_machine g)"
  by (simp add: start_machine_def mach_ok_def wf_with_pages wf_new_regs)

theorem run_program_safe_witness:
  "\<exists>p x s'. program_new [0x13, 0, 0, 0] 65536 = Some p \<and>
    run_program copying_ops panicking_handler p (start_machine 1000) = Some (Returns (x, s')) \<and>
    mach_ok wf_mem (\<lambda>_. True) s' \<and> gas_of s' \<le> gas_of (start_machine 1000)"
  by (rule run_program_safe [OF _ panicking.ecall_contract_axioms start_machine_ok]) simp

text \<open>C2: Memory protection. While a program runs, a byte of a page that is not writable never changes, and
  no permission changes, as long as the ecall handler does not change them either. Guest stores
  therefore reach writable pages only, at every width and also across a page boundary or around
  the end of the address space.\<close>

theorem run_program_protects:
  assumes "length code < 2 ^ 32" "program_new code cb = Some p" "ecall_contract handle wf_mem hinv" "mach_ok wf_mem hinv s"
    "\<And>k h r m. protects copying_ops m (snd (snd (snd (handle k h r m))))"
  shows "\<exists>x s'. run_program copying_ops handle p s = Some (Returns (x, s')) \<and> cm_perm_of (m_mem s') = cm_perm_of (m_mem s) \<and>
    (\<forall>a. cm_perm_of (m_mem s) a \<noteq> perm_RW \<longrightarrow> cm_read_u8 (m_mem s') a = cm_read_u8 (m_mem s) a)"
  using interpreter.run_protects [OF interpreterI [OF assms(1-3)] assms(4,5)]
  by (simp add: run_program_def protects_def copying_ops_def)

lemma panicking_protects: "protects ops m (snd (snd (snd (panicking_handler k h r m))))"
  by (simp add: panicking_handler_def)

theorem run_program_protects_witness:
  "\<exists>p x s'. program_new [0x13, 0, 0, 0] 65536 = Some p \<and>
    run_program copying_ops panicking_handler p (start_machine 1000) = Some (Returns (x, s')) \<and>
    cm_perm_of (m_mem s') = cm_perm_of (m_mem (start_machine 1000))"
proof -
  obtain p where p: "program_new [0x13, 0, 0, 0] 65536 = Some p" using program_new_total [of "[0x13, 0, 0, 0]"] by auto
  then show ?thesis
    using run_program_protects [OF _ p panicking.ecall_contract_axioms start_machine_ok [of 1000] panicking_protects] by fastforce
qed

text \<open>C3: Running out of gas is a clean pause. When a run stops with \<open>OutOfGas\<close>, adding gas to the paused
  state and running it again gives exactly the result (exit reason, registers, memory, remaining gas)
  of a run that had the additional gas from the start, for any handler that does not itself
  report \<open>OutOfGas\<close>. No work is lost or charged twice.\<close>

theorem run_program_resume:
  assumes "length code < 2 ^ 32" "program_new code cb = Some p" "ecall_contract handle wf_mem hinv" "mach_ok wf_mem hinv s"
    "\<And>k h r m. fst (handle k h r m) \<noteq> Exit Exit_OutOfGas"
    "run_program copying_ops handle p s = Some (Returns (Exit_OutOfGas, s'))" "gas_of s + unat d < 2 ^ 64"
  shows "run_program copying_ops handle p (top_up d s') = run_program copying_ops handle p (top_up d s)"
  using interpreter.run_resume [OF interpreterI [OF assms(1-3)] assms(4,5) _ assms(7)] assms(6) by (simp add: run_program_def)

text \<open>A jump target is resolved exactly. On the output of the predecoder, the binary search finds an
  instruction if and only if one starts at the given offset, and the check made for every jump,
  branch and entry accepts exactly the offsets of basic-block starts: offset 0, the instructions after a
  terminator, and the ecalls.\<close>

theorem find_idx_exact:
  assumes "length code < 2 ^ 32" "predecode code = Some pd"
  shows "(find_idx_for_pc (pd_insts pd) target = Some i \<longleftrightarrow> i < length (pd_insts pd) \<and> pi_pc (pd_insts pd ! i) = target) \<and>
    (find_block_start (pd_insts pd) target = Some i \<longleftrightarrow>
       i < length (pd_insts pd) \<and> pi_pc (pd_insts pd ! i) = target \<and> starts_block (pd_insts pd) i)"
proof -
  have wf: "wf_insts code (pd_insts pd)"
    using predecode_wf [OF assms(1), of DEFAULT_MEM_CYCLES] assms(2) by (auto simp: predecode_def wf_predecoded_def)
  then show ?thesis using find_idx_iff [OF wf] find_block_start_iff [OF wf] by (auto simp: wf_insts_def)
qed

theorem find_idx_exact_witness:
  "\<exists>pd. predecode [0x13, 0, 0, 0] = Some pd \<and>
     (find_idx_for_pc (pd_insts pd) 4 = Some 0 \<longleftrightarrow> 0 < length (pd_insts pd) \<and> pi_pc (pd_insts pd ! 0) = 4)"
proof -
  obtain pd where "predecode [0x13, 0, 0, 0] = Some pd"
    using predecode_wf [of "[0x13, 0, 0, 0]" DEFAULT_MEM_CYCLES] by (auto simp: predecode_def)
  then show ?thesis using find_idx_exact [of "[0x13, 0, 0, 0]" pd 4 0] by auto
qed

lemma pause_at_zero:
  assumes "interpreter copying_ops wf_mem pot handle hinv pd code mc" "find_block_start (pd_insts pd) (ucast (pc (m_regs s))) = Some i"
    "gas_of s = 0"
  shows "run copying_ops handle pd code cb s = Some (Returns (Exit_OutOfGas, set_pc (pi_pc (pd_insts pd ! i)) s))"
proof -
  have wf: "wf_insts code (pd_insts pd)" by (rule interpreter.wf_insts_pd [OF assms(1)])
  have i: "i < length (pd_insts pd)" "is_gas_block_start (pd_insts pd ! i)" using find_block_start_iff [OF wf] assms(2) by auto
  have "pauses pd i s" using interpreter.tables(4) [OF assms(1) i(1,2)] i(2) assms(3) by (auto simp: pauses_def gate_need_def)
  then show ?thesis using interpreter.run_loop_pause [OF assms(1) i(1)] assms(2) i(1) by (auto simp: run_def)
qed

lemma nop_program:
  assumes "program_new [0x13, 0, 0, 0] cb = Some p"
  shows "find_block_start (pd_insts (prog_predecode p)) 0 = Some 0"
proof -
  have d: "decode (drop 0 [0x13, 0, 0, 0]) = Some (AluImm Addi 0 0 0, 4)" by (simp add: decode_evals)
  have "decode_from [0x13, 0, 0, 0] 0 \<noteq> []" using decode_from_step(1) [OF _ d] by simp
  moreover have "wf_predecoded [0x13, 0, 0, 0] DEFAULT_MEM_CYCLES (prog_predecode p)"
    "pd_insts (prog_predecode p) = mark_starts (decode_from [0x13, 0, 0, 0] 0)"
    using assms predecode_wf [of "[0x13, 0, 0, 0]" DEFAULT_MEM_CYCLES] by (auto simp: program_new_def predecode_def)
  ultimately have w: "wf_insts [0x13, 0, 0, 0] (pd_insts (prog_predecode p))" "0 < length (pd_insts (prog_predecode p))"
    by (auto simp: wf_predecoded_def mark_starts_nth)
  then show ?thesis using find_block_start_iff [OF w(1)]
    by (cases "pd_insts (prog_predecode p)") (auto simp: wf_insts_def starts_block_def)
qed

theorem run_program_resume_witness:
  "\<exists>p s'. program_new [0x13, 0, 0, 0] 65536 = Some p \<and>
    run_program copying_ops panicking_handler p (start_machine 0) = Some (Returns (Exit_OutOfGas, s')) \<and>
    run_program copying_ops panicking_handler p (top_up 500 s') =
      run_program copying_ops panicking_handler p (top_up 500 (start_machine 0))"
proof -
  obtain p where p: "program_new [0x13, 0, 0, 0] 65536 = Some p" using program_new_total [of "[0x13, 0, 0, 0]"] by auto
  have "interpreter copying_ops wf_mem (\<lambda>m. 256 * card (cold_pages m)) panicking_handler (\<lambda>_. True) (prog_predecode p) (prog_code p) DEFAULT_MEM_CYCLES"
    by (rule interpreterI [OF _ p panicking.ecall_contract_axioms]) simp
  from pause_at_zero [OF this, of "start_machine 0" 0] nop_program [OF p]
  obtain s' where s': "run_program copying_ops panicking_handler p (start_machine 0) = Some (Returns (Exit_OutOfGas, s'))"
    by (auto simp: run_program_def start_machine_def new_regs_def)
  have "run_program copying_ops panicking_handler p (top_up 500 s') = run_program copying_ops panicking_handler p (top_up 500 (start_machine 0))"
    by (rule run_program_resume [OF _ p panicking.ecall_contract_axioms start_machine_ok _ s']) (simp_all add: panicking_handler_def start_machine_def)
  then show ?thesis using p s' by blast
qed

end
