(* ===== verification/Load_Store.thy ===== *)
theory Load_Store
  imports Interp_Run
begin

text \<open>
  Guest loads and stores on the copying memory: a load sees the preceding store of the same width to
  the same address.
\<close>

section \<open>Loads see stores\<close>

fun matching_load :: "store_op \<Rightarrow> load_op" where
  "matching_load Sb = Lbu" | "matching_load Sh = Lhu" | "matching_load Sw = Lwu" | "matching_load Sd = Ld"

lemma matching_width: "load_width (matching_load sop) = store_width sop"
  by (cases sop) simp_all

lemma page_index_of_perm:
  assumes "wf_mem m" "cm_perm_of m a = p" "p \<noteq> perm_NONE"
  shows "\<exists>i. page_index m (a AND NOT 4095) = Some i \<and> perms m ! i = p"
proof -
  let ?i = "off m a div PAGE_SIZE"
  have i: "?i < length (perms m)" "perms m ! ?i = p" using assms(2,3) by (auto simp: cm_perm_of_def Let_def split: if_splits)
  have "unat (a AND NOT 4095) div 4096 = unat a div 4096" unfolding page_mask_unat by simp
  then have e: "off m (a AND NOT 4095) div PAGE_SIZE = ?i"
    using off_div [OF assms(1), of a] off_div [OF assms(1), of "a AND NOT 4095"] by (simp only: PAGE_SIZE_def)
  then have "off m (a AND NOT 4095) < length (flat_mem m)"
    using i(1) assms(1) by (simp add: wf_mem_def PAGE_SIZE_def) 
  then show ?thesis using e i(2) by (simp only: page_index_def Let_def if_True) simp
qed

lemma touch_read_after_write:
  assumes "wf_mem m" "cm_perm_of m a = perm_RW" "touch m a w True g = Returns (True, m', g')"
    "wf_mem m2" "perms m2 = perms m" "page_index m2 = page_index m"
  shows "\<exists>m3. touch m2 a w False g2 = Returns (True, m3, g2) \<and> remat m2 m3"
proof -
  let ?ps = "as_slice (access_pages a w)"
  obtain i where i: "page_index m (a AND NOT 4095) = Some i" "perms m ! i = perm_RW"
    using page_index_of_perm [OF assms(1,2)] by (auto simp: perm_RW_def perm_NONE_def)
  then have n: "perms m ! i \<noteq> perm_NONE" by (simp add: perm_RW_def perm_NONE_def)
  have "touch_data m ?ps True g = Returns (True, m', g')"
    using assms(3) touch_write_eq [OF assms(1) i(1) n] by simp
  then have "\<forall>p \<in> set ?ps. accessible m True p"
    using pages_accessible_spec [OF assms(1), of ?ps True] by (auto simp: touch_data_def split: bool.splits)
  then have acc: "\<forall>p \<in> set ?ps. accessible m2 False p" using assms(5,6) by (auto simp: accessible_def)
  obtain ok m3 c where t: "\<forall>gas. c \<le> unat (remaining gas) \<longrightarrow>
       touch_data m2 ?ps False gas = Returns (ok, m3, gas\<lparr>remaining := remaining gas - of_nat c\<rparr>)" "remat m2 m3" "ok" "c = 0"
    using touch_data_spec [OF assms(4) as_slice_access(2), of a w False] acc by auto
  have "touch m2 a w False g2 = touch_data m2 ?ps False g2"
    by (rule touch_write_eq [of m2 a i]) (use i n assms(4-6) in simp_all)
  then show ?thesis using t by auto
qed
lemma remat_reads:
  assumes "remat m m'"
  shows "cm_read_u8 m' a = cm_read_u8 m a" "cm_read_u16_le m' a = cm_read_u16_le m a"
    "cm_read_u32_le m' a = cm_read_u32_le m a" "cm_read_u64_le m' a = cm_read_u64_le m a"
  using remat_same [OF assms]
  by (simp_all add: cm_read_u8_def cm_read_u16_le_def cm_read_u32_le_def cm_read_u64_le_def off_def Let_def)

lemma lo_bits:
  "ucast (ucast v :: u8) = take_bit 8 (v :: u64)" "ucast (ucast v :: u16) = take_bit 16 (v :: u64)"
  "ucast (ucast v :: u32) = take_bit 32 (v :: u64)" "take_bit 64 (v :: u64) = v"
  by (auto intro!: bit_word_eqI simp: bit_simps)

lemma touch_remat:
  assumes "wf_mem m" "touch m a w b g = Returns (ok, m', g')"
  shows "wf_mem m' \<and> remat m m'"
proof -
  let ?ps = "as_slice (access_pages a w)"
  have d: "wf_mem m' \<and> remat m m'" if "touch_data m ?ps b g = Returns (ok, m', g')"
  proof (cases "\<forall>p \<in> set ?ps. accessible m b p")
    case True
    then have "\<forall>p \<in> set ?ps. \<exists>i. page_index m p = Some i \<and> (b \<longrightarrow> perms m ! i = perm_RW)" by (auto simp: accessible_def)
    from materialize_spec [OF assms(1) this, of 0] that True
    show ?thesis by (auto simp: touch_data_def pages_accessible_spec [OF assms(1)] split: prod.splits bool.splits)
  next
    case False
    then have "pages_accessible m ?ps b = Returns False" using pages_accessible_spec [OF assms(1), of ?ps b] by auto
    then show ?thesis using that assms(1) by (simp add: touch_data_def)
  qed
  then show ?thesis using touch_cases [OF assms(1), of a w b] assms by auto
qed

lemma store_val_bytes:
  assumes "store_val sop copying_ops m a v = (True, m2)"
  shows "\<exists>bs. m2 = store_bytes m (off m a) bs \<and> off m a + length bs \<le> length (flat_mem m)"
  using assms by (cases sop) (auto simp: copying_ops_def cm_write_eq intro: exI [of _ "to_le_bytes _ _"] simp del: One_nat_def split: if_splits)

lemma page_index_store_bytes: "off m a + length bs \<le> length (flat_mem m) \<Longrightarrow> page_index (store_bytes m (off m a) bs) = page_index m"
  by (simp add: page_index_def fun_eq_iff Let_def) (simp add: store_bytes_def)

lemma load_stored_val:
  assumes "store_val sop copying_ops m a v = (True, m2)" "remat m2 m3"
  shows "load_val (matching_load sop) copying_ops m3 code cb a = Some (take_bit (8 * unat (store_width sop)) v)"
  using assms(1) remat_reads [OF assms(2), of a]
  by (cases sop) (auto simp: copying_ops_def cm_write_eq load_u8_def load_u16_def load_u32_def load_u64_def read_stored_le
      lo_bits simp del: One_nat_def split: if_splits)

text \<open>Loads see stores. When a guest store of any width succeeds, a load of that width from the same
  address, executed next, succeeds too and puts the stored value, zero-extended, into its destination
  register.\<close>

theorem load_after_store:
  assumes "wf_mem (m_mem s)" "wf_regs (m_regs s)" "exec_store copying_ops p sop rs1 rs2 imm s = Returns (Next, s')"
    "reg_slot_or_ff rd \<noteq> 0xFF"
  shows "\<exists>s''. exec_load copying_ops code cb p' (matching_load sop) rd rs1 imm s' = Returns (Next, s'') \<and>
    reg_read (m_regs s'') rd = take_bit (8 * unat (store_width sop)) (reg_read (m_regs s) rs2)"
proof -
  let ?a = "compute_addr (m_regs s) rs1 imm" and ?w = "store_width sop"
  obtain m g m2 where t: "touch (m_mem s) ?a ?w True (m_gas s) = Returns (True, m, g)"
    and w: "store_writable copying_ops m ?a ?w"
    and v: "store_val sop copying_ops m ?a (reg_read (m_regs s) rs2) = (True, m2)"
    and s': "s' = s\<lparr>m_mem := m2, m_gas := g\<rparr>"
    using assms(3) by (auto simp: exec_store_def Let_def bind_panic_eq cm_touch_ops page_fault_def split: if_splits prod.splits bool.splits)
  have m: "wf_mem m" "remat (m_mem s) m" using touch_remat [OF assms(1) t] by auto
  have m2: "wf_mem m2" "perms m2 = perms m" "page_index m2 = page_index m"
    using store_val_bytes [OF v] m(1) by (auto simp: page_index_store_bytes)
  have rw: "cm_perm_of (m_mem s) ?a = perm_RW"
    using w cm_perm_of_same(2) [OF m(2)] by (simp add: store_writable_def copying_ops_def)
  obtain m3 where m3: "touch m2 ?a ?w False g = Returns (True, m3, g)" "remat m2 m3"
    using touch_read_after_write [OF assms(1) rw t m2(1), of g] m2 remat_same(3) [OF m(2)] remat_same(6) [OF m(2)] by (auto simp: fun_eq_iff)
  have "exec_load copying_ops code cb p' (matching_load sop) rd rs1 imm s' =
      Returns (Next, put_reg rd (take_bit (8 * unat ?w) (reg_read (m_regs s) rs2)) (s'\<lparr>m_mem := m3, m_gas := g\<rparr>))"
    using m3(1) load_stored_val [OF v m3(2)] by (simp add: exec_load_def s' cm_touch_ops matching_width)
  then show ?thesis using assms(2,4) by (auto simp: put_reg_def s' rf.read_same)
qed
lemma store_succeeds:
  "\<exists>s'. exec_store copying_ops 0 Sd 0 0 16 (start_machine 1000) = Returns (Next, s')"
proof -
  have p: "as_slice (access_pages 16 8) = [0]" by (simp add: as_slice_def access_pages_def Let_def)
  have n: "unat (4 :: u32) = 4" by simp
  define m where "m = with_pages 4 perm_RW"
  have m: "page_index m 0 = Some 0" "length (perms m) = 4" "length (mat_state m) = 4" "perms m ! 0 = perm_RW" "mat_state m ! 0 = 0"
    "length (flat_mem m) = 16384" "off m 16 = 16"
    by (simp_all add: m_def with_pages_def page_index_def off_def Let_def PAGE_SIZE_def)
  define m' where "m' = m\<lparr>mat_state := (mat_state m)[0 := 2]\<rparr>"
  have t: "touch m 16 8 True \<lparr>remaining = 1000\<rparr> = Returns (True, m', \<lparr>remaining = 744\<rparr>)"
    using m by (simp add: touch_def p touch_data_def Let_def perm_RW_def perm_NONE_def perm_RO_def page_state_codes charge_for_def COW_COST_def
        charge_def checked_sub_def m'_def)
  have w: "cm_perm_of m' 16 = perm_RW" "cm_perm_of m' 23 = perm_RW"
    by (simp_all add: m'_def m_def cm_perm_of_def with_pages_def off_def PAGE_SIZE_def Let_def)
  have z: "compute_addr new_regs 0 16 = 16" by (simp add: compute_addr_def rf.read_dead reg_slot_or_ff_def classify_reg_def)
  show ?thesis using t w m(6,7) z
    by (auto simp: exec_store_def start_machine_def m_def [symmetric] cm_touch_ops store_writable_def copying_ops_def cm_touch_write_def cm_write_eq Let_def m'_def off_def)
qed

theorem load_after_store_witness:
  "\<exists>s' s''. exec_store copying_ops 0 Sd 0 0 16 (start_machine 1000) = Returns (Next, s') \<and>
    exec_load copying_ops [] 0 4 Ld 5 0 16 s' = Returns (Next, s'') \<and> reg_read (m_regs s'') 5 = 0"
proof -
  obtain s' where s': "exec_store copying_ops 0 Sd 0 0 16 (start_machine 1000) = Returns (Next, s')" using store_succeeds by blast
  have "reg_read (m_regs (start_machine 1000)) 0 = 0" by (simp add: rf.read_dead reg_slot_or_ff_def classify_reg_def)
  then show ?thesis
    using load_after_store [OF _ _ s', of 5 "[]" 0 4] s'
    by (auto simp: start_machine_def wf_with_pages wf_new_regs reg_slot_or_ff_def classify_reg_def)
qed

end
