(* ===== verification/Btree_Map.thy ===== *)
theory Btree_Map
  imports Prelude
begin

text \<open>
  \<open>BTreeMap\<close> of the Rust standard library as the list of its entries in key order, the order in which
  iteration visits them.
\<close>

type_synonym ('k, 'v) btree = "('k \<times> 'v) list"

fun bt_insert :: "'k::linorder \<Rightarrow> 'v \<Rightarrow> ('k, 'v) btree \<Rightarrow> ('k, 'v) btree" where
  "bt_insert k v [] = [(k, v)]"
| "bt_insert k v ((k', v') # xs) =
     (if k < k' then (k, v) # (k', v') # xs
      else if k = k' then (k, v) # xs
      else (k', v') # bt_insert k v xs)"

definition bt_get :: "('k, 'v) btree \<Rightarrow> 'k \<Rightarrow> 'v option" where
  "bt_get t = map_of t"

fun bt_remove :: "'k \<Rightarrow> ('k, 'v) btree \<Rightarrow> ('k, 'v) btree" where
  "bt_remove k [] = []"
| "bt_remove k ((k', v') # xs) = (if k = k' then xs else (k', v') # bt_remove k xs)"

definition wf_bt :: "('k::linorder, 'v) btree \<Rightarrow> bool" where
  "wf_bt t \<longleftrightarrow> sorted_wrt (<) (map fst t)"

lemma wf_bt_Nil [simp]: "wf_bt []"
  by (simp add: wf_bt_def)

lemma wf_bt_Cons: "wf_bt ((k, v) # t) \<longleftrightarrow> (\<forall>k' \<in> fst ` set t. k < k') \<and> wf_bt t"
  by (auto simp: wf_bt_def)

lemma keys_insert: "fst ` set (bt_insert k v t) = insert k (fst ` set t)"
  by (induction k v t rule: bt_insert.induct) auto

lemma wf_bt_insert [simp]: "wf_bt t \<Longrightarrow> wf_bt (bt_insert k v t)"
  by (induction k v t rule: bt_insert.induct) (auto simp: wf_bt_Cons keys_insert)

lemma bt_get_insert: "bt_get (bt_insert k v t) k' = (if k' = k then Some v else bt_get t k')"
  by (induction k v t rule: bt_insert.induct) (auto simp: bt_get_def)

lemma keys_remove: "wf_bt t \<Longrightarrow> fst ` set (bt_remove k t) = fst ` set t - {k}"
proof (induction k t rule: bt_remove.induct)
  case (2 k k' v' xs)
  then have "k' \<notin> fst ` set xs" by (auto simp: wf_bt_Cons)
  then show ?case using 2 by (cases "k = k'") (auto simp: wf_bt_Cons)
qed simp

lemma wf_bt_remove [simp]: "wf_bt t \<Longrightarrow> wf_bt (bt_remove k t)"
proof (induction k t rule: bt_remove.induct)
  case (2 k k' v' xs)
  then show ?case using keys_remove [of xs k] by (auto simp: wf_bt_Cons)
qed simp

lemma bt_get_remove: "wf_bt t \<Longrightarrow> bt_get (bt_remove k t) k' = (if k' = k then None else bt_get t k')"
proof (induction k t rule: bt_remove.induct)
  case (2 k k1 v1 xs)
  then have "map_of xs k1 = None" by (auto simp: wf_bt_Cons map_of_eq_None_iff)
  then show ?case using 2 by (cases "k = k1") (auto simp: bt_get_def wf_bt_Cons)
qed (simp add: bt_get_def)

lemma length_bt_insert: "length (bt_insert k v t) \<le> Suc (length t)"
  by (induction k v t rule: bt_insert.induct) auto

lemma bt_insert_last: "\<forall>k' \<in> fst ` set t. k' < k \<Longrightarrow> bt_insert k v t = t @ [(k, v)]"
  by (induction k v t rule: bt_insert.induct) (auto simp: not_less_iff_gr_or_eq)

lemma wf_bt_append: "wf_bt (xs @ ys) \<longleftrightarrow> wf_bt xs \<and> wf_bt ys \<and> (\<forall>k \<in> fst ` set xs. \<forall>k' \<in> fst ` set ys. k < k')"
  by (auto simp: wf_bt_def sorted_wrt_append)

lemma wf_bt_distinct: "wf_bt t \<Longrightarrow> distinct (map fst t)"
  by (induction t) (auto simp: wf_bt_def)

text \<open>Keys that are bytes: at most 256 entries.\<close>

lemma length_btree_u8: "wf_bt (t :: (u8, 'v) btree) \<Longrightarrow> length t \<le> 256"
proof -
  assume "wf_bt t"
  then have "length t = card (set (map fst t))" using distinct_card [OF wf_bt_distinct] by fastforce
  also have "\<dots> \<le> card (UNIV :: u8 set)" by (intro card_mono) auto
  finally show ?thesis by (simp add: card_word)
qed

text \<open>Rebuilding a map from its entries in order gives it back.\<close>

lemma fold_insert_sorted: "wf_bt (xs @ ys) \<Longrightarrow> fold (\<lambda>(k, v). bt_insert k v) ys xs = xs @ ys"
proof (induction ys arbitrary: xs)
  case (Cons y ys)
  then have "bt_insert (fst y) (snd y) xs = xs @ [y]" by (subst bt_insert_last) (auto simp: wf_bt_append)
  then show ?case using Cons by (simp add: case_prod_beta)
qed simp

end
