(* ===== verification/Program_Blob.thy ===== *)
theory Program_Blob
  imports Btree_Map Gas
begin

text \<open>
  The program blob of \<open>nub/nub-program\<close>: the address-space constants of \<open>abi.rs\<close> and the types and
  functions of \<open>blob.rs\<close>. Page numbers are \<open>u32\<close> and addresses \<open>u64\<close>, with the wrap-around of a release
  build; \<open>BTreeMap\<close> is \<open>btree\<close>.
\<close>

section \<open>Address space\<close>

definition CODE_BASE :: u32 where "CODE_BASE = 0x00400000"
definition DATA_BASE :: u32 where "DATA_BASE = 0x10000000"
definition MAX_CODE_SIZE :: u32 where "MAX_CODE_SIZE = DATA_BASE - CODE_BASE"
definition PVM_PAGE_SIZE :: u32 where "PVM_PAGE_SIZE = 4096"
definition SP_REG :: u8 where "SP_REG = 1"
definition ADDRESS_SPACE_END :: u64 where "ADDRESS_SPACE_END = 0x100000000"

section \<open>Regions\<close>

datatype region_kind = Stack | Ro | Rw | Heap

definition is_read_only :: "region_kind \<Rightarrow> bool" where
  "is_read_only k \<longleftrightarrow> k = Ro"

record region =
  rg_kind :: region_kind
  base_page :: u32
  page_count :: u32

definition region_start :: "region \<Rightarrow> u64" where
  "region_start r = ucast (base_page r) * ucast PVM_PAGE_SIZE"

definition region_size :: "region \<Rightarrow> u64" where
  "region_size r = ucast (page_count r) * ucast PVM_PAGE_SIZE"

record regions =
  stack_pages :: u32
  ro_pages :: u32
  rw_pages :: u32
  heap_pages :: u32

text \<open>The \<open>filter_map\<close> of \<open>Regions::iter\<close>, with its running \<open>next_page\<close>.\<close>

fun place_regions :: "u32 \<Rightarrow> (region_kind \<times> u32) list \<Rightarrow> region list" where
  "place_regions next_page [] = []"
| "place_regions next_page ((k, n) # ks) =
     (if n = 0 then place_regions next_page ks
      else \<lparr>rg_kind = k, base_page = next_page, page_count = n\<rparr> # place_regions (next_page + n) ks)"

definition regions_iter :: "regions \<Rightarrow> region list" where
  "regions_iter g =
     place_regions (DATA_BASE div PVM_PAGE_SIZE)
       [(Stack, stack_pages g), (Ro, ro_pages g), (Rw, rw_pages g), (Heap, heap_pages g)]"

definition regions_get :: "regions \<Rightarrow> region_kind \<Rightarrow> region option" where
  "regions_get g k = find (\<lambda>r. rg_kind r = k) (regions_iter g)"

definition stack_top :: "regions \<Rightarrow> u64" where
  "stack_top g =
     ucast (DATA_BASE div PVM_PAGE_SIZE) * ucast PVM_PAGE_SIZE + ucast (stack_pages g) * ucast PVM_PAGE_SIZE"

definition total_pages :: "regions \<Rightarrow> u32" where
  "total_pages g = stack_pages g + ro_pages g + rw_pages g + heap_pages g"

definition data_extent :: "regions \<Rightarrow> u64" where
  "data_extent g = ucast (total_pages g) * ucast PVM_PAGE_SIZE"

definition data_end :: "regions \<Rightarrow> u64" where
  "data_end g = ucast DATA_BASE + data_extent g"

section \<open>Blobs\<close>

record endpoint =
  entry_pc :: u64
  arg_registers :: u8
  arg_meta :: u8
  initial_regs :: "(u8, u64) btree"

record program_blob =
  pb_code :: bytes
  pb_regions :: regions
  ro_data :: bytes
  rw_data :: bytes
  endpoints :: "(u8, endpoint) btree"

datatype invalid_program =
    CodeTooLarge nat
  | DataOutOfRange u64
  | RegionLengthMismatch region_kind nat nat
  | NoEndpoints

definition region_length_ok :: "region_kind \<Rightarrow> bytes \<Rightarrow> u32 \<Rightarrow> invalid_program + unit" where
  "region_length_ok k d pages =
     (let expected = unat pages * unat PVM_PAGE_SIZE in
      if length d \<noteq> expected then Inl (RegionLengthMismatch k expected (length d)) else Inr ())"

definition validate :: "program_blob \<Rightarrow> invalid_program + unit" where
  "validate b =
     (if length (pb_code b) > unat MAX_CODE_SIZE then Inl (CodeTooLarge (length (pb_code b)))
      else if data_end (pb_regions b) > ADDRESS_SPACE_END then Inl (DataOutOfRange (data_end (pb_regions b)))
      else case region_length_ok Ro (ro_data b) (ro_pages (pb_regions b)) of
        Inl e \<Rightarrow> Inl e
      | Inr _ \<Rightarrow>
          (case region_length_ok Rw (rw_data b) (rw_pages (pb_regions b)) of
             Inl e \<Rightarrow> Inl e
           | Inr _ \<Rightarrow> if endpoints b = [] then Inl NoEndpoints else Inr ()))"

definition blob_new ::
    "bytes \<Rightarrow> regions \<Rightarrow> bytes \<Rightarrow> bytes \<Rightarrow> (u8, endpoint) btree \<Rightarrow> invalid_program + program_blob"
where
  "blob_new code g ro rw eps =
     (let blob = \<lparr>pb_code = code, pb_regions = g,
                  ro_data = resize ro (unat (ro_pages g) * unat PVM_PAGE_SIZE) 0,
                  rw_data = resize rw (unat (rw_pages g) * unat PVM_PAGE_SIZE) 0,
                  endpoints = eps\<rparr> in
      case validate blob of Inl e \<Rightarrow> Inl e | Inr _ \<Rightarrow> Inr blob)"

definition region_data :: "program_blob \<Rightarrow> region_kind \<Rightarrow> bytes option" where
  "region_data b k = (case k of Ro \<Rightarrow> Some (ro_data b) | Rw \<Rightarrow> Some (rw_data b) | Stack \<Rightarrow> None | Heap \<Rightarrow> None)"

text \<open>The loop of \<open>memory_image\<close>; a slice out of range panics.\<close>

fun fill_image :: "program_blob \<Rightarrow> region list \<Rightarrow> bytes \<Rightarrow> bytes may_panic" where
  "fill_image b [] img = Returns img"
| "fill_image b (r # rs) img =
     (case region_data b (rg_kind r) of
        None \<Rightarrow> fill_image b rs img
      | Some d \<Rightarrow>
          let off = unat (region_start r - ucast DATA_BASE) in
          if off + length d \<le> length img then fill_image b rs (write_slice img off d) else Panics)"

definition memory_image :: "program_blob \<Rightarrow> bytes may_panic" where
  "memory_image b =
     fill_image b (regions_iter (pb_regions b)) (replicate (unat (data_extent (pb_regions b))) 0)"

section \<open>The documented invariants\<close>

definition page_sum :: "regions \<Rightarrow> nat" where
  "page_sum g = unat (stack_pages g) + unat (ro_pages g) + unat (rw_pages g) + unat (heap_pages g)"

definition blob_inv :: "program_blob \<Rightarrow> bool" where
  "blob_inv b \<longleftrightarrow>
     length (pb_code b) \<le> unat MAX_CODE_SIZE \<and>
     unat DATA_BASE + 4096 * page_sum (pb_regions b) \<le> 2 ^ 32 \<and>
     length (ro_data b) = 4096 * unat (ro_pages (pb_regions b)) \<and>
     length (rw_data b) = 4096 * unat (rw_pages (pb_regions b)) \<and>
     endpoints b \<noteq> []"

lemma unat_total_pages: "page_sum g < 2 ^ 32 \<Longrightarrow> unat (total_pages g) = page_sum g"
  by (simp add: total_pages_def page_sum_def unat_word_ariths)

lemma unat_pages_64: "unat (ucast (n :: u32) * ucast PVM_PAGE_SIZE :: u64) = 4096 * unat n"
proof -
  have "unat n < 2 ^ 32" using unsigned_less [of n, where 'a = nat] by simp
  moreover have "unat (ucast n :: u64) = unat n" using calculation by (simp add: unsigned_ucast_eq take_bit_nat_eq_self)
  ultimately show ?thesis by (simp add: PVM_PAGE_SIZE_def unat_word_ariths)
qed

lemma unat_data_extent: "page_sum g < 2 ^ 32 \<Longrightarrow> unat (data_extent g) = 4096 * page_sum g"
  by (simp only: data_extent_def unat_pages_64 unat_total_pages)

lemma unat_data_end: "page_sum g < 2 ^ 32 \<Longrightarrow> unat (data_end g) = unat DATA_BASE + 4096 * page_sum g"
  using unat_data_extent [of g] by (simp add: data_end_def unat_word_ariths DATA_BASE_def)

lemma validate_iff:
  assumes "page_sum (pb_regions b) < 2 ^ 32"
  shows "validate b = Inr () \<longleftrightarrow> blob_inv b"
  using unat_data_end [OF assms]
  by (auto simp: validate_def blob_inv_def region_length_ok_def Let_def word_less_nat_alt word_le_nat_alt not_less
      ADDRESS_SPACE_END_def PVM_PAGE_SIZE_def)

lemma page_step:
  assumes "unat p + unat n < 2 ^ 32"
  shows "unat (p + n :: u32) = unat p + unat n"
  using assms by (simp add: unat_word_ariths)

lemma unat_data_page: "unat (DATA_BASE div PVM_PAGE_SIZE) = 65536" "unat DATA_BASE = 268435456"
  by (simp_all add: DATA_BASE_def PVM_PAGE_SIZE_def)

lemma region_offset:
  assumes "unat p = 65536 + k" "k < 2 ^ 20"
  shows "unat (region_start \<lparr>rg_kind = kd, base_page = p, page_count = n\<rparr> - ucast DATA_BASE) = 4096 * k"
proof -
  have "unat (region_start \<lparr>rg_kind = kd, base_page = p, page_count = n\<rparr>) = 268435456 + 4096 * k"
    using unat_pages_64 [of p] assms(1) by (simp add: region_start_def)
  moreover have "unat (ucast DATA_BASE :: u64) = 268435456" by (simp add: DATA_BASE_def)
  ultimately show ?thesis by (simp add: unat_sub word_le_nat_alt)
qed

section \<open>The memory image\<close>

definition region_content :: "program_blob \<Rightarrow> region_kind \<times> u32 \<Rightarrow> bytes" where
  "region_content b kn = (case region_data b (fst kn) of Some d \<Rightarrow> d | None \<Rightarrow> replicate (4096 * unat (snd kn)) 0)"

lemma write_slice_middle:
  "length ys = length bs \<Longrightarrow> write_slice (pre @ ys @ zs) (length pre) bs = pre @ bs @ zs"
  by (simp add: write_slice_def)

lemma fill_image_spec:
  assumes "\<forall>(k, n) \<in> set ks. \<forall>d. region_data b k = Some d \<longrightarrow> length d = 4096 * unat n"
    "unat p = 65536 + j" "length pre = 4096 * j" "j + (\<Sum>(k, n) \<leftarrow> ks. unat n) < 2 ^ 20"
  shows "fill_image b (place_regions p ks) (pre @ replicate (4096 * (\<Sum>(k, n) \<leftarrow> ks. unat n)) 0) =
    Returns (pre @ concat (map (region_content b) ks))"
  using assms
proof (induction ks arbitrary: p j pre)
  case (Cons kn ks)
  obtain k n where kn [simp]: "kn = (k, n)" by fastforce
  let ?S = "\<Sum>(k, n) \<leftarrow> ks. unat n"
  have rest: "j + unat n + ?S < 2 ^ 20" using Cons.prems(4) by simp
  have len: "length (region_content b (k, n)) = 4096 * unat n"
    using Cons.prems(1) by (auto simp: region_content_def split: option.split)
  have IH: "fill_image b (place_regions (p + n) ks) (pre @ region_content b (k, n) @ replicate (4096 * ?S) 0) =
      Returns (pre @ region_content b (k, n) @ concat (map (region_content b) ks))"
  proof -
    have "unat (p + n) = 65536 + (j + unat n)" using Cons.prems(2) rest by (subst page_step) simp_all
    from Cons.IH [OF _ this, of "pre @ region_content b (k, n)"] Cons.prems(1,3) rest len
    show ?thesis by (simp add: add.assoc)
  qed
  have split: "replicate (4096 * (unat n + ?S)) (0 :: u8) = replicate (4096 * unat n) 0 @ replicate (4096 * ?S) 0"
    by (simp add: distrib_left replicate_add)
  show ?case
  proof (cases "n = 0")
    case True
    then have "region_content b (k, n) = []" using len by simp
    then show ?thesis using IH True by simp
  next
    case False
    let ?r = "\<lparr>rg_kind = k, base_page = p, page_count = n\<rparr>"
    have off: "unat (region_start ?r - ucast DATA_BASE) = 4096 * j"
      by (rule region_offset [OF Cons.prems(2)]) (use rest in simp)
    show ?thesis
    proof (cases "region_data b k")
      case None
      then have "region_content b (k, n) = replicate (4096 * unat n) 0" by (simp add: region_content_def)
      then show ?thesis using IH None False split by simp
    next
      case (Some d)
      then have d: "region_content b (k, n) = d" "length d = 4096 * unat n" using len by (simp_all add: region_content_def)
      have "write_slice (pre @ replicate (4096 * unat n) 0 @ replicate (4096 * ?S) 0) (4096 * j) d = pre @ d @ replicate (4096 * ?S) 0"
        using write_slice_middle [of "replicate (4096 * unat n) 0" d pre] d(2) Cons.prems(3) by simp
      then show ?thesis using IH Some False split off d Cons.prems(3) by simp
    qed
  qed
qed simp

lemma memory_image_eq:
  assumes "blob_inv b"
  shows "memory_image b = Returns (replicate (4096 * unat (stack_pages (pb_regions b))) 0 @ ro_data b @ rw_data b @
    replicate (4096 * unat (heap_pages (pb_regions b))) 0)"
proof -
  let ?g = "pb_regions b"
  let ?ks = "[(Stack, stack_pages ?g), (Ro, ro_pages ?g), (Rw, rw_pages ?g), (Heap, heap_pages ?g)]"
  have small: "page_sum ?g < 2 ^ 20" using assms unat_data_page(2) by (simp add: blob_inv_def)
  have sum: "(\<Sum>(k, n) \<leftarrow> ?ks. unat n) = page_sum ?g" by (simp add: page_sum_def)
  have "fill_image b (place_regions (DATA_BASE div PVM_PAGE_SIZE) ?ks) ([] @ replicate (4096 * (\<Sum>(k, n) \<leftarrow> ?ks. unat n)) 0) =
      Returns ([] @ concat (map (region_content b) ?ks))"
    by (rule fill_image_spec [where j = 0]) (use assms small sum unat_data_page(1) in \<open>auto simp: region_data_def blob_inv_def\<close>)
  moreover have "unat (data_extent ?g) = 4096 * page_sum ?g" using small by (intro unat_data_extent) simp
  ultimately show ?thesis
    by (simp add: memory_image_def regions_iter_def page_sum_def region_content_def region_data_def add.assoc)
qed

text \<open>The memory image a runtime maps at \<open>DATA_BASE\<close> is the zeroed stack, the read-only bytes, the
  read-write bytes and the zeroed heap, one after the other, and building it never panics, for every
  blob that satisfies the documented invariants.\<close>

theorem memory_image_layout:
  assumes "blob_inv b"
  shows "memory_image b = Returns (replicate (4096 * unat (stack_pages (pb_regions b))) 0 @ ro_data b @ rw_data b @
    replicate (4096 * unat (heap_pages (pb_regions b))) 0)"
  using assms by (rule memory_image_eq)

definition tiny_endpoint :: endpoint where
  "tiny_endpoint = \<lparr>entry_pc = 0, arg_registers = 0, arg_meta = 0, initial_regs = [(1, 0x10001000)]\<rparr>"

definition tiny_blob :: program_blob where
  "tiny_blob = \<lparr>pb_code = [0x13, 0, 0, 0], pb_regions = \<lparr>stack_pages = 1, ro_pages = 1, rw_pages = 0, heap_pages = 1\<rparr>,
     ro_data = 7 # replicate 4095 0, rw_data = [], endpoints = [(0, tiny_endpoint)]\<rparr>"

lemma tiny_blob_inv: "blob_inv tiny_blob"
  by (simp add: blob_inv_def tiny_blob_def page_sum_def MAX_CODE_SIZE_def DATA_BASE_def CODE_BASE_def)

theorem memory_image_layout_witness:
  "memory_image tiny_blob = Returns (replicate 4096 0 @ (7 # replicate 4095 0) @ [] @ replicate 4096 0)"
  using memory_image_layout [OF tiny_blob_inv] by (simp add: tiny_blob_def)

text \<open>C34: \<open>validate\<close> accepts exactly the blobs with the invariants its documentation lists (code below the
  data base, data inside the 4 GiB space, region buffers of whole pages, an endpoint), provided the
  page counts do not overflow their 32-bit sum.\<close>

theorem validate_exact:
  assumes "page_sum (pb_regions b) < 2 ^ 32"
  shows "validate b = Inr () \<longleftrightarrow> blob_inv b"
  by (rule validate_iff [OF assms])

theorem validate_exact_witness: "validate tiny_blob = Inr () \<and> blob_inv tiny_blob"
  using validate_exact [of tiny_blob] tiny_blob_inv by (simp add: tiny_blob_def page_sum_def)

text \<open>The 32-bit page sum wraps: a blob whose regions exceed the address space validates, and building its
  image panics.\<close>

definition wrapping_blob :: program_blob where
  "wrapping_blob = \<lparr>pb_code = [], pb_regions = \<lparr>stack_pages = 0xFFFFFFFF, ro_pages = 1, rw_pages = 0, heap_pages = 0\<rparr>,
     ro_data = replicate 4096 0, rw_data = [], endpoints = [(0, tiny_endpoint)]\<rparr>"

lemma validate_wraps: "validate wrapping_blob = Inr () \<and> \<not> blob_inv wrapping_blob \<and> memory_image wrapping_blob = Panics"
  by (simp add: wrapping_blob_def validate_def blob_inv_def page_sum_def memory_image_def regions_iter_def region_data_def
      data_end_def data_extent_def total_pages_def region_length_ok_def region_start_def
      MAX_CODE_SIZE_def DATA_BASE_def CODE_BASE_def PVM_PAGE_SIZE_def ADDRESS_SPACE_END_def)

end
