(* ===== verification/Codec.thy ===== *)
theory Codec
  imports Program_Blob
begin

text \<open>
  The binary format of program blobs, \<open>nub/nub-program/src/codec.rs\<close>. The cursor \<open>Reader\<close> over a buffer is
  a function from the buffer and a position to an error or a value with the new position;
  \<open>rd_bind\<close> sequences reads as \<open>?\<close> does. \<open>usize\<close> is 64 bits wide.
\<close>

section \<open>Format\<close>

definition MAGIC :: bytes where "MAGIC = [0x4E, 0x55, 0x42, 0x50]"
definition VERSION :: u16 where "VERSION = 1"

datatype decode_error =
    BadMagic
  | UnsupportedVersion u16
  | ReservedFlags u16
  | Truncated nat nat
  | DuplicateEndpoint u8
  | RegionOverflow u32 nat
  | TrailingBytes nat
  | Invalid invalid_program

text \<open>The length without trailing zeros.\<close>

definition trimmed_len :: "bytes \<Rightarrow> nat" where
  "trimmed_len d = length (dropWhile (\<lambda>b. b = 0) (rev d))"

section \<open>Reader\<close>

type_synonym 'a reader = "bytes \<Rightarrow> nat \<Rightarrow> decode_error + 'a \<times> nat"

definition rd_return :: "'a \<Rightarrow> 'a reader" where
  "rd_return x buf pos = Inr (x, pos)"

definition rd_fail :: "decode_error \<Rightarrow> 'a reader" where
  "rd_fail e buf pos = Inl e"

definition rd_bind :: "'a reader \<Rightarrow> ('a \<Rightarrow> 'b reader) \<Rightarrow> 'b reader" where
  "rd_bind r f buf pos = (case r buf pos of Inl e \<Rightarrow> Inl e | Inr (x, pos) \<Rightarrow> f x buf pos)"

definition rd_take :: "nat \<Rightarrow> bytes reader" where
  "rd_take n buf pos =
     (let e = pos + n in
      if e \<ge> 2 ^ 64 then Inl (Truncated (2 ^ 64 - 1) (length buf))
      else if e > length buf then Inl (Truncated e (length buf))
      else Inr (take n (drop pos buf), e))"

definition rd_u8 :: "u8 reader" where
  "rd_u8 = rd_bind (rd_take 1) (\<lambda>bs. rd_return (bs ! 0))"

definition rd_u16 :: "u16 reader" where
  "rd_u16 = rd_bind (rd_take 2) (\<lambda>bs. rd_return (from_le_bytes bs))"

definition rd_u32 :: "u32 reader" where
  "rd_u32 = rd_bind (rd_take 4) (\<lambda>bs. rd_return (from_le_bytes bs))"

definition rd_u64 :: "u64 reader" where
  "rd_u64 = rd_bind (rd_take 8) (\<lambda>bs. rd_return (from_le_bytes bs))"

section \<open>Encoding\<close>

definition put_reg_entry :: "u8 \<times> u64 \<Rightarrow> bytes" where
  "put_reg_entry e = (case e of (idx, v) \<Rightarrow> idx # replicate 7 0 @ to_le_bytes 8 v)"

definition put_endpoint :: "u8 \<times> endpoint \<Rightarrow> bytes" where
  "put_endpoint e =
     (case e of (key, ep) \<Rightarrow>
        [key, arg_registers ep, arg_meta ep, of_nat (length (initial_regs ep))] @
        to_le_bytes 8 (entry_pc ep) @ concat (map put_reg_entry (initial_regs ep)))"

definition to_bytes :: "program_blob \<Rightarrow> bytes" where
  "to_bytes b =
     (let g = pb_regions b;
          ro_len = trimmed_len (ro_data b);
          rw_len = trimmed_len (rw_data b) in
      MAGIC @ to_le_bytes 2 VERSION @ to_le_bytes 2 (0 :: u16) @
      to_le_bytes 4 (stack_pages g) @ to_le_bytes 4 (ro_pages g) @
      to_le_bytes 4 (rw_pages g) @ to_le_bytes 4 (heap_pages g) @
      to_le_bytes 4 (of_nat (length (pb_code b)) :: u32) @ to_le_bytes 4 (of_nat ro_len :: u32) @
      to_le_bytes 4 (of_nat rw_len :: u32) @ to_le_bytes 4 (of_nat (length (endpoints b)) :: u32) @
      concat (map put_endpoint (endpoints b)) @
      pb_code b @ take ro_len (ro_data b) @ take rw_len (rw_data b))"

section \<open>Decoding\<close>

text \<open>The register loop and the endpoint loop of \<open>from_bytes\<close>, with the map built so far.\<close>

fun rd_regs :: "nat \<Rightarrow> (u8, u64) btree \<Rightarrow> (u8, u64) btree reader" where
  "rd_regs 0 rs = rd_return rs"
| "rd_regs (Suc n) rs =
     rd_bind rd_u8 (\<lambda>idx. rd_bind (rd_take 7) (\<lambda>_. rd_bind rd_u64 (\<lambda>v. rd_regs n (bt_insert idx v rs))))"

fun rd_endpoints :: "nat \<Rightarrow> (u8, endpoint) btree \<Rightarrow> (u8, endpoint) btree reader" where
  "rd_endpoints 0 eps = rd_return eps"
| "rd_endpoints (Suc n) eps =
     rd_bind rd_u8 (\<lambda>key. rd_bind rd_u8 (\<lambda>ar. rd_bind rd_u8 (\<lambda>am. rd_bind rd_u8 (\<lambda>reg_count.
       rd_bind rd_u64 (\<lambda>epc. rd_bind (rd_regs (unat reg_count) []) (\<lambda>rs.
         if bt_get eps key \<noteq> None then rd_fail (DuplicateEndpoint key)
         else rd_endpoints n
           (bt_insert key \<lparr>entry_pc = epc, arg_registers = ar, arg_meta = am, initial_regs = rs\<rparr> eps)))))))"

definition read_region :: "u32 \<Rightarrow> u32 \<Rightarrow> bytes reader" where
  "read_region len pages =
     (let capacity = unat pages * unat PVM_PAGE_SIZE in
      if unat len > capacity then rd_fail (RegionOverflow len capacity)
      else rd_bind (rd_take (unat len)) (\<lambda>d. rd_return (resize d capacity 0)))"

definition rd_header :: "unit reader" where
  "rd_header =
     rd_bind (rd_take 4) (\<lambda>mg.
       if mg \<noteq> MAGIC then rd_fail BadMagic
       else rd_bind rd_u16 (\<lambda>ver.
         if ver \<noteq> VERSION then rd_fail (UnsupportedVersion ver)
         else rd_bind rd_u16 (\<lambda>flags.
           if flags \<noteq> 0 then rd_fail (ReservedFlags flags) else rd_return ())))"

definition rd_blob :: "program_blob reader" where
  "rd_blob =
     rd_bind rd_header (\<lambda>_.
     rd_bind rd_u32 (\<lambda>sp. rd_bind rd_u32 (\<lambda>rop. rd_bind rd_u32 (\<lambda>rwp. rd_bind rd_u32 (\<lambda>hp.
     rd_bind rd_u32 (\<lambda>code_len. rd_bind rd_u32 (\<lambda>ro_len. rd_bind rd_u32 (\<lambda>rw_len. rd_bind rd_u32 (\<lambda>count.
     rd_bind (rd_endpoints (unat count) []) (\<lambda>eps.
     rd_bind (rd_take (unat code_len)) (\<lambda>code.
     rd_bind (read_region ro_len rop) (\<lambda>ro.
     rd_bind (read_region rw_len rwp) (\<lambda>rw.
     rd_return \<lparr>pb_code = code,
       pb_regions = \<lparr>stack_pages = sp, ro_pages = rop, rw_pages = rwp, heap_pages = hp\<rparr>,
       ro_data = ro, rw_data = rw, endpoints = eps\<rparr>)))))))))))))"

definition from_bytes :: "bytes \<Rightarrow> decode_error + program_blob" where
  "from_bytes bs =
     (case rd_blob bs 0 of
        Inl e \<Rightarrow> Inl e
      | Inr (blob, pos) \<Rightarrow>
          if pos \<noteq> length bs then Inl (TrailingBytes (length bs - pos))
          else case validate blob of Inl e \<Rightarrow> Inl (Invalid e) | Inr _ \<Rightarrow> Inr blob)"

section \<open>Reading back what was written\<close>

text \<open>\<open>r\<close> reads the encoding \<open>enc\<close>, wherever it stands in a buffer, as \<open>x\<close> and stops right after it.\<close>

definition reads :: "'a reader \<Rightarrow> 'a \<Rightarrow> bytes \<Rightarrow> bool" where
  "reads r x enc \<longleftrightarrow> (\<forall>pre rest. length (pre @ enc @ rest) < 2 ^ 64 \<longrightarrow>
     r (pre @ enc @ rest) (length pre) = Inr (x, length pre + length enc))"

lemma readsD:
  "reads r x enc \<Longrightarrow> length (pre @ enc @ rest) < 2 ^ 64 \<Longrightarrow> r (pre @ enc @ rest) (length pre) = Inr (x, length pre + length enc)"
  by (simp add: reads_def)

lemma reads_return: "reads (rd_return x) x []"
  by (simp add: reads_def rd_return_def)

lemma reads_bind:
  assumes "reads r x e1" "reads (f x) y e2"
  shows "reads (rd_bind r f) y (e1 @ e2)"
  unfolding reads_def
proof (intro allI impI)
  fix pre rest assume l: "length (pre @ (e1 @ e2) @ rest) < (2 :: nat) ^ 64"
  have "r (pre @ e1 @ (e2 @ rest)) (length pre) = Inr (x, length pre + length e1)"
    by (rule readsD [OF assms(1)]) (use l in simp)
  moreover have "f x ((pre @ e1) @ e2 @ rest) (length (pre @ e1)) = Inr (y, length (pre @ e1) + length e2)"
    by (rule readsD [OF assms(2)]) (use l in simp)
  ultimately show "rd_bind r f (pre @ (e1 @ e2) @ rest) (length pre) = Inr (y, length pre + length (e1 @ e2))"
    by (simp add: rd_bind_def)
qed

lemma reads_take: "n = length bs \<Longrightarrow> reads (rd_take n) bs bs"
  by (simp add: reads_def rd_take_def Let_def)

lemma reads_map: "reads r x enc \<Longrightarrow> reads (rd_bind r (\<lambda>y. rd_return (f y))) (f x) enc"
  using reads_bind [of r x enc "\<lambda>y. rd_return (f y)" "f x" "[]"] by (simp add: reads_return)

lemma reads_u8: "reads rd_u8 b [b]"
  using reads_map [OF reads_take [of 1 "[b]"], of "\<lambda>bs. bs ! 0"] by (simp add: rd_u8_def)

lemma reads_u16: "reads rd_u16 w (to_le_bytes 2 w)"
  using reads_map [OF reads_take [of 2 "to_le_bytes 2 w"], of "from_le_bytes :: bytes \<Rightarrow> u16"] by (simp add: rd_u16_def from_to_le_bytes)

lemma reads_u32: "reads rd_u32 w (to_le_bytes 4 w)"
  using reads_map [OF reads_take [of 4 "to_le_bytes 4 w"], of "from_le_bytes :: bytes \<Rightarrow> u32"] by (simp add: rd_u32_def from_to_le_bytes)

lemma reads_u64: "reads rd_u64 w (to_le_bytes 8 w)"
  using reads_map [OF reads_take [of 8 "to_le_bytes 8 w"], of "from_le_bytes :: bytes \<Rightarrow> u64"] by (simp add: rd_u64_def from_to_le_bytes)

lemma reads_Cons: "reads r x [b] \<Longrightarrow> reads (f x) y e2 \<Longrightarrow> reads (rd_bind r f) y (b # e2)"
  using reads_bind [of r x "[b]" f y e2] by simp

lemma reads_regs:
  "wf_bt (done @ rs) \<Longrightarrow> reads (rd_regs (length rs) done) (done @ rs) (concat (map put_reg_entry rs))"
proof (induction rs arbitrary: "done")
  case (Cons e rs)
  obtain idx v where e: "e = (idx, v)" by fastforce
  have "bt_insert idx v done = done @ [(idx, v)]" using Cons.prems by (intro bt_insert_last) (auto simp: e wf_bt_append)
  then have "reads (rd_regs (length rs) (bt_insert idx v done)) (done @ e # rs) (concat (map put_reg_entry rs))"
    using Cons.IH [of "done @ [e]"] Cons.prems by (simp add: e)
  then have "reads (rd_regs (length (e # rs)) done) (done @ e # rs) ([idx] @ replicate 7 0 @ to_le_bytes 8 v @ concat (map put_reg_entry rs))"
    unfolding list.size rd_regs.simps add_Suc_right add_0_right
    by (intro reads_bind [OF reads_u8] reads_bind [OF reads_take] reads_bind [OF reads_u64]) simp_all
  then show ?case by (simp add: put_reg_entry_def [of "(idx, v)"] e)
qed (simp add: reads_return)

lemma reads_endpoints:
  assumes "wf_bt (done @ eps)" "\<forall>(k, ep) \<in> set eps. wf_bt (initial_regs ep) \<and> length (initial_regs ep) < 256"
  shows "reads (rd_endpoints (length eps) done) (done @ eps) (concat (map put_endpoint eps))"
  using assms
proof (induction eps arbitrary: "done")
  case (Cons e eps)
  obtain k ep where e: "e = (k, ep)" by fastforce
  have ep: "\<lparr>entry_pc = entry_pc ep, arg_registers = arg_registers ep, arg_meta = arg_meta ep, initial_regs = initial_regs ep\<rparr> = ep" by simp
  have ins: "bt_insert k ep done = done @ [(k, ep)]" using Cons.prems by (intro bt_insert_last) (auto simp: e wf_bt_append)
  have new: "bt_get done k = None" using Cons.prems(1) by (auto simp: e bt_get_def wf_bt_append map_of_eq_None_iff)
  have rest: "reads (rd_endpoints (length eps) (done @ [(k, ep)])) (done @ e # eps) (concat (map put_endpoint eps))"
    using Cons.IH [of "done @ [e]"] Cons.prems by (simp add: e)
  have n: "unat (of_nat (length (initial_regs ep)) :: u8) = length (initial_regs ep)"
    using Cons.prems(2) by (simp add: e unsigned_of_nat take_bit_nat_eq_self)
  have rg: "reads (rd_regs (unat (of_nat (length (initial_regs ep)) :: u8)) []) (initial_regs ep) (concat (map put_reg_entry (initial_regs ep)))"
    unfolding n using reads_regs [of "[]" "initial_regs ep"] Cons.prems(2) by (simp add: e)
  have "reads (rd_endpoints (length (e # eps)) done) (done @ e # eps)
     ([k] @ [arg_registers ep] @ [arg_meta ep] @ [of_nat (length (initial_regs ep))] @ to_le_bytes 8 (entry_pc ep) @
      concat (map put_reg_entry (initial_regs ep)) @ concat (map put_endpoint eps))"
    unfolding list.size rd_endpoints.simps add_Suc_right add_0_right
    by (intro reads_bind [OF reads_u8] reads_bind [OF reads_u64] reads_bind [OF rg]) (use new ins rest in \<open>simp add: ep\<close>)
  then show ?case by (simp add: put_endpoint_def [of "(k, ep)"] e)
qed (simp add: reads_return)

lemma trimmed_len_le: "trimmed_len d \<le> length d"
  unfolding trimmed_len_def using length_dropWhile_le [of _ "rev d"] by simp

lemma resize_trimmed: "resize (take (trimmed_len d) d) (length d) 0 = d"
proof -
  define z where "z = takeWhile (\<lambda>b. b = 0) (rev d)"
  define y where "y = dropWhile (\<lambda>b. b = 0) (rev d)"
  have "rev d = z @ y" by (simp add: z_def y_def)
  then have d: "d = rev y @ rev z" by (metis rev_append rev_rev_ident)
  have "replicate (length z) 0 = z" by (rule replicate_length_same) (auto simp: z_def dest: set_takeWhileD)
  then have "rev z = replicate (length z) 0" by (metis rev_replicate)
  moreover have "trimmed_len d = length y" by (simp add: trimmed_len_def y_def)
  ultimately show ?thesis by (simp add: resize_def d)
qed

lemma reads_region:
  assumes "length d = 4096 * unat pages" "trimmed_len d < 2 ^ 32"
  shows "reads (read_region (of_nat (trimmed_len d)) pages) d (take (trimmed_len d) d)"
proof -
  have n: "unat (of_nat (trimmed_len d) :: u32) = trimmed_len d" using assms(2) by (simp add: unsigned_of_nat take_bit_nat_eq_self)
  have c: "unat pages * unat PVM_PAGE_SIZE = length d" using assms(1) by (simp add: PVM_PAGE_SIZE_def)
  have "reads (rd_bind (rd_take (trimmed_len d)) (\<lambda>x. rd_return (resize x (length d) 0))) (resize (take (trimmed_len d) d) (length d) 0) (take (trimmed_len d) d)"
    by (intro reads_map reads_take) (simp add: trimmed_len_le)
  then show ?thesis unfolding read_region_def Let_def n c resize_trimmed using trimmed_len_le [of d] by simp
qed

section \<open>Encodable programs\<close>

text \<open>
  The blobs the format can carry: valid ones whose two levels of maps are ordered maps, with at most 255
  initial registers an endpoint, since their number is written in one byte.
\<close>

definition encodable :: "program_blob \<Rightarrow> bool" where
  "encodable b \<longleftrightarrow> blob_inv b \<and> wf_bt (endpoints b) \<and>
     (\<forall>(k, ep) \<in> set (endpoints b). wf_bt (initial_regs ep) \<and> length (initial_regs ep) < 256)"

lemma length_put_reg_entry [simp]: "length (put_reg_entry e) = 16"
  by (simp add: put_reg_entry_def split: prod.split)

lemma length_put_endpoint: "length (put_endpoint e) = 12 + 16 * length (initial_regs (snd e))"
  by (simp add: put_endpoint_def length_concat comp_def sum_list_triv split: prod.split)

lemma sum_list_le: "(\<And>x. x \<in> set xs \<Longrightarrow> f x \<le> (c :: nat)) \<Longrightarrow> sum_list (map f xs) \<le> length xs * c"
proof (induction xs)
  case (Cons x xs)
  have "f x \<le> c" "sum_list (map f xs) \<le> length xs * c" using Cons by simp_all
  then show ?case by simp
qed simp

lemma encodable_bounds:
  assumes "encodable b"
  shows "length (pb_code b) < 2 ^ 32" "trimmed_len (ro_data b) < 2 ^ 32" "trimmed_len (rw_data b) < 2 ^ 32"
    "length (endpoints b) \<le> 256" "length (to_bytes b) < 2 ^ 40"
proof -
  let ?g = "pb_regions b"
  have i: "blob_inv b" and w: "wf_bt (endpoints b)" using assms by (simp_all add: encodable_def)
  have mx: "unat MAX_CODE_SIZE < 2 ^ 32" "0 < unat DATA_BASE" by (simp_all add: MAX_CODE_SIZE_def DATA_BASE_def CODE_BASE_def)
  then show c: "length (pb_code b) < 2 ^ 32" using i by (simp add: blob_inv_def)
  have "length (ro_data b) < 2 ^ 32" "length (rw_data b) < 2 ^ 32" using i mx by (auto simp: blob_inv_def page_sum_def)
  then show r: "trimmed_len (ro_data b) < 2 ^ 32" "trimmed_len (rw_data b) < 2 ^ 32"
    using trimmed_len_le [of "ro_data b"] trimmed_len_le [of "rw_data b"] by linarith+
  show e: "length (endpoints b) \<le> 256" by (rule length_btree_u8 [OF w])
  have "sum_list (map (\<lambda>e. length (put_endpoint e)) (endpoints b)) \<le> length (endpoints b) * 5000"
    using assms by (intro sum_list_le) (auto simp: length_put_endpoint encodable_def)
  then have "length (concat (map put_endpoint (endpoints b))) \<le> 256 * 5000"
    using e by (simp add: length_concat comp_def)
  then show "length (to_bytes b) < 2 ^ 40" using c r by (simp add: to_bytes_def Let_def MAGIC_def min_def)
qed

lemma reads_unless: "\<not> c \<Longrightarrow> reads r x enc \<Longrightarrow> reads (if c then rd_fail e else r) x enc"
  by simp

lemma reads_header: "reads rd_header () (MAGIC @ to_le_bytes 2 VERSION @ to_le_bytes 2 (0 :: u16))"
proof -
  have "reads rd_header () (MAGIC @ to_le_bytes 2 VERSION @ to_le_bytes 2 (0 :: u16) @ [])"
    unfolding rd_header_def
    by (intro reads_bind [OF reads_take] reads_bind [OF reads_u16] reads_unless) (simp_all add: MAGIC_def reads_return)
  then show ?thesis by simp
qed

lemma reads_blob:
  assumes "encodable b"
  shows "reads rd_blob b (to_bytes b)"
proof -
  let ?g = "pb_regions b"
  note bd = encodable_bounds [OF assms]
  have i: "blob_inv b" and w: "wf_bt (endpoints b)"
    and r: "\<forall>(k, ep) \<in> set (endpoints b). wf_bt (initial_regs ep) \<and> length (initial_regs ep) < 256"
    using assms by (simp_all add: encodable_def)
  have n: "unat (of_nat (length (pb_code b)) :: u32) = length (pb_code b)"
    "unat (of_nat (length (endpoints b)) :: u32) = length (endpoints b)"
    using bd by (simp_all add: unsigned_of_nat take_bit_nat_eq_self)
  have eps: "reads (rd_endpoints (unat (of_nat (length (endpoints b)) :: u32)) []) (endpoints b) (concat (map put_endpoint (endpoints b)))"
    unfolding n using reads_endpoints [of "[]" "endpoints b"] w r by simp
  have ro: "reads (read_region (of_nat (trimmed_len (ro_data b))) (ro_pages ?g)) (ro_data b) (take (trimmed_len (ro_data b)) (ro_data b))"
    and rw: "reads (read_region (of_nat (trimmed_len (rw_data b))) (rw_pages ?g)) (rw_data b) (take (trimmed_len (rw_data b)) (rw_data b))"
    using i bd by (auto intro!: reads_region simp: blob_inv_def)
  have code: "reads (rd_take (unat (of_nat (length (pb_code b)) :: u32))) (pb_code b) (pb_code b)" unfolding n by (simp add: reads_take)
  have "reads rd_blob b ((MAGIC @ to_le_bytes 2 VERSION @ to_le_bytes 2 (0 :: u16)) @
      to_le_bytes 4 (stack_pages ?g) @ to_le_bytes 4 (ro_pages ?g) @ to_le_bytes 4 (rw_pages ?g) @ to_le_bytes 4 (heap_pages ?g) @
      to_le_bytes 4 (of_nat (length (pb_code b)) :: u32) @ to_le_bytes 4 (of_nat (trimmed_len (ro_data b)) :: u32) @
      to_le_bytes 4 (of_nat (trimmed_len (rw_data b)) :: u32) @ to_le_bytes 4 (of_nat (length (endpoints b)) :: u32) @
      concat (map put_endpoint (endpoints b)) @ pb_code b @ take (trimmed_len (ro_data b)) (ro_data b) @
      take (trimmed_len (rw_data b)) (rw_data b) @ [])"
    unfolding rd_blob_def
    by (intro reads_bind [OF reads_header] reads_bind [OF reads_u32] reads_bind [OF eps] reads_bind [OF code]
        reads_bind [OF ro] reads_bind [OF rw]) (simp add: reads_def rd_return_def)
  then show ?thesis by (simp add: to_bytes_def Let_def)
qed

lemma rd_blob_to_bytes:
  assumes "encodable b" "length s < 2 ^ 63"
  shows "rd_blob (to_bytes b @ s) 0 = Inr (b, length (to_bytes b))"
  using readsD [OF reads_blob [OF assms(1)], of "[]" s] encodable_bounds(5) [OF assms(1)] assms(2) by simp

lemma validate_encodable: "encodable b \<Longrightarrow> validate b = Inr ()"
proof -
  assume e: "encodable b"
  then have "page_sum (pb_regions b) < 2 ^ 32" by (simp add: encodable_def blob_inv_def DATA_BASE_def)
  then show ?thesis using e by (simp add: validate_iff encodable_def)
qed

section \<open>Decoding reads every byte once\<close>

text \<open>
  \<open>lawful r\<close>: \<open>r\<close> stays inside the buffer, and bytes after what it has read change neither its result nor, truncation
  apart, its error.
\<close>

definition lawful :: "'a reader \<Rightarrow> bool" where
  "lawful r \<longleftrightarrow> (\<forall>buf pos s. pos \<le> length buf \<longrightarrow> length (buf @ s) < 2 ^ 63 \<longrightarrow>
     (case r buf pos of
        Inr (x, q) \<Rightarrow> pos \<le> q \<and> q \<le> length buf \<and> r (buf @ s) pos = Inr (x, q)
      | Inl e \<Rightarrow> (\<exists>n. e = Truncated n (length buf)) \<or> r (buf @ s) pos = Inl e))"

lemma lawful_cases:
  assumes "lawful r" "pos \<le> length buf" "length (buf @ s) < 2 ^ 63"
  obtains x q where "r buf pos = Inr (x, q)" "pos \<le> q" "q \<le> length buf" "r (buf @ s) pos = Inr (x, q)"
    | n where "r buf pos = Inl (Truncated n (length buf))"
    | e where "r buf pos = Inl e" "r (buf @ s) pos = Inl e"
proof (cases "r buf pos")
  case (Inl e)
  have "(\<exists>n. e = Truncated n (length buf)) \<or> r (buf @ s) pos = Inl e"
    using assms(1) [unfolded lawful_def, rule_format, OF assms(2,3)] Inl by simp
  then show thesis using that(2,3) Inl by blast
next
  case (Inr xq)
  obtain x q where xq: "xq = (x, q)" by fastforce
  have "pos \<le> q \<and> q \<le> length buf \<and> r (buf @ s) pos = Inr (x, q)"
    using assms(1) [unfolded lawful_def, rule_format, OF assms(2,3)] Inr by (simp add: xq)
  then show thesis using that(1) Inr xq by blast
qed

lemma lawful_return: "lawful (rd_return x)"
  by (simp add: lawful_def rd_return_def)

lemma lawful_fail: "lawful (rd_fail e)"
  by (simp add: lawful_def rd_fail_def)

lemma lawful_take: "lawful (rd_take n)"
  by (auto simp: lawful_def rd_take_def Let_def)

lemma lawful_bind:
  assumes r: "lawful r" and f: "\<And>x. lawful (f x)"
  shows "lawful (rd_bind r f)"
  unfolding lawful_def
proof (intro allI impI)
  fix buf pos s assume l: "pos \<le> length (buf :: bytes)" "length (buf @ s) < (2 :: nat) ^ 63"
  show "case rd_bind r f buf pos of
        Inr (x, q) \<Rightarrow> pos \<le> q \<and> q \<le> length buf \<and> rd_bind r f (buf @ s) pos = Inr (x, q)
      | Inl e \<Rightarrow> (\<exists>n. e = Truncated n (length buf)) \<or> rd_bind r f (buf @ s) pos = Inl e"
  proof (rule lawful_cases [OF r l])
    fix x q assume q: "r buf pos = Inr (x, q)" "pos \<le> q" "q \<le> length buf" "r (buf @ s) pos = Inr (x, q)"
    show ?thesis by (rule lawful_cases [OF f [of x] q(3) l(2)]) (use q in \<open>auto simp: rd_bind_def\<close>)
  qed (simp_all add: rd_bind_def)
qed

lemma lawful_if: "lawful r \<Longrightarrow> lawful r' \<Longrightarrow> lawful (if c then r else r')"
  by simp

lemmas lawful_intros = lawful_return lawful_fail lawful_take lawful_bind lawful_if

lemma lawful_ints: "lawful rd_u8" "lawful rd_u16" "lawful rd_u32" "lawful rd_u64"
  unfolding rd_u8_def rd_u16_def rd_u32_def rd_u64_def by (intro lawful_intros)+

lemma lawful_regs: "lawful (rd_regs n rs)"
  by (induction n arbitrary: rs) (auto intro!: lawful_intros lawful_ints)

lemma lawful_endpoints: "lawful (rd_endpoints n eps)"
proof (induction n arbitrary: eps)
  case (Suc n)
  show ?case unfolding rd_endpoints.simps by (intro lawful_intros lawful_ints lawful_regs Suc)
qed (simp add: lawful_return)

lemma lawful_blob: "lawful rd_blob"
  unfolding rd_blob_def rd_header_def read_region_def Let_def
  by (intro lawful_intros lawful_ints lawful_endpoints)

section \<open>What the decoder accepts\<close>

lemma rd_bind_InrE:
  assumes "rd_bind r f buf pos = Inr (y, q)"
  obtains x p where "r buf pos = Inr (x, p)" "f x buf p = Inr (y, q)"
  using assms by (auto simp: rd_bind_def split: sum.splits)

lemma rd_regs_result:
  "rd_regs n rs buf pos = Inr (rs', q) \<Longrightarrow> wf_bt rs \<Longrightarrow> wf_bt rs' \<and> length rs' \<le> length rs + n"
proof (induction n arbitrary: rs pos)
  case (Suc n)
  obtain idx v p where "rd_regs n (bt_insert idx v rs) buf p = Inr (rs', q)"
    using Suc.prems(1) by (auto elim!: rd_bind_InrE)
  then have "wf_bt rs' \<and> length rs' \<le> length (bt_insert idx v rs) + n" using Suc.IH Suc.prems(2) by simp
  then show ?case using length_bt_insert [of idx v rs] by linarith
qed (simp add: rd_return_def)

lemma set_bt_insert: "set (bt_insert k v t) \<subseteq> insert (k, v) (set t)"
  by (induction k v t rule: bt_insert.induct) auto

lemma rd_endpoints_result:
  "rd_endpoints n eps buf pos = Inr (eps', q) \<Longrightarrow> wf_bt eps \<Longrightarrow>
     (\<forall>(k, ep) \<in> set eps. wf_bt (initial_regs ep) \<and> length (initial_regs ep) < 256) \<Longrightarrow>
     wf_bt eps' \<and> (\<forall>(k, ep) \<in> set eps'. wf_bt (initial_regs ep) \<and> length (initial_regs ep) < 256)"
proof (induction n arbitrary: eps pos)
  case (Suc n)
  obtain k ar am and rc :: u8 and epc rs p p' where rg: "rd_regs (unat rc) [] buf p = Inr (rs, p')"
    and rec: "rd_endpoints n (bt_insert k \<lparr>entry_pc = epc, arg_registers = ar, arg_meta = am, initial_regs = rs\<rparr> eps) buf p' = Inr (eps', q)"
    using Suc.prems(1) by (auto elim!: rd_bind_InrE split: if_splits simp: rd_fail_def)
  have "wf_bt rs" "length rs < 256"
    using rd_regs_result [OF rg] unsigned_less [where ?'a = nat, of rc] by simp_all
  then have "\<forall>(k, ep) \<in> set (bt_insert k \<lparr>entry_pc = epc, arg_registers = ar, arg_meta = am, initial_regs = rs\<rparr> eps).
      wf_bt (initial_regs ep) \<and> length (initial_regs ep) < 256"
    using Suc.prems(3) by (auto dest!: set_bt_insert [THEN subsetD])
  then show ?case by (intro Suc.IH [OF rec]) (simp_all add: Suc.prems(2))
qed (simp add: rd_return_def)

lemma rd_blob_result:
  assumes "rd_blob buf 0 = Inr (b, q)"
  shows "wf_bt (endpoints b) \<and> (\<forall>(k, ep) \<in> set (endpoints b). wf_bt (initial_regs ep) \<and> length (initial_regs ep) < 256)"
proof -
  obtain n p p' eps where "rd_endpoints n [] buf p = Inr (eps, p')" "endpoints b = eps"
    using assms unfolding rd_blob_def by (auto elim!: rd_bind_InrE simp: rd_return_def)
  then show ?thesis using rd_endpoints_result [of n "[]"] by simp
qed

lemma from_bytes_InrE:
  assumes "from_bytes bs = Inr b"
  shows "rd_blob bs 0 = Inr (b, length bs)" "validate b = Inr ()"
  using assms by (auto simp: from_bytes_def split: sum.splits if_splits)

lemma from_bytes_encodable:
  assumes "from_bytes bs = Inr b" "page_sum (pb_regions b) < 2 ^ 32"
  shows "encodable b"
  using from_bytes_InrE [OF assms(1)] rd_blob_result validate_iff [OF assms(2)] by (simp add: encodable_def)

lemma from_bytes_to_bytes_encodable: "encodable b \<Longrightarrow> from_bytes (to_bytes b) = Inr b"
  using rd_blob_to_bytes [of b "[]"] by (simp add: from_bytes_def validate_encodable)

lemma from_bytes_prefix:
  assumes e: "encodable b" and p: "to_bytes b = p @ s" "s \<noteq> []"
  shows "\<exists>n. from_bytes p = Inl (Truncated n (length p))"
proof -
  have l: "length (p @ s) < 2 ^ 63" using encodable_bounds(5) [OF e] by (simp add: p)
  have full: "rd_blob (p @ s) 0 = Inr (b, length (p @ s))" using rd_blob_to_bytes [OF e, of "[]"] by (simp add: p)
  show ?thesis
    by (rule lawful_cases [OF lawful_blob le0 l]) (use full p(2) in \<open>auto simp: from_bytes_def\<close>)
qed

lemma tiny_encodable: "encodable tiny_blob"
  using tiny_blob_inv by (simp add: encodable_def tiny_blob_def tiny_endpoint_def wf_bt_def)

text \<open>C4: Encoding a program and decoding it again gives it back, for every valid blob whose endpoints carry
  fewer than 256 initial registers each.
\<close>

theorem codec_roundtrip: "encodable b \<Longrightarrow> from_bytes (to_bytes b) = Inr b"
  by (rule from_bytes_to_bytes_encodable)

theorem codec_roundtrip_witness: "from_bytes (to_bytes tiny_blob) = Inr tiny_blob"
  by (rule codec_roundtrip [OF tiny_encodable])

text \<open>What \<open>from_bytes\<close> accepts, the page counts summing within 32 bits, is a valid program with ordered
  maps, and it survives another round of encoding and decoding.
\<close>

theorem from_bytes_sound:
  assumes "from_bytes bs = Inr b" "page_sum (pb_regions b) < 2 ^ 32"
  shows "blob_inv b \<and> wf_bt (endpoints b) \<and> from_bytes (to_bytes b) = Inr b"
  using from_bytes_encodable [OF assms] from_bytes_to_bytes_encodable by (simp add: encodable_def)

theorem from_bytes_sound_witness: "blob_inv tiny_blob \<and> wf_bt (endpoints tiny_blob) \<and> from_bytes (to_bytes tiny_blob) = Inr tiny_blob"
  by (rule from_bytes_sound [OF from_bytes_to_bytes_encodable [OF tiny_encodable]]) (simp add: tiny_blob_def page_sum_def)

text \<open>The format is self-delimiting: an encoding followed by further bytes is refused with their number,
  and every strict prefix of an encoding is refused as truncated.
\<close>

theorem codec_framing:
  assumes "encodable b"
  shows "(s \<noteq> [] \<and> length s < 2 ^ 63 \<longrightarrow> from_bytes (to_bytes b @ s) = Inl (TrailingBytes (length s))) \<and>
    (\<forall>p s'. to_bytes b = p @ s' \<and> s' \<noteq> [] \<longrightarrow> (\<exists>n. from_bytes p = Inl (Truncated n (length p))))"
proof (intro conjI impI allI)
  assume s: "s \<noteq> [] \<and> length s < 2 ^ 63"
  then show "from_bytes (to_bytes b @ s) = Inl (TrailingBytes (length s))"
    using rd_blob_to_bytes [OF assms, of s] by (simp add: from_bytes_def)
qed (blast intro: from_bytes_prefix [OF assms])

theorem codec_framing_witness:
  "from_bytes (to_bytes tiny_blob @ [1]) = Inl (TrailingBytes 1) \<and> (\<exists>n. from_bytes [] = Inl (Truncated n 0))"
proof -
  have "to_bytes tiny_blob = [] @ to_bytes tiny_blob" "to_bytes tiny_blob \<noteq> []" by (simp_all add: to_bytes_def MAGIC_def Let_def)
  then have "\<exists>n. from_bytes [] = Inl (Truncated n (length ([] :: bytes)))"
    using codec_framing [OF tiny_encodable, of "[]"] by blast
  then show ?thesis using codec_framing [OF tiny_encodable, of "[1]"] by simp
qed

end
