(* ===== verification/X86_Abi.thy ===== *)
theory X86_Abi
  imports Prelude
begin

text \<open>
  Constants that the guest kernel, its host and the local backend share: the length of the result area
  (\<open>nub-arch-x86-abi\<close>), the exit codes of the recompiled code (\<open>nub-recompiler-x86/src/codegen.rs\<close>) and the
  exit record of one run (\<open>nub-arch-x86/src/jit_run.rs\<close>).
\<close>

type_synonym i64 = "64 word"
  \<comment> \<open>an i64 is the same 64 bits, compared with \<open><s\<close>\<close>

definition SCRATCHPAD_HEAD_LEN :: nat where "SCRATCHPAD_HEAD_LEN = 128"

definition EXIT_HALT :: u32 where "EXIT_HALT = 0"
definition EXIT_OOG :: u32 where "EXIT_OOG = 2"
definition EXIT_HOST_CALL :: u32 where "EXIT_HOST_CALL = 4"
definition EXIT_ECALL :: u32 where "EXIT_ECALL = 6"
definition EXIT_TRAP :: u32 where "EXIT_TRAP = 7"

record exit_info =
  xi_reason :: u32
  xi_arg :: u32
  xi_gas :: i64
  xi_regs :: "u64 list"
  xi_pc :: u32

end
