(* ===== verification/Arch_Local.thy ===== *)
theory Arch_Local
  imports Load_Store Codec X86_Abi
begin

text \<open>
  The in-process backend \<open>nub/nub-arch-local\<close>: \<open>ProgramInstance\<close> and \<open>run_program\<close> of
  \<open>lib.rs\<close>, the lowering of a blob by \<open>PreparedProgram\<close> and \<open>run_blob\<close> of \<open>program.rs\<close>,
  with \<open>InvocationResult\<close> of \<open>nub-arch-x86-abi\<close>. A borrowed slice is a list; an operation that calls
  the predecoder or the interpreter returns \<open>None\<close> where their loops would not end.
\<close>

section \<open>Data\<close>

record invocation_result =
  res_exit_reason :: u32
  exit_arg :: u32
  return_value :: u64
  gas_remaining :: u64
  scratchpad_head :: bytes

record ro_overlay =
  ov_start :: u32
  image_off :: nat
  ov_len :: nat

record program_spec =
  sp_code_base :: u32
  sp_code :: bytes
  sp_data_base :: u32
  sp_mem_image :: bytes
  sp_ro_overlays :: "ro_overlay list"
  sp_declared_mem_size :: u32
  sp_regs :: regs

record program_instance =
  in_mem :: copying_memory
  in_predecode :: predecoded
  in_code :: bytes
  in_code_base :: u32
  in_data_base :: u32
  in_regs :: regs

section \<open>Instances\<close>

definition page_round_up_u64 :: "u64 \<Rightarrow> u64" where
  "page_round_up_u64 n = of_nat (div_ceil (unat n) PAGE_SIZE) * of_nat PAGE_SIZE"

text \<open>\<open>Result::expect\<close> after \<open>map_region\<close>.\<close>

definition expect_mapped :: "(map_error + copying_memory) may_panic \<Rightarrow> copying_memory may_panic" where
  "expect_mapped r = bind_panic r (\<lambda>x. case x of Inl _ \<Rightarrow> Panics | Inr m \<Rightarrow> Returns m)"

definition overlay :: "copying_memory \<Rightarrow> u32 \<Rightarrow> bytes \<Rightarrow> access \<Rightarrow> copying_memory may_panic" where
  "overlay m start d acc =
     (if d = [] then Returns m
      else expect_mapped (cm_map_region m (ucast start) (page_round_up_u64 (of_nat (length d))) acc (Some d)))"

text \<open>The loop over the overlays; the slice of the image panics when it is out of range.\<close>

fun lay_overlays :: "bytes \<Rightarrow> ro_overlay list \<Rightarrow> copying_memory \<Rightarrow> copying_memory may_panic" where
  "lay_overlays img [] m = Returns m"
| "lay_overlays img (ov # os) m =
     (if image_off ov + ov_len ov \<le> length img
      then bind_panic (overlay m (ov_start ov) (take (ov_len ov) (drop (image_off ov) img)) ReadOnly)
             (lay_overlays img os)
      else Panics)"

definition instance_mem :: "program_spec \<Rightarrow> copying_memory may_panic" where
  "instance_mem sp =
     (let m = cm_new\<lparr>m_base := sp_data_base sp\<rparr> in
      bind_panic
        (if sp_mem_image sp \<noteq> []
         then expect_mapped (cm_map_region m (ucast (sp_data_base sp)) (of_nat (length (sp_mem_image sp)))
                ReadWrite (Some (sp_mem_image sp)))
         else Returns m)
        (\<lambda>m. bind_panic (lay_overlays (sp_mem_image sp) (sp_ro_overlays sp) m)
          (\<lambda>m. Returns (set_code_region m (sp_code_base sp) (of_nat (length (sp_code sp)))))))"

definition instance_new :: "program_spec \<Rightarrow> program_instance may_panic option" where
  "instance_new sp =
     (case instance_mem sp of
        Panics \<Rightarrow> Some Panics
      | Returns m \<Rightarrow>
          let mem_cycles = mem_cycles_for (accessible_pages (sp_declared_mem_size sp) (sp_data_base sp)) in
          (case predecode_rv_with_mem_cycles (sp_code sp) mem_cycles of
             None \<Rightarrow> None
           | Some pd \<Rightarrow>
               Some (Returns \<lparr>in_mem = m, in_predecode = pd, in_code = sp_code sp,
                 in_code_base = sp_code_base sp, in_data_base = sp_data_base sp, in_regs = sp_regs sp\<rparr>)))"

fun exit_code :: "exit_reason \<Rightarrow> u32 \<times> u32" where
  "exit_code Exit_Halt = (0, 0)"
| "exit_code Exit_Panic = (1, 0)"
| "exit_code Exit_OutOfGas = (2, 0)"
| "exit_code (Exit_PageFault addr) = (3, addr)"
| "exit_code (Exit_HostCall imm) = (4, imm)"
| "exit_code Exit_Ecall = (6, 0)"
| "exit_code Exit_Trap = (7, 0)"

definition read_scratchpad :: "copying_memory \<Rightarrow> u32 \<Rightarrow> bytes" where
  "read_scratchpad m data_base =
     map (\<lambda>i. case cm_read_u8 m (data_base + of_nat i) of Some b \<Rightarrow> b | None \<Rightarrow> 0) [0..<SCRATCHPAD_HEAD_LEN]"

definition instance_invoke ::
    "(copying_memory, 'h) handler \<Rightarrow> program_instance \<Rightarrow> 'h \<Rightarrow> u64 \<Rightarrow>
     (invocation_result \<times> program_instance \<times> 'h) may_panic option"
where
  "instance_invoke handle ins h initial_gas =
     (case run copying_ops handle (in_predecode ins) (in_code ins) (in_code_base ins)
         \<lparr>m_regs = in_regs ins, m_mem = in_mem ins, m_gas = gas_new initial_gas, m_handler = h\<rparr> of
        None \<Rightarrow> None
      | Some Panics \<Rightarrow> Some Panics
      | Some (Returns (x, s)) \<Rightarrow>
          let (reason, arg) = exit_code x in
          Some (Returns
            (\<lparr>res_exit_reason = reason, exit_arg = arg, return_value = gpr (m_regs s) ! 7,
              gas_remaining = remaining (m_gas s), scratchpad_head = read_scratchpad (m_mem s) (in_data_base ins)\<rparr>,
             ins\<lparr>in_mem := m_mem s\<rparr>, m_handler s)))"

definition set_entry_pc :: "u64 \<Rightarrow> program_instance \<Rightarrow> program_instance" where
  "set_entry_pc entry ins = ins\<lparr>in_regs := (in_regs ins)\<lparr>pc := entry\<rparr>\<rparr>"

definition run_spec ::
    "(copying_memory, 'h) handler \<Rightarrow> program_spec \<Rightarrow> 'h \<Rightarrow> u64 \<Rightarrow> (invocation_result \<times> 'h) may_panic option"
where
  "run_spec handle sp h initial_gas =
     (case instance_new sp of
        None \<Rightarrow> None
      | Some Panics \<Rightarrow> Some Panics
      | Some (Returns ins) \<Rightarrow>
          map_option (\<lambda>r. bind_panic r (\<lambda>(res, _, h). Returns (res, h))) (instance_invoke handle ins h initial_gas))"

definition exiting_handler :: "('m, unit) handler" where
  "exiting_handler k h r m =
     (Exit (case k of Kind_Ecalli imm \<Rightarrow> Exit_HostCall imm | Kind_Ecall \<Rightarrow> Exit_Ecall), h, r, m)"

section \<open>Lowering a blob\<close>

datatype prepare_error = NoSuchEndpoint u8

record prepared_program =
  pp_code :: bytes
  pp_mem_image :: bytes
  pp_ro_overlays :: "ro_overlay list"
  pp_declared_mem_size :: u32
  pp_regs :: regs

definition overlay_of :: "region \<Rightarrow> ro_overlay" where
  "overlay_of r =
     \<lparr>ov_start = ucast (region_start r), image_off = unat (region_start r - ucast DATA_BASE),
      ov_len = unat (region_size r)\<rparr>"

definition set_gpr :: "nat \<Rightarrow> u64 \<Rightarrow> regs \<Rightarrow> regs" where
  "set_gpr i v r = (if i < length (gpr r) then r\<lparr>gpr := (gpr r)[i := v]\<rparr> else r)"

text \<open>The entry registers: the endpoint's initial registers, then the arguments \<open>[u64; 4]\<close> in slots 7 to 10.\<close>

definition entry_regs :: "endpoint \<Rightarrow> u64 list \<Rightarrow> regs" where
  "entry_regs ep args =
     fold (\<lambda>(i, v). set_gpr (7 + i) v) (enumerate 0 args)
       (fold (\<lambda>(idx, v). set_gpr (unat idx) v) (initial_regs ep) (new_regs\<lparr>pc := entry_pc ep\<rparr>))"

definition prepared_new :: "program_blob \<Rightarrow> u8 \<Rightarrow> u64 list \<Rightarrow> (prepare_error + prepared_program) may_panic" where
  "prepared_new b ep_idx args =
     (case bt_get (endpoints b) ep_idx of
        None \<Rightarrow> Returns (Inl (NoSuchEndpoint ep_idx))
      | Some ep \<Rightarrow>
          bind_panic (memory_image b) (\<lambda>img.
            Returns (Inr
              \<lparr>pp_code = pb_code b, pp_mem_image = img,
               pp_ro_overlays = map overlay_of (filter (is_read_only \<circ> rg_kind) (regions_iter (pb_regions b))),
               pp_declared_mem_size = DATA_BASE + ucast (data_extent (pb_regions b)),
               pp_regs = entry_regs ep args\<rparr>)))"

definition prepared_spec :: "prepared_program \<Rightarrow> program_spec" where
  "prepared_spec p =
     \<lparr>sp_code_base = CODE_BASE, sp_code = pp_code p, sp_data_base = DATA_BASE, sp_mem_image = pp_mem_image p,
      sp_ro_overlays = pp_ro_overlays p, sp_declared_mem_size = pp_declared_mem_size p, sp_regs = pp_regs p\<rparr>"

definition prepared_entry_pc :: "prepared_program \<Rightarrow> u64" where
  "prepared_entry_pc p = pc (pp_regs p)"

definition run_blob ::
    "program_blob \<Rightarrow> u8 \<Rightarrow> u64 list \<Rightarrow> u64 \<Rightarrow> (prepare_error + invocation_result) may_panic option"
where
  "run_blob b ep_idx args initial_gas =
     (case prepared_new b ep_idx args of
        Panics \<Rightarrow> Some Panics
      | Returns (Inl e) \<Rightarrow> Some (Returns (Inl e))
      | Returns (Inr p) \<Rightarrow>
          map_option (\<lambda>r. bind_panic r (\<lambda>(res, _). Returns (Inr res)))
            (run_spec exiting_handler (prepared_spec p) () initial_gas))"

section \<open>The address space of an instance\<close>

lemma page_round_up_multiple: "4096 * k < 2 ^ 63 \<Longrightarrow> unat (page_round_up_u64 (of_nat (4096 * k))) = 4096 * k"
proof -
  assume k: "4096 * k < 2 ^ 63"
  then have "unat (of_nat (4096 * k) :: u64) = k * 4096" by (subst unsigned_of_nat) (simp add: take_bit_nat_eq_self)
  then have "page_round_up_u64 (of_nat (4096 * k)) = of_nat k * of_nat 4096"
    using div_ceil_multiple [of 4096 k] by (simp only: page_round_up_u64_def PAGE_SIZE_def)
  also have "\<dots> = of_nat (k * 4096)" by (simp only: of_nat_mult)
  finally show ?thesis using k by (simp only: unsigned_of_nat) (simp add: take_bit_nat_eq_self)
qed

text \<open>Mapping whole pages of initial bytes into a well-formed memory that starts at the same base.\<close>

lemma map_whole_pages:
  assumes "wf_mem m" "unat start = unat (m_base m) + 4096 * a" "unat sz = 4096 * k" "length bs = 4096 * k" "a + k < 2 ^ 40"
  shows "\<exists>m'. cm_map_region m start sz acc (Some bs) = Returns (Inr m') \<and> wf_mem m' \<and> m_base m' = m_base m \<and>
    length (perms m') = max (length (perms m)) (a + k) \<and>
    (\<forall>i < length (flat_mem m'). flat_mem m' ! i = (if 4096 * a \<le> i \<and> i < 4096 * (a + k) then bs ! (i - 4096 * a)
       else if i < length (flat_mem m) then flat_mem m ! i else 0)) \<and>
    (\<forall>p < length (perms m'). perms m' ! p = (if a \<le> p \<and> p < a + k then access_perm acc
       else if p < length (perms m) then perms m ! p else perm_NONE))"
proof -
  have al: "unat start mod PAGE_SIZE = 0" "unat sz mod PAGE_SIZE = 0" "ucast (m_base m) \<le> start"
    using assms(1-3) by (auto simp: wf_mem_def PAGE_SIZE_def ucast_u32_le mod_eq_0_iff_dvd)
  have s: "unat start - unat (m_base m) = 4096 * a" using assms(2) by simp
  obtain m' where m': "cm_map_region m start sz acc (Some bs) = Returns (Inr m')" "wf_mem m'" "m_base m' = m_base m"
    "length (flat_mem m') = max (length (flat_mem m)) (4096 * a + 4096 * k)"
    "\<forall>i < length (flat_mem m'). flat_mem m' ! i = (if 4096 * a \<le> i \<and> i < 4096 * a + min (length bs) (4096 * k) then bs ! (i - 4096 * a)
       else if i < length (flat_mem m) then flat_mem m ! i else 0)"
    "\<forall>p < length (perms m'). perms m' ! p = (if 4096 * a \<le> PAGE_SIZE * p \<and> PAGE_SIZE * p < 4096 * a + 4096 * k then access_perm acc
       else if p < length (perms m) then perms m ! p else perm_NONE)"
    using map_region_spec [OF assms(1) al, of acc "Some bs"] assms(3,5) unfolding s by (auto simp: assms(3))
  have "length (perms m') = max (length (perms m)) (a + k)" using m'(2,4) assms(1) by (auto simp: wf_mem_def PAGE_SIZE_def)
  moreover have "4096 * a \<le> PAGE_SIZE * p \<and> PAGE_SIZE * p < 4096 * a + 4096 * k \<longleftrightarrow> a \<le> p \<and> p < a + k" for p
    by (auto simp: PAGE_SIZE_def)
  moreover have "4096 * a + min (length bs) (4096 * k) = 4096 * (a + k)" using assms(4) by simp
  ultimately show ?thesis using m' by auto
qed

text \<open>The pages of a program's data: stack, read-only, read-write and heap, in this order.\<close>

definition blob_perms :: "program_blob \<Rightarrow> u8 list" where
  "blob_perms b = replicate (unat (stack_pages (pb_regions b))) perm_RW @ replicate (unat (ro_pages (pb_regions b))) perm_RO @
     replicate (unat (rw_pages (pb_regions b)) + unat (heap_pages (pb_regions b))) perm_RW"

definition blob_image :: "program_blob \<Rightarrow> bytes" where
  "blob_image b = replicate (4096 * unat (stack_pages (pb_regions b))) 0 @ ro_data b @ rw_data b @
     replicate (4096 * unat (heap_pages (pb_regions b))) 0"

lemma length_blob_image: "blob_inv b \<Longrightarrow> length (blob_image b) = 4096 * page_sum (pb_regions b)"
  by (simp add: blob_image_def blob_inv_def page_sum_def)

lemma page_sum_small: "blob_inv b \<Longrightarrow> page_sum (pb_regions b) < 2 ^ 20"
  using unat_data_page(2) by (simp add: blob_inv_def)

text \<open>The overlay of the read-only region.\<close>

lemma ro_overlays_eq:
  assumes "blob_inv b"
  shows "map overlay_of (filter (is_read_only \<circ> rg_kind) (regions_iter (pb_regions b))) =
    (if ro_pages (pb_regions b) = 0 then []
     else [\<lparr>ov_start = DATA_BASE + of_nat (4096 * unat (stack_pages (pb_regions b))), image_off = 4096 * unat (stack_pages (pb_regions b)),
            ov_len = 4096 * unat (ro_pages (pb_regions b))\<rparr>])"
proof -
  let ?g = "pb_regions b"
  define p where "p = DATA_BASE div PVM_PAGE_SIZE + stack_pages ?g"
  have small: "unat (stack_pages ?g) < 2 ^ 20" using page_sum_small [OF assms] by (simp add: page_sum_def)
  then have p: "unat p = 65536 + unat (stack_pages ?g)" unfolding p_def using unat_data_page by (subst page_step) simp_all
  have f: "filter (is_read_only \<circ> rg_kind) (regions_iter ?g) = (if ro_pages ?g = 0 then [] else [\<lparr>rg_kind = Ro, base_page = p, page_count = ro_pages ?g\<rparr>])"
    by (simp add: regions_iter_def is_read_only_def p_def)
  have s: "unat (region_start \<lparr>rg_kind = Ro, base_page = p, page_count = ro_pages ?g\<rparr>) = 268435456 + 4096 * unat (stack_pages ?g)"
    using unat_pages_64 [of p] p by (simp add: region_start_def)
  have "ucast (region_start \<lparr>rg_kind = Ro, base_page = p, page_count = ro_pages ?g\<rparr>) =
      DATA_BASE + of_nat (4096 * unat (stack_pages ?g))"
    using arg_cong [OF s, of "of_nat :: nat \<Rightarrow> u32"] by (simp add: DATA_BASE_def)
  moreover have "unat (region_size \<lparr>rg_kind = Ro, base_page = p, page_count = ro_pages ?g\<rparr>) = 4096 * unat (ro_pages ?g)"
    using unat_pages_64 [of "ro_pages ?g"] by (simp add: region_size_def)
  moreover note region_offset [OF p small, of Ro "ro_pages ?g"]
  ultimately show ?thesis by (simp add: f overlay_of_def)
qed

lemma base_mapped:
  assumes "blob_inv b" "m = cm_new\<lparr>m_base := DATA_BASE\<rparr>"
  shows "\<exists>m'. (if blob_image b \<noteq> []
      then expect_mapped (cm_map_region m (ucast DATA_BASE) (of_nat (length (blob_image b))) ReadWrite (Some (blob_image b)))
      else Returns m) = Returns m' \<and> wf_mem m' \<and> m_base m' = DATA_BASE \<and> flat_mem m' = blob_image b \<and>
    perms m' = replicate (page_sum (pb_regions b)) perm_RW"
proof -
  let ?n = "page_sum (pb_regions b)"
  have wf: "wf_mem m" "m_base m = DATA_BASE" "flat_mem m = []" "perms m = []"
    by (simp_all add: assms(2) wf_mem_def cm_new_def PAGE_SIZE_def DATA_BASE_def)
  have small: "?n < 2 ^ 20" by (rule page_sum_small [OF assms(1)])
  have len: "length (blob_image b) = 4096 * ?n" by (rule length_blob_image [OF assms(1)])
  have sz: "unat (of_nat (length (blob_image b)) :: u64) = 4096 * ?n" unfolding len unsigned_of_nat using small by (simp add: take_bit_nat_eq_self)
  have st: "unat (ucast DATA_BASE :: u64) = unat (m_base m) + 4096 * 0" by (simp add: wf(2) DATA_BASE_def)
  obtain m' where m': "cm_map_region m (ucast DATA_BASE) (of_nat (length (blob_image b))) ReadWrite (Some (blob_image b)) = Returns (Inr m')"
    "wf_mem m'" "m_base m' = m_base m" "length (perms m') = ?n"
    "\<forall>i < length (flat_mem m'). flat_mem m' ! i = (if i < 4096 * ?n then blob_image b ! i else 0)"
    "\<forall>p < length (perms m'). perms m' ! p = (if p < ?n then perm_RW else perm_NONE)"
    using map_whole_pages [OF wf(1) st sz len, of ReadWrite] small wf(3,4) by (auto simp: access_perm_def)
  have "length (flat_mem m') = 4096 * ?n" using m'(2,4) by (simp add: wf_mem_def PAGE_SIZE_def)
  then have "flat_mem m' = blob_image b" using m'(5) len by (intro nth_equalityI) auto
  moreover have "perms m' = replicate ?n perm_RW" using m'(4,6) by (intro nth_equalityI) auto
  ultimately show ?thesis using m'(1-3) wf len by (auto simp: expect_mapped_def)
qed

lemma overlay_ro:
  assumes b: "blob_inv b" and m: "wf_mem m" "m_base m = DATA_BASE" "flat_mem m = blob_image b"
    "perms m = replicate (page_sum (pb_regions b)) perm_RW" and ne: "ro_pages (pb_regions b) \<noteq> 0"
  shows "\<exists>m'. overlay m (DATA_BASE + of_nat (4096 * unat (stack_pages (pb_regions b)))) (ro_data b) ReadOnly = Returns m' \<and>
    wf_mem m' \<and> m_base m' = DATA_BASE \<and> flat_mem m' = blob_image b \<and> perms m' = blob_perms b"
proof -
  let ?g = "pb_regions b" let ?s = "unat (stack_pages ?g)" let ?r = "unat (ro_pages ?g)"
  have small: "page_sum ?g < 2 ^ 20" by (rule page_sum_small [OF b])
  have sr: "?s + ?r \<le> page_sum ?g" by (simp add: page_sum_def)
  have lim: "268435456 + 4096 * page_sum ?g \<le> 2 ^ 32" using b unat_data_page(2) by (simp add: blob_inv_def)
  have r: "0 < ?r" using ne by (simp add: unat_gt_0)
  have len: "length (ro_data b) = 4096 * ?r" using b by (simp add: blob_inv_def)
  have "unat (DATA_BASE + of_nat (4096 * ?s)) = 268435456 + 4096 * ?s"
  proof -
    have "DATA_BASE + of_nat (4096 * ?s) = (of_nat (268435456 + 4096 * ?s) :: u32)" by (simp add: DATA_BASE_def)
    moreover have "268435456 + 4096 * ?s < 2 ^ 32" using lim sr r by linarith
    ultimately show ?thesis by (simp only: unsigned_of_nat) (simp add: take_bit_nat_eq_self)
  qed
  then have st: "unat (ucast (DATA_BASE + of_nat (4096 * ?s)) :: u64) = unat (m_base m) + 4096 * ?s"
    using lim sr r by (simp add: m(2) unat_data_page(2) unsigned_ucast_eq take_bit_nat_eq_self)
  have sz: "unat (page_round_up_u64 (of_nat (length (ro_data b)))) = 4096 * ?r"
    unfolding len by (rule page_round_up_multiple) (use small sr in simp)
  obtain m' where m': "cm_map_region m (ucast (DATA_BASE + of_nat (4096 * ?s))) (page_round_up_u64 (of_nat (length (ro_data b)))) ReadOnly (Some (ro_data b)) = Returns (Inr m')"
    "wf_mem m'" "m_base m' = m_base m" "length (perms m') = max (length (perms m)) (?s + ?r)"
    "\<forall>i < length (flat_mem m'). flat_mem m' ! i = (if 4096 * ?s \<le> i \<and> i < 4096 * (?s + ?r) then ro_data b ! (i - 4096 * ?s)
       else if i < length (flat_mem m) then flat_mem m ! i else 0)"
    "\<forall>p < length (perms m'). perms m' ! p = (if ?s \<le> p \<and> p < ?s + ?r then access_perm ReadOnly
       else if p < length (perms m) then perms m ! p else perm_NONE)"
    using map_whole_pages [OF m(1) st sz len, of ReadOnly] small sr by auto
  have lp: "length (perms m') = page_sum ?g" using m'(4) m(4) sr by simp
  have lf: "length (flat_mem m') = length (blob_image b)" using m'(2) lp length_blob_image [OF b] by (simp add: wf_mem_def PAGE_SIZE_def)
  have "flat_mem m' = blob_image b"
  proof (rule nth_equalityI [OF lf])
    fix i assume i: "i < length (flat_mem m')"
    show "flat_mem m' ! i = blob_image b ! i"
    proof (cases "4096 * ?s \<le> i \<and> i < 4096 * (?s + ?r)")
      case True
      then have "i - 4096 * ?s < 4096 * ?r" "\<not> i < 4096 * ?s" by auto
      then have "blob_image b ! i = ro_data b ! (i - 4096 * ?s)" using len by (simp add: blob_image_def nth_append)
      then show ?thesis using m'(5) i True by simp
    qed (use m'(5) i lf m(3) in auto)
  qed
  moreover have "perms m' = blob_perms b"
  proof (rule nth_equalityI)
    show "length (perms m') = length (blob_perms b)" by (simp add: lp blob_perms_def page_sum_def)
    fix p assume "p < length (perms m')"
    then show "perms m' ! p = blob_perms b ! p" using m'(6) m(4) lp
      by (auto simp: blob_perms_def nth_append access_perm_def page_sum_def)
  qed
  ultimately show ?thesis using m' r len m(2) by (auto simp: overlay_def expect_mapped_def)
qed

lemma set_code_region_fields [simp]:
  "m_base (set_code_region m c l) = m_base m" "flat_mem (set_code_region m c l) = flat_mem m" "perms (set_code_region m c l) = perms m"
  by (simp_all add: set_code_region_def Let_def)

text \<open>The memory of an instance of a blob.\<close>

definition holds_blob :: "program_blob \<Rightarrow> copying_memory \<Rightarrow> bool" where
  "holds_blob b m \<longleftrightarrow> wf_mem m \<and> m_base m = DATA_BASE \<and> flat_mem m = blob_image b \<and> perms m = blob_perms b"

lemma instance_mem_blob:
  assumes b: "blob_inv b" and sp: "sp_data_base sp = DATA_BASE" "sp_mem_image sp = blob_image b"
    "sp_ro_overlays sp = map overlay_of (filter (is_read_only \<circ> rg_kind) (regions_iter (pb_regions b)))"
  shows "\<exists>m. instance_mem sp = Returns m \<and> holds_blob b m"
proof -
  let ?g = "pb_regions b" let ?s = "unat (stack_pages ?g)" let ?r = "unat (ro_pages ?g)"
  obtain m1 where m1: "(if blob_image b \<noteq> []
      then expect_mapped (cm_map_region (cm_new\<lparr>m_base := DATA_BASE\<rparr>) (ucast DATA_BASE) (of_nat (length (blob_image b))) ReadWrite (Some (blob_image b)))
      else Returns (cm_new\<lparr>m_base := DATA_BASE\<rparr>)) = Returns m1" "wf_mem m1" "m_base m1 = DATA_BASE" "flat_mem m1 = blob_image b"
      "perms m1 = replicate (page_sum ?g) perm_RW"
    using base_mapped [OF b refl] by blast
  have "\<exists>m2. lay_overlays (blob_image b) (sp_ro_overlays sp) m1 = Returns m2 \<and> holds_blob b m2"
  proof (cases "ro_pages ?g = 0")
    case True
    then have "replicate (page_sum ?g) perm_RW = blob_perms b" by (simp add: blob_perms_def page_sum_def add.assoc flip: replicate_add)
    then show ?thesis using True m1 ro_overlays_eq [OF b] by (simp add: sp(3) holds_blob_def)
  next
    case False
    have "take (4096 * ?r) (drop (4096 * ?s) (blob_image b)) = ro_data b" using b by (simp add: blob_image_def blob_inv_def)
    moreover have "4096 * ?s + 4096 * ?r \<le> length (blob_image b)" unfolding length_blob_image [OF b] by (simp add: page_sum_def)
    ultimately show ?thesis using False overlay_ro [OF b m1(2-5) False] ro_overlays_eq [OF b]
      by (auto simp: sp(3) holds_blob_def)
  qed
  then show ?thesis using m1(1) by (auto simp: instance_mem_def Let_def sp(1,2) holds_blob_def wf_set_code_region)
qed

section \<open>Running an instance\<close>

interpretation exiting: ecall_contract exiting_handler wf_mem "\<lambda>_. True"
  by unfold_locales (simp add: exiting_handler_def)

lemma exiting_protects: "protects ops m (snd (snd (snd (exiting_handler k h r m))))"
  by (simp add: exiting_handler_def)

text \<open>An instance is sound when its memory and registers are well formed and its predecoded program is that of
  its code at some memory latency.\<close>

definition instance_ok :: "program_instance \<Rightarrow> bool" where
  "instance_ok ins \<longleftrightarrow> wf_mem (in_mem ins) \<and> wf_regs (in_regs ins) \<and> (\<exists>mc. wf_predecoded (in_code ins) mc (in_predecode ins))"

lemma instance_invoke_ok:
  assumes "instance_ok ins" "ecall_contract handle wf_mem hinv" "hinv h"
  shows "\<exists>res ins' h'. instance_invoke handle ins h g = Some (Returns (res, ins', h')) \<and> instance_ok ins' \<and> hinv h' \<and>
    ins' = ins\<lparr>in_mem := in_mem ins'\<rparr> \<and> unat (gas_remaining res) \<le> unat g \<and> length (scratchpad_head res) = 128 \<and>
    ((\<forall>k h r m. protects copying_ops m (snd (snd (snd (handle k h r m))))) \<longrightarrow> protects copying_ops (in_mem ins) (in_mem ins'))"
proof -
  obtain mc where "wf_predecoded (in_code ins) mc (in_predecode ins)" using assms(1) by (auto simp: instance_ok_def)
  then have I: "interpreter copying_ops wf_mem (\<lambda>m. 256 * card (cold_pages m)) handle hinv (in_predecode ins) (in_code ins) mc"
    using assms(2) cm.memory_backend_axioms by (simp add: interpreter_def interpreter_axioms_def)
  let ?s = "\<lparr>m_regs = in_regs ins, m_mem = in_mem ins, m_gas = gas_new g, m_handler = h\<rparr>"
  have s: "mach_ok wf_mem hinv ?s" using assms(1,3) by (simp add: mach_ok_def instance_ok_def)
  obtain x s' where r: "run copying_ops handle (in_predecode ins) (in_code ins) (in_code_base ins) ?s = Some (Returns (x, s'))"
    "mach_ok wf_mem hinv s'" "gas_of s' \<le> gas_of ?s"
    using interpreter.run_total [OF I s] by blast
  have p: "protects copying_ops (in_mem ins) (m_mem s')" if "\<forall>k h r m. protects copying_ops m (snd (snd (snd (handle k h r m))))"
    using interpreter.run_protects [OF I s, where cb = "in_code_base ins"] that by (simp add: r(1))
  show ?thesis using r assms(1) p
    by (auto simp: instance_invoke_def case_prod_beta instance_ok_def mach_ok_def gas_new_def read_scratchpad_def SCRATCHPAD_HEAD_LEN_def)
qed

lemma set_gpr_length [simp]: "length (gpr (set_gpr i v r)) = length (gpr r)"
  by (simp add: set_gpr_def)

lemma fold_set_gpr_length [simp]: "length (gpr (fold (\<lambda>(i, v). set_gpr (f i) v) xs r)) = length (gpr r)"
  by (induction xs arbitrary: r) auto

lemma wf_entry_regs: "wf_regs (entry_regs ep args)"
  by (simp add: entry_regs_def wf_regs_def new_regs_def)

lemma prepared_new_blob:
  assumes "blob_inv b" "bt_get (endpoints b) k = Some ep"
  shows "\<exists>p. prepared_new b k args = Returns (Inr p) \<and> pp_code p = pb_code b \<and> pp_mem_image p = blob_image b \<and> pp_regs p = entry_regs ep args \<and>
    pp_ro_overlays p = map overlay_of (filter (is_read_only \<circ> rg_kind) (regions_iter (pb_regions b)))"
  using memory_image_eq [OF assms(1)] assms(2) by (simp add: prepared_new_def blob_image_def)

lemma instance_new_blob:
  assumes b: "blob_inv b" and ep: "bt_get (endpoints b) k = Some ep"
  shows "\<exists>p ins. prepared_new b k args = Returns (Inr p) \<and> instance_new (prepared_spec p) = Some (Returns ins) \<and>
    instance_ok ins \<and> holds_blob b (in_mem ins) \<and> in_code ins = pb_code b \<and> in_regs ins = entry_regs ep args"
proof -
  obtain p where p: "prepared_new b k args = Returns (Inr p)" "pp_code p = pb_code b" "pp_mem_image p = blob_image b" "pp_regs p = entry_regs ep args"
    "pp_ro_overlays p = map overlay_of (filter (is_read_only \<circ> rg_kind) (regions_iter (pb_regions b)))"
    using prepared_new_blob [OF assms] by blast
  obtain m where m: "instance_mem (prepared_spec p) = Returns m" "holds_blob b m"
    using instance_mem_blob [OF b, of "prepared_spec p"] p by (auto simp: prepared_spec_def)
  have len: "length (pb_code b) < 2 ^ 32" using b by (simp add: blob_inv_def MAX_CODE_SIZE_def DATA_BASE_def CODE_BASE_def)
  let ?mc = "mem_cycles_for (accessible_pages (sp_declared_mem_size (prepared_spec p)) (sp_data_base (prepared_spec p)))"
  obtain pd where pd: "predecode_rv_with_mem_cycles (pb_code b) ?mc = Some pd" "wf_predecoded (pb_code b) ?mc pd"
    using predecode_wf [OF len, of ?mc] by blast
  show ?thesis using p m pd wf_entry_regs [of ep args]
    by (auto simp: instance_new_def Let_def prepared_spec_def instance_ok_def holds_blob_def)
qed

text \<open>C5: A program that passed validation always runs to a result. For every valid blob, every endpoint index,
  arguments and gas, \<open>run_blob\<close> terminates without panicking: an undeclared endpoint is reported as such,
  and a declared one yields an invocation result whose remaining gas is at most the gas given and whose
  scratchpad head has its 128 bytes.\<close>

theorem run_blob_safe:
  assumes "blob_inv b"
  shows "case bt_get (endpoints b) k of
      None \<Rightarrow> run_blob b k args g = Some (Returns (Inl (NoSuchEndpoint k)))
    | Some ep \<Rightarrow> \<exists>res. run_blob b k args g = Some (Returns (Inr res)) \<and> unat (gas_remaining res) \<le> unat g \<and>
        length (scratchpad_head res) = 128"
proof (cases "bt_get (endpoints b) k")
  case None
  then show ?thesis by (simp add: run_blob_def prepared_new_def)
next
  case (Some ep)
  obtain p ins where p: "prepared_new b k args = Returns (Inr p)" "instance_new (prepared_spec p) = Some (Returns ins)" "instance_ok ins"
    using instance_new_blob [OF assms Some] by blast
  show ?thesis using instance_invoke_ok [OF p(3) exiting.ecall_contract_axioms, of "()" g] p Some
    by (auto simp: run_blob_def run_spec_def)
qed


theorem run_blob_safe_witness:
  "(\<exists>res. run_blob tiny_blob 0 [1, 2, 3, 4] 1000 = Some (Returns (Inr res)) \<and> unat (gas_remaining res) \<le> unat (1000 :: u64) \<and>
      length (scratchpad_head res) = 128) \<and>
   run_blob tiny_blob 1 [1, 2, 3, 4] 1000 = Some (Returns (Inl (NoSuchEndpoint 1)))"
  using run_blob_safe [OF tiny_blob_inv, of 0 "[1, 2, 3, 4]" 1000] run_blob_safe [OF tiny_blob_inv, of 1 "[1, 2, 3, 4]" 1000]
  by (simp add: tiny_blob_def bt_get_def)

text \<open>What a client can do with an instance after building it: invoke it with any gas and handler state, and
  choose another entry.\<close>

inductive served :: "(copying_memory, 'h) handler \<Rightarrow> ('h \<Rightarrow> bool) \<Rightarrow> program_instance \<Rightarrow> program_instance \<Rightarrow> bool"
  for handle hinv ins0
where
  served_start: "served handle hinv ins0 ins0"
| served_invoke: "served handle hinv ins0 ins \<Longrightarrow> hinv h \<Longrightarrow> instance_invoke handle ins h g = Some (Returns (res, ins', h')) \<Longrightarrow>
    served handle hinv ins0 ins'"
| served_entry: "served handle hinv ins0 ins \<Longrightarrow> served handle hinv ins0 (set_entry_pc entry ins)"

lemma served_ok:
  assumes "served handle hinv ins0 ins" "instance_ok ins0" "ecall_contract handle wf_mem hinv"
    "\<And>k h r m. protects copying_ops m (snd (snd (snd (handle k h r m))))"
  shows "instance_ok ins \<and> protects copying_ops (in_mem ins0) (in_mem ins)"
  using assms(1)
proof induction
  case (served_invoke ins h g res ins' h')
  then show ?case using instance_invoke_ok [OF _ assms(3), of ins h g] assms(4) by (auto intro: protects_trans)
next
  case (served_entry ins entry)
  then show ?case by (simp add: set_entry_pc_def instance_ok_def wf_regs_def)
qed (simp add: assms(2))

lemma holds_blob_ro:
  assumes "holds_blob b m" "blob_inv b" "i < length (ro_data b)"
  defines "a \<equiv> DATA_BASE + of_nat (4096 * unat (stack_pages (pb_regions b)) + i)"
  shows "cm_read_u8 m a = Some (ro_data b ! i)" "cm_perm_of m a = perm_RO"
proof -
  let ?s = "unat (stack_pages (pb_regions b))"
  have len: "length (ro_data b) = 4096 * unat (ro_pages (pb_regions b))" using assms(2) by (simp add: blob_inv_def)
  have "4096 * ?s + i < 4096 * page_sum (pb_regions b)" using assms(3) len by (simp add: page_sum_def)
  then have "4096 * ?s + i < 2 ^ 32" using page_sum_small [OF assms(2)] by simp
  then have o: "off m a = 4096 * ?s + i" using assms(1)
    by (simp only: off_def a_def holds_blob_def add_diff_cancel_left' unsigned_of_nat) (simp add: take_bit_nat_eq_self)
  have "blob_image b ! (4096 * ?s + i) = ro_data b ! i" "4096 * ?s + i < length (blob_image b)"
    using assms(3) by (simp_all add: blob_image_def nth_append)
  then show "cm_read_u8 m a = Some (ro_data b ! i)" using o assms(1) by (simp add: cm_read_u8_def holds_blob_def)
  have "i div 4096 < unat (ro_pages (pb_regions b))" using assms(3) len by (simp add: less_mult_imp_div_less mult.commute)
  then have "(?s + i div 4096) < length (blob_perms b)" "blob_perms b ! (?s + i div 4096) = perm_RO" by (simp_all add: blob_perms_def nth_append)
  then show "cm_perm_of m a = perm_RO" using o assms(1) by (simp add: cm_perm_of_def holds_blob_def PAGE_SIZE_def)
qed

text \<open>C6: The read-only data of a program stay what the blob says, however the program is used. Through any
  sequence of invocations, with any gas, entry points and handler that keeps to its contract, every byte of
  the read-only region of the instance still reads as the blob's byte, and the instance never panics.\<close>

theorem ro_data_immutable:
  assumes "blob_inv b" "bt_get (endpoints b) k = Some ep" "ecall_contract handle wf_mem hinv"
    "\<And>k h r m. protects copying_ops m (snd (snd (snd (handle k h r m))))"
  shows "\<exists>p ins0. prepared_new b k args = Returns (Inr p) \<and> instance_new (prepared_spec p) = Some (Returns ins0) \<and>
    (\<forall>ins. served handle hinv ins0 ins \<longrightarrow>
       (\<forall>h g. hinv h \<longrightarrow> (\<exists>r. instance_invoke handle ins h g = Some (Returns r))) \<and>
       (\<forall>i < length (ro_data b).
          cm_read_u8 (in_mem ins) (DATA_BASE + of_nat (4096 * unat (stack_pages (pb_regions b)) + i)) = Some (ro_data b ! i)))"
proof -
  obtain p ins0 where p: "prepared_new b k args = Returns (Inr p)" "instance_new (prepared_spec p) = Some (Returns ins0)"
    "instance_ok ins0" "holds_blob b (in_mem ins0)"
    using instance_new_blob [OF assms(1,2)] by blast
  have "(\<exists>r. instance_invoke handle ins h g = Some (Returns r))" if "served handle hinv ins0 ins" "hinv h" for ins h g
    using served_ok [OF that(1) p(3) assms(3,4)] instance_invoke_ok [OF _ assms(3) that(2)] by blast
  moreover have "cm_read_u8 (in_mem ins) (DATA_BASE + of_nat (4096 * unat (stack_pages (pb_regions b)) + i)) = Some (ro_data b ! i)"
    if "served handle hinv ins0 ins" "i < length (ro_data b)" for ins i
  proof -
    have "protects copying_ops (in_mem ins0) (in_mem ins)" using served_ok [OF that(1) p(3) assms(3,4)] by blast
    then show ?thesis using holds_blob_ro [OF p(4) assms(1) that(2)]
      by (simp add: protects_def copying_ops_def perm_RO_def perm_RW_def)
  qed
  ultimately show ?thesis using p(1,2) by blast
qed

theorem ro_data_immutable_witness:
  "\<exists>ins0. (\<forall>ins. served exiting_handler (\<lambda>_. True) ins0 ins \<longrightarrow> cm_read_u8 (in_mem ins) 0x10001000 = Some 7)"
proof -
  have "bt_get (endpoints tiny_blob) 0 = Some tiny_endpoint" by (simp add: tiny_blob_def bt_get_def)
  from ro_data_immutable [OF tiny_blob_inv this exiting.ecall_contract_axioms exiting_protects, of "[1, 2, 3, 4]"]
  obtain ins0 where "\<forall>ins. served exiting_handler (\<lambda>_. True) ins0 ins \<longrightarrow> (\<forall>i < length (ro_data tiny_blob).
      cm_read_u8 (in_mem ins) (DATA_BASE + of_nat (4096 * unat (stack_pages (pb_regions tiny_blob)) + i)) = Some (ro_data tiny_blob ! i))"
    by blast
  moreover have "0 < length (ro_data tiny_blob)" "ro_data tiny_blob ! 0 = 7"
    "DATA_BASE + of_nat (4096 * unat (stack_pages (pb_regions tiny_blob)) + 0) = 0x10001000"
    by (simp_all add: tiny_blob_def DATA_BASE_def)
  ultimately show ?thesis by metis
qed

section \<open>Entry state and gas tier\<close>

lemma gpr_set_gpr: "j < length (gpr r) \<Longrightarrow> gpr (set_gpr i v r) ! j = (if i = j then v else gpr r ! j)"
  by (auto simp: set_gpr_def)

lemma pc_fold_set_gpr [simp]: "pc (fold (\<lambda>(i, v). set_gpr (f i) v) xs r) = pc r"
  by (induction xs arbitrary: r) (auto simp: set_gpr_def)

lemma fold_set_gpr_map:
  fixes xs :: "(u8, u64) btree"
  assumes "wf_bt xs" "j < length (gpr r)" "j < 256"
  shows "gpr (fold (\<lambda>(idx, v). set_gpr (unat idx) v) xs r) ! j = (case bt_get xs (of_nat j) of Some v \<Rightarrow> v | None \<Rightarrow> gpr r ! j)"
  using assms(1,2)
proof (induction xs arbitrary: r)
  case (Cons x xs)
  obtain idx v where x: "x = (idx, v)" by fastforce
  have "map_of xs idx = None" using Cons.prems(1) by (auto simp: x wf_bt_Cons map_of_eq_None_iff)
  moreover have "unat idx = j \<longleftrightarrow> idx = of_nat j" using assms(3) by (auto simp: unsigned_of_nat take_bit_nat_eq_self)
  ultimately show ?case using Cons by (auto simp: x wf_bt_Cons bt_get_def gpr_set_gpr split: option.split)
qed (simp add: bt_get_def)

lemma entry_regs_spec:
  assumes "length args = 4" "wf_bt (initial_regs ep)"
  shows "pc (entry_regs ep args) = entry_pc ep \<and>
    (\<forall>j < 15. gpr (entry_regs ep args) ! j = (if 7 \<le> j \<and> j < 11 then args ! (j - 7)
       else case bt_get (initial_regs ep) (of_nat j) of Some v \<Rightarrow> v | None \<Rightarrow> 0))"
proof -
  obtain a b c d where args: "args = [a, b, c, d]" using assms(1) by (auto simp: length_Suc_conv eval_nat_numeral)
  define r where "r = fold (\<lambda>(idx, v). set_gpr (unat idx) v) (initial_regs ep) (new_regs\<lparr>pc := entry_pc ep\<rparr>)"
  have l: "length (gpr r) = 15" by (simp add: r_def new_regs_def REG_COUNT_def)
  have r: "gpr r ! j = (case bt_get (initial_regs ep) (of_nat j) of Some v \<Rightarrow> v | None \<Rightarrow> 0)" if "j < 15" for j
    unfolding r_def using fold_set_gpr_map [OF assms(2), of j "new_regs\<lparr>pc := entry_pc ep\<rparr>"] that by (simp add: new_regs_def REG_COUNT_def split: option.split)
  have e: "entry_regs ep args = set_gpr 10 d (set_gpr 9 c (set_gpr 8 b (set_gpr 7 a r)))"
    by (simp add: entry_regs_def args r_def)
  have p: "pc (entry_regs ep args) = entry_pc ep" by (simp add: entry_regs_def)
  have "gpr (entry_regs ep args) ! j = (if 7 \<le> j \<and> j < 11 then args ! (j - 7)
       else case bt_get (initial_regs ep) (of_nat j) of Some v \<Rightarrow> v | None \<Rightarrow> 0)" if "j < 15" for j
  proof -
    have "j \<in> {7, 8, 9, 10} \<longleftrightarrow> 7 \<le> j \<and> j < 11" by auto
    then show ?thesis unfolding e using that r [OF that] by (auto simp: l gpr_set_gpr args)
  qed
  then show ?thesis using p by blast
qed

text \<open>C7: The address space a program starts in is exactly the one its blob describes. The instance built for
  a declared endpoint of a valid blob has the flat memory based at \<open>DATA_BASE\<close> with the stack, read-only,
  read-write and heap bytes one after the other and the read-only pages, and only those, not
  writable; it runs the blob's code with the program counter at the endpoint's entry, the arguments in
  slots 7 to 10 and every other slot as the endpoint declares or zero.\<close>

theorem instance_of_blob:
  assumes "blob_inv b" "bt_get (endpoints b) k = Some ep" "length args = 4" "wf_bt (initial_regs ep)"
  shows "\<exists>p ins. prepared_new b k args = Returns (Inr p) \<and> instance_new (prepared_spec p) = Some (Returns ins) \<and>
    holds_blob b (in_mem ins) \<and> in_code ins = pb_code b \<and> pc (in_regs ins) = entry_pc ep \<and>
    (\<forall>j < 15. gpr (in_regs ins) ! j = (if 7 \<le> j \<and> j < 11 then args ! (j - 7)
       else case bt_get (initial_regs ep) (of_nat j) of Some v \<Rightarrow> v | None \<Rightarrow> 0))"
proof -
  obtain p ins where p: "prepared_new b k args = Returns (Inr p)" "instance_new (prepared_spec p) = Some (Returns ins)"
    "holds_blob b (in_mem ins)" "in_code ins = pb_code b" "in_regs ins = entry_regs ep args"
    using instance_new_blob [OF assms(1,2)] by blast
  show ?thesis using p entry_regs_spec [OF assms(3,4)] by auto
qed


theorem instance_of_blob_witness:
  "\<exists>p ins. prepared_new tiny_blob 0 [1, 2, 3, 4] = Returns (Inr p) \<and> instance_new (prepared_spec p) = Some (Returns ins) \<and>
    holds_blob tiny_blob (in_mem ins) \<and> gpr (in_regs ins) ! 1 = 0x10001000 \<and> gpr (in_regs ins) ! 8 = 2"
proof -
  have e: "bt_get (endpoints tiny_blob) 0 = Some tiny_endpoint" by (simp add: tiny_blob_def bt_get_def)
  have w: "wf_bt (initial_regs tiny_endpoint)" by (simp add: tiny_endpoint_def wf_bt_def)
  obtain p ins where p: "prepared_new tiny_blob 0 [1, 2, 3, 4] = Returns (Inr p)" "instance_new (prepared_spec p) = Some (Returns ins)"
    "holds_blob tiny_blob (in_mem ins)"
    and g: "\<forall>j < 15. gpr (in_regs ins) ! j = (if 7 \<le> j \<and> j < 11 then [1, 2, 3, 4] ! (j - 7)
       else case bt_get (initial_regs tiny_endpoint) (of_nat j) of Some v \<Rightarrow> v | None \<Rightarrow> 0)"
    using instance_of_blob [OF tiny_blob_inv e _ w, of "[1, 2, 3, 4]"] by auto
  have "gpr (in_regs ins) ! 1 = 0x10001000" using g [rule_format, of 1] by (simp add: tiny_endpoint_def bt_get_def)
  moreover have "gpr (in_regs ins) ! 8 = 2" using g [rule_format, of 8] by simp
  ultimately show ?thesis using p by blast
qed

lemma prepared_declared:
  "prepared_new b k args = Returns (Inr p) \<Longrightarrow> pp_declared_mem_size p = DATA_BASE + ucast (data_extent (pb_regions b))"
  by (cases "memory_image b") (auto simp: prepared_new_def split: option.splits)

text \<open>Both engines price a program by its footprint: the declared memory size makes the predecoder charge
  loads and stores at the tier of the program's number of data pages, for every valid blob that leaves at
  least one page of the address space unused.\<close>

theorem gas_tier_exact:
  assumes "blob_inv b" "prepared_new b k args = Returns (Inr p)" "page_sum (pb_regions b) < 2 ^ 20 - 65536"
  shows "accessible_pages (sp_declared_mem_size (prepared_spec p)) (sp_data_base (prepared_spec p)) = of_nat (page_sum (pb_regions b))"
proof -
  let ?n = "page_sum (pb_regions b)"
  have d: "unat (data_extent (pb_regions b)) = 4096 * ?n" using assms(3) by (intro unat_data_extent) simp
  have "pp_declared_mem_size p = DATA_BASE + ucast (data_extent (pb_regions b))"
    by (rule prepared_declared [OF assms(2)])
  moreover have "unat (DATA_BASE + ucast (data_extent (pb_regions b)) :: u32) = 268435456 + 4096 * ?n"
    using d assms(3) by (simp add: unat_word_ariths unsigned_ucast_eq take_bit_nat_eq_self DATA_BASE_def)
  ultimately have "unat (accessible_pages (pp_declared_mem_size p) DATA_BASE) = ?n"
    by (simp add: accessible_pages_def unat_div unat_saturating_sub unat_data_page(2))
  then show ?thesis by (metis of_nat_unat ucast_id prepared_spec_def program_spec.select_convs(3,6))
qed

theorem gas_tier_exact_witness:
  "\<exists>p. prepared_new tiny_blob 0 [1, 2, 3, 4] = Returns (Inr p) \<and>
    accessible_pages (sp_declared_mem_size (prepared_spec p)) (sp_data_base (prepared_spec p)) = 3"
proof -
  have "bt_get (endpoints tiny_blob) 0 = Some tiny_endpoint" by (simp add: tiny_blob_def bt_get_def)
  then obtain p where p: "prepared_new tiny_blob 0 [1, 2, 3, 4] = Returns (Inr p)" using prepared_new_blob [OF tiny_blob_inv] by blast
  have n: "page_sum (pb_regions tiny_blob) = 3" by (simp add: tiny_blob_def page_sum_def)
  show ?thesis using gas_tier_exact [OF tiny_blob_inv p] p by (simp add: n)
qed

text \<open>A blob that fills the address space to the last page has its declared size wrap to 0, and is charged at
  the lowest tier instead of the highest.\<close>

lemma full_space_lowest_tier:
  assumes "prepared_new b k args = Returns (Inr p)" "page_sum (pb_regions b) = 2 ^ 20 - 65536"
  shows "sp_declared_mem_size (prepared_spec p) = 0 \<and>
    compute_scale (accessible_pages (sp_declared_mem_size (prepared_spec p)) DATA_BASE) = 1 \<and>
    compute_scale (of_nat (page_sum (pb_regions b))) = 4"
proof -
  have d: "unat (data_extent (pb_regions b)) = 4026531840" using assms(2) by (simp add: unat_data_extent)
  have "pp_declared_mem_size p = DATA_BASE + ucast (data_extent (pb_regions b))"
    by (rule prepared_declared [OF assms(1)])
  moreover have "DATA_BASE + ucast (data_extent (pb_regions b)) = (0 :: u32)"
    using arg_cong [OF d, of "of_nat :: nat \<Rightarrow> u32"] by (simp add: DATA_BASE_def)
  ultimately show ?thesis by (simp add: prepared_spec_def accessible_pages_def saturating_sub_def compute_scale_def assms(2) DATA_BASE_def)
qed

end
