(* ===== verification/Goldilocks.thy ===== *)
theory Goldilocks
  imports Prelude
begin

text \<open>
  The Goldilocks field and the Poseidon2 permutation of the guest programs,
  \<open>nub/programs/goldilocks-poseidon2/src/field.rs\<close> and \<open>poseidon2.rs\<close>. Field elements are \<open>u64\<close> values that
  need not be canonical; states are lists of eight elements. The names that clash with constants of HOL
  carry the suffix \<open>_gl\<close>.
\<close>

section \<open>Field operations\<close>

type_synonym u128 = "128 word"

definition P_gl :: u64 where "P_gl = 0xFFFFFFFF00000001"
definition EPSILON :: u64 where "EPSILON = 0xFFFFFFFF"
definition ZERO_gl :: u64 where "ZERO_gl = 0"
definition ONE_gl :: u64 where "ONE_gl = 1"

definition overflowing_add :: "u64 \<Rightarrow> u64 \<Rightarrow> u64 \<times> bool" where
  "overflowing_add a b = (a + b, unat a + unat b \<ge> 2 ^ 64)"

definition overflowing_sub :: "u64 \<Rightarrow> u64 \<Rightarrow> u64 \<times> bool" where
  "overflowing_sub a b = (a - b, a < b)"

definition add_gl :: "u64 \<Rightarrow> u64 \<Rightarrow> u64" where
  "add_gl a b = (case overflowing_add a b of (r, c) \<Rightarrow> if c then r + EPSILON else r)"

definition sub_gl :: "u64 \<Rightarrow> u64 \<Rightarrow> u64" where
  "sub_gl a b = (case overflowing_sub a b of (r, c) \<Rightarrow> if c then r - EPSILON else r)"

definition reduce128 :: "u128 \<Rightarrow> u64" where
  "reduce128 x =
     (let lo = ucast x;
          hi = ucast (drop_bit 64 x) :: u64;
          hi_hi = drop_bit 32 hi;
          hi_lo = hi AND EPSILON;
          (t0, borrow) = overflowing_sub lo hi_hi;
          t0 = (if borrow then t0 - EPSILON else t0);
          t1 = hi_lo * EPSILON;
          (r, carry) = overflowing_add t0 t1 in
      if carry then r + EPSILON else r)"

definition mul_gl :: "u64 \<Rightarrow> u64 \<Rightarrow> u64" where
  "mul_gl a b = reduce128 (ucast a * ucast b)"

definition canonical :: "u64 \<Rightarrow> u64" where
  "canonical a = (if a \<ge> P_gl then a - P_gl else a)"

definition square :: "u64 \<Rightarrow> u64" where
  "square x = mul_gl x x"

definition double :: "u64 \<Rightarrow> u64" where
  "double x = add_gl x x"

text \<open>The loop of \<open>pow\<close>.\<close>

function pow_loop :: "u64 \<Rightarrow> u64 \<Rightarrow> u64 \<Rightarrow> u64" where
  "pow_loop result b e =
     (if e > 0
      then pow_loop (if e AND 1 = 1 then mul_gl result b else result) (mul_gl b b) (drop_bit 1 e)
      else result)"
  by pat_completeness auto
termination
proof (relation "measure (\<lambda>(result, b, e). unat e)")
  fix result b e :: u64
  assume "e > 0"
  then have "0 < unat e" by (simp add: unat_gt_0 word_greater_zero_iff)
  then show "((if e AND 1 = 1 then mul_gl result b else result, mul_gl b b, drop_bit 1 e), result, b, e) \<in> measure (\<lambda>(result, b, e). unat e)"
    by (simp add: drop_bit_Suc unat_div)
qed simp

declare pow_loop.simps [simp del]

definition pow_gl :: "u64 \<Rightarrow> u64 \<Rightarrow> u64" where
  "pow_gl base e = (if e = 0 then ONE_gl else pow_loop ONE_gl base e)"

definition inv_gl :: "u64 \<Rightarrow> u64" where
  "inv_gl x = pow_gl x (P_gl - 2)"

section \<open>Arithmetic modulo the field prime\<close>

abbreviation p_gl :: nat where "p_gl \<equiv> 18446744069414584321"

lemma gl_consts: "unat P_gl = p_gl" "unat EPSILON = 4294967295" "unat ONE_gl = 1"
  by (simp_all add: P_gl_def EPSILON_def ONE_gl_def)

lemma u64_less: "unat (a :: u64) < 2 ^ 64"
  using unsigned_less [of a, where 'a = nat] by simp

lemma unat_add_gl:
  "unat (add_gl a b) =
     (if unat a + unat b < 2 ^ 64 then unat a + unat b
      else if unat a + unat b < 2 ^ 65 - 4294967295 then unat a + unat b - p_gl
      else unat a + unat b - p_gl - 2 ^ 64)"
  using u64_less [of a] u64_less [of b]
  by (auto simp: add_gl_def overflowing_add_def unat_word_ariths gl_consts mod_if)

lemma unat_sub_gl:
  "unat (sub_gl a b) =
     (if unat b \<le> unat a then unat a - unat b
      else if unat b \<le> unat a + p_gl then unat a + p_gl - unat b
      else unat a + p_gl + 2 ^ 64 - unat b)"
  using u64_less [of a] u64_less [of b]
  by (auto simp: sub_gl_def overflowing_sub_def word_less_nat_alt unat_sub_if' gl_consts)

lemma reduce128_eq:
  "reduce128 x = add_gl (sub_gl (ucast x) (drop_bit 32 (ucast (drop_bit 64 x)))) ((ucast (drop_bit 64 x) AND EPSILON) * EPSILON)"
  by (simp add: reduce128_def add_gl_def sub_gl_def Let_def case_prod_beta)

lemma split_128: "x = m + 2 ^ 64 * n \<Longrightarrow> n = r + 2 ^ 32 * q \<Longrightarrow> x = m + 2 ^ 64 * r + 2 ^ 96 * (q :: nat)"
  by simp

lemma u128_parts:
  fixes x :: u128
  defines "h \<equiv> (ucast (drop_bit 64 x) :: u64)"
  shows "unat x = unat (ucast x :: u64) + 2 ^ 64 * unat (h AND EPSILON) + 2 ^ 96 * unat (drop_bit 32 h)"
    "unat (h AND EPSILON) < 2 ^ 32" "unat (drop_bit 32 h) < 2 ^ 32"
proof -
  have xb: "unat x < 2 ^ 128" using unsigned_less [of x, where 'a = nat] by simp
  have "unat (drop_bit 64 x) = unat x div 2 ^ 64" by (subst unat_drop_bit_eq) (rule drop_bit_eq_div)
  moreover have "unat x div 2 ^ 64 < 2 ^ 64" using xb by (simp add: less_mult_imp_div_less)
  ultimately have h: "unat h = unat x div 2 ^ 64" by (simp add: h_def unsigned_ucast_eq take_bit_nat_eq_self)
  have uhh: "unat (drop_bit 32 h) = unat h div 2 ^ 32" by (subst unat_drop_bit_eq) (rule drop_bit_eq_div)
  have "EPSILON = mask 32" by (simp add: EPSILON_def mask_eq_exp_minus_1)
  then have "h AND EPSILON = take_bit 32 h" by (simp add: take_bit_eq_mask)
  then have uhl: "unat (h AND EPSILON) = unat h mod 2 ^ 32" by (simp add: unat_mod take_bit_eq_mod)
  have ulo: "unat (ucast x :: u64) = unat x mod 2 ^ 64" by (simp add: unsigned_ucast_eq take_bit_eq_mod)
  have "unat x = unat x mod 2 ^ 64 + 2 ^ 64 * unat h" unfolding h by simp
  moreover have "unat h = unat h mod 2 ^ 32 + 2 ^ 32 * (unat h div 2 ^ 32)" by simp
  ultimately show "unat x = unat (ucast x :: u64) + 2 ^ 64 * unat (h AND EPSILON) + 2 ^ 96 * unat (drop_bit 32 h)"
    unfolding uhh uhl ulo by (rule split_128)
  show "unat (h AND EPSILON) < 2 ^ 32" unfolding uhl by simp
  show "unat (drop_bit 32 h) < 2 ^ 32" unfolding uhh using u64_less [of h] by (simp add: less_mult_imp_div_less)
qed

lemma mod_p_cong: "a + p_gl * k = b + p_gl * l \<Longrightarrow> a mod p_gl = b mod p_gl"
  by (metis mod_mult_self2)

lemma reduce128_mod: "unat (reduce128 x) mod p_gl = unat x mod p_gl"
proof -
  define h where "h = (ucast (drop_bit 64 x) :: u64)"
  define hl hh lo where "hl = unat (h AND EPSILON)" and "hh = unat (drop_bit 32 h)" and "lo = unat (ucast x :: u64)"
  have x: "unat x = lo + 2 ^ 64 * hl + 2 ^ 96 * hh" and b: "hl < 2 ^ 32" "hh < 2 ^ 32"
    using u128_parts [of x] by (simp_all only: h_def hl_def hh_def lo_def)
  have lo: "lo < 2 ^ 64" unfolding lo_def by (rule u64_less)
  have "hl * 4294967295 \<le> 4294967295 * 4294967295" using b(1) by (intro mult_right_mono) simp_all
  then have t1: "unat ((h AND EPSILON) * EPSILON) = hl * 4294967295" "hl * 4294967295 \<le> 18446744065119617025"
    by (simp_all add: unat_word_ariths gl_consts hl_def)
  define t0 where "t0 = unat (sub_gl (ucast x) (drop_bit 32 h))"
  have t0: "t0 + hh = lo \<or> t0 + hh = lo + p_gl" "t0 < 2 ^ 64"
    using b(2) lo u64_less [of "sub_gl (ucast x) (drop_bit 32 h)"] by (auto simp: t0_def unat_sub_gl lo_def hh_def)
  have r: "unat (reduce128 x) = t0 + hl * 4294967295 \<or> unat (reduce128 x) + p_gl = t0 + hl * 4294967295"
    unfolding reduce128_eq h_def [symmetric] unat_add_gl t1(1) t0_def [symmetric] using t0(2) t1(2) by auto
  have "\<exists>k. unat x + p_gl * k = unat (reduce128 x) + p_gl * (hl + 4294967297 * hh + 1)"
  proof -
    consider "t0 + hh = lo" "unat (reduce128 x) = t0 + hl * 4294967295" | "t0 + hh = lo" "unat (reduce128 x) + p_gl = t0 + hl * 4294967295"
      | "t0 + hh = lo + p_gl" "unat (reduce128 x) = t0 + hl * 4294967295" | "t0 + hh = lo + p_gl" "unat (reduce128 x) + p_gl = t0 + hl * 4294967295"
      using t0 r by blast
    then show ?thesis
    proof cases
      case 1 then show ?thesis using x by (intro exI [of _ 1]) simp
    next case 2 then show ?thesis using x by (intro exI [of _ 0]) simp
    next case 3 then show ?thesis using x by (intro exI [of _ 2]) simp
    next case 4 then show ?thesis using x by (intro exI [of _ 1]) simp
    qed
  qed
  then show ?thesis using mod_p_cong by metis
qed

lemma mul_gl_mod: "unat (mul_gl a b) mod p_gl = (unat a * unat b) mod p_gl"
proof -
  have "unat a * unat b < 2 ^ 64 * 2 ^ 64" using u64_less [of a] u64_less [of b] by (intro mult_strict_mono) auto
  moreover have "unat (ucast a :: u128) = unat a" "unat (ucast b :: u128) = unat b"
    using u64_less [of a] u64_less [of b] by (simp_all add: unsigned_ucast_eq take_bit_nat_eq_self)
  ultimately have "unat (ucast a * ucast b :: u128) = unat a * unat b" by (simp add: unat_word_ariths)
  then show ?thesis by (simp add: mul_gl_def reduce128_mod)
qed

lemma pow_loop_mod: "unat (pow_loop r b e) mod p_gl = (unat r * unat b ^ unat e) mod p_gl"
proof (induction r b e rule: pow_loop.induct)
  case (1 r b e)
  show ?case
  proof (cases "e > 0")
    case True
    let ?r = "if e AND 1 = 1 then mul_gl r b else r"
    have d: "unat (drop_bit (Suc 0) e) = unat e div 2" by (simp add: drop_bit_Suc unat_div)
    have odd: "e AND 1 = 1 \<longleftrightarrow> unat e mod 2 = 1"
      by (simp add: and_one_eq word_unat_eq_iff [of _ 1] unat_mod)
    have "unat (pow_loop r b e) mod p_gl = (unat ?r * unat (mul_gl b b) ^ (unat e div 2)) mod p_gl"
      using 1 [OF True] True by (simp add: pow_loop.simps [of r b e] d)
    also have "\<dots> = ((unat ?r mod p_gl) * ((unat (mul_gl b b) mod p_gl) ^ (unat e div 2) mod p_gl)) mod p_gl"
      by (simp only: power_mod mod_mult_eq)
    also have "\<dots> = ((unat ?r mod p_gl) * ((unat b * unat b) ^ (unat e div 2) mod p_gl)) mod p_gl"
      by (simp only: mul_gl_mod power_mod)
    also have "unat ?r mod p_gl = (unat r * unat b ^ (unat e mod 2)) mod p_gl"
      using odd by (cases "e AND 1 = 1") (auto simp: mul_gl_mod)
    also have "((unat r * unat b ^ (unat e mod 2)) mod p_gl * ((unat b * unat b) ^ (unat e div 2) mod p_gl)) mod p_gl =
        (unat r * unat b ^ (unat e mod 2) * (unat b * unat b) ^ (unat e div 2)) mod p_gl" by (simp only: mod_mult_eq)
    also have "unat r * unat b ^ (unat e mod 2) * (unat b * unat b) ^ (unat e div 2) = unat r * unat b ^ unat e"
      by (simp only: power2_eq_square [symmetric] power_mult [symmetric] mult.assoc power_add [symmetric]) (simp add: mult.commute)
    finally show ?thesis .
  qed (simp add: pow_loop.simps [of r b 0] word_greater_zero_iff)
qed

lemma pow_gl_mod: "unat (pow_gl b e) mod p_gl = unat b ^ unat e mod p_gl"
  by (simp add: pow_gl_def pow_loop_mod gl_consts)

section \<open>Inverses\<close>

text \<open>The modulus is prime and Fermat's little theorem holds, both from first principles: the primality from the
  fact that 7 is not a square modulo it.\<close>

definition is_prime :: "nat \<Rightarrow> bool" where
  "is_prime r \<longleftrightarrow> 1 < r \<and> (\<forall>d. d dvd r \<longrightarrow> d = 1 \<or> d = r)"

lemma prime_coprime: "is_prime r \<Longrightarrow> \<not> r dvd a \<Longrightarrow> coprime r a"
proof -
  assume r: "is_prime r" "\<not> r dvd a"
  have "gcd r a dvd r" "gcd r a dvd a" by simp_all
  then have "gcd r a = 1" using r unfolding is_prime_def by metis
  then show ?thesis by (simp add: coprime_iff_gcd_eq_1)
qed

lemma prime_dvd_times: "is_prime r \<Longrightarrow> r dvd a * b \<Longrightarrow> r dvd a \<or> r dvd b"
  using prime_coprime [of r a] coprime_dvd_mult_right_iff [of r a b] by blast

lemma prime_dvd_prod: "finite A \<Longrightarrow> is_prime r \<Longrightarrow> r dvd prod f A \<Longrightarrow> \<exists>i \<in> A. r dvd f i"
proof (induction A rule: finite_induct)
  case empty
  then show ?case by (simp add: is_prime_def)
next
  case (insert i A)
  then show ?case using prime_dvd_times [of r "f i" "prod f A"] by auto
qed

lemma fermat:
  assumes r: "is_prime r" and x: "\<not> r dvd x"
  shows "x ^ (r - 1) mod r = 1"
proof -
  let ?S = "{1..<r}" and ?f = "\<lambda>i. x * i mod r"
  have r1: "1 < r" using r by (simp add: is_prime_def)
  have in_S: "?f i \<in> ?S" if "i \<in> ?S" for i
  proof -
    have "\<not> r dvd i" using that by (auto dest: dvd_imp_le)
    then have "\<not> r dvd x * i" using prime_dvd_times [OF r] x by blast
    then show ?thesis using r1 by (simp add: dvd_eq_mod_eq_0 Suc_le_eq)
  qed
  have "inj_on ?f ?S"
  proof (rule linorder_inj_onI')
    fix i j assume ij: "i \<in> ?S" "j \<in> ?S" "i < j"
    show "?f i \<noteq> ?f j"
    proof
      assume "?f i = ?f j"
      then have "r dvd x * j - x * i" using mod_eq_dvd_iff_nat [of "x * i" "x * j" r] ij(3) by simp
      then have "r dvd j - i" using prime_dvd_times [OF r, of x "j - i"] x by (simp add: diff_mult_distrib2)
      then show False using ij by (auto dest: dvd_imp_le)
    qed
  qed
  then have "?f ` ?S = ?S" using in_S by (intro endo_inj_surj) auto
  then have "prod id ?S = prod ?f ?S" using prod.reindex [OF \<open>inj_on ?f ?S\<close>, of id] by simp
  also have "\<dots> mod r = (\<Prod>i \<in> ?S. x * i) mod r" by (rule mod_prod_eq)
  also have "(\<Prod>i \<in> ?S. x * i) = x ^ (r - 1) * prod id ?S" by (simp add: prod.distrib)
  finally have m: "prod id ?S mod r = x ^ (r - 1) * prod id ?S mod r" by simp
  have x1: "1 \<le> x ^ (r - 1)" using x by (cases "x = 0") auto
  then have "r dvd x ^ (r - 1) * prod id ?S - prod id ?S" using m mod_eq_dvd_iff_nat [of "prod id ?S" "x ^ (r - 1) * prod id ?S" r] by simp
  then have "r dvd (x ^ (r - 1) - 1) * prod id ?S" by (simp add: diff_mult_distrib)
  moreover have "\<not> r dvd prod id ?S" using prime_dvd_prod [OF _ r, of ?S id] by (force dest: dvd_imp_le)
  ultimately have "r dvd x ^ (r - 1) - 1" using prime_dvd_times [OF r] by blast
  then show ?thesis using mod_eq_dvd_iff_nat [OF x1, of r] r1 by simp
qed

text \<open>A chain of squarings with given quotients computes a power of 7.\<close>

fun pow7 :: "(bool \<times> nat \<times> nat) list \<Rightarrow> nat \<Rightarrow> nat \<Rightarrow> bool" where
  "pow7 [] acc r = (acc = r)"
| "pow7 ((b, q, s) # bs) acc r = (acc * acc * (if b then 7 else 1) = q * p_gl + s \<and> pow7 bs s r)"

fun bits_nat :: "(bool \<times> 'a) list \<Rightarrow> nat \<Rightarrow> nat" where
  "bits_nat [] k = k"
| "bits_nat ((b, _) # bs) k = bits_nat bs (2 * k + (if b then 1 else 0))"

lemma mod_square_cong: "a mod n = b mod n \<Longrightarrow> a * a * c mod n = b * b * c mod (n :: nat)"
  by (intro mod_mult_cong refl)

lemma pow7_correct: "pow7 bs acc r \<Longrightarrow> acc mod p_gl = 7 ^ k mod p_gl \<Longrightarrow> r mod p_gl = 7 ^ bits_nat bs k mod p_gl"
proof (induction bs acc r arbitrary: k rule: pow7.induct)
  case (2 b q s bs acc r)
  let ?c = "if b then 7 else 1 :: nat"
  have "s mod p_gl = acc * acc * ?c mod p_gl" using 2(2) by simp
  also have "\<dots> = 7 ^ k * 7 ^ k * ?c mod p_gl" by (rule mod_square_cong [OF 2(3)])
  also have "7 ^ k * 7 ^ k * ?c = 7 ^ (2 * k + (if b then 1 else 0))" by (simp add: power_add mult_2)
  finally show ?case using 2(1,2) by simp
qed simp

definition chain7 :: "(bool \<times> nat \<times> nat) list" where
  "chain7 =
    [(True, 0, 7), (True, 0, 343),
     (True, 0, 823543), (True, 0, 4747561509943),
     (True, 8553020, 11074261478625843323), (True, 46538016023229720673, 12148266161370408270),
     (True, 56002435508678139577, 7007601668316978083), (True, 18634473742308562026, 8125271997680889877),
     (True, 25052676695413524112, 2624486902016877951), (True, 2613768603856235308, 8253119735826302939),
     (True, 25847265827672469332, 3543566522599720475), (True, 4764962617243911856, 11981551684735969599),
     (True, 54475904345860342852, 10062120588441922115), (True, 38419999349886321742, 10485806445487905393),
     (True, 41723620970151811147, 4139485063330164956), (True, 6502359206338864843, 12134830135347446949),
     (True, 55878626223541897244, 4326791766630348883), (True, 7104120296206835795, 206761543466863628),
     (True, 16222502457426627, 10086585273483141421), (True, 38607052533218672533, 1855730417186139594),
     (True, 1306796883947548869, 7626447102712710903), (True, 22071042257716239407, 7790920094560990216),
     (True, 23033281637127610743, 5901922255895126089), (True, 13217985964617414221, 8935258787870022506),
     (True, 30296508974182092522, 13093775858033092690), (True, 65059110649923945754, 11243737384857129666),
     (True, 47973312218535118729, 2063617152444052883), (True, 1615982210782367681, 13064848991504552222),
     (True, 64771970039786058224, 16593403251012455084), (True, 104483870589968102175, 5859133952941131217),
     (True, 13027022755088247160, 15659105665374529263), (True, 93049110738273779291, 1753635133440165772),
     (False, 166708887468903991, 4614640910117430873), (False, 1154399424049971884, 9123114210336311365),
     (False, 4511973093009996851, 16116352524544190054), (False, 14080361158478670879, 6414415596519834757),
     (False, 2230460144622294524, 1213594585890690845), (False, 79841288704448195, 17096174751763063430),
     (False, 15844486704156700236, 5456943929260765144), (False, 1614281465338340559, 9713644485405565297),
     (False, 5114988793349933654, 16905767614792059275), (False, 15493518941330557636, 5416168637041100469),
     (False, 1590247178281506213, 17654865857378133588), (False, 16896981237942002723, 3511170319078647661),
     (False, 668319404399374695, 18146160046829613826), (False, 17850473948468743512, 9306717745644682924),
     (False, 4695408299218975106, 12380578893860276750), (False, 8309256808156222390, 6115771955107415310),
     (False, 2027602620068516376, 17776499369601055404), (False, 17130607366173278638, 16207902636198568418),
     (False, 14240784545824149997, 1532612707718625687), (False, 127334216977357403, 17492915097719143606),
     (False, 16588405924890216597, 455906449640507599), (False, 11267608529812975, 11353340290879379826),
     (False, 6987592784692205430, 1803076106186727246), (False, 176241586724885086, 13797081185216407910),
     (False, 10319406422896923811, 17870292113338400769), (False, 17311854006015885313, 549755813888),
     (False, 16384, 70368744161280), (False, 268435455, 17293822564807737345),
     (False, 16212958654255595520, 18446744069397807105), (False, 18446744069381029889, 281474976710656),
     (False, 4294967296, 18446744069414584320)]"

definition half_order :: nat where "half_order = 2 ^ 31 * 4294967295"

lemma seven_nonresidue: "7 ^ half_order mod p_gl = p_gl - 1"
proof -
  have c: "pow7 chain7 1 18446744069414584320" by (simp add: chain7_def)
  have "bits_nat chain7 0 = half_order" by (simp add: chain7_def half_order_def)
  from pow7_correct [OF c, of 0, unfolded this] show ?thesis by simp
qed

lemma least_divisor:
  assumes "1 < n" "d dvd n" "d \<noteq> 1" "d \<noteq> n"
  shows "\<exists>r. is_prime r \<and> r dvd n \<and> r * r \<le> n"
proof -
  define r where "r = (LEAST r. 1 < r \<and> r dvd n)"
  have r: "1 < r \<and> r dvd n" unfolding r_def by (rule LeastI [of _ n]) (use assms in simp)
  have least: "r \<le> s" if "1 < s" "s dvd n" for s unfolding r_def by (rule Least_le) (use that in simp)
  have d: "1 < d" "d < n" using assms by (auto dest: dvd_imp_le intro: Nat.gr0I simp: nat_neq_iff)
  obtain c where c: "n = r * c" using r by blast
  have "c \<noteq> 0" using c assms(1) by (intro notI) simp
  moreover have "c \<noteq> 1" using c least [OF d(1) assms(2)] d(2) by (intro notI) simp
  ultimately have "r \<le> c" using least [of c] c by simp
  then have "r * r \<le> n" using c by simp
  moreover have "is_prime r" unfolding is_prime_def
  proof (intro conjI allI impI)
    fix e assume e: "e dvd r"
    then have "e \<noteq> 0" using r by (intro notI) simp
    moreover have "r \<le> e" if "1 < e" using least [OF that] e r by (blast intro: dvd_trans)
    moreover have "e \<le> r" using e r by (simp add: dvd_imp_le)
    ultimately show "e = 1 \<or> e = r" by linarith
  qed (use r in simp)
  ultimately show ?thesis using r by blast
qed

lemma power_gcd_one:
  assumes "a ^ m mod r = 1" "a ^ k mod r = 1" "m \<noteq> 0"
  shows "a ^ gcd m k mod r = (1 :: nat)"
proof -
  obtain x y where xy: "m * x = k * y + gcd m k" using bezout_nat [OF assms(3)] by blast
  have one: "(a ^ n) ^ z mod r = 1" if "a ^ n mod r = 1" for n z
  proof -
    have "(a ^ n) ^ z mod r = (a ^ n mod r) ^ z mod r" by (simp only: power_mod)
    also have "\<dots> = 1 mod r" by (simp add: that)
    moreover have "r \<noteq> 1" using that by (intro notI) simp
    ultimately show ?thesis by simp
  qed
  have "a ^ (m * x) = (a ^ k) ^ y * a ^ gcd m k" unfolding xy by (simp add: power_add power_mult)
  then have "(a ^ k) ^ y * a ^ gcd m k mod r = 1" using one [OF assms(1), of x] by (simp add: power_mult)
  then show ?thesis using one [OF assms(2), of y] by (metis mod_mult_left_eq mult_1)
qed

lemma half_order_props: "2 * half_order = p_gl - 1" "half_order = 2 ^ 31 * 4294967295"
  by (simp_all add: half_order_def)

lemma divisor_of_order:
  assumes "D dvd 2 * half_order" "\<not> D dvd half_order"
  shows "2 ^ 32 dvd D"
proof -
  obtain c where c: "2 * half_order = D * c" using assms(1) by blast
  have "odd c"
  proof
    assume "even c"
    then obtain c' where "c = 2 * c'" by blast
    then have "half_order = D * c'" using c by simp
    then have "D dvd half_order" by (rule dvdI)
    then show False using assms(2) by contradiction
  qed
  then have "coprime (2 ^ 32) c" by (simp only: coprime_power_left_iff coprime_left_2_iff_odd simp_thms)
  moreover have "2 ^ 32 dvd D * c" unfolding c [symmetric] half_order_props(2) by simp
  ultimately show ?thesis by (simp add: coprime_dvd_mult_left_iff)
qed

lemma p_gl_prime: "is_prime p_gl"
proof (rule ccontr)
  assume "\<not> is_prime p_gl"
  then obtain d where "d dvd p_gl" "d \<noteq> 1" "d \<noteq> p_gl" by (auto simp: is_prime_def)
  then obtain r where r: "is_prime r" "r dvd p_gl" "r * r \<le> p_gl" using least_divisor [of p_gl d] by auto
  have r1: "1 < r" using r(1) by (simp add: is_prime_def)
  have "p_gl dvd 7 ^ half_order + 1"
  proof -
    have "(7 ^ half_order + 1) mod p_gl = (7 ^ half_order mod p_gl + 1) mod p_gl" by (rule mod_add_left_eq [symmetric])
    then show ?thesis unfolding seven_nonresidue by (simp add: dvd_eq_mod_eq_0)
  qed
  then have rd: "r dvd 7 ^ half_order + 1" using r(2) by (rule dvd_trans [rotated])
  have n7: "\<not> r dvd 7"
  proof
    assume "r dvd 7"
    moreover have "half_order \<noteq> 0" by (simp add: half_order_def)
    ultimately have "r dvd 7 ^ half_order" by (simp add: dvd_power dvd_trans)
    then have "r dvd 1" using rd by (metis dvd_add_right_iff)
    then show False using r1 by simp
  qed
  define a where "a = (7 :: nat) ^ half_order"
  have "r dvd a + 1" using rd by (simp only: a_def)
  have sq: "a * a mod r = 1"
  proof -
    have "r dvd (a + 1) * (a - 1)" using \<open>r dvd a + 1\<close> by (rule dvd_mult2)
    moreover have a1: "1 \<le> a" by (simp add: a_def)
    moreover have "(a + 1) * (a - 1) = a * a - 1" using a1 by (simp add: diff_mult_distrib2)
    ultimately have "r dvd a * a - 1" by simp
    then show ?thesis using mod_eq_dvd_iff_nat [of 1 "a * a" r] a1 r1 by (simp add: Suc_le_eq)
  qed
  have e2: "(7 :: nat) ^ (2 * half_order) = a * a" by (simp only: a_def mult_2 power_add)
  have D: "7 ^ gcd (r - 1) (2 * half_order) mod r = 1"
    by (rule power_gcd_one [OF fermat [OF r(1) n7]]) (simp only: e2 sq, use r1 in simp)
  have "\<not> gcd (r - 1) (2 * half_order) dvd half_order"
  proof
    assume "gcd (r - 1) (2 * half_order) dvd half_order"
    then obtain k where k: "half_order = gcd (r - 1) (2 * half_order) * k" by blast
    have "a mod r = (7 ^ gcd (r - 1) (2 * half_order) mod r) ^ k mod r"
      unfolding a_def by (subst k) (simp only: power_mult power_mod)
    then have "a mod r = 1" using r1 unfolding D by simp
    then have "(a + 1) mod r = 2 mod r" by (metis mod_add_left_eq one_add_one)
    then have "r dvd 2" using \<open>r dvd a + 1\<close> by (simp add: dvd_eq_mod_eq_0)
    then have r_two: "r = 2" using r1 dvd_imp_le [of r 2] by simp
    then have "2 dvd p_gl" using r1 r(2) by (simp add: r_two)
    then show False by simp
  qed
  then have "2 ^ 32 dvd gcd (r - 1) (2 * half_order)" by (intro divisor_of_order) simp_all
  then have "2 ^ 32 dvd r - 1" by (rule dvd_trans) simp
  then have "2 ^ 32 \<le> r - 1" using r1 by (intro dvd_imp_le) simp_all
  then have "2 ^ 32 * 2 ^ 32 \<le> r * r" by (intro mult_mono) simp_all
  then show False using r(3) by simp
qed

section \<open>Properties of the field operations\<close>

lemma unat_canonical: "unat (canonical a) = unat a mod p_gl"
  using u64_less [of a] by (auto simp: canonical_def word_le_nat_alt gl_consts unat_sub mod_if)

lemma add_gl_mod:
  assumes "unat a + unat b < 2 ^ 65 - 4294967295"
  shows "unat (add_gl a b) mod p_gl = (unat a + unat b) mod p_gl"
proof (cases "unat a + unat b < 2 ^ 64")
  case False
  then have "unat a + unat b = unat (add_gl a b) + p_gl" using assms by (simp add: unat_add_gl)
  then show ?thesis by (simp only: mod_add_self2)
qed (simp add: unat_add_gl)

lemma sub_gl_mod:
  assumes "unat b \<le> unat a + p_gl"
  shows "(unat (sub_gl a b) + unat b) mod p_gl = unat a mod p_gl"
proof (cases "unat b \<le> unat a")
  case False
  then have "unat (sub_gl a b) + unat b = unat a + p_gl" using assms by (simp add: unat_sub_gl)
  then show ?thesis by (simp only: mod_add_self2)
qed (simp add: unat_sub_gl)

lemma mod_p_shift:
  assumes "y = x + 4294967295 + p_gl * k" shows "x mod p_gl \<noteq> y mod p_gl"
proof
  assume e: "x mod p_gl = y mod p_gl"
  define r where "r = x mod p_gl"
  have "y mod p_gl = (r + 4294967295) mod p_gl" unfolding assms r_def by (simp only: mod_mult_self2 mod_add_left_eq)
  then have r: "(r + 4294967295) mod p_gl = r" using e by (simp only: r_def)
  have "r < p_gl" by (simp add: r_def)
  show False
  proof (cases "r + 4294967295 < p_gl")
    case False
    then have "r + 4294967295 - p_gl < p_gl" using \<open>r < p_gl\<close> by simp
    then have "(r + 4294967295) mod p_gl = r + 4294967295 - p_gl" using False by (simp only: le_mod_geq mod_less not_less)
    then show False using r False by simp
  qed (use r in simp)
qed

text \<open>When the field addition and subtraction are right. On operands in the whole range of \<open>u64\<close>, \<open>add\<close> is
  congruent to the sum exactly when the correction does not wrap a second time, that is when the sum is
  below \<open>2 ^ 65 - 2 ^ 32 + 1\<close>, and \<open>sub\<close> to the difference exactly when the subtrahend exceeds the other operand by
  at most the prime. Both always hold when one operand of the sum, or the subtrahend, is canonical.\<close>

theorem add_sub_exact:
  "(unat (add_gl a b) mod p_gl = (unat a + unat b) mod p_gl \<longleftrightarrow> unat a + unat b < 2 ^ 65 - 4294967295) \<and>
   ((unat (sub_gl a b) + unat b) mod p_gl = unat a mod p_gl \<longleftrightarrow> unat b \<le> unat a + p_gl)"
proof -
  have "unat (add_gl a b) mod p_gl \<noteq> (unat a + unat b) mod p_gl" if "\<not> unat a + unat b < 2 ^ 65 - 4294967295"
    by (rule mod_p_shift [of _ _ 2]) (use that u64_less [of a] in \<open>simp add: unat_add_gl\<close>)
  moreover have "unat a mod p_gl \<noteq> (unat (sub_gl a b) + unat b) mod p_gl" if "\<not> unat b \<le> unat a + p_gl"
    by (rule mod_p_shift [of _ _ 2]) (use that u64_less [of b] in \<open>simp add: unat_sub_gl\<close>)
  ultimately show ?thesis using add_gl_mod [of a b] sub_gl_mod [of b a] by metis
qed

text \<open>C33: Multiplication, exponentiation and inversion are right on every operand, canonical or not: the product
  and the power are congruent to those of the integers modulo the prime, and the inverse of an element that is
  not zero in the field times the element is the canonical 1.\<close>

theorem mul_inverse_correct:
  "unat (canonical (mul_gl a b)) = unat a * unat b mod p_gl \<and> unat (canonical (pow_gl a e)) = unat a ^ unat e mod p_gl \<and>
   (canonical a \<noteq> 0 \<longrightarrow> canonical (mul_gl a (inv_gl a)) = 1)"
proof (intro conjI impI)
  assume "canonical a \<noteq> 0"
  then have "unat (canonical a) \<noteq> 0" by (simp add: unat_eq_0)
  then have nd: "\<not> p_gl dvd unat a" by (simp only: unat_canonical dvd_eq_mod_eq_0 not_False_eq_True)
  have "unat (canonical (mul_gl a (inv_gl a))) = unat a * (unat (inv_gl a) mod p_gl) mod p_gl"
    by (simp only: unat_canonical mul_gl_mod mod_mult_right_eq)
  also have "unat (inv_gl a) mod p_gl = unat a ^ (p_gl - 2) mod p_gl"
    unfolding inv_gl_def pow_gl_mod by (simp add: P_gl_def)
  also have "unat a * (unat a ^ (p_gl - 2) mod p_gl) mod p_gl = unat a ^ Suc (p_gl - 2) mod p_gl"
    by (simp only: mod_mult_right_eq power_Suc)
  also have "Suc (p_gl - 2) = p_gl - 1" by simp
  also have "unat a ^ (p_gl - 1) mod p_gl = 1" by (rule fermat [OF p_gl_prime nd])
  finally show "canonical (mul_gl a (inv_gl a)) = 1" by (simp add: word_unat_eq_iff)
qed (simp_all only: unat_canonical mul_gl_mod pow_gl_mod)

theorem mul_inverse_correct_witness: "canonical (mul_gl 3 (inv_gl 3)) = 1 \<and> canonical (mul_gl 0xFFFFFFFFFFFFFFFF (inv_gl 0xFFFFFFFFFFFFFFFF)) = 1"
  using mul_inverse_correct [of 3 0 0] mul_inverse_correct [of "0xFFFFFFFFFFFFFFFF" 0 0] by (simp add: canonical_def P_gl_def)

end
