(* ===== verification/Poseidon2.thy ===== *)
theory Poseidon2
  imports Goldilocks
begin

text \<open>
  The permutation of \<open>nub/programs/goldilocks-poseidon2/src/poseidon2.rs\<close>. Its loops over the eight cells are
  maps over the cell indices, its loops over the rounds folds over the round constants.
\<close>

definition WIDTH :: nat where "WIDTH = 8"

definition RC_INITIAL :: "u64 list list" where
  "RC_INITIAL =
    [[0xdd5743e7f2a5a5d9, 0xcb3a864e58ada44b, 0xffa2449ed32f8cdc, 0x42025f65d6bd13ee,
      0x7889175e25506323, 0x34b98bb03d24b737, 0xbdcc535ecc4faa2a, 0x5b20ad869fc0d033],
     [0xf1dda5b9259dfcb4, 0x27515210be112d59, 0x4227d1718c766c3f, 0x26d333161a5bd794,
      0x49b938957bf4b026, 0x4a56b5938b213669, 0x1120426b48c8353d, 0x6b323c3f10a56cad],
     [0xce57d6245ddca6b2, 0xb1fc8d402bba1eb1, 0xb5c5096ca959bd04, 0x6db55cd306d31f7f,
      0xc49d293a81cb9641, 0x1ce55a4fe979719f, 0xa92e60a9d178a4d1, 0x002cc64973bcfd8c],
     [0xcea721cce82fb11b, 0xe5b55eb8098ece81, 0x4e30525c6f1ddd66, 0x43c6702827070987,
      0xaca68430a7b5762a, 0x3674238634df9c93, 0x88cee1c825e33433, 0xde99ae8d74b57176]]"

definition RC_FINAL :: "u64 list list" where
  "RC_FINAL =
    [[0x014ef1197d341346, 0x9725e20825d07394, 0xfdb25aef2c5bae3b, 0xbe5402dc598c971e,
      0x93a5711f04cdca3d, 0xc45a9a5b2f8fb97b, 0xfe8946a924933545, 0x2af997a27369091c],
     [0xaa62c88e0b294011, 0x058eb9d810ce9f74, 0xb3cb23eced349ae4, 0xa3648177a77b4a84,
      0x43153d905992d95d, 0xf4e2a97cda44aa4b, 0x5baa2702b908682f, 0x082923bdf4f750d1],
     [0x98ae09a325893803, 0xf8a6475077968838, 0xceb0735bf00b2c5f, 0x0a1a5d953888e072,
      0x2fcb190489f94475, 0xb5be06270dec69fc, 0x739cb934b09acf8b, 0x537750b75ec7f25b],
     [0xe9dd318bae1f3961, 0xf7462137299efe1a, 0xb1f6b8eee9adb940, 0xbdebcc8a809dfe6b,
      0x40fc1f791b178113, 0x3ac1c3362d014864, 0x9a016184bdb8aeba, 0x95f2394459fbc25e]]"

definition RC_INTERNAL :: "u64 list" where
  "RC_INTERNAL =
    [0x488897d85ff51f56, 0x1140737ccb162218, 0xa7eeb9215866ed35, 0x9bd2976fee49fcc9,
     0xc0c8f0de580a3fcc, 0x4fb2dae6ee8fc793, 0x343a89f35f37395b, 0x223b525a77ca72c8,
     0x56ccb62574aaa918, 0xc4d507d8027af9ed, 0xa080673cf0b7e95c, 0xf0184884eb70dcf8,
     0x044f10b0cb3d5c69, 0xe9e3f7993938f186, 0x1b761c80e772f459, 0x606cec607a1b5fac,
     0x14a0c2e1d45f03cd, 0x4eace8855398574f, 0xf905ca7103eff3e6, 0xf8c8f8d20862c059,
     0xb524fe8bdd678e5a, 0xfbb7865901a1ec41]"

definition MATRIX_DIAG :: "u64 list" where
  "MATRIX_DIAG =
    [0xfffffffeffffffff, 0x0000000000000001, 0x0000000000000002, 0x7fffffff80000001,
     0x0000000000000003, 0x7fffffff80000000, 0xfffffffefffffffe, 0xfffffffefffffffd]"

definition sbox :: "u64 \<Rightarrow> u64" where
  "sbox x =
     (let x2 = square x;
          x4 = square x2;
          x6 = mul_gl x4 x2 in
      mul_gl x6 x)"

definition apply_mat4 :: "u64 list \<Rightarrow> u64 list" where
  "apply_mat4 x =
     (let t01 = add_gl (x ! 0) (x ! 1);
          t23 = add_gl (x ! 2) (x ! 3);
          t0123 = add_gl t01 t23;
          t01123 = add_gl t0123 (x ! 1);
          t01233 = add_gl t0123 (x ! 3);
          new_x3 = add_gl t01233 (double (x ! 0));
          new_x1 = add_gl t01123 (double (x ! 2)) in
      [add_gl t01123 t01, new_x1, add_gl t01233 t23, new_x3])"

definition mds_light :: "u64 list \<Rightarrow> u64 list" where
  "mds_light state =
     (let state = apply_mat4 (take 4 state) @ apply_mat4 (drop 4 state);
          sums = map (\<lambda>i. add_gl (state ! i) (state ! (i + 4))) [0..<4] in
      map (\<lambda>i. add_gl (state ! i) (sums ! (i mod 4))) [0..<WIDTH])"

definition external_round :: "u64 list \<Rightarrow> u64 list \<Rightarrow> u64 list" where
  "external_round state rc = mds_light (map (\<lambda>i. sbox (add_gl (state ! i) (rc ! i))) [0..<WIDTH])"

definition internal_round :: "u64 list \<Rightarrow> u64 \<Rightarrow> u64 list" where
  "internal_round state rc =
     (let state = state[0 := sbox (add_gl (state ! 0) rc)];
          sum = fold (\<lambda>i s. add_gl s (state ! i)) [1..<WIDTH] (state ! 0) in
      map (\<lambda>i. add_gl (mul_gl (state ! i) (MATRIX_DIAG ! i)) sum) [0..<WIDTH])"

definition permute :: "u64 list \<Rightarrow> u64 list" where
  "permute state =
     (let state = mds_light state;
          state = fold (\<lambda>r s. external_round s (RC_INITIAL ! r)) [0..<4] state;
          state = fold (\<lambda>r s. internal_round s (RC_INTERNAL ! r)) [0..<22] state in
      fold (\<lambda>r s. external_round s (RC_FINAL ! r)) [0..<4] state)"

section \<open>The S-box and the linear layer\<close>

lemma mul_gl_cong:
  "unat a mod p_gl = m mod p_gl \<Longrightarrow> unat b mod p_gl = n mod p_gl \<Longrightarrow> unat (mul_gl a b) mod p_gl = m * n mod p_gl"
  unfolding mul_gl_mod by (rule mod_mult_cong)

lemma sbox_mod: "unat (sbox x) mod p_gl = unat x ^ 7 mod p_gl"
proof -
  let ?x = "unat x"
  have "unat (mul_gl (mul_gl (square (square x)) (square x)) x) mod p_gl =
      (((?x * ?x) * (?x * ?x)) * (?x * ?x)) * ?x mod p_gl"
    unfolding square_def by (intro mul_gl_cong refl)
  moreover have "(((?x * ?x) * (?x * ?x)) * (?x * ?x)) * ?x = ?x ^ 7" by (simp add: eval_nat_numeral mult.assoc)
  ultimately show ?thesis by (simp only: sbox_def Let_def)
qed

lemma unat_add_small: "unat a + unat b < 2 ^ 64 \<Longrightarrow> unat (add_gl a b) = unat a + unat b"
  by (simp add: unat_add_gl)

lemma apply_mat4_small:
  assumes "unat a < 2 ^ 61" "unat b < 2 ^ 61" "unat c < 2 ^ 61" "unat d < 2 ^ 61"
  shows "map unat (apply_mat4 [a, b, c, d]) =
    [2 * unat a + 3 * unat b + unat c + unat d, unat a + 2 * unat b + 3 * unat c + unat d,
     unat a + unat b + 2 * unat c + 3 * unat d, 3 * unat a + unat b + unat c + 2 * unat d]"
proof -
  let ?t01 = "add_gl a b" and ?t23 = "add_gl c d"
  have s: "unat ?t01 = unat a + unat b" "unat ?t23 = unat c + unat d" "unat (double a) = 2 * unat a" "unat (double c) = 2 * unat c"
    using assms by (simp_all add: unat_add_small double_def)
  then have s2: "unat (add_gl ?t01 ?t23) = unat a + unat b + unat c + unat d"
    using assms by (subst unat_add_small) simp_all
  have s3: "unat (add_gl (add_gl ?t01 ?t23) b) = unat a + 2 * unat b + unat c + unat d"
    "unat (add_gl (add_gl ?t01 ?t23) d) = unat a + unat b + unat c + 2 * unat d"
    using assms s2 by (simp_all add: unat_add_small)
  have "unat (add_gl (add_gl (add_gl ?t01 ?t23) b) ?t01) = 2 * unat a + 3 * unat b + unat c + unat d"
    "unat (add_gl (add_gl (add_gl ?t01 ?t23) b) (double c)) = unat a + 2 * unat b + 3 * unat c + unat d"
    "unat (add_gl (add_gl (add_gl ?t01 ?t23) d) ?t23) = unat a + unat b + 2 * unat c + 3 * unat d"
    "unat (add_gl (add_gl (add_gl ?t01 ?t23) d) (double a)) = 3 * unat a + unat b + unat c + 2 * unat d"
    using assms s s3 by (simp_all add: unat_add_small)
  then show ?thesis by (simp add: apply_mat4_def Let_def)
qed

text \<open>The matrix the documentation gives.\<close>

definition MAT4 :: "nat list list" where
  "MAT4 = [[2, 3, 1, 1], [1, 2, 3, 1], [1, 1, 2, 3], [3, 1, 1, 2]]"

definition mat_row :: "nat list \<Rightarrow> nat list \<Rightarrow> nat" where
  "mat_row row x = row ! 0 * x ! 0 + row ! 1 * x ! 1 + row ! 2 * x ! 2 + row ! 3 * x ! 3"

text \<open>The S-box is the seventh power in the field on every operand. The four by four layer is the documented
  matrix as long as its operands are below \<open>2 ^ 61\<close>, where no addition wraps; on the canonical operands
  \<open>[p - 1, 2 ^ 32 - 1, p - 1, 2 ^ 32 - 1]\<close> it is not, because an inner addition wraps twice.\<close>

theorem sbox_mat4:
  "unat (sbox x) mod p_gl = unat x ^ 7 mod p_gl \<and>
   (length xs = 4 \<and> (\<forall>y \<in> set xs. unat y < 2 ^ 61) \<longrightarrow>
      map unat (apply_mat4 xs) = map (\<lambda>row. mat_row row (map unat xs)) MAT4) \<and>
   (let ys = [P_gl - 1, EPSILON, P_gl - 1, EPSILON] in
      map canonical ys = ys \<and> unat (apply_mat4 ys ! 0) mod p_gl \<noteq> mat_row (MAT4 ! 0) (map unat ys) mod p_gl)"
proof (intro conjI impI)
  assume a: "length xs = 4 \<and> (\<forall>y \<in> set xs. unat y < 2 ^ 61)"
  obtain x0 x1 x2 x3 where xs: "xs = [x0, x1, x2, x3]" using conjunct1 [OF a] by (auto simp: length_Suc_conv eval_nat_numeral)
  have b: "unat x0 < 2 ^ 61" "unat x1 < 2 ^ 61" "unat x2 < 2 ^ 61" "unat x3 < 2 ^ 61" using a by (simp_all add: xs)
  show "map unat (apply_mat4 xs) = map (\<lambda>row. mat_row row (map unat xs)) MAT4"
    unfolding xs apply_mat4_small [OF b] by (simp add: MAT4_def mat_row_def)
next
  show "let ys = [P_gl - 1, EPSILON, P_gl - 1, EPSILON] in
      map canonical ys = ys \<and> unat (apply_mat4 ys ! 0) mod p_gl \<noteq> mat_row (MAT4 ! 0) (map unat ys) mod p_gl"
    by (simp add: canonical_def P_gl_def EPSILON_def apply_mat4_def Let_def add_gl_def overflowing_add_def MAT4_def mat_row_def)
qed (rule sbox_mod)

theorem sbox_mat4_witness:
  "map unat (apply_mat4 [1, 2, 3, 4]) = [15, 18, 21, 16] \<and> unat (sbox 2) mod p_gl = 128"
  using sbox_mat4 [of 2 "[1, 2, 3, 4]"] by (simp add: MAT4_def mat_row_def)

end
