(* ===== verification/Ssz.thy ===== *)
theory Ssz
  imports Prelude
begin

text \<open>
  The SSZ codec \<open>rust/ssz\<close>: decode errors (\<open>error.rs\<close>), slice helpers and the traits \<open>Encode\<close>,
  \<open>Decode\<close>, \<open>HashTreeRoot\<close> (\<open>lib.rs\<close>), merkleization (\<open>merkle.rs\<close>), unsigned integers and booleans
  (\<open>primitives.rs\<close>), \<open>MissingOr\<close> (\<open>missing.rs\<close>), lists and vectors (\<open>list.rs\<close>, \<open>vector.rs\<close>).
  The three traits of a type are a record \<open>ssz_ops\<close> of their functions. The digest \<open>D\<close> of the
  \<open>digest\<close> crate is a parameter, a function from the concatenation of the updates to the 32-byte output.
  Encoding panics when an offset does not fit 32 bits. \<open>[u8; 32]\<close> values are byte lists of length 32.
\<close>

section \<open>Errors and traits\<close>

datatype ssz_error =
    UnexpectedEof nat nat
  | SszTrailingBytes nat nat
  | InvalidOffset nat nat nat
  | OffsetsNotMonotonic nat nat
  | BoundExceeded u64 u64
  | LengthMismatch nat nat
  | InvalidSelector u8
  | InvalidBool u8
  | MissingBitlistSentinel
  | ExcessBits
  | NotSorted
  | ZeroNonZero
  | Custom string

type_synonym digest = "bytes \<Rightarrow> bytes"

definition BYTES_PER_LENGTH_OFFSET :: nat where "BYTES_PER_LENGTH_OFFSET = 4"
definition BYTES_PER_CHUNK :: nat where "BYTES_PER_CHUNK = 32"

record 'a ssz_ops =
  is_ssz_fixed_len :: bool
  ssz_fixed_len :: nat
  is_basic_type :: bool
  ssz_bytes_len :: "'a \<Rightarrow> nat"
  as_ssz_bytes :: "'a \<Rightarrow> bytes may_panic"
  from_ssz_bytes :: "bytes \<Rightarrow> ssz_error + 'a"
  hash_tree_root :: "digest \<Rightarrow> 'a \<Rightarrow> bytes may_panic"

definition read_slice :: "bytes \<Rightarrow> nat \<Rightarrow> nat \<Rightarrow> ssz_error + bytes" where
  "read_slice bs ofs len =
     (if ofs + len \<ge> 2 ^ 64 \<or> ofs + len > length bs then Inl (UnexpectedEof len (length bs - ofs))
      else Inr (take len (drop ofs bs)))"

definition read_offset :: "bytes \<Rightarrow> nat \<Rightarrow> ssz_error + nat" where
  "read_offset bs ofs =
     (case read_slice bs ofs BYTES_PER_LENGTH_OFFSET of
        Inl e \<Rightarrow> Inl e
      | Inr s \<Rightarrow> Inr (unat (from_le_bytes s :: u32)))"

section \<open>Merkleization\<close>

definition zero_chunk :: bytes where "zero_chunk = replicate 32 0"

definition hash_pair :: "digest \<Rightarrow> bytes \<Rightarrow> bytes \<Rightarrow> bytes" where
  "hash_pair D left right = D (left @ right)"

text \<open>The loop of \<open>pack_bytes\<close>: a full chunk at a time, the last one padded with zeros.\<close>

fun pack_loop :: "nat \<Rightarrow> bytes \<Rightarrow> bytes list" where
  "pack_loop 0 bs = []"
| "pack_loop (Suc n) bs =
     (let k = min BYTES_PER_CHUNK (length bs) in
      (take k bs @ replicate (BYTES_PER_CHUNK - k) 0) # pack_loop n (drop k bs))"

definition pack_bytes :: "bytes \<Rightarrow> bytes list" where
  "pack_bytes bs = (if bs = [] then [] else pack_loop (div_ceil (length bs) BYTES_PER_CHUNK) bs)"

text \<open>\<open>usize::next_power_of_two\<close>, and \<open>trailing_zeros\<close> of what it returns. When the power does not fit 64 bits
  the former wraps to 0, whose 64 trailing zeros are those of \<open>2 ^ 64\<close>.\<close>

fun next_power_of_two :: "nat \<Rightarrow> nat" where
  "next_power_of_two n = (if n \<le> 1 then 1 else 2 * next_power_of_two ((n + 1) div 2))"

declare next_power_of_two.simps [simp del]

fun usize_trailing_zeros :: "nat \<Rightarrow> nat" where
  "usize_trailing_zeros n = (if n = 0 then 64 else if even n then Suc (usize_trailing_zeros (n div 2)) else 0)"

declare usize_trailing_zeros.simps [simp del]

definition zero_hash :: "digest \<Rightarrow> nat \<Rightarrow> bytes" where
  "zero_hash D depth = ((\<lambda>c. hash_pair D c c) ^^ depth) zero_chunk"

text \<open>The zero-hash table: \<open>zero_hash\<close> of the levels below \<open>depth\<close>, each from the one before.\<close>

fun zero_table :: "digest \<Rightarrow> nat \<Rightarrow> bytes \<Rightarrow> bytes list" where
  "zero_table D 0 z = [z]"
| "zero_table D (Suc n) z = z # zero_table D n (hash_pair D z z)"

definition next_level :: "digest \<Rightarrow> bytes \<Rightarrow> bytes list \<Rightarrow> bytes list" where
  "next_level D zero_h level =
     map (\<lambda>i. hash_pair D (level ! (2 * i)) (if 2 * i + 1 < length level then level ! (2 * i + 1) else zero_h))
       [0..<div_ceil (length level) 2]"

definition merkleize :: "digest \<Rightarrow> bytes list \<Rightarrow> nat \<Rightarrow> bytes" where
  "merkleize D chunks limit =
     (let target = max (max limit (length chunks)) 1;
          padded_len = next_power_of_two target;
          depth = usize_trailing_zeros padded_len in
      if padded_len = 1 then (case chunks of c # _ \<Rightarrow> c | [] \<Rightarrow> zero_chunk)
      else if chunks = [] then zero_hash D depth
      else fold (next_level D) (take depth (zero_table D (depth - 1) zero_chunk)) chunks ! 0)"

definition mix_in_length :: "digest \<Rightarrow> bytes \<Rightarrow> u64 \<Rightarrow> bytes" where
  "mix_in_length D root len = hash_pair D root (to_le_bytes 8 len @ replicate 24 0)"

definition mix_in_selector :: "digest \<Rightarrow> bytes \<Rightarrow> u8 \<Rightarrow> bytes" where
  "mix_in_selector D root selector = hash_pair D root (selector # replicate 31 0)"

section \<open>Integers and booleans\<close>

text \<open>\<open>impl_uint!\<close> for a type of \<open>n\<close> bytes.\<close>

definition ssz_uint :: "nat \<Rightarrow> 'a::len word ssz_ops" where
  "ssz_uint n =
     \<lparr>is_ssz_fixed_len = True, ssz_fixed_len = n, is_basic_type = True, ssz_bytes_len = (\<lambda>_. n),
      as_ssz_bytes = (\<lambda>w. Returns (to_le_bytes n w)),
      from_ssz_bytes = (\<lambda>bs. if length bs \<noteq> n then Inl (UnexpectedEof n (length bs)) else Inr (from_le_bytes bs)),
      hash_tree_root = (\<lambda>D w. Returns (to_le_bytes n w @ replicate (32 - n) 0))\<rparr>"

definition ssz_bool :: "bool ssz_ops" where
  "ssz_bool =
     \<lparr>is_ssz_fixed_len = True, ssz_fixed_len = 1, is_basic_type = True, ssz_bytes_len = (\<lambda>_. 1),
      as_ssz_bytes = (\<lambda>b. Returns [if b then 1 else 0]),
      from_ssz_bytes = (\<lambda>bs. if length bs \<noteq> 1 then Inl (UnexpectedEof 1 (length bs))
        else if bs ! 0 = 0 then Inr False else if bs ! 0 = 1 then Inr True else Inl (InvalidBool (bs ! 0))),
      hash_tree_root = (\<lambda>D b. Returns ((if b then 1 else 0) # replicate 31 0))\<rparr>"

section \<open>Placeholders\<close>

datatype 'a missing_or = Materialized 'a | Missing bytes

definition ssz_missing_or :: "'a ssz_ops \<Rightarrow> 'a missing_or ssz_ops" where
  "ssz_missing_or T =
     \<lparr>is_ssz_fixed_len = False, ssz_fixed_len = BYTES_PER_LENGTH_OFFSET, is_basic_type = False,
      ssz_bytes_len = (\<lambda>x. 1 + (case x of Materialized t \<Rightarrow> ssz_bytes_len T t | Missing _ \<Rightarrow> 32)),
      as_ssz_bytes = (\<lambda>x. case x of
          Materialized t \<Rightarrow> bind_panic (as_ssz_bytes T t) (\<lambda>bs. Returns (0 # bs))
        | Missing h \<Rightarrow> Returns (1 # h)),
      from_ssz_bytes = (\<lambda>bs. case read_slice bs 0 1 of
          Inl e \<Rightarrow> Inl e
        | Inr s \<Rightarrow>
            if s ! 0 = 0 then (case from_ssz_bytes T (drop 1 bs) of Inl e \<Rightarrow> Inl e | Inr t \<Rightarrow> Inr (Materialized t))
            else if s ! 0 = 1 then
              (if length bs \<noteq> 33 then Inl (SszTrailingBytes 33 (length bs)) else Inr (Missing (drop 1 bs)))
            else Inl (InvalidSelector (s ! 0))),
      hash_tree_root = (\<lambda>D x. case x of Materialized t \<Rightarrow> hash_tree_root T D t | Missing h \<Rightarrow> Returns h)\<rparr>"

section \<open>Collections\<close>

text \<open>Encoding all elements, in order.\<close>

fun encode_all :: "'a ssz_ops \<Rightarrow> 'a list \<Rightarrow> bytes list may_panic" where
  "encode_all T [] = Returns []"
| "encode_all T (x # xs) =
     bind_panic (as_ssz_bytes T x) (\<lambda>b. bind_panic (encode_all T xs) (\<lambda>bs. Returns (b # bs)))"

fun hash_all :: "'a ssz_ops \<Rightarrow> digest \<Rightarrow> 'a list \<Rightarrow> bytes list may_panic" where
  "hash_all T D [] = Returns []"
| "hash_all T D (x # xs) =
     bind_panic (hash_tree_root T D x) (\<lambda>b. bind_panic (hash_all T D xs) (\<lambda>bs. Returns (b # bs)))"

text \<open>The running offset of \<open>encode_var_list_payloads\<close>, which panics when it leaves 32 bits. The length of a payload is
  cut to 32 bits before it is added.\<close>

fun payload_offsets :: "u32 \<Rightarrow> bytes list \<Rightarrow> u32 list may_panic" where
  "payload_offsets running [] = Returns []"
| "payload_offsets running (p # ps) =
     (if unat running + unat (of_nat (length p) :: u32) \<ge> 2 ^ 32 then Panics
      else bind_panic (payload_offsets (running + of_nat (length p)) ps) (\<lambda>os. Returns (running # os)))"

definition join_payloads :: "bytes list \<Rightarrow> bytes may_panic" where
  "join_payloads ps =
     bind_panic (payload_offsets (of_nat (length ps * BYTES_PER_LENGTH_OFFSET)) ps)
       (\<lambda>os. Returns (concat (map (to_le_bytes 4) os) @ concat ps))"

definition encode_var_list_payloads :: "'a ssz_ops \<Rightarrow> 'a list \<Rightarrow> bytes may_panic" where
  "encode_var_list_payloads T xs = bind_panic (encode_all T xs) join_payloads"

definition encode_items :: "'a ssz_ops \<Rightarrow> 'a list \<Rightarrow> bytes may_panic" where
  "encode_items T xs =
     (if is_ssz_fixed_len T then bind_panic (encode_all T xs) (\<lambda>bs. Returns (concat bs))
      else encode_var_list_payloads T xs)"

fun decode_slices :: "'a ssz_ops \<Rightarrow> bytes list \<Rightarrow> ssz_error + 'a list" where
  "decode_slices T [] = Inr []"
| "decode_slices T (b # bs) =
     (case from_ssz_bytes T b of
        Inl e \<Rightarrow> Inl e
      | Inr x \<Rightarrow> (case decode_slices T bs of Inl e \<Rightarrow> Inl e | Inr xs \<Rightarrow> Inr (x # xs)))"

text \<open>The loop that reads offsets \<open>i\<close> to \<open>n - 1\<close>, the previous one being \<open>prev\<close>.\<close>

fun read_offsets :: "bytes \<Rightarrow> nat \<Rightarrow> nat \<Rightarrow> nat \<Rightarrow> nat \<Rightarrow> ssz_error + nat list" where
  "read_offsets bs first i 0 prev = Inr []"
| "read_offsets bs first i (Suc n) prev =
     (case read_offset bs (i * BYTES_PER_LENGTH_OFFSET) of
        Inl e \<Rightarrow> Inl e
      | Inr ofs \<Rightarrow>
          if ofs < prev then Inl (OffsetsNotMonotonic prev ofs)
          else if ofs > length bs then Inl (InvalidOffset ofs (length bs) first)
          else (case read_offsets bs first (i + 1) n ofs of Inl e \<Rightarrow> Inl e | Inr os \<Rightarrow> Inr (ofs # os)))"

text \<open>The slices between consecutive offsets, the last one ending at the end of the input.\<close>

fun slices_at :: "bytes \<Rightarrow> nat list \<Rightarrow> bytes list" where
  "slices_at bs [] = []"
| "slices_at bs [a] = [drop a bs]"
| "slices_at bs (a # b # os) = take (b - a) (drop a bs) # slices_at bs (b # os)"

definition decode_var_collection :: "'a ssz_ops \<Rightarrow> bytes \<Rightarrow> nat option \<Rightarrow> ssz_error + 'a list" where
  "decode_var_collection T bs expected_len =
     (if bs = [] then
        (case expected_len of
           None \<Rightarrow> Inr []
         | Some n \<Rightarrow> if n = 0 then Inr [] else Inl (LengthMismatch n 0))
      else case read_offset bs 0 of
        Inl e \<Rightarrow> Inl e
      | Inr first \<Rightarrow>
          if first mod BYTES_PER_LENGTH_OFFSET \<noteq> 0 then Inl (InvalidOffset first (length bs) 0)
          else if first > length bs then Inl (InvalidOffset first (length bs) 0)
          else
            let n = first div BYTES_PER_LENGTH_OFFSET in
            if (case expected_len of Some m \<Rightarrow> n \<noteq> m | None \<Rightarrow> False) then Inl (LengthMismatch (the expected_len) n)
            else case read_offsets bs first 1 (n - 1) first of
              Inl e \<Rightarrow> Inl e
            | Inr os \<Rightarrow> decode_slices T (if n = 0 then [] else slices_at bs (first # os)))"

text \<open>The slices of \<open>k\<close> bytes of the input.\<close>

definition equal_slices :: "nat \<Rightarrow> nat \<Rightarrow> bytes \<Rightarrow> bytes list" where
  "equal_slices n k bs = map (\<lambda>i. take k (drop (i * k) bs)) [0..<n]"

definition decode_list :: "'a ssz_ops \<Rightarrow> bytes \<Rightarrow> u64 \<Rightarrow> ssz_error + 'a list" where
  "decode_list T bs cap =
     (if is_ssz_fixed_len T then
        let elem_size = ssz_fixed_len T in
        if elem_size = 0 then Inl (Custom ''zero-sized fixed-length list element'')
        else if length bs mod elem_size \<noteq> 0
        then Inl (LengthMismatch (div_ceil (length bs) elem_size * elem_size) (length bs))
        else
          let n = length bs div elem_size in
          if of_nat n > cap then Inl (BoundExceeded (of_nat n) cap)
          else decode_slices T (equal_slices n elem_size bs)
      else case decode_var_collection T bs None of
          Inl e \<Rightarrow> Inl e
        | Inr out \<Rightarrow> if of_nat (length out) > cap then Inl (BoundExceeded (of_nat (length out)) cap) else Inr out)"

definition decode_fixed_vector :: "'a ssz_ops \<Rightarrow> bytes \<Rightarrow> nat \<Rightarrow> ssz_error + 'a list" where
  "decode_fixed_vector T bs n =
     (if is_ssz_fixed_len T then
        let elem_size = ssz_fixed_len T;
            expected = min (elem_size * n) (2 ^ 64 - 1) in
        if length bs \<noteq> expected then Inl (LengthMismatch expected (length bs))
        else decode_slices T (equal_slices n elem_size bs)
      else decode_var_collection T bs (Some n))"

definition items_len :: "'a ssz_ops \<Rightarrow> 'a list \<Rightarrow> nat" where
  "items_len T xs =
     (if is_ssz_fixed_len T then ssz_fixed_len T * length xs
      else length xs * BYTES_PER_LENGTH_OFFSET + (\<Sum>x \<leftarrow> xs. ssz_bytes_len T x))"

text \<open>The root of the elements, with the limit in elements.\<close>

definition items_root :: "'a ssz_ops \<Rightarrow> digest \<Rightarrow> 'a list \<Rightarrow> nat \<Rightarrow> bytes may_panic" where
  "items_root T D xs limit =
     (if is_basic_type T then
        bind_panic (encode_all T xs) (\<lambda>bs.
          Returns (merkleize D (pack_bytes (concat bs))
            (max (div_ceil (min (limit * ssz_fixed_len T) (2 ^ 64 - 1)) 32) 1)))
      else bind_panic (hash_all T D xs) (\<lambda>roots. Returns (merkleize D roots (max limit 1))))"

text \<open>\<open>List<T, N>\<close>, with \<open>from_vec\<close> and \<open>push\<close>.\<close>

definition list_from_vec :: "u64 \<Rightarrow> 'a list \<Rightarrow> ssz_error + 'a list" where
  "list_from_vec N v = (if of_nat (length v) > N then Inl (BoundExceeded (of_nat (length v)) N) else Inr v)"

definition list_push :: "u64 \<Rightarrow> 'a list \<Rightarrow> 'a \<Rightarrow> ssz_error + 'a list" where
  "list_push N xs x =
     (if of_nat (length xs) \<ge> N then Inl (BoundExceeded (of_nat (length xs) + 1) N) else Inr (xs @ [x]))"

definition ssz_list :: "u64 \<Rightarrow> 'a ssz_ops \<Rightarrow> 'a list ssz_ops" where
  "ssz_list N T =
     \<lparr>is_ssz_fixed_len = False, ssz_fixed_len = BYTES_PER_LENGTH_OFFSET, is_basic_type = False,
      ssz_bytes_len = items_len T, as_ssz_bytes = encode_items T,
      from_ssz_bytes = (\<lambda>bs. decode_list T bs N),
      hash_tree_root = (\<lambda>D xs. bind_panic (items_root T D xs (unat N))
        (\<lambda>r. Returns (mix_in_length D r (of_nat (length xs)))))\<rparr>"

definition ssz_vector :: "nat \<Rightarrow> 'a ssz_ops \<Rightarrow> 'a list ssz_ops" where
  "ssz_vector N T =
     \<lparr>is_ssz_fixed_len = is_ssz_fixed_len T,
      ssz_fixed_len = (if is_ssz_fixed_len T then ssz_fixed_len T * N else BYTES_PER_LENGTH_OFFSET),
      is_basic_type = False, ssz_bytes_len = items_len T, as_ssz_bytes = encode_items T,
      from_ssz_bytes = (\<lambda>bs. decode_fixed_vector T bs N),
      hash_tree_root = (\<lambda>D xs. items_root T D xs N)\<rparr>"

end
