(* ===== verification/Ssz_Laws.thy ===== *)
theory Ssz_Laws
  imports Ssz
begin

text \<open>
  What the SSZ codec promises: \<open>merkleize\<close> computes the root of the padded tree, and the locale
  \<open>ssz_codec\<close> states the contract of \<open>Encode\<close> and \<open>Decode\<close> that the integers, \<open>MissingOr\<close>, lists and
  vectors satisfy, the composite types over every element type that satisfies it. Its extension
  \<open>strict_codec\<close> adds that nothing but an encoding decodes.
\<close>

section \<open>Merkleization is the root of the padded tree\<close>

text \<open>The root of a perfect binary tree over \<open>2 ^ d\<close> leaves, from the top.\<close>

fun tree_root :: "digest \<Rightarrow> nat \<Rightarrow> bytes list \<Rightarrow> bytes" where
  "tree_root D 0 cs = cs ! 0"
| "tree_root D (Suc d) cs = hash_pair D (tree_root D d (take (2 ^ d) cs)) (tree_root D d (drop (2 ^ d) cs))"

definition pair_up :: "digest \<Rightarrow> bytes list \<Rightarrow> bytes list" where
  "pair_up D cs = map (\<lambda>i. hash_pair D (cs ! (2 * i)) (cs ! (2 * i + 1))) [0..<length cs div 2]"

lemma length_pair_up [simp]: "length (pair_up D cs) = length cs div 2"
  by (simp add: pair_up_def)

lemma pair_up_take: "even k \<Longrightarrow> k \<le> length cs \<Longrightarrow> pair_up D (take k cs) = take (k div 2) (pair_up D cs)"
  by (rule nth_equalityI) (auto simp: pair_up_def)

lemma pair_up_drop: "even k \<Longrightarrow> k \<le> length cs \<Longrightarrow> pair_up D (drop k cs) = drop (k div 2) (pair_up D cs)"
  by (rule nth_equalityI) (auto simp: pair_up_def algebra_simps)

lemma tree_root_pair_up: "length cs = 2 ^ Suc d \<Longrightarrow> tree_root D (Suc d) cs = tree_root D d (pair_up D cs)"
proof (induction d arbitrary: cs)
  case 0
  then show ?case by (simp add: pair_up_def)
next
  case (Suc d)
  have p: "even ((2 :: nat) ^ Suc d)" "(2 :: nat) ^ Suc d div 2 = 2 ^ d" by simp_all
  have "tree_root D (Suc (Suc d)) cs =
      hash_pair D (tree_root D (Suc d) (take (2 ^ Suc d) cs)) (tree_root D (Suc d) (drop (2 ^ Suc d) cs))" by simp
  also have "tree_root D (Suc d) (take (2 ^ Suc d) cs) = tree_root D d (take (2 ^ d) (pair_up D cs))"
    using Suc.IH [of "take (2 ^ Suc d) cs"] pair_up_take [OF p(1), of cs] p(2) Suc.prems by simp
  also have "tree_root D (Suc d) (drop (2 ^ Suc d) cs) = tree_root D d (drop (2 ^ d) (pair_up D cs))"
    using Suc.IH [of "drop (2 ^ Suc d) cs"] pair_up_drop [OF p(1), of cs] p(2) Suc.prems by simp
  finally show ?case by simp
qed

text \<open>One level of the code is one level of the padded tree.\<close>

definition padded :: "nat \<Rightarrow> bytes \<Rightarrow> bytes list \<Rightarrow> bytes list" where
  "padded n z cs = cs @ replicate (n - length cs) z"

lemma length_padded [simp]: "length cs \<le> n \<Longrightarrow> length (padded n z cs) = n"
  by (simp add: padded_def)

lemma nth_padded: "i < n \<Longrightarrow> padded n z cs ! i = (if i < length cs then cs ! i else z)"
  by (auto simp: padded_def nth_append)

lemma length_next_level: "length (next_level D z cs) = div_ceil (length cs) 2"
  by (simp add: next_level_def)

lemma next_level_padded:
  assumes "length cs \<le> 2 * n"
  shows "pair_up D (padded (2 * n) z cs) = padded n (hash_pair D z z) (next_level D z cs)"
proof (rule nth_equalityI)
  have l: "length (next_level D z cs) \<le> n" using assms by (simp add: length_next_level div_ceil_def)
  then show "length (pair_up D (padded (2 * n) z cs)) = length (padded n (hash_pair D z z) (next_level D z cs))"
    using assms by simp
  fix i assume "i < length (pair_up D (padded (2 * n) z cs))"
  then have i: "i < n" using assms by simp
  have c: "i < div_ceil (length cs) 2 \<longleftrightarrow> 2 * i < length cs" by (auto simp: div_ceil_def)
  show "pair_up D (padded (2 * n) z cs) ! i = padded n (hash_pair D z z) (next_level D z cs) ! i"
    using i assms c by (auto simp: nth_padded pair_up_def length_next_level next_level_def)
qed

lemma fold_levels:
  "length cs \<le> 2 ^ d \<Longrightarrow> cs \<noteq> [] \<Longrightarrow>
     fold (next_level D) (take d (zero_table D (d - 1) z)) cs ! 0 = tree_root D d (padded (2 ^ d) z cs)"
proof (induction d arbitrary: cs z)
  case 0
  then show ?case by (simp add: padded_def nth_append)
next
  case (Suc d)
  have t: "take (Suc d) (zero_table D d z) = z # take d (zero_table D (d - 1) (hash_pair D z z))" by (cases d) simp_all
  have l: "length (next_level D z cs) \<le> 2 ^ d" "next_level D z cs \<noteq> []"
    using Suc.prems by (auto simp: length_next_level div_ceil_def next_level_def)
  have "fold (next_level D) (take (Suc d) (zero_table D d z)) cs ! 0 = tree_root D d (padded (2 ^ d) (hash_pair D z z) (next_level D z cs))"
    unfolding t using Suc.IH [OF l] by simp
  also have "\<dots> = tree_root D (Suc d) (padded (2 ^ Suc d) z cs)"
    using next_level_padded [of cs "2 ^ d" D z] tree_root_pair_up [of "padded (2 ^ Suc d) z cs" d D] Suc.prems by simp
  finally show ?case by simp
qed

lemma tree_root_zeros: "tree_root D d (replicate (2 ^ d) z) = ((\<lambda>c. hash_pair D c c) ^^ d) z"
proof (induction d)
  case (Suc d)
  then show ?case by (simp add: take_replicate)
qed simp

lemma next_power_of_two_exp: "\<exists>d. next_power_of_two n = 2 ^ d \<and> n \<le> 2 ^ d \<and> (d = 0 \<or> 2 ^ (d - 1) < n)"
proof (induction n rule: next_power_of_two.induct)
  case (1 n)
  show ?case
  proof (cases "n \<le> 1")
    case True
    then show ?thesis by (intro exI [of _ 0]) (simp add: next_power_of_two.simps)
  next
    case False
    then obtain d where d: "next_power_of_two ((n + 1) div 2) = 2 ^ d" "(n + 1) div 2 \<le> 2 ^ d" "d = 0 \<or> 2 ^ (d - 1) < (n + 1) div 2"
      using 1 by blast
    have "n \<le> 2 ^ Suc d" using d(2) by simp
    moreover have "2 ^ d < n" using d(3) False by (cases d) auto
    ultimately show ?thesis using d(1) False by (intro exI [of _ "Suc d"]) (simp add: next_power_of_two.simps [of n])
  qed
qed

lemma trailing_zeros_exp: "usize_trailing_zeros (2 ^ d) = d"
  by (induction d) (simp_all add: usize_trailing_zeros.simps)

text \<open>C24: \<open>merkleize\<close>, which touches only the given chunks and a table of zero hashes, computes the root the
  specification defines: the root of the perfect binary tree over the chunks padded with zero chunks to
  the smallest power of two that is at least the limit and the number of chunks.\<close>

theorem merkleize_spec:
  "\<exists>d. 2 ^ d \<ge> max (max limit (length chunks)) 1 \<and> (\<forall>e. 2 ^ e \<ge> max (max limit (length chunks)) 1 \<longrightarrow> d \<le> e) \<and>
     merkleize D chunks limit = tree_root D d (chunks @ replicate (2 ^ d - length chunks) zero_chunk)"
proof -
  let ?t = "max (max limit (length chunks)) 1"
  obtain d where d: "next_power_of_two ?t = 2 ^ d" "?t \<le> 2 ^ d" "d = 0 \<or> 2 ^ (d - 1) < ?t"
    using next_power_of_two_exp by blast
  have least: "d \<le> e" if "?t \<le> 2 ^ e" for e
  proof (rule ccontr)
    assume "\<not> d \<le> e"
    then have "(2 :: nat) ^ e \<le> 2 ^ (d - 1)" "d \<noteq> 0" by (auto intro: power_increasing)
    then show False using d(3) that by linarith
  qed
  have "merkleize D chunks limit = tree_root D d (padded (2 ^ d) zero_chunk chunks)"
  proof (cases d)
    case 0
    then show ?thesis using d(1,2) by (cases chunks) (auto simp: merkleize_def Let_def padded_def)
  next
    case (Suc k)
    then have "next_power_of_two ?t \<noteq> 1" using d(1) by (simp add: one_less_power)
    then show ?thesis
      using d fold_levels [of chunks d D zero_chunk] tree_root_zeros [of D d zero_chunk]
      by (auto simp: merkleize_def Let_def trailing_zeros_exp zero_hash_def padded_def)
  qed
  then show ?thesis using d(2) least unfolding padded_def by blast
qed


theorem merkleize_spec_witness: "merkleize (\<lambda>x. x) [[1], [2], [3]] 0 = [1, 2, 3] @ zero_chunk"
proof -
  let ?c = "[[1], [2], [3]] :: bytes list"
  obtain d where d: "max (max 0 (length ?c)) 1 \<le> 2 ^ d" "\<forall>e. max (max 0 (length ?c)) 1 \<le> 2 ^ e \<longrightarrow> d \<le> e"
    "merkleize (\<lambda>x. x) ?c 0 = tree_root (\<lambda>x. x) d (?c @ replicate (2 ^ d - length ?c) zero_chunk)"
    using merkleize_spec [of 0 ?c "\<lambda>x. x"] by blast
  have "d \<le> 2" using d(2) by simp
  moreover have "d \<noteq> 0" "d \<noteq> 1" using d(1) by (intro notI; simp)+
  ultimately have "d = Suc (Suc 0)" by simp
  then show ?thesis using d(3) by (simp add: hash_pair_def)
qed

section \<open>Codecs\<close>

text \<open>The contract of \<open>Encode\<close> and \<open>Decode\<close> of a type, for the values \<open>ok\<close> accepts: what is encoded in less than
  4 GiB decodes to the same value, a fixed-length type has encodings of its length, and
  \<open>ssz_bytes_len\<close> announces the length.\<close>

locale ssz_codec =
  fixes T :: "'a ssz_ops" and ok :: "'a \<Rightarrow> bool"
  assumes decode_encode: "ok x \<Longrightarrow> as_ssz_bytes T x = Returns bs \<Longrightarrow> length bs < 2 ^ 32 \<Longrightarrow> from_ssz_bytes T bs = Inr x"
    and fixed_size: "is_ssz_fixed_len T \<Longrightarrow> ok x \<Longrightarrow> as_ssz_bytes T x = Returns bs \<Longrightarrow> length bs = ssz_fixed_len T"
    and fixed_pos: "is_ssz_fixed_len T \<Longrightarrow> 0 < ssz_fixed_len T"
    and announced: "ok x \<Longrightarrow> as_ssz_bytes T x = Returns bs \<Longrightarrow> ssz_bytes_len T x = length bs"

text \<open>A codec is strict when every accepted input is the encoding of its value.\<close>

locale strict_codec = ssz_codec +
  assumes encode_decode: "from_ssz_bytes T bs = Inr x \<Longrightarrow> length bs < 2 ^ 32 \<Longrightarrow> ok x \<and> as_ssz_bytes T x = Returns bs"

lemma strict_uint: "LENGTH('a) = 8 * n \<Longrightarrow> strict_codec (ssz_uint n :: 'a::len word ssz_ops) (\<lambda>_. True)"
proof -
  assume n: "LENGTH('a) = 8 * n"
  then have pos: "0 < n" using len_gt_0 [where ?'a = 'a] by (cases n) simp_all
  show ?thesis
    by unfold_locales (use n pos in \<open>auto simp: ssz_uint_def from_to_le_bytes to_from_le_bytes split: if_splits\<close>)
qed

interpretation u8_codec: strict_codec "ssz_uint 1 :: u8 ssz_ops" "\<lambda>_. True" by (rule strict_uint) simp
interpretation u16_codec: strict_codec "ssz_uint 2 :: u16 ssz_ops" "\<lambda>_. True" by (rule strict_uint) simp
interpretation u32_codec: strict_codec "ssz_uint 4 :: u32 ssz_ops" "\<lambda>_. True" by (rule strict_uint) simp
interpretation u64_codec: strict_codec "ssz_uint 8 :: u64 ssz_ops" "\<lambda>_. True" by (rule strict_uint) simp

interpretation bool_codec: strict_codec ssz_bool "\<lambda>_. True"
proof unfold_locales
  show "\<And>bs x. from_ssz_bytes ssz_bool bs = Inr x \<Longrightarrow> length bs < 2 ^ 32 \<Longrightarrow> True \<and> as_ssz_bytes ssz_bool x = Returns bs"
    by (auto simp: ssz_bool_def length_Suc_conv split: if_splits)
qed (auto simp: ssz_bool_def split: if_splits)

lemma bind_panic_Returns: "bind_panic r f = Returns y \<longleftrightarrow> (\<exists>x. r = Returns x \<and> f x = Returns y)"
  by (cases r) auto

definition ok_missing :: "('a \<Rightarrow> bool) \<Rightarrow> 'a missing_or \<Rightarrow> bool" where
  "ok_missing ok x = (case x of Materialized t \<Rightarrow> ok t | Missing h \<Rightarrow> length h = 32)"

context ssz_codec
begin

lemma missing_or_codec: "ssz_codec (ssz_missing_or T) (ok_missing ok)"
proof
  fix x bs assume x: "ok_missing ok x" "as_ssz_bytes (ssz_missing_or T) x = Returns bs" "length bs < 2 ^ 32"
  show "from_ssz_bytes (ssz_missing_or T) bs = Inr x"
  proof (cases x)
    case (Materialized t)
    then obtain b where b: "as_ssz_bytes T t = Returns b" "bs = 0 # b" using x(2) by (auto simp: ssz_missing_or_def bind_panic_Returns)
    then have "from_ssz_bytes T b = Inr t" using decode_encode [of t b] x Materialized by (simp add: ok_missing_def)
    then show ?thesis using b Materialized by (simp add: ssz_missing_or_def read_slice_def)
  qed (use x in \<open>auto simp: ssz_missing_or_def read_slice_def ok_missing_def\<close>)
next
  fix x bs assume x: "ok_missing ok x" "as_ssz_bytes (ssz_missing_or T) x = Returns bs"
  then show "ssz_bytes_len (ssz_missing_or T) x = length bs"
    by (cases x) (auto simp: ssz_missing_or_def ok_missing_def bind_panic_Returns announced)
qed (simp_all add: ssz_missing_or_def)

end

context strict_codec
begin

lemma missing_or_strict: "strict_codec (ssz_missing_or T) (ok_missing ok)"
proof (rule strict_codec.intro [OF missing_or_codec], unfold_locales)
  fix bs x assume b: "from_ssz_bytes (ssz_missing_or T) bs = Inr x" "length bs < 2 ^ 32"
  have ne: "bs \<noteq> []" using b(1) by (auto simp: ssz_missing_or_def read_slice_def)
  then obtain t r where bs: "bs = t # r" by (cases bs) auto
  show "ok_missing ok x \<and> as_ssz_bytes (ssz_missing_or T) x = Returns bs"
    using b encode_decode [of r]
    by (auto simp: ssz_missing_or_def read_slice_def bs ok_missing_def split: if_splits sum.splits)
qed

end

section \<open>Sequences of slices\<close>

lemma encode_all_length: "encode_all T xs = Returns ps \<Longrightarrow> length ps = length xs"
  by (induction xs arbitrary: ps) (auto simp: bind_panic_Returns)

lemma length_le_concat: "p \<in> set ps \<Longrightarrow> length p \<le> length (concat ps)"
  by (induction ps) auto

context ssz_codec
begin

lemma decode_slices_encode:
  "list_all ok xs \<Longrightarrow> encode_all T xs = Returns ps \<Longrightarrow> length (concat ps) < 2 ^ 32 \<Longrightarrow> decode_slices T ps = Inr xs"
proof (induction xs arbitrary: ps)
  case (Cons x xs)
  then obtain p qs where p: "as_ssz_bytes T x = Returns p" "encode_all T xs = Returns qs" "ps = p # qs"
    by (auto simp: bind_panic_Returns)
  then show ?case using Cons decode_encode [of x p] by simp
qed simp

lemma encode_all_sizes:
  assumes "is_ssz_fixed_len T"
  shows "list_all ok xs \<Longrightarrow> encode_all T xs = Returns ps \<Longrightarrow> \<forall>p \<in> set ps. length p = ssz_fixed_len T"
  by (induction xs arbitrary: ps) (auto simp: bind_panic_Returns fixed_size [OF assms])

lemma encode_all_announced:
  "list_all ok xs \<Longrightarrow> encode_all T xs = Returns ps \<Longrightarrow> (\<Sum>x \<leftarrow> xs. ssz_bytes_len T x) = length (concat ps)"
  by (induction xs arbitrary: ps) (auto simp: bind_panic_Returns announced)

end

context strict_codec
begin

lemma encode_decode_slices:
  "decode_slices T ps = Inr xs \<Longrightarrow> length (concat ps) < 2 ^ 32 \<Longrightarrow> list_all ok xs \<and> encode_all T xs = Returns ps"
proof (induction ps arbitrary: xs)
  case (Cons p ps)
  then obtain x ys where x: "from_ssz_bytes T p = Inr x" "decode_slices T ps = Inr ys" "xs = x # ys"
    by (auto split: sum.splits)
  then show ?case using Cons encode_decode [of p x] by simp
qed simp

end

text \<open>Where consecutive payloads start.\<close>

fun starts :: "nat \<Rightarrow> bytes list \<Rightarrow> nat list" where
  "starts a [] = []"
| "starts a (p # ps) = a # starts (a + length p) ps"

lemma length_starts [simp]: "length (starts a ps) = length ps"
  by (induction ps arbitrary: a) auto

lemma payload_offsets_starts:
  "unat r + length (concat ps) < 2 ^ 32 \<Longrightarrow> \<exists>os. payload_offsets r ps = Returns os \<and> map unat os = starts (unat r) ps"
proof (induction ps arbitrary: r)
  case (Cons p ps)
  have l: "unat (of_nat (length p) :: u32) = length p" using Cons.prems by (simp add: unsigned_of_nat take_bit_nat_eq_self)
  then have s: "unat (r + of_nat (length p)) = unat r + length p" using Cons.prems by (simp add: unat_word_ariths)
  then show ?case using Cons.IH [of "r + of_nat (length p)"] Cons.prems l by (auto simp: add.assoc)
qed simp

lemma slices_at_starts: "slices_at (hdr @ concat ps) (starts (length hdr) ps) = ps"
proof (induction ps arbitrary: hdr rule: induct_list012)
  case (3 p q ps)
  have "slices_at ((hdr @ p) @ concat (q # ps)) (starts (length (hdr @ p)) (q # ps)) = q # ps" by (rule "3.IH"(2))
  then show ?case by simp
qed simp_all

lemma concat_le_nth:
  "i < length os \<Longrightarrow> take 4 (drop (4 * i) (concat (map (to_le_bytes 4) os) @ rest)) = to_le_bytes 4 (os ! i)"
proof (induction os arbitrary: i)
  case (Cons w os)
  then show ?case by (cases i) simp_all
qed simp

lemma length_concat_le [simp]: "length (concat (map (to_le_bytes 4) os)) = 4 * length os"
  by (induction os) simp_all

lemma read_offset_header:
  "i < length os \<Longrightarrow> length (concat (map (to_le_bytes 4) os) @ rest) < 2 ^ 64 \<Longrightarrow>
     read_offset (concat (map (to_le_bytes 4) os) @ rest) (i * 4) = Inr (unat (os ! i :: u32))"
  using concat_le_nth [of i os rest]
  by (simp add: read_offset_def read_slice_def BYTES_PER_LENGTH_OFFSET_def mult.commute from_to_le_bytes)

lemma read_offsets_header:
  fixes os :: "u32 list" and rest :: bytes
  defines "bs \<equiv> concat (map (to_le_bytes 4) os) @ rest"
  assumes "length bs < 2 ^ 64" "\<forall>w \<in> set os. unat w \<le> length bs" "sorted (map unat os)" "i + n = length os" "0 < i"
  shows "read_offsets bs first i n (unat (os ! (i - 1))) = Inr (map unat (drop i os))"
  using assms(5,6)
proof (induction n arbitrary: i)
  case (Suc n)
  then have i: "i < length os" by simp
  have r: "read_offset bs (i * BYTES_PER_LENGTH_OFFSET) = Inr (unat (os ! i))"
    unfolding bs_def BYTES_PER_LENGTH_OFFSET_def by (rule read_offset_header) (use assms(2) i in \<open>simp_all add: bs_def\<close>)
  have "unat (os ! (i - 1)) \<le> unat (os ! i)" using sorted_nth_mono [OF assms(4), of "i - 1" i] i by simp
  moreover have "unat (os ! i) \<le> length bs" using assms(3) i by simp
  moreover have "drop i os = os ! i # drop (Suc i) os" using i by (simp add: Cons_nth_drop_Suc)
  ultimately show ?case using Suc.IH [of "Suc i"] Suc.prems r by simp
qed simp

lemma starts_bounds: "s \<in> set (starts a ps) \<Longrightarrow> a \<le> s \<and> s \<le> a + length (concat ps)"
  by (induction ps arbitrary: a) fastforce+

lemma sorted_starts: "sorted (starts a ps)"
  by (induction ps arbitrary: a) (use starts_bounds in force)+

lemma payload_offsets_length: "payload_offsets r ps = Returns os \<Longrightarrow> length os = length ps"
  by (induction r ps arbitrary: os rule: payload_offsets.induct) (auto simp: bind_panic_Returns split: if_splits)

text \<open>Joining payloads behind their offsets, and cutting them apart again.\<close>

lemma split_joined:
  assumes "join_payloads ps = Returns bs" "length bs < 2 ^ 32" "ps \<noteq> []"
  shows "\<exists>os. read_offset bs 0 = Inr (4 * length ps) \<and> read_offsets bs (4 * length ps) 1 (length ps - 1) (4 * length ps) = Inr os \<and>
    slices_at bs (4 * length ps # os) = ps \<and> 4 * length ps \<le> length bs \<and> length (concat ps) < 2 ^ 32"
proof -
  obtain os :: "u32 list" where os: "payload_offsets (of_nat (length ps * 4)) ps = Returns os" "bs = concat (map (to_le_bytes 4) os) @ concat ps"
    using assms(1) by (auto simp: join_payloads_def bind_panic_Returns BYTES_PER_LENGTH_OFFSET_def)
  have l: "length os = length ps" by (rule payload_offsets_length [OF os(1)])
  have lb: "4 * length ps + length (concat ps) < 2 ^ 32" using assms(2) by (simp add: os(2) l)
  then have r: "unat (of_nat (length ps * 4) :: u32) = 4 * length ps"
    by (simp only: unsigned_of_nat) (simp add: take_bit_nat_eq_self)
  have m: "map unat os = starts (4 * length ps) ps"
    using payload_offsets_starts [of "of_nat (length ps * 4)" ps] lb os(1) unfolding r by auto
  have first: "unat (os ! 0) = 4 * length ps" using m assms(3) l by (cases ps; cases os) auto
  have b: "length bs = 4 * length ps + length (concat ps)" by (simp add: os(2) l)
  have bd: "\<forall>w \<in> set os. unat w \<le> length bs"
  proof
    fix w assume "w \<in> set os"
    then have "unat w \<in> set (starts (4 * length ps) ps)" unfolding m [symmetric] by simp
    then show "unat w \<le> length bs" using starts_bounds b by fastforce
  qed
  have "read_offsets bs (4 * length ps) 1 (length ps - 1) (unat (os ! (1 - 1))) = Inr (map unat (drop 1 os))"
    unfolding os(2) by (rule read_offsets_header) (use bd lb sorted_starts m assms(3) l in \<open>simp_all add: os(2)\<close>)
  moreover have "read_offset bs (0 * 4) = Inr (unat (os ! 0))"
    unfolding os(2) by (rule read_offset_header) (use lb l assms(3) in simp_all)
  moreover have "4 * length ps # map unat (drop 1 os) = starts (4 * length ps) ps"
    unfolding m [symmetric] using l assms(3) first by (cases os) auto
  moreover have "slices_at bs (starts (4 * length ps) ps) = ps"
    using slices_at_starts [of "concat (map (to_le_bytes 4) os)" ps] by (simp add: os(2) l)
  ultimately show ?thesis using first b lb by auto
qed

lemma read_offset_Inr:
  "read_offset bs p = Inr v \<longleftrightarrow> p + 4 < 2 ^ 64 \<and> p + 4 \<le> length bs \<and> v = unat (from_le_bytes (take 4 (drop p bs)) :: u32)"
  by (auto simp: read_offset_def read_slice_def BYTES_PER_LENGTH_OFFSET_def)

lemma read_offsets_Inr:
  "read_offsets bs first i n prev = Inr os \<Longrightarrow>
     length os = n \<and> sorted (prev # os) \<and> (\<forall>x \<in> set os. x \<le> length bs) \<and>
     (\<forall>j < n. read_offset bs ((i + j) * 4) = Inr (os ! j))"
proof (induction n arbitrary: i prev os)
  case (Suc n)
  obtain x ys where x: "read_offset bs (i * 4) = Inr x" "prev \<le> x" "x \<le> length bs"
    "read_offsets bs first (i + 1) n x = Inr ys" "os = x # ys"
    using Suc.prems by (auto simp: BYTES_PER_LENGTH_OFFSET_def split: sum.splits if_splits)
  have "read_offset bs ((i + j) * 4) = Inr (os ! j)" if "j < Suc n" for j
    using Suc.IH [OF x(4)] x(1,5) that by (cases j) auto
  then show ?case using Suc.IH [OF x(4)] x by auto
qed simp

lemma slices_at_offsets:
  "offs \<noteq> [] \<Longrightarrow> sorted offs \<Longrightarrow> \<forall>x \<in> set offs. x \<le> length bs \<Longrightarrow>
     starts (hd offs) (slices_at bs offs) = offs \<and> concat (slices_at bs offs) = drop (hd offs) bs"
proof (induction bs offs rule: slices_at.induct)
  case (3 bs a b os)
  have "take (b - a) (drop a bs) @ drop b bs = drop a bs"
  proof -
    have "drop b bs = drop (b - a) (drop a bs)" using 3(3) by simp
    then show ?thesis by (simp only: append_take_drop_id)
  qed
  moreover have "starts b (slices_at bs (b # os)) = b # os" "concat (slices_at bs (b # os)) = drop b bs" using 3 by simp_all
  moreover have "a + min (length bs - a) (b - a) = b" using 3(3,4) by auto
  ultimately show ?case by simp
qed simp_all

lemma concat_slices:
  "length bs = 4 * length ws \<Longrightarrow> \<forall>j < length ws. take 4 (drop (4 * j) bs) = to_le_bytes 4 (ws ! j) \<Longrightarrow>
     bs = concat (map (to_le_bytes 4) ws)"
proof (induction ws arbitrary: bs)
  case (Cons w ws)
  have "take 4 bs = to_le_bytes 4 w" using Cons.prems(2) [rule_format, of 0] by simp
  moreover have "drop 4 bs = concat (map (to_le_bytes 4) ws)"
  proof (rule Cons.IH)
    show "\<forall>j < length ws. take 4 (drop (4 * j) (drop 4 bs)) = to_le_bytes 4 (ws ! j)"
    proof (intro allI impI)
      fix j assume "j < length ws"
      then show "take 4 (drop (4 * j) (drop 4 bs)) = to_le_bytes 4 (ws ! j)"
        using Cons.prems(2) [rule_format, of "Suc j"] by (simp add: add.commute)
    qed
  qed (use Cons.prems(1) in simp)
  ultimately show ?case by (metis append_take_drop_id concat.simps(2) list.simps(9))
qed simp

lemma join_split:
  assumes "read_offset bs 0 = Inr first" "first mod 4 = 0" "first \<le> length bs" "0 < first div 4" "length bs < 2 ^ 32"
    "read_offsets bs first 1 (first div 4 - 1) first = Inr os"
  defines "ps \<equiv> slices_at bs (first # os)"
  shows "join_payloads ps = Returns bs" "length ps = first div 4" "length (concat ps) < 2 ^ 32"
proof -
  let ?n = "first div 4"
  have f: "first = 4 * ?n" using assms(2) by auto
  note r = read_offsets_Inr [OF assms(6)]
  have offs: "starts first ps = first # os" "concat ps = drop first bs"
    using slices_at_offsets [of "first # os" bs] r assms(3) by (simp_all add: ps_def)
  have "length (starts first ps) = Suc (length os)" by (simp only: offs(1) length_Cons)
  then show len: "length ps = ?n" using r assms(4) by simp
  show c: "length (concat ps) < 2 ^ 32" using assms(5) by (simp add: offs(2))
  have u: "unat (of_nat (length ps * BYTES_PER_LENGTH_OFFSET) :: u32) = first"
    using assms(3,5) f by (simp only: len unsigned_of_nat BYTES_PER_LENGTH_OFFSET_def) (simp add: take_bit_nat_eq_self mult.commute)
  obtain ws where ws: "payload_offsets (of_nat (length ps * BYTES_PER_LENGTH_OFFSET)) ps = Returns ws" "map unat ws = first # os"
    using payload_offsets_starts [of "of_nat (length ps * BYTES_PER_LENGTH_OFFSET)" ps] assms(3,5) unfolding u offs
    by auto
  have lw: "length ws = ?n" using payload_offsets_length [OF ws(1)] len by simp
  have "take first bs = concat (map (to_le_bytes 4) ws)"
  proof (rule concat_slices)
    show "length (take first bs) = 4 * length ws" using assms(3) f lw by simp
    show "\<forall>j < length ws. take 4 (drop (4 * j) (take first bs)) = to_le_bytes 4 (ws ! j)"
    proof (intro allI impI)
      fix j assume j: "j < length ws"
      have "read_offset bs (j * 4) = Inr ((first # os) ! j)"
      proof (cases j)
        case (Suc k)
        then show ?thesis using r j lw by simp
      qed (simp add: assms(1))
      then have "unat (from_le_bytes (take 4 (drop (j * 4) bs)) :: u32) = unat (ws ! j)" "j * 4 + 4 \<le> length bs"
        using j unfolding ws(2) [symmetric] by (simp_all add: read_offset_Inr)
      then have "from_le_bytes (take 4 (drop (j * 4) bs)) = ws ! j" "length (take 4 (drop (j * 4) bs)) = 4"
        by (simp_all add: word_unat_eq_iff)
      then have "to_le_bytes 4 (ws ! j) = take 4 (drop (j * 4) bs)"
        using to_from_le_bytes [of "take 4 (drop (j * 4) bs)", where 'a = 32] by simp
      moreover have "take 4 (drop (4 * j) (take first bs)) = take 4 (drop (j * 4) bs)"
        using j lw f by (simp add: drop_take mult.commute min_def)
      ultimately show "take 4 (drop (4 * j) (take first bs)) = to_le_bytes 4 (ws ! j)" by simp
    qed
  qed
  then show "join_payloads ps = Returns bs" using append_take_drop_id [of first bs] ws(1) offs(2) by (simp add: join_payloads_def)
qed

section \<open>Lists and vectors\<close>

lemma equal_slices_concat: "\<forall>p \<in> set ps. length p = k \<Longrightarrow> equal_slices (length ps) k (concat ps) = ps"
proof (induction ps)
  case (Cons p ps)
  have "equal_slices (length (p # ps)) k (concat (p # ps)) = take k (p @ concat ps) # map (\<lambda>i. take k (drop (i * k) (concat ps))) [0..<length ps]"
    using Cons.prems by (simp add: equal_slices_def upt_conv_Cons map_Suc_upt [symmetric] comp_def del: upt_Suc)
  then show ?case using Cons by (simp add: equal_slices_def)
qed (simp add: equal_slices_def)

lemma concat_equal_slices: "length bs = n * k \<Longrightarrow> concat (equal_slices n k bs) = bs"
proof (induction n arbitrary: bs)
  case (Suc n)
  have "equal_slices (Suc n) k bs = take k bs # equal_slices n k (drop k bs)"
    by (simp add: equal_slices_def upt_conv_Cons map_Suc_upt [symmetric] comp_def add.commute del: upt_Suc)
  then show ?case using Suc by simp
qed (simp add: equal_slices_def)

lemma length_concat_equal: "\<forall>p \<in> set ps. length p = k \<Longrightarrow> length (concat ps) = length ps * k"
  by (induction ps) auto

context ssz_codec
begin

lemma decode_var_encode:
  assumes "\<not> is_ssz_fixed_len T" "list_all ok xs" "encode_items T xs = Returns bs" "length bs < 2 ^ 32"
    "e = None \<or> e = Some (length xs)"
  shows "decode_var_collection T bs e = Inr xs"
proof -
  obtain ps where ps: "encode_all T xs = Returns ps" "join_payloads ps = Returns bs"
    using assms(1,3) by (auto simp: encode_items_def encode_var_list_payloads_def bind_panic_Returns)
  have len: "length ps = length xs" by (rule encode_all_length [OF ps(1)])
  show ?thesis
  proof (cases "ps = []")
    case True
    then have "bs = []" "xs = []" using ps(2) len by (auto simp: join_payloads_def)
    then show ?thesis using assms(5) by (auto simp: decode_var_collection_def)
  next
    case False
    obtain os where os: "read_offset bs 0 = Inr (4 * length ps)"
      "read_offsets bs (4 * length ps) 1 (length ps - 1) (4 * length ps) = Inr os"
      "slices_at bs (4 * length ps # os) = ps" "4 * length ps \<le> length bs" "length (concat ps) < 2 ^ 32"
      using split_joined [OF ps(2) assms(4) False] by blast
    have ne: "bs \<noteq> []" using os(4) False by (cases ps) auto
    show ?thesis using os ne False decode_slices_encode [OF assms(2) ps(1) os(5)] assms(5) len
      by (auto simp: decode_var_collection_def BYTES_PER_LENGTH_OFFSET_def Let_def)
  qed
qed

lemma encode_items_bound:
  assumes "list_all ok xs" "encode_items T xs = Returns bs"
  shows "length xs \<le> length bs"
proof (cases "is_ssz_fixed_len T")
  case True
  obtain ps where ps: "encode_all T xs = Returns ps" "bs = concat ps"
    using True assms(2) by (auto simp: encode_items_def bind_panic_Returns)
  show ?thesis using length_concat_equal [OF encode_all_sizes [OF True assms(1) ps(1)]] encode_all_length [OF ps(1)] fixed_pos [OF True] ps(2)
    by simp
next
  case False
  obtain ps os where ps: "encode_all T xs = Returns ps" "payload_offsets (of_nat (length ps * BYTES_PER_LENGTH_OFFSET)) ps = Returns os"
    "bs = concat (map (to_le_bytes 4) os) @ concat ps"
    using False assms(2) by (auto simp: encode_items_def encode_var_list_payloads_def join_payloads_def bind_panic_Returns)
  show ?thesis using encode_all_length [OF ps(1)] payload_offsets_length [OF ps(2)] by (simp add: ps(3))
qed

lemma decode_fixed_encode:
  assumes "is_ssz_fixed_len T" "list_all ok xs" "encode_items T xs = Returns bs" "length bs < 2 ^ 32"
  shows "length bs = length xs * ssz_fixed_len T" "decode_slices T (equal_slices (length xs) (ssz_fixed_len T) bs) = Inr xs"
proof -
  obtain ps where ps: "encode_all T xs = Returns ps" "bs = concat ps"
    using assms(1,3) by (auto simp: encode_items_def bind_panic_Returns)
  note sz = encode_all_sizes [OF assms(1,2) ps(1)] and len = encode_all_length [OF ps(1)]
  show "length bs = length xs * ssz_fixed_len T" using length_concat_equal [OF sz] by (simp add: ps(2) len)
  show "decode_slices T (equal_slices (length xs) (ssz_fixed_len T) bs) = Inr xs"
    using equal_slices_concat [OF sz] decode_slices_encode [OF assms(2) ps(1)] assms(4) by (simp add: ps(2) len)
qed

lemma items_len_encode:
  assumes "list_all ok xs" "encode_items T xs = Returns bs"
  shows "items_len T xs = length bs"
proof (cases "is_ssz_fixed_len T")
  case True
  obtain ps where ps: "encode_all T xs = Returns ps" "bs = concat ps"
    using True assms(2) by (auto simp: encode_items_def bind_panic_Returns)
  show ?thesis using length_concat_equal [OF encode_all_sizes [OF True assms(1) ps(1)]] encode_all_length [OF ps(1)] True ps(2)
    by (simp add: items_len_def mult.commute)
next
  case False
  obtain ps os where ps: "encode_all T xs = Returns ps" "payload_offsets (of_nat (length ps * BYTES_PER_LENGTH_OFFSET)) ps = Returns os"
    "bs = concat (map (to_le_bytes 4) os) @ concat ps"
    using False assms(2) by (auto simp: encode_items_def encode_var_list_payloads_def join_payloads_def bind_panic_Returns)
  show ?thesis using encode_all_length [OF ps(1)] payload_offsets_length [OF ps(2)] encode_all_announced [OF assms(1) ps(1)] False
    by (simp add: ps(3) items_len_def BYTES_PER_LENGTH_OFFSET_def)
qed

lemma list_codec: "ssz_codec (ssz_list N T) (\<lambda>xs. list_all ok xs \<and> length xs \<le> unat N)"
proof
  fix xs bs assume x: "list_all ok xs \<and> length xs \<le> unat N" "as_ssz_bytes (ssz_list N T) xs = Returns bs" "length bs < 2 ^ 32"
  then have e: "encode_items T xs = Returns bs" by (simp add: ssz_list_def)
  have n: "\<not> N < of_nat (length xs)" "length xs \<le> length bs"
    using x encode_items_bound [OF _ e] by (simp_all add: word_less_nat_alt unsigned_of_nat take_bit_nat_eq_self)
  show "from_ssz_bytes (ssz_list N T) bs = Inr xs"
  proof (cases "is_ssz_fixed_len T")
    case True
    note d = decode_fixed_encode [OF True conjunct1 [OF x(1)] e x(3)]
    then show ?thesis using True fixed_pos [OF True] n by (simp add: ssz_list_def decode_list_def Let_def)
  next
    case False
    then show ?thesis using decode_var_encode [OF False conjunct1 [OF x(1)] e x(3), of None] n
      by (simp add: ssz_list_def decode_list_def)
  qed
next
  fix xs bs assume x: "list_all ok xs \<and> length xs \<le> unat N" "as_ssz_bytes (ssz_list N T) xs = Returns bs"
  then have e: "encode_items T xs = Returns bs" by (simp add: ssz_list_def)
  show "ssz_bytes_len (ssz_list N T) xs = length bs" using items_len_encode [OF _ e] x(1) by (simp add: ssz_list_def)
qed (simp_all add: ssz_list_def)

lemma vector_codec:
  assumes "0 < N" "N * ssz_fixed_len T < 2 ^ 64"
  shows "ssz_codec (ssz_vector N T) (\<lambda>xs. list_all ok xs \<and> length xs = N)"
proof
  fix xs bs assume x: "list_all ok xs \<and> length xs = N" "as_ssz_bytes (ssz_vector N T) xs = Returns bs" "length bs < 2 ^ 32"
  then have e: "encode_items T xs = Returns bs" by (simp add: ssz_vector_def)
  show "from_ssz_bytes (ssz_vector N T) bs = Inr xs"
  proof (cases "is_ssz_fixed_len T")
    case True
    note d = decode_fixed_encode [OF True conjunct1 [OF x(1)] e x(3)]
    then show ?thesis using True x(1) assms(2) by (simp add: ssz_vector_def decode_fixed_vector_def Let_def mult.commute min_def)
  next
    case False
    then show ?thesis using decode_var_encode [OF False conjunct1 [OF x(1)] e x(3), of "Some N"] x(1)
      by (simp add: ssz_vector_def decode_fixed_vector_def)
  qed
next
  fix xs bs assume x: "list_all ok xs \<and> length xs = N" "as_ssz_bytes (ssz_vector N T) xs = Returns bs"
  then have e: "encode_items T xs = Returns bs" by (simp add: ssz_vector_def)
  show l: "ssz_bytes_len (ssz_vector N T) xs = length bs" using items_len_encode [OF _ e] x(1) by (simp add: ssz_vector_def)
  show "length bs = ssz_fixed_len (ssz_vector N T)" if "is_ssz_fixed_len (ssz_vector N T)"
    using that l x(1) by (simp add: ssz_vector_def items_len_def)
qed (use assms(1) fixed_pos in \<open>simp_all add: ssz_vector_def\<close>)

end

context strict_codec
begin

lemma decode_var_strict:
  assumes "decode_var_collection T bs None = Inr xs" "length bs < 2 ^ 32" "xs \<noteq> [] \<or> bs = []"
  shows "list_all ok xs \<and> encode_var_list_payloads T xs = Returns bs"
proof (cases "bs = []")
  case True
  then show ?thesis using assms(1) by (auto simp: decode_var_collection_def encode_var_list_payloads_def join_payloads_def)
next
  case False
  obtain first os where f: "read_offset bs 0 = Inr first" "first mod 4 = 0" "first \<le> length bs"
    "read_offsets bs first 1 (first div 4 - 1) first = Inr os"
    "decode_slices T (if first div 4 = 0 then [] else slices_at bs (first # os)) = Inr xs"
    using assms(1) False
    by (auto simp: decode_var_collection_def BYTES_PER_LENGTH_OFFSET_def Let_def split: sum.splits if_splits)
  have pos: "0 < first div 4" using f(5) assms(3) False by (cases "first div 4 = 0") auto
  note j = join_split [OF f(1-3) pos assms(2) f(4)]
  have "list_all ok xs \<and> encode_all T xs = Returns (slices_at bs (first # os))"
    using encode_decode_slices [OF _ j(3)] f(5) pos by simp
  then show ?thesis using j(1) by (simp add: encode_var_list_payloads_def)
qed

lemma decode_list_strict:
  assumes "decode_list T bs N = Inr xs" "length bs < 2 ^ 32" "is_ssz_fixed_len T \<or> xs \<noteq> [] \<or> bs = []"
  shows "list_all ok xs \<and> encode_items T xs = Returns bs"
proof (cases "is_ssz_fixed_len T")
  case True
  let ?k = "ssz_fixed_len T"
  have d: "length bs mod ?k = 0" "decode_slices T (equal_slices (length bs div ?k) ?k bs) = Inr xs"
    using assms(1) True by (auto simp: decode_list_def Let_def split: if_splits)
  then have "concat (equal_slices (length bs div ?k) ?k bs) = bs" by (intro concat_equal_slices) auto
  then show ?thesis using encode_decode_slices [OF d(2)] assms(2) True by (simp add: encode_items_def)
next
  case False
  then have "decode_var_collection T bs None = Inr xs" using assms(1) by (auto simp: decode_list_def split: sum.splits if_splits)
  then show ?thesis using decode_var_strict assms(2,3) False by (simp add: encode_items_def)
qed

end



text \<open>The exception is real: four zero bytes, with anything after them, decode to the empty list, whose
  encoding is empty.\<close>

lemma empty_list_malleable:
  "\<not> is_ssz_fixed_len T \<Longrightarrow> from_ssz_bytes (ssz_list N T) [0, 0, 0, 0, 7] = Inr [] \<and> as_ssz_bytes (ssz_list N T) [] = Returns []"
  by (simp add: ssz_list_def decode_list_def decode_var_collection_def read_offset_def read_slice_def BYTES_PER_LENGTH_OFFSET_def
      encode_items_def encode_var_list_payloads_def join_payloads_def from_le_bytes_def Let_def)

text \<open>A payload whose length is a multiple of \<open>2 ^ 32\<close> does not move the running offset: the two payloads get the same
  offset, and nothing panics.\<close>

lemma long_payload_same_offset:
  "payload_offsets r [replicate (2 ^ 32) x, p] = Returns [r, r] \<longleftrightarrow> unat r + unat (of_nat (length p) :: u32) < 2 ^ 32"
proof -
  have "(of_nat (2 ^ 32) :: u32) = 0" by (simp only: word_unat_eq_iff) simp
  then show ?thesis using unsigned_less [of r, where 'a = nat]
    by (simp del: of_nat_power of_nat_numeral power_numeral numeral_power_eq_of_nat_cancel_iff add: not_le)
qed

end
