(* ===== verification/Sorted_Vec.thy ===== *)
theory Sorted_Vec
  imports Btree_Map "HOL-Library.List_Lexorder"
begin

text \<open>
  Searching and updating sorted vectors, as several components do: \<open>slice::binary_search_by\<close> and
  \<open>slice::partition_point\<close> of the Rust standard library with their halving loop, and the vector of entries in
  ascending key order that is looked up, inserted into and removed from by binary search. On a sorted vector these
  agree with the operations of \<open>BTreeMap\<close>. Byte strings are compared lexicographically.
\<close>

section \<open>Binary search\<close>

datatype ordering = Ord_Less | Ord_Equal | Ord_Greater

definition cmp_ord :: "'a::linorder \<Rightarrow> 'a \<Rightarrow> ordering" where
  "cmp_ord a b = (if a < b then Ord_Less else if a = b then Ord_Equal else Ord_Greater)"

function search_loop :: "('a \<Rightarrow> ordering) \<Rightarrow> 'a list \<Rightarrow> nat \<Rightarrow> nat \<Rightarrow> nat" where
  "search_loop f xs base n =
     (if n > 1 then
        let half = n div 2;
            mid = base + half in
        search_loop f xs (if f (xs ! mid) = Ord_Greater then base else mid) (n - half)
      else base)"
  by pat_completeness auto
termination
  by (relation "measure (\<lambda>(f, xs, base, n). n)") auto

declare search_loop.simps [simp del]

text \<open>\<open>Ok\<close> is \<open>Inr\<close>, \<open>Err\<close> with the insertion point is \<open>Inl\<close>.\<close>

definition binary_search_by :: "('a \<Rightarrow> ordering) \<Rightarrow> 'a list \<Rightarrow> nat + nat" where
  "binary_search_by f xs =
     (if xs = [] then Inl 0
      else let base = search_loop f xs 0 (length xs) in
           (case f (xs ! base) of
              Ord_Equal \<Rightarrow> Inr base
            | Ord_Less \<Rightarrow> Inl (base + 1)
            | Ord_Greater \<Rightarrow> Inl base))"

definition partition_point :: "('a \<Rightarrow> bool) \<Rightarrow> 'a list \<Rightarrow> nat" where
  "partition_point p xs =
     (case binary_search_by (\<lambda>x. if p x then Ord_Less else Ord_Greater) xs of Inl i \<Rightarrow> i | Inr i \<Rightarrow> i)"

text \<open>The order in which a search expects its elements: below an element that is not greater, all are less.\<close>

definition searchable :: "('a \<Rightarrow> ordering) \<Rightarrow> 'a list \<Rightarrow> bool" where
  "searchable f xs \<longleftrightarrow> (\<forall>j < length xs. \<forall>i < j. f (xs ! j) \<noteq> Ord_Greater \<longrightarrow> f (xs ! i) = Ord_Less)"

lemma search_loop_spec:
  assumes "0 < n" "base + n \<le> length xs" "base = 0 \<or> f (xs ! base) \<noteq> Ord_Greater"
    "\<forall>i. base + n \<le> i \<and> i < length xs \<longrightarrow> f (xs ! i) = Ord_Greater" "searchable f xs"
  shows "search_loop f xs base n < length xs \<and>
    (search_loop f xs base n = 0 \<or> f (xs ! search_loop f xs base n) \<noteq> Ord_Greater) \<and>
    (\<forall>i. search_loop f xs base n < i \<and> i < length xs \<longrightarrow> f (xs ! i) = Ord_Greater)"
  using assms
proof (induction f xs base n rule: search_loop.induct)
  case (1 f xs base n)
  show ?case
  proof (cases "n > 1")
    case True
    define mid where "mid = base + n div 2"
    let ?b = "if f (xs ! mid) = Ord_Greater then base else mid" and ?n = "n - n div 2"
    have mid: "mid < length xs" "base < mid" using True "1.prems"(2) by (auto simp: mid_def)
    have up: "f (xs ! i) = Ord_Greater" if "f (xs ! mid) = Ord_Greater" "mid \<le> i" "i < length xs" for i
    proof (cases "i = mid")
      case False
      then have "f (xs ! i) = Ord_Greater \<or> f (xs ! mid) = Ord_Less"
        using "1.prems"(5) that(2,3) unfolding searchable_def by (metis le_neq_implies_less)
      then show ?thesis using that(1) by auto
    qed (use that in simp)
    have rest: "\<forall>i. ?b + ?n \<le> i \<and> i < length xs \<longrightarrow> f (xs ! i) = Ord_Greater"
      using up "1.prems"(4) by (auto simp: mid_def)
    have eq: "search_loop f xs base n = search_loop f xs ?b ?n"
      using True by (subst search_loop.simps) (simp add: mid_def Let_def)
    show ?thesis unfolding eq
    proof (rule "1.IH" [OF True refl mid_def])
      show "0 < ?n" using True by simp
      show "?b + ?n \<le> length xs" using "1.prems"(2) True by (auto simp: mid_def)
      show "?b = 0 \<or> f (xs ! ?b) \<noteq> Ord_Greater" using "1.prems"(3) by simp
    qed (rule rest "1.prems"(5))+
  next
    case False
    then have "search_loop f xs base n = base" "n = 1" using "1.prems"(1) by (simp_all add: search_loop.simps)
    then show ?thesis using "1.prems" by auto
  qed
qed

lemma search_loop_start:
  assumes "searchable f xs" "xs \<noteq> []"
  defines "b \<equiv> search_loop f xs 0 (length xs)"
  shows "b < length xs" "b = 0 \<or> f (xs ! b) \<noteq> Ord_Greater" "b < i \<Longrightarrow> i < length xs \<Longrightarrow> f (xs ! i) = Ord_Greater"
proof -
  have "\<forall>i. 0 + length xs \<le> i \<and> i < length xs \<longrightarrow> f (xs ! i) = Ord_Greater" by auto
  note s = search_loop_spec [OF _ _ _ this assms(1)]
  show "b < length xs" "b = 0 \<or> f (xs ! b) \<noteq> Ord_Greater" "b < i \<Longrightarrow> i < length xs \<Longrightarrow> f (xs ! i) = Ord_Greater"
    using s assms(2) by (auto simp: b_def)
qed

lemma binary_search_by_Err:
  assumes "searchable f xs" "binary_search_by f xs = Inl p"
  shows "p \<le> length xs \<and> (\<forall>i < p. f (xs ! i) = Ord_Less) \<and> (\<forall>i. p \<le> i \<and> i < length xs \<longrightarrow> f (xs ! i) = Ord_Greater)"
proof (cases "xs = []")
  case False
  define b where "b = search_loop f xs 0 (length xs)"
  have b: "b < length xs" "b = 0 \<or> f (xs ! b) \<noteq> Ord_Greater" "\<forall>i. b < i \<and> i < length xs \<longrightarrow> f (xs ! i) = Ord_Greater"
    using search_loop_start [OF assms(1) False] by (auto simp: b_def)
  have p: "p = (if f (xs ! b) = Ord_Less then b + 1 else b)" "f (xs ! b) \<noteq> Ord_Equal"
    using assms(2) False by (auto simp: binary_search_by_def Let_def b_def split: ordering.splits)
  have low: "f (xs ! i) = Ord_Less" if "i < b" for i
    using assms(1) b(1,2) that by (auto simp: searchable_def)
  have g: "f (xs ! b) = Ord_Greater" if "f (xs ! b) \<noteq> Ord_Less" using that p(2) by (cases "f (xs ! b)") auto
  show ?thesis
  proof (cases "f (xs ! b) = Ord_Less")
    case True
    then show ?thesis using p b low by (auto simp: less_Suc_eq)
  next
    case False
    then have "f (xs ! i) = Ord_Greater" if "b \<le> i" "i < length xs" for i using g b(3) that by (cases "i = b") auto
    then show ?thesis using False p b(1) low by auto
  qed
qed (use assms(2) in \<open>auto simp: binary_search_by_def\<close>)

lemma binary_search_by_Ok:
  assumes "searchable f xs" "binary_search_by f xs = Inr p"
  shows "p < length xs \<and> f (xs ! p) = Ord_Equal \<and> (\<forall>i < p. f (xs ! i) = Ord_Less)"
proof -
  have ne: "xs \<noteq> []" using assms(2) by (auto simp: binary_search_by_def)
  have "p = search_loop f xs 0 (length xs)" "f (xs ! p) = Ord_Equal"
    using assms(2) ne by (auto simp: binary_search_by_def Let_def split: ordering.splits)
  moreover have "p < length xs" using search_loop_start(1) [OF assms(1) ne] calculation(1) by simp
  ultimately show ?thesis using assms(1) by (auto simp: searchable_def)
qed

text \<open>On a list whose elements with the property come first, \<open>partition_point\<close> is their number.\<close>

lemma partition_point_append:
  assumes "\<forall>x \<in> set xs. p x" "\<forall>y \<in> set ys. \<not> p y"
  shows "partition_point p (xs @ ys) = length xs"
proof -
  let ?f = "\<lambda>x. if p x then Ord_Less else Ord_Greater"
  have s: "searchable ?f (xs @ ys)" using assms by (auto simp: searchable_def nth_append)
  have ne: "binary_search_by ?f (xs @ ys) \<noteq> Inr q" for q using binary_search_by_Ok [OF s, of q] by (auto split: if_splits)
  then obtain i where i: "binary_search_by ?f (xs @ ys) = Inl i" by (cases "binary_search_by ?f (xs @ ys)") auto
  note e = binary_search_by_Err [OF s i]
  have "\<not> i < length xs" using e assms by (metis ordering.distinct(3) length_append nth_append nth_mem order_refl trans_less_add1)
  moreover have "\<not> length xs < i"
  proof
    assume l: "length xs < i"
    then have "p ((xs @ ys) ! length xs)" using e by (metis ordering.distinct(3))
    moreover have "ys \<noteq> []" using l e by auto
    ultimately show False using assms(2) by (auto simp: nth_append)
  qed
  ultimately show ?thesis using i by (simp add: partition_point_def)
qed

section \<open>Sorted vectors of entries\<close>

type_synonym ('k, 'v) sorted_vec = "('k \<times> 'v) list"

definition sv_search :: "('k::linorder, 'v) sorted_vec \<Rightarrow> 'k \<Rightarrow> nat + nat" where
  "sv_search es key = binary_search_by (\<lambda>e. cmp_ord (fst e) key) es"

definition sv_get :: "('k::linorder, 'v) sorted_vec \<Rightarrow> 'k \<Rightarrow> 'v option" where
  "sv_get es key = (case sv_search es key of Inr i \<Rightarrow> Some (snd (es ! i)) | Inl _ \<Rightarrow> None)"

definition sv_insert :: "'k::linorder \<Rightarrow> 'v \<Rightarrow> ('k, 'v) sorted_vec \<Rightarrow> ('k, 'v) sorted_vec \<times> 'v option" where
  "sv_insert key v es =
     (case sv_search es key of
        Inr i \<Rightarrow> (es[i := (fst (es ! i), v)], Some (snd (es ! i)))
      | Inl i \<Rightarrow> (take i es @ (key, v) # drop i es, None))"

definition sv_remove :: "'k::linorder \<Rightarrow> ('k, 'v) sorted_vec \<Rightarrow> ('k, 'v) sorted_vec \<times> 'v option" where
  "sv_remove key es =
     (case sv_search es key of
        Inr i \<Rightarrow> (take i es @ drop (i + 1) es, Some (snd (es ! i)))
      | Inl i \<Rightarrow> (es, None))"

lemma searchable_sorted: "wf_bt es \<Longrightarrow> searchable (\<lambda>e. cmp_ord (fst e) key) es"
proof -
  assume es: "wf_bt es"
  have "fst (es ! i) < key" if "i < j" "j < length es" "\<not> key < fst (es ! j)" for i j
  proof -
    have "fst (es ! i) < fst (es ! j)" using es that(1,2) by (auto simp: wf_bt_def sorted_wrt_iff_nth_less)
    then show ?thesis using that(3) by (meson not_less order.strict_trans2)
  qed
  then show ?thesis by (auto simp: searchable_def cmp_ord_def split: if_splits)
qed

text \<open>A search in a sorted vector splits it around the key.\<close>

lemma sv_search_Ok:
  assumes "wf_bt es" "sv_search es key = Inr i"
  shows "i < length es" "fst (es ! i) = key"
  using binary_search_by_Ok [OF searchable_sorted [OF assms(1)] assms(2) [unfolded sv_search_def]]
  by (auto simp: cmp_ord_def split: if_splits)

lemma sv_search_Err:
  assumes "wf_bt es" "sv_search es key = Inl i"
  shows "i \<le> length es" "\<forall>e \<in> set (take i es). fst e < key" "\<forall>e \<in> set (drop i es). key < fst e"
proof -
  note e = binary_search_by_Err [OF searchable_sorted [OF assms(1)] assms(2) [unfolded sv_search_def]]
  have c: "cmp_ord a b = Ord_Less \<longleftrightarrow> a < b" "cmp_ord a b = Ord_Greater \<longleftrightarrow> b < a" for a b :: 'a by (auto simp: cmp_ord_def)
  show "i \<le> length es" using e by simp
  show "\<forall>e \<in> set (take i es). fst e < key" "\<forall>e \<in> set (drop i es). key < fst e"
    using e by (auto simp: c in_set_conv_nth) (metis fst_conv le_add1 less_diff_conv add.commute)+
qed

lemma bt_split: "wf_bt (xs @ (k, v) # ys) \<Longrightarrow> bt_get (xs @ (k, v) # ys) k = Some v \<and>
    bt_insert k w (xs @ (k, v) # ys) = xs @ (k, w) # ys \<and> bt_remove k (xs @ (k, v) # ys) = xs @ ys"
proof (induction xs)
  case (Cons x xs)
  obtain k' v' where x: "x = (k', v')" by fastforce
  have "k' < k" "wf_bt (xs @ (k, v) # ys)" using Cons.prems by (auto simp: x wf_bt_Cons)
  then show ?case using Cons.IH by (auto simp: x bt_get_def)
qed (simp add: bt_get_def)

lemma bt_absent: "\<forall>e \<in> set xs. fst e < k \<Longrightarrow> \<forall>e \<in> set ys. k < fst e \<Longrightarrow>
    bt_get (xs @ ys) k = None \<and> bt_insert k w (xs @ ys) = xs @ (k, w) # ys \<and> bt_remove k (xs @ ys) = xs @ ys"
proof (induction xs)
  case Nil
  have "bt_get ys k = None" using Nil(2) by (auto simp: bt_get_def map_of_eq_None_iff)
  moreover have "bt_remove k ys = ys" using Nil(2) by (induction ys) auto
  ultimately show ?case using Nil(2) by (cases ys) auto
next
  case (Cons x xs)
  then show ?case by (cases x) (auto simp: bt_get_def)
qed

text \<open>On a sorted vector the operations are those of a \<open>BTreeMap\<close> with the same entries.\<close>

lemma sv_refines:
  assumes "wf_bt es"
  shows "sv_get es key = bt_get es key" "sv_insert key v es = (bt_insert key v es, bt_get es key)"
    "sv_remove key es = (bt_remove key es, bt_get es key)"
proof -
  have *: "sv_get es key = bt_get es key \<and> sv_insert key v es = (bt_insert key v es, bt_get es key) \<and>
    sv_remove key es = (bt_remove key es, bt_get es key)"
  proof (cases "sv_search es key")
    case (Inl i)
    note e = sv_search_Err [OF assms Inl]
    show ?thesis using bt_absent [OF e(2,3), of v] Inl by (simp add: sv_get_def sv_insert_def sv_remove_def)
  next
    case (Inr i)
    note o = sv_search_Ok [OF assms Inr]
    have es: "es = take i es @ (key, snd (es ! i)) # drop (i + 1) es"
      using id_take_nth_drop [OF o(1)] o(2) by (metis prod.collapse add.commute plus_1_eq_Suc)
    have "es[i := (key, v)] = take i es @ (key, v) # drop (i + 1) es" using o(1) by (simp add: upd_conv_take_nth_drop)
    then show ?thesis using bt_split [of "take i es" key "snd (es ! i)" "drop (i + 1) es" v] es assms Inr o(2)
      by (simp add: sv_get_def sv_insert_def sv_remove_def)
  qed
  show "sv_get es key = bt_get es key" "sv_insert key v es = (bt_insert key v es, bt_get es key)"
    "sv_remove key es = (bt_remove key es, bt_get es key)"
    using * by simp_all
qed

section \<open>Maps in canonical form\<close>

text \<open>What the key-value maps of the program promise: updates are those of a finite map, and a map has one
  representation, so that it does not matter in which order it was filled.\<close>

locale canonical_map =
  fixes lookup :: "'m \<Rightarrow> 'k \<Rightarrow> 'v option" and put :: "'k \<Rightarrow> 'v \<Rightarrow> 'm \<Rightarrow> 'm"
    and del :: "'k \<Rightarrow> 'm \<Rightarrow> 'm" and wf :: "'m \<Rightarrow> bool"
  assumes lookup_put: "wf m \<Longrightarrow> lookup (put k v m) k' = (if k' = k then Some v else lookup m k')"
    and lookup_del: "wf m \<Longrightarrow> lookup (del k m) k' = (if k' = k then None else lookup m k')"
    and wf_put: "wf m \<Longrightarrow> wf (put k v m)"
    and wf_del: "wf m \<Longrightarrow> wf (del k m)"
    and canonical: "wf m \<Longrightarrow> wf m' \<Longrightarrow> (\<And>k. lookup m k = lookup m' k) \<Longrightarrow> m = m'"
begin

lemma put_commute: "wf m \<Longrightarrow> k \<noteq> k' \<Longrightarrow> put k v (put k' v' m) = put k' v' (put k v m)"
  by (rule canonical) (simp_all add: lookup_put wf_put)

lemma put_put: "wf m \<Longrightarrow> put k v (put k v' m) = put k v m"
  by (rule canonical) (simp_all add: lookup_put wf_put)

lemma del_put: "wf m \<Longrightarrow> del k (put k v m) = del k m"
  by (rule canonical) (simp_all add: lookup_put lookup_del wf_put wf_del)

lemma del_absent: "wf m \<Longrightarrow> lookup m k = None \<Longrightarrow> del k m = m"
  by (rule canonical) (simp_all add: lookup_del wf_del)

lemma wf_fold_put: "wf m \<Longrightarrow> wf (fold (\<lambda>(k, v). put k v) kvs m)"
  by (induction kvs arbitrary: m) (auto simp: wf_put)

lemma lookup_fold_put:
  "wf m \<Longrightarrow> lookup (fold (\<lambda>(k, v). put k v) kvs m) k = (case map_of (rev kvs) k of Some v \<Rightarrow> Some v | None \<Rightarrow> lookup m k)"
  by (induction kvs arbitrary: m) (auto simp: wf_put lookup_put map_add_def split: option.splits)

text \<open>Any two orders of filling give the same map.\<close>

lemma fill_order:
  assumes "wf m" "map_of (rev kvs) = map_of (rev kvs')"
  shows "fold (\<lambda>(k, v). put k v) kvs m = fold (\<lambda>(k, v). put k v) kvs' m"
  by (rule canonical) (simp_all add: wf_fold_put lookup_fold_put assms)

end

lemma wf_bt_canonical: "wf_bt s \<Longrightarrow> wf_bt t \<Longrightarrow> (\<And>k. bt_get s k = bt_get t k) \<Longrightarrow> s = t"
proof (induction s arbitrary: t)
  case Nil
  show ?case using Nil(3) [of "fst (hd t)"] by (cases t) (auto simp: bt_get_def)
next
  case (Cons e s)
  obtain k v where e: "e = (k, v)" by fastforce
  have "bt_get t k = Some v" using Cons.prems(3) [of k] by (simp add: e bt_get_def)
  then obtain k' v' t' where t: "t = (k', v') # t'" by (cases t) (auto simp: bt_get_def)
  have "bt_get (e # s) k' = Some v'" using Cons.prems(3) [of k'] by (simp add: t bt_get_def)
  then have kk: "k = k'" using Cons.prems(1,2) \<open>bt_get t k = Some v\<close>
    by (force simp: e t bt_get_def wf_bt_Cons split: if_splits dest!: map_of_SomeD)
  moreover have "v = v'" using \<open>bt_get t k = Some v\<close> kk by (simp add: t bt_get_def)
  moreover have "s = t'"
  proof (rule Cons.IH)
    show "bt_get s x = bt_get t' x" for x
    proof (cases "x = k")
      case True
      have "map_of s k = None" "map_of t' k = None" using Cons.prems(1,2) kk by (auto simp: e t wf_bt_Cons map_of_eq_None_iff)
      then show ?thesis using True by (simp add: bt_get_def)
    next
      case False
      then show ?thesis using Cons.prems(3) [of x] kk by (simp add: e t bt_get_def)
    qed
  qed (use Cons.prems in \<open>auto simp: e t wf_bt_Cons\<close>)
  ultimately show ?case by (simp add: e t)
qed

interpretation btree: canonical_map bt_get bt_insert bt_remove wf_bt
  by unfold_locales (auto simp: bt_get_insert bt_get_remove intro: wf_bt_canonical)

interpretation svec: canonical_map sv_get "\<lambda>k v m. fst (sv_insert k v m)" "\<lambda>k m. fst (sv_remove k m)" wf_bt
  by unfold_locales (auto simp: sv_refines bt_get_insert bt_get_remove intro: wf_bt_canonical)

end
