(* ===== verification/Radix.thy ===== *)
theory Radix
  imports Ssz_Laws Sorted_Vec
begin

text \<open>
  The Merkle radix map \<open>rust/ssz/src/radix.rs\<close>: the hash of a set of entries, the map operations on the sorted
  vector of entries, proofs of membership and non-membership with their verifier, and the wire format. A key is
  a byte list of length \<open>KEY_BYTES\<close>, here the parameter \<open>kb\<close>; the digest \<open>D\<close> and the traits \<open>V\<close> of the value type are
  parameters as in \<open>Ssz\<close>. The archived form (\<open>rkyv\<close>) is not modelled.
\<close>

section \<open>Node hashes\<close>

definition EMPTY :: bytes where "EMPTY = replicate 32 0"
definition LEAF_TAG :: u8 where "LEAF_TAG = 0"
definition BRANCH_TAG :: u8 where "BRANCH_TAG = 1"

text \<open>Bit \<open>i\<close> of a key, the most significant first. Every caller keeps \<open>i < 8 * kb\<close>, so the index is in range.\<close>

definition key_bit :: "bytes \<Rightarrow> nat \<Rightarrow> u8" where
  "key_bit key i = drop_bit (7 - i mod 8) (key ! (i div 8)) AND 1"

definition leaf_hash :: "digest \<Rightarrow> bytes \<Rightarrow> bytes \<Rightarrow> bytes" where
  "leaf_hash D key value_root = D ([LEAF_TAG] @ key @ value_root)"

definition branch_hash :: "digest \<Rightarrow> bytes \<Rightarrow> bytes \<Rightarrow> bytes" where
  "branch_hash D left right = D ([BRANCH_TAG] @ left @ right)"

type_synonym 'v entries = "(bytes, 'v missing_or) sorted_vec"

text \<open>The leaf of the first entry of a slice.\<close>

definition first_leaf :: "digest \<Rightarrow> 'v ssz_ops \<Rightarrow> 'v entries \<Rightarrow> bytes may_panic" where
  "first_leaf D V s =
     bind_panic (hash_tree_root (ssz_missing_or V) D (snd (s ! 0))) (\<lambda>r. Returns (leaf_hash D (fst (s ! 0)) r))"

function radix_node :: "digest \<Rightarrow> 'v ssz_ops \<Rightarrow> nat \<Rightarrow> 'v entries \<Rightarrow> nat \<Rightarrow> bytes may_panic" where
  "radix_node D V kb s depth =
     (if s = [] then Returns EMPTY
      else if length s = 1 then first_leaf D V s
      else if depth \<ge> kb * 8 then first_leaf D V s
      else
        let mid = partition_point (\<lambda>e. key_bit (fst e) depth = 0) s in
        bind_panic (radix_node D V kb (take mid s) (depth + 1)) (\<lambda>left.
          bind_panic (radix_node D V kb (drop mid s) (depth + 1)) (\<lambda>right.
            Returns (branch_hash D left right))))"
  by pat_completeness auto
termination
  by (relation "measure (\<lambda>(D, V, kb, s, depth). kb * 8 - depth)") auto

declare radix_node.simps [simp del]

section \<open>The map\<close>

definition radix_new :: "'v entries" where "radix_new = []"

definition radix_len :: "'v entries \<Rightarrow> nat" where "radix_len m = length m"

definition radix_get :: "'v entries \<Rightarrow> bytes \<Rightarrow> 'v missing_or option" where
  "radix_get m key = sv_get m key"

definition radix_insert :: "bytes \<Rightarrow> 'v missing_or \<Rightarrow> 'v entries \<Rightarrow> 'v entries \<times> 'v missing_or option" where
  "radix_insert key v m = sv_insert key v m"

definition radix_remove :: "bytes \<Rightarrow> 'v entries \<Rightarrow> 'v entries \<times> 'v missing_or option" where
  "radix_remove key m = sv_remove key m"

definition radix_root :: "digest \<Rightarrow> 'v ssz_ops \<Rightarrow> nat \<Rightarrow> 'v entries \<Rightarrow> bytes may_panic" where
  "radix_root D V kb m = radix_node D V kb m 0"

section \<open>Proofs\<close>

datatype 'v radix_terminal =
    Term_Leaf "'v missing_or"
  | Term_Empty
  | Term_DivergingLeaf bytes bytes

record 'v radix_proof =
  term_depth :: u32
  siblings :: "(u32 \<times> bytes) list"
  terminal :: "'v radix_terminal"

datatype radix_verdict = Present | Absent

text \<open>\<open>u8::leading_zeros\<close> of a non-zero byte.\<close>

fun leading_zeros8 :: "nat \<Rightarrow> u8 \<Rightarrow> nat" where
  "leading_zeros8 0 b = 0"
| "leading_zeros8 (Suc n) b = (if bit b n then 0 else 1 + leading_zeros8 n b)"

fun shared_prefix_bits :: "bytes \<Rightarrow> bytes \<Rightarrow> nat" where
  "shared_prefix_bits (x # a) (y # b) =
     (let d = x XOR y in if d = 0 then 8 + shared_prefix_bits a b else leading_zeros8 8 d)"
| "shared_prefix_bits _ _ = 0"

definition terminal_of :: "digest \<Rightarrow> 'v ssz_ops \<Rightarrow> bytes \<Rightarrow> bytes \<times> 'v missing_or \<Rightarrow> 'v radix_terminal may_panic" where
  "terminal_of D V q e =
     (case e of (k, v) \<Rightarrow>
        if k = q then Returns (Term_Leaf v)
        else bind_panic (hash_tree_root (ssz_missing_or V) D v) (\<lambda>r. Returns (Term_DivergingLeaf k r)))"

text \<open>\<open>siblings\<close> are those pushed so far.\<close>

function prove_walk ::
    "digest \<Rightarrow> 'v ssz_ops \<Rightarrow> nat \<Rightarrow> 'v entries \<Rightarrow> bytes \<Rightarrow> nat \<Rightarrow> (u32 \<times> bytes) list \<Rightarrow>
     ('v radix_terminal \<times> nat \<times> (u32 \<times> bytes) list) may_panic"
where
  "prove_walk D V kb s q depth sibs =
     (if s = [] then Returns (Term_Empty, depth, sibs)
      else if length s = 1 \<or> depth \<ge> kb * 8
      then bind_panic (terminal_of D V q (s ! 0)) (\<lambda>t. Returns (t, depth, sibs))
      else
        let mid = partition_point (\<lambda>e. key_bit (fst e) depth = 0) s;
            left = take mid s;
            right = drop mid s;
            (chosen, sibling_slice) = (if key_bit q depth = 0 then (left, right) else (right, left)) in
        bind_panic (radix_node D V kb sibling_slice (depth + 1)) (\<lambda>sib_root.
          prove_walk D V kb chosen q (depth + 1)
            (if sib_root \<noteq> EMPTY then sibs @ [(of_nat depth, sib_root)] else sibs)))"
  by pat_completeness auto
termination
  by (relation "measure (\<lambda>(D, V, kb, s, q, depth, sibs). kb * 8 - depth)") auto

declare prove_walk.simps [simp del]

definition prove :: "digest \<Rightarrow> 'v ssz_ops \<Rightarrow> nat \<Rightarrow> 'v entries \<Rightarrow> bytes \<Rightarrow> 'v radix_proof may_panic" where
  "prove D V kb m key =
     bind_panic (prove_walk D V kb m key 0 []) (\<lambda>(t, d, sibs).
       Returns \<lparr>term_depth = of_nat d, siblings = sibs, terminal = t\<rparr>)"

text \<open>The check of the sibling levels: ascending and below the terminal.\<close>

fun levels_ok :: "nat \<Rightarrow> u32 option \<Rightarrow> (u32 \<times> bytes) list \<Rightarrow> bool" where
  "levels_ok td prev [] = True"
| "levels_ok td prev ((lvl, h) # sibs) =
     (if unat lvl \<ge> td then False
      else if (case prev of Some p \<Rightarrow> lvl \<le> p | None \<Rightarrow> False) then False
      else levels_ok td (Some lvl) sibs)"

definition sibling_at :: "(u32 \<times> bytes) list \<Rightarrow> nat \<Rightarrow> bytes" where
  "sibling_at sibs level = (case find (\<lambda>(l, h). unat l = level) sibs of Some (l, h) \<Rightarrow> h | None \<Rightarrow> EMPTY)"

text \<open>Folding a hash at depth \<open>td\<close> up to the root.\<close>

fun fold_path :: "digest \<Rightarrow> bytes \<Rightarrow> (u32 \<times> bytes) list \<Rightarrow> nat \<Rightarrow> bytes \<Rightarrow> bytes" where
  "fold_path D key sibs 0 cur = cur"
| "fold_path D key sibs (Suc level) cur =
     fold_path D key sibs level
       (if key_bit key level = 0 then branch_hash D cur (sibling_at sibs level)
        else branch_hash D (sibling_at sibs level) cur)"

text \<open>The hash of the terminal and the verdict it stands for.\<close>

definition terminal_hash ::
    "digest \<Rightarrow> 'v ssz_ops \<Rightarrow> bytes \<Rightarrow> nat \<Rightarrow> 'v radix_terminal \<Rightarrow> (bytes \<times> radix_verdict) option may_panic"
where
  "terminal_hash D V key td t =
     (case t of
        Term_Leaf v \<Rightarrow> bind_panic (hash_tree_root (ssz_missing_or V) D v) (\<lambda>r. Returns (Some (leaf_hash D key r, Present)))
      | Term_Empty \<Rightarrow> Returns (Some (EMPTY, Absent))
      | Term_DivergingLeaf other_key other_value_root \<Rightarrow>
          if other_key = key then Returns None
          else if shared_prefix_bits other_key key < td then Returns None
          else Returns (Some (leaf_hash D other_key other_value_root, Absent)))"

definition verify :: "digest \<Rightarrow> 'v ssz_ops \<Rightarrow> nat \<Rightarrow> bytes \<Rightarrow> bytes \<Rightarrow> 'v radix_proof \<Rightarrow> radix_verdict option may_panic" where
  "verify D V kb root key proof =
     (let td = unat (term_depth proof) in
      if td > kb * 8 then Returns None
      else if \<not> levels_ok td None (siblings proof) then Returns None
      else bind_panic (terminal_hash D V key td (terminal proof)) (\<lambda>t.
        case t of
          None \<Rightarrow> Returns None
        | Some (cur, verdict) \<Rightarrow>
            Returns (if fold_path D key (siblings proof) td cur = root then Some verdict else None)))"

section \<open>Wire format\<close>

text \<open>One entry: the key, the offset of the value within the entry, the value.\<close>

definition encode_entry :: "'v ssz_ops \<Rightarrow> nat \<Rightarrow> bytes \<times> 'v missing_or \<Rightarrow> bytes may_panic" where
  "encode_entry V kb e =
     bind_panic (as_ssz_bytes (ssz_missing_or V) (snd e)) (\<lambda>b.
       Returns (fst e @ to_le_bytes 4 (of_nat (kb + BYTES_PER_LENGTH_OFFSET) :: u32) @ b))"

fun encode_entries :: "'v ssz_ops \<Rightarrow> nat \<Rightarrow> 'v entries \<Rightarrow> bytes list may_panic" where
  "encode_entries V kb [] = Returns []"
| "encode_entries V kb (e # es) =
     bind_panic (encode_entry V kb e) (\<lambda>b. bind_panic (encode_entries V kb es) (\<lambda>bs. Returns (b # bs)))"

definition encode_entries_list :: "'v ssz_ops \<Rightarrow> nat \<Rightarrow> 'v entries \<Rightarrow> bytes may_panic" where
  "encode_entries_list V kb es = bind_panic (encode_entries V kb es) join_payloads"

fun entry_offsets :: "bytes \<Rightarrow> nat \<Rightarrow> nat \<Rightarrow> nat \<Rightarrow> nat \<Rightarrow> ssz_error + nat list" where
  "entry_offsets bs first i 0 prev = Inr []"
| "entry_offsets bs first i (Suc n) prev =
     (if length bs < (i + 1) * BYTES_PER_LENGTH_OFFSET
      then Inl (UnexpectedEof ((i + 1) * BYTES_PER_LENGTH_OFFSET) (length bs))
      else
        let ofs = unat (from_le_bytes (take BYTES_PER_LENGTH_OFFSET (drop (i * BYTES_PER_LENGTH_OFFSET) bs)) :: u32) in
        if ofs < prev then Inl (OffsetsNotMonotonic prev ofs)
        else if ofs > length bs then Inl (InvalidOffset ofs (length bs) first)
        else (case entry_offsets bs first (i + 1) n ofs of Inl e \<Rightarrow> Inl e | Inr os \<Rightarrow> Inr (ofs # os)))"

definition decode_entry :: "'v ssz_ops \<Rightarrow> nat \<Rightarrow> bytes \<Rightarrow> ssz_error + (bytes \<times> 'v missing_or)" where
  "decode_entry V kb entry =
     (let hd_len = kb + BYTES_PER_LENGTH_OFFSET in
      if length entry < hd_len then Inl (UnexpectedEof hd_len (length entry))
      else
        let key = take kb entry;
            value_offset = unat (from_le_bytes (take BYTES_PER_LENGTH_OFFSET (drop kb entry)) :: u32) in
        if value_offset \<noteq> hd_len then Inl (InvalidOffset value_offset (length entry) hd_len)
        else (case from_ssz_bytes (ssz_missing_or V) (drop hd_len entry) of Inl e \<Rightarrow> Inl e | Inr v \<Rightarrow> Inr (key, v)))"

fun decode_entries :: "'v ssz_ops \<Rightarrow> nat \<Rightarrow> bytes list \<Rightarrow> ssz_error + 'v entries" where
  "decode_entries V kb [] = Inr []"
| "decode_entries V kb (b # bs) =
     (case decode_entry V kb b of
        Inl e \<Rightarrow> Inl e
      | Inr x \<Rightarrow> (case decode_entries V kb bs of Inl e \<Rightarrow> Inl e | Inr xs \<Rightarrow> Inr (x # xs)))"

definition decode_entries_list :: "'v ssz_ops \<Rightarrow> nat \<Rightarrow> bytes \<Rightarrow> ssz_error + 'v entries" where
  "decode_entries_list V kb bs =
     (if bs = [] then Inr []
      else if length bs < BYTES_PER_LENGTH_OFFSET then Inl (UnexpectedEof BYTES_PER_LENGTH_OFFSET (length bs))
      else
        let first = unat (from_le_bytes (take 4 bs) :: u32) in
        if first mod BYTES_PER_LENGTH_OFFSET \<noteq> 0 \<or> first > length bs then Inl (InvalidOffset first (length bs) 0)
        else
          let n = first div BYTES_PER_LENGTH_OFFSET in
          (case entry_offsets bs first 1 (n - 1) first of
             Inl e \<Rightarrow> Inl e
           | Inr os \<Rightarrow> decode_entries V kb (if n = 0 then [] else slices_at bs (first # os))))"

fun strictly_ascending :: "bytes option \<Rightarrow> 'v entries \<Rightarrow> bool" where
  "strictly_ascending prev [] = True"
| "strictly_ascending prev ((k, v) # es) =
     (if (case prev of Some p \<Rightarrow> k \<le> p | None \<Rightarrow> False) then False else strictly_ascending (Some k) es)"

definition ssz_radix :: "nat \<Rightarrow> 'v ssz_ops \<Rightarrow> 'v entries ssz_ops" where
  "ssz_radix kb V =
     \<lparr>is_ssz_fixed_len = False, ssz_fixed_len = BYTES_PER_LENGTH_OFFSET, is_basic_type = False,
      ssz_bytes_len = (\<lambda>m. 4 + length m * (BYTES_PER_LENGTH_OFFSET + kb + BYTES_PER_LENGTH_OFFSET) +
        (\<Sum>(k, v) \<leftarrow> m. ssz_bytes_len (ssz_missing_or V) v)),
      as_ssz_bytes = (\<lambda>m. bind_panic (encode_entries_list V kb m) (\<lambda>b. Returns (to_le_bytes 4 (4 :: u32) @ b))),
      from_ssz_bytes = (\<lambda>bs.
        if length bs < 4 then Inl (UnexpectedEof 4 (length bs))
        else
          let entries_offset = unat (from_le_bytes (take 4 bs) :: u32) in
          if entries_offset \<noteq> 4 then Inl (InvalidOffset entries_offset (length bs) 4)
          else (case decode_entries_list V kb (drop 4 bs) of
                  Inl e \<Rightarrow> Inl e
                | Inr es \<Rightarrow> if strictly_ascending None es then Inr es else Inl NotSorted)),
      hash_tree_root = (\<lambda>D m. radix_root D V kb m)\<rparr>"

end
