(* ===== verification/Radix_Laws.thy ===== *)
theory Radix_Laws
  imports Radix
begin

text \<open>
  What the Merkle radix map promises. \<open>node\<close> is the recursion of the documentation over sets of keys and value roots, which the
  code computes on its sorted slices. From it: the root commits to the content, proofs of membership and
  non-membership are sound and complete, the map operations are those of a finite map, and the wire format
  is exact. Statements about hashes name the strings that are hashed, and say what follows unless two of them collide.
\<close>

section \<open>Bits of keys\<close>

definition kbit :: "bytes \<Rightarrow> nat \<Rightarrow> bool" where
  "kbit k i = bit (k ! (i div 8)) (7 - i mod 8)"

lemma key_bit_eq: "key_bit k i = of_bool (kbit k i)"
  by (simp add: key_bit_def kbit_def and_one_eq mod_2_eq_odd bit_iff_odd_drop_bit)

lemma kbit_at: "m < 8 \<Longrightarrow> kbit k (8 * j + (7 - m)) = bit (k ! j) m"
proof -
  assume m: "m < 8"
  have r: "(8 * j + r) div 8 = j \<and> (8 * j + r) mod 8 = r" if "r < 8" for r using that by simp
  show ?thesis using m r [of "7 - m"] by (simp only: kbit_def) simp
qed

definition agree :: "nat \<Rightarrow> bytes \<Rightarrow> bytes \<Rightarrow> bool" where
  "agree d k k' \<longleftrightarrow> (\<forall>i < d. kbit k i = kbit k' i)"

lemma agree_Suc: "agree (Suc d) k k' \<longleftrightarrow> agree d k k' \<and> kbit k d = kbit k' d"
  by (auto simp: agree_def less_Suc_eq)

lemma agree_0 [simp]: "agree 0 k k'"
  by (simp add: agree_def)

lemma agree_sym: "agree d k k' \<Longrightarrow> agree d k' k"
  by (auto simp: agree_def)

lemma agree_trans: "agree d k k' \<Longrightarrow> agree d k' k'' \<Longrightarrow> agree d k k''"
  by (auto simp: agree_def)

lemma agree_mono: "agree d k k' \<Longrightarrow> e \<le> d \<Longrightarrow> agree e k k'"
  by (auto simp: agree_def)

text \<open>Keys that agree up to a byte have the same bytes before it.\<close>

lemma agree_bytes:
  assumes "agree d k k'" "8 * j + 8 \<le> d"
  shows "k ! j = k' ! j"
proof (rule bit_word_eqI)
  fix n assume "n < LENGTH(8)"
  then have n: "n < 8" by simp
  have "8 * j + (7 - n) < d" using assms(2) by simp
  then have "kbit k (8 * j + (7 - n)) = kbit k' (8 * j + (7 - n))" using assms(1) by (simp add: agree_def)
  then show "bit (k ! j) n \<longleftrightarrow> bit (k' ! j) n" by (simp only: kbit_at [OF n])
qed

lemma agree_full: "length k = kb \<Longrightarrow> length k' = kb \<Longrightarrow> agree (kb * 8) k k' \<Longrightarrow> k = k'"
  by (rule nth_equalityI) (auto intro: agree_bytes)

text \<open>A byte with a higher bit set, and the same bits above it, is greater.\<close>

lemma byte_less:
  assumes "\<And>m. n < m \<Longrightarrow> m < 8 \<Longrightarrow> bit x m = bit y m" "bit x n" "\<not> bit y n" "n < 8"
  shows "(y :: u8) < x"
proof -
  have "drop_bit (Suc n) x = drop_bit (Suc n) y"
  proof (rule bit_word_eqI)
    fix m assume "m < LENGTH(8)"
    show "bit (drop_bit (Suc n) x) m \<longleftrightarrow> bit (drop_bit (Suc n) y) m"
      using assms(1) [of "Suc n + m"] bit_imp_le_length [of x "Suc n + m"] bit_imp_le_length [of y "Suc n + m"]
      by (auto simp: bit_drop_bit_eq)
  qed
  then have "unat x div 2 ^ Suc n = unat y div 2 ^ Suc n" by (simp only: unat_drop_bit_eq [symmetric] drop_bit_eq_div [symmetric])
  then have h: "unat x div 2 ^ n div 2 = unat y div 2 ^ n div 2" by (simp only: div_mult2_eq [symmetric] power_Suc2)
  have "odd (unat x div 2 ^ n)" "even (unat y div 2 ^ n)"
    using assms(2,3) bit_unsigned_iff [of x n, where 'a = nat] bit_unsigned_iff [of y n, where 'a = nat] by (simp_all add: bit_iff_odd)
  moreover have "b < a" if "odd a" "even b" "a div 2 = b div 2" for a b :: nat using that by presburger
  ultimately have "unat y div 2 ^ n < unat x div 2 ^ n" using h by blast
  then show ?thesis by (metis div_le_mono leD leI word_le_nat_alt)
qed

text \<open>The lexicographic order of keys is the order of their bits.\<close>

lemma lex_less_iff: "length k = length k' \<Longrightarrow> k < k' \<longleftrightarrow> (\<exists>j < length k. (\<forall>i < j. k ! i = k' ! i) \<and> k ! j < k' ! j)"
  for k k' :: bytes
proof (induction k k' rule: list_induct2)
  case (Cons x xs y ys)
  have "x # xs < y # ys \<longleftrightarrow> x < y \<or> x = y \<and> xs < ys" by (auto simp: Cons_less_Cons)
  also have "\<dots> \<longleftrightarrow> (\<exists>j < length (x # xs). (\<forall>i < j. (x # xs) ! i = (y # ys) ! i) \<and> (x # xs) ! j < (y # ys) ! j)"
    unfolding Cons.IH by (auto simp: Ex_less_Suc2 All_less_Suc2)
  finally show ?case .
qed simp

lemma bits_ascend:
  assumes "length k = kb" "length k' = kb" "agree d k k'" "d < kb * 8" "k < k'" "kbit k d"
  shows "kbit k' d"
proof (rule ccontr)
  assume nb: "\<not> kbit k' d"
  let ?j = "d div 8"
  have "k' ! ?j < k ! ?j"
  proof (rule byte_less [where n = "7 - d mod 8"])
    fix m assume m: "7 - d mod 8 < m" "m < 8"
    have "7 - m < d mod 8" using m by simp
    then have "8 * ?j + (7 - m) < d" using mult_div_mod_eq [of 8 d] by linarith
    then have "kbit k (8 * ?j + (7 - m)) = kbit k' (8 * ?j + (7 - m))" using assms(3) by (simp only: agree_def)
    then show "bit (k ! ?j) m = bit (k' ! ?j) m" by (simp only: kbit_at [OF m(2)])
  qed (use assms(6) nb in \<open>simp_all add: kbit_def\<close>)
  moreover have "k ! i = k' ! i" if "i < ?j" for i using that by (intro agree_bytes [OF assms(3)]) linarith
  moreover have "?j < kb" using assms(4) by auto
  ultimately have "k' < k" using assms(1,2) by (auto simp: lex_less_iff)
  then show False using assms(5) by simp
qed

section \<open>The documented recursion\<close>

text \<open>The hash of a set of keys with their value roots, as the documentation defines it: split on the bit at the
  depth.\<close>

type_synonym rooted = "(bytes \<times> bytes) list"

definition side :: "bool \<Rightarrow> nat \<Rightarrow> ('k \<Rightarrow> nat \<Rightarrow> bool) \<Rightarrow> ('k \<times> 'r) list \<Rightarrow> ('k \<times> 'r) list" where
  "side b d f s = filter (\<lambda>e. f (fst e) d = b) s"

function node :: "digest \<Rightarrow> nat \<Rightarrow> rooted \<Rightarrow> nat \<Rightarrow> bytes" where
  "node D kb s d =
     (if s = [] then EMPTY
      else if length s = 1 \<or> d \<ge> kb * 8 then leaf_hash D (fst (hd s)) (snd (hd s))
      else branch_hash D (node D kb (side False d kbit s) (d + 1)) (node D kb (side True d kbit s) (d + 1)))"
  by pat_completeness auto
termination
  by (relation "measure (\<lambda>(D, kb, s, d). kb * 8 - d)") auto

declare node.simps [simp del]

text \<open>The byte strings the recursion hashes.\<close>

function hashed :: "digest \<Rightarrow> nat \<Rightarrow> rooted \<Rightarrow> nat \<Rightarrow> bytes set" where
  "hashed D kb s d =
     (if s = [] then {}
      else if length s = 1 \<or> d \<ge> kb * 8 then {[LEAF_TAG] @ fst (hd s) @ snd (hd s)}
      else {[BRANCH_TAG] @ node D kb (side False d kbit s) (d + 1) @ node D kb (side True d kbit s) (d + 1)} \<union>
        hashed D kb (side False d kbit s) (d + 1) \<union> hashed D kb (side True d kbit s) (d + 1))"
  by pat_completeness auto
termination
  by (relation "measure (\<lambda>(D, kb, s, d). kb * 8 - d)") auto

declare hashed.simps [simp del]

lemma node_Nil [simp]: "node D kb [] d = EMPTY"
  by (simp add: node.simps)

lemma node_single [simp]: "node D kb [(k, r)] d = leaf_hash D k r"
  by (simp add: node.simps)

lemma hashed_Nil [simp]: "hashed D kb [] d = {}"
  by (simp add: hashed.simps)

lemma hashed_single [simp]: "hashed D kb [(k, r)] d = {[LEAF_TAG] @ k @ r}"
  by (simp add: hashed.simps)

text \<open>The slices the recursion visits: entries in key order that agree on the bits above the depth.\<close>

definition slice_ok :: "nat \<Rightarrow> nat \<Rightarrow> (bytes \<times> 'r) list \<Rightarrow> bool" where
  "slice_ok kb d s \<longleftrightarrow> wf_bt s \<and> (\<forall>e \<in> set s. length (fst e) = kb) \<and>
     (\<forall>e \<in> set s. \<forall>e' \<in> set s. agree d (fst e) (fst e'))"

lemma slice_ok_deep: "slice_ok kb d s \<Longrightarrow> d \<ge> kb * 8 \<Longrightarrow> length s \<le> 1"
proof (rule ccontr)
  assume s: "slice_ok kb d s" "d \<ge> kb * 8" and "\<not> length s \<le> 1"
  then obtain a b t where ab: "s = a # b # t" by (cases s rule: remdups_adj.cases) auto
  have "agree (kb * 8) (fst a) (fst b)" using s ab by (auto simp: slice_ok_def intro: agree_mono)
  then have "fst a = fst b" using s ab by (intro agree_full) (auto simp: slice_ok_def)
  then show False using s ab by (auto simp: slice_ok_def wf_bt_def)
qed

lemma wf_bt_filter: "wf_bt s \<Longrightarrow> wf_bt (filter p s)"
  by (induction s) (auto simp: wf_bt_def)

lemma slice_ok_side: "slice_ok kb d s \<Longrightarrow> slice_ok kb (d + 1) (side b d kbit s)"
  by (auto simp: slice_ok_def side_def wf_bt_filter agree_Suc)

lemma side_split:
  assumes "slice_ok kb d s" "d < kb * 8"
  shows "s = side False d kbit s @ side True d kbit s"
proof -
  have "\<forall>e \<in> set s. kbit (fst e) d" if "slice_ok kb d (e # s)" "kbit (fst e) d" for e :: "bytes \<times> 'a" and s
  proof
    fix e' assume e': "e' \<in> set s"
    then have "fst e < fst e'" using that(1) by (auto simp: slice_ok_def wf_bt_def)
    then show "kbit (fst e') d"
      using that e' assms(2) by (intro bits_ascend [of "fst e" kb "fst e'" d]) (auto simp: slice_ok_def)
  qed
  moreover have "slice_ok kb d s" if "slice_ok kb d (e # s)" for e :: "bytes \<times> 'a" and s
    using that by (auto simp: slice_ok_def wf_bt_def)
  ultimately show ?thesis using assms(1)
  proof (induction s)
    case (Cons e s)
    then have IH: "s = side False d kbit s @ side True d kbit s" by blast
    show ?case
    proof (cases "kbit (fst e) d")
      case True
      then have "\<forall>e \<in> set s. kbit (fst e) d" using Cons.prems by blast
      then show ?thesis using True by (simp add: side_def filter_True filter_False)
    next
      case False
      then show ?thesis using IH by (simp add: side_def)
    qed
  qed (simp add: side_def)
qed

lemma partition_side:
  assumes "slice_ok kb d s" "d < kb * 8"
  defines "mid \<equiv> partition_point (\<lambda>e. key_bit (fst e) d = 0) s"
  shows "take mid s = side False d kbit s" "drop mid s = side True d kbit s"
proof -
  have "mid = length (side False d kbit s)"
    unfolding mid_def by (subst side_split [OF assms(1,2)], rule partition_point_append) (auto simp: side_def key_bit_eq)
  then show "take mid s = side False d kbit s" "drop mid s = side True d kbit s"
    using side_split [OF assms(1,2)] by (metis append_eq_conv_conj)+
qed

text \<open>Values whose roots can be computed.\<close>

definition value_root :: "digest \<Rightarrow> 'v ssz_ops \<Rightarrow> 'v missing_or \<Rightarrow> bytes" where
  "value_root D V v = (case hash_tree_root (ssz_missing_or V) D v of Returns r \<Rightarrow> r | Panics \<Rightarrow> [])"

definition hashable :: "digest \<Rightarrow> 'v ssz_ops \<Rightarrow> 'v missing_or \<Rightarrow> bool" where
  "hashable D V v \<longleftrightarrow> (\<exists>r. hash_tree_root (ssz_missing_or V) D v = Returns r \<and> length r = 32)"

definition rooted :: "digest \<Rightarrow> 'v ssz_ops \<Rightarrow> 'v entries \<Rightarrow> rooted" where
  "rooted D V m = map (\<lambda>e. (fst e, value_root D V (snd e))) m"

lemma hashable_root: "hashable D V v \<Longrightarrow> hash_tree_root (ssz_missing_or V) D v = Returns (value_root D V v) \<and> length (value_root D V v) = 32"
  by (auto simp: hashable_def value_root_def)

lemma rooted_simps [simp]: "rooted D V [] = []" "rooted D V (e # m) = (fst e, value_root D V (snd e)) # rooted D V m"
  "length (rooted D V m) = length m" "rooted D V m = [] \<longleftrightarrow> m = []"
  by (simp_all add: rooted_def)

lemma rooted_side: "rooted D V (side b d kbit m) = side b d kbit (rooted D V m)"
  by (simp add: rooted_def side_def filter_map comp_def)

lemma slice_ok_rooted: "slice_ok kb d (rooted D V m) \<longleftrightarrow> slice_ok kb d m"
  by (simp add: slice_ok_def rooted_def wf_bt_def comp_def)

text \<open>The code computes the documented hash.\<close>

lemma radix_node_eq:
  "slice_ok kb d m \<Longrightarrow> \<forall>e \<in> set m. hashable D V (snd e) \<Longrightarrow> radix_node D V kb m d = Returns (node D kb (rooted D V m) d)"
proof (induction D V kb m d rule: radix_node.induct)
  case (1 D V kb m d)
  consider "m = []" | e where "m = [e]" | "m \<noteq> []" "length m \<noteq> 1" "d < kb * 8"
    using slice_ok_deep [OF "1.prems"(1)] by (cases m; cases "d < kb * 8") auto
  then show ?case
  proof cases
    case 2
    then show ?thesis using "1.prems"(2) hashable_root [of D V "snd e"]
      by (simp add: radix_node.simps first_leaf_def)
  next
    case 3
    note p = partition_side [OF "1.prems"(1) 3(3)]
    have "radix_node D V kb (side b d kbit m) (d + 1) = Returns (node D kb (rooted D V (side b d kbit m)) (d + 1))" for b
    proof -
      have "\<forall>e \<in> set (side c d kbit m). hashable D V (snd e)" for c using "1.prems"(2) by (simp add: side_def)
      then show ?thesis
        using "1.IH" [OF 3(1,2) _ refl] 3(3) p slice_ok_side [OF "1.prems"(1), of b] by (cases b) simp_all
    qed
    then show ?thesis using 3 p
      by (subst radix_node.simps, subst node.simps) (simp add: Let_def rooted_side)
  qed (simp add: radix_node.simps)
qed

section \<open>Binding\<close>

text \<open>What would break the commitment: two of the hashed strings with the same digest, or one whose digest is the
  constant of the empty tree.\<close>

definition collision :: "digest \<Rightarrow> bytes set \<Rightarrow> bool" where
  "collision D X \<longleftrightarrow> (\<exists>x \<in> X. \<exists>y \<in> X. x \<noteq> y \<and> D x = D y)"

definition hits_empty :: "digest \<Rightarrow> bytes set \<Rightarrow> bool" where
  "hits_empty D X \<longleftrightarrow> (\<exists>x \<in> X. D x = EMPTY)"

lemma no_collision: "\<not> collision D X \<Longrightarrow> x \<in> X \<Longrightarrow> y \<in> X \<Longrightarrow> D x = D y \<longleftrightarrow> x = y"
  by (auto simp: collision_def)

lemma not_hits_empty: "\<not> hits_empty D X \<Longrightarrow> x \<in> X \<Longrightarrow> D x \<noteq> EMPTY"
  by (auto simp: hits_empty_def)

lemma tags_differ [simp]: "LEAF_TAG \<noteq> BRANCH_TAG" "BRANCH_TAG \<noteq> LEAF_TAG"
  by (simp_all add: LEAF_TAG_def BRANCH_TAG_def)

text \<open>The output of the digest has 32 bytes (\<open>OutputSize = U32\<close>).\<close>

definition digest32 :: "digest \<Rightarrow> bool" where
  "digest32 D \<longleftrightarrow> (\<forall>x. length (D x) = 32)"

lemma length_node: "digest32 D \<Longrightarrow> length (node D kb s d) = 32"
  by (subst node.simps) (simp add: digest32_def leaf_hash_def branch_hash_def EMPTY_def)

text \<open>The shape of a node determines the string it hashes.\<close>

lemma slice_cases:
  fixes s :: "rooted"
  assumes "slice_ok kb d s"
  obtains (Empty) "s = []"
    | (Single) k r where "s = [(k, r)]" "length k = kb"
    | (Branch) "d < kb * 8" "s \<noteq> []" "length s \<noteq> 1"
      "node D kb s d = D ([BRANCH_TAG] @ node D kb (side False d kbit s) (d + 1) @ node D kb (side True d kbit s) (d + 1))"
      "hashed D kb s d = {[BRANCH_TAG] @ node D kb (side False d kbit s) (d + 1) @ node D kb (side True d kbit s) (d + 1)} \<union>
        hashed D kb (side False d kbit s) (d + 1) \<union> hashed D kb (side True d kbit s) (d + 1)"
proof -
  consider "s = []" | k r where "s = [(k, r)]" | "d < kb * 8" "s \<noteq> []" "length s \<noteq> 1"
    using slice_ok_deep [OF assms] by (cases s; cases "d < kb * 8") auto
  then show ?thesis
  proof cases
    case 1 then show ?thesis by (rule Empty)
  next
    case 2 then show ?thesis using assms by (intro Single) (auto simp: slice_ok_def)
  next
    case 3
    then show ?thesis by (intro Branch) (simp_all add: node.simps [of D kb s] hashed.simps [of D kb s] branch_hash_def)
  qed
qed

text \<open>Without a collision, a node hash shows what the slice is.\<close>

lemma node_eq_EMPTY:
  assumes "slice_ok kb d s" "hashed D kb s d \<subseteq> X" "\<not> hits_empty D X"
  shows "node D kb s d = EMPTY \<longleftrightarrow> s = []"
  using assms(1)
proof (cases rule: slice_cases [where D = D])
  case (Single k r)
  then show ?thesis using assms(2) not_hits_empty [OF assms(3)] by (simp add: leaf_hash_def)
next
  case Branch
  then show ?thesis using assms(2) not_hits_empty [OF assms(3)] by simp
qed simp

lemma node_eq_leaf:
  assumes "slice_ok kb d s" "hashed D kb s d \<subseteq> X" "\<not> collision D X" "\<not> hits_empty D X"
    "[LEAF_TAG] @ k @ r \<in> X" "length k = kb"
  shows "node D kb s d = leaf_hash D k r \<longleftrightarrow> s = [(k, r)]"
  using assms(1)
proof (cases rule: slice_cases [where D = D])
  case Empty
  then show ?thesis using not_hits_empty [OF assms(4,5)] by (simp add: leaf_hash_def)
next
  case (Single k' r')
  then show ?thesis using no_collision [OF assms(3) _ assms(5)] assms(2,6) by (simp add: leaf_hash_def)
next
  case Branch
  then show ?thesis using no_collision [OF assms(3) _ assms(5)] assms(2) by (auto simp: leaf_hash_def)
qed

lemma node_eq_branch:
  assumes "digest32 D" "slice_ok kb d s" "hashed D kb s d \<subseteq> X" "\<not> collision D X" "\<not> hits_empty D X"
    "[BRANCH_TAG] @ l @ r \<in> X" "length l = 32" "node D kb s d = branch_hash D l r"
  shows "d < kb * 8 \<and> l = node D kb (side False d kbit s) (d + 1) \<and> r = node D kb (side True d kbit s) (d + 1) \<and>
    hashed D kb (side False d kbit s) (d + 1) \<union> hashed D kb (side True d kbit s) (d + 1) \<subseteq> X"
  using assms(2)
proof (cases rule: slice_cases [where D = D])
  case Empty
  then show ?thesis using not_hits_empty [OF assms(5,6)] assms(8) by (simp add: branch_hash_def)
next
  case (Single k' r')
  then show ?thesis using no_collision [OF assms(4) _ assms(6)] assms(3,8) by (simp add: leaf_hash_def branch_hash_def)
next
  case Branch
  let ?x = "[BRANCH_TAG] @ node D kb (side False d kbit s) (d + 1) @ node D kb (side True d kbit s) (d + 1)"
  have "?x \<in> X" "D ?x = D ([BRANCH_TAG] @ l @ r)" using Branch(4,5) assms(3,8) by (simp_all add: branch_hash_def)
  then have "?x = [BRANCH_TAG] @ l @ r" using no_collision [OF assms(4) _ assms(6)] by blast
  then show ?thesis using Branch(1,5) assms(3,7) length_node [OF assms(1)] by simp
qed

text \<open>Equal hashes, equal sets.\<close>

lemma node_binding:
  assumes D: "digest32 D" and X: "\<not> collision D X" "\<not> hits_empty D X"
  shows "slice_ok kb d s \<Longrightarrow> slice_ok kb d t \<Longrightarrow> node D kb s d = node D kb t d \<Longrightarrow>
    hashed D kb s d \<union> hashed D kb t d \<subseteq> X \<Longrightarrow> set s = set t"
proof (induction "kb * 8 - d" arbitrary: s t d rule: less_induct)
  case less
  have ht: "hashed D kb t d \<subseteq> X" using less.prems(4) by simp
  show ?case using less.prems(1)
  proof (cases rule: slice_cases [where D = D])
    case Empty
    then show ?thesis using node_eq_EMPTY [OF less.prems(2) ht X(2)] less.prems(3) by simp
  next
    case (Single k r)
    then show ?thesis using node_eq_leaf [OF less.prems(2) ht X, of k r] less.prems(3,4) by simp
  next
    case Branch
    let ?n = "\<lambda>b u. node D kb (side b d kbit u) (d + 1)"
    have "[BRANCH_TAG] @ ?n False s @ ?n True s \<in> X" using less.prems(4) Branch(5) by simp
    note b = node_eq_branch [OF D less.prems(2) ht X this length_node [OF D]]
    have "node D kb t d = branch_hash D (?n False s) (?n True s)" using Branch(4) less.prems(3) by (simp add: branch_hash_def)
    note b = b [OF this]
    have "set (side c d kbit s) = set (side c d kbit t)" for c
    proof (rule less.hyps [OF _ slice_ok_side [OF less.prems(1)] slice_ok_side [OF less.prems(2)]])
      show "?n c s = ?n c t" "kb * 8 - (d + 1) < kb * 8 - d" using b by (cases c; simp)+
      show "hashed D kb (side c d kbit s) (d + 1) \<union> hashed D kb (side c d kbit t) (d + 1) \<subseteq> X"
        using less.prems(4) Branch(5) b by (cases c) auto
    qed
    then show ?thesis using side_split [OF less.prems(1)] side_split [OF less.prems(2)] Branch(1) by (metis set_append)
  qed
qed

lemma wf_bt_set_eq: "wf_bt s \<Longrightarrow> wf_bt t \<Longrightarrow> set s = set t \<Longrightarrow> s = t"
proof (rule wf_bt_canonical)
  assume "wf_bt s" "wf_bt t" "set s = set t"
  then have "map_of s = map_of t" using map_of_inject_set [OF wf_bt_distinct wf_bt_distinct] by blast
  then show "bt_get s k = bt_get t k" for k by (simp add: bt_get_def)
qed

section \<open>Soundness of proofs\<close>

text \<open>One step of the fold at a level, and the steps from level \<open>d + n\<close> down to level \<open>d\<close>.\<close>

definition up_step :: "digest \<Rightarrow> bytes \<Rightarrow> (u32 \<times> bytes) list \<Rightarrow> nat \<Rightarrow> bytes \<Rightarrow> bytes" where
  "up_step D key sibs l cur =
     (if kbit key l then branch_hash D (sibling_at sibs l) cur else branch_hash D cur (sibling_at sibs l))"

fun fold_to :: "digest \<Rightarrow> bytes \<Rightarrow> (u32 \<times> bytes) list \<Rightarrow> nat \<Rightarrow> nat \<Rightarrow> bytes \<Rightarrow> bytes" where
  "fold_to D key sibs d 0 cur = cur"
| "fold_to D key sibs d (Suc n) cur = up_step D key sibs d (fold_to D key sibs (d + 1) n cur)"

lemma fold_path_fold_to: "fold_path D key sibs (d + n) cur = fold_path D key sibs d (fold_to D key sibs d n cur)"
proof (induction n arbitrary: d)
  case (Suc n)
  have "fold_path D key sibs (d + Suc n) cur = fold_path D key sibs (Suc d) (fold_to D key sibs (Suc d) n cur)"
    using Suc [of "Suc d"] by simp
  then show ?case by (simp add: up_step_def key_bit_eq)
qed simp

text \<open>The strings the verifier hashes.\<close>

fun path_hashed :: "digest \<Rightarrow> bytes \<Rightarrow> (u32 \<times> bytes) list \<Rightarrow> nat \<Rightarrow> nat \<Rightarrow> bytes \<Rightarrow> bytes set" where
  "path_hashed D key sibs d 0 cur = {}"
| "path_hashed D key sibs d (Suc n) cur =
     (let c = fold_to D key sibs (d + 1) n cur; h = sibling_at sibs d in
      insert (if kbit key d then [BRANCH_TAG] @ h @ c else [BRANCH_TAG] @ c @ h) (path_hashed D key sibs (d + 1) n cur))"

fun terminal_string :: "digest \<Rightarrow> 'v ssz_ops \<Rightarrow> bytes \<Rightarrow> 'v radix_terminal \<Rightarrow> bytes set" where
  "terminal_string D V key (Term_Leaf v) = {[LEAF_TAG] @ key @ value_root D V v}"
| "terminal_string D V key Term_Empty = {}"
| "terminal_string D V key (Term_DivergingLeaf k r) = {[LEAF_TAG] @ k @ r}"

fun terminal_node :: "digest \<Rightarrow> 'v ssz_ops \<Rightarrow> bytes \<Rightarrow> 'v radix_terminal \<Rightarrow> bytes" where
  "terminal_node D V key (Term_Leaf v) = leaf_hash D key (value_root D V v)"
| "terminal_node D V key Term_Empty = EMPTY"
| "terminal_node D V key (Term_DivergingLeaf k r) = leaf_hash D k r"

definition proof_hashed :: "digest \<Rightarrow> 'v ssz_ops \<Rightarrow> bytes \<Rightarrow> 'v radix_proof \<Rightarrow> bytes set" where
  "proof_hashed D V key pf =
     path_hashed D key (siblings pf) 0 (unat (term_depth pf)) (terminal_node D V key (terminal pf)) \<union>
     terminal_string D V key (terminal pf)"

text \<open>What the array types of a proof say.\<close>

definition proof_ok :: "digest \<Rightarrow> 'v ssz_ops \<Rightarrow> nat \<Rightarrow> 'v radix_proof \<Rightarrow> bool" where
  "proof_ok D V kb pf \<longleftrightarrow> (\<forall>(l, h) \<in> set (siblings pf). length h = 32) \<and>
     (case terminal pf of Term_Leaf v \<Rightarrow> hashable D V v | Term_Empty \<Rightarrow> True
      | Term_DivergingLeaf k r \<Rightarrow> length k = kb \<and> length r = 32)"

lemma length_sibling: "\<forall>(l, h) \<in> set sibs. length h = 32 \<Longrightarrow> length (sibling_at sibs l) = 32"
proof -
  assume s: "\<forall>(l, h) \<in> set sibs. length h = 32"
  show ?thesis
  proof (cases "find (\<lambda>(l', h). unat l' = l) sibs")
    case (Some x)
    then have "x \<in> set sibs" by (metis find_Some_iff nth_mem)
    then show ?thesis using s Some by (auto simp: sibling_at_def split: prod.splits)
  qed (simp add: sibling_at_def EMPTY_def)
qed

text \<open>Going down the path of a key: the fold that meets a node meets, at its bottom, the slice of the
  entries on the path.\<close>

lemma fold_descends:
  assumes D: "digest32 D" and X: "\<not> collision D X" "\<not> hits_empty D X"
    and sibs: "\<forall>(l, h) \<in> set sibs. length h = 32" and cur: "length cur = 32"
  shows "slice_ok kb d s \<Longrightarrow> hashed D kb s d \<subseteq> X \<Longrightarrow> path_hashed D key sibs d n cur \<subseteq> X \<Longrightarrow>
    node D kb s d = fold_to D key sibs d n cur \<Longrightarrow>
    \<exists>s'. slice_ok kb (d + n) s' \<and> hashed D kb s' (d + n) \<subseteq> X \<and> node D kb s' (d + n) = cur \<and>
      set s' \<subseteq> set s \<and> (\<forall>e \<in> set s. fst e = key \<longrightarrow> e \<in> set s')"
proof (induction n arbitrary: d s)
  case (Suc n)
  let ?c = "fold_to D key sibs (d + 1) n cur" and ?h = "sibling_at sibs d" and ?b = "kbit key d"
  have lc: "length ?c = 32" using cur D by (cases n) (simp_all add: up_step_def branch_hash_def digest32_def)
  have x: "(if ?b then [BRANCH_TAG] @ ?h @ ?c else [BRANCH_TAG] @ ?c @ ?h) \<in> X" using Suc.prems(3) by (auto simp: Let_def split: if_splits)
  have "?c = node D kb (side ?b d kbit s) (d + 1) \<and> hashed D kb (side ?b d kbit s) (d + 1) \<subseteq> X"
    using node_eq_branch [OF D Suc.prems(1,2) X] x lc length_sibling [OF sibs, of d] Suc.prems(4)
    by (cases ?b) (auto simp: up_step_def)
  then obtain s' where s': "slice_ok kb (d + 1 + n) s'" "hashed D kb s' (d + 1 + n) \<subseteq> X" "node D kb s' (d + 1 + n) = cur"
    "set s' \<subseteq> set (side ?b d kbit s)" "\<forall>e \<in> set (side ?b d kbit s). fst e = key \<longrightarrow> e \<in> set s'"
    using Suc.IH [OF slice_ok_side [OF Suc.prems(1)], of ?b] Suc.prems(3) by (auto simp: Let_def)
  then show ?case by (intro exI [of _ s']) (auto simp: side_def)
qed auto

lemma terminal_hash_Some:
  assumes "proof_ok D V kb pf" "terminal_hash D V key td (terminal pf) = Returns (Some (cur, verdict))"
  shows "cur = terminal_node D V key (terminal pf)" "verdict = (case terminal pf of Term_Leaf v \<Rightarrow> Present | _ \<Rightarrow> Absent)"
    "terminal pf = Term_DivergingLeaf k r \<Longrightarrow> k \<noteq> key"
  using assms
  by (auto simp: terminal_hash_def proof_ok_def bind_panic_Returns hashable_def value_root_def split: radix_terminal.splits if_splits)

lemma verify_Some:
  assumes "verify D V kb root key pf = Returns (Some verdict)" "proof_ok D V kb pf"
  shows "fold_to D key (siblings pf) 0 (unat (term_depth pf)) (terminal_node D V key (terminal pf)) = root"
    "verdict = (case terminal pf of Term_Leaf v \<Rightarrow> Present | _ \<Rightarrow> Absent)"
    "terminal pf = Term_DivergingLeaf k r \<Longrightarrow> k \<noteq> key"
proof -
  let ?td = "unat (term_depth pf)"
  obtain cur where c: "terminal_hash D V key ?td (terminal pf) = Returns (Some (cur, verdict))"
    "fold_path D key (siblings pf) ?td cur = root"
    using assms(1) by (auto simp: verify_def Let_def bind_panic_Returns split: if_splits option.splits)
  note t = terminal_hash_Some [OF assms(2) c(1)]
  show "fold_to D key (siblings pf) 0 ?td (terminal_node D V key (terminal pf)) = root"
    using c(2) t(1) fold_path_fold_to [of D key "siblings pf" 0 ?td cur] by simp
  show "verdict = (case terminal pf of Term_Leaf v \<Rightarrow> Present | _ \<Rightarrow> Absent)" by (rule t(2))
  show "terminal pf = Term_DivergingLeaf k r \<Longrightarrow> k \<noteq> key" by (rule t(3))
qed

section \<open>Completeness of proofs\<close>

text \<open>The leading equal bits of two keys are counted exactly.\<close>

lemma leading_zeros8_ge: "k \<le> n \<Longrightarrow> \<forall>j < k. \<not> bit b (n - 1 - j) \<Longrightarrow> k \<le> leading_zeros8 n b"
proof (induction n arbitrary: k)
  case (Suc n)
  show ?case
  proof (cases k)
    case (Suc i)
    then have "\<not> bit b n" using Suc.prems(2) by auto
    moreover have "i \<le> leading_zeros8 n b"
    proof (rule Suc.IH)
      show "\<forall>j < i. \<not> bit b (n - 1 - j)"
      proof safe
        fix j assume "j < i" "bit b (n - 1 - j)"
        then show False using Suc.prems(2) [THEN spec, of "Suc j"] \<open>k = Suc i\<close> by simp
      qed
    qed (use Suc.prems(1) \<open>k = Suc i\<close> in simp)
    ultimately show ?thesis using \<open>k = Suc i\<close> by simp
  qed simp
qed simp

lemma shared_prefix_ge:
  "length a = length b \<Longrightarrow> d \<le> 8 * length a \<Longrightarrow> agree d a b \<Longrightarrow> d \<le> shared_prefix_bits a b"
proof (induction a b arbitrary: d rule: list_induct2)
  case (Cons x a y b)
  show ?case
  proof (cases "x = y")
    case True
    have "agree (d - 8) a b"
    proof (unfold agree_def, safe)
      fix i assume i: "i < d - 8"
      then have "kbit (x # a) (i + 8) = kbit (y # b) (i + 8)" using Cons.prems(2) by (simp add: agree_def)
      then show "kbit a i \<Longrightarrow> kbit b i" "kbit b i \<Longrightarrow> kbit a i" using div_add_self2 [of 8 i] by (simp_all add: kbit_def)
    qed
    then have "d - 8 \<le> shared_prefix_bits a b" using Cons.IH Cons.prems(1) by simp
    then show ?thesis using True by simp
  next
    case False
    have d8: "d < 8"
    proof (rule ccontr)
      assume "\<not> d < 8"
      then have "(x # a) ! 0 = (y # b) ! 0" by (intro agree_bytes [OF Cons.prems(2)]) simp
      then show False using False by simp
    qed
    have "\<not> bit (x XOR y) (8 - 1 - j)" if "j < d" for j
      using Cons.prems(2) that d8 by (auto simp: agree_def kbit_def bit_xor_iff)
    then have "d \<le> leading_zeros8 8 (x XOR y)" using d8 by (intro leading_zeros8_ge) auto
    moreover have "x XOR y \<noteq> 0" using False by (metis bit.xor_left_self word_bw_assocs(3) xor.right_neutral)
    ultimately show ?thesis by (simp add: Let_def)
  qed
qed simp

lemma find_skip: "\<forall>x \<in> set xs. \<not> p x \<Longrightarrow> find p (xs @ ys) = find p ys"
  by (induction xs) auto

lemma sibling_at_here: "\<forall>(l, h) \<in> set sibs. unat l < d \<Longrightarrow> unat l = d \<Longrightarrow> sibling_at (sibs @ (l, h) # new) d = h"
  by (subst sibling_at_def, subst find_skip) auto

lemma sibling_at_none:
  "\<forall>(l, h) \<in> set sibs. unat l < d \<Longrightarrow> \<forall>(l, h) \<in> set new. d < unat l \<Longrightarrow> sibling_at (sibs @ new) d = EMPTY"
proof -
  assume "\<forall>(l, h) \<in> set sibs. unat l < d" "\<forall>(l, h) \<in> set new. d < unat l"
  then have "find (\<lambda>(l, h). unat l = d) (sibs @ new) = None" by (auto simp: find_None_iff)
  then show ?thesis by (simp add: sibling_at_def)
qed

text \<open>The levels of the siblings collected above depth \<open>d\<close>.\<close>

definition levels_below :: "nat \<Rightarrow> (u32 \<times> bytes) list \<Rightarrow> bool" where
  "levels_below d sibs \<longleftrightarrow> sorted_wrt (<) (map fst sibs) \<and> (\<forall>(l, h) \<in> set sibs. unat l < d)"

lemma levels_ok_sorted:
  "sorted_wrt (<) (map fst sibs) \<Longrightarrow> \<forall>(l, h) \<in> set sibs. unat l < td \<and> (case prev of Some p \<Rightarrow> p < l | None \<Rightarrow> True) \<Longrightarrow>
   levels_ok td prev sibs"
proof (induction sibs arbitrary: prev)
  case (Cons x sibs)
  obtain l h where x: "x = (l, h)" by fastforce
  have "levels_ok td (Some l) sibs" using Cons.prems by (intro Cons.IH) (auto simp: x)
  then show ?case using Cons.prems(2) by (auto simp: x not_le split: option.splits)
qed simp

lemma levels_below_ok: "levels_below td sibs \<Longrightarrow> levels_ok td None sibs"
  by (rule levels_ok_sorted) (auto simp: levels_below_def)

lemma levels_below_snoc: "levels_below d sibs \<Longrightarrow> d < 2 ^ 32 \<Longrightarrow> levels_below (d + 1) (sibs @ [(of_nat d, h)])"
  by (auto simp: levels_below_def sorted_wrt_append word_less_nat_alt unsigned_of_nat take_bit_nat_eq_self less_Suc_eq)

lemma levels_below_mono: "levels_below d sibs \<Longrightarrow> d \<le> e \<Longrightarrow> levels_below e sibs"
  by (auto simp: levels_below_def)

text \<open>What the prover has when its walk ends: siblings that fold the terminal up to the node where the walk started,
  and a terminal that shows whether the key is there.\<close>

definition walk_result ::
    "digest \<Rightarrow> 'v ssz_ops \<Rightarrow> nat \<Rightarrow> 'v entries \<Rightarrow> bytes \<Rightarrow> nat \<Rightarrow> (u32 \<times> bytes) list \<Rightarrow>
     'v radix_terminal \<times> nat \<times> (u32 \<times> bytes) list \<Rightarrow> bool"
where
  "walk_result D V kb s q d sibs r \<longleftrightarrow> (case r of (t, td, sibs') \<Rightarrow>
     d \<le> td \<and> td \<le> kb * 8 \<and> levels_below td sibs' \<and> (\<exists>new. sibs' = sibs @ new \<and> (\<forall>(l, h) \<in> set new. d \<le> unat l)) \<and>
     (\<exists>c. terminal_hash D V q td t = Returns (Some (c, if q \<in> fst ` set s then Present else Absent)) \<and>
        fold_to D q sibs' d (td - d) c = node D kb (rooted D V s) d) \<and>
     (\<forall>e \<in> set s. fst e = q \<longrightarrow> t = Term_Leaf (snd e)))"

lemma walk_result_leaf:
  assumes "hashable D V (snd e)" "length (fst e) = kb" "length q = kb" "agree d (fst e) q" "d \<le> kb * 8" "levels_below d sibs"
  shows "\<exists>t. terminal_of D V q e = Returns t \<and> walk_result D V kb [e] q d sibs (t, d, sibs)"
proof -
  have "d \<le> shared_prefix_bits (fst e) q" using assms by (intro shared_prefix_ge) auto
  then show ?thesis using assms hashable_root [OF assms(1)]
    by (cases "fst e = q") (auto simp: terminal_of_def walk_result_def terminal_hash_def split: prod.splits)
qed

lemma walk_result_step:
  assumes "d < kb * 8" "s \<noteq> []" "length s \<noteq> 1" "kb * 8 < 2 ^ 32" "levels_below d sibs"
    "h = node D kb (rooted D V (side (\<not> kbit q d) d kbit s)) (d + 1)"
    "walk_result D V kb (side (kbit q d) d kbit s) q (d + 1) (if h \<noteq> EMPTY then sibs @ [(of_nat d, h)] else sibs) r"
  shows "walk_result D V kb s q d sibs r"
proof -
  obtain t td sibs' where r: "r = (t, td, sibs')" by (cases r) auto
  let ?s = "if h \<noteq> EMPTY then sibs @ [(of_nat d, h)] else sibs"
  obtain new c where w: "d + 1 \<le> td" "td \<le> kb * 8" "levels_below td sibs'" "sibs' = ?s @ new"
    "\<forall>(l, h) \<in> set new. d + 1 \<le> unat l"
    "terminal_hash D V q td t = Returns (Some (c, if q \<in> fst ` set (side (kbit q d) d kbit s) then Present else Absent))"
    "fold_to D q sibs' (d + 1) (td - (d + 1)) c = node D kb (rooted D V (side (kbit q d) d kbit s)) (d + 1)"
    "\<forall>e \<in> set (side (kbit q d) d kbit s). fst e = q \<longrightarrow> t = Term_Leaf (snd e)"
    using assms(7) by (auto simp: walk_result_def r)
  have du: "unat (of_nat d :: u32) = d" using assms(1,4) by (simp add: unsigned_of_nat take_bit_nat_eq_self)
  have sib: "sibling_at sibs' d = h"
  proof (cases "h = EMPTY")
    case True
    then show ?thesis using sibling_at_none [of sibs d new] w(4,5) assms(5) by (auto simp: levels_below_def Suc_le_eq)
  next
    case False
    then show ?thesis using sibling_at_here [of sibs d "of_nat d" h new] w(4) assms(5) du by (auto simp: levels_below_def)
  qed
  have n: "node D kb (rooted D V s) d = up_step D q sibs' d (node D kb (rooted D V (side (kbit q d) d kbit s)) (d + 1))"
    using assms(1-3) sib assms(6) by (subst node.simps) (simp add: up_step_def rooted_side)
  have td: "td - d = Suc (td - (d + 1))" using w(1) by simp
  have "fold_to D q sibs' d (td - d) c = node D kb (rooted D V s) d" by (simp only: td fold_to.simps w(7) n)
  moreover have "\<exists>new. sibs' = sibs @ new \<and> (\<forall>(l, h) \<in> set new. d \<le> unat l)"
    using w(4,5) du by (intro exI [of _ "(if h \<noteq> EMPTY then [(of_nat d, h)] else []) @ new"]) auto
  moreover have "q \<in> fst ` set (side (kbit q d) d kbit s) \<longleftrightarrow> q \<in> fst ` set s"
    "\<forall>e \<in> set s. fst e = q \<longrightarrow> t = Term_Leaf (snd e)"
    using w(8) by (auto simp: side_def)
  ultimately show ?thesis using w by (auto simp: walk_result_def r)
qed

lemma prove_walk_spec:
  assumes "kb * 8 < 2 ^ 32" "length q = kb"
  shows "slice_ok kb d s \<Longrightarrow> \<forall>e \<in> set s. hashable D V (snd e) \<Longrightarrow> \<forall>e \<in> set s. agree d (fst e) q \<Longrightarrow> d \<le> kb * 8 \<Longrightarrow>
    levels_below d sibs \<Longrightarrow> \<exists>r. prove_walk D V kb s q d sibs = Returns r \<and> walk_result D V kb s q d sibs r"
proof (induction "kb * 8 - d" arbitrary: s d sibs rule: less_induct)
  case less
  consider "s = []" | e where "s = [e]" | "s \<noteq> []" "length s \<noteq> 1" "d < kb * 8"
    using slice_ok_deep [OF less.prems(1)] by (cases s; cases "d < kb * 8") auto
  then show ?case
  proof cases
    case 1
    then show ?thesis using less.prems(4,5) by (simp add: prove_walk.simps walk_result_def terminal_hash_def)
  next
    case 2
    then show ?thesis using walk_result_leaf [of D V e kb q d sibs] less.prems assms(2)
      by (auto simp: prove_walk.simps slice_ok_def)
  next
    case 3
    let ?c = "side (kbit q d) d kbit s" and ?o = "side (\<not> kbit q d) d kbit s"
    define h where "h = node D kb (rooted D V ?o) (d + 1)"
    let ?s = "if h \<noteq> EMPTY then sibs @ [(of_nat d, h)] else sibs"
    note p = partition_side [OF less.prems(1) 3(3)]
    have o: "radix_node D V kb ?o (d + 1) = Returns h"
      unfolding h_def using less.prems(2) by (intro radix_node_eq slice_ok_side less.prems(1)) (auto simp: side_def)
    have "levels_below (d + 1) ?s"
      using less.prems(5) levels_below_snoc [of d sibs h] levels_below_mono [of d sibs "d + 1"] 3(3) assms(1) by simp
    moreover have "\<forall>e \<in> set ?c. agree (d + 1) (fst e) q" using less.prems(3) by (auto simp: side_def agree_Suc)
    ultimately have "\<exists>r. prove_walk D V kb ?c q (d + 1) ?s = Returns r \<and> walk_result D V kb ?c q (d + 1) ?s r"
      using 3(3) less.prems(2) by (intro less.hyps slice_ok_side less.prems(1)) (auto simp: side_def)
    then obtain r where r: "prove_walk D V kb ?c q (d + 1) ?s = Returns r" "walk_result D V kb ?c q (d + 1) ?s r" by blast
    have "prove_walk D V kb s q d sibs = Returns r"
      using 3 o r(1) p by (subst prove_walk.simps) (cases "kbit q d"; simp add: Let_def key_bit_eq)
    then show ?thesis using walk_result_step [OF 3(3,1,2) assms(1) less.prems(5) h_def r(2)] by blast
  qed
qed

section \<open>Wire format\<close>

definition radix_ok :: "nat \<Rightarrow> 'v entries \<Rightarrow> bool" where
  "radix_ok kb m \<longleftrightarrow> wf_bt m \<and> (\<forall>e \<in> set m. length (fst e) = kb)"

lemma radix_ok_slice: "radix_ok kb m \<longleftrightarrow> slice_ok kb 0 m"
  by (simp add: radix_ok_def slice_ok_def)

text \<open>Entries as an SSZ type of their own: the entry list is then the list codec of the crate.\<close>

definition entry_ops :: "nat \<Rightarrow> 'v ssz_ops \<Rightarrow> (bytes \<times> 'v missing_or) ssz_ops" where
  "entry_ops kb V =
     \<lparr>is_ssz_fixed_len = False, ssz_fixed_len = BYTES_PER_LENGTH_OFFSET, is_basic_type = False,
      ssz_bytes_len = (\<lambda>e. kb + BYTES_PER_LENGTH_OFFSET + ssz_bytes_len (ssz_missing_or V) (snd e)),
      as_ssz_bytes = encode_entry V kb, from_ssz_bytes = decode_entry V kb,
      hash_tree_root = (\<lambda>D e. hash_tree_root (ssz_missing_or V) D (snd e))\<rparr>"

definition ok_entry :: "nat \<Rightarrow> ('v \<Rightarrow> bool) \<Rightarrow> bytes \<times> 'v missing_or \<Rightarrow> bool" where
  "ok_entry kb ok e \<longleftrightarrow> length (fst e) = kb \<and> ok_missing ok (snd e)"

lemma entry_ops_simps [simp]: "\<not> is_ssz_fixed_len (entry_ops kb V)" "as_ssz_bytes (entry_ops kb V) = encode_entry V kb"
  "from_ssz_bytes (entry_ops kb V) = decode_entry V kb"
  "ssz_bytes_len (entry_ops kb V) e = kb + 4 + ssz_bytes_len (ssz_missing_or V) (snd e)"
  by (simp_all add: entry_ops_def BYTES_PER_LENGTH_OFFSET_def)

lemma encode_entries_eq: "encode_entries V kb es = encode_all (entry_ops kb V) es"
  by (induction es) simp_all

lemma decode_entries_eq: "decode_entries V kb bs = decode_slices (entry_ops kb V) bs"
  by (induction bs) (simp_all split: sum.splits)

lemma entry_offsets_eq:
  "length bs < 2 ^ 32 \<Longrightarrow> entry_offsets bs first i n prev = Inr os \<longleftrightarrow> read_offsets bs first i n prev = Inr os"
  by (induction n arbitrary: i prev os)
    (auto simp: read_offset_def read_slice_def BYTES_PER_LENGTH_OFFSET_def Let_def split: sum.splits if_splits, metis sum.distinct(1))

lemma decode_entries_list_eq:
  "length bs < 2 ^ 32 \<Longrightarrow> decode_entries_list V kb bs = Inr es \<longleftrightarrow> decode_var_collection (entry_ops kb V) bs None = Inr es"
  using entry_offsets_eq [of bs]
  by (auto simp: decode_entries_list_def decode_var_collection_def read_offset_def read_slice_def BYTES_PER_LENGTH_OFFSET_def
      decode_entries_eq Let_def split: sum.splits if_splits) (metis sum.distinct(1))

lemma ascending_wf: "strictly_ascending prev es \<longleftrightarrow> wf_bt es \<and> (\<forall>p. prev = Some p \<longrightarrow> (\<forall>e \<in> set es. p < fst e))"
proof (induction es arbitrary: prev)
  case (Cons e es)
  then show ?case by (cases e; cases prev) (auto simp: wf_bt_Cons not_le dest: order.strict_trans)
qed simp

lemma le4_offset: "kb + 4 < 2 ^ 32 \<Longrightarrow> unat (from_le_bytes (to_le_bytes 4 (of_nat (kb + 4) :: u32)) :: u32) = kb + 4"
  by (subst from_to_le_bytes, simp, simp only: unsigned_of_nat) (simp add: take_bit_nat_eq_self)

context ssz_codec
begin

lemma entry_codec: "kb + 4 < 2 ^ 32 \<Longrightarrow> ssz_codec (entry_ops kb T) (ok_entry kb ok)"
proof unfold_locales
  fix e bs assume kb: "kb + 4 < 2 ^ 32" and e: "ok_entry kb ok e" "as_ssz_bytes (entry_ops kb T) e = Returns bs"
  obtain b where b: "as_ssz_bytes (ssz_missing_or T) (snd e) = Returns b" "bs = fst e @ to_le_bytes 4 (of_nat (kb + 4) :: u32) @ b"
    using e(2) by (auto simp: encode_entry_def bind_panic_Returns BYTES_PER_LENGTH_OFFSET_def)
  have k: "length (fst e) = kb" "ok_missing ok (snd e)" using e(1) by (simp_all add: ok_entry_def)
  show "ssz_bytes_len (entry_ops kb T) e = length bs"
    using ssz_codec.announced [OF missing_or_codec k(2) b(1)] k(1) b(2) by simp
  assume "length bs < 2 ^ 32"
  then have "from_ssz_bytes (ssz_missing_or T) b = Inr (snd e)"
    using ssz_codec.decode_encode [OF missing_or_codec k(2) b(1)] b(2) by simp
  then show "from_ssz_bytes (entry_ops kb T) bs = Inr e"
    using k(1) b(2) le4_offset [OF kb] by (simp add: decode_entry_def BYTES_PER_LENGTH_OFFSET_def Let_def)
qed simp_all

end

context strict_codec
begin

lemma entry_strict: "kb + 4 < 2 ^ 32 \<Longrightarrow> strict_codec (entry_ops kb T) (ok_entry kb ok)"
proof (rule strict_codec.intro [OF entry_codec], assumption, unfold_locales)
  fix bs e assume kb: "kb + 4 < 2 ^ 32" and d: "from_ssz_bytes (entry_ops kb T) bs = Inr e" "length bs < 2 ^ 32"
  have o: "length bs \<ge> kb + 4" "unat (from_le_bytes (take 4 (drop kb bs)) :: u32) = kb + 4" "fst e = take kb bs"
    "from_ssz_bytes (ssz_missing_or T) (drop (kb + 4) bs) = Inr (snd e)"
    using d(1) by (auto simp: decode_entry_def BYTES_PER_LENGTH_OFFSET_def Let_def split: if_splits sum.splits)
  have v: "ok_missing ok (snd e)" "as_ssz_bytes (ssz_missing_or T) (snd e) = Returns (drop (kb + 4) bs)"
    using strict_codec.encode_decode [OF missing_or_strict o(4)] d(2) by simp_all
  have "to_le_bytes 4 (of_nat (kb + 4) :: u32) = take 4 (drop kb bs)"
  proof -
    have l: "length (take 4 (drop kb bs)) = 4" using o(1) by simp
    have "(of_nat (kb + 4) :: u32) = from_le_bytes (take 4 (drop kb bs))" 
      using kb by (simp only: word_unat_eq_iff unsigned_of_nat o(2)) (simp add: take_bit_nat_eq_self)
    then show ?thesis using to_from_le_bytes [of "take 4 (drop kb bs)", where ?'a = 32] l by simp
  qed
  moreover have "take kb bs @ take 4 (drop kb bs) @ drop (kb + 4) bs = bs"
    by (metis append_take_drop_id drop_drop add.commute)
  ultimately show "ok_entry kb ok e \<and> as_ssz_bytes (entry_ops kb T) e = Returns bs"
    using o v by (simp add: ok_entry_def encode_entry_def BYTES_PER_LENGTH_OFFSET_def)
qed

end

context ssz_codec
begin

lemma radix_codec:
  assumes kb: "kb + 4 < 2 ^ 32"
  shows "ssz_codec (ssz_radix kb T) (\<lambda>m. wf_bt m \<and> list_all (ok_entry kb ok) m)"
proof unfold_locales
  fix m bs assume m: "wf_bt m \<and> list_all (ok_entry kb ok) m" "as_ssz_bytes (ssz_radix kb T) m = Returns bs"
  obtain b where b: "encode_items (entry_ops kb T) m = Returns b" "bs = to_le_bytes 4 (4 :: u32) @ b"
    using m(2) by (auto simp: ssz_radix_def bind_panic_Returns encode_entries_list_def encode_entries_eq encode_items_def encode_var_list_payloads_def)
  have "items_len (entry_ops kb T) m = length b" by (rule ssz_codec.items_len_encode [OF entry_codec [OF kb] _ b(1)]) (use m in simp)
  moreover have "(\<Sum>e \<leftarrow> m. ssz_bytes_len (entry_ops kb T) e) =
      length m * (kb + 4) + (\<Sum>(k, v) \<leftarrow> m. ssz_bytes_len (ssz_missing_or T) v)"
    by (induction m) (auto split: prod.splits)
  ultimately show "ssz_bytes_len (ssz_radix kb T) m = length bs"
    by (simp add: ssz_radix_def b(2) items_len_def BYTES_PER_LENGTH_OFFSET_def algebra_simps)
  assume l: "length bs < 2 ^ 32"
  have "decode_var_collection (entry_ops kb T) b None = Inr m"
    by (rule ssz_codec.decode_var_encode [OF entry_codec [OF kb] _ _ b(1)]) (use m l b(2) in simp_all)
  then have "decode_entries_list T kb b = Inr m" using decode_entries_list_eq [of b T kb m] l b(2) by simp
  then show "from_ssz_bytes (ssz_radix kb T) bs = Inr m"
    using m(1) by (simp add: ssz_radix_def b(2) from_to_le_bytes Let_def ascending_wf)
qed (simp_all add: ssz_radix_def)

end

context strict_codec
begin

lemma radix_strict:
  assumes kb: "kb + 4 < 2 ^ 32" and d: "from_ssz_bytes (ssz_radix kb T) bs = Inr m" "length bs < 2 ^ 32" "m \<noteq> [] \<or> length bs = 4"
  shows "(wf_bt m \<and> list_all (ok_entry kb ok) m) \<and> as_ssz_bytes (ssz_radix kb T) m = Returns bs"
proof -
  have o: "4 \<le> length bs" "unat (from_le_bytes (take 4 bs) :: u32) = 4" "decode_entries_list T kb (drop 4 bs) = Inr m" "wf_bt m"
    using d(1) by (auto simp: ssz_radix_def Let_def ascending_wf split: if_splits sum.splits)
  have "decode_var_collection (entry_ops kb T) (drop 4 bs) None = Inr m" using decode_entries_list_eq [of "drop 4 bs" T kb m] o(3) d(2) by simp
  then have e: "list_all (ok_entry kb ok) m" "encode_var_list_payloads (entry_ops kb T) m = Returns (drop 4 bs)"
    using strict_codec.decode_var_strict [OF entry_strict [OF kb]] d(2,3) o(1) by auto
  have "to_le_bytes 4 (4 :: u32) = take 4 bs"
  proof -
    have l: "length (take 4 bs) = 4" using o(1) by simp
    have "(4 :: u32) = from_le_bytes (take 4 bs)" by (simp only: word_unat_eq_iff o(2)) simp
    then show ?thesis using to_from_le_bytes [of "take 4 bs", where ?'a = 32] l by simp
  qed
  then show ?thesis using o(4) e
    by (simp add: ssz_radix_def encode_entries_list_def encode_entries_eq encode_var_list_payloads_def)
qed

end

section \<open>Properties\<close>

interpretation radix_map: canonical_map radix_get "\<lambda>k v m. fst (radix_insert k v m)" "\<lambda>k m. fst (radix_remove k m)" wf_bt
  unfolding radix_get_def radix_insert_def radix_remove_def by unfold_locales

lemma radix_lookup: "wf_bt m \<Longrightarrow> radix_get m k = map_of m k"
  by (simp add: radix_get_def sv_refines bt_get_def)

text \<open>C26: The radix map is a finite map. On a map with distinct keys of the right width in ascending order, \<open>insert\<close> and
  \<open>remove\<close> keep that invariant, return what was stored under the key, and change exactly that key. A map has only one
  representation, so its content does not depend on the order in which it was filled.\<close>

theorem radix_map_refines:
  assumes "radix_ok kb m" "length key = kb"
  shows "(case radix_insert key v m of (m', old) \<Rightarrow>
      radix_ok kb m' \<and> old = radix_get m key \<and> radix_get m' = (radix_get m)(key \<mapsto> v)) \<and>
    (case radix_remove key m of (m', old) \<Rightarrow>
      radix_ok kb m' \<and> old = radix_get m key \<and> radix_get m' = (radix_get m)(key := None)) \<and>
    (\<forall>m'. radix_ok kb m' \<and> radix_get m' = radix_get m \<longrightarrow> m' = m)"
proof -
  have wf: "wf_bt m" using assms(1) by (simp add: radix_ok_def)
  have i: "radix_insert key v m = (bt_insert key v m, radix_get m key)" "radix_remove key m = (bt_remove key m, radix_get m key)"
    by (simp_all add: radix_insert_def radix_remove_def radix_get_def sv_refines [OF wf])
  have "\<forall>k \<in> fst ` set (bt_insert key v m). length k = kb" "\<forall>k \<in> fst ` set (bt_remove key m). length k = kb"
    unfolding keys_insert keys_remove [OF wf] using assms by (auto simp: radix_ok_def)
  then show ?thesis
    using wf radix_map.lookup_put [OF wf, of key v] radix_map.lookup_del [OF wf, of key] radix_map.canonical [of _ m]
    by (auto simp: i radix_ok_def fun_eq_iff)
qed

theorem radix_map_refines_witness:
  "radix_ok 1 [([5], Materialized True)] \<and>
   (case radix_insert [3] (Materialized False) [([5], Materialized True)] of (m', old) \<Rightarrow>
      old = None \<and> radix_get m' [5] = Some (Materialized True))"
proof -
  have ok: "radix_ok 1 [([5], Materialized True)]" by (simp add: radix_ok_def wf_bt_def)
  have n: "radix_get [([5], Materialized True)] [3] = None" "radix_get [([5], Materialized True)] [5] = Some (Materialized True)"
    using ok by (simp_all add: radix_lookup radix_ok_def)
  show ?thesis using radix_map_refines [OF ok, of "[3]" "Materialized False"] ok n by (auto split: prod.splits)
qed

lemma wf_rooted: "wf_bt (rooted D V m) = wf_bt m"
  by (simp add: rooted_def wf_bt_def comp_def)

text \<open>C27: The root of a radix map commits to its content. The root of every well-formed map of hashable values exists and is a
  function of the keys and value roots alone. Two maps with the same root have the same keys and value roots,
  unless two different strings hashed for these two roots have the same digest, or one of them has the all-zero digest.\<close>

theorem radix_root_binding:
  assumes "digest32 D" "radix_ok kb m" "radix_ok kb m'" "\<forall>e \<in> set m \<union> set m'. hashable D V (snd e)"
  shows "(\<exists>r. radix_root D V kb m = Returns r \<and> length r = 32) \<and>
    (rooted D V m = rooted D V m' \<longrightarrow> radix_root D V kb m = radix_root D V kb m') \<and>
    (radix_root D V kb m = radix_root D V kb m' \<longrightarrow> rooted D V m = rooted D V m' \<or>
      collision D (hashed D kb (rooted D V m) 0 \<union> hashed D kb (rooted D V m') 0) \<or>
      hits_empty D (hashed D kb (rooted D V m) 0 \<union> hashed D kb (rooted D V m') 0))"
proof -
  have s: "slice_ok kb 0 m" "slice_ok kb 0 m'" using assms(2,3) by (simp_all add: radix_ok_slice)
  have r: "radix_root D V kb m = Returns (node D kb (rooted D V m) 0)" "radix_root D V kb m' = Returns (node D kb (rooted D V m') 0)"
    using assms(4) by (simp_all add: radix_root_def radix_node_eq [OF s(1)] radix_node_eq [OF s(2)])
  have "set (rooted D V m) = set (rooted D V m')"
    if "node D kb (rooted D V m) 0 = node D kb (rooted D V m') 0" "\<not> collision D X" "\<not> hits_empty D X"
      "X = hashed D kb (rooted D V m) 0 \<union> hashed D kb (rooted D V m') 0" for X
    using node_binding [OF assms(1) that(2,3) _ _ that(1)] s that(4) by (simp add: slice_ok_rooted)
  moreover have "wf_bt (rooted D V m)" "wf_bt (rooted D V m')" using assms(2,3) by (simp_all add: wf_rooted radix_ok_def)
  ultimately show ?thesis using r length_node [OF assms(1)] wf_bt_set_eq [of "rooted D V m" "rooted D V m'"] by auto
qed

text \<open>A digest to evaluate examples with.\<close>

definition sum_digest :: digest where
  "sum_digest x = sum_list x # replicate 31 7"

lemma sum_digest32: "digest32 sum_digest"
  by (simp add: digest32_def sum_digest_def)

lemma EMPTY_Cons: "EMPTY = 0 # replicate 31 0"
  by (simp add: EMPTY_def numeral_eq_Suc)

lemma hashable_bool: "hashable D ssz_bool (Materialized b)"
  by (simp add: hashable_def ssz_missing_or_def ssz_bool_def)

theorem radix_root_binding_witness:
  "radix_root sum_digest ssz_bool 1 [([5], Materialized True)] \<noteq> radix_root sum_digest ssz_bool 1 [([5], Materialized False)]"
proof -
  let ?m = "\<lambda>b. [([5], Materialized b)] :: bool entries"
  have ok: "radix_ok 1 (?m b)" for b by (simp add: radix_ok_def wf_bt_def)
  have h: "\<forall>e \<in> set (?m True) \<union> set (?m False). hashable sum_digest ssz_bool (snd e)" by (simp add: hashable_bool)
  let ?x = "\<lambda>b. [LEAF_TAG] @ [5] @ value_root sum_digest ssz_bool (Materialized b)"
  have v: "value_root sum_digest ssz_bool (Materialized b) = (if b then 1 else 0) # replicate 31 0" for b
    by (simp add: value_root_def ssz_missing_or_def ssz_bool_def)
  have "hashed sum_digest 1 (rooted sum_digest ssz_bool (?m True)) 0 \<union> hashed sum_digest 1 (rooted sum_digest ssz_bool (?m False)) 0 = {?x True, ?x False}"
    by auto
  moreover have "sum_digest (?x True) \<noteq> sum_digest (?x False)" "sum_digest (?x b) \<noteq> EMPTY" for b
    by (simp_all add: sum_digest_def v LEAF_TAG_def EMPTY_Cons sum_list_replicate)
  moreover have "rooted sum_digest ssz_bool (?m True) \<noteq> rooted sum_digest ssz_bool (?m False)" by (simp add: v)
  ultimately show ?thesis
    using radix_root_binding [OF sum_digest32 ok ok h] by (auto simp: collision_def hits_empty_def)
qed

lemma length_terminal_node: "digest32 D \<Longrightarrow> length (terminal_node D V key t) = 32"
  by (cases t) (simp_all add: leaf_hash_def digest32_def EMPTY_def)

text \<open>What an accepted proof shows when nothing collides.\<close>

lemma verify_sound:
  assumes D: "digest32 D" and m: "radix_ok kb m" "\<forall>e \<in> set m. hashable D V (snd e)" "radix_root D V kb m = Returns root"
    and pf: "length key = kb" "proof_ok D V kb pf" "verify D V kb root key pf = Returns (Some verdict)"
    and X: "\<not> collision D X" "\<not> hits_empty D X" "X = hashed D kb (rooted D V m) 0 \<union> proof_hashed D V key pf"
  shows "case verdict of Absent \<Rightarrow> radix_get m key = None
    | Present \<Rightarrow> \<exists>v w. terminal pf = Term_Leaf w \<and> radix_get m key = Some v \<and> value_root D V v = value_root D V w"
proof -
  let ?td = "unat (term_depth pf)" and ?c = "terminal_node D V key (terminal pf)"
  note v = verify_Some [OF pf(3,2)]
  have s: "slice_ok kb 0 m" using m(1) by (simp add: radix_ok_slice)
  have "node D kb (rooted D V m) 0 = fold_to D key (siblings pf) 0 ?td ?c"
    using m(3) radix_node_eq [OF s m(2)] v(1) by (simp add: radix_root_def)
  moreover have "\<forall>(l, h) \<in> set (siblings pf). length h = 32" using pf(2) by (simp add: proof_ok_def)
  ultimately obtain s' where s': "slice_ok kb ?td s'" "hashed D kb s' ?td \<subseteq> X" "node D kb s' ?td = ?c"
      "set s' \<subseteq> set (rooted D V m)" "\<forall>e \<in> set (rooted D V m). fst e = key \<longrightarrow> e \<in> set s'"
    using fold_descends [OF D X(1,2) _ length_terminal_node [OF D], of "siblings pf" kb 0 "rooted D V m" key ?td V key "terminal pf"] s X(3)
    by (auto simp: slice_ok_rooted proof_hashed_def)
  have g: "radix_get m key = map_of m key" using m(1) by (simp add: radix_lookup radix_ok_def)
  have absent: "radix_get m key = None" if "key \<notin> fst ` set s'"
  proof -
    have "key \<notin> fst ` set m" using that s'(5) by (force simp: rooted_def)
    then show ?thesis by (simp add: g map_of_eq_None_iff)
  qed
  have leaf: "s' = [(k, r)]" if "?c = leaf_hash D k r" "[LEAF_TAG] @ k @ r \<in> X" "length k = kb" for k r
    using node_eq_leaf [OF s'(1,2) X(1,2) that(2,3)] s'(3) that(1) by simp
  show ?thesis
  proof (cases "terminal pf")
    case (Term_Leaf w)
    then have "s' = [(key, value_root D V w)]" using leaf [of key] X(3) pf(1) by (simp add: proof_hashed_def)
    then obtain e where e: "e \<in> set m" "fst e = key" "value_root D V (snd e) = value_root D V w" using s'(4) by (auto simp: rooted_def)
    then have "map_of m key = Some (snd e)" using m(1) by (metis radix_ok_def wf_bt_distinct map_of_eq_Some_iff prod.collapse)
    then show ?thesis using Term_Leaf v(2) e(3) g by simp
  next
    case Term_Empty
    then have "s' = []" using node_eq_EMPTY [OF s'(1,2) X(2)] s'(3) by simp
    then show ?thesis using Term_Empty v(2) absent by simp
  next
    case (Term_DivergingLeaf k r)
    then have "s' = [(k, r)]" using leaf [of k r] X(3) pf(2) by (simp add: proof_hashed_def proof_ok_def)
    then show ?thesis using Term_DivergingLeaf v(2,3) absent by simp
  qed
qed

text \<open>C28: A verified proof tells the truth about the map. When the verifier accepts a proof for a key against the root of a
  map, a verdict \<open>Absent\<close> means that the map does not have the key, and a verdict \<open>Present\<close> means that it has it with a value
  of the root shown in the proof. Otherwise two different strings among those hashed for the root and for the
  verification have the same digest, or one of them has the all-zero digest. Siblings, depth and terminal of the proof are the adversary's choice.\<close>

theorem radix_proof_sound:
  assumes "digest32 D" "radix_ok kb m" "\<forall>e \<in> set m. hashable D V (snd e)" "radix_root D V kb m = Returns root"
    "length key = kb" "proof_ok D V kb pf" "verify D V kb root key pf = Returns (Some verdict)"
  shows "(case verdict of Absent \<Rightarrow> radix_get m key = None
      | Present \<Rightarrow> \<exists>v w. terminal pf = Term_Leaf w \<and> radix_get m key = Some v \<and> value_root D V v = value_root D V w) \<or>
    collision D (hashed D kb (rooted D V m) 0 \<union> proof_hashed D V key pf) \<or>
    hits_empty D (hashed D kb (rooted D V m) 0 \<union> proof_hashed D V key pf)"
  using verify_sound [OF assms] by blast

text \<open>C29: Every key has a proof. For every well-formed map of hashable values and every key, present or not, the prover returns
  a proof, the verifier accepts it against the root of the map, and the verdict is right. The proof of a present key carries its value.
  This needs nothing of the digest.\<close>

theorem radix_proof_complete:
  assumes "radix_ok kb m" "\<forall>e \<in> set m. hashable D V (snd e)" "length key = kb" "kb * 8 < 2 ^ 32"
  shows "\<exists>root pf. radix_root D V kb m = Returns root \<and> prove D V kb m key = Returns pf \<and>
    verify D V kb root key pf = Returns (Some (if radix_get m key = None then Absent else Present)) \<and>
    (\<forall>v. radix_get m key = Some v \<longrightarrow> terminal pf = Term_Leaf v)"
proof -
  have s: "slice_ok kb 0 m" using assms(1) by (simp add: radix_ok_slice)
  have g: "radix_get m key = map_of m key" using assms(1) by (simp add: radix_lookup radix_ok_def)
  obtain t td sibs where w: "prove_walk D V kb m key 0 [] = Returns (t, td, sibs)" "walk_result D V kb m key 0 [] (t, td, sibs)"
    using prove_walk_spec [OF assms(4,3) s assms(2), of "[]"] by (auto simp: levels_below_def)
  obtain c where c: "td \<le> kb * 8" "levels_below td sibs"
    "terminal_hash D V key td t = Returns (Some (c, if key \<in> fst ` set m then Present else Absent))"
    "fold_to D key sibs 0 td c = node D kb (rooted D V m) 0" "\<forall>e \<in> set m. fst e = key \<longrightarrow> t = Term_Leaf (snd e)"
    using w(2) by (auto simp: walk_result_def)
  have td: "unat (of_nat td :: u32) = td" using c(1) assms(4) by (simp add: unsigned_of_nat take_bit_nat_eq_self)
  have "verify D V kb (node D kb (rooted D V m) 0) key \<lparr>term_depth = of_nat td, siblings = sibs, terminal = t\<rparr> =
      Returns (Some (if key \<in> fst ` set m then Present else Absent))"
    using c levels_below_ok [OF c(2)] fold_path_fold_to [of D key sibs 0 td c] by (simp add: verify_def td Let_def)
  moreover have "radix_get m key = None \<longleftrightarrow> key \<notin> fst ` set m" by (simp add: g map_of_eq_None_iff)
  moreover have "\<forall>v. radix_get m key = Some v \<longrightarrow> t = Term_Leaf v" using c(5) by (auto simp: g dest: map_of_SomeD)
  ultimately show ?thesis
    using radix_node_eq [OF s assms(2)] w(1) by (simp add: radix_root_def prove_def if_distrib)
qed

lemma root_bool: "hash_tree_root (ssz_missing_or ssz_bool) D (Materialized b) = Returns ((if b then 1 else 0) # replicate 31 0)"
  by (simp add: ssz_missing_or_def ssz_bool_def)

lemma value_root_bool: "value_root D ssz_bool (Materialized b) = (if b then 1 else 0) # replicate 31 0"
  by (simp add: value_root_def root_bool)

theorem radix_proof_sound_witness:
  "verify sum_digest ssz_bool 1 (leaf_hash sum_digest [5] (1 # replicate 31 0)) [4]
     \<lparr>term_depth = 0, siblings = [], terminal = Term_DivergingLeaf [5] (1 # replicate 31 0)\<rparr> = Returns (Some Absent) \<and>
   radix_get [([5], Materialized True)] [4] = None"
proof -
  let ?m = "[([5], Materialized True)] :: bool entries" and ?r = "1 # replicate 31 0 :: bytes"
  let ?pf = "\<lparr>term_depth = 0, siblings = [], terminal = Term_DivergingLeaf [5] ?r\<rparr> :: bool radix_proof"
  let ?root = "leaf_hash sum_digest [5] ?r"
  have ok: "radix_ok 1 ?m" by (simp add: radix_ok_def wf_bt_def)
  have h: "\<forall>e \<in> set ?m. hashable sum_digest ssz_bool (snd e)" by (simp add: hashable_bool)
  have root: "radix_root sum_digest ssz_bool 1 ?m = Returns ?root"
    by (simp add: radix_root_def radix_node.simps first_leaf_def root_bool)
  have v: "verify sum_digest ssz_bool 1 ?root [4] ?pf = Returns (Some Absent)"
    by (simp add: verify_def terminal_hash_def Let_def)
  have X: "hashed sum_digest 1 (rooted sum_digest ssz_bool ?m) 0 \<union> proof_hashed sum_digest ssz_bool [4] ?pf = {[LEAF_TAG] @ [5] @ ?r}"
    by (simp add: proof_hashed_def value_root_bool)
  have "\<not> hits_empty sum_digest {[LEAF_TAG] @ [5] @ ?r}" "\<not> collision sum_digest {[LEAF_TAG] @ [5] @ ?r}"
    by (simp_all add: hits_empty_def collision_def sum_digest_def EMPTY_Cons)
  then show ?thesis
    using radix_proof_sound [OF sum_digest32 ok h root, of "[4]" ?pf Absent] v by (simp only: X) (simp add: proof_ok_def)
qed

theorem radix_proof_complete_witness:
  "\<exists>root pf. radix_root sum_digest ssz_bool 1 [([5], Materialized True), ([7], Materialized False)] = Returns root \<and>
     prove sum_digest ssz_bool 1 [([5], Materialized True), ([7], Materialized False)] [7] = Returns pf \<and>
     verify sum_digest ssz_bool 1 root [7] pf = Returns (Some Present) \<and> terminal pf = Term_Leaf (Materialized False)"
proof -
  let ?m = "[([5], Materialized True), ([7], Materialized False)] :: bool entries"
  have ok: "radix_ok 1 ?m" by (simp add: radix_ok_def wf_bt_def)
  have h: "\<forall>e \<in> set ?m. hashable sum_digest ssz_bool (snd e)" by (simp add: hashable_bool)
  have "radix_get ?m [7] = Some (Materialized False)" using ok by (simp add: radix_lookup radix_ok_def)
  then show ?thesis using radix_proof_complete [OF ok h, of "[7]"] by auto
qed

text \<open>C30: The wire format of a radix map is exact over every strict value codec. A well-formed map whose encoding is below 4 GiB
  decodes from it to the same map, and the encoding has the announced length. Conversely, whatever decodes
  is a well-formed map (keys ascending and of the right width) and the encoding of that map, an input that decodes
  to the empty map but has more than the four bytes of its encoding excepted.\<close>

theorem radix_codec_exact:
  assumes "strict_codec V ok" "kb + 4 < 2 ^ 32"
  shows "(wf_bt m \<and> list_all (ok_entry kb ok) m \<and> as_ssz_bytes (ssz_radix kb V) m = Returns bs \<and> length bs < 2 ^ 32 \<longrightarrow>
      from_ssz_bytes (ssz_radix kb V) bs = Inr m \<and> ssz_bytes_len (ssz_radix kb V) m = length bs) \<and>
    (from_ssz_bytes (ssz_radix kb V) bs = Inr m \<and> length bs < 2 ^ 32 \<and> (m \<noteq> [] \<or> length bs = 4) \<longrightarrow>
      wf_bt m \<and> list_all (ok_entry kb ok) m \<and> as_ssz_bytes (ssz_radix kb V) m = Returns bs)"
proof -
  have c: "ssz_codec V ok" using assms(1) by (simp add: strict_codec_def)
  note r = ssz_codec.radix_codec [OF c assms(2)]
  show ?thesis
    using ssz_codec.decode_encode [OF r, of m bs] ssz_codec.announced [OF r, of m bs] strict_codec.radix_strict [OF assms, of bs m] by blast
qed

theorem radix_codec_exact_witness:
  "from_ssz_bytes (ssz_radix 1 ssz_bool) [4, 0, 0, 0, 4, 0, 0, 0, 9, 5, 0, 0, 0, 0, 1] = Inr [([9], Materialized True)]"
proof -
  let ?m = "[([9], Materialized True)]" and ?b = "[4, 0, 0, 0, 4, 0, 0, 0, 9, 5, 0, 0, 0, 0, 1] :: bytes"
  have n: "(4 :: nat) = Suc (Suc (Suc (Suc 0)))" by simp
  have le: "to_le_bytes 4 (5 :: u32) = [5, 0, 0, 0]" "to_le_bytes 4 (4 :: u32) = [4, 0, 0, 0]" by (subst n, simp)+
  have "as_ssz_bytes (ssz_radix 1 ssz_bool) ?m = Returns ?b"
    by (simp add: ssz_radix_def encode_entries_list_def encode_entry_def ssz_missing_or_def ssz_bool_def join_payloads_def
        BYTES_PER_LENGTH_OFFSET_def le)
  moreover have "wf_bt ?m \<and> list_all (ok_entry 1 (\<lambda>_. True)) ?m" by (simp add: wf_bt_def ok_entry_def ok_missing_def)
  moreover have "length ?b < 2 ^ 32" "(1 :: nat) + 4 < 2 ^ 32" by simp_all
  ultimately show ?thesis using radix_codec_exact [OF bool_codec.strict_codec_axioms, of 1 ?m ?b] by blast
qed

text \<open>The exception is real, although the decoder is documented as strict: zero as the first offset of the entry list hides
  whatever follows it.\<close>

lemma radix_empty_malleable: "from_ssz_bytes (ssz_radix kb V) [4, 0, 0, 0, 0, 0, 0, 0, 7] = Inr []"
  by (simp add: ssz_radix_def decode_entries_list_def BYTES_PER_LENGTH_OFFSET_def from_le_bytes_def Let_def)

text \<open>Collision resistance alone does not make the root binding: with a digest that maps one string to zero, the empty map and
  a map with one entry have the same root, and no two strings collide.\<close>

lemma empty_root_preimage:
  "digest32 (\<lambda>x. EMPTY) \<and> radix_root (\<lambda>x. EMPTY) ssz_bool 1 [([5], Materialized True)] = radix_root (\<lambda>x. EMPTY) ssz_bool 1 [] \<and>
   \<not> collision (\<lambda>x. EMPTY) (hashed (\<lambda>x. EMPTY) 1 (rooted (\<lambda>x. EMPTY) ssz_bool [([5], Materialized True)]) 0 \<union>
     hashed (\<lambda>x. EMPTY) 1 (rooted (\<lambda>x. EMPTY) ssz_bool []) 0)"
  by (simp add: digest32_def EMPTY_def radix_root_def radix_node.simps first_leaf_def root_bool leaf_hash_def collision_def)

end
