(* ===== verification/Data_Cap.thy ===== *)
theory Data_Cap
  imports Ssz Btree_Map
begin

text \<open>
  Data capabilities of \<open>rust/javm-cap/src/cap\<close>: pages (\<open>page.rs\<close>) and \<open>DataCap\<close>, an immutable page slab
  with a copy-on-write overlay (\<open>data.rs\<close>). Sharing by \<open>Arc\<close> is invisible to values, so a shared slab is
  the slab itself. The digest \<open>D\<close> is that of the page hashes, a parameter. The \<open>debug_assert\<close>s do not run in
  a release build and are left out.
\<close>

section \<open>Pages\<close>

definition PAGE_SIZE_cap :: nat where "PAGE_SIZE_cap = 4096"

record page_bytes =
  pb_hash :: bytes
  pb_bytes :: bytes

datatype page_slot = Slot_Empty | Slot_Loaded page_bytes | Slot_Missing bytes

text \<open>\<open>hash_tree_root\<close> of \<open>[u8; N]\<close>.\<close>

definition byte_array_root :: "digest \<Rightarrow> bytes \<Rightarrow> bytes" where
  "byte_array_root D bs = merkleize D (pack_bytes bs) (max (div_ceil (length bs) 32) 1)"

text \<open>A page-sized buffer of zeros with \<open>bs\<close> copied to its start, cut to the page.\<close>

definition page_buffer :: "bytes \<Rightarrow> bytes" where
  "page_buffer bs = take PAGE_SIZE_cap bs @ replicate (PAGE_SIZE_cap - length bs) 0"

definition page_content_hash :: "digest \<Rightarrow> bytes \<Rightarrow> bytes" where
  "page_content_hash D bs = byte_array_root D (page_buffer bs)"

definition from_content :: "digest \<Rightarrow> bytes \<Rightarrow> page_bytes" where
  "from_content D content = \<lparr>pb_hash = page_content_hash D content, pb_bytes = page_buffer content\<rparr>"

definition from_page_copy_unhashed :: "bytes \<Rightarrow> page_bytes" where
  "from_page_copy_unhashed src = \<lparr>pb_hash = replicate 32 0, pb_bytes = page_buffer src\<rparr>"

definition slot_root :: "page_slot \<Rightarrow> bytes" where
  "slot_root s = (case s of Slot_Empty \<Rightarrow> replicate 32 0 | Slot_Loaded p \<Rightarrow> pb_hash p | Slot_Missing h \<Rightarrow> h)"

section \<open>Page slabs\<close>

record page_slab =
  slab_size :: u64
  slab_pages :: "page_slot list"

definition slab_empty :: page_slab where
  "slab_empty = \<lparr>slab_size = 0, slab_pages = []\<rparr>"

definition slab_page_count :: "page_slab \<Rightarrow> nat" where
  "slab_page_count s = unat (slab_size s div of_nat PAGE_SIZE_cap)"

definition slab_page :: "page_slab \<Rightarrow> nat \<Rightarrow> page_slot" where
  "slab_page s i = (if i < length (slab_pages s) then slab_pages s ! i else Slot_Empty)"

definition all_zero :: "bytes \<Rightarrow> bool" where
  "all_zero bs = list_all (\<lambda>b. b = 0) bs"

definition content_slot :: "digest \<Rightarrow> bytes \<Rightarrow> page_slot" where
  "content_slot D content = (if all_zero content then Slot_Empty else Slot_Loaded (from_content D content))"

text \<open>The loop that pops empty pages off the end.\<close>

definition trim_empty :: "page_slot list \<Rightarrow> page_slot list" where
  "trim_empty ps = rev (dropWhile (\<lambda>s. s = Slot_Empty) (rev ps))"

text \<open>\<open>pages[p] = slot\<close> after growing the vector to reach \<open>p\<close>.\<close>

definition set_page :: "nat \<Rightarrow> page_slot \<Rightarrow> page_slot list \<Rightarrow> page_slot list" where
  "set_page p slot ps = (if length ps \<le> p then resize ps (p + 1) Slot_Empty else ps)[p := slot]"

definition put_page_idx :: "digest \<Rightarrow> nat \<Rightarrow> bytes \<Rightarrow> page_slab \<Rightarrow> page_slab" where
  "put_page_idx D p content s =
     s\<lparr>slab_pages := trim_empty (set_page p (content_slot D content) (slab_pages s))\<rparr>"

definition next_multiple_of_u64 :: "u64 \<Rightarrow> u64 \<Rightarrow> u64" where
  "next_multiple_of_u64 x d = (if x mod d = 0 then x else x + (d - x mod d))"

definition page_slice :: "bytes \<Rightarrow> nat \<Rightarrow> bytes" where
  "page_slice content p =
     (let lo = min (p * PAGE_SIZE_cap) (length content);
          hi = min (p * PAGE_SIZE_cap + PAGE_SIZE_cap) (length content) in
      take (hi - lo) (drop lo content))"

text \<open>Truncating after the last non-empty page is \<open>trim_empty\<close>.\<close>

definition slab_from_bytes_sized :: "digest \<Rightarrow> bytes \<Rightarrow> u64 \<Rightarrow> page_slab" where
  "slab_from_bytes_sized D content at_least =
     (let sz = max (next_multiple_of_u64 (max at_least (of_nat (length content))) (of_nat PAGE_SIZE_cap)) (of_nat PAGE_SIZE_cap);
          total_pages = unat (sz div of_nat PAGE_SIZE_cap) in
      \<lparr>slab_size = sz, slab_pages = trim_empty (map (\<lambda>p. content_slot D (page_slice content p)) [0..<total_pages])\<rparr>)"

definition slab_from_sparse_pages :: "digest \<Rightarrow> u64 \<Rightarrow> (u32 \<times> bytes) list \<Rightarrow> page_slab" where
  "slab_from_sparse_pages D sz pages =
     (let sz' = max (next_multiple_of_u64 sz (of_nat PAGE_SIZE_cap)) (of_nat PAGE_SIZE_cap) in
      fold (\<lambda>(page_index, content). put_page_idx D (unat page_index) content) pages
        \<lparr>slab_size = sz', slab_pages = []\<rparr>)"

definition slab_root :: "digest \<Rightarrow> page_slab \<Rightarrow> bytes" where
  "slab_root D s =
     (let n = slab_page_count s in merkleize D (map (\<lambda>i. slot_root (slab_page s i)) [0..<n]) (max n 1))"

section \<open>Data caps\<close>

record data_cap =
  backing :: page_slab
  overlay :: "(u32, page_slot) btree"

definition data_root :: "digest \<Rightarrow> data_cap \<Rightarrow> bytes may_panic" where
  "data_root D d =
     (if overlay d \<noteq> [] then Panics
      else bind_panic (hash_tree_root (ssz_uint 8) D (slab_size (backing d))) (\<lambda>size_root.
        Returns (merkleize D [size_root, slab_root D (backing d)] 2)))"

datatype page_resolution = Res_Zero | Res_Bytes bytes | Res_Missing bytes

definition data_empty :: data_cap where
  "data_empty = \<lparr>backing = slab_empty, overlay = []\<rparr>"

definition content_len :: "data_cap \<Rightarrow> u64" where
  "content_len d = slab_size (backing d)"

definition page_count :: "data_cap \<Rightarrow> nat" where
  "page_count d = slab_page_count (backing d)"

definition is_dirty :: "data_cap \<Rightarrow> nat \<Rightarrow> bool" where
  "is_dirty d i = (case bt_get (overlay d) (of_nat i) of Some (Slot_Loaded _) \<Rightarrow> True | Some (Slot_Missing _) \<Rightarrow> True | _ \<Rightarrow> False)"

definition page_slot_at :: "data_cap \<Rightarrow> nat \<Rightarrow> page_slot" where
  "page_slot_at d i =
     (case bt_get (overlay d) (of_nat i) of
        Some (Slot_Loaded p) \<Rightarrow> Slot_Loaded p
      | Some (Slot_Missing h) \<Rightarrow> Slot_Missing h
      | _ \<Rightarrow> slab_page (backing d) i)"

definition page_at :: "data_cap \<Rightarrow> u64 \<Rightarrow> page_resolution" where
  "page_at d ofs =
     (case page_slot_at d (unat (ofs div of_nat PAGE_SIZE_cap)) of
        Slot_Loaded p \<Rightarrow> Res_Bytes (pb_bytes p)
      | Slot_Missing h \<Rightarrow> Res_Missing h
      | Slot_Empty \<Rightarrow> Res_Zero)"

text \<open>The loop of \<open>copy_into\<close>: the bytes of \<open>out\<close> from \<open>done_n\<close> on.\<close>

function copy_loop :: "data_cap \<Rightarrow> u64 \<Rightarrow> nat \<Rightarrow> nat \<Rightarrow> bytes may_panic" where
  "copy_loop d start done_n n =
     (if n \<le> done_n then Returns []
      else
        let ofs = start + of_nat done_n;
            page_off = unat (ofs mod of_nat PAGE_SIZE_cap);
            k = min (PAGE_SIZE_cap - page_off) (n - done_n) in
        case page_at d ofs of
          Res_Bytes bs \<Rightarrow>
            let m = min (length bs - page_off) k in
            bind_panic (copy_loop d start (done_n + k) n) (\<lambda>rest.
              Returns (take m (drop page_off bs) @ replicate (k - m) 0 @ rest))
        | Res_Zero \<Rightarrow> bind_panic (copy_loop d start (done_n + k) n) (\<lambda>rest. Returns (replicate k 0 @ rest))
        | Res_Missing h \<Rightarrow> Panics)"
  by pat_completeness auto
termination
proof (relation "measure (\<lambda>(d, start, done_n, n). n - done_n)")
  have pos: "unat (w mod of_nat PAGE_SIZE_cap :: u64) < PAGE_SIZE_cap" for w
    by (simp add: PAGE_SIZE_cap_def unat_mod)
  fix d :: data_cap and start ofs :: u64 and done_n n page_off k m :: nat
  assume a: "\<not> n \<le> done_n" "ofs = start + of_nat done_n" "page_off = unat (ofs mod of_nat PAGE_SIZE_cap)"
    "k = min (PAGE_SIZE_cap - page_off) (n - done_n)"
  then have "0 < k" using pos [of ofs] by simp
  then show "((d, start, done_n + k, n), d, start, done_n, n) \<in> measure (\<lambda>(d, start, done_n, n). n - done_n)"
    "((d, start, done_n + k, n), d, start, done_n, n) \<in> measure (\<lambda>(d, start, done_n, n). n - done_n)"
    using a(1) by simp_all
qed simp

declare copy_loop.simps [simp del]

definition copy_into :: "data_cap \<Rightarrow> u64 \<Rightarrow> nat \<Rightarrow> bytes may_panic" where
  "copy_into d start n = copy_loop d start 0 n"

definition put_page :: "digest \<Rightarrow> u64 \<Rightarrow> bytes \<Rightarrow> data_cap \<Rightarrow> data_cap" where
  "put_page D ofs content d =
     d\<lparr>backing := put_page_idx D (unat (ofs div of_nat PAGE_SIZE_cap)) content (backing d)\<rparr>"

definition write_page :: "digest \<Rightarrow> u64 \<Rightarrow> bytes \<Rightarrow> data_cap \<Rightarrow> data_cap" where
  "write_page D ofs content d =
     d\<lparr>overlay := bt_insert (ucast (ofs div of_nat PAGE_SIZE_cap)) (Slot_Loaded (from_content D content)) (overlay d)\<rparr>"

definition insert_overlay_page :: "u32 \<Rightarrow> page_slot \<Rightarrow> data_cap \<Rightarrow> data_cap" where
  "insert_overlay_page p slot d = d\<lparr>overlay := bt_insert p slot (overlay d)\<rparr>"

text \<open>The loop of \<open>place_shared\<close> over the pages \<open>i\<close> of \<open>src\<close>; it stops at the end of the destination.\<close>

fun place_loop :: "data_cap \<Rightarrow> nat \<Rightarrow> nat \<Rightarrow> nat list \<Rightarrow> page_slot list \<Rightarrow> page_slot list" where
  "place_loop src base total_pages [] ps = ps"
| "place_loop src base total_pages (i # rest) ps =
     (let dst = base + i in
      if dst \<ge> total_pages then ps
      else place_loop src base total_pages rest (set_page dst (page_slot_at src i) ps))"

definition place_shared :: "u64 \<Rightarrow> data_cap \<Rightarrow> data_cap \<Rightarrow> data_cap" where
  "place_shared dst_off src d =
     (let base = unat (dst_off div of_nat PAGE_SIZE_cap);
          total_pages = slab_page_count (backing d) in
      d\<lparr>backing := (backing d)\<lparr>slab_pages :=
        trim_empty (place_loop src base total_pages [0..<page_count src] (slab_pages (backing d)))\<rparr>\<rparr>)"

fun flush_loop :: "digest \<Rightarrow> (u32 \<times> page_slot) list \<Rightarrow> page_slab \<Rightarrow> page_slab may_panic" where
  "flush_loop D [] s = Returns s"
| "flush_loop D ((p, slot) # es) s =
     (case slot of
        Slot_Loaded pr \<Rightarrow> flush_loop D es (put_page_idx D (unat p) (pb_bytes pr) s)
      | Slot_Empty \<Rightarrow> flush_loop D es s
      | Slot_Missing h \<Rightarrow> Panics)"

definition flush :: "digest \<Rightarrow> data_cap \<Rightarrow> data_cap may_panic" where
  "flush D d =
     (if overlay d = [] then Returns d
      else bind_panic (flush_loop D (overlay d) (backing d)) (\<lambda>s. Returns \<lparr>backing = s, overlay = []\<rparr>))"

definition data_from_bytes_sized :: "digest \<Rightarrow> bytes \<Rightarrow> u64 \<Rightarrow> data_cap" where
  "data_from_bytes_sized D content at_least = \<lparr>backing = slab_from_bytes_sized D content at_least, overlay = []\<rparr>"

definition data_from_bytes :: "digest \<Rightarrow> bytes \<Rightarrow> data_cap" where
  "data_from_bytes D content = data_from_bytes_sized D content (of_nat (length content))"

definition data_from_sparse_pages :: "digest \<Rightarrow> u64 \<Rightarrow> (u32 \<times> bytes) list \<Rightarrow> data_cap" where
  "data_from_sparse_pages D sz pages = \<lparr>backing = slab_from_sparse_pages D sz pages, overlay = []\<rparr>"

end
