(* ===== verification/Cap.thy ===== *)
theory Cap
  imports Data_Cap Radix Program_Blob
begin

text \<open>
  The capabilities of \<open>rust/javm-cap\<close>: slot keys (\<open>slot.rs\<close>), references between caps (\<open>cache.rs\<close>), cnodes
  (\<open>cap/cnode.rs\<close>), images and instances (\<open>cap/image.rs\<close>, \<open>cap/instance.rs\<close>, \<open>cap/mod.rs\<close>), the registry of kernel
  images (\<open>kernel_image.rs\<close>) and the kernel unit handles (\<open>yield_cap.rs\<close>). A \<open>Key\<close> is its bytes, ordered
  lexicographically. \<open>H\<close> is the hash function Blake2b-256 and \<open>D\<close> the digest of the merkle trees, both of other crates
  and so parameters.
\<close>

section \<open>Keys\<close>

type_synonym key = bytes

definition MAX_KEY_LEN :: nat where "MAX_KEY_LEN = 8"

definition key_of_u8 :: "u8 \<Rightarrow> key" where
  "key_of_u8 b = [b]"

definition key_to_regs :: "key \<Rightarrow> (u64 \<times> u64) may_panic" where
  "key_to_regs k =
     (if length k > MAX_KEY_LEN then Panics
      else Returns (from_le_bytes (k @ replicate (8 - length k) 0), of_nat (length k)))"

definition key_from_regs :: "u64 \<Rightarrow> u64 \<Rightarrow> key" where
  "key_from_regs packed len = take (min (unat len) MAX_KEY_LEN) (to_le_bytes 8 packed)"

section \<open>References and cnodes\<close>

text \<open>\<open>CapHashOrRef<O>\<close>: a content hash or a cap held inline.\<close>

datatype 'o cap_ref = Ref_Hash bytes | Ref_Owned 'o

datatype cap_error = SlotOutOfRange u32 u8 | InvalidCNodeSize u8

text \<open>\<open>CNodeSlots<O>\<close>: a sorted vector of entries.\<close>

type_synonym 'o cnode = "(key, 'o cap_ref missing_or) sorted_vec"

definition slots_get :: "'o cnode \<Rightarrow> key \<Rightarrow> 'o cap_ref missing_or option" where
  "slots_get c k = sv_get c k"

definition slots_insert :: "key \<Rightarrow> 'o cap_ref missing_or \<Rightarrow> 'o cnode \<Rightarrow> 'o cnode \<times> 'o cap_ref missing_or option" where
  "slots_insert k v c = sv_insert k v c"

definition slots_remove :: "key \<Rightarrow> 'o cnode \<Rightarrow> 'o cnode \<times> 'o cap_ref missing_or option" where
  "slots_remove k c = sv_remove k c"

definition materialized :: "'a missing_or option \<Rightarrow> 'a option" where
  "materialized m = (case m of Some (Materialized t) \<Rightarrow> Some t | _ \<Rightarrow> None)"

definition peek_key :: "'o cnode \<Rightarrow> key \<Rightarrow> 'o cap_ref option" where
  "peek_key c k = materialized (slots_get c k)"

definition set_key :: "key \<Rightarrow> 'o cap_ref option \<Rightarrow> 'o cnode \<Rightarrow> 'o cnode \<times> 'o cap_ref option" where
  "set_key k target c =
     (let (c', old) = (case target of Some t \<Rightarrow> slots_insert k (Materialized t) c | None \<Rightarrow> slots_remove k c) in
      (c', materialized old))"

definition take_key :: "key \<Rightarrow> 'o cnode \<Rightarrow> 'o cnode \<times> 'o cap_ref option" where
  "take_key k c = set_key k None c"

definition cnode_set :: "key \<Rightarrow> 'o cap_ref option \<Rightarrow> 'o cnode \<Rightarrow> cap_error + ('o cnode \<times> 'o cap_ref option)" where
  "cnode_set k target c =
     (let (c', old) = (case target of Some t \<Rightarrow> slots_insert k (Materialized t) c | None \<Rightarrow> slots_remove k c) in
      Inr (c', materialized old))"

definition cnode_take :: "key \<Rightarrow> 'o cnode \<Rightarrow> cap_error + ('o cnode \<times> 'o cap_ref option)" where
  "cnode_take k c = cnode_set k None c"

definition get_key :: "'o cnode \<Rightarrow> key \<Rightarrow> 'o cap_ref option" where
  "get_key c k = materialized (slots_get c k)"

definition cnode_get :: "'o cnode \<Rightarrow> key \<Rightarrow> 'o cap_ref option" where
  "cnode_get c k = materialized (slots_get c k)"

definition CNODE_COMMITMENT_KEY_BYTES :: nat where "CNODE_COMMITMENT_KEY_BYTES = 32"

definition commitment_key :: "(bytes \<Rightarrow> bytes) \<Rightarrow> key \<Rightarrow> bytes" where
  "commitment_key H k = H k"

text \<open>The wire form of a reference; one that is held inline panics.\<close>

definition ssz_cap_ref :: "'o cap_ref ssz_ops" where
  "ssz_cap_ref =
     \<lparr>is_ssz_fixed_len = False, ssz_fixed_len = BYTES_PER_LENGTH_OFFSET, is_basic_type = False,
      ssz_bytes_len = (\<lambda>r. 1 + 32),
      as_ssz_bytes = (\<lambda>r. case r of Ref_Hash h \<Rightarrow> Returns (0 # h) | Ref_Owned _ \<Rightarrow> Panics),
      from_ssz_bytes = (\<lambda>bs.
        if bs = [] then Inl (UnexpectedEof 1 0)
        else if bs ! 0 = 0 then
          (if length bs \<noteq> 1 + 32 then Inl (UnexpectedEof (1 + 32) (length bs)) else Inr (Ref_Hash (drop 1 bs)))
        else Inl (InvalidSelector (bs ! 0))),
      hash_tree_root = (\<lambda>D r. case r of Ref_Hash h \<Rightarrow> Returns h | Ref_Owned _ \<Rightarrow> Panics)\<rparr>"

definition cnode_root :: "digest \<Rightarrow> (bytes \<Rightarrow> bytes) \<Rightarrow> 'o cnode \<Rightarrow> bytes may_panic" where
  "cnode_root D H c =
     (let commitment = fold (\<lambda>(k, v) m. fst (radix_insert (commitment_key H k) v m)) c radix_new in
      bind_panic (radix_root D ssz_cap_ref CNODE_COMMITMENT_KEY_BYTES commitment) (\<lambda>r. Returns (merkleize D [r] 1)))"

section \<open>Images and instances\<close>

definition NUM_REGS :: nat where "NUM_REGS = 13"

record endpoint_def =
  entry_pc :: u64
  ep_stack_top :: u64
  arg_cnode_slot :: key
  arg_cnode_size :: u8
  initial_regs :: "u64 list"

record memory_mapping =
  mm_start :: u64
  mm_size :: u64
  mm_source :: "key list"

record image_slot_entry =
  se_slot :: key
  se_cap_hash :: bytes

record image_cap =
  im_code :: bytes
  im_endpoints :: "(key \<times> endpoint_def) list"
  im_mappings :: "memory_mapping list"
  im_pinned :: "image_slot_entry list"
  im_initial :: "image_slot_entry list"
  yield_receiver_slot :: "key option"
  gas_slots :: "key list"
  quota_slots :: "key list"

definition mapping_path :: "memory_mapping \<Rightarrow> key list" where
  "mapping_path m = mm_source m"

definition mapping_is_pinned :: "image_cap \<Rightarrow> u32 \<Rightarrow> bool" where
  "mapping_is_pinned img start =
     list_ex (\<lambda>m. ucast (mm_start m) = start \<and>
       (case mm_source m of root # _ \<Rightarrow> list_ex (\<lambda>p. se_slot p = root) (im_pinned img) | [] \<Rightarrow> False)) (im_mappings img)"

text \<open>\<open>InstanceCap<O>\<close>; \<open>O\<close> is the payload of an inline root cnode.\<close>

datatype 'o instance_cap =
  InstanceCap (image_hash_chain: bytes) (image_hash: bytes) (root_cnode: "'o cap_ref") (inst_mem: data_cap)
    (inst_regs: "u64 list") (inst_pc: u64) (gas_remaining: u64)

datatype cap =
    Cap_Instance "cap instance_cap"
  | Cap_Image image_cap
  | Cap_Data data_cap
  | Cap_CNode "cap cnode"

definition data_inline :: "digest \<Rightarrow> bytes \<Rightarrow> cap" where
  "data_inline D bs = Cap_Data (data_from_bytes D bs)"

definition empty_cnode :: cap where
  "empty_cnode = Cap_CNode []"

definition instance_mem_size :: "'o instance_cap \<Rightarrow> u32" where
  "instance_mem_size i = ucast (ucast DATA_BASE + content_len (inst_mem i))"

definition mem_pages :: "'o instance_cap \<Rightarrow> nat" where
  "mem_pages i = unat (content_len (inst_mem i) div of_nat PAGE_SIZE_cap)"

section \<open>Kernel images\<close>

datatype kernel_image =
    KI_GasMeter | KI_StorageQuota | KI_Gas | KI_Quota | KI_YieldSender | KI_YieldReceiver | KI_File | KI_HostOpen | KI_HostSave

definition ALL_KERNEL_IMAGES :: "kernel_image list" where
  "ALL_KERNEL_IMAGES =
     [KI_GasMeter, KI_StorageQuota, KI_Gas, KI_Quota, KI_YieldSender, KI_YieldReceiver, KI_File, KI_HostOpen, KI_HostSave]"

definition const_kernel_image_label :: "kernel_image \<Rightarrow> bytes" where
  "const_kernel_image_label kind = map of_char
     (case kind of
        KI_GasMeter \<Rightarrow> ''kernel:gasmeter''
      | KI_StorageQuota \<Rightarrow> ''kernel:storagequota''
      | KI_Gas \<Rightarrow> ''kernel:gas''
      | KI_Quota \<Rightarrow> ''kernel:quota''
      | KI_YieldSender \<Rightarrow> ''kernel:yieldsender''
      | KI_YieldReceiver \<Rightarrow> ''kernel:yieldreceiver''
      | KI_File \<Rightarrow> ''kernel:file''
      | KI_HostOpen \<Rightarrow> ''kernel:host_open''
      | KI_HostSave \<Rightarrow> ''kernel:host_save'')"

definition kernel_image_hash :: "(bytes \<Rightarrow> bytes) \<Rightarrow> kernel_image \<Rightarrow> bytes" where
  "kernel_image_hash H kind = H (const_kernel_image_label kind)"

definition recognize_kernel_image :: "(bytes \<Rightarrow> bytes) \<Rightarrow> bytes \<Rightarrow> kernel_image option" where
  "recognize_kernel_image H h = find (\<lambda>kind. kernel_image_hash H kind = h) ALL_KERNEL_IMAGES"

section \<open>Unit handles\<close>

definition KERNEL_YIELD_NS :: u8 where "KERNEL_YIELD_NS = 0xCE"
definition YK_MINT_YIELD :: key where "YK_MINT_YIELD = [KERNEL_YIELD_NS, 0x01]"
definition YK_MERGE_YIELD_RECEIVER :: key where "YK_MERGE_YIELD_RECEIVER = [KERNEL_YIELD_NS, 0x02]"
definition YK_SET_GAS_METER :: key where "YK_SET_GAS_METER = [KERNEL_YIELD_NS, 0x03]"
definition YK_MINT_GAS :: key where "YK_MINT_GAS = [KERNEL_YIELD_NS, 0x04]"
definition YK_MINT_QUOTA :: key where "YK_MINT_QUOTA = [KERNEL_YIELD_NS, 0x06]"
definition YK_OOG :: key where "YK_OOG = [KERNEL_YIELD_NS, 0x10]"

definition is_kernel_yield_key :: "key \<Rightarrow> bool" where
  "is_kernel_yield_key k = (case k of b # _ \<Rightarrow> b = KERNEL_YIELD_NS | [] \<Rightarrow> False)"

definition unit_handle :: "(bytes \<Rightarrow> bytes) \<Rightarrow> kernel_image \<Rightarrow> key \<Rightarrow> cap instance_cap may_panic" where
  "unit_handle H image_kind k =
     bind_panic (key_to_regs k) (\<lambda>(packed, len).
       Returns (InstanceCap (kernel_image_hash H image_kind) (replicate 32 0) (Ref_Hash (replicate 32 0)) data_empty
         ((replicate NUM_REGS 0)[0 := packed, 1 := len]) 0 0))"

definition unit_handle_key :: "(bytes \<Rightarrow> bytes) \<Rightarrow> kernel_image \<Rightarrow> 'o instance_cap \<Rightarrow> key option" where
  "unit_handle_key H image_kind i =
     (if recognize_kernel_image H (image_hash_chain i) \<noteq> Some image_kind then None
      else Some (key_from_regs (inst_regs i ! 0) (inst_regs i ! 1)))"

definition yield_sender :: "(bytes \<Rightarrow> bytes) \<Rightarrow> key \<Rightarrow> cap instance_cap may_panic" where
  "yield_sender H k = unit_handle H KI_YieldSender k"

definition yield_sender_key :: "(bytes \<Rightarrow> bytes) \<Rightarrow> 'o instance_cap \<Rightarrow> key option" where
  "yield_sender_key H i = unit_handle_key H KI_YieldSender i"

definition gas_handle :: "(bytes \<Rightarrow> bytes) \<Rightarrow> key \<Rightarrow> cap instance_cap may_panic" where
  "gas_handle H k = unit_handle H KI_Gas k"

definition gas_meter_key :: "(bytes \<Rightarrow> bytes) \<Rightarrow> 'o instance_cap \<Rightarrow> key option" where
  "gas_meter_key H i = unit_handle_key H KI_Gas i"

definition quota_handle :: "(bytes \<Rightarrow> bytes) \<Rightarrow> key \<Rightarrow> cap instance_cap may_panic" where
  "quota_handle H k = unit_handle H KI_Quota k"

definition quota_key :: "(bytes \<Rightarrow> bytes) \<Rightarrow> 'o instance_cap \<Rightarrow> key option" where
  "quota_key H i = unit_handle_key H KI_Quota i"

text \<open>\<open>sort\<close> and \<open>dedup\<close>.\<close>

definition normalize_keys :: "key list \<Rightarrow> key list" where
  "normalize_keys ks = remdups_adj (sort ks)"

definition receiver_bytes :: "key list \<Rightarrow> bytes" where
  "receiver_bytes ks =
     to_le_bytes 2 (of_nat (length ks) :: u16) @ concat (map (\<lambda>k. (of_nat (length k) :: u8) # k) ks)"

definition yield_receiver :: "digest \<Rightarrow> (bytes \<Rightarrow> bytes) \<Rightarrow> key list \<Rightarrow> cap instance_cap" where
  "yield_receiver D H ks =
     InstanceCap (kernel_image_hash H KI_YieldReceiver) (replicate 32 0) (Ref_Hash (replicate 32 0))
       (data_from_bytes D (receiver_bytes (normalize_keys ks))) (replicate NUM_REGS 0) 0 0"

text \<open>The loop over the \<open>count\<close> entries of the catch-set, from the rest of the buffer on.\<close>

fun parse_keys :: "nat \<Rightarrow> bytes \<Rightarrow> key list" where
  "parse_keys 0 rest = []"
| "parse_keys (Suc n) [] = []"
| "parse_keys (Suc n) (b # rest) =
     (if unat b > length rest then [] else take (unat b) rest # parse_keys n (drop (unat b) rest))"

definition yield_receiver_keys :: "(bytes \<Rightarrow> bytes) \<Rightarrow> 'o instance_cap \<Rightarrow> key list option may_panic" where
  "yield_receiver_keys H i =
     (if recognize_kernel_image H (image_hash_chain i) \<noteq> Some KI_YieldReceiver then Returns None
      else
        let len = unat (content_len (inst_mem i)) in
        if len < 2 then Returns (Some [])
        else bind_panic (copy_into (inst_mem i) 0 len) (\<lambda>buf.
          Returns (Some (parse_keys (unat (from_le_bytes (take 2 buf) :: u16)) (drop 2 buf)))))"

definition merge_yield_receivers ::
    "digest \<Rightarrow> (bytes \<Rightarrow> bytes) \<Rightarrow> 'o instance_cap \<Rightarrow> 'o instance_cap \<Rightarrow> cap instance_cap option may_panic"
where
  "merge_yield_receivers D H a b =
     bind_panic (yield_receiver_keys H a) (\<lambda>ka. case ka of None \<Rightarrow> Returns None | Some ka \<Rightarrow>
       bind_panic (yield_receiver_keys H b) (\<lambda>kb. case kb of None \<Rightarrow> Returns None | Some kb \<Rightarrow>
         Returns (Some (yield_receiver D H (ka @ kb)))))"

end
