(* ===== verification/Task.thy ===== *)
theory Task
  imports X86_Abi Btree_Map
begin

text \<open>
  The task skeleton of the guest kernel, \<open>nub/nub-arch-x86/src/task.rs\<close>: call-stack entries, the gas bank of a task, the
  poll loop, and the cooperative scheduler of a lane. The traits \<open>ExecFrame\<close> and \<open>GuestPersonality\<close> (\<open>personality.rs\<close>) are
  records of their functions. What runs in ring 3 (\<open>jit_run::enter_frame\<close>: native code on a page table) is a parameter; it
  receives the fields of the frame that \<open>run_one_entry\<close> hands it and no others. A hook receives the task state and returns
  it changed; the \<open>static\<close> state of the personality is threaded along. \<open>KErr\<close> is an error code that ends the
  task, \<open>KPanic\<close> a panic: the one documented for the elided pages of a data cap, or a broken kernel invariant.
\<close>

section \<open>Results\<close>

datatype kernel_panic = Elided_Page | Broken_Invariant

datatype 'a kernel_result = KOk 'a | KErr u32 | KPanic kernel_panic

primrec kbind :: "'a kernel_result \<Rightarrow> ('a \<Rightarrow> 'b kernel_result) \<Rightarrow> 'b kernel_result" where
  "kbind (KOk x) f = f x"
| "kbind (KErr e) f = KErr e"
| "kbind (KPanic p) f = KPanic p"

section \<open>Stack entries and the gas bank\<close>

datatype 'f entry_kind = Entry_Instance 'f | Entry_Reference

record ('f, 'm) stack_entry =
  ent_kind :: "'f entry_kind"
  ent_target :: nat
  instance_id :: u64
  ent_meta :: 'm

definition instance_with_meta :: "'f \<Rightarrow> nat \<Rightarrow> u64 \<Rightarrow> 'm \<Rightarrow> ('f, 'm) stack_entry" where
  "instance_with_meta frame index iid meta =
     \<lparr>ent_kind = Entry_Instance frame, ent_target = index, instance_id = iid, ent_meta = meta\<rparr>"

record 'k gas_state =
  meters :: "('k, i64) btree"
  live_gas :: i64
  host_budget :: i64
  root_active :: "'k option"
  current_active :: "'k option"

definition gas_state_new :: "'k::linorder option \<Rightarrow> i64 \<Rightarrow> 'k gas_state" where
  "gas_state_new root initial_gas =
     \<lparr>meters = (case root of Some k \<Rightarrow> bt_insert k initial_gas [] | None \<Rightarrow> []),
      live_gas = initial_gas, host_budget = initial_gas, root_active = root, current_active = root\<rparr>"

definition unwrap_or :: "'a \<Rightarrow> 'a option \<Rightarrow> 'a" where
  "unwrap_or d x = (case x of Some y \<Rightarrow> y | None \<Rightarrow> d)"

text \<open>\<open>reconcile_active\<close> on the balance, the host budget and the meters.\<close>

definition reconcile_active ::
    "'k::linorder option \<Rightarrow> 'k option \<Rightarrow> i64 \<Rightarrow> i64 \<Rightarrow> ('k, i64) btree \<Rightarrow> i64 \<times> i64 \<times> ('k, i64) btree"
where
  "reconcile_active old new gas budget ms =
     (if old = new then (gas, budget, ms)
      else
        let (budget, ms) = (case old of Some k \<Rightarrow> (budget, bt_insert k gas ms) | None \<Rightarrow> (gas, ms)) in
        (case new of Some k \<Rightarrow> unwrap_or 0 (bt_get ms k) | None \<Rightarrow> budget, budget, ms))"

definition reconcile :: "'k::linorder option \<Rightarrow> 'k gas_state \<Rightarrow> 'k gas_state" where
  "reconcile new_active g =
     (let (gas, budget, ms) = reconcile_active (current_active g) new_active (live_gas g) (host_budget g) (meters g) in
      g\<lparr>live_gas := gas, host_budget := budget, meters := ms, current_active := new_active\<rparr>)"

definition root_remaining :: "'k gas_state \<Rightarrow> i64" where
  "root_remaining g =
     (if current_active g = root_active g then live_gas g
      else case root_active g of Some k \<Rightarrow> unwrap_or 0 (bt_get (meters g) k) | None \<Rightarrow> host_budget g)"

section \<open>Frames of the stack\<close>

type_synonym ('f, 'm) call_stack = "('f, 'm) stack_entry list"

definition frame_at :: "('f, 'm) call_stack \<Rightarrow> nat \<Rightarrow> 'f kernel_result" where
  "frame_at stack idx =
     (if idx < length stack \<and> ent_target (stack ! idx) < length stack
      then (case ent_kind (stack ! ent_target (stack ! idx)) of
              Entry_Instance f \<Rightarrow> KOk f
            | Entry_Reference \<Rightarrow> KPanic Broken_Invariant)
      else KPanic Broken_Invariant)"

text \<open>\<open>frame_at_mut\<close>: run \<open>f\<close> on the frame and store the frame it returns.\<close>

definition frame_at_mut ::
    "('f, 'm) call_stack \<Rightarrow> nat \<Rightarrow> ('f \<Rightarrow> ('r \<times> 'f) kernel_result) \<Rightarrow> ('r \<times> ('f, 'm) call_stack) kernel_result"
where
  "frame_at_mut stack idx f =
     kbind (frame_at stack idx) (\<lambda>fr. kbind (f fr) (\<lambda>(r, fr').
       let t = ent_target (stack ! idx) in KOk (r, stack[t := (stack ! t)\<lparr>ent_kind := Entry_Instance fr'\<rparr>])))"

section \<open>Hooks\<close>

record loop_outcome =
  out_exit_reason :: u32
  out_exit_arg :: u32
  out_return_value :: u64
  out_gas_remaining :: i64
  out_scratchpad_head :: bytes

datatype flow = Flow_Resume | Flow_Done loop_outcome

record ('f, 'k, 'm, 's) task_ctx =
  ctx_lane :: nat
  ctx_stack :: "('f, 'm) call_stack"
  ctx_gas :: "'k gas_state"
  ctx_next_iid :: u64
  ctx_static :: 's

definition top_idx :: "('f, 'k, 'm, 's) task_ctx \<Rightarrow> nat" where
  "top_idx ctx = length (ctx_stack ctx) - 1"

definition task_done :: "('f, 'k, 'm, 's) task_ctx \<Rightarrow> u32 \<Rightarrow> u32 \<Rightarrow> u64 \<Rightarrow> bytes \<Rightarrow> flow" where
  "task_done ctx reason arg v head =
     Flow_Done \<lparr>out_exit_reason = reason, out_exit_arg = arg, out_return_value = v,
       out_gas_remaining = root_remaining (ctx_gas ctx), out_scratchpad_head = head\<rparr>"

text \<open>\<open>FrameParts\<close>: what \<open>ExecFrame::parts\<close> borrows of a frame. \<open>'mem\<close> is its memory and \<open>'rt\<close> its page table.\<close>

record ('mem, 'rt) frame_parts =
  fp_pc :: u64
  fp_regs :: "u64 list"
  fp_mem :: 'mem
  fp_mat_state :: bytes
  fp_ro_units :: "u32 list"
  fp_runtime :: "'rt option"

record ('f, 'mem, 'rt) exec_frame =
  get_parts :: "'f \<Rightarrow> ('mem, 'rt) frame_parts"
  put_parts :: "('mem, 'rt) frame_parts \<Rightarrow> 'f \<Rightarrow> 'f"
  build_runtime :: "nat \<Rightarrow> 'f \<Rightarrow> 'rt kernel_result"

text \<open>\<open>jit_run::enter_frame\<close>: it may change the runtime, the memory and the two gas-history vectors.\<close>

type_synonym ('mem, 'rt) enter_frame =
  "nat \<Rightarrow> 'rt \<Rightarrow> i64 \<Rightarrow> u32 \<Rightarrow> u64 list \<Rightarrow> 'mem \<Rightarrow> bytes \<Rightarrow> u32 list \<Rightarrow> 'rt \<times> 'mem \<times> bytes \<times> u32 list \<times> exit_info"

record ('f, 'k, 'm, 's) personality =
  build_root_frame :: "bytes \<Rightarrow> u32 \<Rightarrow> u64 list \<Rightarrow> ('f \<times> 'm) kernel_result"
  active_meter_of :: "('f, 'm) call_stack \<Rightarrow> nat \<Rightarrow> 'k option kernel_result"
  on_halt_of :: "('f, 'k, 'm, 's) task_ctx \<Rightarrow> exit_info \<Rightarrow> (flow \<times> ('f, 'k, 'm, 's) task_ctx) kernel_result"
  on_ecall_of :: "('f, 'k, 'm, 's) task_ctx \<Rightarrow> u32 \<Rightarrow> exit_info \<Rightarrow> (flow \<times> ('f, 'k, 'm, 's) task_ctx) kernel_result"
  on_exit_of :: "('f, 'k, 'm, 's) task_ctx \<Rightarrow> exit_info \<Rightarrow> (flow \<times> ('f, 'k, 'm, 's) task_ctx) kernel_result"

definition run_one_entry ::
    "('f, 'mem, 'rt) exec_frame \<Rightarrow> ('mem, 'rt) enter_frame \<Rightarrow> nat \<Rightarrow> 'f \<Rightarrow> i64 \<Rightarrow> (exit_info \<times> 'f) kernel_result"
where
  "run_one_entry X enter lane frame gas =
     kbind (case fp_runtime (get_parts X frame) of Some rt \<Rightarrow> KOk rt | None \<Rightarrow> build_runtime X lane frame) (\<lambda>rt.
       let p = get_parts X frame;
           (rt', m, ms, ru, info) =
             enter lane rt gas (ucast (fp_pc p)) (fp_regs p) (fp_mem p) (fp_mat_state p) (fp_ro_units p) in
       KOk (info, put_parts X (p\<lparr>fp_mem := m, fp_mat_state := ms, fp_ro_units := ru, fp_runtime := Some rt'\<rparr>) frame))"

section \<open>Tasks\<close>

record ('f, 'k, 'm) kernel_task =
  task_id :: u64
  task_lane :: nat
  task_stack :: "('f, 'm) call_stack"
  task_next_iid :: u64
  task_gas :: "'k gas_state"

definition task_new ::
    "('f, 'k::linorder, 'm, 's) personality \<Rightarrow> u64 \<Rightarrow> nat \<Rightarrow> bytes \<Rightarrow> u32 \<Rightarrow> u64 list \<Rightarrow> i64 \<Rightarrow> ('f, 'k, 'm) kernel_task kernel_result"
where
  "task_new P tid lane root endpoint_idx args initial_gas =
     kbind (build_root_frame P root endpoint_idx args) (\<lambda>(frame, meta).
       let stack = [instance_with_meta frame 0 0 meta] in
       kbind (active_meter_of P stack 0) (\<lambda>root_active.
         KOk \<lparr>task_id = tid, task_lane = lane, task_stack = stack, task_next_iid = 1,
              task_gas = gas_state_new root_active initial_gas\<rparr>))"

datatype task_poll = Poll_Pending | Poll_Done loop_outcome

text \<open>Phase 1 of \<open>poll_once\<close>: reconcile the gas, run the frame on top and mirror its exit state.\<close>

definition poll_run ::
    "('f, 'k::linorder, 'm, 's) personality \<Rightarrow> ('f, 'mem, 'rt) exec_frame \<Rightarrow> ('mem, 'rt) enter_frame \<Rightarrow>
     ('f, 'k, 'm) kernel_task \<Rightarrow> (exit_info \<times> ('f, 'k, 'm) kernel_task) kernel_result"
where
  "poll_run P X enter t =
     (let top = length (task_stack t) - 1 in
      kbind (active_meter_of P (task_stack t) top) (\<lambda>new_active.
      let g = reconcile new_active (task_gas t) in
      kbind (frame_at_mut (task_stack t) top (\<lambda>f. run_one_entry X enter (task_lane t) f (live_gas g))) (\<lambda>(info, stack).
      kbind (frame_at_mut stack top (\<lambda>f.
          KOk ((), put_parts X ((get_parts X f)\<lparr>fp_regs := xi_regs info, fp_pc := ucast (xi_pc info)\<rparr>) f))) (\<lambda>(_, stack).
      KOk (info, t\<lparr>task_stack := stack, task_gas := g\<lparr>live_gas := xi_gas info\<rparr>\<rparr>)))))"

text \<open>The operation an ecall exit names.\<close>

definition exit_op :: "exit_info \<Rightarrow> u32" where
  "exit_op info = (if xi_reason info = EXIT_HOST_CALL then xi_arg info else ucast (xi_regs info ! 11))"

definition dispatch_exit ::
    "('f, 'k, 'm, 's) personality \<Rightarrow> ('f, 'k, 'm, 's) task_ctx \<Rightarrow> exit_info \<Rightarrow> (flow \<times> ('f, 'k, 'm, 's) task_ctx) kernel_result"
where
  "dispatch_exit P ctx info =
     (if xi_reason info = EXIT_HALT then on_halt_of P ctx info
      else if xi_reason info = EXIT_HOST_CALL \<or> xi_reason info = EXIT_ECALL then on_ecall_of P ctx (exit_op info) info
      else on_exit_of P ctx info)"

definition poll_once ::
    "('f, 'k::linorder, 'm, 's) personality \<Rightarrow> ('f, 'mem, 'rt) exec_frame \<Rightarrow> ('mem, 'rt) enter_frame \<Rightarrow>
     ('f, 'k, 'm) kernel_task \<Rightarrow> 's \<Rightarrow> (task_poll \<times> ('f, 'k, 'm) kernel_task \<times> 's) kernel_result"
where
  "poll_once P X enter t st =
     kbind (poll_run P X enter t) (\<lambda>(info, t).
     kbind (dispatch_exit P \<lparr>ctx_lane = task_lane t, ctx_stack = task_stack t, ctx_gas = task_gas t,
         ctx_next_iid = task_next_iid t, ctx_static = st\<rparr> info) (\<lambda>(fl, ctx).
     KOk (case fl of Flow_Resume \<Rightarrow> Poll_Pending | Flow_Done out \<Rightarrow> Poll_Done out,
          t\<lparr>task_stack := ctx_stack ctx, task_gas := ctx_gas ctx, task_next_iid := ctx_next_iid ctx\<rparr>,
          ctx_static ctx)))"

text \<open>The loop may run forever; \<open>None\<close> stands for that.\<close>

partial_function (option) run_to_completion ::
    "('f, 'k::linorder, 'm, 's) personality \<Rightarrow> ('f, 'mem, 'rt) exec_frame \<Rightarrow> ('mem, 'rt) enter_frame \<Rightarrow>
     ('f, 'k, 'm) kernel_task \<Rightarrow> 's \<Rightarrow> (loop_outcome \<times> 's) kernel_result option"
where
  "run_to_completion P X enter t st =
     (case poll_once P X enter t st of
        KErr e \<Rightarrow> Some (KErr e)
      | KPanic p \<Rightarrow> Some (KPanic p)
      | KOk (Poll_Done out, t, st) \<Rightarrow> Some (KOk (out, st))
      | KOk (Poll_Pending, t, st) \<Rightarrow> run_to_completion P X enter t st)"

definition run_top_on_lane ::
    "('f, 'k::linorder, 'm, 's) personality \<Rightarrow> ('f, 'mem, 'rt) exec_frame \<Rightarrow> ('mem, 'rt) enter_frame \<Rightarrow>
     nat \<Rightarrow> bytes \<Rightarrow> u32 \<Rightarrow> u64 list \<Rightarrow> i64 \<Rightarrow> 's \<Rightarrow> (loop_outcome \<times> 's) kernel_result option"
where
  "run_top_on_lane P X enter lane root endpoint_idx args initial_gas st =
     (case task_new P 0 lane root endpoint_idx args initial_gas of
        KErr e \<Rightarrow> Some (KErr e)
      | KPanic p \<Rightarrow> Some (KPanic p)
      | KOk t \<Rightarrow> run_to_completion P X enter t st)"

section \<open>The scheduler of a lane\<close>

definition ERR_TASK_BOOKKEEPING :: u32 where "ERR_TASK_BOOKKEEPING = 74"

record ('f, 'k, 'm) kernel_scheduler =
  sched_lane :: nat
  next_task_id :: u64
  sched_tasks :: "(u64, ('f, 'k, 'm) kernel_task) btree"
  sched_completed :: "(u64, loop_outcome) btree"
  sched_ready :: "u64 list"

definition scheduler_new :: "nat \<Rightarrow> ('f, 'k, 'm) kernel_scheduler" where
  "scheduler_new lane = \<lparr>sched_lane = lane, next_task_id = 0, sched_tasks = [], sched_completed = [], sched_ready = []\<rparr>"

definition submit_invoke ::
    "('f, 'k::linorder, 'm, 's) personality \<Rightarrow> bytes \<Rightarrow> u32 \<Rightarrow> u64 list \<Rightarrow> i64 \<Rightarrow> ('f, 'k, 'm) kernel_scheduler \<Rightarrow>
     u64 kernel_result \<times> ('f, 'k, 'm) kernel_scheduler"
where
  "submit_invoke P root endpoint_idx args initial_gas s =
     (let tid = next_task_id s; s = s\<lparr>next_task_id := tid + 1\<rparr> in
      case task_new P tid (sched_lane s) root endpoint_idx args initial_gas of
        KErr e \<Rightarrow> (KErr e, s)
      | KPanic p \<Rightarrow> (KPanic p, s)
      | KOk t \<Rightarrow> (KOk tid, s\<lparr>sched_tasks := bt_insert tid t (sched_tasks s), sched_ready := sched_ready s @ [tid]\<rparr>))"

text \<open>One round of the loop of \<open>run_until_result\<close>: the value it returns, or the state for the next round.\<close>

definition ready_round ::
    "('f, 'k::linorder, 'm, 's) personality \<Rightarrow> ('f, 'mem, 'rt) exec_frame \<Rightarrow> ('mem, 'rt) enter_frame \<Rightarrow> u64 \<Rightarrow>
     ('f, 'k, 'm) kernel_scheduler \<Rightarrow> 's \<Rightarrow>
     (loop_outcome kernel_result \<times> ('f, 'k, 'm) kernel_scheduler \<times> 's) + (('f, 'k, 'm) kernel_scheduler \<times> 's)"
where
  "ready_round P X enter target s st =
     (case sched_ready s of
        [] \<Rightarrow> Inl (KErr ERR_TASK_BOOKKEEPING, s, st)
      | tid # rest \<Rightarrow>
        let s = s\<lparr>sched_ready := rest\<rparr> in
        case bt_get (sched_tasks s) tid of
          None \<Rightarrow> Inl (KErr ERR_TASK_BOOKKEEPING, s, st)
        | Some t \<Rightarrow>
          let s = s\<lparr>sched_tasks := bt_remove tid (sched_tasks s)\<rparr>;
              next_round = (\<lambda>s st. case bt_get (sched_completed s) target of
                Some out \<Rightarrow> Inl (KOk out, s\<lparr>sched_completed := bt_remove target (sched_completed s)\<rparr>, st)
              | None \<Rightarrow> Inr (s, st)) in
          case poll_once P X enter t st of
            KErr e \<Rightarrow> Inl (KErr e, s, st)
          | KPanic p \<Rightarrow> Inl (KPanic p, s, st)
          | KOk (Poll_Done out, t, st) \<Rightarrow>
              if tid = target then Inl (KOk out, s, st)
              else next_round (s\<lparr>sched_completed := bt_insert tid out (sched_completed s)\<rparr>) st
          | KOk (Poll_Pending, t, st) \<Rightarrow>
              next_round (s\<lparr>sched_tasks := bt_insert tid t (sched_tasks s), sched_ready := sched_ready s @ [tid]\<rparr>) st)"

partial_function (option) ready_loop ::
    "('f, 'k::linorder, 'm, 's) personality \<Rightarrow> ('f, 'mem, 'rt) exec_frame \<Rightarrow> ('mem, 'rt) enter_frame \<Rightarrow> u64 \<Rightarrow>
     ('f, 'k, 'm) kernel_scheduler \<Rightarrow> 's \<Rightarrow> (loop_outcome kernel_result \<times> ('f, 'k, 'm) kernel_scheduler \<times> 's) option"
where
  "ready_loop P X enter target s st =
     (case ready_round P X enter target s st of
        Inl r \<Rightarrow> Some r
      | Inr (s, st) \<Rightarrow> ready_loop P X enter target s st)"

definition run_until_result ::
    "('f, 'k::linorder, 'm, 's) personality \<Rightarrow> ('f, 'mem, 'rt) exec_frame \<Rightarrow> ('mem, 'rt) enter_frame \<Rightarrow> u64 \<Rightarrow>
     ('f, 'k, 'm) kernel_scheduler \<Rightarrow> 's \<Rightarrow> (loop_outcome kernel_result \<times> ('f, 'k, 'm) kernel_scheduler \<times> 's) option"
where
  "run_until_result P X enter target s st =
     (case bt_get (sched_completed s) target of
        Some out \<Rightarrow> Some (KOk out, s\<lparr>sched_completed := bt_remove target (sched_completed s)\<rparr>, st)
      | None \<Rightarrow> ready_loop P X enter target s st)"

end
