(* ===== verification/Kernel_Frame.thy ===== *)
theory Kernel_Frame
  imports Cap Task Mat
begin

text \<open>
  Frames of the guest kernel: resident caps (\<open>rust/javm-guest-x86/src/cached_cap.rs\<close>) and the part of \<open>call_loop.rs\<close>
  that works on one frame: gas scopes, the slots of the running instance, the composition of instance memory, building a
  frame for a CALL and folding it back into a cap, and the host operations that stay within a frame. The
  directory of published caps, the hash functions, the page tables and compiled code of ring 3 (opaque types) and their
  constructors are the parameters of \<open>kernel_env\<close>. The mutex around a cache is the value it guards.
\<close>

section \<open>Resident caps\<close>

typedecl frame_runtime
typedecl compiled_image

datatype cached_cap = CachedCap (cc_cap: cap) (cc_cache: cap_cache)
and cap_cache =
    Cache_None
  | Cache_CNode "cached_cap cnode"
  | Cache_Image compiled_image
  | Cache_Instance "frame_runtime option" "cached_cap cnode option"

definition cached_new :: "cap \<Rightarrow> cached_cap" where
  "cached_new c = CachedCap c Cache_None"

definition cached_cnode :: "cached_cap cnode \<Rightarrow> cached_cap" where
  "cached_cnode cn = CachedCap empty_cnode (Cache_CNode cn)"

definition cnode_size :: "('o \<Rightarrow> nat) \<Rightarrow> 'o cnode \<Rightarrow> nat" where
  "cnode_size sz cn = size_list (size_prod (\<lambda>_. 0) (size_missing_or (size_cap_ref sz))) cn"

text \<open>Folding a resident cap back to the wire shape.\<close>

function (sequential) to_wire_cap :: "cached_cap \<Rightarrow> cap"
and target_to_wire :: "cached_cap cap_ref \<Rightarrow> cap cap_ref"
and fold_cnode_to_wire :: "cached_cap cnode \<Rightarrow> cap cnode \<Rightarrow> cap cnode"
where
  "to_wire_cap (CachedCap (Cap_CNode cn) (Cache_CNode rc)) = Cap_CNode (fold_cnode_to_wire rc [])"
| "to_wire_cap (CachedCap (Cap_Instance i) (Cache_Instance rt (Some rc))) =
     (case i of InstanceCap ch ih rn m rs p g \<Rightarrow>
        Cap_Instance (InstanceCap ch ih (Ref_Owned (Cap_CNode (fold_cnode_to_wire rc []))) m rs p g))"
| "to_wire_cap (CachedCap c ca) = c"
| "target_to_wire (Ref_Hash h) = Ref_Hash h"
| "target_to_wire (Ref_Owned b) = Ref_Owned (to_wire_cap b)"
| "fold_cnode_to_wire [] out = out"
| "fold_cnode_to_wire ((k, Materialized t) # es) out =
     fold_cnode_to_wire es (fst (slots_insert k (Materialized (target_to_wire t)) out))"
| "fold_cnode_to_wire ((k, Missing h) # es) out = fold_cnode_to_wire es (fst (slots_insert k (Missing h) out))"
  by pat_completeness auto
termination
  by (relation "measure (case_sum size (case_sum (size_cap_ref size) (\<lambda>(cn, out). cnode_size size cn)))")
    (auto simp: cnode_size_def)

function (sequential) wire_target_to_cached :: "cap cap_ref \<Rightarrow> cached_cap cap_ref"
and copy_wire_cnode_into_cached :: "cap cnode \<Rightarrow> cached_cap cnode \<Rightarrow> cached_cap cnode"
where
  "wire_target_to_cached (Ref_Hash h) = Ref_Hash h"
| "wire_target_to_cached (Ref_Owned (Cap_CNode cn)) = Ref_Owned (cached_cnode (copy_wire_cnode_into_cached cn []))"
| "wire_target_to_cached (Ref_Owned other) = Ref_Owned (cached_new other)"
| "copy_wire_cnode_into_cached [] dst = dst"
| "copy_wire_cnode_into_cached ((k, Materialized t) # es) dst =
     copy_wire_cnode_into_cached es (fst (slots_insert k (Materialized (wire_target_to_cached t)) dst))"
| "copy_wire_cnode_into_cached ((k, Missing h) # es) dst =
     copy_wire_cnode_into_cached es (fst (slots_insert k (Missing h) dst))"
  by pat_completeness auto
termination
  by (relation "measure (case_sum (size_cap_ref size) (\<lambda>(cn, dst). cnode_size size cn))")
    (auto simp: cnode_size_def)

section \<open>Frames\<close>

definition SCRATCHPAD_SLOT :: key where "SCRATCHPAD_SLOT = [0]"

definition ERR_INSTANCE_NOT_FOUND :: u32 where "ERR_INSTANCE_NOT_FOUND = 21"
definition ERR_INSTANCE_KIND :: u32 where "ERR_INSTANCE_KIND = 22"
definition ERR_IMAGE_NOT_FOUND :: u32 where "ERR_IMAGE_NOT_FOUND = 23"
definition ERR_IMAGE_KIND :: u32 where "ERR_IMAGE_KIND = 24"
definition ERR_ENDPOINT_OOB :: u32 where "ERR_ENDPOINT_OOB = 25"
definition ERR_DERIVE_SLOT_OOB :: u32 where "ERR_DERIVE_SLOT_OOB = 31"
definition ERR_HOST_CALL_SLOT_EMPTY :: u32 where "ERR_HOST_CALL_SLOT_EMPTY = 40"
definition ERR_JIT_FAILED :: u32 where "ERR_JIT_FAILED = 50"
definition ERR_DEPTH_LIMIT :: u32 where "ERR_DEPTH_LIMIT = 51"
definition ERR_MAP_BAD_KIND :: u32 where "ERR_MAP_BAD_KIND = 60"
definition ERR_YIELD_UNHANDLED :: u32 where "ERR_YIELD_UNHANDLED = 70"
definition ERR_YIELD_BAD_SENDER :: u32 where "ERR_YIELD_BAD_SENDER = 71"
definition ERR_GAS_SLOT_EMPTY :: u32 where "ERR_GAS_SLOT_EMPTY = 72"
definition ERR_GAS_SLOT_INVALID :: u32 where "ERR_GAS_SLOT_INVALID = 73"
definition ERR_PENDING_ORIGIN_INVARIANT :: u32 where "ERR_PENDING_ORIGIN_INVARIANT = 74"

record frame_origin =
  fo_owner :: nat
  fo_slot :: key

record kernel_frame =
  kf_instance :: "cached_cap instance_cap"
  kf_origin :: "frame_origin option"
  pending_origins :: "key set"
  kf_pinned :: "key list"
  kf_mat_state :: bytes
  kf_ro_units :: "u32 list"
  kf_runtime :: "frame_runtime option"

record mat_range =
  mr_start :: u32
  mr_end :: u32
  mr_kind :: u8

text \<open>
  What the kernel calls and does not define: the directory of published caps (\<open>CACHE\<close>, which does not change during an
  invocation), the hashes (\<open>Blake2b256\<close>, the digest of the data caps and \<open>cap_hash\<close> of an image, whose code the
  derive macro generates), physical addresses and page tables.
\<close>

record kernel_env =
  env_cache :: "bytes \<Rightarrow> cap option"
  env_hash :: "bytes \<Rightarrow> bytes"
  env_digest :: digest
  env_image_hash :: "image_cap \<Rightarrow> bytes"
  env_va_to_pa :: "bytes \<Rightarrow> u64 option"
  env_build_frame_runtime ::
    "nat \<Rightarrow> image_cap \<Rightarrow> bytes \<Rightarrow> u32 \<Rightarrow> u64 \<Rightarrow> u32 \<Rightarrow> u32 \<Rightarrow> mat_range list \<Rightarrow> frame_runtime option"
  env_rearm_cow :: "frame_runtime \<Rightarrow> u32 list \<Rightarrow> frame_runtime"

text \<open>Updates of the fields of an instance.\<close>

primrec set_regs :: "u64 list \<Rightarrow> 'o instance_cap \<Rightarrow> 'o instance_cap" where
  "set_regs rs (InstanceCap ch ih rn m _ p g) = InstanceCap ch ih rn m rs p g"

primrec set_inst_pc :: "u64 \<Rightarrow> 'o instance_cap \<Rightarrow> 'o instance_cap" where
  "set_inst_pc p (InstanceCap ch ih rn m rs _ g) = InstanceCap ch ih rn m rs p g"

primrec set_mem :: "data_cap \<Rightarrow> 'o instance_cap \<Rightarrow> 'o instance_cap" where
  "set_mem m (InstanceCap ch ih rn _ rs p g) = InstanceCap ch ih rn m rs p g"

primrec set_root_cnode :: "'o cap_ref \<Rightarrow> 'o instance_cap \<Rightarrow> 'o instance_cap" where
  "set_root_cnode rn (InstanceCap ch ih _ m rs p g) = InstanceCap ch ih rn m rs p g"

primrec set_gas_remaining :: "u64 \<Rightarrow> 'o instance_cap \<Rightarrow> 'o instance_cap" where
  "set_gas_remaining g (InstanceCap ch ih rn m rs p _) = InstanceCap ch ih rn m rs p g"

definition set_reg :: "nat \<Rightarrow> u64 \<Rightarrow> kernel_frame \<Rightarrow> kernel_frame" where
  "set_reg i v f = f\<lparr>kf_instance := set_regs ((inst_regs (kf_instance f))[i := v]) (kf_instance f)\<rparr>"

definition frame_reg :: "kernel_frame \<Rightarrow> nat \<Rightarrow> u64" where
  "frame_reg f i = inst_regs (kf_instance f) ! i"

text \<open>The one-byte slot key in the low byte of a register.\<close>

definition slot_reg :: "kernel_frame \<Rightarrow> nat \<Rightarrow> key" where
  "slot_reg f i = key_of_u8 (ucast (frame_reg f i AND 0xFF))"

section \<open>The slots of the running instance\<close>

definition slot_is_pending :: "kernel_frame \<Rightarrow> key \<Rightarrow> bool" where
  "slot_is_pending f slot = (slot \<in> pending_origins f)"

definition key_found :: "key \<Rightarrow> key list \<Rightarrow> bool" where
  "key_found k ks = (case binary_search_by (\<lambda>x. cmp_ord x k) ks of Inr _ \<Rightarrow> True | Inl _ \<Rightarrow> False)"

definition slot_write_blocked :: "kernel_frame \<Rightarrow> key \<Rightarrow> bool" where
  "slot_write_blocked f slot = (key_found slot (kf_pinned f) \<or> slot_is_pending f slot)"

definition with_root_cnode :: "kernel_frame \<Rightarrow> cached_cap cnode kernel_result" where
  "with_root_cnode f =
     (case root_cnode (kf_instance f) of
        Ref_Owned (CachedCap _ (Cache_CNode cn)) \<Rightarrow> KOk cn
      | _ \<Rightarrow> KPanic Broken_Invariant)"

definition put_root_cnode :: "cached_cap cnode \<Rightarrow> kernel_frame \<Rightarrow> kernel_frame" where
  "put_root_cnode cn f =
     (case root_cnode (kf_instance f) of
        Ref_Owned (CachedCap c _) \<Rightarrow>
          f\<lparr>kf_instance := set_root_cnode (Ref_Owned (CachedCap c (Cache_CNode cn))) (kf_instance f)\<rparr>
      | _ \<Rightarrow> f)"

definition with_root_cnode_mut ::
    "kernel_frame \<Rightarrow> (cached_cap cnode \<Rightarrow> cached_cap cnode \<times> 'r) \<Rightarrow> ('r \<times> kernel_frame) kernel_result"
where
  "with_root_cnode_mut f upd = kbind (with_root_cnode f) (\<lambda>cn. let (cn', r) = upd cn in KOk (r, put_root_cnode cn' f))"

definition frame_cnode_set ::
    "kernel_frame \<Rightarrow> key \<Rightarrow> cached_cap cap_ref option \<Rightarrow> ((cap_error + cached_cap cap_ref option) \<times> kernel_frame) kernel_result"
where
  "frame_cnode_set f slot target =
     with_root_cnode_mut f (\<lambda>cn. case cnode_set slot target cn of Inl e \<Rightarrow> (cn, Inl e) | Inr (cn', old) \<Rightarrow> (cn', Inr old))"

text \<open>\<open>frame_cnode_set(...).map_err(|_| ERR_DERIVE_SLOT_OOB)?\<close>\<close>

definition frame_cnode_put :: "kernel_frame \<Rightarrow> key \<Rightarrow> cap \<Rightarrow> kernel_frame kernel_result" where
  "frame_cnode_put f slot c =
     kbind (frame_cnode_set f slot (Some (Ref_Owned (cached_new c)))) (\<lambda>(r, f').
       case r of Inl _ \<Rightarrow> KErr ERR_DERIVE_SLOT_OOB | Inr _ \<Rightarrow> KOk f')"

definition frame_cnode_set_key ::
    "kernel_frame \<Rightarrow> key \<Rightarrow> cached_cap cap_ref option \<Rightarrow> (cached_cap cap_ref option \<times> kernel_frame) kernel_result"
where
  "frame_cnode_set_key f k target = with_root_cnode_mut f (set_key k target)"

definition frame_cnode_take_key :: "kernel_frame \<Rightarrow> key \<Rightarrow> (cached_cap cap_ref option \<times> kernel_frame) kernel_result" where
  "frame_cnode_take_key f k = with_root_cnode_mut f (take_key k)"

definition with_cnode_peek :: "kernel_frame \<Rightarrow> key \<Rightarrow> cached_cap cap_ref option kernel_result" where
  "with_cnode_peek f slot = kbind (with_root_cnode f) (\<lambda>cn. KOk (peek_key cn slot))"

text \<open>\<open>None\<close> is the trap of a read from a reserved slot.\<close>

definition with_cnode_peek_guest :: "kernel_frame \<Rightarrow> key \<Rightarrow> cached_cap cap_ref option option kernel_result" where
  "with_cnode_peek_guest f slot =
     (if slot_is_pending f slot then KOk None else kbind (with_cnode_peek f slot) (\<lambda>r. KOk (Some r)))"

definition read_instance_cap :: "kernel_env \<Rightarrow> kernel_frame \<Rightarrow> key \<Rightarrow> cap instance_cap option kernel_result" where
  "read_instance_cap E f slot =
     kbind (with_cnode_peek f slot) (\<lambda>r. KOk (case r of
       None \<Rightarrow> None
     | Some (Ref_Hash h) \<Rightarrow> (case env_cache E h of Some (Cap_Instance i) \<Rightarrow> Some i | _ \<Rightarrow> None)
     | Some (Ref_Owned cc) \<Rightarrow> (case cc_cap cc of Cap_Instance i \<Rightarrow> Some i | _ \<Rightarrow> None)))"

definition read_instance_cap_guest :: "kernel_env \<Rightarrow> kernel_frame \<Rightarrow> key \<Rightarrow> cap instance_cap option option kernel_result" where
  "read_instance_cap_guest E f slot =
     (if slot_is_pending f slot then KOk None else kbind (read_instance_cap E f slot) (\<lambda>r. KOk (Some r)))"

text \<open>A panic of the data cap on an elided page, and one that no reachable call causes.\<close>

definition elided :: "'a may_panic \<Rightarrow> 'a kernel_result" where
  "elided r = (case r of Returns x \<Rightarrow> KOk x | Panics \<Rightarrow> KPanic Elided_Page)"

definition unreached :: "'a may_panic \<Rightarrow> 'a kernel_result" where
  "unreached r = (case r of Returns x \<Rightarrow> KOk x | Panics \<Rightarrow> KPanic Broken_Invariant)"

text \<open>\<open>Inl ()\<close> is \<open>Err(EXIT_TRAP)\<close>, the only error of the function.\<close>

definition snapshot_catch_set :: "kernel_env \<Rightarrow> kernel_frame \<Rightarrow> (unit + key list) kernel_result" where
  "snapshot_catch_set E f =
     (case env_cache E (image_hash (kf_instance f)) of
        Some (Cap_Image img) \<Rightarrow>
          (case yield_receiver_slot img of
             None \<Rightarrow> KOk (Inr [])
           | Some slot \<Rightarrow>
             kbind (read_instance_cap_guest E f slot) (\<lambda>r. case r of
               None \<Rightarrow> KOk (Inl ())
             | Some None \<Rightarrow> KOk (Inr [])
             | Some (Some i) \<Rightarrow>
                 kbind (elided (yield_receiver_keys (env_hash E) i)) (\<lambda>ks. KOk (Inr (normalize_keys (unwrap_or [] ks))))))
      | _ \<Rightarrow> KOk (Inr []))"

definition read_scratchpad_head :: "kernel_frame \<Rightarrow> bytes kernel_result" where
  "read_scratchpad_head f =
     (if unat (content_len (inst_mem (kf_instance f))) \<ge> SCRATCHPAD_HEAD_LEN
      then elided (copy_into (inst_mem (kf_instance f)) 0 SCRATCHPAD_HEAD_LEN)
      else KOk (replicate SCRATCHPAD_HEAD_LEN 0))"

section \<open>Gas scopes\<close>

record frame_gas =
  fg_meters :: "key list"
  fg_active :: "nat option"

definition host_budgeted :: frame_gas where
  "host_budgeted = \<lparr>fg_meters = [], fg_active = None\<rparr>"

definition declared :: "key list \<Rightarrow> frame_gas" where
  "declared ms = \<lparr>fg_meters = ms, fg_active = Some 0\<rparr>"

definition active_key :: "frame_gas \<Rightarrow> key option" where
  "active_key g = (case fg_active g of Some i \<Rightarrow> if i < length (fg_meters g) then Some (fg_meters g ! i) else None | None \<Rightarrow> None)"

definition primary_key :: "frame_gas \<Rightarrow> key option" where
  "primary_key g = (case fg_meters g of k # _ \<Rightarrow> Some k | [] \<Rightarrow> None)"

definition gas_advance :: "frame_gas \<Rightarrow> bool \<times> frame_gas" where
  "gas_advance g =
     (case fg_active g of
        None \<Rightarrow> (False, g)
      | Some i \<Rightarrow> if i + 1 < length (fg_meters g) then (True, g\<lparr>fg_active := Some (i + 1)\<rparr>) else (False, g))"

definition reset_to_primary :: "frame_gas \<Rightarrow> frame_gas" where
  "reset_to_primary g = (if fg_meters g \<noteq> [] then g\<lparr>fg_active := Some 0\<rparr> else g)"

definition gas_meter_key_from_ref :: "kernel_env \<Rightarrow> cached_cap cap_ref \<Rightarrow> key kernel_result" where
  "gas_meter_key_from_ref E r =
     kbind (case r of
        Ref_Hash h \<Rightarrow> (case env_cache E h of Some (Cap_Instance i) \<Rightarrow> KOk i | _ \<Rightarrow> KErr ERR_GAS_SLOT_INVALID)
      | Ref_Owned cc \<Rightarrow> (case cc_cap cc of Cap_Instance i \<Rightarrow> KOk i | _ \<Rightarrow> KErr ERR_GAS_SLOT_INVALID)) (\<lambda>i.
       case gas_meter_key (env_hash E) i of Some k \<Rightarrow> KOk k | None \<Rightarrow> KErr ERR_GAS_SLOT_INVALID)"

text \<open>The loop over the declared gas slots.\<close>

fun collect_meters :: "kernel_env \<Rightarrow> kernel_frame \<Rightarrow> key list \<Rightarrow> key list \<Rightarrow> key list kernel_result" where
  "collect_meters E f [] ms = KOk ms"
| "collect_meters E f (slot # rest) ms =
     (if slot_is_pending f slot then KErr ERR_GAS_SLOT_INVALID
      else kbind (with_cnode_peek f slot) (\<lambda>r. case r of
        None \<Rightarrow> collect_meters E f rest ms
      | Some t \<Rightarrow> kbind (gas_meter_key_from_ref E t) (\<lambda>m.
          collect_meters E f rest (if m \<in> set ms then ms else ms @ [m]))))"

definition resolve_frame_gas :: "kernel_env \<Rightarrow> kernel_frame \<Rightarrow> frame_gas option kernel_result" where
  "resolve_frame_gas E f =
     (case env_cache E (image_hash (kf_instance f)) of
        None \<Rightarrow> KErr ERR_IMAGE_NOT_FOUND
      | Some (Cap_Image img) \<Rightarrow>
          if gas_slots img = [] then KOk None
          else kbind (collect_meters E f (gas_slots img) []) (\<lambda>ms.
            if ms = [] then KErr ERR_GAS_SLOT_EMPTY else KOk (Some (declared ms)))
      | Some _ \<Rightarrow> KErr ERR_IMAGE_KIND)"

section \<open>Instance memory\<close>

type_synonym mem_cache = "(bytes, data_cap) btree"

definition find_slot_hash :: "image_cap \<Rightarrow> key \<Rightarrow> bytes option" where
  "find_slot_hash img slot = map_option se_cap_hash (find (\<lambda>e. se_slot e = slot) (im_pinned img @ im_initial img))"

text \<open>One round of the loop of \<open>compose_instance_mem\<close>.\<close>

definition place_mapping :: "kernel_env \<Rightarrow> image_cap \<Rightarrow> memory_mapping \<Rightarrow> data_cap \<Rightarrow> data_cap" where
  "place_mapping E img m d =
     (case mapping_path m of
        [] \<Rightarrow> d
      | src_slot # _ \<Rightarrow>
        (case find_slot_hash img src_slot of
           None \<Rightarrow> d
         | Some h \<Rightarrow>
           (case env_cache E h of
              Some (Cap_Data src) \<Rightarrow> place_shared (saturating_sub (mm_start m) (ucast DATA_BASE)) src d
            | _ \<Rightarrow> d)))"

definition compose_instance_mem :: "kernel_env \<Rightarrow> image_cap \<Rightarrow> data_cap" where
  "compose_instance_mem E img =
     (let tops = map (\<lambda>m. mm_start m + mm_size m) (im_mappings img);
          mem_top = (if tops = [] then ucast DATA_BASE else Max (set tops));
          m0 = data_from_bytes_sized (env_digest E) [] (saturating_sub mem_top (ucast DATA_BASE)) in
      fold (place_mapping E img) (im_mappings img) m0)"

definition build_instance_mem :: "kernel_env \<Rightarrow> bytes \<Rightarrow> image_cap \<Rightarrow> mem_cache \<Rightarrow> data_cap \<times> mem_cache" where
  "build_instance_mem E h img mc =
     (case bt_get mc h of
        Some clean \<Rightarrow> (clean, mc)
      | None \<Rightarrow> let m = compose_instance_mem E img in (m, bt_insert h m mc))"

section \<open>Building frames\<close>

definition materialize_root_cnode :: "kernel_env \<Rightarrow> cap cap_ref \<Rightarrow> cached_cap cnode kernel_result" where
  "materialize_root_cnode E r =
     (case r of
        Ref_Hash h \<Rightarrow>
          if h = replicate 32 0 then KOk []
          else (case env_cache E h of
                  None \<Rightarrow> KErr ERR_INSTANCE_NOT_FOUND
                | Some (Cap_CNode cn) \<Rightarrow> KOk (copy_wire_cnode_into_cached cn [])
                | Some _ \<Rightarrow> KErr ERR_INSTANCE_KIND)
      | Ref_Owned (Cap_CNode cn) \<Rightarrow> KOk (copy_wire_cnode_into_cached cn [])
      | Ref_Owned _ \<Rightarrow> KErr ERR_INSTANCE_KIND)"

fun pin_slots :: "image_slot_entry list \<Rightarrow> cached_cap cnode \<Rightarrow> cached_cap cnode kernel_result" where
  "pin_slots [] cn = KOk cn"
| "pin_slots (e # es) cn =
     (case cnode_set (se_slot e) (Some (Ref_Hash (se_cap_hash e))) cn of
        Inl _ \<Rightarrow> KErr ERR_JIT_FAILED
      | Inr (cn', _) \<Rightarrow> pin_slots es cn')"

fun fill_slots :: "image_slot_entry list \<Rightarrow> cached_cap cnode \<Rightarrow> cached_cap cnode kernel_result" where
  "fill_slots [] cn = KOk cn"
| "fill_slots (e # es) cn =
     (if cnode_get cn (se_slot e) = None
      then (case cnode_set (se_slot e) (Some (Ref_Hash (se_cap_hash e))) cn of
              Inl _ \<Rightarrow> KErr ERR_JIT_FAILED
            | Inr (cn', _) \<Rightarrow> fill_slots es cn')
      else fill_slots es cn)"

text \<open>The registers of a CALL: those of the endpoint, with the four arguments from register 7 on.\<close>

definition call_regs :: "endpoint_def \<Rightarrow> u64 list \<Rightarrow> u64 list" where
  "call_regs ep args = fold (\<lambda>(i, v) rs. rs[7 + i := v]) (enumerate 0 args) (initial_regs ep)"

definition build_frame_inner ::
    "kernel_env \<Rightarrow> cap instance_cap \<Rightarrow> cached_cap cnode option \<Rightarrow> frame_origin option \<Rightarrow> u32 \<Rightarrow> u64 list \<Rightarrow> kernel_frame kernel_result"
where
  "build_frame_inner E c cached_root origin endpoint_idx args =
     (case env_cache E (image_hash c) of
        None \<Rightarrow> KErr ERR_IMAGE_NOT_FOUND
      | Some (Cap_Image img) \<Rightarrow>
          (case find (\<lambda>(k, ep). k = key_of_u8 (ucast (endpoint_idx AND 0xFF))) (im_endpoints img) of
             None \<Rightarrow> KErr ERR_ENDPOINT_OOB
           | Some (k, ep) \<Rightarrow>
             kbind (case cached_root of Some cn \<Rightarrow> KOk cn | None \<Rightarrow> materialize_root_cnode E (root_cnode c)) (\<lambda>cn.
             kbind (pin_slots (im_pinned img) cn) (\<lambda>cn.
             kbind (fill_slots (im_initial img) cn) (\<lambda>cn.
             KOk \<lparr>kf_instance = InstanceCap (image_hash_chain c) (image_hash c) (Ref_Owned (cached_cnode cn)) (inst_mem c)
                    (call_regs ep args) (entry_pc ep) 0,
                  kf_origin = origin, pending_origins = {}, kf_pinned = map se_slot (im_pinned img),
                  kf_mat_state = replicate (unat (content_len (inst_mem c) div of_nat PAGE_SIZE_cap)) 0,
                  kf_ro_units = [], kf_runtime = None\<rparr>))))
      | Some _ \<Rightarrow> KErr ERR_IMAGE_KIND)"

definition build_frame_from_published :: "kernel_env \<Rightarrow> bytes \<Rightarrow> u32 \<Rightarrow> u64 list \<Rightarrow> kernel_frame kernel_result" where
  "build_frame_from_published E h endpoint_idx args =
     (case env_cache E h of
        None \<Rightarrow> KErr ERR_INSTANCE_NOT_FOUND
      | Some (Cap_Instance i) \<Rightarrow> build_frame_inner E i None None endpoint_idx args
      | Some _ \<Rightarrow> KErr ERR_INSTANCE_KIND)"

definition build_frame_from_owned ::
    "kernel_env \<Rightarrow> cap \<Rightarrow> cached_cap cnode option \<Rightarrow> frame_origin \<Rightarrow> u32 \<Rightarrow> u64 list \<Rightarrow> kernel_frame kernel_result"
where
  "build_frame_from_owned E c cached_root origin endpoint_idx args =
     (case c of
        Cap_Instance i \<Rightarrow> build_frame_inner E i cached_root (Some origin) endpoint_idx args
      | _ \<Rightarrow> KErr ERR_INSTANCE_KIND)"

section \<open>Folding a frame back into a cap\<close>

definition take_resident_root_cnode :: "cached_cap cap_ref \<Rightarrow> (cap cap_ref \<times> cached_cap cnode option) kernel_result" where
  "take_resident_root_cnode r =
     (case r of
        Ref_Hash h \<Rightarrow> KOk (Ref_Hash h, None)
      | Ref_Owned (CachedCap c ca) \<Rightarrow>
          (case ca of
             Cache_CNode cn \<Rightarrow> KOk (Ref_Hash (replicate 32 0), Some cn)
           | Cache_None \<Rightarrow> (case c of Cap_CNode cn \<Rightarrow> KOk (Ref_Owned (Cap_CNode cn), None) | _ \<Rightarrow> KErr ERR_INSTANCE_KIND)
           | _ \<Rightarrow> KErr ERR_INSTANCE_KIND))"

definition resident_instance_to_cached_cap ::
    "cached_cap instance_cap \<Rightarrow> frame_runtime option \<Rightarrow> cached_cap kernel_result"
where
  "resident_instance_to_cached_cap i rt =
     kbind (take_resident_root_cnode (root_cnode i)) (\<lambda>(wire_root, resident_root).
       KOk (CachedCap
         (Cap_Instance (InstanceCap (image_hash_chain i) (image_hash i) wire_root (inst_mem i) (inst_regs i) (inst_pc i) (gas_remaining i)))
         (if rt = None \<and> resident_root = None then Cache_None else Cache_Instance rt resident_root)))"

section \<open>Operations within a frame\<close>

text \<open>The result \<open>True\<close> asks the loop to trap the guest.\<close>

definition dispatch_derive_spawn ::
    "kernel_env \<Rightarrow> kernel_frame \<Rightarrow> mem_cache \<Rightarrow> ((bool \<times> mem_cache) \<times> kernel_frame) kernel_result"
where
  "dispatch_derive_spawn E f mc =
     (let image_slot = slot_reg f 7; dst_slot = slot_reg f 9 in
      if slot_write_blocked f dst_slot then KOk ((True, mc), f)
      else kbind (with_cnode_peek_guest f image_slot) (\<lambda>r. case r of
        None \<Rightarrow> KOk ((True, mc), f)
      | Some t \<Rightarrow>
        let h = (case t of Some (Ref_Hash h) \<Rightarrow> h | _ \<Rightarrow> image_hash (kf_instance f));
            child_chain = env_hash E (image_hash_chain (kf_instance f) @ h) in
        (case env_cache E h of
           None \<Rightarrow> KErr ERR_IMAGE_NOT_FOUND
         | Some (Cap_Image img) \<Rightarrow>
             let (child_mem, mc') = build_instance_mem E h img mc in
             kbind (frame_cnode_put f dst_slot (Cap_Instance
               (InstanceCap child_chain h (Ref_Hash (replicate 32 0)) child_mem (replicate NUM_REGS 0) 0 0))) (\<lambda>f'.
             KOk ((False, mc'), f'))
         | Some _ \<Rightarrow> KErr ERR_IMAGE_KIND)))"

definition dispatch_image_hash_chain :: "kernel_env \<Rightarrow> kernel_frame \<Rightarrow> (bool \<times> kernel_frame) kernel_result" where
  "dispatch_image_hash_chain E f =
     (let src_slot = slot_reg f 7; dst_slot = slot_reg f 8 in
      if slot_write_blocked f dst_slot then KOk (True, f)
      else kbind (with_cnode_peek_guest f src_slot) (\<lambda>r. case r of
        None \<Rightarrow> KOk (True, f)
      | Some t \<Rightarrow>
        kbind (case t of
            Some (Ref_Hash h) \<Rightarrow>
              (case env_cache E h of
                 None \<Rightarrow> KErr ERR_INSTANCE_NOT_FOUND
               | Some (Cap_Instance i) \<Rightarrow> KOk (Some (image_hash_chain i))
               | Some (Cap_Image _) \<Rightarrow> KOk (Some h)
               | Some _ \<Rightarrow> KOk None)
          | Some (Ref_Owned cc) \<Rightarrow>
              (case cc_cap cc of
                 Cap_Instance i \<Rightarrow> KOk (Some (image_hash_chain i))
               | Cap_Image img \<Rightarrow> KOk (Some (env_image_hash E img))
               | _ \<Rightarrow> KOk None)
          | None \<Rightarrow> KOk None) (\<lambda>ch. case ch of
          None \<Rightarrow> KOk (True, f)
        | Some chain \<Rightarrow>
            kbind (frame_cnode_put f dst_slot (data_inline (env_digest E) chain)) (\<lambda>f'. KOk (False, f')))))"

datatype yield_outcome = Yield_Inline | Yield_Trap | Yield_Route key key

definition mint_unit_handle :: "kernel_frame \<Rightarrow> cap instance_cap \<Rightarrow> (yield_outcome \<times> kernel_frame) kernel_result" where
  "mint_unit_handle f handle =
     (let dst = slot_reg f 9 in
      if slot_write_blocked f dst then KOk (Yield_Trap, f)
      else kbind (frame_cnode_put f dst (Cap_Instance handle)) (\<lambda>f'. KOk (Yield_Inline, f')))"

definition mint_yield :: "kernel_env \<Rightarrow> kernel_frame \<Rightarrow> (yield_outcome \<times> kernel_frame) kernel_result" where
  "mint_yield E f =
     (let new_key = slot_reg f 8; sender_dst = slot_reg f 9; receiver_dst = slot_reg f 10 in
      if slot_write_blocked f sender_dst \<or> slot_write_blocked f receiver_dst then KOk (Yield_Trap, f)
      else
        kbind (unreached (yield_sender (env_hash E) new_key)) (\<lambda>sender.
        kbind (frame_cnode_put f sender_dst (Cap_Instance sender)) (\<lambda>f.
        kbind (frame_cnode_put f receiver_dst (Cap_Instance (yield_receiver (env_digest E) (env_hash E) [new_key]))) (\<lambda>f.
        KOk (Yield_Inline, f)))))"

definition merge_receivers :: "kernel_env \<Rightarrow> kernel_frame \<Rightarrow> (yield_outcome \<times> kernel_frame) kernel_result" where
  "merge_receivers E f =
     (let dst = slot_reg f 10 in
      if slot_write_blocked f dst then KOk (Yield_Trap, f)
      else kbind (read_instance_cap_guest E f (slot_reg f 8)) (\<lambda>ra. case ra of
        None \<Rightarrow> KOk (Yield_Trap, f)
      | Some None \<Rightarrow> KErr ERR_YIELD_BAD_SENDER
      | Some (Some a) \<Rightarrow>
        kbind (read_instance_cap_guest E f (slot_reg f 9)) (\<lambda>rb. case rb of
          None \<Rightarrow> KOk (Yield_Trap, f)
        | Some None \<Rightarrow> KErr ERR_YIELD_BAD_SENDER
        | Some (Some b) \<Rightarrow>
          kbind (elided (merge_yield_receivers (env_digest E) (env_hash E) a b)) (\<lambda>m. case m of
            None \<Rightarrow> KOk (Yield_Trap, f)
          | Some merged \<Rightarrow> kbind (frame_cnode_put f dst (Cap_Instance merged)) (\<lambda>f'. KOk (Yield_Inline, f'))))))"

text \<open>\<open>kernel:set_gas_meter\<close>: on the meter that is running the live balance is authoritative.\<close>

definition set_gas_meter :: "kernel_frame \<Rightarrow> key gas_state \<Rightarrow> key gas_state \<times> kernel_frame" where
  "set_gas_meter f g =
     (let meter_key = slot_reg f 8; v = frame_reg f 9;
          (previous, g') = (if current_active g = Some meter_key then (live_gas g, g\<lparr>live_gas := v\<rparr>)
            else (unwrap_or 0 (bt_get (meters g) meter_key), g\<lparr>meters := bt_insert meter_key v (meters g)\<rparr>)) in
      (g', set_reg 7 previous f))"

definition dispatch_host_yield ::
    "kernel_env \<Rightarrow> kernel_frame \<Rightarrow> key gas_state \<Rightarrow> ((yield_outcome \<times> key gas_state) \<times> kernel_frame) kernel_result"
where
  "dispatch_host_yield E f g =
     (let sender_slot = slot_reg f 7; keep = (\<lambda>(o', f'). KOk ((o', g), f')) in
      kbind (read_instance_cap_guest E f sender_slot) (\<lambda>r. case r of
        None \<Rightarrow> KOk ((Yield_Trap, g), f)
      | Some None \<Rightarrow> KOk ((Yield_Trap, g), f)
      | Some (Some i) \<Rightarrow>
        (case yield_sender_key (env_hash E) i of
           None \<Rightarrow> KOk ((Yield_Trap, g), f)
         | Some k \<Rightarrow>
           if \<not> is_kernel_yield_key k then KOk ((Yield_Route k sender_slot, g), f)
           else if k = YK_MINT_YIELD then kbind (mint_yield E f) keep
           else if k = YK_MERGE_YIELD_RECEIVER then kbind (merge_receivers E f) keep
           else if k = YK_MINT_GAS then
             kbind (unreached (gas_handle (env_hash E) (slot_reg f 8))) (\<lambda>h. kbind (mint_unit_handle f h) keep)
           else if k = YK_MINT_QUOTA then
             kbind (unreached (quota_handle (env_hash E) (slot_reg f 8))) (\<lambda>h. kbind (mint_unit_handle f h) keep)
           else if k = YK_SET_GAS_METER then
             (let (g', f') = set_gas_meter f g in KOk ((Yield_Inline, g'), f'))
           else KOk ((Yield_Route k sender_slot, g), f))))"

section \<open>CALL\<close>

definition div_ceil_u64 :: "u64 \<Rightarrow> u64 \<Rightarrow> u64" where
  "div_ceil_u64 a b = (if a mod b > 0 then a div b + 1 else a div b)"

definition call_frame_cost_for :: "kernel_env \<Rightarrow> bytes \<Rightarrow> i64 kernel_result" where
  "call_frame_cost_for E h =
     (case env_cache E h of
        None \<Rightarrow> KErr ERR_IMAGE_NOT_FOUND
      | Some (Cap_Image img) \<Rightarrow>
          let cluster = push_bit CLUSTER_SHIFT 1;
              ro_units = fold (\<lambda>m u. if mapping_is_pinned img (ucast (mm_start m))
                  then saturating_add u (div_ceil_u64 (mm_size m) cluster) else u)
                (im_mappings img) (div_ceil_u64 (of_nat (length (im_code img))) cluster);
              cost = call_frame_cost (of_nat (min (length (im_code img)) (2 ^ 32 - 1))) (ucast (min ro_units (2 ^ 32 - 1))) in
          KOk (min cost (2 ^ 63 - 1))
      | Some _ \<Rightarrow> KErr ERR_IMAGE_KIND)"

text \<open>\<open>None\<close>: the slot is reserved.\<close>

definition host_call_frame_cost :: "kernel_env \<Rightarrow> kernel_frame \<Rightarrow> i64 option kernel_result" where
  "host_call_frame_cost E parent =
     (let instance_slot = slot_reg parent 7 in
      if slot_is_pending parent instance_slot then KOk None
      else kbind (with_cnode_peek parent instance_slot) (\<lambda>r.
        kbind (case r of
            Some (Ref_Owned cc) \<Rightarrow> (case cc_cap cc of Cap_Instance i \<Rightarrow> KOk (image_hash i) | _ \<Rightarrow> KErr ERR_INSTANCE_KIND)
          | Some (Ref_Hash h) \<Rightarrow>
              (case env_cache E h of
                 None \<Rightarrow> KErr ERR_INSTANCE_NOT_FOUND
               | Some (Cap_Instance i) \<Rightarrow> KOk (image_hash i)
               | Some _ \<Rightarrow> KErr ERR_INSTANCE_KIND)
          | None \<Rightarrow> KErr ERR_HOST_CALL_SLOT_EMPTY) (\<lambda>h.
        kbind (call_frame_cost_for E h) (\<lambda>c. KOk (Some c)))))"

text \<open>The entries a child inherits: all but the scratchpad and those held inline.\<close>

definition inherited_slots :: "cached_cap cnode \<Rightarrow> cached_cap cnode" where
  "inherited_slots cn =
     filter (\<lambda>(slot, v). slot \<noteq> SCRATCHPAD_SLOT \<and> (case v of Materialized (Ref_Owned _) \<Rightarrow> False | _ \<Rightarrow> True)) cn"

definition inherit_into :: "cached_cap cnode \<Rightarrow> cached_cap cnode \<Rightarrow> cached_cap cnode" where
  "inherit_into inherited child =
     fold (\<lambda>(slot, v) cn. if slots_get cn slot = None then fst (slots_insert slot v cn) else cn) inherited child"

text \<open>The child frame for the cap taken out of the slot.\<close>

definition build_child ::
    "kernel_env \<Rightarrow> cached_cap cap_ref \<Rightarrow> frame_origin \<Rightarrow> u32 \<Rightarrow> u64 list \<Rightarrow> kernel_frame kernel_result"
where
  "build_child E target origin endpoint_idx args =
     (case target of
        Ref_Owned (CachedCap c ca) \<Rightarrow>
          (let (rt, rc) = (case ca of Cache_Instance rt rc \<Rightarrow> (rt, rc) | _ \<Rightarrow> (None, None)) in
           kbind (build_frame_from_owned E c rc origin endpoint_idx args) (\<lambda>child.
             KOk (case rt of Some _ \<Rightarrow> child\<lparr>kf_runtime := rt\<rparr> | None \<Rightarrow> child)))
      | Ref_Hash h \<Rightarrow>
          (case env_cache E h of
             None \<Rightarrow> KErr ERR_INSTANCE_NOT_FOUND
           | Some (Cap_Instance i) \<Rightarrow> build_frame_inner E i None (Some origin) endpoint_idx args
           | Some _ \<Rightarrow> KErr ERR_INSTANCE_KIND))"

text \<open>The result \<open>None\<close> asks the loop to trap.\<close>

definition dispatch_host_call ::
    "kernel_env \<Rightarrow> nat \<Rightarrow> kernel_frame \<Rightarrow> (kernel_frame option \<times> kernel_frame) kernel_result"
where
  "dispatch_host_call E logical_owner parent =
     (let instance_slot = slot_reg parent 7;
          endpoint_idx = ucast (frame_reg parent 8 AND 0xFF);
          args = [frame_reg parent 9, frame_reg parent 10, 0, 0] in
      if slot_is_pending parent instance_slot then KOk (None, parent)
      else kbind (frame_cnode_take_key parent instance_slot) (\<lambda>(taken, parent). case taken of
        None \<Rightarrow> KErr ERR_HOST_CALL_SLOT_EMPTY
      | Some target \<Rightarrow>
        kbind (build_child E target \<lparr>fo_owner = logical_owner, fo_slot = instance_slot\<rparr> endpoint_idx args) (\<lambda>child.
        let parent = parent\<lparr>pending_origins := insert instance_slot (pending_origins parent)\<rparr> in
        kbind (with_root_cnode parent) (\<lambda>parent_cnode.
        kbind (with_root_cnode_mut child (\<lambda>cn. (inherit_into (inherited_slots parent_cnode) cn, ()))) (\<lambda>(_, child).
        KOk (Some child, parent))))))"

end
