(* ===== verification/Call_Loop.thy ===== *)
theory Call_Loop
  imports Kernel_Frame
begin

text \<open>
  The Javm personality of the guest kernel, the part of \<open>rust/javm-guest-x86/src/call_loop.rs\<close> that works on the call
  stack: yield routing, the return of a child, and the exit hooks, with the traits \<open>ExecFrame\<close> and \<open>GuestPersonality\<close>
  of the task skeleton as the records \<open>javm_exec\<close> and \<open>javm\<close>.
\<close>

section \<open>Running a frame\<close>

definition code_mapping :: "image_cap \<Rightarrow> (u32 \<times> bytes) option" where
  "code_mapping img = (if im_code img = [] then None else Some (CODE_BASE, im_code img))"

text \<open>The read-only ranges of the pinned mappings, in order.\<close>

definition pinned_ranges :: "image_cap \<Rightarrow> mat_range list" where
  "pinned_ranges img = concat (map (\<lambda>m.
     if mapping_path m = [] \<or> \<not> mapping_is_pinned img (ucast (mm_start m)) then []
     else
       let span = (of_nat (next_multiple_of (unat (ucast (mm_size m) :: u32)) PAGE_SIZE_cap) :: u32) in
       if span = 0 then []
       else [\<lparr>mr_start = ucast (mm_start m), mr_end = saturating_add (ucast (mm_start m)) span,
              mr_kind = page_kind_as_u8 PinnedCapRo\<rparr>]) (im_mappings img))"

definition frame_ranges :: "image_cap \<Rightarrow> data_cap \<Rightarrow> mat_range list" where
  "frame_ranges img m =
     (let extent = (ucast (content_len m) :: u32);
          mem_size = saturating_add DATA_BASE extent in
      pinned_ranges img @
      (if extent div of_nat PAGE_SIZE_cap > 0
       then [\<lparr>mr_start = DATA_BASE, mr_end = mem_size, mr_kind = page_kind_as_u8 UnpinnedCapCow\<rparr>] else []))"

definition frame_build_runtime :: "kernel_env \<Rightarrow> nat \<Rightarrow> kernel_frame \<Rightarrow> frame_runtime kernel_result" where
  "frame_build_runtime E lane f =
     (case env_cache E (image_hash (kf_instance f)) of
        None \<Rightarrow> KErr ERR_IMAGE_NOT_FOUND
      | Some (Cap_Image img) \<Rightarrow>
          (case code_mapping img of
             None \<Rightarrow> KErr ERR_IMAGE_KIND
           | Some (code_base, code_bytes) \<Rightarrow>
             (case env_va_to_pa E code_bytes of
                None \<Rightarrow> KErr ERR_MAP_BAD_KIND
              | Some code_pa \<Rightarrow>
                let m = inst_mem (kf_instance f) in
                (case env_build_frame_runtime E lane img code_bytes code_base code_pa DATA_BASE
                    (saturating_add DATA_BASE (ucast (content_len m))) (frame_ranges img m) of
                   Some rt \<Rightarrow> KOk rt
                 | None \<Rightarrow> KErr ERR_JIT_FAILED)))
      | Some _ \<Rightarrow> KErr ERR_IMAGE_KIND)"

definition frame_parts_of :: "kernel_frame \<Rightarrow> (data_cap, frame_runtime) frame_parts" where
  "frame_parts_of f =
     \<lparr>fp_pc = inst_pc (kf_instance f), fp_regs = inst_regs (kf_instance f), fp_mem = inst_mem (kf_instance f),
      fp_mat_state = kf_mat_state f, fp_ro_units = kf_ro_units f, fp_runtime = kf_runtime f\<rparr>"

definition put_frame_parts :: "(data_cap, frame_runtime) frame_parts \<Rightarrow> kernel_frame \<Rightarrow> kernel_frame" where
  "put_frame_parts p f =
     f\<lparr>kf_instance := set_inst_pc (fp_pc p) (set_regs (fp_regs p) (set_mem (fp_mem p) (kf_instance f))),
       kf_mat_state := fp_mat_state p, kf_ro_units := fp_ro_units p, kf_runtime := fp_runtime p\<rparr>"

definition javm_exec :: "kernel_env \<Rightarrow> (kernel_frame, data_cap, frame_runtime) exec_frame" where
  "javm_exec E = \<lparr>get_parts = frame_parts_of, put_parts = put_frame_parts, build_runtime = frame_build_runtime E\<rparr>"

section \<open>Entries\<close>

definition MAX_DEPTH :: nat where "MAX_DEPTH = 32768"

definition OP_REPLY :: u32 where "OP_REPLY = 0"
definition OP_HOST_YIELD :: u32 where "OP_HOST_YIELD = 16"
definition OP_DERIVE_SPAWN :: u32 where "OP_DERIVE_SPAWN = 18"
definition OP_IMAGE_HASH_CHAIN :: u32 where "OP_IMAGE_HASH_CHAIN = 20"
definition OP_HOST_CALL :: u32 where "OP_HOST_CALL = 26"
definition OP_CALL_RESUME :: u32 where "OP_CALL_RESUME = 27"
definition OP_DROP_RESUME :: u32 where "OP_DROP_RESUME = 28"

definition STATUS_OK :: u64 where "STATUS_OK = 0"
definition STATUS_YIELDED :: u64 where "STATUS_YIELDED = 1"

record entry_meta =
  meta_owner :: "nat option"
  owner_catch_set :: "key list"
  meta_gas :: frame_gas

type_synonym entry = "(kernel_frame, entry_meta) stack_entry"
type_synonym javm_ctx = "(kernel_frame, key, entry_meta, mem_cache) task_ctx"

definition javm_build_root_frame :: "kernel_env \<Rightarrow> bytes \<Rightarrow> u32 \<Rightarrow> u64 list \<Rightarrow> (kernel_frame \<times> entry_meta) kernel_result" where
  "javm_build_root_frame E root endpoint_idx args =
     kbind (build_frame_from_published E root endpoint_idx args) (\<lambda>frame.
     kbind (resolve_frame_gas E frame) (\<lambda>g.
     KOk (frame, \<lparr>meta_owner = None, owner_catch_set = [], meta_gas = unwrap_or host_budgeted g\<rparr>)))"

definition active_meter :: "entry list \<Rightarrow> nat \<Rightarrow> key option kernel_result" where
  "active_meter stack idx =
     (if idx < length stack then KOk (active_key (meta_gas (ent_meta (stack ! idx)))) else KPanic Broken_Invariant)"

section \<open>Yields\<close>

text \<open>The walk along owner edges. The owner of an entry lies below it, so the walk ends; if it did not, the loop would not
  either, which the model counts as a broken invariant.\<close>

function find_catcher :: "entry list \<Rightarrow> key \<Rightarrow> nat \<Rightarrow> nat option kernel_result" where
  "find_catcher stack k node =
     (if node < length stack
      then (case meta_owner (ent_meta (stack ! node)) of
              None \<Rightarrow> KOk None
            | Some owner \<Rightarrow>
                if key_found k (owner_catch_set (ent_meta (stack ! node))) then KOk (Some owner)
                else if owner < node then find_catcher stack k owner
                else KPanic Broken_Invariant)
      else KPanic Broken_Invariant)"
  by pat_completeness auto
termination
  by (relation "measure (\<lambda>(stack, k, node). node)") auto

declare find_catcher.simps [simp del]

definition route_yield ::
    "entry list \<Rightarrow> nat \<Rightarrow> key \<Rightarrow> cap instance_cap option \<Rightarrow> (bool \<times> entry list) kernel_result"
where
  "route_yield stack tp k payload =
     kbind (find_catcher stack k (ent_target (stack ! tp))) (\<lambda>catcher. case catcher of
       None \<Rightarrow> KOk (False, stack)
     | Some owner \<Rightarrow>
       let recv_iid = instance_id (stack ! owner);
           recv_gas = meta_gas (ent_meta (stack ! owner)) in
       kbind (frame_at_mut stack owner (\<lambda>f.
         kbind (case payload of
             Some i \<Rightarrow> frame_cnode_set_key f SCRATCHPAD_SLOT (Some (Ref_Owned (cached_new (Cap_Instance i))))
           | None \<Rightarrow> KOk (None, f)) (\<lambda>(_, f).
         KOk ((), set_reg 8 STATUS_YIELDED f)))) (\<lambda>(_, stack).
       KOk (True, stack @ [\<lparr>ent_kind = Entry_Reference, ent_target = owner, instance_id = recv_iid,
         ent_meta = \<lparr>meta_owner = meta_owner (ent_meta (stack ! owner)), owner_catch_set = [], meta_gas = recv_gas\<rparr>\<rparr>])))"

definition set_entry_gas :: "nat \<Rightarrow> frame_gas \<Rightarrow> entry list \<Rightarrow> entry list" where
  "set_entry_gas i g stack = stack[i := (stack ! i)\<lparr>ent_meta := (ent_meta (stack ! i))\<lparr>meta_gas := g\<rparr>\<rparr>]"

definition try_oog_yield :: "kernel_env \<Rightarrow> entry list \<Rightarrow> nat \<Rightarrow> u32 \<Rightarrow> (bool \<times> entry list) kernel_result" where
  "try_oog_yield E stack tp reattempt_pc =
     kbind (active_meter stack tp) (\<lambda>m. case m of
       None \<Rightarrow> KOk (False, stack)
     | Some _ \<Rightarrow>
       kbind (frame_at_mut stack tp (\<lambda>f.
         KOk ((), f\<lparr>kf_instance := set_inst_pc (ucast reattempt_pc) (kf_instance f)\<rparr>))) (\<lambda>(_, stack).
       let (advanced, g) = gas_advance (meta_gas (ent_meta (stack ! tp))) in
       if advanced then KOk (True, set_entry_gas tp g stack)
       else (case primary_key g of
          None \<Rightarrow> KOk (False, stack)
        | Some meter \<Rightarrow>
            kbind (unreached (gas_handle (env_hash E) meter)) (\<lambda>h.
              route_yield (set_entry_gas tp (reset_to_primary g) stack) tp YK_OOG (Some h)))))"

section \<open>Returning\<close>

definition entry_origin :: "entry \<Rightarrow> frame_origin option" where
  "entry_origin e = (case ent_kind e of Entry_Instance f \<Rightarrow> kf_origin f | Entry_Reference \<Rightarrow> None)"

fun release_origins :: "frame_origin list \<Rightarrow> nat \<Rightarrow> entry list \<Rightarrow> entry list kernel_result" where
  "release_origins [] start stack = KOk stack"
| "release_origins (o' # os) start stack =
     (if fo_owner o' < start
      then kbind (frame_at_mut stack (fo_owner o') (\<lambda>f.
             KOk ((), f\<lparr>pending_origins := pending_origins f - {fo_slot o'}\<rparr>))) (\<lambda>(_, stack). release_origins os start stack)
      else release_origins os start stack)"

definition release_pending_origins_for_dropped :: "entry list \<Rightarrow> nat \<Rightarrow> entry list kernel_result" where
  "release_pending_origins_for_dropped stack start =
     release_origins (List.map_filter entry_origin (drop start stack)) start stack"

definition restore_instance_to_origin :: "entry list \<Rightarrow> frame_origin \<Rightarrow> cached_cap \<Rightarrow> entry list kernel_result" where
  "restore_instance_to_origin stack origin c =
     kbind (frame_at_mut stack (fo_owner origin) (\<lambda>f.
       if fo_slot origin \<notin> pending_origins f then KErr ERR_PENDING_ORIGIN_INVARIANT
       else frame_cnode_set_key (f\<lparr>pending_origins := pending_origins f - {fo_slot origin}\<rparr>) (fo_slot origin) (Some (Ref_Owned c))))
       (\<lambda>(_, stack). KOk stack)"

text \<open>What becomes of the instance of a popped frame: the cap to put back, or nothing for the top-level frame.\<close>

definition owned_back :: "kernel_env \<Rightarrow> kernel_frame \<Rightarrow> (frame_origin \<times> cached_cap) option kernel_result" where
  "owned_back E f =
     (case kf_origin f of
        None \<Rightarrow> KOk None
      | Some origin \<Rightarrow>
          let rt = map_option (\<lambda>rt. env_rearm_cow E rt (map fst (overlay (inst_mem (kf_instance f))))) (kf_runtime f) in
          kbind (resident_instance_to_cached_cap (set_gas_remaining 0 (kf_instance f)) rt) (\<lambda>c. KOk (Some (origin, c))))"

definition pop_and_reflect :: "kernel_env \<Rightarrow> entry list \<Rightarrow> u64 \<Rightarrow> (bool \<times> entry list) kernel_result" where
  "pop_and_reflect E stack return_value =
     (if stack = [] then KPanic Broken_Invariant
      else case ent_kind (last stack) of
        Entry_Reference \<Rightarrow> KPanic Broken_Invariant
      | Entry_Instance popped \<Rightarrow>
        let stack = butlast stack in
        if pending_origins popped \<noteq> {} then KErr ERR_PENDING_ORIGIN_INVARIANT
        else if stack = [] then KOk (True, [])
        else
          kbind (frame_cnode_take_key popped SCRATCHPAD_SLOT) (\<lambda>(scratch, popped).
          kbind (owned_back E popped) (\<lambda>back.
          kbind (frame_at_mut stack (length stack - 1) (\<lambda>parent.
            let parent = set_reg 8 STATUS_OK (set_reg 7 return_value parent) in
            case scratch of
              Some c \<Rightarrow> frame_cnode_set_key parent SCRATCHPAD_SLOT (Some c)
            | None \<Rightarrow> KOk (None, parent))) (\<lambda>(_, stack).
          kbind (case back of
              Some (origin, c) \<Rightarrow> restore_instance_to_origin stack origin c
            | None \<Rightarrow> KOk stack) (\<lambda>stack.
          KOk (False, stack))))))"

definition unwind_to_handler :: "kernel_env \<Rightarrow> entry list \<Rightarrow> nat \<Rightarrow> u64 \<Rightarrow> (bool \<times> entry list) kernel_result" where
  "unwind_to_handler E stack tp return_value =
     (let h_inst = ent_target (stack ! tp) in
      kbind (release_pending_origins_for_dropped stack (h_inst + 1)) (\<lambda>stack.
        pop_and_reflect E (take (h_inst + 1) stack) return_value))"

section \<open>Exit hooks\<close>

definition zero_head :: bytes where
  "zero_head = replicate SCRATCHPAD_HEAD_LEN 0"

text \<open>\<open>on_halt\<close>, which is also the body of \<open>OP_REPLY\<close>.\<close>

definition javm_on_halt :: "kernel_env \<Rightarrow> javm_ctx \<Rightarrow> exit_info \<Rightarrow> (flow \<times> javm_ctx) kernel_result" where
  "javm_on_halt E ctx info =
     (let tp = top_idx ctx; stack = ctx_stack ctx; v = xi_regs info ! 7 in
      kbind (if ent_target (stack ! tp) = 0 then kbind (frame_at stack tp) read_scratchpad_head else KOk zero_head) (\<lambda>head.
      kbind (if ent_target (stack ! tp) \<noteq> tp then unwind_to_handler E stack tp v else pop_and_reflect E stack v) (\<lambda>(drained, stack).
      let ctx = ctx\<lparr>ctx_stack := stack\<rparr> in
      KOk (if drained then task_done ctx (xi_reason info) (xi_arg info) v head else Flow_Resume, ctx))))"

definition trap_flow :: "javm_ctx \<Rightarrow> u32 \<Rightarrow> exit_info \<Rightarrow> (flow \<times> javm_ctx) kernel_result" where
  "trap_flow ctx arg info = KOk (task_done ctx EXIT_TRAP arg (xi_regs info ! 7) zero_head, ctx)"

definition op_derive_spawn :: "kernel_env \<Rightarrow> javm_ctx \<Rightarrow> exit_info \<Rightarrow> (flow \<times> javm_ctx) kernel_result" where
  "op_derive_spawn E ctx info =
     kbind (frame_at_mut (ctx_stack ctx) (top_idx ctx) (\<lambda>f. dispatch_derive_spawn E f (ctx_static ctx))) (\<lambda>((trapped, mc), stack).
       let ctx = ctx\<lparr>ctx_stack := stack, ctx_static := mc\<rparr> in
       if trapped then trap_flow ctx 0 info else KOk (Flow_Resume, ctx))"

definition op_image_hash_chain :: "kernel_env \<Rightarrow> javm_ctx \<Rightarrow> exit_info \<Rightarrow> (flow \<times> javm_ctx) kernel_result" where
  "op_image_hash_chain E ctx info =
     kbind (frame_at_mut (ctx_stack ctx) (top_idx ctx) (dispatch_image_hash_chain E)) (\<lambda>(trapped, stack).
       let ctx = ctx\<lparr>ctx_stack := stack\<rparr> in
       if trapped then trap_flow ctx 0 info else KOk (Flow_Resume, ctx))"

definition op_host_yield :: "kernel_env \<Rightarrow> javm_ctx \<Rightarrow> exit_info \<Rightarrow> (flow \<times> javm_ctx) kernel_result" where
  "op_host_yield E ctx info =
     kbind (frame_at_mut (ctx_stack ctx) (top_idx ctx) (\<lambda>f. dispatch_host_yield E f (ctx_gas ctx))) (\<lambda>((outcome, g), stack).
       let ctx = ctx\<lparr>ctx_stack := stack, ctx_gas := g\<rparr> in
       case outcome of
         Yield_Inline \<Rightarrow> KOk (Flow_Resume, ctx)
       | Yield_Trap \<Rightarrow> trap_flow ctx 0 info
       | Yield_Route k sender_slot \<Rightarrow>
           kbind (frame_at stack (top_idx ctx)) (\<lambda>f.
           kbind (read_instance_cap E f sender_slot) (\<lambda>payload.
           kbind (route_yield stack (top_idx ctx) k payload) (\<lambda>(routed, stack).
             if routed then KOk (Flow_Resume, ctx\<lparr>ctx_stack := stack\<rparr>)
             else trap_flow ctx ERR_YIELD_UNHANDLED info))))"

definition op_call_resume :: "javm_ctx \<Rightarrow> exit_info \<Rightarrow> (flow \<times> javm_ctx) kernel_result" where
  "op_call_resume ctx info =
     (let tp = top_idx ctx; stack = ctx_stack ctx in
      if ent_target (stack ! tp) = tp then trap_flow ctx 0 info
      else
        kbind (frame_at_mut stack tp (\<lambda>f. frame_cnode_take_key f SCRATCHPAD_SLOT)) (\<lambda>(response, stack).
        let stack = butlast stack in
        kbind (frame_at_mut stack (length stack - 1) (\<lambda>f.
          kbind (case response of
              Some c \<Rightarrow> frame_cnode_set_key f SCRATCHPAD_SLOT (Some c)
            | None \<Rightarrow> KOk (None, f)) (\<lambda>(_, f).
          KOk ((), set_reg 8 STATUS_OK f)))) (\<lambda>(_, stack).
        KOk (Flow_Resume, ctx\<lparr>ctx_stack := stack\<rparr>))))"

definition op_drop_resume :: "javm_ctx \<Rightarrow> exit_info \<Rightarrow> (flow \<times> javm_ctx) kernel_result" where
  "op_drop_resume ctx info =
     (let tp = top_idx ctx; stack = ctx_stack ctx; handler_inst = ent_target (stack ! tp) in
      if handler_inst = tp then trap_flow ctx 0 info
      else
        kbind (release_pending_origins_for_dropped stack (handler_inst + 1)) (\<lambda>stack.
        KOk (Flow_Resume, ctx\<lparr>ctx_stack := take (handler_inst + 1) stack\<rparr>)))"

text \<open>The scratchpad moves to the child, which goes on the stack with its gas scope.\<close>

definition push_child ::
    "kernel_env \<Rightarrow> javm_ctx \<Rightarrow> nat \<Rightarrow> key list \<Rightarrow> kernel_frame \<Rightarrow> entry list \<Rightarrow> (flow \<times> javm_ctx) kernel_result"
where
  "push_child E ctx logical_owner catch_set child stack =
     kbind (frame_at_mut stack (top_idx ctx) (\<lambda>f. frame_cnode_take_key f SCRATCHPAD_SLOT)) (\<lambda>(scratch, stack).
     kbind (case scratch of
         Some c \<Rightarrow> frame_cnode_set_key child SCRATCHPAD_SLOT (Some c)
       | None \<Rightarrow> KOk (None, child)) (\<lambda>(_, child).
     kbind (resolve_frame_gas E child) (\<lambda>g.
     KOk (Flow_Resume, ctx\<lparr>ctx_stack := stack @ [instance_with_meta child (length stack) (ctx_next_iid ctx)
         \<lparr>meta_owner = Some logical_owner, owner_catch_set = catch_set,
          meta_gas = unwrap_or (meta_gas (ent_meta (stack ! top_idx ctx))) g\<rparr>],
       ctx_next_iid := ctx_next_iid ctx + 1\<rparr>))))"

definition op_host_call :: "kernel_env \<Rightarrow> javm_ctx \<Rightarrow> exit_info \<Rightarrow> (flow \<times> javm_ctx) kernel_result" where
  "op_host_call E ctx info =
     (let tp = top_idx ctx; stack = ctx_stack ctx; logical_owner = ent_target (stack ! tp) in
      kbind (frame_at stack tp) (\<lambda>parent.
      kbind (snapshot_catch_set E parent) (\<lambda>catch. case catch of
        Inl _ \<Rightarrow> trap_flow ctx 0 info
      | Inr catch_set \<Rightarrow>
        kbind (frame_at_mut stack tp (dispatch_host_call E logical_owner)) (\<lambda>(child, stack). case child of
          None \<Rightarrow> trap_flow (ctx\<lparr>ctx_stack := stack\<rparr>) 0 info
        | Some child \<Rightarrow> push_child E ctx logical_owner catch_set child stack))))"

text \<open>The frame cost of a CALL; \<open>None\<close> marks a reserved slot, which costs nothing and traps later.\<close>

definition ecall_frame_cost :: "kernel_env \<Rightarrow> javm_ctx \<Rightarrow> u32 \<Rightarrow> i64 option kernel_result" where
  "ecall_frame_cost E ctx op' =
     (if op' = OP_HOST_CALL then
        (if length (ctx_stack ctx) \<ge> MAX_DEPTH then KErr ERR_DEPTH_LIMIT
         else kbind (frame_at (ctx_stack ctx) (top_idx ctx)) (host_call_frame_cost E))
      else KOk (Some 0))"

definition ecall_op :: "kernel_env \<Rightarrow> javm_ctx \<Rightarrow> bool \<Rightarrow> u32 \<Rightarrow> exit_info \<Rightarrow> (flow \<times> javm_ctx) kernel_result" where
  "ecall_op E ctx call_pending op' info =
     (if op' = OP_REPLY then javm_on_halt E ctx info
      else if op' = OP_DERIVE_SPAWN then op_derive_spawn E ctx info
      else if op' = OP_IMAGE_HASH_CHAIN then op_image_hash_chain E ctx info
      else if op' = OP_HOST_YIELD then op_host_yield E ctx info
      else if op' = OP_CALL_RESUME then op_call_resume ctx info
      else if op' = OP_DROP_RESUME then op_drop_resume ctx info
      else if op' = OP_HOST_CALL then (if call_pending then trap_flow ctx 0 info else op_host_call E ctx info)
      else KOk (task_done ctx (xi_reason info) (xi_arg info) (xi_regs info ! 7) zero_head, ctx))"

definition javm_on_ecall :: "kernel_env \<Rightarrow> javm_ctx \<Rightarrow> u32 \<Rightarrow> exit_info \<Rightarrow> (flow \<times> javm_ctx) kernel_result" where
  "javm_on_ecall E ctx op' info =
     kbind (ecall_frame_cost E ctx op') (\<lambda>fc.
       let total_cost = ecall_dynamic_cost (xi_reason info = EXIT_HOST_CALL) + unwrap_or 0 fc in
       if live_gas (ctx_gas ctx) <s total_cost then
         kbind (try_oog_yield E (ctx_stack ctx) (top_idx ctx) (saturating_sub (xi_pc info) 4)) (\<lambda>(routed, stack).
           let ctx = ctx\<lparr>ctx_stack := stack\<rparr> in
           KOk (if routed then Flow_Resume else task_done ctx EXIT_OOG 0 (xi_regs info ! 7) zero_head, ctx))
       else
         ecall_op E (ctx\<lparr>ctx_gas := (ctx_gas ctx)\<lparr>live_gas := live_gas (ctx_gas ctx) - total_cost\<rparr>\<rparr>) (fc = None) op' info)"

definition javm_on_exit :: "kernel_env \<Rightarrow> javm_ctx \<Rightarrow> exit_info \<Rightarrow> (flow \<times> javm_ctx) kernel_result" where
  "javm_on_exit E ctx info =
     (if xi_reason info = EXIT_OOG then
        kbind (try_oog_yield E (ctx_stack ctx) (top_idx ctx) (xi_pc info)) (\<lambda>(routed, stack).
          let ctx = ctx\<lparr>ctx_stack := stack\<rparr> in
          KOk (if routed then Flow_Resume else task_done ctx (xi_reason info) (xi_arg info) (xi_regs info ! 7) zero_head, ctx))
      else KOk (task_done ctx (xi_reason info) (xi_arg info) (xi_regs info ! 7) zero_head, ctx))"

definition javm :: "kernel_env \<Rightarrow> (kernel_frame, key, entry_meta, mem_cache) personality" where
  "javm E = \<lparr>build_root_frame = javm_build_root_frame E, active_meter_of = active_meter,
     on_halt_of = javm_on_halt E, on_ecall_of = javm_on_ecall E, on_exit_of = javm_on_exit E\<rparr>"

end
