(* ===== verification/Task_Laws.thy ===== *)
theory Task_Laws
  imports Task
begin

text \<open>
  Laws of the task skeleton. The gas bank keeps one balance per scope (\<open>balance\<close>), whatever scope is running. The
  contract of a guest personality is the locale \<open>guest_personality\<close>: with it no poll breaks an invariant of the
  kernel, no run of a task does, and the scheduler of a lane keeps its books, answers every waiter and ends when
  its tasks do. The Javm personality is shown to satisfy it in \<open>Call_Loop_Laws\<close>.
\<close>

section \<open>Results that are safe\<close>

text \<open>A result is safe for \<open>Q\<close> when a value satisfies \<open>Q\<close>, an error is not the bookkeeping error and a panic is the one
  on an elided page.\<close>

definition safe :: "('a \<Rightarrow> bool) \<Rightarrow> 'a kernel_result \<Rightarrow> bool" where
  "safe Q r = (case r of KOk x \<Rightarrow> Q x | KErr e \<Rightarrow> e \<noteq> ERR_TASK_BOOKKEEPING | KPanic p \<Rightarrow> p = Elided_Page)"

lemma safe_simps [simp]:
  "safe Q (KOk x) = Q x" "safe Q (KErr e) = (e \<noteq> ERR_TASK_BOOKKEEPING)" "safe Q (KPanic p) = (p = Elided_Page)"
  by (simp_all add: safe_def)

lemma safe_bind: "safe R r \<Longrightarrow> (\<And>x. R x \<Longrightarrow> safe Q (f x)) \<Longrightarrow> safe Q (kbind r f)"
  by (cases r) auto

lemma safe_mono: "safe R r \<Longrightarrow> (\<And>x. R x \<Longrightarrow> Q x) \<Longrightarrow> safe Q r"
  by (cases r) auto

lemma kbind_assoc: "kbind (kbind r f) g = kbind r (\<lambda>x. kbind (f x) g)"
  by (cases r) auto

lemma kbind_KOk: "kbind r f = KOk y \<longleftrightarrow> (\<exists>x. r = KOk x \<and> f x = KOk y)"
  by (cases r) auto

section \<open>The gas bank\<close>

text \<open>The balance of a scope: a meter, or the host budget of frames without one. The balance of the scope that is
  running is the live gas.\<close>

definition balance :: "'k::linorder gas_state \<Rightarrow> 'k option \<Rightarrow> i64" where
  "balance g scope =
     (if current_active g = scope then live_gas g
      else case scope of Some k \<Rightarrow> unwrap_or 0 (bt_get (meters g) k) | None \<Rightarrow> host_budget g)"

lemma reconcile_active_scope [simp]: "current_active (reconcile new g) = new" "root_active (reconcile new g) = root_active g"
  by (simp_all add: reconcile_def case_prod_beta Let_def)

lemma balance_reconcile: "balance (reconcile new g) scope = balance g scope"
  by (auto simp: balance_def reconcile_def reconcile_active_def unwrap_or_def Let_def bt_get_insert split: option.splits prod.splits)

text \<open>Switching the running gas scope moves no gas: after \<open>reconcile\<close> every scope (every meter, and the host
  budget) has the balance it had, the live gas is the balance of the scope that now runs, and the
  \<open>gas_remaining\<close> that a task reports is the balance of its root scope.\<close>

theorem reconcile_conserves:
  "balance (reconcile new g) = balance g \<and> live_gas (reconcile new g) = balance g new \<and>
   root_remaining (reconcile new g) = balance g (root_active g)"
proof -
  have "live_gas (reconcile new g) = balance (reconcile new g) new" by (simp add: balance_def)
  moreover have "root_remaining (reconcile new g) = balance (reconcile new g) (root_active (reconcile new g))"
    by (auto simp: root_remaining_def balance_def)
  ultimately show ?thesis by (auto simp: balance_reconcile)
qed

section \<open>Personalities\<close>

text \<open>\<open>ok\<close> is the invariant of the call stack.\<close>

locale guest_personality =
  fixes P :: "('f, 'k::linorder, 'm, 's) personality" and X :: "('f, 'mem, 'rt) exec_frame" and enter :: "('mem, 'rt) enter_frame"
    and ok :: "('f, 'm) call_stack \<Rightarrow> bool"
  assumes root_ok: "safe (\<lambda>(f, m). ok [instance_with_meta f 0 0 m]) (build_root_frame P root endpoint_idx args)"
    and meter_ok: "ok st \<Longrightarrow> safe (\<lambda>_. True) (active_meter_of P st (length st - 1))"
    and enter_ok: "ok st \<Longrightarrow>
      safe (\<lambda>(info, st'). ok st' \<and> length st' = length st) (frame_at_mut st (length st - 1) (\<lambda>f. run_one_entry X enter lane f gas))"
    and mirror_ok: "ok st \<Longrightarrow> safe (\<lambda>(_, st'). ok st') (frame_at_mut st (length st - 1) (\<lambda>f.
      KOk ((), put_parts X ((get_parts X f)\<lparr>fp_regs := xi_regs (info :: exit_info), fp_pc := ucast (xi_pc info)\<rparr>) f)))"
    and halt_ok: "ok (ctx_stack ctx) \<Longrightarrow> safe (\<lambda>(fl, ctx'). fl = Flow_Resume \<longrightarrow> ok (ctx_stack ctx')) (on_halt_of P ctx info)"
    and ecall_ok: "ok (ctx_stack ctx) \<Longrightarrow> safe (\<lambda>(fl, ctx'). fl = Flow_Resume \<longrightarrow> ok (ctx_stack ctx')) (on_ecall_of P ctx op' info)"
    and exit_ok: "ok (ctx_stack ctx) \<Longrightarrow> safe (\<lambda>(fl, ctx'). fl = Flow_Resume \<longrightarrow> ok (ctx_stack ctx')) (on_exit_of P ctx info)"
begin

lemma task_new_safe: "safe (\<lambda>t. ok (task_stack t)) (task_new P tid lane root endpoint_idx args gas)"
proof -
  have "safe (\<lambda>t. ok (task_stack t)) (let stack = [instance_with_meta frame 0 0 meta] in
       kbind (active_meter_of P stack 0) (\<lambda>root_active.
         KOk \<lparr>task_id = tid, task_lane = lane, task_stack = stack, task_next_iid = 1, task_gas = gas_state_new root_active gas\<rparr>))"
    if "ok [instance_with_meta frame 0 0 meta]" for frame meta
    using meter_ok [OF that] that by (auto simp: Let_def intro!: safe_bind [where R = "\<lambda>_. True"])
  then show ?thesis unfolding task_new_def
    by (intro safe_bind [OF root_ok]) (auto simp: case_prod_beta)
qed

lemma poll_run_safe:
  assumes "ok (task_stack t)"
  shows "safe (\<lambda>(info, t'). ok (task_stack t')) (poll_run P X enter t)"
  unfolding poll_run_def Let_def
proof (rule safe_bind [OF meter_ok [OF assms]], rule safe_bind [OF enter_ok [OF assms]], clarify)
  fix new_active and info :: exit_info and st
  assume st: "ok st" "length st = length (task_stack t)"
  have "safe (\<lambda>(_, st'). ok st') (frame_at_mut st (length (task_stack t) - 1) (\<lambda>f.
      KOk ((), put_parts X ((get_parts X f)\<lparr>fp_regs := xi_regs info, fp_pc := ucast (xi_pc info)\<rparr>) f)))"
    using mirror_ok [OF st(1)] st(2) by simp
  then show "safe (\<lambda>(info, t'). ok (task_stack t')) (kbind (frame_at_mut st (length (task_stack t) - 1) (\<lambda>f.
        KOk ((), put_parts X ((get_parts X f)\<lparr>fp_regs := xi_regs info, fp_pc := ucast (xi_pc info)\<rparr>) f)))
      (\<lambda>(_, stack). KOk (info, t\<lparr>task_stack := stack,
        task_gas := reconcile new_active (task_gas t)\<lparr>live_gas := xi_gas info\<rparr>\<rparr>)))"
    by (rule safe_bind) auto
qed

lemma poll_safe:
  assumes "ok (task_stack t)"
  shows "safe (\<lambda>(p, t', st'). p = Poll_Pending \<longrightarrow> ok (task_stack t')) (poll_once P X enter t st)"
proof -
  have "safe (\<lambda>(fl, ctx'). fl = Flow_Resume \<longrightarrow> ok (ctx_stack ctx')) (dispatch_exit P ctx info)" if "ok (ctx_stack ctx)" for ctx info
    using halt_ok [OF that] ecall_ok [OF that] exit_ok [OF that] by (auto simp: dispatch_exit_def)
  then show ?thesis unfolding poll_once_def
    by (intro safe_bind [OF poll_run_safe [OF assms]])
      (auto split: flow.splits intro!: safe_bind [where R = "\<lambda>(fl, ctx'). fl = Flow_Resume \<longrightarrow> ok (ctx_stack ctx')"])
qed

lemma run_safe:
  assumes "run_to_completion P X enter t st = Some r" "ok (task_stack t)"
  shows "safe (\<lambda>_. True) r"
proof -
  have "(\<lambda>((((P', X'), enter'), t), st) r. P' = P \<longrightarrow> X' = X \<longrightarrow> enter' = enter \<longrightarrow> ok (task_stack t) \<longrightarrow> safe (\<lambda>_. True) r)
      ((((P, X), enter), t), st) r"
  proof (rule run_to_completion.raw_induct [OF _ assms(1)], clarify, goal_cases)
    case (1 run P' X' enter' t st r)
    then show ?case using poll_safe [OF 1(3), of st]
      by (auto split: kernel_result.splits prod.splits task_poll.splits)
  qed
  then show ?thesis using assms(2) by simp
qed

lemma run_top_safe: "run_top_on_lane P X enter lane root endpoint_idx args gas st = Some r \<Longrightarrow> safe (\<lambda>_. True) r"
  using task_new_safe [of 0 lane root endpoint_idx args gas]
  by (auto simp: run_top_on_lane_def split: kernel_result.splits dest: run_safe)

end

section \<open>The scheduler\<close>

text \<open>The books of a lane: the ready queue lists the tasks of the lane once each, and no task is at the same time
  completed. Identifiers come from a counter.\<close>

definition sched_ok :: "(('f, 'm) call_stack \<Rightarrow> bool) \<Rightarrow> ('f, 'k, 'm) kernel_scheduler \<Rightarrow> bool" where
  "sched_ok ok s \<longleftrightarrow> wf_bt (sched_tasks s) \<and> wf_bt (sched_completed s) \<and>
     distinct (sched_ready s) \<and> set (sched_ready s) = fst ` set (sched_tasks s) \<and>
     (\<forall>(tid, t) \<in> set (sched_tasks s). ok (task_stack t)) \<and>
     fst ` set (sched_tasks s) \<inter> fst ` set (sched_completed s) = {} \<and>
     (\<forall>tid \<in> fst ` set (sched_tasks s) \<union> fst ` set (sched_completed s). tid < next_task_id s)"

text \<open>A task that was submitted and whose result was not handed out yet.\<close>

definition awaited :: "u64 \<Rightarrow> ('f, 'k, 'm) kernel_scheduler \<Rightarrow> bool" where
  "awaited tid s \<longleftrightarrow> tid \<in> fst ` set (sched_tasks s) \<union> fst ` set (sched_completed s)"

definition runnable :: "u64 \<Rightarrow> ('f, 'k, 'm) kernel_scheduler \<Rightarrow> bool" where
  "runnable tid s \<longleftrightarrow> tid \<in> fst ` set (sched_tasks s)"

text \<open>A wait that returns a result hands out that of its target; one that fails loses the task that failed. Nothing else changes.\<close>

definition answered :: "u64 \<Rightarrow> 'a kernel_result \<Rightarrow> ('f, 'k, 'm) kernel_scheduler \<Rightarrow> ('f, 'k, 'm) kernel_scheduler \<Rightarrow> bool" where
  "answered target r s s' \<longleftrightarrow> (\<exists>gone. awaited gone s \<and> (\<forall>k. awaited k s' \<longleftrightarrow> awaited k s \<and> k \<noteq> gone) \<and>
     (case r of KOk _ \<Rightarrow> gone = target | _ \<Rightarrow> True))"

lemma answered_cong: "\<forall>k. awaited k s = awaited k s1 \<Longrightarrow> answered target r s s' = answered target r s1 s'"
  by (simp add: answered_def)

lemma bt_get_keys: "bt_get t k \<noteq> None \<longleftrightarrow> k \<in> fst ` set t"
  by (simp add: bt_get_def map_of_eq_None_iff)

lemma bt_get_key: "wf_bt t \<Longrightarrow> bt_get t k = Some v \<longleftrightarrow> (k, v) \<in> set t"
  by (simp add: bt_get_def wf_bt_distinct)

lemma set_insert:
  assumes "wf_bt t"
  shows "set (bt_insert k v t) = insert (k, v) {e \<in> set t. fst e \<noteq> k}"
proof -
  have "(a, b) \<in> set (bt_insert k v t) \<longleftrightarrow> (if a = k then b = v else (a, b) \<in> set t)" for a b
    using bt_get_key [of "bt_insert k v t" a b] bt_get_key [of t a b] assms by (auto simp: bt_get_insert split: if_splits)
  then show ?thesis by (auto split: if_splits)
qed

lemma set_remove:
  assumes "wf_bt t"
  shows "set (bt_remove k t) = {e \<in> set t. fst e \<noteq> k}"
proof -
  have "(a, b) \<in> set (bt_remove k t) \<longleftrightarrow> a \<noteq> k \<and> (a, b) \<in> set t" for a b
    using bt_get_key [of "bt_remove k t" a b] bt_get_key [of t a b] assms by (auto simp: bt_get_remove split: if_splits)
  then show ?thesis by auto
qed

lemma scheduler_new_ok: "sched_ok ok (scheduler_new lane)"
  by (simp add: sched_ok_def scheduler_new_def)

text \<open>Taking the first task of the queue out, and putting it back or noting its result.\<close>

lemma sched_pop:
  assumes "sched_ok ok s" "sched_ready s = tid # rest"
  obtains t where "bt_get (sched_tasks s) tid = Some t" "ok (task_stack t)"
    "sched_ok ok (s\<lparr>sched_ready := rest, sched_tasks := bt_remove tid (sched_tasks s)\<rparr>)"
    "fst ` set (bt_remove tid (sched_tasks s)) = fst ` set (sched_tasks s) - {tid}"
proof -
  have wf: "wf_bt (sched_tasks s)" using assms(1) by (simp add: sched_ok_def)
  have "tid \<in> fst ` set (sched_tasks s)" using assms by (auto simp: sched_ok_def)
  then obtain t where t: "bt_get (sched_tasks s) tid = Some t" by (auto simp flip: bt_get_keys)
  then have "(tid, t) \<in> set (sched_tasks s)" using bt_get_key [OF wf] by simp
  then have "ok (task_stack t)" using assms(1) by (auto simp: sched_ok_def)
  moreover have "sched_ok ok (s\<lparr>sched_ready := rest, sched_tasks := bt_remove tid (sched_tasks s)\<rparr>)"
    using assms by (auto simp: sched_ok_def keys_remove set_remove)
  ultimately show thesis using that t keys_remove [OF wf] by simp
qed

lemma sched_requeue:
  assumes "sched_ok ok s" "\<not> awaited tid s" "tid < next_task_id s" "ok (task_stack t)"
  shows "sched_ok ok (s\<lparr>sched_tasks := bt_insert tid t (sched_tasks s), sched_ready := sched_ready s @ [tid]\<rparr>)"
  using assms by (auto simp: sched_ok_def awaited_def keys_insert set_insert)

lemma sched_complete:
  assumes "sched_ok ok s" "\<not> awaited tid s" "tid < next_task_id s"
  shows "sched_ok ok (s\<lparr>sched_completed := bt_insert tid out (sched_completed s)\<rparr>)"
  using assms by (auto simp: sched_ok_def awaited_def keys_insert)

lemma sched_hand_out:
  assumes "sched_ok ok s"
  shows "sched_ok ok (s\<lparr>sched_completed := bt_remove tid (sched_completed s)\<rparr>)"
    "bt_get (sched_completed s) tid = Some out \<Longrightarrow>
     answered tid (KOk out) s (s\<lparr>sched_completed := bt_remove tid (sched_completed s)\<rparr>)"
proof -
  show "sched_ok ok (s\<lparr>sched_completed := bt_remove tid (sched_completed s)\<rparr>)"
    using assms by (auto simp: sched_ok_def keys_remove)
  assume "bt_get (sched_completed s) tid = Some out"
  then have "tid \<in> fst ` set (sched_completed s)" by (simp flip: bt_get_keys)
  then show "answered tid (KOk out) s (s\<lparr>sched_completed := bt_remove tid (sched_completed s)\<rparr>)"
    using assms by (auto simp: answered_def awaited_def sched_ok_def keys_remove)
qed

context guest_personality
begin

lemma submit_safe:
  assumes "sched_ok ok s" "next_task_id s + 1 \<noteq> 0" "submit_invoke P root endpoint_idx args gas s = (r, s')"
  shows "safe (\<lambda>tid. awaited tid s') r" "sched_ok ok s'" "awaited tid s \<Longrightarrow> awaited tid s'"
proof -
  let ?tid = "next_task_id s" and ?s = "s\<lparr>next_task_id := next_task_id s + 1\<rparr>"
  have lt: "k < ?tid + 1" if "k \<le> ?tid" for k 
    using that assms(2) by (simp add: word_less_nat_alt word_le_nat_alt unatSuc add.commute)
  have s: "sched_ok ok ?s" "\<not> awaited ?tid ?s" "?tid < next_task_id ?s"
    using assms(1) lt by (auto simp: sched_ok_def awaited_def less_imp_le)
  note new = task_new_safe [of ?tid "sched_lane ?s" root endpoint_idx args gas]
  have r: "(r, s') = (case task_new P ?tid (sched_lane ?s) root endpoint_idx args gas of
        KErr e \<Rightarrow> (KErr e, ?s)
      | KPanic p \<Rightarrow> (KPanic p, ?s)
      | KOk t \<Rightarrow> (KOk ?tid, ?s\<lparr>sched_tasks := bt_insert ?tid t (sched_tasks s), sched_ready := sched_ready s @ [?tid]\<rparr>))"
    using assms(3) by (simp add: submit_invoke_def Let_def cong: kernel_result.case_cong)
  show "safe (\<lambda>tid. awaited tid s') r" using r new by (auto simp: awaited_def keys_insert split: kernel_result.splits)
  show "sched_ok ok s'" using r new s sched_requeue [OF s] by (auto split: kernel_result.splits)
  show "awaited tid s \<Longrightarrow> awaited tid s'" using r by (auto simp: awaited_def keys_insert split: kernel_result.splits)
qed

lemma ready_round_safe:
  assumes "sched_ok ok s" "runnable target s"
  shows "case ready_round P X enter target s st of
      Inl (r, s', st') \<Rightarrow> safe (\<lambda>_. True) r \<and> sched_ok ok s' \<and> answered target r s s'
    | Inr (s', st') \<Rightarrow> sched_ok ok s' \<and> runnable target s' \<and> (\<forall>k. awaited k s' = awaited k s)"
proof -
  have "sched_ready s \<noteq> []" using assms by (auto simp: sched_ok_def runnable_def)
  then obtain tid rest where r: "sched_ready s = tid # rest" by (cases "sched_ready s") auto
  define s1 where "s1 = s\<lparr>sched_ready := rest, sched_tasks := bt_remove tid (sched_tasks s)\<rparr>"
  obtain t where t: "bt_get (sched_tasks s) tid = Some t" "ok (task_stack t)" "sched_ok ok s1"
      "fst ` set (sched_tasks s1) = fst ` set (sched_tasks s) - {tid}"
    using sched_pop [OF assms(1) r] by (auto simp: s1_def)
  have k: "\<not> awaited tid s1" "tid < next_task_id s1" "bt_get (sched_completed s1) target = None"
    using assms t(1,4) r bt_get_keys [of "sched_tasks s" tid] bt_get_keys [of "sched_completed s" target]
    by (auto simp: awaited_def sched_ok_def s1_def runnable_def)
  have aw: "awaited tid s" "awaited j s1 \<longleftrightarrow> awaited j s \<and> j \<noteq> tid" for j
    using assms(1) t(1,4) bt_get_keys [of "sched_tasks s" tid] by (auto simp: awaited_def sched_ok_def s1_def)
  then have gone: "answered target r s s1" if "\<forall>x. r = KOk x \<longrightarrow> tid = target" for r :: "loop_outcome kernel_result"
    using that unfolding answered_def by (intro exI [of _ tid]) (auto split: kernel_result.splits)
  have kept: "awaited j (s1\<lparr>sched_completed := bt_insert tid out (sched_completed s1)\<rparr>) = awaited j s"
      "awaited j (s1\<lparr>sched_tasks := bt_insert tid t' (sched_tasks s1), sched_ready := sched_ready s1 @ [tid]\<rparr>) = awaited j s" for j out t'
    using aw(1) aw(2) [of j] by (auto simp: awaited_def keys_insert)
  have eq: "ready_round P X enter target s st = (case poll_once P X enter t st of
        KErr e \<Rightarrow> Inl (KErr e, s1, st)
      | KPanic p \<Rightarrow> Inl (KPanic p, s1, st)
      | KOk (Poll_Done out, t, st) \<Rightarrow>
          if tid = target then Inl (KOk out, s1, st)
          else Inr (s1\<lparr>sched_completed := bt_insert tid out (sched_completed s1)\<rparr>, st)
      | KOk (Poll_Pending, t, st) \<Rightarrow>
          Inr (s1\<lparr>sched_tasks := bt_insert tid t (sched_tasks s1), sched_ready := sched_ready s1 @ [tid]\<rparr>, st))"
    using k(3) by (auto simp: ready_round_def r t(1) bt_get_insert s1_def Let_def split: kernel_result.splits prod.splits task_poll.splits)
  show ?thesis unfolding eq
    using poll_safe [OF t(2), of st] t(3,4) assms(2) sched_requeue [OF t(3) k(1,2)] sched_complete [OF t(3) k(1,2)]
    by (auto simp: kept gone keys_insert runnable_def split: kernel_result.splits prod.splits task_poll.splits)
qed

lemma ready_loop_safe:
  assumes "ready_loop P X enter target s st = Some (r, s', st')" "sched_ok ok s" "runnable target s"
  shows "safe (\<lambda>_. True) r \<and> sched_ok ok s' \<and> answered target r s s'"
proof -
  have "(\<lambda>(((((P', X'), enter'), target), s), st) (r, s', st'). P' = P \<longrightarrow> X' = X \<longrightarrow> enter' = enter \<longrightarrow> sched_ok ok s \<longrightarrow>
      runnable target s \<longrightarrow> safe (\<lambda>_. True) r \<and> sched_ok ok s' \<and> answered target r s s') (((((P, X), enter), target), s), st) (r, s', st')"
  proof (rule ready_loop.raw_induct [OF _ assms(1)], goal_cases)
    case (1 loop P' X' enter' target s st res)
    then show ?case using ready_round_safe [of s target st]
      by (fastforce split: sum.splits prod.splits dest: answered_cong [THEN iffD1])
  qed
  then show ?thesis using assms(2,3) by simp
qed

lemma run_until_result_safe:
  assumes "run_until_result P X enter target s st = Some (r, s', st')" "sched_ok ok s" "awaited target s"
  shows "safe (\<lambda>_. True) r \<and> sched_ok ok s' \<and> answered target r s s'"
proof (cases "bt_get (sched_completed s) target")
  case None
  then have "runnable target s" using assms(3) bt_get_keys [of "sched_completed s" target] by (auto simp: awaited_def runnable_def)
  then show ?thesis using ready_loop_safe [OF _ assms(2)] assms(1) None by (simp add: run_until_result_def)
qed (use assms sched_hand_out [OF assms(2)] in \<open>auto simp: run_until_result_def\<close>)

end

section \<open>The scheduler ends\<close>

text \<open>The polls that are left to the tasks of a lane, if a task needs at most \<open>m t\<close> polls.\<close>

definition work :: "(('f, 'k, 'm) kernel_task \<Rightarrow> nat) \<Rightarrow> (u64, ('f, 'k, 'm) kernel_task) btree \<Rightarrow> nat" where
  "work m ts = (\<Sum>(tid, t) \<leftarrow> ts. Suc (m t))"

lemma work_remove: "bt_get ts k = Some t \<Longrightarrow> wf_bt ts \<Longrightarrow> work m ts = work m (bt_remove k ts) + Suc (m t)"
  by (induction k ts rule: bt_remove.induct) (auto simp: work_def wf_bt_Cons bt_get_def split: if_splits)

lemma work_insert: "bt_get ts k = None \<Longrightarrow> work m (bt_insert k t ts) = work m ts + Suc (m t)"
  by (induction k t ts rule: bt_insert.induct) (auto simp: work_def bt_get_def split: if_splits)

lemma ready_round_work:
  fixes m :: "('f, 'k::linorder, 'm) kernel_task \<Rightarrow> nat"
  assumes "wf_bt (sched_tasks s)" "ready_round P X enter target s st = Inr (s', st')"
    "\<And>t st t' st'. poll_once P X enter t st = KOk (Poll_Pending, t', st') \<Longrightarrow> m t' < m t"
  shows "wf_bt (sched_tasks s') \<and> work m (sched_tasks s') < work m (sched_tasks s)"
  using assms(1,2) work_remove [OF _ assms(1), of _ _ m] assms(3)
  by (force simp: ready_round_def Let_def work_insert bt_get_remove
      split: list.splits option.splits kernel_result.splits prod.splits task_poll.splits if_splits)

lemma ready_loop_ends:
  fixes m :: "('f, 'k::linorder, 'm) kernel_task \<Rightarrow> nat"
  assumes "wf_bt (sched_tasks s)"
    and m: "\<And>t st t' st'. poll_once P X enter t st = KOk (Poll_Pending, t', st') \<Longrightarrow> m t' < m t"
  shows "\<exists>res. ready_loop P X enter target s st = Some res"
  using assms(1)
proof (induction "work m (sched_tasks s)" arbitrary: s st rule: less_induct)
  case less
  show ?case
  proof (cases "ready_round P X enter target s st")
    case (Inr b)
    obtain s' st' where b: "b = (s', st')" by fastforce
    show ?thesis using less.hyps [of s' st'] ready_round_work [OF less.prems Inr [unfolded b] m] Inr b
      by (subst ready_loop.simps) auto
  qed (subst ready_loop.simps, auto)
qed

end
