(* ===== verification/Data_Cap_Laws.thy ===== *)
theory Data_Cap_Laws
  imports Data_Cap
begin

text \<open>
  A data cap as an array of bytes: what its pages stand for (\<open>data_bytes\<close>), which caps are well formed
  (\<open>data_ok\<close>), reading, writing and building in terms of the bytes, and the canonical form \<open>flush\<close> settles to.
\<close>

section \<open>Page vectors\<close>

definition page_nth :: "page_slot list \<Rightarrow> nat \<Rightarrow> page_slot" where
  "page_nth ps i = (if i < length ps then ps ! i else Slot_Empty)"

lemma slab_page_nth: "slab_page s = page_nth (slab_pages s)"
  by (auto simp: slab_page_def page_nth_def)

lemma trim_empty_split: "\<exists>k. ps = trim_empty ps @ replicate k Slot_Empty"
proof -
  let ?e = "\<lambda>s. s = Slot_Empty"
  have "rev ps = takeWhile ?e (rev ps) @ dropWhile ?e (rev ps)" by simp
  then have "ps = rev (dropWhile ?e (rev ps)) @ rev (takeWhile ?e (rev ps))" by (metis rev_append rev_rev_ident)
  moreover have "takeWhile ?e (rev ps) = replicate (length (takeWhile ?e (rev ps))) Slot_Empty"
    by (rule replicate_eqI) (auto dest: set_takeWhileD)
  ultimately show ?thesis unfolding trim_empty_def by (metis rev_replicate)
qed

lemma page_nth_trim [simp]: "page_nth (trim_empty ps) = page_nth ps"
proof
  obtain k where k: "ps = trim_empty ps @ replicate k Slot_Empty" using trim_empty_split by blast
  show "page_nth (trim_empty ps) i = page_nth ps i" for i
    by (subst (2) k) (auto simp: page_nth_def nth_append)
qed

lemma trim_empty_last: "trim_empty ps \<noteq> [] \<Longrightarrow> last (trim_empty ps) \<noteq> Slot_Empty"
  unfolding trim_empty_def by (metis (mono_tags) hd_dropWhile last_rev rev_is_Nil_conv)

lemma page_nth_eqD:
  assumes "page_nth ps = page_nth qs" "ps \<noteq> [] \<Longrightarrow> last ps \<noteq> Slot_Empty" "qs \<noteq> [] \<Longrightarrow> last qs \<noteq> Slot_Empty"
  shows "ps = qs"
proof -
  have le: "length qs \<le> length ps" if "page_nth ps = page_nth qs" "qs \<noteq> [] \<Longrightarrow> last qs \<noteq> Slot_Empty" for ps qs
  proof (rule ccontr)
    assume l: "\<not> length qs \<le> length ps"
    then have ne: "qs \<noteq> []" by auto
    have "page_nth ps (length qs - 1) = Slot_Empty" using l by (auto simp: page_nth_def)
    moreover have "page_nth qs (length qs - 1) = last qs" using ne by (simp add: page_nth_def last_conv_nth)
    ultimately show False using that ne by metis
  qed
  have len: "length ps = length qs" using le [OF assms(1,3)] le [OF assms(1) [symmetric] assms(2)] by simp
  show ?thesis
  proof (rule nth_equalityI [OF len])
    fix i assume "i < length ps"
    then show "ps ! i = qs ! i" using len fun_cong [OF assms(1), of i] by (simp add: page_nth_def)
  qed
qed

lemma trim_empty_eqI: "page_nth ps = page_nth qs \<Longrightarrow> trim_empty ps = trim_empty qs"
  by (rule page_nth_eqD) (simp_all add: trim_empty_last)

lemma trim_empty_trim [simp]: "trim_empty (trim_empty ps) = trim_empty ps"
  by (rule trim_empty_eqI) simp

lemma page_nth_set_page: "page_nth (set_page p x ps) = (page_nth ps)(p := x)"
  by (auto simp: page_nth_def set_page_def resize_def nth_append fun_eq_iff nth_list_update)

lemma page_nth_map: "page_nth (map f [0..<n]) i = (if i < n then f i else Slot_Empty)"
  by (simp add: page_nth_def)

section \<open>Contents\<close>

abbreviation zero_page :: bytes where
  "zero_page \<equiv> replicate 4096 0"

text \<open>The bytes a page stands for; an elided page counts as zeros.\<close>

definition slot_content :: "page_slot \<Rightarrow> bytes" where
  "slot_content s = (case s of Slot_Loaded p \<Rightarrow> page_buffer (pb_bytes p) | _ \<Rightarrow> zero_page)"

definition data_bytes :: "data_cap \<Rightarrow> bytes" where
  "data_bytes d = concat (map (\<lambda>i. slot_content (page_slot_at d i)) [0..<page_count d])"

lemma length_page_buffer [simp]: "length (page_buffer bs) = 4096"
  by (simp add: page_buffer_def PAGE_SIZE_cap_def)

lemma page_buffer_id [simp]: "length bs = 4096 \<Longrightarrow> page_buffer bs = bs"
  by (simp add: page_buffer_def PAGE_SIZE_cap_def)

lemma length_slot_content [simp]: "length (slot_content s) = 4096"
  by (simp add: slot_content_def split: page_slot.splits)

lemma length_concat_const: "(\<And>i. length (f i) = c) \<Longrightarrow> length (concat (map f [0..<n])) = n * c"
  by (induction n) simp_all

lemma take_drop_concat_const:
  assumes c: "\<And>i. length (f i) = c" and p: "p < n"
  shows "take c (drop (p * c) (concat (map f [0..<n]))) = f p"
proof -
  have split: "[0..<n] = [0..<p] @ p # [Suc p..<n]" using p by (metis less_imp_le_nat plus_nat.add_0 upt_add_eq_append upt_conv_Cons zero_le le_Suc_ex)
  have "drop (p * c) (concat (map f [0..<n])) = f p @ concat (map f [Suc p..<n])"
    using length_concat_const [of f c p, OF c] by (simp add: split)
  then show ?thesis using c by simp
qed

lemma length_data_bytes: "length (data_bytes d) = page_count d * 4096"
  unfolding data_bytes_def by (rule length_concat_const) simp

lemma data_bytes_page: "p < page_count d \<Longrightarrow> take 4096 (drop (p * 4096) (data_bytes d)) = slot_content (page_slot_at d p)"
  unfolding data_bytes_def by (rule take_drop_concat_const) simp_all

text \<open>A canonical page: hashed, full, not all zero.\<close>

definition canonical_slot :: "digest \<Rightarrow> page_slot \<Rightarrow> bool" where
  "canonical_slot D s = (case s of
     Slot_Empty \<Rightarrow> True
   | Slot_Loaded p \<Rightarrow> length (pb_bytes p) = 4096 \<and> \<not> all_zero (pb_bytes p) \<and> pb_hash p = page_content_hash D (pb_bytes p)
   | Slot_Missing h \<Rightarrow> False)"

definition wf_slab :: "digest \<Rightarrow> page_slab \<Rightarrow> bool" where
  "wf_slab D s \<longleftrightarrow>
     unat (slab_size s) mod 4096 = 0 \<and> 0 < slab_size s \<and> slab_size s < 2 ^ 44 \<and>
     (\<forall>i. canonical_slot D (slab_page s i)) \<and> (\<forall>i. slab_page_count s \<le> i \<longrightarrow> slab_page s i = Slot_Empty) \<and>
     trim_empty (slab_pages s) = slab_pages s"

text \<open>The cap during execution: its overlay holds full pages of the extent.\<close>

definition data_ok :: "digest \<Rightarrow> data_cap \<Rightarrow> bool" where
  "data_ok D d \<longleftrightarrow>
     wf_slab D (backing d) \<and> wf_bt (overlay d) \<and>
     (\<forall>(p, s) \<in> set (overlay d). unat p < page_count d \<and> s \<noteq> Slot_Empty \<and> (\<exists>pr. s = Slot_Loaded pr \<and> length (pb_bytes pr) = 4096))"

lemma page_count_alt: "slab_page_count s = unat (slab_size s) div 4096"
  by (simp add: slab_page_count_def PAGE_SIZE_cap_def unat_div)

lemma all_zero_replicate: "all_zero bs \<longleftrightarrow> bs = replicate (length bs) 0"
  by (induction bs) (auto simp: all_zero_def)

lemma content_slot_canonical [simp]: "length bs \<le> 4096 \<Longrightarrow> canonical_slot D (content_slot D bs)"
proof -
  assume l: "length bs \<le> 4096"
  have "all_zero (page_buffer bs) = all_zero bs" using l by (auto simp: page_buffer_def all_zero_def PAGE_SIZE_cap_def list_all_iff)
  moreover have "page_content_hash D (page_buffer bs) = page_content_hash D bs"
    by (simp add: page_content_hash_def)
  ultimately show ?thesis by (simp add: canonical_slot_def content_slot_def from_content_def)
qed

lemma slot_content_content_slot [simp]: "length bs \<le> 4096 \<Longrightarrow> slot_content (content_slot D bs) = page_buffer bs"
proof -
  assume "length bs \<le> 4096"
  moreover have "all_zero bs \<Longrightarrow> page_buffer bs = zero_page"
  proof -
    assume "all_zero bs"
    then obtain n where "bs = replicate n 0" using all_zero_replicate by blast
    then show "page_buffer bs = zero_page" using calculation by (simp add: page_buffer_def PAGE_SIZE_cap_def flip: replicate_add)
  qed
  ultimately show ?thesis by (auto simp: slot_content_def content_slot_def from_content_def)
qed

lemma content_slot_of_canonical: "canonical_slot D s \<Longrightarrow> content_slot D (slot_content s) = s"
  by (auto simp: canonical_slot_def slot_content_def content_slot_def from_content_def all_zero_def list_all_iff split: page_slot.splits)

section \<open>Flushing\<close>

lemma unat_of_nat32 [simp]: "i < 2 ^ 32 \<Longrightarrow> unat (of_nat i :: u32) = i"
  by (simp only: unsigned_of_nat) (simp add: take_bit_nat_eq_self)

lemma of_nat32_eq: "i < 2 ^ 32 \<Longrightarrow> (of_nat i :: u32) = p \<longleftrightarrow> i = unat p"
  by (metis unat_of_nat32 word_unat_eq_iff)

text \<open>The pages after the entries of an overlay are folded in.\<close>

lemma flush_loop_pages:
  assumes "wf_bt es" "\<forall>(p, s) \<in> set es. \<exists>pr. s = Slot_Loaded pr \<and> length (pb_bytes pr) = 4096"
  shows "\<exists>s'. flush_loop D es s = Returns s' \<and> slab_size s' = slab_size s \<and>
      (\<forall>i < 2 ^ 32. slab_page s' i =
         (case bt_get es (of_nat i) of Some x \<Rightarrow> content_slot D (slot_content x) | None \<Rightarrow> slab_page s i)) \<and>
      (\<forall>i \<ge> 2 ^ 32. slab_page s' i = slab_page s i) \<and>
      (es \<noteq> [] \<longrightarrow> trim_empty (slab_pages s') = slab_pages s')"
  using assms
proof (induction es arbitrary: s)
  case Nil
  then show ?case by (simp add: bt_get_def)
next
  case (Cons e es)
  obtain p pr where e: "e = (p, Slot_Loaded pr)" "length (pb_bytes pr) = 4096" using Cons.prems(2) by auto
  let ?s = "put_page_idx D (unat p) (pb_bytes pr) s"
  have up: "slab_page ?s = (slab_page s)(unat p := content_slot D (pb_bytes pr))"
    by (simp add: put_page_idx_def slab_page_nth page_nth_set_page)
  have wf: "wf_bt es" and fresh: "bt_get es p = None"
    using Cons.prems(1) e by (force simp: wf_bt_Cons bt_get_def map_of_eq_None_iff)+
  obtain s' where s': "flush_loop D es ?s = Returns s'" "slab_size s' = slab_size ?s"
      "\<forall>i < 2 ^ 32. slab_page s' i = (case bt_get es (of_nat i) of Some x \<Rightarrow> content_slot D (slot_content x) | None \<Rightarrow> slab_page ?s i)"
      "\<forall>i \<ge> 2 ^ 32. slab_page s' i = slab_page ?s i" "es \<noteq> [] \<longrightarrow> trim_empty (slab_pages s') = slab_pages s'"
    using Cons.IH [OF wf, of ?s] Cons.prems(2) by auto
  have "unat p < 2 ^ 32" using unsigned_less [of p] by simp
  moreover have "trim_empty (slab_pages s') = slab_pages s'"
    using s'(1,5) by (cases "es = []") (auto simp: put_page_idx_def)
  moreover have "slab_page s' i = (case bt_get (e # es) (of_nat i) of Some x \<Rightarrow> content_slot D (slot_content x) | None \<Rightarrow> slab_page s i)"
    if "i < 2 ^ 32" for i
    using s'(3) that fresh e up of_nat32_eq [OF that, of p]
    by (auto simp: bt_get_def slot_content_def split: option.splits)
  ultimately show ?case using s' e up by (simp add: put_page_idx_def)
qed

lemma data_ok_count: "data_ok D d \<Longrightarrow> page_count d < 2 ^ 32 \<and> page_count d * 4096 = unat (content_len d)"
proof -
  assume d: "data_ok D d"
  then have m: "unat (content_len d) mod 4096 = 0" "content_len d < 2 ^ 44"
    by (auto simp: data_ok_def wf_slab_def content_len_def)
  have "unat (content_len d) < 2 ^ 44" using m(2) unat_mono [OF m(2)] by simp
  moreover have "page_count d = unat (content_len d) div 4096" by (simp add: page_count_def page_count_alt content_len_def)
  ultimately show ?thesis using m(1) by (simp add: less_mult_imp_div_less dvd_div_mult_self mod_eq_0_iff_dvd)
qed

lemma data_ok_slot:
  assumes d: "data_ok D d" and i: "i < 2 ^ 32"
  shows "page_slot_at d i = (case bt_get (overlay d) (of_nat i) of Some s \<Rightarrow> s | None \<Rightarrow> slab_page (backing d) i)"
proof (cases "bt_get (overlay d) (of_nat i)")
  case (Some s)
  then have "(of_nat i, s) \<in> set (overlay d)" by (simp add: bt_get_def map_of_SomeD)
  then obtain pr where "s = Slot_Loaded pr" using d unfolding data_ok_def by fastforce
  then show ?thesis using Some by (simp add: page_slot_at_def)
qed (simp add: page_slot_at_def)

lemma page_slice_full: "(p + 1) * 4096 \<le> length bs \<Longrightarrow> page_slice bs p = take 4096 (drop (p * 4096) bs)"
  by (simp add: page_slice_def PAGE_SIZE_cap_def Let_def)

lemma page_size_word: "(of_nat PAGE_SIZE_cap :: u64) = 4096"
  by (simp add: PAGE_SIZE_cap_def)

lemma sized_exact:
  assumes "unat w mod 4096 = 0" "0 < w"
  shows "max (next_multiple_of_u64 (max w w) (of_nat PAGE_SIZE_cap)) (of_nat PAGE_SIZE_cap) = w"
proof -
  have "unat (w mod 4096) = 0" using assms(1) by (simp add: unat_mod)
  then have "w mod 4096 = 0" by (simp add: unat_eq_zero)
  moreover have "4096 \<le> w"
  proof -
    have "0 < unat w" using assms(2) by (simp add: unat_gt_0)
    then have "4096 \<le> unat w" using assms(1) by (meson dvd_imp_le mod_eq_0_iff_dvd)
    then show ?thesis by (simp add: word_le_nat_alt)
  qed
  ultimately show ?thesis by (simp add: next_multiple_of_u64_def page_size_word)
qed

text \<open>A slab with the size and the pages of the contents of \<open>d\<close> is the one built from these contents.\<close>

lemma slab_from_contents:
  assumes d: "data_ok D d" and sz: "slab_size s = content_len d" and tr: "trim_empty (slab_pages s) = slab_pages s"
    and pg: "\<And>i. i < page_count d \<Longrightarrow> slab_page s i = content_slot D (slot_content (page_slot_at d i))"
    and out: "\<And>i. page_count d \<le> i \<Longrightarrow> slab_page s i = Slot_Empty"
  shows "slab_from_bytes_sized D (data_bytes d) (content_len d) = s"
proof -
  have n: "page_count d * 4096 = unat (content_len d)" using data_ok_count [OF d] by simp
  have len: "(of_nat (length (data_bytes d)) :: u64) = content_len d" by (simp add: length_data_bytes n)
  have m: "unat (content_len d) mod 4096 = 0" "0 < content_len d"
    using d by (auto simp: data_ok_def wf_slab_def content_len_def)
  have cnt: "unat (content_len d div of_nat PAGE_SIZE_cap) = page_count d"
    by (simp add: page_count_def slab_page_count_def content_len_def)
  have "page_slice (data_bytes d) i = slot_content (page_slot_at d i)" if "i < page_count d" for i
    using that data_bytes_page [OF that] by (subst page_slice_full) (simp_all add: length_data_bytes)
  then have "page_nth (map (\<lambda>p. content_slot D (page_slice (data_bytes d) p)) [0..<page_count d]) i = page_nth (slab_pages s) i" for i
    using pg out by (simp add: page_nth_map flip: slab_page_nth) 
  then have "trim_empty (map (\<lambda>p. content_slot D (page_slice (data_bytes d) p)) [0..<page_count d]) = slab_pages s"
    using trim_empty_eqI [of "map (\<lambda>p. content_slot D (page_slice (data_bytes d) p)) [0..<page_count d]" "slab_pages s"] tr
    by (simp add: fun_eq_iff)
  then show ?thesis
    unfolding slab_from_bytes_sized_def Let_def len sized_exact [OF m] cnt using sz by simp
qed

lemma flush_contents:
  assumes d: "data_ok D d"
  shows "flush D d = Returns (data_from_bytes_sized D (data_bytes d) (content_len d))"
proof (cases "overlay d = []")
  case True
  have can: "canonical_slot D (slab_page (backing d) i)" for i using d by (simp add: data_ok_def wf_slab_def)
  have "slab_from_bytes_sized D (data_bytes d) (content_len d) = backing d"
    by (rule slab_from_contents [OF d])
      (use d True can content_slot_of_canonical in \<open>auto simp: content_len_def data_ok_def wf_slab_def page_slot_at_def bt_get_def page_count_def\<close>)
  then show ?thesis using True by (simp add: flush_def data_from_bytes_sized_def)
next
  case False
  have o: "wf_bt (overlay d)" "\<forall>(p, s) \<in> set (overlay d). \<exists>pr. s = Slot_Loaded pr \<and> length (pb_bytes pr) = 4096"
    using d by (auto simp: data_ok_def)
  obtain s where s: "flush_loop D (overlay d) (backing d) = Returns s" "slab_size s = slab_size (backing d)"
      "\<forall>i < 2 ^ 32. slab_page s i = (case bt_get (overlay d) (of_nat i) of Some x \<Rightarrow> content_slot D (slot_content x) | None \<Rightarrow> slab_page (backing d) i)"
      "\<forall>i \<ge> 2 ^ 32. slab_page s i = slab_page (backing d) i" "trim_empty (slab_pages s) = slab_pages s"
    using flush_loop_pages [OF o, of D "backing d"] False by blast
  have can: "canonical_slot D (slab_page (backing d) i)" "page_count d \<le> i \<Longrightarrow> slab_page (backing d) i = Slot_Empty" for i
    using d by (auto simp: data_ok_def wf_slab_def page_count_def)
  have none: "bt_get (overlay d) (of_nat i) = None" if "page_count d \<le> i" "i < 2 ^ 32" for i
  proof (rule ccontr)
    assume "bt_get (overlay d) (of_nat i) \<noteq> None"
    then obtain x where "(of_nat i, x) \<in> set (overlay d)" by (auto simp: bt_get_def dest: map_of_SomeD)
    then have "unat (of_nat i :: u32) < page_count d" using d unfolding data_ok_def by blast
    then show False using that by simp
  qed
  have "slab_from_bytes_sized D (data_bytes d) (content_len d) = s"
  proof (rule slab_from_contents [OF d])
    fix i assume "i < page_count d"
    then have i: "i < 2 ^ 32" using data_ok_count [OF d] by simp
    show "slab_page s i = content_slot D (slot_content (page_slot_at d i))"
      using s(3) i data_ok_slot [OF d i] content_slot_of_canonical [OF can(1)] by (simp split: option.splits)
  next
    fix i assume "page_count d \<le> i"
    then show "slab_page s i = Slot_Empty" using s(3,4) none can(2) by (cases "i < 2 ^ 32") simp_all
  qed (use s in \<open>simp_all add: content_len_def\<close>)
  then show ?thesis using False s(1) by (simp add: flush_def data_from_bytes_sized_def)
qed

section \<open>Reading\<close>

lemma data_ok_slot_cases:
  assumes "data_ok D d" "i < 2 ^ 32"
  shows "page_slot_at d i = Slot_Empty \<or> (\<exists>pr. page_slot_at d i = Slot_Loaded pr \<and> length (pb_bytes pr) = 4096)"
proof (cases "bt_get (overlay d) (of_nat i)")
  case None
  moreover have "canonical_slot D (slab_page (backing d) i)" using assms by (simp add: data_ok_def wf_slab_def)
  ultimately show ?thesis using data_ok_slot [OF assms] by (auto simp: canonical_slot_def split: page_slot.splits)
next
  case (Some s)
  then have "(of_nat i, s) \<in> set (overlay d)" by (simp add: bt_get_def map_of_SomeD)
  then show ?thesis using assms(1) data_ok_slot [OF assms] Some unfolding data_ok_def by fastforce
qed

lemma take_drop_page:
  assumes "p < page_count d" "a = p * 4096 + off" "off + k \<le> 4096"
  shows "take k (drop a (data_bytes d)) = take k (drop off (slot_content (page_slot_at d p)))"
proof -
  have "take k (drop a (data_bytes d)) = take k (drop off (drop (p * 4096) (data_bytes d)))"
    using assms(2) by (simp add: add.commute)
  also have "\<dots> = take k (drop off (take 4096 (drop (p * 4096) (data_bytes d))))"
    using assms(3) by (simp add: drop_take min_def)
  finally show ?thesis using data_bytes_page [OF assms(1)] by simp
qed

lemma rest_less: "0 < k \<Longrightarrow> dn < n \<Longrightarrow> n - (dn + k) < n - (dn :: nat)"
  by simp

lemma copy_loop_reads:
  assumes d: "data_ok D d"
  shows "unat start + n \<le> unat (content_len d) \<Longrightarrow> dn \<le> n \<Longrightarrow>
    copy_loop d start dn n = Returns (take (n - dn) (drop (unat start + dn) (data_bytes d)))"
proof (induction "n - dn" arbitrary: dn rule: less_induct)
  case less
  show ?case
  proof (cases "dn = n")
    case True
    then show ?thesis by (subst copy_loop.simps) simp
  next
    case False
    let ?a = "unat start + dn"
    let ?p = "?a div 4096" and ?off = "?a mod 4096"
    let ?k = "min (4096 - ?off) (n - dn)"
    have cnt: "page_count d < 2 ^ 32" "page_count d * 4096 = unat (content_len d)" using data_ok_count [OF d] by auto
    have bnd: "?a < unat (content_len d)" using less.prems False by simp
    have "?a < 2 ^ 64" using bnd unsigned_less [of "content_len d", where ?'a = nat] by simp
    then have u: "unat (start + of_nat dn) = ?a"
      by (simp add: unat_word_ariths unsigned_of_nat take_bit_nat_eq_self)
    have p: "?p < page_count d" using bnd cnt(2) by (simp add: less_mult_imp_div_less)
    have off: "unat ((start + of_nat dn) mod 4096) = ?off"
      and pg: "unat ((start + of_nat dn) div 4096) = ?p"
      using u by (simp_all add: unat_mod unat_div)
    have k: "0 < ?k" "?off + ?k \<le> 4096" "dn + ?k \<le> n" using False less.prems(2) mod_less_divisor [of 4096 ?a] by auto
    have rest: "copy_loop d start (dn + ?k) n = Returns (take (n - (dn + ?k)) (drop (unat start + (dn + ?k)) (data_bytes d)))"
      by (rule less.hyps [OF rest_less [OF k(1)]]) (use less.prems False k(3) in auto)
    have piece: "take ?k (drop ?a (data_bytes d)) = take ?k (drop ?off (slot_content (page_slot_at d ?p)))"
      by (rule take_drop_page [OF p _ k(2)]) simp
    have split: "take (n - dn) (drop ?a (data_bytes d)) =
        take ?k (drop ?off (slot_content (page_slot_at d ?p))) @ take (n - (dn + ?k)) (drop (unat start + (dn + ?k)) (data_bytes d))"
      unfolding piece [symmetric] using k take_add [of ?k "n - (dn + ?k)" "drop ?a (data_bytes d)"] by (simp add: ac_simps)
    have "?p < 2 ^ 32" using p cnt by simp
    then consider "page_slot_at d ?p = Slot_Empty" | pr where "page_slot_at d ?p = Slot_Loaded pr" "length (pb_bytes pr) = 4096"
      using data_ok_slot_cases [OF d] by blast
    then show ?thesis
    proof cases
      case 1
      have "take ?k (drop ?off (slot_content (page_slot_at d ?p))) = replicate ?k 0" using k(2) by (simp add: 1 slot_content_def)
      then show ?thesis using False less.prems(2) rest
        by (subst copy_loop.simps) (simp add: page_at_def off pg 1 split Let_def PAGE_SIZE_cap_def)
    next
      case 2
      have "take ?k (drop ?off (slot_content (page_slot_at d ?p))) = take ?k (drop ?off (pb_bytes pr))" by (simp add: 2 slot_content_def)
      then show ?thesis using False less.prems(2) rest
        by (subst copy_loop.simps) (simp add: page_at_def off pg 2 split Let_def PAGE_SIZE_cap_def)
    qed
  qed
qed

lemma copy_into_reads:
  "data_ok D d \<Longrightarrow> unat start + n \<le> unat (content_len d) \<Longrightarrow>
   copy_into d start n = Returns (take n (drop (unat start) (data_bytes d)))"
  using copy_loop_reads [of D d start n 0] by (simp add: copy_into_def)

section \<open>Writing\<close>

lemma concat_update:
  assumes c: "\<And>i. length (f i) = c" "length x = c" and p: "p < n"
  shows "concat (map (f(p := x)) [0..<n]) = write_slice (concat (map f [0..<n])) (p * c) x"
proof -
  have split: "[0..<n] = [0..<p] @ p # [Suc p..<n]"
    using p by (metis less_imp_le_nat plus_nat.add_0 upt_add_eq_append upt_conv_Cons zero_le le_Suc_ex)
  have l: "length (concat (map f [0..<p])) = p * c" by (rule length_concat_const [OF c(1)])
  have "map (f(p := x)) [0..<p] = map f [0..<p]" "map (f(p := x)) [Suc p..<n] = map f [Suc p..<n]" by auto
  then show ?thesis using l c by (simp add: split write_slice_def)
qed

lemma data_bytes_update:
  assumes p: "p < page_count d" and n: "page_count d' = page_count d" and l: "length x = 4096"
    and f: "\<And>i. i < page_count d \<Longrightarrow> slot_content (page_slot_at d' i) = (if i = p then x else slot_content (page_slot_at d i))"
  shows "data_bytes d' = write_slice (data_bytes d) (p * 4096) x"
proof -
  have eq: "map (\<lambda>i. slot_content (page_slot_at d' i)) [0..<page_count d] = map ((\<lambda>i. slot_content (page_slot_at d i))(p := x)) [0..<page_count d]"
    using f by auto
  show ?thesis unfolding data_bytes_def n eq by (rule concat_update [OF _ l p]) simp
qed

text \<open>An overlay page shadows the page of the backing.\<close>

lemma overlay_write:
  assumes d: "data_ok D d" and p: "unat p < page_count d" and pr: "length (pb_bytes pr) = 4096"
  defines "d' \<equiv> insert_overlay_page p (Slot_Loaded pr) d"
  shows "data_ok D d'" "data_bytes d' = write_slice (data_bytes d) (unat p * 4096) (pb_bytes pr)"
proof -
  have n: "page_count d' = page_count d" by (simp add: d'_def insert_overlay_page_def page_count_def)
  have "(q, s) \<in> set (bt_insert p x t) \<Longrightarrow> (q, s) = (p, x) \<or> (q, s) \<in> set t" for q s x and t :: "(u32, page_slot) btree"
    by (induction p x t rule: bt_insert.induct) (auto split: if_splits)
  then show ok: "data_ok D d'" using d p pr n unfolding data_ok_def d'_def insert_overlay_page_def page_count_def by fastforce
  show "data_bytes d' = write_slice (data_bytes d) (unat p * 4096) (pb_bytes pr)"
  proof (rule data_bytes_update [OF p n pr])
    fix i assume "i < page_count d"
    then have i: "i < 2 ^ 32" using data_ok_count [OF d] by simp
    have "page_slot_at d' i = (if i = unat p then Slot_Loaded pr else page_slot_at d i)"
      using of_nat32_eq [OF i, of p] by (simp add: page_slot_at_def d'_def insert_overlay_page_def bt_get_insert split: option.split page_slot.split)
    then show "slot_content (page_slot_at d' i) = (if i = unat p then pb_bytes pr else slot_content (page_slot_at d i))"
      using pr by (simp add: slot_content_def)
  qed
qed

lemma write_page_overlay:
  assumes d: "data_ok D d" and ofs: "ofs < content_len d"
  shows "write_page D ofs content d = insert_overlay_page (of_nat (unat ofs div 4096)) (Slot_Loaded (from_content D content)) d"
    and "unat ofs div 4096 < page_count d"
proof -
  show "unat ofs div 4096 < page_count d"
    using data_ok_count [OF d] ofs unat_mono [OF ofs] by (simp add: less_mult_imp_div_less)
  have "(ucast (ofs div 4096) :: u32) = of_nat (unat ofs div 4096)"
    by (simp add: word_unat_eq_iff unsigned_ucast_eq unsigned_of_nat unat_div)
  then show "write_page D ofs content d = insert_overlay_page (of_nat (unat ofs div 4096)) (Slot_Loaded (from_content D content)) d"
    by (simp add: write_page_def insert_overlay_page_def page_size_word)
qed

section \<open>Building\<close>

lemma put_page_slab:
  assumes s: "wf_slab D s" and p: "p < slab_page_count s" and l: "length content \<le> 4096"
  defines "s' \<equiv> put_page_idx D p content s"
  shows "wf_slab D s'" "slab_page_count s' = slab_page_count s"
    "data_bytes \<lparr>backing = s', overlay = []\<rparr> = write_slice (data_bytes \<lparr>backing = s, overlay = []\<rparr>) (p * 4096) (page_buffer content)"
proof -
  have up: "slab_page s' = (slab_page s)(p := content_slot D content)"
    by (simp add: s'_def put_page_idx_def slab_page_nth page_nth_set_page)
  have sz: "slab_size s' = slab_size s" by (simp add: s'_def put_page_idx_def)
  show n: "slab_page_count s' = slab_page_count s" by (simp add: slab_page_count_def sz)
  have "trim_empty (slab_pages s') = slab_pages s'" by (simp add: s'_def put_page_idx_def)
  then show "wf_slab D s'" using s p l by (simp add: wf_slab_def up sz n content_slot_canonical)
  show "data_bytes \<lparr>backing = s', overlay = []\<rparr> = write_slice (data_bytes \<lparr>backing = s, overlay = []\<rparr>) (p * 4096) (page_buffer content)"
    by (rule data_bytes_update) (use p n l up in \<open>auto simp: page_count_def page_slot_at_def bt_get_def slot_content_content_slot\<close>)
qed

lemma round_up_eq: "r < m \<Longrightarrow> m * q + r = w \<Longrightarrow> w + (m - r) = m * (q + 1)" for m :: nat
  by auto

lemma extent_ok:
  fixes w :: u64
  assumes "w \<le> 2 ^ 43"
  defines "s \<equiv> max (next_multiple_of_u64 w (of_nat PAGE_SIZE_cap)) (of_nat PAGE_SIZE_cap)"
  shows "unat s mod 4096 = 0" "0 < s" "s < 2 ^ 44" "w \<le> s"
proof -
  have w: "unat w \<le> 2 ^ 43" using assms(1) by (simp add: word_le_nat_alt)
  let ?r = "unat w mod 4096"
  have r: "unat (w mod 4096) = ?r" by (simp add: unat_mod)
  have rl: "?r < 4096" by simp
  have u: "unat (next_multiple_of_u64 w (of_nat PAGE_SIZE_cap)) = (if ?r = 0 then unat w else unat w + (4096 - ?r))"
  proof (cases "?r = 0")
    case True
    then have "w mod 4096 = 0" using r by (simp add: unat_eq_zero)
    then show ?thesis using True by (simp add: next_multiple_of_u64_def page_size_word)
  next
    case False
    then have "w mod 4096 \<noteq> 0" using r by (metis unsigned_0)
    moreover have "unat (4096 - w mod 4096) = 4096 - ?r"
      using r by (subst unat_sub) (simp_all add: word_le_nat_alt)
    ultimately show ?thesis using False w by (simp add: next_multiple_of_u64_def page_size_word unat_word_ariths)
  qed
  have us: "unat s = max (if ?r = 0 then unat w else unat w + (4096 - ?r)) 4096"
    unfolding s_def using u by (simp add: max_def word_le_nat_alt page_size_word)
  have "(unat w + (4096 - ?r)) mod 4096 = 0" if "?r \<noteq> 0"
  proof -
    have "unat w + (4096 - ?r) = 4096 * (unat w div 4096 + 1)"
      by (rule round_up_eq [OF rl mult_div_mod_eq])
    then show ?thesis by simp
  qed
  then show "unat s mod 4096 = 0" unfolding us by (auto simp: max_def)
  have "unat s < 2 ^ 44" "0 < unat s" using us w by auto
  then show "s < 2 ^ 44" "0 < s" by (simp_all add: word_less_nat_alt unat_gt_0)
  show "w \<le> s" using us by (auto simp: word_le_nat_alt)
qed

lemma wf_slab_zero:
  "unat sz mod 4096 = 0 \<Longrightarrow> 0 < sz \<Longrightarrow> sz < 2 ^ 44 \<Longrightarrow> wf_slab D \<lparr>slab_size = sz, slab_pages = []\<rparr>"
  by (simp add: wf_slab_def slab_page_def canonical_slot_def trim_empty_def)

lemma data_ok_clean: "wf_slab D s \<Longrightarrow> data_ok D \<lparr>backing = s, overlay = []\<rparr>"
  by (simp add: data_ok_def)

lemma clean_from_contents:
  "wf_slab D s \<Longrightarrow> slab_from_bytes_sized D (data_bytes \<lparr>backing = s, overlay = []\<rparr>) (slab_size s) = s"
  using flush_contents [OF data_ok_clean [of D s]] by (simp add: flush_def data_from_bytes_sized_def content_len_def)

lemma data_bytes_zero:
  "data_bytes \<lparr>backing = \<lparr>slab_size = sz, slab_pages = []\<rparr>, overlay = []\<rparr> = replicate (unat sz div 4096 * 4096) 0"
proof -
  have "concat (map (\<lambda>i. zero_page) [0..<n]) = replicate (n * 4096) 0" for n
    by (induction n) (simp_all add: replicate_add [symmetric] add.commute)
  then show ?thesis
    by (simp add: data_bytes_def page_count_def page_count_alt page_slot_at_def bt_get_def slab_page_def slot_content_def)
qed

lemma fold_put_pages:
  assumes "wf_slab D s" "\<forall>(p, c) \<in> set pages. unat p < slab_page_count s \<and> length c \<le> 4096"
  shows "wf_slab D (fold (\<lambda>(p, c). put_page_idx D (unat p) c) pages s) \<and>
    slab_size (fold (\<lambda>(p, c). put_page_idx D (unat p) c) pages s) = slab_size s \<and>
    data_bytes \<lparr>backing = fold (\<lambda>(p, c). put_page_idx D (unat p) c) pages s, overlay = []\<rparr> =
      fold (\<lambda>(p, c) bs. write_slice bs (unat p * 4096) (page_buffer c)) pages (data_bytes \<lparr>backing = s, overlay = []\<rparr>)"
  using assms
proof (induction pages arbitrary: s)
  case (Cons pc pages)
  obtain p c where pc: "pc = (p, c)" "unat p < slab_page_count s" "length c \<le> 4096" using Cons.prems(2) by auto
  note put = put_page_slab [OF Cons.prems(1) pc(2,3)]
  have "slab_size (put_page_idx D (unat p) c s) = slab_size s" by (simp add: put_page_idx_def)
  then show ?case using Cons.IH [OF put(1)] Cons.prems(2) put pc(1) by simp
qed simp

lemma slab_from_bytes_ok:
  assumes "at_least \<le> 2 ^ 43" "length content \<le> 2 ^ 43"
  shows "wf_slab D (slab_from_bytes_sized D content at_least)" 
    and "unat at_least \<le> unat (slab_size (slab_from_bytes_sized D content at_least))"
    and "length content \<le> unat (slab_size (slab_from_bytes_sized D content at_least))"
proof -
  let ?w = "max at_least (of_nat (length content)) :: u64"
  have l: "unat (of_nat (length content) :: u64) = length content"
    using assms(2) by (simp only: unsigned_of_nat) (simp add: take_bit_nat_eq_self)
  have w: "?w \<le> 2 ^ 43" using assms l by (simp add: word_le_nat_alt)
  let ?s = "slab_from_bytes_sized D content at_least"
  have sz: "slab_size ?s = max (next_multiple_of_u64 ?w (of_nat PAGE_SIZE_cap)) (of_nat PAGE_SIZE_cap)"
    by (simp add: slab_from_bytes_sized_def Let_def)
  note e = extent_ok [OF w, folded sz]
  then show "unat at_least \<le> unat (slab_size ?s)" "length content \<le> unat (slab_size ?s)"
    using l by (auto simp: word_le_nat_alt max_def split: if_splits)
  have pg: "slab_page ?s i = (if i < slab_page_count ?s then content_slot D (page_slice content i) else Slot_Empty)" for i
    by (simp add: slab_from_bytes_sized_def Let_def slab_page_nth page_nth_map slab_page_count_def)
  moreover have "canonical_slot D (content_slot D (page_slice content i))" for i
    by (rule content_slot_canonical) (simp add: page_slice_def PAGE_SIZE_cap_def Let_def)
  moreover have "trim_empty (slab_pages ?s) = slab_pages ?s" by (simp add: slab_from_bytes_sized_def Let_def)
  ultimately show "wf_slab D ?s" using e by (simp add: wf_slab_def canonical_slot_def)
qed

text \<open>C31: A data cap behaves as an array of bytes. \<open>copy_into\<close> reads any range of it; \<open>write_page\<close> replaces one page
  and keeps the cap well formed; and \<open>flush\<close> settles it to the very cap that \<open>from_bytes_sized\<close> builds from its contents,
  so that the settled cap, and with it the content hash, depends on the bytes alone and not on the order of the writes.\<close>

theorem data_cap_settles:
  assumes "data_ok D d"
  shows "(\<forall>start n. unat start + n \<le> unat (content_len d) \<longrightarrow> copy_into d start n = Returns (take n (drop (unat start) (data_bytes d)))) \<and>
    (\<forall>ofs content. ofs < content_len d \<longrightarrow>
       data_ok D (write_page D ofs content d) \<and>
       data_bytes (write_page D ofs content d) = write_slice (data_bytes d) (unat ofs div 4096 * 4096) (page_buffer content)) \<and>
    flush D d = Returns (data_from_bytes_sized D (data_bytes d) (content_len d))"
proof (intro conjI allI impI)
  fix ofs content assume "ofs < content_len d"
  note w = write_page_overlay [OF assms this]
  have "unat ofs div 4096 < 2 ^ 32" using w(2) data_ok_count [OF assms] by simp
  then have u: "unat (of_nat (unat ofs div 4096) :: u32) = unat ofs div 4096" by simp
  note ow = overlay_write [OF assms, of "of_nat (unat ofs div 4096)" "from_content D content", unfolded u]
  show "data_ok D (write_page D ofs content d)"
    and "data_bytes (write_page D ofs content d) = write_slice (data_bytes d) (unat ofs div 4096 * 4096) (page_buffer content)"
    using ow w by (simp_all add: from_content_def)
qed (use copy_into_reads [OF assms] flush_contents [OF assms] in auto)

definition one_page_cap :: data_cap where
  "one_page_cap = data_from_bytes_sized (\<lambda>_. replicate 32 0) [7] 1"

lemma one_page_cap_ok: "data_ok (\<lambda>_. replicate 32 0) one_page_cap"
  unfolding one_page_cap_def data_from_bytes_sized_def by (intro data_ok_clean slab_from_bytes_ok(1)) simp_all

theorem data_cap_settles_witness:
  "data_ok (\<lambda>_. replicate 32 0) one_page_cap \<and> content_len one_page_cap = 4096 \<and>
   copy_into one_page_cap 0 2 = Returns (take 2 (data_bytes one_page_cap)) \<and>
   flush (\<lambda>_. replicate 32 0) one_page_cap = Returns (data_from_bytes_sized (\<lambda>_. replicate 32 0) (data_bytes one_page_cap) 4096)"
proof -
  have l: "content_len one_page_cap = 4096"
    by (simp add: one_page_cap_def data_from_bytes_sized_def content_len_def slab_from_bytes_sized_def next_multiple_of_u64_def
        PAGE_SIZE_cap_def Let_def)
  show ?thesis using data_cap_settles [OF one_page_cap_ok] one_page_cap_ok l by (auto dest: spec [of _ 0])
qed

text \<open>C32: The two constructors agree: building a cap from named pages gives the cap, and so the hash, that building it from
  the contiguous bytes gives, whatever the order of the pages and with later pages over earlier ones.\<close>

theorem sparse_eq_contiguous:
  assumes "unat sz mod 4096 = 0" "0 < sz" "sz < 2 ^ 44"
    and "\<forall>(p, c) \<in> set pages. unat p * 4096 < unat sz \<and> length c \<le> 4096"
  shows "data_from_sparse_pages D sz pages =
    data_from_bytes_sized D (fold (\<lambda>(p, c) bs. write_slice bs (unat p * 4096) (page_buffer c)) pages (replicate (unat sz) 0)) sz"
proof -
  let ?z = "\<lparr>slab_size = sz, slab_pages = []\<rparr>"
  have n: "slab_page_count ?z = unat sz div 4096" by (simp add: page_count_alt)
  have "unat p < unat sz div 4096" if "unat p * 4096 < unat sz" for p :: u32
  proof -
    have "4096 * (unat sz div 4096) = unat sz" using assms(1) by (simp add: mod_eq_0_iff_dvd)
    then show ?thesis using that by simp
  qed
  then have "\<forall>(p, c) \<in> set pages. unat p < slab_page_count ?z \<and> length c \<le> 4096" using assms(4) n by auto
  note f = fold_put_pages [OF wf_slab_zero [OF assms(1-3), of D] this]
  have "slab_from_sparse_pages D sz pages = fold (\<lambda>(p, c). put_page_idx D (unat p) c) pages ?z"
    using sized_exact [OF assms(1,2)] by (simp add: slab_from_sparse_pages_def Let_def)
  moreover have "data_bytes \<lparr>backing = ?z, overlay = []\<rparr> = replicate (unat sz) 0"
    using assms(1) by (simp add: data_bytes_zero dvd_div_mult_self mod_eq_0_iff_dvd)
  ultimately show ?thesis
    using clean_from_contents [OF conjunct1 [OF f]] f by (simp add: data_from_sparse_pages_def data_from_bytes_sized_def)
qed

theorem sparse_eq_contiguous_witness:
  "data_from_sparse_pages (\<lambda>_. replicate 32 0) 8192 [(1, [5]), (0, [0, 3]), (1, [0])] =
   data_from_bytes_sized (\<lambda>_. replicate 32 0) (fold (\<lambda>(p, c) bs. write_slice bs (unat p * 4096) (page_buffer c)) [(1 :: u32, [5]), (0, [0, 3]), (1, [0])]
     (replicate (unat (8192 :: u64)) 0)) 8192"
  by (rule sparse_eq_contiguous) simp_all

text \<open>The overlay pages of the recompiler carry a zero in place of their hash. Placed by \<open>place_shared\<close> into another
  backing before they are flushed, such a page makes the root of the cap that of an all-zero one.\<close>

lemma unhashed_page_root: "slot_root (Slot_Loaded (from_page_copy_unhashed src)) = slot_root Slot_Empty"
  by (simp add: slot_root_def from_page_copy_unhashed_def)

end
