(* ===== verification/Kernel_Frame_Laws.thy ===== *)
theory Kernel_Frame_Laws
  imports Kernel_Frame Task_Laws Ssz_Laws Data_Cap_Laws
begin

text \<open>
  Laws of the frames of the guest kernel: a resident cnode stays sorted at every depth, a frame keeps its cnode resident and
  the slots it has reserved empty, and every operation within a frame, and the building of a frame, either succeeds
  with a well-formed frame, reports an error of its own, or panics on an elided page.
\<close>

section \<open>Errors\<close>

named_theorems kernel_errors \<open>the error codes of the kernel\<close>

lemmas [kernel_errors] =
  ERR_TASK_BOOKKEEPING_def ERR_INSTANCE_NOT_FOUND_def ERR_INSTANCE_KIND_def ERR_IMAGE_NOT_FOUND_def ERR_IMAGE_KIND_def
  ERR_ENDPOINT_OOB_def ERR_DERIVE_SLOT_OOB_def ERR_HOST_CALL_SLOT_EMPTY_def ERR_JIT_FAILED_def ERR_DEPTH_LIMIT_def
  ERR_MAP_BAD_KIND_def ERR_YIELD_UNHANDLED_def ERR_YIELD_BAD_SENDER_def ERR_GAS_SLOT_EMPTY_def ERR_GAS_SLOT_INVALID_def

lemma safe_elided [simp]: "safe Q (elided r) = (\<forall>x. r = Returns x \<longrightarrow> Q x)"
  by (cases r) (simp_all add: elided_def)

section \<open>Resident cnodes\<close>

text \<open>Every resident cnode below a cap is sorted.\<close>

function cached_ok :: "cached_cap \<Rightarrow> bool" and cnode_ok :: "cached_cap cnode \<Rightarrow> bool" where
  "cached_ok (CachedCap c ca) = (case ca of
     Cache_CNode cn \<Rightarrow> cnode_ok cn
   | Cache_Instance rt (Some cn) \<Rightarrow> cnode_ok cn
   | _ \<Rightarrow> True)"
| "cnode_ok cn = (wf_bt cn \<and> (\<forall>e \<in> set cn. case snd e of Materialized (Ref_Owned b) \<Rightarrow> cached_ok b | _ \<Rightarrow> True))"
  by pat_completeness auto
termination
proof (relation "measure (case_sum size (cnode_size size))", goal_cases)
  case (4 cn e t b)
  have "size b < size_prod (\<lambda>_. 0) (size_missing_or (size_cap_ref size)) e" using 4(2,3) by (subst prod.collapse [symmetric]) simp
  also have "\<dots> \<le> size_list (size_prod (\<lambda>_. 0) (size_missing_or (size_cap_ref size))) cn"
    using 4(1) by (induction cn) auto
  finally show ?case by (simp add: cnode_size_def)
qed (auto simp: cnode_size_def)

declare cnode_ok.simps [simp del]

lemma cached_ok_new [simp]: "cached_ok (cached_new c)"
  by (simp add: cached_new_def)

lemma cached_ok_cnode [simp]: "cached_ok (cached_cnode cn) = cnode_ok cn"
  by (simp add: cached_cnode_def)

lemma cnode_ok_Nil [simp]: "cnode_ok []"
  by (simp add: cnode_ok.simps)

definition target_ok :: "cached_cap cap_ref \<Rightarrow> bool" where
  "target_ok t = (case t of Ref_Owned b \<Rightarrow> cached_ok b | Ref_Hash _ \<Rightarrow> True)"

definition value_ok :: "cached_cap cap_ref missing_or \<Rightarrow> bool" where
  "value_ok v = (case v of Materialized t \<Rightarrow> target_ok t | Missing _ \<Rightarrow> True)"

lemma target_ok_simps [simp]: "target_ok (Ref_Hash h)" "target_ok (Ref_Owned b) = cached_ok b"
  by (simp_all add: target_ok_def)

lemma value_ok_simps [simp]: "value_ok (Missing h)" "value_ok (Materialized t) = target_ok t"
  by (simp_all add: value_ok_def)

lemma cnode_ok_iff: "cnode_ok cn \<longleftrightarrow> wf_bt cn \<and> (\<forall>e \<in> set cn. value_ok (snd e))"
  by (subst cnode_ok.simps) (auto simp: value_ok_def target_ok_def split: missing_or.splits cap_ref.splits)

lemma bt_insert_subset: "set (bt_insert k v t) \<subseteq> insert (k, v) (set t)"
  by (induction k v t rule: bt_insert.induct) auto

lemma bt_remove_subset: "set (bt_remove k t) \<subseteq> set t"
  by (induction k t rule: bt_remove.induct) auto

lemma slots_refine:
  assumes "cnode_ok cn"
  shows "slots_get cn k = bt_get cn k" "slots_insert k v cn = (bt_insert k v cn, bt_get cn k)"
    "slots_remove k cn = (bt_remove k cn, bt_get cn k)"
  using sv_refines [of cn] assms by (simp_all add: cnode_ok_iff slots_get_def slots_insert_def slots_remove_def)

lemma cnode_ok_insert: "cnode_ok cn \<Longrightarrow> value_ok v \<Longrightarrow> cnode_ok (fst (slots_insert k v cn))"
  using bt_insert_subset [of k v cn] by (auto simp: slots_refine) (auto simp: cnode_ok_iff)

lemma cnode_ok_remove: "cnode_ok cn \<Longrightarrow> cnode_ok (fst (slots_remove k cn))"
  using bt_remove_subset [of k cn] by (auto simp: slots_refine) (auto simp: cnode_ok_iff)

lemma cnode_ok_get: "cnode_ok cn \<Longrightarrow> slots_get cn k = Some v \<Longrightarrow> value_ok v"
  by (auto simp: slots_refine bt_get_def) (auto simp: cnode_ok_iff dest!: map_of_SomeD)

lemma peek_ok: "cnode_ok cn \<Longrightarrow> peek_key cn k = Some t \<Longrightarrow> target_ok t"
  using cnode_ok_get [of cn k] by (auto simp: peek_key_def materialized_def split: option.splits missing_or.splits)

text \<open>The set and take operations of a cnode.\<close>

lemma set_key_ok:
  assumes "cnode_ok cn" "\<And>t. target = Some t \<Longrightarrow> target_ok t"
  shows "cnode_ok (fst (set_key k target cn))" "snd (set_key k target cn) = peek_key cn k"
    "peek_key (fst (set_key k target cn)) k' = (if k' = k then target else peek_key cn k')"
proof -
  have ok: "cnode_ok (fst (set_key k target cn))"
    using assms cnode_ok_insert [of cn "Materialized (the target)" k] cnode_ok_remove [of cn k]
    by (cases target) (auto simp: set_key_def case_prod_beta Let_def)
  then show "cnode_ok (fst (set_key k target cn))" .
  show "snd (set_key k target cn) = peek_key cn k"
    using assms(1) by (cases target) (simp_all add: set_key_def peek_key_def slots_refine)
  have wf: "wf_bt cn" using assms(1) by (simp add: cnode_ok_iff)
  have "slots_get (fst (set_key k target cn)) k' =
      (if k' = k then map_option Materialized target else slots_get cn k')"
    using assms(1) ok wf
    by (cases target) (auto simp: set_key_def slots_refine bt_get_insert bt_get_remove)
  then show "peek_key (fst (set_key k target cn)) k' = (if k' = k then target else peek_key cn k')"
    by (cases target) (simp_all add: peek_key_def materialized_def)
qed

lemma cnode_set_key: "cnode_set k target cn = Inr (set_key k target cn)"
  by (simp add: cnode_set_def set_key_def case_prod_beta Let_def)

lemma copy_wire_ok:
  "target_ok (wire_target_to_cached t)"
  "cnode_ok dst \<Longrightarrow> cnode_ok (copy_wire_cnode_into_cached src dst)"
  by (induction t and src dst rule: wire_target_to_cached_copy_wire_cnode_into_cached.induct)
    (auto simp: cnode_ok_insert)


section \<open>Well-formed frames\<close>

text \<open>A running frame has its cnode resident, and the slots it has reserved for running children are empty, the
  scratchpad aside.\<close>

definition frame_ok :: "kernel_frame \<Rightarrow> bool" where
  "frame_ok f \<longleftrightarrow> (\<exists>cn. with_root_cnode f = KOk cn \<and> cnode_ok cn \<and>
     (\<forall>s \<in> pending_origins f. s \<noteq> SCRATCHPAD_SLOT \<longrightarrow> peek_key cn s = None))"

text \<open>An operation of a frame keeps it well formed, with its origin and its reservations.\<close>

definition frame_step :: "kernel_frame \<Rightarrow> kernel_frame \<Rightarrow> bool" where
  "frame_step f f' \<longleftrightarrow> frame_ok f' \<and> kf_origin f' = kf_origin f \<and> pending_origins f' = pending_origins f"

lemma frame_step_refl [simp]: "frame_step f f = frame_ok f"
  by (simp add: frame_step_def)

lemma frame_step_trans: "frame_step f g \<Longrightarrow> frame_step g h \<Longrightarrow> frame_step f h"
  by (simp add: frame_step_def)

lemma frame_step_ok: "frame_step f g \<Longrightarrow> frame_ok g"
  by (simp add: frame_step_def)

lemma frame_step_pending: "frame_step f g \<Longrightarrow> pending_origins g = pending_origins f"
  by (simp add: frame_step_def)

lemma frame_okE:
  assumes "frame_ok f"
  obtains cn where "with_root_cnode f = KOk cn" "cnode_ok cn"
    "\<And>s. s \<in> pending_origins f \<Longrightarrow> s \<noteq> SCRATCHPAD_SLOT \<Longrightarrow> peek_key cn s = None"
  using assms by (auto simp: frame_ok_def)

lemma put_root:
  assumes "with_root_cnode f = KOk cn"
  shows "with_root_cnode (put_root_cnode cn' f) = KOk cn'" "kf_origin (put_root_cnode cn' f) = kf_origin f"
    "pending_origins (put_root_cnode cn' f) = pending_origins f"
    "inst_regs (kf_instance (put_root_cnode cn' f)) = inst_regs (kf_instance f)"
    "kf_pinned (put_root_cnode cn' f) = kf_pinned f"
  using assms
  by (cases "kf_instance f"; force simp: with_root_cnode_def put_root_cnode_def split: cap_ref.splits cached_cap.splits cap_cache.splits)+

text \<open>Fields that the cnode does not depend on.\<close>

lemma instance_selectors [simp]:
  "root_cnode (set_regs rs i) = root_cnode i" "inst_regs (set_regs rs i) = rs" "inst_mem (set_regs rs i) = inst_mem i"
  "image_hash (set_regs rs i) = image_hash i" "image_hash_chain (set_regs rs i) = image_hash_chain i"
  "root_cnode (set_inst_pc p i) = root_cnode i" "inst_regs (set_inst_pc p i) = inst_regs i"
  "root_cnode (set_mem m i) = root_cnode i" "inst_regs (set_mem m i) = inst_regs i"
  "root_cnode (set_gas_remaining g i) = root_cnode i" "inst_regs (set_gas_remaining g i) = inst_regs i"
  by (cases i; simp)+

lemma with_root_cnode_cong: "root_cnode (kf_instance f) = root_cnode (kf_instance g) \<Longrightarrow> with_root_cnode f = with_root_cnode g"
  by (simp add: with_root_cnode_def)

lemma frame_step_fields:
  assumes "frame_ok f" "root_cnode (kf_instance g) = root_cnode (kf_instance f)"
    "kf_origin g = kf_origin f" "pending_origins g = pending_origins f"
  shows "frame_step f g"
  using assms with_root_cnode_cong [OF assms(2)] by (simp add: frame_step_def frame_ok_def)

lemma set_reg_step: "frame_ok f \<Longrightarrow> frame_step f (set_reg i v f)"
  by (rule frame_step_fields) (simp_all add: set_reg_def)

lemma set_pc_step: "frame_ok f \<Longrightarrow> frame_step f (f\<lparr>kf_instance := set_inst_pc p (kf_instance f)\<rparr>)"
  by (rule frame_step_fields) simp_all

section \<open>Slot operations\<close>

lemma frame_set_key:
  assumes f: "frame_ok f" and t: "\<And>t. target = Some t \<Longrightarrow> target_ok t"
    and k: "k \<notin> pending_origins f \<or> k = SCRATCHPAD_SLOT \<or> target = None"
  shows "safe (\<lambda>(old, f'). frame_step f f' \<and> (\<forall>t. old = Some t \<longrightarrow> target_ok t)) (frame_cnode_set_key f k target)"
proof -
  obtain cn where cn: "with_root_cnode f = KOk cn" "cnode_ok cn"
      "\<And>s. s \<in> pending_origins f \<Longrightarrow> s \<noteq> SCRATCHPAD_SLOT \<Longrightarrow> peek_key cn s = None"
    using f by (rule frame_okE) blast
  note sk = set_key_ok [OF cn(2) t, of target, simplified]
  have "frame_step f (put_root_cnode (fst (set_key k target cn)) f)"
    using f put_root [OF cn(1), of "fst (set_key k target cn)"] sk(1,3) [of k] cn(3) k by (auto simp: frame_step_def frame_ok_def)
  moreover have "\<forall>t. snd (set_key k target cn) = Some t \<longrightarrow> target_ok t" using sk(2) [of k] peek_ok [OF cn(2)] by simp
  ultimately show ?thesis by (simp add: frame_cnode_set_key_def with_root_cnode_mut_def cn(1) case_prod_beta)
qed

lemma frame_take_key:
  "frame_ok f \<Longrightarrow> safe (\<lambda>(old, f'). frame_step f f' \<and> (\<forall>t. old = Some t \<longrightarrow> target_ok t)) (frame_cnode_take_key f k)"
  using frame_set_key [of f None k] by (simp add: frame_cnode_take_key_def frame_cnode_set_key_def take_key_def [abs_def])

lemma frame_put:
  assumes "frame_ok f" "\<not> slot_write_blocked f slot"
  shows "safe (frame_step f) (frame_cnode_put f slot c)"
proof -
  have "slot \<notin> pending_origins f" using assms(2) by (simp add: slot_write_blocked_def slot_is_pending_def)
  then have "safe (\<lambda>(old, f'). frame_step f f' \<and> (\<forall>t. old = Some t \<longrightarrow> target_ok t))
      (frame_cnode_set_key f slot (Some (Ref_Owned (cached_new c))))"
    using frame_set_key [OF assms(1), of "Some (Ref_Owned (cached_new c))" slot] by simp
  moreover obtain cn where "with_root_cnode f = KOk cn" using assms(1) by (rule frame_okE)
  ultimately show ?thesis
    by (simp add: frame_cnode_put_def frame_cnode_set_def frame_cnode_set_key_def with_root_cnode_mut_def cnode_set_key case_prod_beta Let_def)
qed

lemma frame_step_blocked: "frame_step f g \<Longrightarrow> kf_pinned g = kf_pinned f \<Longrightarrow> slot_write_blocked g s = slot_write_blocked f s"
  by (simp add: slot_write_blocked_def slot_is_pending_def frame_step_def)

lemma frame_put_pinned:
  assumes "frame_ok f" "frame_cnode_put f slot c = KOk f'"
  shows "kf_pinned f' = kf_pinned f"
proof -
  obtain cn where cn: "with_root_cnode f = KOk cn" using assms(1) by (rule frame_okE)
  then have "f' = put_root_cnode (fst (set_key slot (Some (Ref_Owned (cached_new c))) cn)) f"
    using assms(2)
    by (simp add: frame_cnode_put_def frame_cnode_set_def with_root_cnode_mut_def cnode_set_key case_prod_beta Let_def)
  then show ?thesis using put_root(5) [OF cn] by simp
qed

lemma frame_peek: "frame_ok f \<Longrightarrow> safe (\<lambda>r. \<forall>t. r = Some t \<longrightarrow> target_ok t) (with_cnode_peek f slot)"
  by (erule frame_okE) (auto simp: with_cnode_peek_def peek_ok)

lemma frame_peek_guest: "frame_ok f \<Longrightarrow> safe (\<lambda>_. True) (with_cnode_peek_guest f slot)"
  by (erule frame_okE) (auto simp: with_cnode_peek_guest_def with_cnode_peek_def)

lemma frame_read_instance: "frame_ok f \<Longrightarrow> safe (\<lambda>_. True) (read_instance_cap E f slot)"
  by (erule frame_okE) (auto simp: read_instance_cap_def with_cnode_peek_def)

lemma frame_read_instance_guest: "frame_ok f \<Longrightarrow> safe (\<lambda>_. True) (read_instance_cap_guest E f slot)"
  by (erule frame_okE) (auto simp: read_instance_cap_guest_def read_instance_cap_def with_cnode_peek_def)

lemma distinct_remdups_adj: "sorted xs \<Longrightarrow> distinct (remdups_adj xs)"
  by (induction xs rule: remdups_adj.induct) (auto simp: less_le)

lemma normalize_sorted [simp]: "sorted_wrt (<) (normalize_keys ks)"
  by (simp add: normalize_keys_def strict_sorted_iff distinct_remdups_adj)

lemma frame_snapshot: "frame_ok f \<Longrightarrow> safe (\<lambda>r. \<forall>cs. r = Inr cs \<longrightarrow> sorted_wrt (<) cs) (snapshot_catch_set E f)"
  unfolding snapshot_catch_set_def
  by (auto split: option.splits cap.splits intro!: safe_bind [OF frame_read_instance_guest] safe_bind [where R = "\<lambda>_. True"]
      simp: frame_read_instance_guest)

lemma frame_head: "safe (\<lambda>_. True) (read_scratchpad_head f)"
  by (auto simp: read_scratchpad_head_def)

section \<open>Handles of short keys\<close>

lemma slot_reg_length [simp]: "length (slot_reg f i) = 1"
  by (simp add: slot_reg_def key_of_u8_def)

lemma unit_handle_short: "length k \<le> MAX_KEY_LEN \<Longrightarrow> \<exists>i. unit_handle H kind k = Returns i"
  by (simp add: unit_handle_def key_to_regs_def)

lemma unreached_handle: 
  assumes "length k \<le> MAX_KEY_LEN"
  shows "\<exists>i. unreached (gas_handle H k) = KOk i" "\<exists>i. unreached (quota_handle H k) = KOk i" "\<exists>i. unreached (yield_sender H k) = KOk i"
  using unit_handle_short [OF assms, of H KI_Gas] unit_handle_short [OF assms, of H KI_Quota]
    unit_handle_short [OF assms, of H KI_YieldSender]
  by (auto simp: gas_handle_def quota_handle_def yield_sender_def unreached_def)

lemma gas_meter_key_short: "gas_meter_key H i = Some k \<Longrightarrow> length k \<le> MAX_KEY_LEN"
  by (auto simp: gas_meter_key_def unit_handle_key_def key_from_regs_def split: if_splits)

section \<open>Gas scopes\<close>

definition gas_ok :: "frame_gas \<Rightarrow> bool" where
  "gas_ok g \<longleftrightarrow> (\<forall>k \<in> set (fg_meters g). length k \<le> MAX_KEY_LEN) \<and>
     (case fg_active g of None \<Rightarrow> fg_meters g = [] | Some i \<Rightarrow> i < length (fg_meters g))"

lemma gas_ok_host [simp]: "gas_ok host_budgeted"
  by (simp add: gas_ok_def host_budgeted_def)

lemma gas_ok_advance: "gas_ok g \<Longrightarrow> gas_ok (snd (gas_advance g))"
  by (auto simp: gas_ok_def gas_advance_def split: option.splits)

lemma gas_ok_reset: "gas_ok g \<Longrightarrow> gas_ok (reset_to_primary g)"
  by (auto simp: gas_ok_def reset_to_primary_def)

lemma gas_ok_primary: "gas_ok g \<Longrightarrow> primary_key g = Some k \<Longrightarrow> length k \<le> MAX_KEY_LEN"
  by (auto simp: gas_ok_def primary_key_def split: list.splits)

lemma collect_meters_ok:
  "frame_ok f \<Longrightarrow> \<forall>k \<in> set ms. length k \<le> MAX_KEY_LEN \<Longrightarrow>
   safe (\<lambda>ms. \<forall>k \<in> set ms. length k \<le> MAX_KEY_LEN) (collect_meters E f slots ms)"
proof (induction slots arbitrary: ms)
  case (Cons slot slots)
  have "safe (\<lambda>k. length k \<le> MAX_KEY_LEN) (gas_meter_key_from_ref E t)" for t
    unfolding gas_meter_key_from_ref_def
    by (rule safe_bind [where R = "\<lambda>_. True"])
      (auto simp: kernel_errors gas_meter_key_short split: cap_ref.splits option.splits cap.splits)
  then show ?case using Cons
    by (auto simp: kernel_errors split: option.splits intro!: safe_bind [OF frame_peek] safe_bind [where R = "\<lambda>k. length k \<le> MAX_KEY_LEN"])
qed simp

lemma resolve_gas_ok: "frame_ok f \<Longrightarrow> safe (\<lambda>g. \<forall>x. g = Some x \<longrightarrow> gas_ok x) (resolve_frame_gas E f)"
  unfolding resolve_frame_gas_def
  by (auto simp: kernel_errors gas_ok_def declared_def split: option.splits cap.splits intro!: safe_bind [OF collect_meters_ok])


section \<open>Building a frame\<close>

lemma cnode_set_hash: "cnode_ok cn \<Longrightarrow> cnode_ok (fst (set_key k (Some (Ref_Hash h)) cn))"
  by (rule set_key_ok) auto

lemma pin_slots_ok: "cnode_ok cn \<Longrightarrow> safe cnode_ok (pin_slots es cn)"
  by (induction es arbitrary: cn) (auto simp: cnode_set_key cnode_set_hash case_prod_beta)

lemma fill_slots_ok: "cnode_ok cn \<Longrightarrow> safe cnode_ok (fill_slots es cn)"
  by (induction es arbitrary: cn) (auto simp: cnode_set_key cnode_set_hash case_prod_beta)

lemma materialize_ok: "safe cnode_ok (materialize_root_cnode E r)"
  by (auto simp: materialize_root_cnode_def kernel_errors copy_wire_ok split: cap_ref.splits option.splits cap.splits)

definition fresh_frame :: "frame_origin option \<Rightarrow> kernel_frame \<Rightarrow> bool" where
  "fresh_frame origin f \<longleftrightarrow> frame_ok f \<and> kf_origin f = origin \<and> pending_origins f = {}"

lemma build_frame_inner_ok:
  assumes "\<And>cn. cached_root = Some cn \<Longrightarrow> cnode_ok cn"
  shows "safe (fresh_frame origin) (build_frame_inner E c cached_root origin endpoint_idx args)"
proof -
  have "safe cnode_ok (case cached_root of Some cn \<Rightarrow> KOk cn | None \<Rightarrow> materialize_root_cnode E (root_cnode c))"
    using assms materialize_ok by (auto split: option.splits)
  then show ?thesis
    by (auto simp: build_frame_inner_def kernel_errors split: option.splits cap.splits
        intro!: safe_bind [where R = cnode_ok] pin_slots_ok fill_slots_ok)
      (auto simp: fresh_frame_def frame_ok_def with_root_cnode_def cached_cnode_def)
qed

lemma build_published_ok: "safe (fresh_frame None) (build_frame_from_published E h endpoint_idx args)"
  by (auto simp: build_frame_from_published_def kernel_errors split: option.splits cap.splits intro!: build_frame_inner_ok)

lemma build_child_ok:
  assumes "target_ok target"
  shows "safe (fresh_frame (Some origin)) (build_child E target origin endpoint_idx args)"
proof (cases target)
  case (Ref_Hash h)
  then show ?thesis
    by (auto simp: build_child_def kernel_errors split: option.splits cap.splits intro!: build_frame_inner_ok)
next
  case (Ref_Owned b)
  obtain c ca where b: "b = CachedCap c ca" by (cases b)
  obtain rt rc where ca: "(case ca of Cache_Instance rt rc \<Rightarrow> (rt, rc) | _ \<Rightarrow> (None, None)) = (rt, rc)" by fastforce
  have "cnode_ok cn" if "rc = Some cn" for cn
    using that assms ca Ref_Owned b by (auto split: cap_cache.splits)
  then have "safe (fresh_frame (Some origin)) (build_frame_from_owned E c rc origin endpoint_idx args)"
    by (auto simp: build_frame_from_owned_def kernel_errors split: cap.splits intro!: build_frame_inner_ok)
  moreover have "fresh_frame o' f \<Longrightarrow> fresh_frame o' (f\<lparr>kf_runtime := r\<rparr>)" for o' f r
    using with_root_cnode_cong [of "f\<lparr>kf_runtime := r\<rparr>" f] by (auto simp: fresh_frame_def frame_ok_def)
  ultimately show ?thesis
    by (auto simp: build_child_def Ref_Owned b ca split: option.splits intro!: safe_bind [where R = "fresh_frame (Some origin)"])
qed

section \<open>Operations within a frame\<close>

lemma safe_elided_bind: "(\<And>x. r = Returns x \<Longrightarrow> safe Q (f x)) \<Longrightarrow> safe Q (kbind (elided r) f)"
  by (cases r) (simp_all add: elided_def)

lemma derive_spawn_ok:
  "frame_ok f \<Longrightarrow> safe (\<lambda>(r, f'). frame_step f f') (dispatch_derive_spawn E f mc)"
  unfolding dispatch_derive_spawn_def Let_def
  by (auto simp: kernel_errors split: option.splits cap.splits prod.splits intro!: safe_bind [OF frame_peek_guest] safe_bind [OF frame_put])

lemma hash_chain_ok:
  assumes "frame_ok f"
  shows "safe (\<lambda>(r, f'). frame_step f f') (dispatch_image_hash_chain E f)"
proof -
  have put: "safe (\<lambda>(r, f'). frame_step f f') (kbind (frame_cnode_put f slot (data_inline (env_digest E) c)) (\<lambda>f'. KOk (False, f')))"
    if "\<not> slot_write_blocked f slot" for c slot
    using assms that by (auto intro!: safe_bind [OF frame_put])
  show ?thesis unfolding dispatch_image_hash_chain_def Let_def
    by (auto simp: assms kernel_errors put split: cap.splits cap_ref.splits option.splits intro!: safe_bind [OF frame_peek_guest [OF assms]])
qed

lemma mint_unit_ok: "frame_ok f \<Longrightarrow> safe (\<lambda>(r, f'). frame_step f f') (mint_unit_handle f h)"
  unfolding mint_unit_handle_def Let_def by (auto intro!: safe_bind [OF frame_put])

lemma frame_put2:
  assumes "frame_ok f" "\<not> slot_write_blocked f s1" "\<not> slot_write_blocked f s2"
  shows "safe (frame_step f) (kbind (frame_cnode_put f s1 c1) (\<lambda>f. frame_cnode_put f s2 c2))"
proof (cases "frame_cnode_put f s1 c1")
  case (KOk f')
  then have f': "frame_step f f'" using frame_put [OF assms(1,2), of c1] by simp
  have "\<not> slot_write_blocked f' s2" using assms(3) frame_step_blocked [OF f'] frame_put_pinned [OF assms(1) KOk] by simp
  then have "safe (frame_step f') (frame_cnode_put f' s2 c2)" by (rule frame_put [OF frame_step_ok [OF f']])
  then show ?thesis using KOk f' by (auto intro: safe_mono frame_step_trans)
qed (use frame_put [OF assms(1,2), of c1] in auto)

lemma mint_yield_ok: "frame_ok f \<Longrightarrow> safe (\<lambda>(r, f'). frame_step f f') (mint_yield E f)"
  unfolding mint_yield_def Let_def
proof (simp, intro impI, elim conjE)
  assume f: "frame_ok f" and b: "\<not> slot_write_blocked f (slot_reg f 9)" "\<not> slot_write_blocked f (slot_reg f 10)"
  obtain i where i: "unreached (yield_sender (env_hash E) (slot_reg f 8)) = KOk i"
    using unreached_handle(3) [of "slot_reg f 8" "env_hash E"] by (auto simp: MAX_KEY_LEN_def)
  show "safe (\<lambda>(r, f'). frame_step f f') (kbind (unreached (yield_sender (env_hash E) (slot_reg f 8))) (\<lambda>sender.
        kbind (frame_cnode_put f (slot_reg f 9) (Cap_Instance sender)) (\<lambda>f'.
        kbind (frame_cnode_put f' (slot_reg f 10) (Cap_Instance (yield_receiver (env_digest E) (env_hash E) [slot_reg f 8]))) (\<lambda>f.
        KOk (Yield_Inline, f)))))"
    unfolding i by (simp flip: kbind_assoc) (rule safe_bind [OF frame_put2 [OF f b]], simp)
qed

lemma merge_receivers_ok: "frame_ok f \<Longrightarrow> safe (\<lambda>(r, f'). frame_step f f') (merge_receivers E f)"
  unfolding merge_receivers_def Let_def
  by (auto simp: kernel_errors split: option.splits
      intro!: safe_bind [OF frame_read_instance_guest] safe_elided_bind safe_bind [OF frame_put])

lemma host_yield_ok:
  assumes "frame_ok f"
  shows "safe (\<lambda>(r, f'). frame_step f f') (dispatch_host_yield E f g)"
proof -
  obtain h q where h: "unreached (gas_handle (env_hash E) (slot_reg f 8)) = KOk h"
      "unreached (quota_handle (env_hash E) (slot_reg f 8)) = KOk q"
    using unreached_handle(1,2) [of "slot_reg f 8" "env_hash E"] by (auto simp: MAX_KEY_LEN_def)
  have s: "frame_step f (snd (set_gas_meter f g))" using assms by (simp add: set_gas_meter_def set_reg_step case_prod_beta Let_def)
  note ops = mint_unit_ok [OF assms] mint_yield_ok [OF assms] merge_receivers_ok [OF assms]
  show ?thesis using assms s
    by (auto simp: dispatch_host_yield_def Let_def h case_prod_beta split: option.splits
        intro!: safe_bind [OF frame_read_instance_guest] safe_bind [OF ops(1)] safe_bind [OF ops(2)] safe_bind [OF ops(3)])
qed

lemma frame_cost_ok: "frame_ok f \<Longrightarrow> safe (\<lambda>_. True) (host_call_frame_cost E f)"
  unfolding host_call_frame_cost_def Let_def call_frame_cost_for_def
  by (auto simp: kernel_errors split: option.splits cap.splits cap_ref.splits
      intro!: safe_bind [OF frame_peek])

section \<open>CALL\<close>

lemma inherit_ok:
  "\<forall>e \<in> set inherited. value_ok (snd e) \<Longrightarrow> cnode_ok cn \<Longrightarrow> cnode_ok (inherit_into inherited cn)"
  unfolding inherit_into_def
  by (induction inherited arbitrary: cn) (auto simp: cnode_ok_insert)

lemma dispatch_host_call_ok:
  assumes "frame_ok p"
  shows "safe (\<lambda>(child, p'). case child of
      None \<Rightarrow> p' = p
    | Some c \<Rightarrow> slot_reg p 7 \<notin> pending_origins p \<and> frame_ok p' \<and> kf_origin p' = kf_origin p \<and>
        pending_origins p' = insert (slot_reg p 7) (pending_origins p) \<and>
        fresh_frame (Some \<lparr>fo_owner = o', fo_slot = slot_reg p 7\<rparr>) c) (dispatch_host_call E o' p)"
proof (cases "slot_is_pending p (slot_reg p 7)")
  case False
  let ?s = "slot_reg p 7"
  have np: "?s \<notin> pending_origins p" using False by (simp add: slot_is_pending_def)
  obtain cn where cn: "with_root_cnode p = KOk cn" "cnode_ok cn"
      "\<And>s. s \<in> pending_origins p \<Longrightarrow> s \<noteq> SCRATCHPAD_SLOT \<Longrightarrow> peek_key cn s = None"
    using assms by (rule frame_okE) blast
  define cn' where "cn' = fst (set_key ?s None cn)"
  define p' where "p' = put_root_cnode cn' p"
  have cn': "cnode_ok cn'" "\<And>s. peek_key cn' s = (if s = ?s then None else peek_key cn s)"
    using set_key_ok [OF cn(2), of None ?s] by (simp_all add: cn'_def)
  have tk: "frame_cnode_take_key p ?s = KOk (peek_key cn ?s, p')"
    using set_key_ok(2) [OF cn(2), of None ?s]
    by (simp add: frame_cnode_take_key_def with_root_cnode_mut_def cn(1) take_key_def p'_def cn'_def case_prod_beta)
  note p' = put_root [OF cn(1), of cn', folded p'_def]
  define p'' where "p'' = p'\<lparr>pending_origins := insert ?s (pending_origins p')\<rparr>"
  have w: "with_root_cnode p'' = KOk cn'" using p'(1) with_root_cnode_cong [of p'' p'] by (simp add: p''_def)
  have ok: "frame_ok p''" "kf_origin p'' = kf_origin p" "pending_origins p'' = insert ?s (pending_origins p)"
    using assms w cn' cn(3) p'(2-4) by (auto simp: frame_ok_def p''_def)
  have vals: "\<forall>e \<in> set (inherited_slots cn'). value_ok (snd e)"
    using cn'(1) by (auto simp: inherited_slots_def cnode_ok_iff)
  have inh: "safe (\<lambda>(_, c'). fresh_frame og c') (with_root_cnode_mut c (\<lambda>cn. (inherit_into (inherited_slots cn') cn, ())))"
    if fr: "fresh_frame og c" for og c
  proof -
    obtain cc where cc: "with_root_cnode c = KOk cc" "cnode_ok cc" using fr by (auto simp: fresh_frame_def frame_ok_def)
    show ?thesis using fr put_root [OF cc(1), of "inherit_into (inherited_slots cn') cc"] inherit_ok [OF vals cc(2)]
      by (auto simp: with_root_cnode_mut_def cc(1) fresh_frame_def frame_ok_def)
  qed
  show ?thesis
  proof (cases "peek_key cn ?s")
    case (Some t)
    note ch = build_child_ok [OF peek_ok [OF cn(2) Some], where origin = "\<lparr>fo_owner = o', fo_slot = ?s\<rparr>"]
    show ?thesis
      by (simp add: dispatch_host_call_def Let_def False tk Some flip: p''_def)
        (rule safe_bind [OF ch], simp add: w, rule safe_bind [OF inh], assumption, use ok np in \<open>auto\<close>)
  qed (simp add: dispatch_host_call_def Let_def False tk kernel_errors)
qed (simp add: dispatch_host_call_def Let_def)

end
