(* ===== verification/Call_Loop_Laws.thy ===== *)
theory Call_Loop_Laws
  imports Call_Loop Kernel_Frame_Laws
begin

text \<open>
  Laws of the Javm personality: the call stack stays well formed (\<open>stack_ok\<close>), the kernel does not break its own
  invariants whatever the guest does, and the contract of \<open>Task_Laws\<close> holds, so that its results carry over.
\<close>

section \<open>Well-formed call stacks\<close>

text \<open>The origins of the live frames, and the slots of frame \<open>j\<close> that they reserve.\<close>

definition origins :: "entry list \<Rightarrow> frame_origin list" where
  "origins st = List.map_filter entry_origin st"

definition reserved :: "entry list \<Rightarrow> nat \<Rightarrow> key set" where
  "reserved st j = fo_slot ` {og \<in> set (origins st). fo_owner og = j}"

definition instance_at :: "entry list \<Rightarrow> nat \<Rightarrow> bool" where
  "instance_at st i = (i < length st \<and> ent_kind (st ! i) \<noteq> Entry_Reference)"

text \<open>An instance entry stands for itself. The first one is the root, and every other one is owned by an instance
  below it, which holds a reserved slot for it. A reference stands for an instance below it. \<open>R j\<close> are the slots
  that frame \<open>j\<close> has reserved.\<close>

definition entry_ok :: "(nat \<Rightarrow> key set) \<Rightarrow> entry list \<Rightarrow> nat \<Rightarrow> bool" where
  "entry_ok R st i \<longleftrightarrow> gas_ok (meta_gas (ent_meta (st ! i))) \<and> sorted_wrt (<) (owner_catch_set (ent_meta (st ! i))) \<and>
     (case ent_kind (st ! i) of
        Entry_Instance f \<Rightarrow>
          ent_target (st ! i) = i \<and> frame_ok f \<and> pending_origins f = R i \<and>
          (case kf_origin f of
             None \<Rightarrow> i = 0 \<and> meta_owner (ent_meta (st ! i)) = None
           | Some og \<Rightarrow> meta_owner (ent_meta (st ! i)) = Some (fo_owner og) \<and> fo_owner og < i \<and> instance_at st (fo_owner og))
      | Entry_Reference \<Rightarrow> ent_target (st ! i) < i \<and> instance_at st (ent_target (st ! i)))"

definition shape_ok :: "(nat \<Rightarrow> key set) \<Rightarrow> entry list \<Rightarrow> bool" where
  "shape_ok R st \<longleftrightarrow> (\<forall>i < length st. entry_ok R st i)"

definition stack_ok :: "entry list \<Rightarrow> bool" where
  "stack_ok st \<longleftrightarrow> st \<noteq> [] \<and> distinct (origins st) \<and> shape_ok (reserved st) st"

lemma origins_simps [simp]:
  "origins [] = []" "origins (e # st) = (case entry_origin e of Some og \<Rightarrow> [og] | None \<Rightarrow> []) @ origins st"
  "origins (st @ st') = origins st @ origins st'"
  by (simp_all add: origins_def List.map_filter_def split: option.splits)

lemma set_origins: "set (origins st) = {og. \<exists>e \<in> set st. entry_origin e = Some og}"
  by (auto simp: origins_def List.map_filter_def) (metis (mono_tags, lifting) comp_apply image_eqI mem_Collect_eq option.sel option.simps(3))

lemma reserved_iff: "fo_slot og \<in> reserved st (fo_owner og) \<longleftrightarrow> og \<in> set (origins st)"
proof
  assume "fo_slot og \<in> reserved st (fo_owner og)"
  then obtain x where x: "x \<in> set (origins st)" "fo_owner x = fo_owner og" "fo_slot x = fo_slot og" by (auto simp: reserved_def)
  then have "x = og" by simp
  then show "og \<in> set (origins st)" using x(1) by simp
qed (auto simp: reserved_def)

lemma origins_cong:
  assumes "map entry_origin st = map entry_origin st'"
  shows "origins st = origins st'"
proof -
  have "List.map_filter entry_origin xs = List.map_filter id (map entry_origin xs)" for xs
    by (induction xs) (auto simp: List.map_filter_simps split: option.splits)
  then show ?thesis using assms by (simp add: origins_def)
qed

subsection \<open>Frames and their updates\<close>

lemma shape_okD:
  assumes "shape_ok R st" "i < length st"
  obtains (inst) f where "ent_kind (st ! i) = Entry_Instance f" "ent_target (st ! i) = i" "frame_ok f"
      "pending_origins f = R i"
    | (ref) "ent_kind (st ! i) = Entry_Reference" "ent_target (st ! i) < i" "instance_at st (ent_target (st ! i))"
proof -
  have "entry_ok R st i" using assms by (simp add: shape_ok_def)
  then show thesis using inst ref by (cases "ent_kind (st ! i)") (auto simp: entry_ok_def)
qed

lemma shape_gas: "shape_ok R st \<Longrightarrow> i < length st \<Longrightarrow> gas_ok (meta_gas (ent_meta (st ! i)))"
  by (simp add: shape_ok_def entry_ok_def)

lemma shape_target:
  assumes "shape_ok R st" "i < length st"
  obtains f where "ent_kind (st ! ent_target (st ! i)) = Entry_Instance f" "ent_target (st ! i) \<le> i" "frame_ok f"
    "pending_origins f = R (ent_target (st ! i))" "frame_at st i = KOk f" "ent_target (st ! ent_target (st ! i)) = ent_target (st ! i)"
proof (rule shape_okD [OF assms])
  assume r: "ent_kind (st ! i) = Entry_Reference" "ent_target (st ! i) < i" "instance_at st (ent_target (st ! i))"
  then have "ent_target (st ! i) < length st" using assms(2) by simp
  then show thesis
    by (cases rule: shape_okD [OF assms(1) \<open>ent_target (st ! i) < length st\<close>])
      (use r assms(2) that in \<open>auto simp: instance_at_def frame_at_def\<close>)
qed (use assms(2) that in \<open>auto simp: frame_at_def\<close>)

definition upd_frame :: "nat \<Rightarrow> kernel_frame \<Rightarrow> entry list \<Rightarrow> entry list" where
  "upd_frame t f st = st[t := (st ! t)\<lparr>ent_kind := Entry_Instance f\<rparr>]"

lemma upd_frame_nth:
  "upd_frame t f st ! i = (if i = t \<and> t < length st then (st ! t)\<lparr>ent_kind := Entry_Instance f\<rparr> else st ! i)"
  by (auto simp: upd_frame_def nth_list_update_neq) (metis list_update_beyond not_less)+

lemma upd_frame_simps [simp]:
  "length (upd_frame t f st) = length st"
  "ent_target (upd_frame t f st ! i) = ent_target (st ! i)"
  "ent_meta (upd_frame t f st ! i) = ent_meta (st ! i)"
  "instance_id (upd_frame t f st ! i) = instance_id (st ! i)"
  "t < length st \<Longrightarrow> ent_kind (upd_frame t f st ! i) = (if i = t then Entry_Instance f else ent_kind (st ! i))"
  "upd_frame t f st = [] \<longleftrightarrow> st = []"
  by (simp_all add: upd_frame_nth) (simp_all add: upd_frame_def)

lemma frame_at_mut_eq:
  assumes "ent_kind (st ! ent_target (st ! i)) = Entry_Instance f" "i < length st" "ent_target (st ! i) < length st"
  shows "frame_at_mut st i g = kbind (g f) (\<lambda>(r, f'). KOk (r, upd_frame (ent_target (st ! i)) f' st))"
  using assms by (simp add: frame_at_mut_def frame_at_def upd_frame_def Let_def)

lemma origins_upd:
  assumes "t < length st" "ent_kind (st ! t) = Entry_Instance f" "kf_origin f' = kf_origin f"
  shows "map entry_origin (upd_frame t f' st) = map entry_origin st"
  using assms by (intro nth_equalityI) (auto simp: entry_origin_def upd_frame_def nth_list_update)

lemma instance_at_upd: "t < length st \<Longrightarrow> instance_at st i \<Longrightarrow> instance_at (upd_frame t f' st) i"
  by (auto simp: instance_at_def)

lemma shape_upd:
  assumes "shape_ok R st" "t < length st" "ent_kind (st ! t) = Entry_Instance f" "kf_origin f' = kf_origin f" "frame_ok f'"
    "pending_origins f' = R' t" "\<And>j. j \<noteq> t \<Longrightarrow> R' j = R j"
  shows "shape_ok R' (upd_frame t f' st)"
proof -
  note ia = instance_at_upd [OF assms(2), of _ f']
  have "entry_ok R' (upd_frame t f' st) i" if "i < length st" for i
  proof -
    have e: "entry_ok R st i" using assms(1) that by (simp add: shape_ok_def)
    show ?thesis
    proof (cases "i = t")
      case True
      then show ?thesis using e assms(2-6) ia by (auto simp: entry_ok_def split: option.splits)
    next
      case False
      then show ?thesis using e assms(2,7) ia
        by (cases "ent_kind (st ! i)") (auto simp: entry_ok_def split: option.splits)
    qed
  qed
  then show ?thesis by (simp add: shape_ok_def)
qed

lemma reserved_origins: "origins st = origins st' \<Longrightarrow> reserved st = reserved st'"
  by (simp add: reserved_def [abs_def])

text \<open>The stack after an operation on one of its frames.\<close>

definition stack_like :: "(nat \<Rightarrow> key set) \<Rightarrow> entry list \<Rightarrow> entry list \<Rightarrow> bool" where
  "stack_like R st st' \<longleftrightarrow> shape_ok R st' \<and> map entry_origin st' = map entry_origin st \<and> length st' = length st \<and>
     (\<forall>i. ent_target (st' ! i) = ent_target (st ! i) \<and> ent_meta (st' ! i) = ent_meta (st ! i) \<and> (instance_at st i \<longrightarrow> instance_at st' i))"

lemma stack_like_refl: "shape_ok R st \<Longrightarrow> stack_like R st st"
  by (simp add: stack_like_def)

lemma stack_like_trans: "stack_like R st st' \<Longrightarrow> stack_like R' st' st'' \<Longrightarrow> stack_like R' st st''"
  by (simp add: stack_like_def)

lemma stack_like_ok:
  assumes "stack_ok st" "stack_like (reserved st) st st'"
  shows "stack_ok st'"
  using assms origins_cong [of st' st] reserved_origins [of st' st] by (auto simp: stack_ok_def stack_like_def)

lemma stack_upd:
  assumes "shape_ok R st" "t < length st" "ent_kind (st ! t) = Entry_Instance f" "kf_origin f' = kf_origin f" "frame_ok f'"
    "pending_origins f' = R' t" "\<And>j. j \<noteq> t \<Longrightarrow> R' j = R j"
  shows "stack_like R' st (upd_frame t f' st)"
  using shape_upd [OF assms] origins_upd [OF assms(2-4)] instance_at_upd [OF assms(2)] by (simp add: stack_like_def)

lemma stack_upd_step:
  assumes "shape_ok R st" "t < length st" "ent_kind (st ! t) = Entry_Instance f" "frame_step f f'"
  shows "stack_like R st (upd_frame t f' st)"
proof (rule stack_upd [OF assms(1-3)])
  have "entry_ok R st t" using assms(1,2) by (simp add: shape_ok_def)
  then show "pending_origins f' = R t" using assms(3,4) by (simp add: entry_ok_def frame_step_def)
qed (use assms(4) in \<open>auto simp: frame_step_def\<close>)

lemma frame_at_mut_gen:
  assumes "shape_ok R st" "i < length st" "P = (\<lambda>f. frame_ok f \<and> pending_origins f = R (ent_target (st ! i)))"
    "\<And>f. P f \<Longrightarrow> safe (\<lambda>(r, f'). frame_ok f' \<and> kf_origin f' = kf_origin f \<and> pending_origins f' = R' (ent_target (st ! i)) \<and> Q r) (op' f)"
    "\<And>j. j \<noteq> ent_target (st ! i) \<Longrightarrow> R' j = R j"
  shows "safe (\<lambda>(r, st'). stack_like R' st st' \<and> Q r) (frame_at_mut st i op')"
proof -
  obtain f where f: "ent_kind (st ! ent_target (st ! i)) = Entry_Instance f" "ent_target (st ! i) \<le> i" "frame_ok f"
      "pending_origins f = R (ent_target (st ! i))"
    by (rule shape_target [OF assms(1,2)])
  have t: "ent_target (st ! i) < length st" using f(2) assms(2) by simp
  have op: "safe (\<lambda>(r, f'). frame_ok f' \<and> kf_origin f' = kf_origin f \<and> pending_origins f' = R' (ent_target (st ! i)) \<and> Q r) (op' f)"
    using assms(3,4) f(3,4) by simp
  show ?thesis unfolding frame_at_mut_eq [OF f(1) assms(2) t]
    by (rule safe_bind [OF op]) (use stack_upd [OF assms(1) t f(1) _ _ _ assms(5)] in auto)
qed

lemma frame_at_mut_step:
  assumes "shape_ok R st" "i < length st" "\<And>f. frame_ok f \<Longrightarrow> safe (\<lambda>(r, f'). frame_step f f' \<and> Q r) (op' f)"
  shows "safe (\<lambda>(r, st'). stack_like R st st' \<and> Q r) (frame_at_mut st i op')"
proof (rule frame_at_mut_gen [OF assms(1,2) refl])
  fix f
  assume f: "frame_ok f \<and> pending_origins f = R (ent_target (st ! i))"
  show "safe (\<lambda>(r, f'). frame_ok f' \<and> kf_origin f' = kf_origin f \<and> pending_origins f' = R (ent_target (st ! i)) \<and> Q r) (op' f)"
    by (rule safe_mono [OF assms(3)]) (use f in \<open>auto simp: frame_step_def\<close>)
qed simp

lemma frame_at_ok: "shape_ok R st \<Longrightarrow> i < length st \<Longrightarrow> safe frame_ok (frame_at st i)"
  using shape_target [of R st i] by (metis safe_simps(1))

subsection \<open>Growing and shrinking the stack\<close>

lemma shape_append:
  assumes "shape_ok R st" "entry_ok R (st @ [e]) (length st)"
  shows "shape_ok R (st @ [e])"
proof -
  have "entry_ok R (st @ [e]) i" if "i < length st" for i
  proof -
    have "entry_ok R st i" using assms(1) that by (simp add: shape_ok_def)
    then show ?thesis using that
      by (cases "ent_kind (st ! i)") (auto simp: entry_ok_def nth_append instance_at_def split: option.splits)
  qed
  then show ?thesis using assms(2) by (simp add: shape_ok_def less_Suc_eq)
qed

lemma shape_take:
  assumes "shape_ok R st"
  shows "shape_ok R (take n st)"
proof -
  have "entry_ok R (take n st) i" if "i < length st" "i < n" for i
  proof -
    have "entry_ok R st i" using assms that by (simp add: shape_ok_def)
    then show ?thesis using that
      by (cases "ent_kind (st ! i)") (auto simp: entry_ok_def instance_at_def split: option.splits)
  qed
  then show ?thesis by (simp add: shape_ok_def)
qed

lemma shape_cong:
  assumes "shape_ok R st" "\<And>j. j < length st \<Longrightarrow> R' j = R j"
  shows "shape_ok R' st"
  using assms by (auto simp: shape_ok_def entry_ok_def split: entry_kind.splits)

lemma reserved_append: "reserved (st @ st') j = reserved st j \<union> reserved st' j"
  by (auto simp: reserved_def)

lemma push_reference:
  assumes "stack_ok st" "instance_at st t" "gas_ok (meta_gas m)" "owner_catch_set m = []"
  shows "stack_ok (st @ [\<lparr>ent_kind = Entry_Reference, ent_target = t, instance_id = iid, ent_meta = m\<rparr>])"
proof -
  let ?e = "\<lparr>ent_kind = Entry_Reference, ent_target = t, instance_id = iid, ent_meta = m\<rparr>"
  have o: "origins (st @ [?e]) = origins st" by (simp add: entry_origin_def)
  have "shape_ok (reserved st) (st @ [?e])"
    using assms by (intro shape_append) (auto simp: stack_ok_def entry_ok_def instance_at_def nth_append)
  then show ?thesis using assms(1) reserved_origins [OF o] unfolding stack_ok_def o by simp
qed

lemma push_instance:
  assumes "st \<noteq> []" "distinct (og # origins st)" "instance_at st (fo_owner og)"
    "shape_ok (\<lambda>j. reserved st j \<union> {s. s = fo_slot og \<and> j = fo_owner og}) st"
    "fresh_frame (Some og) f" "gas_ok g" "sorted_wrt (<) cs"
  shows "stack_ok (st @ [instance_with_meta f (length st) iid \<lparr>meta_owner = Some (fo_owner og), owner_catch_set = cs, meta_gas = g\<rparr>])"
proof -
  let ?e = "instance_with_meta f (length st) iid \<lparr>meta_owner = Some (fo_owner og), owner_catch_set = cs, meta_gas = g\<rparr>"
  let ?R = "\<lambda>j. reserved st j \<union> {s. s = fo_slot og \<and> j = fo_owner og}"
  have o: "origins (st @ [?e]) = origins st @ [og]" using assms(5) by (simp add: entry_origin_def instance_with_meta_def fresh_frame_def)
  have r: "reserved (st @ [?e]) = ?R"
    by (rule ext) (auto simp: reserved_def o simp del: origins_simps)
  have bound: "fo_owner o' < length st" if o': "o' \<in> set (origins st)" for o'
  proof -
    obtain i where i: "i < length st" "entry_origin (st ! i) = Some o'" using o' by (auto simp: set_origins in_set_conv_nth)
    have "entry_ok ?R st i" using assms(4) i(1) by (simp add: shape_ok_def)
    then show ?thesis using i by (auto simp: entry_ok_def entry_origin_def split: entry_kind.splits)
  qed
  have own: "fo_owner og < length st" using assms(3) by (simp add: instance_at_def)
  have "?R (length st) = {}" using own by (auto simp: reserved_def dest!: bound)
  then have "shape_ok ?R (st @ [?e])"
    using assms(3-7) own
    by (intro shape_append) (auto simp: entry_ok_def instance_with_meta_def fresh_frame_def instance_at_def nth_append)
  then show ?thesis using assms(2) unfolding stack_ok_def r o by simp
qed

lemma set_gas_stack:
  assumes "stack_ok st" "i < length st" "gas_ok g"
  shows "stack_ok (set_entry_gas i g st)" "length (set_entry_gas i g st) = length st"
    "ent_target (set_entry_gas i g st ! j) = ent_target (st ! j)" "instance_at (set_entry_gas i g st) j = instance_at st j"
proof -
  let ?st = "set_entry_gas i g st"
  have nth: "?st ! j = (if j = i then (st ! i)\<lparr>ent_meta := (ent_meta (st ! i))\<lparr>meta_gas := g\<rparr>\<rparr> else st ! j)" for j
    using assms(2) by (auto simp: set_entry_gas_def nth_list_update_neq)
  show len: "length ?st = length st" by (simp add: set_entry_gas_def)
  show "ent_target (?st ! j) = ent_target (st ! j)" by (simp add: nth)
  show ia: "instance_at ?st j = instance_at st j" for j by (simp add: nth instance_at_def len)
  have o: "origins ?st = origins st" by (intro origins_cong nth_equalityI) (auto simp: len nth entry_origin_def)
  have fields: "ent_kind (?st ! j) = ent_kind (st ! j)" "ent_target (?st ! j) = ent_target (st ! j)"
      "meta_owner (ent_meta (?st ! j)) = meta_owner (ent_meta (st ! j))"
      "owner_catch_set (ent_meta (?st ! j)) = owner_catch_set (ent_meta (st ! j))"
      "gas_ok (meta_gas (ent_meta (st ! j))) \<Longrightarrow> gas_ok (meta_gas (ent_meta (?st ! j)))" for j
    using assms(3) by (simp_all add: nth)
  have "entry_ok (reserved st) ?st j" if "j < length st" for j
  proof -
    have "entry_ok (reserved st) st j" using assms(1) that by (simp add: stack_ok_def shape_ok_def)
    then show ?thesis by (auto simp only: entry_ok_def fields ia)
  qed
  moreover have "?st \<noteq> []" using assms(2) by (auto simp: set_entry_gas_def)
  ultimately show "stack_ok ?st" using assms(1) reserved_origins [OF o] by (simp add: stack_ok_def shape_ok_def len o)
qed


subsection \<open>Dropping entries\<close>

lemma pop_reference:
  assumes "stack_ok st" "ent_target (last st) \<noteq> length st - 1"
  shows "stack_ok (butlast st)"
proof -
  let ?n = "length st - 1"
  have sh: "shape_ok (reserved st) st" "st \<noteq> []" using assms(1) by (auto simp: stack_ok_def)
  have l: "st ! ?n = last st" "butlast st = take ?n st" "?n < length st" using sh(2) by (auto simp: last_conv_nth butlast_conv_take)
  have "entry_ok (reserved st) st ?n" using sh(1) l(3) by (simp add: shape_ok_def)
  then have k: "ent_kind (last st) = Entry_Reference" "0 < ?n"
    using assms(2) l(1) by (auto simp: entry_ok_def split: entry_kind.splits)
  have "origins (butlast st @ [last st]) = origins (butlast st)" using k(1) by (simp add: entry_origin_def)
  then have o: "origins (butlast st) = origins st" using sh(2) by simp
  have "shape_ok (reserved st) (butlast st)" unfolding l(2) by (rule shape_take [OF sh(1)])
  moreover have "butlast st \<noteq> []" using k(2) by (cases st) auto
  ultimately show ?thesis using assms(1) reserved_origins [OF o] by (simp add: stack_ok_def o)
qed

lemma origin_owner:
  assumes "shape_ok R st" "og \<in> set (origins st)"
  shows "instance_at st (fo_owner og)"
proof -
  obtain i where i: "i < length st" "entry_origin (st ! i) = Some og" using assms(2) by (auto simp: set_origins in_set_conv_nth)
  have "entry_ok R st i" using assms(1) i(1) by (simp add: shape_ok_def)
  then show ?thesis using i by (auto simp: entry_ok_def entry_origin_def split: entry_kind.splits)
qed

lemma instance_target: "shape_ok R st \<Longrightarrow> instance_at st t \<Longrightarrow> ent_target (st ! t) = t"
  by (cases "ent_kind (st ! t)") (auto simp: shape_ok_def entry_ok_def instance_at_def)

lemma frame_unreserve:
  assumes "frame_ok f" "S \<subseteq> pending_origins f"
  shows "frame_ok (f\<lparr>pending_origins := S\<rparr>)"
  using assms with_root_cnode_cong [of "f\<lparr>pending_origins := S\<rparr>" f] by (auto simp: frame_ok_def)

lemma release_origins_ok:
  assumes "shape_ok R st" "\<forall>og \<in> set os. instance_at st (fo_owner og)"
  shows "safe (stack_like (\<lambda>j. R j - fo_slot ` {og \<in> set os. fo_owner og = j \<and> j < start}) st) (release_origins os start st)"
  using assms
proof (induction os arbitrary: R st)
  case (Cons og os)
  let ?t = "fo_owner og" and ?R = "\<lambda>S j. R j - fo_slot ` {og \<in> S. fo_owner og = j \<and> j < start}"
  have t: "?t < length st" "ent_target (st ! ?t) = ?t"
    using Cons.prems instance_target [of R st ?t] by (auto simp: instance_at_def)
  have r: "?R (set (og # os)) = (\<lambda>j. ?R {og} j - fo_slot ` {og \<in> set os. fo_owner og = j \<and> j < start})"
    by (rule ext) auto
  show ?case
  proof (cases "?t < start")
    case True
    have s: "safe (\<lambda>(_, st'). stack_like (?R {og}) st st' \<and> True)
        (frame_at_mut st ?t (\<lambda>f. KOk ((), f\<lparr>pending_origins := pending_origins f - {fo_slot og}\<rparr>)))"
      by (rule frame_at_mut_gen [OF Cons.prems(1) t(1) refl]) (use True t(2) in \<open>auto simp: frame_unreserve\<close>)
    show ?thesis unfolding r
      by (simp add: True, rule safe_bind [OF s], clarsimp, rule safe_mono [OF Cons.IH])
        (use Cons.prems(2) in \<open>auto simp: stack_like_def\<close>)
  next
    case False
    then have "?R (set (og # os)) = ?R (set os)" by (intro ext) auto
    then show ?thesis using False Cons by simp
  qed
qed (simp add: stack_like_refl)

lemma reserved_take:
  assumes "distinct (origins st)"
  shows "reserved (take n st) j = reserved st j - fo_slot ` {og \<in> set (origins (drop n st)). fo_owner og = j}"
proof -
  have st: "origins st = origins (take n st) @ origins (drop n st)" by (simp flip: origins_simps(3))
  then have "distinct (origins (take n st) @ origins (drop n st))" using assms by simp
  moreover have "og = og'" if "fo_owner og = fo_owner og'" "fo_slot og = fo_slot og'" for og og' :: frame_origin using that by simp
  ultimately have "fo_slot og \<noteq> fo_slot og'" if "og \<in> set (origins (take n st))" "og' \<in> set (origins (drop n st))"
      "fo_owner og = fo_owner og'" for og og' using that by (metis disjoint_iff distinct_append)
  then show ?thesis unfolding reserved_def st by auto
qed

lemma drop_entries:
  assumes "stack_ok st" "n \<le> length st" "0 < n"
  shows "safe (\<lambda>st'. stack_ok (take n st') \<and> length st' = length st \<and> (\<forall>i. ent_target (st' ! i) = ent_target (st ! i)) \<and>
      (\<forall>i. instance_at st i \<longrightarrow> instance_at st' i)) (release_pending_origins_for_dropped st n)"
proof -
  let ?os = "origins (drop n st)"
  have sh: "shape_ok (reserved st) st" "distinct (origins st)" using assms(1) by (auto simp: stack_ok_def)
  have sub: "set ?os \<subseteq> set (origins st)" by (metis append_take_drop_id origins_simps(3) set_append Un_upper2)
  have "stack_ok (take n st')" if l: "stack_like (\<lambda>j. reserved st j - fo_slot ` {og \<in> set ?os. fo_owner og = j \<and> j < n}) st st'" for st'
  proof -
    have tk: "origins (take n st') = origins (take n st)"
      using l by (intro origins_cong) (auto simp: stack_like_def simp flip: take_map)
    have "shape_ok (reserved (take n st')) (take n st')"
    proof (rule shape_cong [OF shape_take])
      show "shape_ok (\<lambda>j. reserved st j - fo_slot ` {og \<in> set ?os. fo_owner og = j \<and> j < n}) st'" using l by (simp add: stack_like_def)
    qed (simp add: reserved_origins [OF tk] reserved_take [OF sh(2)])
    moreover have "distinct (origins (take n st))"
      using sh(2) by (metis append_take_drop_id distinct_append origins_simps(3))
    ultimately show ?thesis using l assms by (auto simp: stack_ok_def tk stack_like_def)
  qed
  then show ?thesis unfolding release_pending_origins_for_dropped_def origins_def [symmetric]
    by (rule_tac safe_mono [OF release_origins_ok [OF sh(1)]]) (use origin_owner [OF sh(1)] sub in \<open>auto simp: stack_like_def\<close>)
qed


section \<open>Returning\<close>

lemma owned_back_ok:
  assumes "frame_ok f"
  shows "safe (\<lambda>r. case r of None \<Rightarrow> kf_origin f = None | Some (og, c) \<Rightarrow> kf_origin f = Some og \<and> cached_ok c) (owned_back E f)"
proof -
  obtain cn where "with_root_cnode f = KOk cn" "cnode_ok cn" using assms by (auto simp: frame_ok_def)
  then show ?thesis
    by (auto simp: owned_back_def resident_instance_to_cached_cap_def take_resident_root_cnode_def with_root_cnode_def
        split: option.splits cap_ref.splits cached_cap.splits cap_cache.splits)
qed

lemma restore_ok:
  assumes "shape_ok R st" "instance_at st (fo_owner og)" "fo_slot og \<in> R (fo_owner og)" "cached_ok c"
  shows "safe (stack_like (\<lambda>j. if j = fo_owner og then R j - {fo_slot og} else R j) st) (restore_instance_to_origin st og c)"
proof -
  let ?t = "fo_owner og" and ?R = "\<lambda>j. if j = fo_owner og then R j - {fo_slot og} else R j"
  have t: "?t < length st" "ent_target (st ! ?t) = ?t"
    using assms(2) instance_target [OF assms(1,2)] by (auto simp: instance_at_def)
  have "safe (\<lambda>(_, st'). stack_like ?R st st' \<and> True) (frame_at_mut st ?t (\<lambda>f.
      if fo_slot og \<notin> pending_origins f then KErr ERR_PENDING_ORIGIN_INVARIANT
      else frame_cnode_set_key (f\<lparr>pending_origins := pending_origins f - {fo_slot og}\<rparr>) (fo_slot og) (Some (Ref_Owned c))))"
  proof (rule frame_at_mut_gen [OF assms(1) t(1) refl])
    fix f
    assume f: "frame_ok f \<and> pending_origins f = R (ent_target (st ! ?t))"
    let ?f = "f\<lparr>pending_origins := pending_origins f - {fo_slot og}\<rparr>"
    have "safe (\<lambda>(old, f'). frame_step ?f f' \<and> (\<forall>t. old = Some t \<longrightarrow> target_ok t)) (frame_cnode_set_key ?f (fo_slot og) (Some (Ref_Owned c)))"
      using f assms(4) by (intro frame_set_key) (auto intro: frame_unreserve)
    then have "safe (\<lambda>(r, f'). frame_ok f' \<and> kf_origin f' = kf_origin f \<and> pending_origins f' = ?R ?t \<and> True)
        (frame_cnode_set_key ?f (fo_slot og) (Some (Ref_Owned c)))"
      by (rule safe_mono) (use f t(2) in \<open>auto simp: frame_step_def\<close>)
    then show "safe (\<lambda>(r, f'). frame_ok f' \<and> kf_origin f' = kf_origin f \<and> pending_origins f' = ?R (ent_target (st ! ?t)) \<and> True)
        (if fo_slot og \<notin> pending_origins f then KErr ERR_PENDING_ORIGIN_INVARIANT else frame_cnode_set_key ?f (fo_slot og) (Some (Ref_Owned c)))"
      using f assms(3) t(2) by simp
  qed (simp add: t)
  then show ?thesis unfolding restore_instance_to_origin_def by (rule safe_bind) auto
qed

text \<open>Moving the scratchpad between frames.\<close>

lemma put_scratch:
  assumes "frame_ok f" "\<And>t. c = Some t \<Longrightarrow> target_ok t"
  shows "safe (\<lambda>(_, f'). frame_step f f') (case c of Some t \<Rightarrow> frame_cnode_set_key f SCRATCHPAD_SLOT (Some t) | None \<Rightarrow> KOk (None, f))"
proof (cases c)
  case (Some t)
  then show ?thesis
    using safe_mono [OF frame_set_key [OF assms(1), of "Some t" SCRATCHPAD_SLOT], of "\<lambda>(_, f'). frame_step f f'"] assms(2) by auto
qed (simp add: assms(1))

lemma last_entry:
  assumes "stack_ok (st @ [e])" "ent_kind e = Entry_Instance f" "st \<noteq> []"
  obtains og where "frame_ok f" "pending_origins f = {}" "kf_origin f = Some og" "instance_at st (fo_owner og)"
    "og \<notin> set (origins st)" "reserved (st @ [e]) = (\<lambda>j. reserved st j \<union> (if j = fo_owner og then {fo_slot og} else {}))"
proof -
  let ?n = "length st"
  have sh: "shape_ok (reserved (st @ [e])) (st @ [e])" using assms(1) by (simp add: stack_ok_def)
  then have "entry_ok (reserved (st @ [e])) (st @ [e]) ?n" by (simp add: shape_ok_def)
  then have e: "frame_ok f" "pending_origins f = reserved (st @ [e]) ?n"
      "case kf_origin f of None \<Rightarrow> ?n = 0 | Some og \<Rightarrow> fo_owner og < ?n \<and> instance_at (st @ [e]) (fo_owner og)"
    using assms(2) by (auto simp: entry_ok_def split: option.splits)
  then obtain og where og: "kf_origin f = Some og" "fo_owner og < ?n" "instance_at (st @ [e]) (fo_owner og)"
    using assms(3) by (auto split: option.splits)
  have o: "origins (st @ [e]) = origins st @ [og]" using og(1) assms(2) by (simp add: entry_origin_def)
  have sh': "shape_ok (reserved (st @ [e])) st" using shape_take [OF sh, of ?n] by simp
  have "reserved (st @ [e]) ?n = {}"
    using og(2) unfolding reserved_def o by (auto simp: instance_at_def dest!: origin_owner [OF sh'])
  moreover have "reserved (st @ [e]) = (\<lambda>j. reserved st j \<union> (if j = fo_owner og then {fo_slot og} else {}))"
    unfolding reserved_def o by (rule ext) auto
  moreover have "og \<notin> set (origins st)" using assms(1) unfolding stack_ok_def o by simp
  moreover have "instance_at st (fo_owner og)" using og(2,3) by (auto simp: instance_at_def nth_append)
  ultimately show thesis using that [of og] e og(1) by simp
qed

text \<open>The caller of a child that returns gets its status registers and the scratchpad.\<close>

lemma parent_ok:
  assumes "shape_ok R st" "i < length st" "\<And>t. scratch = Some t \<Longrightarrow> target_ok t"
  shows "safe (\<lambda>(_, st'). stack_like R st st' \<and> True) (frame_at_mut st i (\<lambda>parent.
      let parent = set_reg 8 STATUS_OK (set_reg 7 v parent) in
      case scratch of Some c \<Rightarrow> frame_cnode_set_key parent SCRATCHPAD_SLOT (Some c) | None \<Rightarrow> KOk (None, parent)))"
proof (rule frame_at_mut_step [OF assms(1,2)])
  fix p assume p: "frame_ok p"
  have s: "frame_step p (set_reg 8 STATUS_OK (set_reg 7 v p))" by (meson p set_reg_step frame_step_trans frame_step_ok)
  show "safe (\<lambda>(r, f'). frame_step p f' \<and> True) (let parent = set_reg 8 STATUS_OK (set_reg 7 v p) in
    case scratch of Some c \<Rightarrow> frame_cnode_set_key parent SCRATCHPAD_SLOT (Some c) | None \<Rightarrow> KOk (None, parent))"
    unfolding Let_def
    by (rule safe_mono [OF put_scratch [OF frame_step_ok [OF s]]]) (use assms(3) s in \<open>auto intro: frame_step_trans\<close>)
qed

text \<open>Restoring the last frame to its origin leaves a well-formed stack without it.\<close>

lemma restore_stack:
  assumes "st \<noteq> []" "distinct (origins st)" "og \<notin> set (origins st)" "instance_at st (fo_owner og)" "cached_ok c"
    "stack_like (\<lambda>j. reserved st j \<union> (if j = fo_owner og then {fo_slot og} else {})) st st'"
  shows "safe stack_ok (restore_instance_to_origin st' og c)"
proof (rule safe_mono [OF restore_ok])
  let ?R = "\<lambda>j. reserved st j \<union> (if j = fo_owner og then {fo_slot og} else {})"
  show "shape_ok ?R st'" "instance_at st' (fo_owner og)" using assms(4,6) by (auto simp: stack_like_def)
  have o: "origins st' = origins st" using assms(6) by (intro origins_cong) (simp add: stack_like_def)
  fix st'' assume l: "stack_like (\<lambda>j. if j = fo_owner og then ?R j - {fo_slot og} else ?R j) st' st''"
  have o'': "origins st'' = origins st" using l o origins_cong [of st'' st'] by (simp add: stack_like_def)
  have "(\<lambda>j. if j = fo_owner og then ?R j - {fo_slot og} else ?R j) = reserved st"
    using assms(3) by (intro ext) (auto simp flip: reserved_iff)
  then show "stack_ok st''" using l assms(1,2,6) reserved_origins [OF o''] by (auto simp: stack_ok_def stack_like_def o'')
qed (use assms(5) in auto)

lemma pop_ok:
  assumes "stack_ok (st @ [e])" "ent_kind e = Entry_Instance f"
  shows "safe (\<lambda>(drained, st'). drained = (st = []) \<and> (drained \<or> stack_ok st')) (pop_and_reflect E (st @ [e]) v)"
proof (cases "st = []")
  case True
  have e: "entry_ok (reserved [e]) [e] 0" using assms(1) True by (auto simp: stack_ok_def shape_ok_def)
  then have "kf_origin f = None" using assms(2) by (auto simp: entry_ok_def split: option.splits)
  then have "reserved [e] 0 = {}" using assms(2) by (simp add: reserved_def entry_origin_def)
  then have "pending_origins f = {}" using e assms(2) by (simp add: entry_ok_def)
  then show ?thesis using True assms(2) by (simp add: pop_and_reflect_def)
next
  case False
  let ?R = "reserved (st @ [e])"
  obtain og where og: "frame_ok f" "pending_origins f = {}" "kf_origin f = Some og" "instance_at st (fo_owner og)"
      "og \<notin> set (origins st)" and R: "?R = (\<lambda>j. reserved st j \<union> (if j = fo_owner og then {fo_slot og} else {}))"
    by (rule last_entry [OF assms False])
  have sh: "shape_ok ?R st" using shape_take [of ?R "st @ [e]" "length st"] assms(1) by (simp add: stack_ok_def)
  have last: "length st - 1 < length st" "distinct (origins st)" using False assms(1) by (auto simp: stack_ok_def)
  note restore = restore_stack [OF False last(2) og(5,4), folded R]
  have "safe (\<lambda>(drained, st'). drained = (st = []) \<and> (drained \<or> stack_ok st'))
    (kbind (frame_cnode_take_key f SCRATCHPAD_SLOT) (\<lambda>(scratch, popped).
      kbind (owned_back E popped) (\<lambda>back.
      kbind (frame_at_mut st (length st - 1) (\<lambda>parent.
        let parent = set_reg 8 STATUS_OK (set_reg 7 v parent) in
        case scratch of Some c \<Rightarrow> frame_cnode_set_key parent SCRATCHPAD_SLOT (Some c) | None \<Rightarrow> KOk (None, parent))) (\<lambda>(_, st).
      kbind (case back of Some (origin, c) \<Rightarrow> restore_instance_to_origin st origin c | None \<Rightarrow> KOk st) (\<lambda>st. KOk (False, st))))))"
    by (rule safe_bind [OF frame_take_key [OF og(1)]], clarify, rule safe_bind [OF owned_back_ok], erule frame_step_ok,
        rule safe_bind [OF parent_ok [OF sh last(1)]], simp, clarify, rule safe_bind [where R = stack_ok])
      (use og(3) False restore in \<open>auto simp: frame_step_def split: option.splits\<close>)
  then show ?thesis using False assms(2) og(2) by (simp add: pop_and_reflect_def)
qed

lemma unwind_ok:
  assumes "stack_ok st" "tp < length st"
  shows "safe (\<lambda>(drained, st'). drained \<or> stack_ok st') (unwind_to_handler E st tp v)"
proof -
  have sh: "shape_ok (reserved st) st" using assms(1) by (simp add: stack_ok_def)
  let ?h = "ent_target (st ! tp)"
  obtain f where f: "ent_kind (st ! ?h) = Entry_Instance f" "?h \<le> tp" by (rule shape_target [OF sh assms(2)])
  have h: "?h < length st" "instance_at st ?h" using f assms(2) by (auto simp: instance_at_def)
  show ?thesis unfolding unwind_to_handler_def Let_def
  proof (rule safe_bind [OF drop_entries [OF assms(1)]], goal_cases)
    case (3 st')
    then have tk: "take (?h + 1) st' = take ?h st' @ [st' ! ?h]" using h(1) by (simp add: take_Suc_conv_app_nth)
    obtain f' where "ent_kind (st' ! ?h) = Entry_Instance f'" using 3 h(2) by (cases "ent_kind (st' ! ?h)") (auto simp: instance_at_def)
    then have "safe (\<lambda>(drained, st2). drained = (take ?h st' = []) \<and> (drained \<or> stack_ok st2)) (pop_and_reflect E (take (?h + 1) st') v)"
      using 3 unfolding tk by (intro pop_ok) auto
    then show ?case by (rule safe_mono) auto
  qed (use h in auto)
qed


section \<open>Yields\<close>

lemma find_catcher_ok:
  "shape_ok R st \<Longrightarrow> instance_at st node \<Longrightarrow> safe (\<lambda>r. \<forall>t. r = Some t \<longrightarrow> instance_at st t) (find_catcher st k node)"
proof (induction st k node rule: find_catcher.induct)
  case (1 st k node)
  have n: "node < length st" using 1(3) by (simp add: instance_at_def)
  have "entry_ok R st node" using 1(2) n by (simp add: shape_ok_def)
  then have "case meta_owner (ent_meta (st ! node)) of None \<Rightarrow> True | Some t \<Rightarrow> t < node \<and> instance_at st t"
    using 1(3) by (auto simp: entry_ok_def instance_at_def split: entry_kind.splits option.splits)
  then show ?case using 1 n by (subst find_catcher.simps) (auto split: option.splits)
qed

lemma route_yield_ok:
  assumes "stack_ok st" "tp < length st"
  shows "safe (\<lambda>(routed, st'). stack_ok st') (route_yield st tp k payload)"
proof -
  have sh: "shape_ok (reserved st) st" using assms(1) by (simp add: stack_ok_def)
  obtain f where f: "ent_kind (st ! ent_target (st ! tp)) = Entry_Instance f" "ent_target (st ! tp) \<le> tp"
    by (rule shape_target [OF sh assms(2)])
  have ia: "instance_at st (ent_target (st ! tp))" using f assms(2) by (simp add: instance_at_def)
  have upd: "safe (\<lambda>(_, st'). stack_like (reserved st) st st' \<and> True) (frame_at_mut st owner (\<lambda>f.
         kbind (case payload of
             Some i \<Rightarrow> frame_cnode_set_key f SCRATCHPAD_SLOT (Some (Ref_Owned (cached_new (Cap_Instance i))))
           | None \<Rightarrow> KOk (None, f)) (\<lambda>(_, f). KOk ((), set_reg 8 STATUS_YIELDED f))))" if "instance_at st owner" for owner
  proof (rule frame_at_mut_step [OF sh])
    fix f assume f: "frame_ok f"
    have "safe (\<lambda>(_, f'). frame_step f f') (case map_option (\<lambda>i. Ref_Owned (cached_new (Cap_Instance i))) payload of
        Some t \<Rightarrow> frame_cnode_set_key f SCRATCHPAD_SLOT (Some t) | None \<Rightarrow> KOk (None, f))"
      by (rule put_scratch [OF f]) auto
    then show "safe (\<lambda>(r, f'). frame_step f f' \<and> True) (kbind (case payload of
             Some i \<Rightarrow> frame_cnode_set_key f SCRATCHPAD_SLOT (Some (Ref_Owned (cached_new (Cap_Instance i))))
           | None \<Rightarrow> KOk (None, f)) (\<lambda>(_, f). KOk ((), set_reg 8 STATUS_YIELDED f)))"
      by (rule_tac safe_bind [where R = "\<lambda>(_, f'). frame_step f f'"])
        (auto split: option.splits intro: frame_step_trans [OF _ set_reg_step [OF frame_step_ok]])
  qed (use that in \<open>simp add: instance_at_def\<close>)
  show ?thesis unfolding route_yield_def Let_def
  proof (rule safe_bind [OF find_catcher_ok [OF sh ia]], goal_cases)
    case (1 catcher)
    show ?case
    proof (cases catcher)
      case (Some owner)
      then have o: "instance_at st owner" using 1 by simp
      show ?thesis unfolding Some option.case
        by (rule safe_bind [OF upd [OF o]], clarsimp, rule push_reference)
          (use o in \<open>auto simp: stack_like_def instance_at_def intro: stack_like_ok [OF assms(1)] shape_gas [OF sh]\<close>)
    qed (use assms(1) in simp)
  qed
qed

lemma active_meter_ok: "tp < length st \<Longrightarrow> safe (\<lambda>_. True) (active_meter st tp)"
  by (simp add: active_meter_def)

lemma oog_ok:
  assumes "stack_ok st" "tp < length st"
  shows "safe (\<lambda>(routed, st'). stack_ok st') (try_oog_yield E st tp reattempt)"
proof -
  have sh: "shape_ok (reserved st) st" using assms(1) by (simp add: stack_ok_def)
  have pc': "safe (\<lambda>(_, st'). stack_like (reserved st) st st' \<and> True)
      (frame_at_mut st tp (\<lambda>f. KOk ((), f\<lparr>kf_instance := set_inst_pc (ucast reattempt) (kf_instance f)\<rparr>)))"
    by (rule frame_at_mut_step [OF sh assms(2)]) (simp add: set_pc_step)
  have adv: "safe (\<lambda>(routed, st'). stack_ok st') (let (advanced, g) = gas_advance (meta_gas (ent_meta (st' ! tp))) in
       if advanced then KOk (True, set_entry_gas tp g st')
       else (case primary_key g of
          None \<Rightarrow> KOk (False, st')
        | Some meter \<Rightarrow>
            kbind (unreached (gas_handle (env_hash E) meter)) (\<lambda>h.
              route_yield (set_entry_gas tp (reset_to_primary g) st') tp YK_OOG (Some h))))"
    if l: "stack_like (reserved st) st st'" for st'
  proof -
    have ok: "stack_ok st'" "tp < length st'" using stack_like_ok [OF assms(1) l] l assms(2) by (auto simp: stack_like_def)
    obtain adv g where g: "gas_advance (meta_gas (ent_meta (st' ! tp))) = (adv, g)" by fastforce
    have gok: "gas_ok g" using gas_ok_advance [OF shape_gas, of "reserved st" st' tp] l ok(2) g by (simp add: stack_like_def)
    note sg = set_gas_stack [OF ok gok] set_gas_stack [OF ok gas_ok_reset [OF gok]]
    show ?thesis
    proof (cases "primary_key g")
      case (Some meter)
      obtain h where h: "unreached (gas_handle (env_hash E) meter) = KOk h" using unreached_handle(1) [OF gas_ok_primary [OF gok Some]] by blast
      show ?thesis using sg ok by (simp add: g Some h route_yield_ok)
    qed (use sg ok g in simp)
  qed
  show ?thesis unfolding try_oog_yield_def
    by (rule safe_bind [OF active_meter_ok [OF assms(2)]])
      (auto simp: assms(1) split: option.splits intro!: safe_bind [OF pc'] adv [unfolded Let_def])
qed

section \<open>The exit hooks\<close>

definition hook_ok :: "(flow \<times> javm_ctx) kernel_result \<Rightarrow> bool" where
  "hook_ok = safe (\<lambda>(fl, ctx). fl = Flow_Resume \<longrightarrow> stack_ok (ctx_stack ctx))"

lemma hook_ok_simps [simp]:
  "hook_ok (KOk (fl, ctx)) = (fl = Flow_Resume \<longrightarrow> stack_ok (ctx_stack ctx))" "hook_ok (trap_flow ctx arg info)"
  "hook_ok (KErr e) = (e \<noteq> ERR_TASK_BOOKKEEPING)"
  by (simp_all add: hook_ok_def trap_flow_def task_done_def)

lemma done_not_resume [simp]: "task_done ctx reason arg v head \<noteq> Flow_Resume"
  by (simp add: task_done_def)

lemma hook_bind: "safe R r \<Longrightarrow> (\<And>x. R x \<Longrightarrow> hook_ok (f x)) \<Longrightarrow> hook_ok (kbind r f)"
  unfolding hook_ok_def by (rule safe_bind)

lemma ctx_top:
  assumes "stack_ok (ctx_stack ctx)"
  shows "top_idx ctx < length (ctx_stack ctx)" "shape_ok (reserved (ctx_stack ctx)) (ctx_stack ctx)"
  using assms by (auto simp: stack_ok_def top_idx_def)

lemma op_frame:
  assumes "stack_ok (ctx_stack ctx)" "\<And>f. frame_ok f \<Longrightarrow> safe (\<lambda>(r, f'). frame_step f f') (op' f)"
    "\<And>r st. stack_ok st \<Longrightarrow> length st = length (ctx_stack ctx) \<Longrightarrow> hook_ok (k (r, st))"
  shows "hook_ok (kbind (frame_at_mut (ctx_stack ctx) (top_idx ctx) op') k)"
proof -
  note t = ctx_top [OF assms(1)]
  have "safe (\<lambda>(r, st'). stack_like (reserved (ctx_stack ctx)) (ctx_stack ctx) st' \<and> True) (frame_at_mut (ctx_stack ctx) (top_idx ctx) op')"
    by (rule frame_at_mut_step [OF t(2,1)]) (rule safe_mono [OF assms(2)], auto)
  then show ?thesis
    by (rule hook_bind) (use assms(3) stack_like_ok [OF assms(1)] in \<open>auto simp: stack_like_def\<close>)
qed

lemma derive_hook: "stack_ok (ctx_stack ctx) \<Longrightarrow> hook_ok (op_derive_spawn E ctx info)"
  unfolding op_derive_spawn_def by (erule op_frame) (auto simp: Let_def intro: derive_spawn_ok)

lemma hash_chain_hook: "stack_ok (ctx_stack ctx) \<Longrightarrow> hook_ok (op_image_hash_chain E ctx info)"
  unfolding op_image_hash_chain_def by (erule op_frame) (auto simp: Let_def intro: hash_chain_ok)

lemma yield_hook:
  assumes "stack_ok (ctx_stack ctx)"
  shows "hook_ok (op_host_yield E ctx info)"
  unfolding op_host_yield_def
proof (rule op_frame [OF assms host_yield_ok], assumption, goal_cases)
  case (1 r st)
  have t: "top_idx (ctx\<lparr>ctx_stack := st, ctx_gas := g\<rparr>) < length st" "shape_ok (reserved st) st" for g
    using 1 by (cases st; auto simp: top_idx_def stack_ok_def)+
  show ?case using 1
    by (auto simp: case_prod_beta Let_def split: yield_outcome.splits
        intro!: hook_bind [OF frame_at_ok [OF t(2,1)]] hook_bind [OF frame_read_instance] hook_bind [OF route_yield_ok] t)
qed

lemma call_resume_hook:
  assumes "stack_ok (ctx_stack ctx)"
  shows "hook_ok (op_call_resume ctx info)"
proof -
  let ?st = "ctx_stack ctx" and ?tp = "top_idx ctx"
  note t = ctx_top [OF assms]
  show ?thesis
  proof (cases "ent_target (?st ! ?tp) = ?tp")
    case False
    obtain f where f: "ent_target (?st ! ?tp) \<le> ?tp" by (rule shape_target [OF t(2,1)])
    have tk: "safe (\<lambda>(r, st'). stack_like (reserved ?st) ?st st' \<and> (\<forall>t. r = Some t \<longrightarrow> target_ok t))
        (frame_at_mut ?st ?tp (\<lambda>f. frame_cnode_take_key f SCRATCHPAD_SLOT))"
      by (rule frame_at_mut_step [OF t(2,1)]) (rule frame_take_key)
    have pt: "hook_ok (kbind (frame_at_mut st (length st - 1) (\<lambda>f.
          kbind (case r of Some c \<Rightarrow> frame_cnode_set_key f SCRATCHPAD_SLOT (Some c) | None \<Rightarrow> KOk (None, f)) (\<lambda>(_, f).
          KOk ((), set_reg 8 STATUS_OK f)))) (\<lambda>(_, st). KOk (Flow_Resume, ctx\<lparr>ctx_stack := st\<rparr>)))"
      if "stack_ok st" "\<forall>t. r = Some t \<longrightarrow> target_ok t" for st r
    proof -
      have "hook_ok (kbind (frame_at_mut (ctx_stack (ctx\<lparr>ctx_stack := st\<rparr>)) (top_idx (ctx\<lparr>ctx_stack := st\<rparr>)) (\<lambda>f.
          kbind (case r of Some c \<Rightarrow> frame_cnode_set_key f SCRATCHPAD_SLOT (Some c) | None \<Rightarrow> KOk (None, f)) (\<lambda>(_, f).
          KOk ((), set_reg 8 STATUS_OK f)))) (\<lambda>(_, st). KOk (Flow_Resume, ctx\<lparr>ctx_stack := st\<rparr>)))"
        by (rule op_frame)
          (use that in \<open>auto intro!: safe_bind [OF put_scratch] intro: frame_step_trans [OF _ set_reg_step [OF frame_step_ok]]\<close>)
      then show ?thesis by (simp add: top_idx_def)
    qed
    have "stack_ok (butlast st')" if l: "stack_like (reserved ?st) ?st st'" for st'
    proof (rule pop_reference [OF stack_like_ok [OF assms l]])
      have "length st' = length ?st" "ent_target (st' ! ?tp) = ent_target (?st ! ?tp)" using l by (auto simp: stack_like_def)
      moreover from this have "last st' = st' ! ?tp" using t(1) last_conv_nth [of st'] by (cases "st' = []") (auto simp: top_idx_def)
      ultimately show "ent_target (last st') \<noteq> length st' - 1" using False by (simp add: top_idx_def)
    qed
    then show ?thesis unfolding op_call_resume_def Let_def if_not_P [OF False]
      by (intro hook_bind [OF tk]) (clarify, rule pt, auto)
  qed (simp add: op_call_resume_def Let_def)
qed

lemma drop_resume_hook:
  assumes "stack_ok (ctx_stack ctx)"
  shows "hook_ok (op_drop_resume ctx info)"
proof -
  note t = ctx_top [OF assms]
  obtain f where f: "ent_target (ctx_stack ctx ! top_idx ctx) \<le> top_idx ctx" by (rule shape_target [OF t(2,1)])
  show ?thesis unfolding op_drop_resume_def Let_def
    using f t(1) by (auto intro!: hook_bind [OF drop_entries [OF assms]])
qed

lemma halt_hook:
  assumes "stack_ok (ctx_stack ctx)"
  shows "hook_ok (javm_on_halt E ctx info)"
proof -
  let ?st = "ctx_stack ctx" and ?tp = "top_idx ctx" and ?v = "xi_regs info ! 7"
  note t = ctx_top [OF assms]
  have head: "safe (\<lambda>_. True) (if ent_target (?st ! ?tp) = 0 then kbind (frame_at ?st ?tp) read_scratchpad_head else KOk zero_head)"
    using frame_head by (auto intro!: safe_bind [OF frame_at_ok [OF t(2,1)]])
  have st: "?st = butlast ?st @ [?st ! ?tp]" using assms last_conv_nth [of ?st] append_butlast_last_id [of ?st] by (simp add: stack_ok_def top_idx_def)
  have "safe (\<lambda>(drained, st'). drained \<or> stack_ok st')
      (if ent_target (?st ! ?tp) \<noteq> ?tp then unwind_to_handler E ?st ?tp ?v else pop_and_reflect E ?st ?v)"
  proof (cases "ent_target (?st ! ?tp) = ?tp")
    case True
    obtain f where "ent_kind (?st ! ent_target (?st ! ?tp)) = Entry_Instance f" by (rule shape_target [OF t(2,1)])
    then have f: "ent_kind (?st ! ?tp) = Entry_Instance f" using True by simp
    have "safe (\<lambda>(drained, st'). drained = (butlast ?st = []) \<and> (drained \<or> stack_ok st')) (pop_and_reflect E (butlast ?st @ [?st ! ?tp]) ?v)"
      by (rule pop_ok [OF _ f]) (use assms st in simp)
    then show ?thesis using True by (simp flip: st) (erule safe_mono, auto)
  qed (use unwind_ok [OF assms t(1)] in simp)
  then show ?thesis unfolding javm_on_halt_def Let_def
    by (intro hook_bind [OF head]) (erule hook_bind, auto)
qed


text \<open>A child joins the stack whose top frame has reserved its slot.\<close>

lemma push_child_ok:
  assumes t: "top_idx ctx < length st" "instance_at st (fo_owner og)" and og: "og \<notin> set (origins st)" "distinct (origins st)"
    and sh: "shape_ok (\<lambda>j. reserved st j \<union> {s. s = fo_slot og \<and> j = fo_owner og}) st" and c: "fresh_frame (Some og) child"
    and cs: "sorted_wrt (<) cs"
  shows "hook_ok (push_child E ctx (fo_owner og) cs child st)"
proof -
  let ?tp = "top_idx ctx" and ?R = "\<lambda>j. reserved st j \<union> {s. s = fo_slot og \<and> j = fo_owner og}"
  have tk: "safe (\<lambda>(r, st'). stack_like ?R st st' \<and> (\<forall>t. r = Some t \<longrightarrow> target_ok t))
      (frame_at_mut st ?tp (\<lambda>f. frame_cnode_take_key f SCRATCHPAD_SLOT))"
    by (rule frame_at_mut_step [OF sh t(1)]) (rule frame_take_key)
  have fin: "stack_ok (st' @ [instance_with_meta child' (length st') (ctx_next_iid ctx)
      \<lparr>meta_owner = Some (fo_owner og), owner_catch_set = cs, meta_gas = unwrap_or (meta_gas (ent_meta (st' ! ?tp))) g\<rparr>])"
    if l: "stack_like ?R st st'" and f: "frame_step child child'" and g: "\<forall>x. g = Some x \<longrightarrow> gas_ok x" for st' child' g
  proof -
    have o: "origins st' = origins st" using l by (intro origins_cong) (simp add: stack_like_def)
    have g': "gas_ok (unwrap_or (meta_gas (ent_meta (st' ! ?tp))) g)"
      using g shape_gas [of ?R st' ?tp] l t(1) by (auto simp: unwrap_or_def stack_like_def split: option.splits)
    have d: "distinct (og # origins st')" using og by (simp add: o)
    show ?thesis
      by (rule push_instance [OF _ d _ _ _ g' cs])
        (use l t f c reserved_origins [OF o] in \<open>auto simp: stack_like_def fresh_frame_def frame_step_def\<close>)
  qed
  have fr: "frame_ok child" using c by (simp add: fresh_frame_def)
  show ?thesis unfolding push_child_def
    by (rule hook_bind [OF tk], clarify, rule hook_bind [OF put_scratch [OF fr]], simp, clarify,
        rule hook_bind [OF resolve_gas_ok], erule frame_step_ok) (simp add: fin)
qed

lemma host_call_hook:
  assumes "stack_ok (ctx_stack ctx)"
  shows "hook_ok (op_host_call E ctx info)"
proof -
  let ?st = "ctx_stack ctx" and ?tp = "top_idx ctx"
  let ?t = "ent_target (?st ! ?tp)"
  note t = ctx_top [OF assms]
  obtain p where p: "ent_kind (?st ! ?t) = Entry_Instance p" "?t \<le> ?tp" "frame_ok p" "pending_origins p = reserved ?st ?t"
      "frame_at ?st ?tp = KOk p" and tt: "ent_target (?st ! ?t) = ?t"
    by (rule shape_target [OF t(2,1)])
  have tl: "?t < length ?st" using p(2) t(1) by simp
  let ?og = "\<lparr>fo_owner = ?t, fo_slot = slot_reg p 7\<rparr>"
  have push: "hook_ok (push_child E ctx ?t cs child (upd_frame ?t p' ?st))"
    if np: "slot_reg p 7 \<notin> pending_origins p" and p': "frame_ok p'" "kf_origin p' = kf_origin p"
      "pending_origins p' = insert (slot_reg p 7) (pending_origins p)" and c: "fresh_frame (Some ?og) child"
      and cs: "sorted_wrt (<) cs" for cs child p'
  proof -
    let ?R = "\<lambda>j. reserved ?st j \<union> {s. s = fo_slot ?og \<and> j = fo_owner ?og}"
    have l: "stack_like ?R ?st (upd_frame ?t p' ?st)"
      by (rule stack_upd [OF t(2) tl p(1) p'(2,1)]) (use p'(3) p(4) in auto)
    then have o: "origins (upd_frame ?t p' ?st) = origins ?st" by (intro origins_cong) (simp add: stack_like_def)
    have "hook_ok (push_child E ctx (fo_owner ?og) cs child (upd_frame ?t p' ?st))"
      by (rule push_child_ok [OF _ _ _ _ _ c cs])
        (use l t(1) tl assms np p(4) reserved_iff [of ?og ?st] reserved_origins [OF o] in
          \<open>auto simp: stack_like_def o stack_ok_def instance_at_def\<close>)
    then show ?thesis by simp
  qed
  have "hook_ok (kbind (frame_at_mut ?st ?tp (dispatch_host_call E ?t)) (\<lambda>(child, stack). case child of
          None \<Rightarrow> trap_flow (ctx\<lparr>ctx_stack := stack\<rparr>) 0 info
        | Some child \<Rightarrow> push_child E ctx ?t cs child stack))" if cs: "sorted_wrt (<) cs" for cs
    unfolding frame_at_mut_eq [OF p(1) t(1) tl] kbind_assoc
  proof (rule hook_bind [OF dispatch_host_call_ok [OF p(3)]], goal_cases)
    case (1 x)
    obtain child p' where "x = (child, p')" by fastforce
    then show ?case using 1 cs by (cases child) (simp_all add: push)
  qed
  then show ?thesis unfolding op_host_call_def Let_def p(5)
    by simp (rule hook_bind [OF frame_snapshot [OF p(3)]], auto split: sum.splits)
qed

lemma ecall_op_hook: "stack_ok (ctx_stack ctx)  \<Longrightarrow> hook_ok (ecall_op E ctx cp op' info)"
  by (simp add: ecall_op_def halt_hook derive_hook hash_chain_hook yield_hook call_resume_hook drop_resume_hook host_call_hook)

lemma ecall_hook:
  assumes "stack_ok (ctx_stack ctx)"
  shows "hook_ok (javm_on_ecall E ctx op' info)"
proof -
  note t = ctx_top [OF assms]
  have cost: "safe (\<lambda>_. True) (ecall_frame_cost E ctx op')"
    unfolding ecall_frame_cost_def
    by (auto simp: kernel_errors intro!: safe_bind [OF frame_at_ok [OF t(2,1)]] frame_cost_ok)
  show ?thesis unfolding javm_on_ecall_def Let_def
    by (rule hook_bind [OF cost])
      (use assms in \<open>auto intro!: hook_bind [OF oog_ok [OF assms t(1)]] ecall_op_hook\<close>)
qed

lemma exit_hook: "stack_ok (ctx_stack ctx) \<Longrightarrow> hook_ok (javm_on_exit E ctx info)"
  using ctx_top(1) [of ctx] by (auto simp: javm_on_exit_def Let_def intro!: hook_bind [OF oog_ok])

section \<open>The contract of a personality\<close>

lemma put_parts_step:
  assumes "frame_ok f"
  shows "frame_step f (put_frame_parts p f)"
proof (rule frame_step_fields [OF assms])
  show "root_cnode (kf_instance (put_frame_parts p f)) = root_cnode (kf_instance f)" by (simp add: put_frame_parts_def)
qed (simp_all add: put_frame_parts_def)

lemma run_entry_ok:
  assumes "frame_ok f"
  shows "safe (\<lambda>(info, f'). frame_step f f') (run_one_entry (javm_exec E) enter lane f gas)"
proof -
  have "safe (\<lambda>_. True) (case fp_runtime (get_parts (javm_exec E) f) of Some rt \<Rightarrow> KOk rt | None \<Rightarrow> build_runtime (javm_exec E) lane f)"
    by (auto simp: javm_exec_def frame_build_runtime_def Let_def kernel_errors split: option.splits cap.splits)
  then show ?thesis unfolding run_one_entry_def
    by (rule safe_bind) (auto simp: Let_def javm_exec_def put_parts_step [OF assms] split: prod.splits)
qed

lemma top_frame_step:
  assumes "stack_ok st" "\<And>f. frame_ok f \<Longrightarrow> safe (\<lambda>(r, f'). frame_step f f') (op' f)"
  shows "safe (\<lambda>(r, st'). stack_ok st' \<and> length st' = length st) (frame_at_mut st (length st - 1) op')"
proof -
  have st: "shape_ok (reserved st) st" "length st - 1 < length st" using assms(1) by (auto simp: stack_ok_def)
  have "safe (\<lambda>(r, st'). stack_like (reserved st) st st' \<and> True) (frame_at_mut st (length st - 1) op')"
    by (rule frame_at_mut_step [OF st]) (rule safe_mono [OF assms(2)], auto)
  then show ?thesis by (rule safe_mono) (auto simp: stack_like_def intro: stack_like_ok [OF assms(1)])
qed

lemma root_frame_ok:
  "safe (\<lambda>(f, m). stack_ok [instance_with_meta f 0 0 m]) (javm_build_root_frame E root endpoint_idx args)"
proof -
  have "stack_ok [instance_with_meta f 0 0 \<lparr>meta_owner = None, owner_catch_set = [], meta_gas = unwrap_or host_budgeted g\<rparr>]"
    if "fresh_frame None f" "\<forall>x. g = Some x \<longrightarrow> gas_ok x" for f g
    using that
    by (auto simp: stack_ok_def shape_ok_def entry_ok_def instance_with_meta_def fresh_frame_def entry_origin_def reserved_def
        unwrap_or_def split: option.splits)
  then show ?thesis unfolding javm_build_root_frame_def
    by (intro safe_bind [OF build_published_ok] safe_bind [OF resolve_gas_ok]) (auto simp: fresh_frame_def)
qed

interpretation javm_task: guest_personality "javm E" "javm_exec E" enter stack_ok for E enter
proof unfold_locales
  show "safe (\<lambda>(f, m). stack_ok [instance_with_meta f 0 0 m]) (build_root_frame (javm E) root endpoint_idx args)" for root endpoint_idx args
    using root_frame_ok by (simp add: javm_def)
  show "stack_ok st \<Longrightarrow> safe (\<lambda>_. True) (active_meter_of (javm E) st (length st - 1))" for st
    by (simp add: javm_def active_meter_ok stack_ok_def)
  show "stack_ok st \<Longrightarrow> safe (\<lambda>(info, st'). stack_ok st' \<and> length st' = length st)
      (frame_at_mut st (length st - 1) (\<lambda>f. run_one_entry (javm_exec E) enter lane f gas))" for st lane gas
    by (erule top_frame_step) (rule run_entry_ok)
  show "stack_ok st \<Longrightarrow> safe (\<lambda>(_, st'). stack_ok st') (frame_at_mut st (length st - 1) (\<lambda>f.
      KOk ((), put_parts (javm_exec E) ((get_parts (javm_exec E) f)\<lparr>fp_regs := xi_regs info, fp_pc := ucast (xi_pc info)\<rparr>) f)))"
    for st and info :: exit_info
    by (rule safe_mono [OF top_frame_step]) (auto simp: javm_exec_def put_parts_step)
qed (use halt_hook ecall_hook exit_hook in \<open>simp_all add: javm_def hook_ok_def\<close>)

end
