(* ===== verification/Javm_Laws.thy ===== *)
theory Javm_Laws
  imports Call_Loop_Laws
begin

text \<open>
  What the kernel guarantees to the instances that run on it: whose gas a poll spends, which owner catches a yield, what a
  child that returns hands back, and that no run of a task or of a lane ends in a broken invariant of the kernel. The last
  two rest on the interpretation \<open>javm_task\<close> of the contract of \<open>Task_Laws\<close>.
\<close>

section \<open>Gas of a poll\<close>

text \<open>What holds of the value of a result, if it has one.\<close>

definition ensures :: "('a \<Rightarrow> bool) \<Rightarrow> 'a kernel_result \<Rightarrow> bool" where
  "ensures Q r = (\<forall>x. r = KOk x \<longrightarrow> Q x)"

lemma ensures_simps [simp]: "ensures Q (KOk x) = Q x" "ensures Q (KErr e)" "ensures Q (KPanic p)"
  by (auto simp: ensures_def)

lemma ensures_bind: "(\<And>x. r = KOk x \<Longrightarrow> ensures Q (f x)) \<Longrightarrow> ensures Q (kbind r f)"
  by (cases r) auto

lemma ensures_trap [simp]: "ensures Q (trap_flow ctx arg info) = Q (task_done ctx EXIT_TRAP arg (xi_regs info ! 7) zero_head, ctx)"
  by (simp add: trap_flow_def)

abbreviation same_gas :: "javm_ctx \<Rightarrow> flow \<times> javm_ctx \<Rightarrow> bool" where
  "same_gas ctx \<equiv> (\<lambda>(fl, ctx'). ctx_gas ctx' = ctx_gas ctx)"

lemma same_gas_hooks:
  "ensures (same_gas ctx) (javm_on_halt E ctx info)"
  "ensures (same_gas ctx) (op_derive_spawn E ctx info)"
  "ensures (same_gas ctx) (op_image_hash_chain E ctx info)"
  "ensures (same_gas ctx) (op_call_resume ctx info)"
  "ensures (same_gas ctx) (op_drop_resume ctx info)"
  "ensures (same_gas ctx) (op_host_call E ctx info)"
  "ensures (same_gas ctx) (javm_on_exit E ctx info)"
  unfolding javm_on_halt_def op_derive_spawn_def op_image_hash_chain_def op_call_resume_def op_drop_resume_def op_host_call_def
    push_child_def javm_on_exit_def Let_def
  by (auto intro!: ensures_bind split: prod.splits option.splits sum.splits)

lemma balance_live: "scope \<noteq> current_active g \<Longrightarrow> balance (g\<lparr>live_gas := x\<rparr>) scope = balance g scope"
  by (cases scope) (simp_all add: balance_def)

text \<open>A yield changes at most the meter that register 8 names.\<close>

abbreviation same_balance :: "key option \<Rightarrow> key gas_state \<Rightarrow> key gas_state \<Rightarrow> bool" where
  "same_balance scope g g' \<equiv> balance g' scope = balance g scope"

lemma dispatch_yield_gas:
  assumes "scope \<noteq> Some (slot_reg f 8)"
  shows "ensures (\<lambda>((r, g'), f'). same_balance scope g g') (dispatch_host_yield E f g)"
proof -
  have "same_balance scope g (fst (set_gas_meter f g))"
    using assms by (auto simp: set_gas_meter_def Let_def balance_def bt_get_insert split: option.splits)
  then show ?thesis unfolding dispatch_host_yield_def Let_def
    by (auto simp: case_prod_beta intro!: ensures_bind split: option.splits)
qed

lemma yield_gas:
  assumes "frame_at (ctx_stack ctx) (top_idx ctx) = KOk f" "scope \<noteq> Some (slot_reg f 8)"
  shows "ensures (\<lambda>(fl, ctx'). same_balance scope (ctx_gas ctx) (ctx_gas ctx')) (op_host_yield E ctx info)"
proof -
  have "same_balance scope (ctx_gas ctx) g"
    if "frame_at_mut (ctx_stack ctx) (top_idx ctx) (\<lambda>f. dispatch_host_yield E f (ctx_gas ctx)) = KOk ((r, g), st)" for r g st
    using that assms(1) dispatch_yield_gas [OF assms(2), of "ctx_gas ctx" E]
    by (auto simp: frame_at_mut_def kbind_KOk Let_def ensures_def)
  then show ?thesis unfolding op_host_yield_def Let_def
    by (auto intro!: ensures_bind split: yield_outcome.splits)
qed

lemma ecall_op_gas:
  assumes "frame_at (ctx_stack ctx) (top_idx ctx) = KOk f" "op' = OP_HOST_YIELD \<Longrightarrow> scope \<noteq> Some (slot_reg f 8)"
  shows "ensures (\<lambda>(fl, ctx'). same_balance scope (ctx_gas ctx) (ctx_gas ctx')) (ecall_op E ctx cp op' info)"
  using same_gas_hooks(1-6) [of ctx] yield_gas [OF assms(1), of scope E info] assms(2)
  by (simp add: ecall_op_def ensures_def trap_flow_def split: prod.splits)

lemma ecall_gas:
  assumes "frame_at (ctx_stack ctx) (top_idx ctx) = KOk f" "op' = OP_HOST_YIELD \<Longrightarrow> scope \<noteq> Some (slot_reg f 8)"
    "scope \<noteq> current_active (ctx_gas ctx)"
  shows "ensures (\<lambda>(fl, ctx'). same_balance scope (ctx_gas ctx) (ctx_gas ctx')) (javm_on_ecall E ctx op' info)"
proof -
  let ?ctx = "\<lambda>x. ctx\<lparr>ctx_gas := (ctx_gas ctx)\<lparr>live_gas := x\<rparr>\<rparr>"
  have live: "same_balance scope (ctx_gas ctx) (ctx_gas (?ctx x))" for x using assms(3) by (simp add: balance_live)
  have "ensures (\<lambda>(fl, ctx'). same_balance scope (ctx_gas (?ctx x)) (ctx_gas ctx')) (ecall_op E (?ctx x) cp op' info)" for x cp
    by (rule ecall_op_gas) (use assms(1,2) in \<open>simp_all add: top_idx_def\<close>)
  then have "ensures (\<lambda>(fl, ctx'). same_balance scope (ctx_gas ctx) (ctx_gas ctx')) (ecall_op E (?ctx x) cp op' info)" for x cp
    using live by (simp only:)
  then show ?thesis unfolding javm_on_ecall_def Let_def
    by (auto intro!: ensures_bind)
qed

lemma dispatch_gas:
  assumes "frame_at (ctx_stack ctx) (top_idx ctx) = KOk f" "exit_op info = OP_HOST_YIELD \<Longrightarrow> scope \<noteq> Some (slot_reg f 8)"
    "scope \<noteq> current_active (ctx_gas ctx)"
  shows "ensures (\<lambda>(fl, ctx'). same_balance scope (ctx_gas ctx) (ctx_gas ctx')) (dispatch_exit (javm E) ctx info)"
  using same_gas_hooks(1,7) [of ctx E info] ecall_gas [OF assms(1), of "exit_op info" scope E info] assms(2,3)
  by (auto simp: dispatch_exit_def javm_def ensures_def)

text \<open>C14: A poll spends gas of the running scope only: when the frame on top runs in the gas scope \<open>m\<close>, the poll leaves the
  balance of every other scope as it was, with one exception. A guest that yields to the kernel
  (\<open>OP_HOST_YIELD\<close>) may set the one meter that its register 8 names.\<close>

theorem poll_gas_isolated:
  assumes "active_meter (task_stack t) (length (task_stack t) - 1) = KOk m"
    and "poll_run (javm E) (javm_exec E) enter t = KOk (info, t1)"
    and "frame_at (task_stack t1) (length (task_stack t1) - 1) = KOk f"
    and "dispatch_exit (javm E) \<lparr>ctx_lane = task_lane t1, ctx_stack = task_stack t1, ctx_gas = task_gas t1,
      ctx_next_iid = task_next_iid t1, ctx_static = mc\<rparr> info = KOk (fl, ctx')"
    and "scope \<noteq> m" "scope = Some (slot_reg f 8) \<Longrightarrow> exit_op info \<noteq> OP_HOST_YIELD"
  shows "balance (ctx_gas ctx') scope = balance (task_gas t) scope"
proof -
  let ?ctx = "\<lparr>ctx_lane = task_lane t1, ctx_stack = task_stack t1, ctx_gas = task_gas t1, ctx_next_iid = task_next_iid t1, ctx_static = mc\<rparr>"
  have g: "task_gas t1 = (reconcile m (task_gas t))\<lparr>live_gas := xi_gas info\<rparr>"
    using assms(1,2) by (auto simp: poll_run_def javm_def Let_def kbind_KOk)
  have "ensures (\<lambda>(fl, ctx'). same_balance scope (ctx_gas ?ctx) (ctx_gas ctx')) (dispatch_exit (javm E) ?ctx info)"
    by (rule dispatch_gas) (use assms(3,5,6) g in \<open>auto simp: top_idx_def\<close>)
  then have "balance (ctx_gas ctx') scope = balance (task_gas t1) scope" using assms(4) by (simp add: ensures_def)
  also have "\<dots> = balance (reconcile m (task_gas t)) scope" using assms(5) by (simp add: g balance_live)
  finally show ?thesis by (simp add: balance_reconcile)
qed

section \<open>Where a yield goes\<close>

lemma key_found_iff:
  assumes "sorted_wrt (<) ks"
  shows "key_found k ks \<longleftrightarrow> k \<in> set ks"
proof -
  have "cmp_ord (ks ! i) k = Ord_Less" if "j < length ks" "i < j" "cmp_ord (ks ! j) k \<noteq> Ord_Greater" for i j
  proof -
    have "ks ! i < ks ! j" using assms that(1,2) by (simp add: sorted_wrt_iff_nth_less)
    also have "ks ! j \<le> k" using that(3) by (auto simp: cmp_ord_def split: if_splits)
    finally show ?thesis by (simp add: cmp_ord_def)
  qed
  then have s: "searchable (\<lambda>x. cmp_ord x k) ks" by (simp add: searchable_def)
  show ?thesis
  proof (cases "binary_search_by (\<lambda>x. cmp_ord x k) ks")
    case (Inl p)
    have "cmp_ord (ks ! i) k \<noteq> Ord_Equal" if "i < length ks" for i
      using binary_search_by_Err [OF s Inl] that by (cases "i < p") auto
    then have "ks ! i \<noteq> k" if "i < length ks" for i using that by (force simp: cmp_ord_def)
    then show ?thesis using Inl by (auto simp: key_found_def in_set_conv_nth)
  next
    case (Inr p)
    then show ?thesis using binary_search_by_Ok [OF s Inr]
      by (auto simp: key_found_def in_set_conv_nth cmp_ord_def split: if_splits)
  qed
qed

text \<open>The owner edges from an entry to the root, nearest first, and the owner at the end of the first one that catches
  the key.\<close>

function owner_path :: "entry list \<Rightarrow> nat \<Rightarrow> nat list" where
  "owner_path st node = node # (case meta_owner (ent_meta (st ! node)) of
     Some owner \<Rightarrow> if owner < node then owner_path st owner else []
   | None \<Rightarrow> [])"
  by pat_completeness auto
termination
  by (relation "measure snd") auto

declare owner_path.simps [simp del]

definition nearest_catcher :: "entry list \<Rightarrow> key \<Rightarrow> nat \<Rightarrow> nat option" where
  "nearest_catcher st k node =
     (case find (\<lambda>n. k \<in> set (owner_catch_set (ent_meta (st ! n)))) (owner_path st node) of
        Some n \<Rightarrow> meta_owner (ent_meta (st ! n))
      | None \<Rightarrow> None)"

lemma find_catcher_nearest:
  "shape_ok R st \<Longrightarrow> instance_at st node \<Longrightarrow> find_catcher st k node = KOk (nearest_catcher st k node)"
proof (induction st k node rule: find_catcher.induct)
  case (1 st k node)
  have n: "node < length st" using 1(3) by (simp add: instance_at_def)
  have e: "entry_ok R st node" using 1(2) n by (simp add: shape_ok_def)
  then have "case meta_owner (ent_meta (st ! node)) of None \<Rightarrow> True | Some t \<Rightarrow> t < node \<and> instance_at st t"
    using 1(3) by (auto simp: entry_ok_def instance_at_def split: entry_kind.splits option.splits)
  moreover have "key_found k (owner_catch_set (ent_meta (st ! node))) \<longleftrightarrow> k \<in> set (owner_catch_set (ent_meta (st ! node)))"
    by (rule key_found_iff) (use e in \<open>simp add: entry_ok_def\<close>)
  ultimately show ?case using 1 n
    by (subst find_catcher.simps, subst nearest_catcher_def, subst owner_path.simps)
      (auto split: option.splits simp: nearest_catcher_def)
qed

lemma frame_set_key_eq:
  "with_root_cnode f = KOk cn \<Longrightarrow>
   frame_cnode_set_key f k t = KOk (snd (set_key k t cn), put_root_cnode (fst (set_key k t cn)) f)"
  by (simp add: frame_cnode_set_key_def with_root_cnode_mut_def case_prod_beta)

lemma set_reg_cnode [simp]: "with_root_cnode (set_reg i v f) = with_root_cnode f"
  by (rule with_root_cnode_cong) (simp add: set_reg_def)

lemma set_reg_fields [simp]: "kf_origin (set_reg i v f) = kf_origin f" "pending_origins (set_reg i v f) = pending_origins f"
  "frame_reg (set_reg i v f) j = (inst_regs (kf_instance f))[i := v] ! j"
  by (simp_all add: set_reg_def frame_reg_def)

text \<open>C11: A yield goes to the nearest owner that catches its key. The owner edges of the yielding instance are searched
  from the inside out, and the first one whose catch set contains the key decides. The owner at its end is resumed
  as the handler, with the payload in its scratchpad, above the suspended yielder, and no other frame changes.
  If no edge catches the key nothing changes.\<close>

theorem yield_reaches_nearest_catcher:
  assumes "stack_ok st" "tp < length st"
  shows "case nearest_catcher st k (ent_target (st ! tp)) of
      None \<Rightarrow> route_yield st tp k payload = KOk (False, st)
    | Some owner \<Rightarrow> (\<exists>st' f. route_yield st tp k payload = KOk (True, st') \<and>
        length st' = Suc (length st) \<and> ent_kind (last st') = Entry_Reference \<and> ent_target (last st') = owner \<and>
        frame_at st' (length st) = KOk f \<and>
        (case payload of Some i \<Rightarrow> with_cnode_peek f SCRATCHPAD_SLOT = KOk (Some (Ref_Owned (cached_new (Cap_Instance i)))) | None \<Rightarrow> True) \<and>
        (\<forall>j < length st. j \<noteq> owner \<longrightarrow> st' ! j = st ! j))"
proof -
  have sh: "shape_ok (reserved st) st" using assms(1) by (simp add: stack_ok_def)
  obtain f0 where f0: "ent_kind (st ! ent_target (st ! tp)) = Entry_Instance f0" "ent_target (st ! tp) \<le> tp"
    by (rule shape_target [OF sh assms(2)])
  have ia: "instance_at st (ent_target (st ! tp))" using f0 assms(2) by (simp add: instance_at_def)
  note fc = find_catcher_nearest [OF sh ia, of k]
  show ?thesis
  proof (cases "nearest_catcher st k (ent_target (st ! tp))")
    case None
    then show ?thesis by (simp add: route_yield_def fc)
  next
    case (Some owner)
    then have o: "instance_at st owner" using find_catcher_ok [OF sh ia, of k] fc by simp
    then have t: "owner < length st" "ent_target (st ! owner) = owner" using instance_target [OF sh o] by (auto simp: instance_at_def)
    obtain f where f: "ent_kind (st ! owner) = Entry_Instance f" "frame_ok f"
      using shape_target [OF sh t(1)] t(2) by metis
    obtain cn where cn: "with_root_cnode f = KOk cn" "cnode_ok cn" using f(2) by (rule frame_okE)
    note fm = frame_at_mut_eq [of st owner f, unfolded t(2), OF f(1) t(1) t(1)]
    define tgt where "tgt = (\<lambda>i. Some (Ref_Owned (cached_new (Cap_Instance i)) :: cached_cap cap_ref))"
    define f' where "f' = set_reg 8 STATUS_YIELDED
      (case payload of Some i \<Rightarrow> put_root_cnode (fst (set_key SCRATCHPAD_SLOT (tgt i) cn)) f | None \<Rightarrow> f)"
    define e :: entry where "e = \<lparr>ent_kind = Entry_Reference, ent_target = owner, instance_id = instance_id (st ! owner),
      ent_meta = \<lparr>meta_owner = meta_owner (ent_meta (st ! owner)), owner_catch_set = [], meta_gas = meta_gas (ent_meta (st ! owner))\<rparr>\<rparr>"
    have r: "route_yield st tp k payload = KOk (True, upd_frame owner f' st @ [e])"
      using fc Some
      by (cases payload) (simp_all add: route_yield_def f'_def e_def tgt_def Let_def fm frame_set_key_eq [OF cn(1)])
    have "with_cnode_peek f' SCRATCHPAD_SLOT = KOk (tgt i)" if "payload = Some i" for i
      using that put_root(1) [OF cn(1)] set_key_ok(3) [OF cn(2), of "tgt i" SCRATCHPAD_SLOT]
      by (simp add: f'_def with_cnode_peek_def tgt_def)
    moreover have "frame_at (upd_frame owner f' st @ [e]) (length st) = KOk f'"
      using t by (simp add: frame_at_def nth_append e_def)
    moreover have "(upd_frame owner f' st @ [e]) ! j = st ! j" if "j < length st" "j \<noteq> owner" for j
      using that by (simp add: nth_append upd_frame_nth)
    ultimately show ?thesis using r Some by (auto simp: e_def tgt_def split: option.splits)
  qed
qed

section \<open>What a child brings back\<close>

lemma frame_take_key_eq:
  "with_root_cnode f = KOk cn \<Longrightarrow>
   frame_cnode_take_key f k = KOk (snd (take_key k cn), put_root_cnode (fst (take_key k cn)) f)"
  by (simp add: frame_cnode_take_key_def with_root_cnode_mut_def case_prod_beta)

text \<open>The cap of a popped frame: its instance, with the resident cnode as the cache of the cap.\<close>

definition returned_cap :: "kernel_env \<Rightarrow> kernel_frame \<Rightarrow> cached_cap cnode \<Rightarrow> cached_cap" where
  "returned_cap E f cn =
     (let i = kf_instance f in
      CachedCap (Cap_Instance (InstanceCap (image_hash_chain i) (image_hash i) (Ref_Hash (replicate 32 0)) (inst_mem i)
          (inst_regs i) (inst_pc i) 0))
        (Cache_Instance (map_option (\<lambda>rt. env_rearm_cow E rt (map fst (overlay (inst_mem i)))) (kf_runtime f)) (Some cn)))"

lemma owned_back_eq:
  assumes "with_root_cnode f = KOk cn" "kf_origin f = Some og"
  shows "owned_back E (put_root_cnode cn' f) = KOk (Some (og, returned_cap E f cn'))"
proof -
  obtain c where r: "root_cnode (kf_instance f) = Ref_Owned (CachedCap c (Cache_CNode cn))"
    using assms(1) by (auto simp: with_root_cnode_def split: cap_ref.splits cached_cap.splits cap_cache.splits)
  obtain ch ih rn m rs p g where i: "kf_instance f = InstanceCap ch ih rn m rs p g" by (cases "kf_instance f")
  show ?thesis using r assms(2)
    by (simp add: owned_back_def put_root_cnode_def i resident_instance_to_cached_cap_def take_resident_root_cnode_def
        returned_cap_def Let_def)
qed

definition handed_back :: "cached_cap cap_ref option \<Rightarrow> cached_cap cap_ref option \<Rightarrow> cached_cap cap_ref option" where
  "handed_back scratch old = (case scratch of Some c \<Rightarrow> Some c | None \<Rightarrow> old)"

text \<open>The caller of a popped frame.\<close>

lemma caller_eq:
  assumes "frame_ok p" "\<And>t. scratch = Some t \<Longrightarrow> target_ok t" "with_root_cnode p = KOk cn"
  obtains x p' where
    "(let parent = set_reg 8 STATUS_OK (set_reg 7 v p) in
      case scratch of Some c \<Rightarrow> frame_cnode_set_key parent SCRATCHPAD_SLOT (Some c) | None \<Rightarrow> KOk (None, parent)) = KOk (x, p')"
    "frame_step p p'" "inst_regs (kf_instance p') = (inst_regs (kf_instance p))[7 := v, 8 := STATUS_OK]"
    "\<And>k. with_cnode_peek p' k = KOk (if k = SCRATCHPAD_SLOT then handed_back scratch (peek_key cn k) else peek_key cn k)"
proof -
  let ?p = "set_reg 8 STATUS_OK (set_reg 7 v p)"
  have s: "frame_step p ?p" by (meson assms(1) set_reg_step frame_step_trans frame_step_ok)
  have r: "inst_regs (kf_instance ?p) = (inst_regs (kf_instance p))[7 := v, 8 := STATUS_OK]" by (simp add: set_reg_def)
  have w: "with_root_cnode ?p = KOk cn" using assms(3) by simp
  obtain cn' where cn: "with_root_cnode p = KOk cn'" "cnode_ok cn'" using assms(1) by (rule frame_okE)
  then have ok: "cnode_ok cn" using assms(3) by simp
  show thesis
  proof (cases scratch)
    case None
    then show thesis using that [OF _ s r] w by (simp add: Let_def with_cnode_peek_def handed_back_def)
  next
    case (Some c)
    let ?p' = "put_root_cnode (fst (set_key SCRATCHPAD_SLOT (Some c) cn)) ?p"
    have "safe (\<lambda>(_, f'). frame_step ?p f') (frame_cnode_set_key ?p SCRATCHPAD_SLOT (Some c))"
      using put_scratch [OF frame_step_ok [OF s], of scratch] assms(2) Some by simp
    then have "frame_step p ?p'" using s frame_step_trans by (auto simp: frame_set_key_eq [OF w])
    moreover have "peek_key (fst (set_key SCRATCHPAD_SLOT (Some c) cn)) k = (if k = SCRATCHPAD_SLOT then Some c else peek_key cn k)" for k
      using set_key_ok(3) [OF ok, of "Some c"] assms(2) Some by simp
    ultimately show thesis
      using that [of _ ?p'] Some r put_root(1,4) [OF w] by (simp add: frame_set_key_eq [OF w] with_cnode_peek_def handed_back_def)
  qed
qed

text \<open>The slot of the owner gets the cap back and is no longer reserved.\<close>

lemma restore_eq:
  assumes "shape_ok R st" "instance_at st (fo_owner og)" "fo_slot og \<in> R (fo_owner og)" "cached_ok c"
  obtains fo fo' where "restore_instance_to_origin st og c = KOk (upd_frame (fo_owner og) fo' st)"
    "ent_kind (st ! fo_owner og) = Entry_Instance fo" "inst_regs (kf_instance fo') = inst_regs (kf_instance fo)"
    "fo_slot og \<notin> pending_origins fo'"
    "\<And>k. with_cnode_peek fo' k = (if k = fo_slot og then KOk (Some (Ref_Owned c)) else with_cnode_peek fo k)"
proof -
  let ?t = "fo_owner og"
  have t: "?t < length st" "ent_target (st ! ?t) = ?t"
    using assms(2) instance_target [OF assms(1,2)] by (auto simp: instance_at_def)
  obtain fo where fo: "ent_kind (st ! ?t) = Entry_Instance fo" "frame_ok fo" "pending_origins fo = R ?t"
    using shape_target [OF assms(1) t(1)] t(2) by metis
  obtain cn where cn: "with_root_cnode fo = KOk cn" "cnode_ok cn" using fo(2) by (rule frame_okE)
  let ?f = "fo\<lparr>pending_origins := pending_origins fo - {fo_slot og}\<rparr>"
  let ?f' = "put_root_cnode (fst (set_key (fo_slot og) (Some (Ref_Owned c)) cn)) ?f"
  have w: "with_root_cnode ?f = KOk cn" using cn(1) by (simp add: with_root_cnode_def)
  note fm = frame_at_mut_eq [of st ?t fo, unfolded t(2), OF fo(1) t(1) t(1)]
  have "restore_instance_to_origin st og c = KOk (upd_frame ?t ?f' st)"
    using assms(3) [folded fo(3)] by (simp add: restore_instance_to_origin_def fm frame_set_key_eq [OF w])
  moreover have "with_cnode_peek ?f' k = (if k = fo_slot og then KOk (Some (Ref_Owned c)) else with_cnode_peek fo k)" for k
    using set_key_ok(3) [OF cn(2), of "Some (Ref_Owned c)" "fo_slot og" k] assms(4) put_root(1) [OF w] cn(1)
    by (simp add: with_cnode_peek_def)
  ultimately show thesis using that fo(1) put_root(3,4) [OF w] by simp
qed


section \<open>Runs of a task and of a lane\<close>

text \<open>C8: Whatever the guests, the published caps and the engine do, a run of a root instance does not end with the
  pending-origin error or with a panic of the kernel other than the one documented for elided pages of a data cap.\<close>

theorem kernel_run_safe:
  "case run_top_on_lane (javm E) (javm_exec E) enter lane root endpoint_idx args gas mc of
     None \<Rightarrow> True
   | Some r \<Rightarrow> r \<noteq> KErr ERR_PENDING_ORIGIN_INVARIANT \<and> r \<noteq> KPanic Broken_Invariant"
  using javm_task.run_top_safe [of E enter lane root endpoint_idx args gas mc]
  by (auto simp: ERR_PENDING_ORIGIN_INVARIANT_def ERR_TASK_BOOKKEEPING_def split: option.splits)

text \<open>C15: Every poll keeps the call stack well formed. Entries stand for instances at or below them, owners lie below
  what they own, the slots that a frame has reserved are exactly the slots that the live frames above it were called
  from, reserved slots are empty, and all resident cnodes are sorted. A poll that ends the task ends it with a result, an
  error code other than the pending-origin error, or the documented panic.\<close>

theorem poll_keeps_stack:
  assumes "stack_ok (task_stack t)"
  shows "case poll_once (javm E) (javm_exec E) enter t mc of
      KOk (p, t', mc') \<Rightarrow> p = Poll_Pending \<longrightarrow> stack_ok (task_stack t')
    | KErr e \<Rightarrow> e \<noteq> ERR_PENDING_ORIGIN_INVARIANT
    | KPanic p \<Rightarrow> p = Elided_Page"
  using javm_task.poll_safe [OF assms, of E enter mc]
  by (auto simp: ERR_PENDING_ORIGIN_INVARIANT_def ERR_TASK_BOOKKEEPING_def split: kernel_result.splits)

text \<open>The states of a lane: tasks are submitted and their results waited for, in any order.\<close>

inductive lane_reach ::
    "('f, 'k::linorder, 'm, 's) personality \<Rightarrow> ('f, 'mem, 'rt) exec_frame \<Rightarrow> ('mem, 'rt) enter_frame \<Rightarrow>
     ('f, 'k, 'm) kernel_scheduler \<Rightarrow> bool"
  for P X enter
where
  lane_new: "lane_reach P X enter (scheduler_new lane)"
| lane_submit: "lane_reach P X enter s \<Longrightarrow> next_task_id s + 1 \<noteq> 0 \<Longrightarrow>
    submit_invoke P root endpoint_idx args gas s = (r, s') \<Longrightarrow> lane_reach P X enter s'"
| lane_wait: "lane_reach P X enter s \<Longrightarrow> awaited target s \<Longrightarrow>
    run_until_result P X enter target s st = Some (r, s', st') \<Longrightarrow> lane_reach P X enter s'"

lemma lane_reach_ok: "lane_reach (javm E) (javm_exec E) enter s \<Longrightarrow> sched_ok stack_ok s"
  by (induction rule: lane_reach.induct)
    (auto simp: scheduler_new_ok dest: javm_task.submit_safe(2) javm_task.run_until_result_safe)



section \<open>An example\<close>

text \<open>A published instance whose image has one endpoint, an engine that traps at once, and a call stack of a root
  and the child it has called from slot 1.\<close>

definition ex_mem :: data_cap where
  "ex_mem = \<lparr>backing = slab_empty, overlay = []\<rparr>"

definition ex_image :: image_cap where
  "ex_image = \<lparr>im_code = [1], im_endpoints = [([0], \<lparr>entry_pc = 0, ep_stack_top = 0, arg_cnode_slot = [0], arg_cnode_size = 0,
       initial_regs = replicate 13 0\<rparr>)],
     im_mappings = [], im_pinned = [], im_initial = [], yield_receiver_slot = None, gas_slots = [], quota_slots = []\<rparr>"

definition ex_env :: "frame_runtime \<Rightarrow> kernel_env" where
  "ex_env rt = \<lparr>env_cache = (\<lambda>h. if h = [1] then Some (Cap_Image ex_image)
       else if h = [2] then Some (Cap_Instance (InstanceCap [1] [1] (Ref_Owned (Cap_CNode [])) ex_mem (replicate 13 0) 0 0))
       else None),
     env_hash = (\<lambda>_. []), env_digest = (\<lambda>_. []), env_image_hash = (\<lambda>_. []), env_va_to_pa = (\<lambda>_. Some 0),
     env_build_frame_runtime = (\<lambda>_ _ _ _ _ _ _ _. Some rt), env_rearm_cow = (\<lambda>rt _. rt)\<rparr>"

definition ex_enter :: "(data_cap, frame_runtime) enter_frame" where
  "ex_enter lane rt gas p regs m ms ru =
     (rt, m, ms, ru, \<lparr>xi_reason = EXIT_TRAP, xi_arg = 0, xi_gas = gas - 1, xi_regs = regs, xi_pc = p\<rparr>)"

definition ex_frame :: "frame_runtime option \<Rightarrow> frame_origin option \<Rightarrow> key set \<Rightarrow> cached_cap cnode \<Rightarrow> kernel_frame" where
  "ex_frame rt origin pending cn =
     \<lparr>kf_instance = InstanceCap [1] [1] (Ref_Owned (cached_cnode cn)) ex_mem (replicate 13 0) 0 0,
      kf_origin = origin, pending_origins = pending, kf_pinned = [], kf_mat_state = [], kf_ro_units = [], kf_runtime = rt\<rparr>"

definition ex_root :: entry where
  "ex_root = instance_with_meta (ex_frame None None {[1]} []) 0 0
     \<lparr>meta_owner = None, owner_catch_set = [], meta_gas = host_budgeted\<rparr>"

definition ex_child :: entry where
  "ex_child = instance_with_meta (ex_frame None (Some \<lparr>fo_owner = 0, fo_slot = [1]\<rparr>) {} [([0], Materialized (Ref_Hash [7]))]) 1 1
     \<lparr>meta_owner = Some 0, owner_catch_set = [[5]], meta_gas = host_budgeted\<rparr>"

definition ex_task :: "frame_runtime \<Rightarrow> (kernel_frame, key, entry_meta) kernel_task" where
  "ex_task rt = \<lparr>task_id = 0, task_lane = 0,
     task_stack = [instance_with_meta (ex_frame (Some rt) None {} []) 0 0
       \<lparr>meta_owner = None, owner_catch_set = [], meta_gas = declared [[3]]\<rparr>],
     task_next_iid = 1, task_gas = gas_state_new None 100\<rparr>"

lemma ex_cnode [simp]: "with_root_cnode (ex_frame rt origin pending cn) = KOk cn"
  by (simp add: ex_frame_def with_root_cnode_def cached_cnode_def)

lemma ex_frame_fields [simp]:
  "kf_origin (ex_frame rt origin pending cn) = origin" "pending_origins (ex_frame rt origin pending cn) = pending"
  by (simp_all add: ex_frame_def)

lemma ex_stack_ok: "stack_ok [ex_root, ex_child]"
proof -
  have o: "origins [ex_root, ex_child] = [\<lparr>fo_owner = 0, fo_slot = [1]\<rparr>]"
    by (simp add: ex_root_def ex_child_def entry_origin_def instance_with_meta_def)
  have "entry_ok (reserved [ex_root, ex_child]) [ex_root, ex_child] 0"
    unfolding reserved_def o
    by (auto simp: entry_ok_def ex_root_def instance_with_meta_def frame_ok_def peek_key_def slots_refine bt_get_def materialized_def)
  moreover have "entry_ok (reserved [ex_root, ex_child]) [ex_root, ex_child] 1"
    unfolding reserved_def o
    by (auto simp: entry_ok_def ex_root_def ex_child_def instance_with_meta_def frame_ok_def cnode_ok_iff wf_bt_def instance_at_def)
  ultimately show ?thesis unfolding stack_ok_def o shape_ok_def by (auto simp: less_Suc_eq)
qed

section \<open>Witnesses\<close>


theorem poll_keeps_stack_witness:
  "\<forall>E enter mc. case poll_once (javm E) (javm_exec E) enter
       \<lparr>task_id = 0, task_lane = 0, task_stack = [ex_root, ex_child], task_next_iid = 2, task_gas = gas_state_new None 100\<rparr> mc of
      KOk (p, t', mc') \<Rightarrow> p = Poll_Pending \<longrightarrow> stack_ok (task_stack t')
    | KErr e \<Rightarrow> e \<noteq> ERR_PENDING_ORIGIN_INVARIANT
    | KPanic p \<Rightarrow> p = Elided_Page"
  by (intro allI poll_keeps_stack) (simp add: ex_stack_ok)

theorem yield_reaches_nearest_catcher_witness:
  "\<exists>st' f. route_yield [ex_root, ex_child] 1 [5] None = KOk (True, st') \<and> ent_target (last st') = 0 \<and>
     frame_at st' 2 = KOk f \<and> st' ! 1 = ex_child"
proof -
  have c: "nearest_catcher [ex_root, ex_child] [5] (ent_target ([ex_root, ex_child] ! 1)) = Some 0"
    by (simp add: nearest_catcher_def owner_path.simps ex_root_def ex_child_def instance_with_meta_def)
  from yield_reaches_nearest_catcher [OF ex_stack_ok, of 1 "[5]" None, unfolded c]
  show ?thesis by (auto simp: numeral_2_eq_2)
qed

lemmas ex_poll = poll_run_def javm_def javm_exec_def active_meter_def instance_with_meta_def frame_at_mut_def frame_at_def
  run_one_entry_def frame_parts_of_def ex_enter_def put_frame_parts_def dispatch_exit_def javm_on_exit_def

lemma ex_poll_run:
  "poll_run (javm E) (javm_exec E) ex_enter (ex_task rt) =
     KOk (\<lparr>xi_reason = EXIT_TRAP, xi_arg = 0, xi_gas = - 1, xi_regs = replicate 13 0, xi_pc = 0\<rparr>,
       (ex_task rt)\<lparr>task_gas := \<lparr>meters = [], live_gas = - 1, host_budget = 100, root_active = None, current_active = Some [3]\<rparr>\<rparr>)"
  by (simp add: ex_poll ex_task_def ex_frame_def reconcile_def reconcile_active_def gas_state_new_def declared_def active_key_def
      bt_get_def unwrap_or_def)

theorem poll_gas_isolated_witness:
  "\<forall>rt. \<exists>info t1 fl ctx'. poll_run (javm (ex_env rt)) (javm_exec (ex_env rt)) ex_enter (ex_task rt) = KOk (info, t1) \<and>
     dispatch_exit (javm (ex_env rt)) \<lparr>ctx_lane = task_lane t1, ctx_stack = task_stack t1, ctx_gas = task_gas t1,
       ctx_next_iid = task_next_iid t1, ctx_static = []\<rparr> info = KOk (fl, ctx') \<and>
     balance (ctx_gas ctx') None = 100"
proof
  fix rt
  let ?P = "javm (ex_env rt)" and ?t = "ex_task rt"
  obtain info t1 where r: "poll_run ?P (javm_exec (ex_env rt)) ex_enter ?t = KOk (info, t1)" using ex_poll_run by blast
  then have t1: "xi_reason info = EXIT_TRAP" "task_stack t1 = task_stack ?t" by (auto simp: ex_poll_run)
  let ?ctx = "\<lparr>ctx_lane = task_lane t1, ctx_stack = task_stack t1, ctx_gas = task_gas t1, ctx_next_iid = task_next_iid t1, ctx_static = []\<rparr>"
  obtain fl ctx' where d: "dispatch_exit ?P ?ctx info = KOk (fl, ctx')"
    using t1(1) by (auto simp: dispatch_exit_def javm_def javm_on_exit_def EXIT_TRAP_def EXIT_HALT_def EXIT_HOST_CALL_def EXIT_ECALL_def EXIT_OOG_def)
  have "active_meter (task_stack ?t) (length (task_stack ?t) - 1) = KOk (Some [3])"
      "frame_at (task_stack t1) (length (task_stack t1) - 1) = KOk (ex_frame (Some rt) None {} [])"
    by (simp_all add: t1(2) ex_task_def active_meter_def instance_with_meta_def declared_def active_key_def frame_at_def)
  from poll_gas_isolated [OF this(1) r this(2) d, of None]
  have "balance (ctx_gas ctx') None = 100" by (simp add: ex_task_def balance_def gas_state_new_def)
  with r d show "\<exists>info t1 fl ctx'. poll_run ?P (javm_exec (ex_env rt)) ex_enter ?t = KOk (info, t1) \<and>
     dispatch_exit ?P \<lparr>ctx_lane = task_lane t1, ctx_stack = task_stack t1, ctx_gas = task_gas t1,
       ctx_next_iid = task_next_iid t1, ctx_static = []\<rparr> info = KOk (fl, ctx') \<and> balance (ctx_gas ctx') None = 100" by blast
qed

definition ex_lane :: "frame_runtime \<Rightarrow> (kernel_frame, key, entry_meta) kernel_scheduler" where
  "ex_lane rt = snd (submit_invoke (javm (ex_env rt)) [2] 0 [] 100 (scheduler_new 0))"

lemma ex_lane_reach: "lane_reach (javm (ex_env rt)) (javm_exec (ex_env rt)) ex_enter (ex_lane rt)"
  unfolding ex_lane_def
  by (rule lane_submit [OF lane_new [of _ _ _ 0], where r = "fst (submit_invoke (javm (ex_env rt)) [2] 0 [] 100 (scheduler_new 0))"])
    (simp_all add: scheduler_new_def)

definition ex_start :: kernel_frame where
  "ex_start = ex_frame None None {} []"

lemma ex_task_new:
  "task_new (javm (ex_env rt)) 0 0 [2] 0 [] 100 = KOk \<lparr>task_id = 0, task_lane = 0,
     task_stack = [instance_with_meta ex_start 0 0 \<lparr>meta_owner = None, owner_catch_set = [], meta_gas = host_budgeted\<rparr>],
     task_next_iid = 1, task_gas = gas_state_new None 100\<rparr>"
  by (simp add: task_new_def javm_def javm_build_root_frame_def build_frame_from_published_def build_frame_inner_def ex_env_def
      ex_image_def key_of_u8_def materialize_root_cnode_def resolve_frame_gas_def unwrap_or_def active_meter_def
      instance_with_meta_def host_budgeted_def active_key_def ex_frame_def ex_start_def call_regs_def ex_mem_def content_len_def slab_empty_def)

text \<open>A frame of the example traps when it is run, so that no poll leaves its task pending.\<close>

lemma ex_never_pending: "poll_once (javm E) (javm_exec E) ex_enter t mc \<noteq> KOk (Poll_Pending, t', mc')"
proof
  assume "poll_once (javm E) (javm_exec E) ex_enter t mc = KOk (Poll_Pending, t', mc')"
  then obtain info t1 fl ctx where r: "poll_run (javm E) (javm_exec E) ex_enter t = KOk (info, t1)" and
      d: "dispatch_exit (javm E) \<lparr>ctx_lane = task_lane t1, ctx_stack = task_stack t1, ctx_gas = task_gas t1,
         ctx_next_iid = task_next_iid t1, ctx_static = mc\<rparr> info = KOk (Flow_Resume, ctx)"
    by (auto simp: poll_once_def kbind_KOk split: flow.splits) (metis flow.exhaust)
  have "xi_reason info = EXIT_TRAP"
    using r by (auto simp: poll_run_def Let_def kbind_KOk frame_at_mut_def run_one_entry_def ex_enter_def)
  then show False using d
    by (auto simp: dispatch_exit_def javm_def javm_on_exit_def task_done_def EXIT_TRAP_def EXIT_HALT_def EXIT_HOST_CALL_def
        EXIT_ECALL_def EXIT_OOG_def)
qed


lemma ex_lane_eq: "ex_lane rt = \<lparr>sched_lane = 0, next_task_id = 1, sched_tasks = [(0, \<lparr>task_id = 0, task_lane = 0,
     task_stack = [instance_with_meta ex_start 0 0 \<lparr>meta_owner = None, owner_catch_set = [], meta_gas = host_budgeted\<rparr>],
     task_next_iid = 1, task_gas = gas_state_new None 100\<rparr>)], sched_completed = [], sched_ready = [0]\<rparr>"
  by (simp add: ex_lane_def submit_invoke_def scheduler_new_def ex_task_new Let_def)

lemma ex_wait:
  "\<exists>s'. run_until_result (javm (ex_env rt)) (javm_exec (ex_env rt)) ex_enter 0 (ex_lane rt) [] =
     Some (KOk \<lparr>out_exit_reason = EXIT_TRAP, out_exit_arg = 0, out_return_value = 0, out_gas_remaining = 99,
       out_scratchpad_head = zero_head\<rparr>, s', [])"
proof -
  have "fp_runtime (frame_parts_of ex_start) = None" by (simp add: frame_parts_of_def ex_start_def ex_frame_def)
  moreover have "frame_build_runtime (ex_env rt) 0 ex_start = KOk rt"
    by (simp add: frame_build_runtime_def ex_env_def ex_start_def ex_frame_def code_mapping_def ex_image_def)
  ultimately show ?thesis
    by (simp add: run_until_result_def ex_lane_eq ready_loop.simps ready_round_def bt_get_def poll_once_def ex_poll
        task_done_def root_remaining_def gas_state_new_def reconcile_def reconcile_active_def host_budgeted_def active_key_def
        EXIT_TRAP_def EXIT_HALT_def EXIT_HOST_CALL_def EXIT_ECALL_def EXIT_OOG_def)
      (simp add: ex_start_def ex_frame_def)
qed


subsection \<open>What a CALL lends\<close>

lemma bt_get_Cons: "bt_get ((s, v) # t) k = (if k = s then Some v else bt_get t k)"
  by (simp add: bt_get_def)

lemma bt_get_filter:
  "wf_bt t \<Longrightarrow> bt_get (filter (\<lambda>(k, v). Q k v) t) k = (case bt_get t k of Some v \<Rightarrow> if Q k v then Some v else None | None \<Rightarrow> None)"
proof (induction t)
  case (Cons e t)
  obtain s v where e: "e = (s, v)" by fastforce
  have "wf_bt t" "bt_get t s = None"
    using Cons.prems wf_bt_distinct [OF Cons.prems] e by (auto simp: wf_bt_Cons bt_get_def map_of_eq_None_iff)
  then show ?case using Cons.IH e by (auto simp: bt_get_Cons split: option.splits)
qed (simp add: bt_get_def)

lemma inherit_get:
  "\<forall>e \<in> set inherited. value_ok (snd e) \<Longrightarrow> cnode_ok cn \<Longrightarrow>
   bt_get (inherit_into inherited cn) k = (case bt_get cn k of Some v \<Rightarrow> Some v | None \<Rightarrow> bt_get inherited k)"
proof (induction inherited arbitrary: cn)
  case (Cons e es)
  obtain s v where e: "e = (s, v)" by fastforce
  have ok: "cnode_ok (fst (slots_insert s v cn))" "wf_bt cn"
    using Cons.prems e by (simp_all add: cnode_ok_insert) (simp add: cnode_ok_iff)
  show ?case
  proof (cases "bt_get cn s")
    case None
    have "inherit_into (e # es) cn = inherit_into es (bt_insert s v cn)"
      using None Cons.prems(2) by (simp add: inherit_into_def e slots_refine)
    then show ?thesis using Cons.IH [of "bt_insert s v cn"] ok Cons.prems None
      by (auto simp: slots_refine bt_get_insert bt_get_Cons e split: option.splits)
  next
    case (Some w)
    then have "inherit_into (e # es) cn = inherit_into es cn" using Cons.prems(2) by (simp add: inherit_into_def e slots_refine)
    then show ?thesis using Cons.IH [of cn] Cons.prems Some by (auto simp: bt_get_Cons e split: option.splits)
  qed
qed (simp add: inherit_into_def bt_get_def split: option.splits)

text \<open>What frame slots of the parent a child sees: references, but not the scratchpad and not what the parent owns.\<close>

definition lent :: "cached_cap cnode \<Rightarrow> key \<Rightarrow> cached_cap cap_ref missing_or option" where
  "lent cn k = (if k = SCRATCHPAD_SLOT then None
     else case bt_get cn k of Some (Materialized (Ref_Owned _)) \<Rightarrow> None | v \<Rightarrow> v)"

lemma inherited_get: "wf_bt cn \<Longrightarrow> bt_get (inherited_slots cn) k = lent cn k"
  by (auto simp: inherited_slots_def lent_def bt_get_filter split: option.splits missing_or.splits cap_ref.splits)


definition ex_caller :: kernel_frame where
  "ex_caller = set_reg 7 1 (ex_frame None None {} [([1], Materialized (Ref_Hash [2])), ([2], Materialized (Ref_Hash [9])),
     ([3], Materialized (Ref_Owned (cached_new (Cap_Image ex_image))))])"

lemma ex_regs: "(replicate 13 0)[7 := 0, 8 := 0, 9 := 0, 10 := 0] = replicate 13 (0 :: u64)"
  by (intro nth_equalityI) (auto simp: nth_list_update)

lemma ex_build:
  "build_child (ex_env rt) (Ref_Hash [2]) og 0 [0, 0, 0, 0] = KOk (ex_frame None (Some og) {} [])"
  by (simp add: build_child_def build_frame_inner_def ex_env_def ex_image_def key_of_u8_def materialize_root_cnode_def
      ex_frame_def call_regs_def ex_mem_def content_len_def slab_empty_def ex_regs)


end
