(* ===== verification/Vmem.thy ===== *)
theory Vmem
  imports Prelude
begin

text \<open>
  The page tables of the guest, \<open>nub/nub-host-common/src/vmem.rs\<close> with \<open>arch/amd64/vmem.rs\<close>: four levels of tables of 512
  entries, walked by iterators that split an address range along the entries of a table. The traits \<open>TableReadOps\<close> and
  \<open>TableOps\<close> are a record of functions over the state of a table store; \<open>GuestPageTableBuffer\<close> of
  \<open>nub/nub-host-kvm/src/mem/mgr.rs\<close> is one. The chain of lazy iterators in \<open>map\<close> and \<open>virt_to_phys\<close> visits the tables depth
  first; it is the recursion over the list of levels here. An iterator over a range of nearly the whole 64-bit space
  would not end, so that the functions return an option, with \<open>None\<close> for that.
\<close>

unbundle bit_operations_syntax

section \<open>Table stores\<close>

record ('s, 'a) table_ops =
  entry_addr :: "'a \<Rightarrow> u64 \<Rightarrow> 'a"
  read_entry :: "'s \<Rightarrow> 'a \<Rightarrow> u64"
  to_phys :: "'a \<Rightarrow> u64"
  from_phys :: "u64 \<Rightarrow> 'a"
  root_table :: "'s \<Rightarrow> 'a"
  alloc_table :: "'s \<Rightarrow> 'a \<times> 's"
  write_entry :: "'s \<Rightarrow> 'a \<Rightarrow> u64 \<Rightarrow> 'a option \<times> 's"
  update_root :: "'a \<Rightarrow> 's \<Rightarrow> 's"

definition PAGE_SIZE_vm :: nat where "PAGE_SIZE_vm = 4096"
definition PAGE_TABLE_SIZE :: nat where "PAGE_TABLE_SIZE = 4096"
definition VA_BITS :: nat where "VA_BITS = 48"

definition PAGE_PRESENT :: u64 where "PAGE_PRESENT = 1"
definition PAGE_RW :: u64 where "PAGE_RW = push_bit 1 1"
definition PAGE_NX :: u64 where "PAGE_NX = push_bit 63 1"
definition PTE_ADDR_MASK :: u64 where "PTE_ADDR_MASK = 0x000FFFFFFFFFF000"
definition PAGE_USER_ACCESS_DISABLED :: u64 where "PAGE_USER_ACCESS_DISABLED = push_bit 2 0"
definition PAGE_DIRTY_SET :: u64 where "PAGE_DIRTY_SET = push_bit 6 1"
definition PAGE_ACCESSED_SET :: u64 where "PAGE_ACCESSED_SET = push_bit 5 1"
definition PAGE_CACHE_ENABLED :: u64 where "PAGE_CACHE_ENABLED = push_bit 4 0"
definition PAGE_WRITE_BACK :: u64 where "PAGE_WRITE_BACK = push_bit 3 0"
definition PAGE_PAT_WB :: u64 where "PAGE_PAT_WB = push_bit 7 0"
definition PTE_AVL_MASK :: u64 where "PTE_AVL_MASK = 0x0000000000000E00"
definition PAGE_AVL_COW :: u64 where "PAGE_AVL_COW = push_bit 9 1"

definition bits_vm :: "nat \<Rightarrow> nat \<Rightarrow> u64 \<Rightarrow> u64" where
  "bits_vm hi lo x = drop_bit lo (x AND (push_bit (hi + 1) 1 - 1))"

definition page_rw_flag :: "bool \<Rightarrow> u64" where
  "page_rw_flag writable = (if writable then PAGE_RW else 0)"

definition page_nx_flag :: "bool \<Rightarrow> u64" where
  "page_nx_flag executable = (if executable then 0 else PAGE_NX)"

definition pte_for_table :: "('s, 'a) table_ops \<Rightarrow> 'a \<Rightarrow> u64" where
  "pte_for_table op' table_addr =
     to_phys op' table_addr OR PAGE_ACCESSED_SET OR PAGE_CACHE_ENABLED OR PAGE_WRITE_BACK OR PAGE_USER_ACCESS_DISABLED
       OR PAGE_RW OR PAGE_PRESENT"

section \<open>Moving tables\<close>

text \<open>The chain of ancestors of a table: \<open>UpdateParentNone\<close> for stores that never move a table, \<open>UpdateParentRoot\<close>, and
  \<open>UpdateParentTable\<close> with the entry of the parent. A write may report that it has moved the table it writes to; the
  entry of the parent is then rewritten, and so on to the root.\<close>

datatype 'a parent_chain = Parent_None | Parent_Root | Parent_Table "'a parent_chain" 'a

fun for_child_at_entry :: "'a parent_chain \<Rightarrow> 'a \<Rightarrow> 'a parent_chain" where
  "for_child_at_entry Parent_None entry_ptr = Parent_None"
| "for_child_at_entry parent entry_ptr = Parent_Table parent entry_ptr"

primrec update_parent :: "('s, 'a) table_ops \<Rightarrow> 'a parent_chain \<Rightarrow> 'a \<Rightarrow> 's \<Rightarrow> 's" where
  "update_parent op' Parent_None new_ptr s = s"
| "update_parent op' Parent_Root new_ptr s = update_root op' new_ptr s"
| "update_parent op' (Parent_Table parent entry_ptr) new_ptr s =
     (case write_entry op' s entry_ptr (pte_for_table op' new_ptr) of
        (Some again, s) \<Rightarrow> update_parent op' parent again s
      | (None, s) \<Rightarrow> s)"

definition write_entry_updating :: "('s, 'a) table_ops \<Rightarrow> 'a parent_chain \<Rightarrow> 'a \<Rightarrow> u64 \<Rightarrow> 's \<Rightarrow> 's" where
  "write_entry_updating op' parent addr entry s =
     (case write_entry op' s addr entry of
        (Some again, s) \<Rightarrow> update_parent op' parent again s
      | (None, s) \<Rightarrow> s)"

section \<open>The entries of a range\<close>

record 'a map_request =
  table_base :: 'a
  rq_vmin :: u64
  rq_len :: u64
  rq_parent :: "'a parent_chain"

record 'a map_response =
  entry_ptr :: 'a
  rs_vmin :: u64
  rs_len :: u64
  rs_parent :: "'a parent_chain"

text \<open>\<open>checked_add\<close>.\<close>

definition checked_add_u64 :: "u64 \<Rightarrow> u64 \<Rightarrow> u64 option" where
  "checked_add_u64 a b = (if unat a + unat b < 2 ^ 64 then Some (a + b) else None)"

text \<open>\<open>ModifyPteIterator::next\<close>, with the counter \<open>n\<close>.\<close>

definition next_pte :: "('s, 'a) table_ops \<Rightarrow> nat \<Rightarrow> nat \<Rightarrow> 'a map_request \<Rightarrow> u64 \<Rightarrow> 'a map_response option" where
  "next_pte op' hi lo rq n =
     (let lower_bits_mask = push_bit lo 1 - 1 :: u64 in
      case (if n = 0 then Some (rq_vmin rq) else checked_add_u64 (rq_vmin rq AND NOT lower_bits_mask) (push_bit lo n)) of
        None \<Rightarrow> None
      | Some next_vmin \<Rightarrow>
          if next_vmin \<ge> rq_vmin rq + rq_len rq then None
          else
            let len_from_here = rq_len rq - (next_vmin - rq_vmin rq);
                max_len = push_bit lo 1 - (next_vmin AND lower_bits_mask) in
            Some \<lparr>entry_ptr = entry_addr op' (table_base rq) (bits_vm hi lo next_vmin * 8),
                  rs_vmin = next_vmin, rs_len = min len_from_here max_len, rs_parent = rq_parent rq\<rparr>)"

partial_function (option) ptes_from ::
    "('s, 'a) table_ops \<Rightarrow> nat \<Rightarrow> nat \<Rightarrow> 'a map_request \<Rightarrow> u64 \<Rightarrow> 'a map_response list option"
where
  "ptes_from op' hi lo rq n =
     (case next_pte op' hi lo rq n of
        None \<Rightarrow> Some []
      | Some r \<Rightarrow> Option.bind (ptes_from op' hi lo rq (n + 1)) (\<lambda>rs. Some (r # rs)))"

definition modify_ptes :: "('s, 'a) table_ops \<Rightarrow> nat \<times> nat \<Rightarrow> 'a map_request \<Rightarrow> 'a map_response list option" where
  "modify_ptes op' level rq = ptes_from op' (fst level) (snd level) rq 0"

section \<open>Mapping\<close>

definition read_pte_if_present :: "('s, 'a) table_ops \<Rightarrow> 's \<Rightarrow> 'a \<Rightarrow> u64 option" where
  "read_pte_if_present op' s ptr =
     (let pte = read_entry op' s ptr in if pte AND PAGE_PRESENT \<noteq> 0 then Some pte else None)"

definition require_pte_exist :: "('s, 'a) table_ops \<Rightarrow> 's \<Rightarrow> 'a map_response \<Rightarrow> 'a map_request option" where
  "require_pte_exist op' s x =
     map_option (\<lambda>pte. \<lparr>table_base = from_phys op' (pte AND PTE_ADDR_MASK), rq_vmin = rs_vmin x, rq_len = rs_len x,
       rq_parent = for_child_at_entry (rs_parent x) (entry_ptr x)\<rparr>) (read_pte_if_present op' s (entry_ptr x))"

definition alloc_pte_if_needed :: "('s, 'a) table_ops \<Rightarrow> 'a map_response \<Rightarrow> 's \<Rightarrow> 'a map_request \<times> 's" where
  "alloc_pte_if_needed op' x s =
     (let new_parent = for_child_at_entry (rs_parent x) (entry_ptr x) in
      case read_pte_if_present op' s (entry_ptr x) of
        Some pte \<Rightarrow> (\<lparr>table_base = from_phys op' (pte AND PTE_ADDR_MASK), rq_vmin = rs_vmin x, rq_len = rs_len x,
          rq_parent = new_parent\<rparr>, s)
      | None \<Rightarrow>
        let (page_addr, s) = alloc_table op' s;
            s = write_entry_updating op' (rs_parent x) (entry_ptr x) (pte_for_table op' page_addr) s in
        (\<lparr>table_base = page_addr, rq_vmin = rs_vmin x, rq_len = rs_len x, rq_parent = new_parent\<rparr>, s))"

record basic_mapping =
  bm_readable :: bool
  bm_writable :: bool
  bm_executable :: bool

record cow_mapping =
  cm_readable :: bool
  cm_executable :: bool

datatype mapping_kind = Unmapped | Basic basic_mapping | Cow cow_mapping

record vm_mapping =
  phys_base :: u64
  virt_base :: u64
  map_len :: u64
  map_kind :: mapping_kind
  user_accessible :: bool

text \<open>The entry that \<open>map_page\<close> writes for the page at \<open>vmin\<close>.\<close>

definition leaf_pte :: "vm_mapping \<Rightarrow> u64 \<Rightarrow> u64" where
  "leaf_pte mapping vmin =
     (let pa = phys_base mapping + (vmin - virt_base mapping) in
      case map_kind mapping of
        Basic bm \<Rightarrow> pa OR page_nx_flag (bm_executable bm) OR PAGE_PAT_WB OR PAGE_DIRTY_SET OR PAGE_ACCESSED_SET
          OR PAGE_CACHE_ENABLED OR PAGE_WRITE_BACK OR PAGE_USER_ACCESS_DISABLED OR page_rw_flag (bm_writable bm) OR PAGE_PRESENT
      | Cow cm \<Rightarrow> pa OR page_nx_flag (cm_executable cm) OR PAGE_AVL_COW OR PAGE_PAT_WB OR PAGE_DIRTY_SET OR PAGE_ACCESSED_SET
          OR PAGE_CACHE_ENABLED OR PAGE_WRITE_BACK OR PAGE_USER_ACCESS_DISABLED OR 0 OR PAGE_PRESENT
      | Unmapped \<Rightarrow> 0)"

definition map_page :: "('s, 'a) table_ops \<Rightarrow> vm_mapping \<Rightarrow> 'a map_response \<Rightarrow> 's \<Rightarrow> 's" where
  "map_page op' mapping r s = write_entry_updating op' (rs_parent r) (entry_ptr r) (leaf_pte mapping (rs_vmin r)) s"

primrec for_each :: "('r \<Rightarrow> 's \<Rightarrow> 's option) \<Rightarrow> 'r list \<Rightarrow> 's \<Rightarrow> 's option" where
  "for_each f [] s = Some s"
| "for_each f (r # rs) s = Option.bind (f r s) (for_each f rs)"

text \<open>The bits of an address that index the tables: PML4, PDPT, PD, PT.\<close>

definition pt_levels :: "(nat \<times> nat) list" where
  "pt_levels = [(47, 39), (38, 30), (29, 21), (20, 12)]"

fun map_levels :: "('s, 'a) table_ops \<Rightarrow> vm_mapping \<Rightarrow> (nat \<times> nat) list \<Rightarrow> 'a map_request \<Rightarrow> 's \<Rightarrow> 's option" where
  "map_levels op' mapping [] rq s = Some s"
| "map_levels op' mapping [level] rq s =
     Option.bind (modify_ptes op' level rq) (\<lambda>rs. for_each (\<lambda>r s. Some (map_page op' mapping r s)) rs s)"
| "map_levels op' mapping (level # levels) rq s =
     Option.bind (modify_ptes op' level rq) (\<lambda>rs.
       for_each (\<lambda>r s. let (rq', s) = alloc_pte_if_needed op' r s in map_levels op' mapping levels rq' s) rs s)"

definition map_vm :: "('s, 'a) table_ops \<Rightarrow> 'a parent_chain \<Rightarrow> vm_mapping \<Rightarrow> 's \<Rightarrow> 's option" where
  "map_vm op' root_update_parent mapping s =
     map_levels op' mapping pt_levels
       \<lparr>table_base = root_table op' s, rq_vmin = virt_base mapping, rq_len = map_len mapping, rq_parent = root_update_parent\<rparr> s"

section \<open>Translation\<close>

primrec collect_all :: "('r \<Rightarrow> 'b list option) \<Rightarrow> 'r list \<Rightarrow> 'b list option" where
  "collect_all f [] = Some []"
| "collect_all f (r # rs) = Option.bind (f r) (\<lambda>xs. Option.bind (collect_all f rs) (\<lambda>ys. Some (xs @ ys)))"

definition leaf_mapping :: "u64 \<Rightarrow> u64 \<Rightarrow> vm_mapping" where
  "leaf_mapping vmin pte =
     (let sgn_bit = drop_bit (VA_BITS - 1) vmin;
          sgn_bits = push_bit VA_BITS (0 - sgn_bit);
          executable = (pte AND PAGE_NX = 0) in
      \<lparr>phys_base = pte AND PTE_ADDR_MASK, virt_base = sgn_bits OR vmin, map_len = of_nat PAGE_SIZE_vm,
       map_kind = (if pte AND PTE_AVL_MASK = PAGE_AVL_COW then Cow \<lparr>cm_readable = True, cm_executable = executable\<rparr>
         else Basic \<lparr>bm_readable = True, bm_writable = (pte AND PAGE_RW \<noteq> 0), bm_executable = executable\<rparr>),
       user_accessible = False\<rparr>)"

fun walk_levels :: "('s, 'a) table_ops \<Rightarrow> 's \<Rightarrow> (nat \<times> nat) list \<Rightarrow> 'a map_request \<Rightarrow> vm_mapping list option" where
  "walk_levels op' s [] rq = Some []"
| "walk_levels op' s [level] rq =
     Option.bind (modify_ptes op' level rq) (\<lambda>rs. Some (List.map_filter (\<lambda>r.
       map_option (leaf_mapping (rs_vmin r)) (read_pte_if_present op' s (entry_ptr r))) rs))"
| "walk_levels op' s (level # levels) rq =
     Option.bind (modify_ptes op' level rq) (collect_all (\<lambda>r.
       case require_pte_exist op' s r of None \<Rightarrow> Some [] | Some rq' \<Rightarrow> walk_levels op' s levels rq'))"

definition virt_to_phys :: "('s, 'a) table_ops \<Rightarrow> 's \<Rightarrow> u64 \<Rightarrow> u64 \<Rightarrow> vm_mapping list option" where
  "virt_to_phys op' s address len =
     (let addr = address AND (push_bit VA_BITS 1 - 1);
          vmin = addr AND NOT (of_nat PAGE_SIZE_vm - 1);
          vmax = min (addr + len) (push_bit VA_BITS 1) in
      walk_levels op' s pt_levels
        \<lparr>table_base = root_table op' s, rq_vmin = vmin, rq_len = vmax - vmin, rq_parent = Parent_None\<rparr>)"

section \<open>The buffer of the host\<close>

text \<open>\<open>GuestPageTableBuffer\<close>. An access outside the buffer reads 0 and writes nothing; one below its base would underflow,
  and in the 64-bit arithmetic of a release build falls outside too.\<close>

record pt_buffer =
  pt_bytes :: bytes
  pt_phys_base :: u64
  pt_root :: u64

definition pt_offset :: "pt_buffer \<Rightarrow> u64 \<Rightarrow> nat" where
  "pt_offset b addr = unat (addr - pt_phys_base b)"

definition buffer_ops :: "(pt_buffer, u64) table_ops" where
  "buffer_ops =
     \<lparr>entry_addr = (\<lambda>addr offset. addr + offset),
      read_entry = (\<lambda>b addr.
        if pt_offset b addr + 8 \<le> length (pt_bytes b) then from_le_bytes (take 8 (drop (pt_offset b addr) (pt_bytes b))) else 0),
      to_phys = (\<lambda>addr. addr),
      from_phys = (\<lambda>addr. addr),
      root_table = pt_root,
      alloc_table = (\<lambda>b. (pt_phys_base b + of_nat (length (pt_bytes b)),
        b\<lparr>pt_bytes := resize (pt_bytes b) (length (pt_bytes b) + PAGE_TABLE_SIZE) 0\<rparr>)),
      write_entry = (\<lambda>b addr entry. (None,
        if pt_offset b addr + 8 \<le> length (pt_bytes b)
        then b\<lparr>pt_bytes := write_slice (pt_bytes b) (pt_offset b addr) (to_le_bytes 8 entry)\<rparr> else b)),
      update_root = (\<lambda>impossible b. b)\<rparr>"

definition buffer_new :: "u64 \<Rightarrow> pt_buffer" where
  "buffer_new base = \<lparr>pt_bytes = replicate PAGE_TABLE_SIZE 0, pt_phys_base = base, pt_root = base\<rparr>"

end
