(* ===== verification/Vmem_Laws.thy ===== *)
theory Vmem_Laws
  imports Vmem
begin

text \<open>
  The page tables of \<open>nub-host-common\<close> are correct on every store that keeps its tables apart. A range splits into
  the parts that the iterator of a level visits (\<open>split_range\<close>, \<open>modify_ptes_split\<close>). The tables form a tree
  (\<open>tree\<close>), which mapping a range keeps: it maps each page of the range as asked and changes no other page
  (\<open>map_vm_ok\<close>). A translation lists the leaves of the pages it is asked for (\<open>virt_to_phys_found\<close>). The buffer in
  which the host builds a snapshot is such a store, so after any sequence of mappings a translation finds what the last
  mapping of each page says.
\<close>

unbundle bit_operations_syntax

section \<open>Splitting a range along the entries of a table\<close>

lemma block_end: "v < (v div 2 ^ lo + 1) * 2 ^ lo" for v :: nat
  using dividend_less_div_times [of "2 ^ lo" v] by (simp add: algebra_simps)

lemma block_gap: "(x div 2 ^ lo + 1) * 2 ^ lo - x = 2 ^ lo - x mod 2 ^ lo" for x :: nat
proof -
  have "(q + 1) * B - (q * B + r) = B - r" for q B r :: nat by (simp add: algebra_simps)
  from this [of "x div 2 ^ lo" "2 ^ lo" "x mod 2 ^ lo"] show ?thesis by (simp only: div_mult_mod_eq)
qed

text \<open>The parts of the range from \<open>v\<close> to \<open>e\<close> that lie in one block of \<open>2 ^ lo\<close> bytes each.\<close>

function split_range :: "nat \<Rightarrow> nat \<Rightarrow> nat \<Rightarrow> (nat \<times> nat) list" where
  "split_range lo v e =
     (if v < e then let m = min e ((v div 2 ^ lo + 1) * 2 ^ lo) in (v, m) # split_range lo m e else [])"
  by pat_completeness auto

termination
proof (relation "measure (\<lambda>(lo, v, e). e - v)")
  show "\<And>lo v e x. v < e \<Longrightarrow> x = min e ((v div 2 ^ lo + 1) * 2 ^ lo) \<Longrightarrow> ((lo, x, e), lo, v, e) \<in> measure (\<lambda>(lo, v, e). e - v)"
    using block_end by (simp add: diff_less_mono2)
qed simp

declare split_range.simps [simp del]

lemma bits_vm_nat:
  assumes "lo \<le> hi" "hi < 63"
  shows "bits_vm hi lo x = of_nat (unat x div 2 ^ lo mod 2 ^ (hi + 1 - lo))"
proof (rule word_unat_eq_iff [THEN iffD2])
  have m: "push_bit (hi + 1) 1 - 1 = (mask (hi + 1) :: u64)" by (simp add: mask_eq_exp_minus_1 push_bit_eq_mult)
  have "unat (bits_vm hi lo x) = drop_bit lo (take_bit (hi + 1) (unat x))"
    using assms(2) by (simp only: bits_vm_def m) (simp add: unsigned_drop_bit_eq unsigned_take_bit_eq take_bit_eq_mask [symmetric])
  also have "\<dots> = take_bit (hi + 1 - lo) (drop_bit lo (unat x))" using assms(1) by (simp add: drop_bit_take_bit)
  finally have u: "unat (bits_vm hi lo x) = unat x div 2 ^ lo mod 2 ^ (hi + 1 - lo)" by (simp add: take_bit_eq_mod drop_bit_eq_div)
  have "unat (of_nat (unat (bits_vm hi lo x)) :: u64) = unat (bits_vm hi lo x)" by simp
  then show "unat (bits_vm hi lo x) = unat (of_nat (unat x div 2 ^ lo mod 2 ^ (hi + 1 - lo)) :: u64)" by (simp add: u)
qed

text \<open>The response for one part of the range.\<close>

definition response :: "('s, 'a) table_ops \<Rightarrow> nat \<Rightarrow> 'a map_request \<Rightarrow> nat \<times> nat \<Rightarrow> 'a map_response" where
  "response op' lo rq ab =
     \<lparr>entry_ptr = entry_addr op' (table_base rq) (of_nat (8 * (fst ab div 2 ^ lo mod 512))),
      rs_vmin = of_nat (fst ab), rs_len = of_nat (snd ab - fst ab), rs_parent = rq_parent rq\<rparr>"

lemma unat_u64_less: "unat (x :: u64) < 2 ^ 64"
  using unsigned_less [of x] by simp

lemma low_mask:
  fixes x :: u64
  assumes "lo < 64"
  shows "unat (x AND NOT (2 ^ lo - 1)) = unat x div 2 ^ lo * 2 ^ lo" "unat (x AND (2 ^ lo - 1)) = unat x mod 2 ^ lo"
proof -
  have m: "2 ^ lo - 1 = (mask lo :: u64)" by (simp add: mask_eq_exp_minus_1)
  show "unat (x AND (2 ^ lo - 1)) = unat x mod 2 ^ lo"
    using assms by (simp only: m) (simp add: unsigned_take_bit_eq take_bit_eq_mod [where 'a = nat] flip: take_bit_eq_mask)
  have t: "take_bit 64 (unat x) = unat x" using unat_u64_less [of x] by (simp add: take_bit_nat_eq_self)
  have "x AND NOT (mask lo) = push_bit lo (drop_bit lo x)" by (rule bit_word_eqI) (auto simp: bit_simps)
  then have "unat (x AND NOT (mask lo)) = take_bit 64 (unat x div 2 ^ lo * 2 ^ lo)"
    by (simp add: unsigned_push_bit_eq unsigned_drop_bit_eq push_bit_eq_mult [where 'a = nat] drop_bit_eq_div [where 'a = nat] t)
  also have "\<dots> = unat x div 2 ^ lo * 2 ^ lo"
    using unat_u64_less [of x] by (intro take_bit_nat_eq_self) (simp add: order.strict_trans1 [OF div_times_less_eq_dividend])
  finally show "unat (x AND NOT (2 ^ lo - 1)) = unat x div 2 ^ lo * 2 ^ lo" by (simp only: m)
qed

lemma unat_of_nat_u64: "n < 2 ^ 64 \<Longrightarrow> unat (of_nat n :: u64) = n"
  by (simp add: unat_of_nat)

text \<open>The iterator at the part that starts at \<open>x\<close>, its \<open>n\<close>-th.\<close>

lemma next_pte_part:
  assumes "lo + 8 = hi" "lo \<le> 39" "v + l < 2 ^ 64" "l \<le> 2 ^ 48" "n * 2 ^ lo \<le> 2 ^ 49"
    and "x = (if n = 0 then v else (v div 2 ^ lo + n) * 2 ^ lo)"
    and "rq = \<lparr>table_base = base, rq_vmin = of_nat v, rq_len = of_nat l, rq_parent = up\<rparr>"
  shows "next_pte op' hi lo rq (of_nat n) =
    (if x < v + l then Some (response op' lo rq (x, min (v + l) ((x div 2 ^ lo + 1) * 2 ^ lo))) else None)"
proof -
  have n: "n < 2 ^ 64" "n * 2 ^ lo < 2 ^ 64"
  proof -
    show "n * 2 ^ lo < 2 ^ 64" using assms(5) by (rule order.strict_trans1) simp
    have "n \<le> n * 2 ^ lo" by simp
    then show "n < 2 ^ 64" using \<open>n * 2 ^ lo < 2 ^ 64\<close> by (rule le_less_trans)
  qed
  have v: "unat (of_nat v :: u64) = v" "unat (of_nat l :: u64) = l" "unat (of_nat (v + l) :: u64) = v + l"
    using assms(3) by (intro unat_of_nat_u64; simp)+
  have p: "unat (push_bit lo (of_nat n) :: u64) = n * 2 ^ lo"
    using n by (simp add: unsigned_push_bit_eq unat_of_nat_u64 push_bit_eq_mult [where 'a = nat] take_bit_nat_eq_self)
  define w :: u64 where "w = of_nat x"
  have w: "unat w = x" if "x < 2 ^ 64" using that by (simp add: w_def unat_of_nat)
  have n0: "(of_nat n :: u64) = 0 \<longleftrightarrow> n = 0" using n(1) by (simp add: word_unat_eq_iff unat_of_nat_u64)
  have al: "unat (rq_vmin rq AND NOT (2 ^ lo - 1)) = v div 2 ^ lo * 2 ^ lo"
    using assms(2,7) by (simp add: low_mask v(1))
  have cand: "(if (of_nat n :: u64) = 0 then Some (rq_vmin rq)
      else checked_add_u64 (rq_vmin rq AND NOT (2 ^ lo - 1)) (push_bit lo (of_nat n))) =
      (if x < 2 ^ 64 then Some w else None)"
  proof (cases "n = 0")
    case False
    then have x: "x = v div 2 ^ lo * 2 ^ lo + n * 2 ^ lo" using assms(6) by (simp add: algebra_simps)
    have "(rq_vmin rq AND NOT (2 ^ lo - 1)) + push_bit lo (of_nat n) = w" if "x < 2 ^ 64"
      using that x by (simp add: word_unat_eq_iff unat_word_ariths al p w)
    then show ?thesis using False x by (simp add: n0 checked_add_u64_def al p)
  qed (use assms(3,6,7) in \<open>simp add: w_def\<close>)
  have len: "of_nat v + of_nat l = (of_nat (v + l) :: u64)" by simp
  have "next_pte op' hi lo rq (of_nat n) = (if x < 2 ^ 64 \<and> x < v + l then
      Some \<lparr>entry_ptr = entry_addr op' base (bits_vm hi lo w * 8), rs_vmin = w,
        rs_len = min (of_nat l - (w - of_nat v)) (2 ^ lo - (w AND (2 ^ lo - 1))), rs_parent = up\<rparr> else None)"
    unfolding next_pte_def Let_def push_bit_of_1 cand using w v assms(7)
    by (auto simp: word_le_nat_alt len simp del: of_nat_add split: option.splits)
  moreover have "response op' lo rq (x, min (v + l) ((x div 2 ^ lo + 1) * 2 ^ lo)) =
      \<lparr>entry_ptr = entry_addr op' base (bits_vm hi lo w * 8), rs_vmin = w,
        rs_len = min (of_nat l - (w - of_nat v)) (2 ^ lo - (w AND (2 ^ lo - 1))), rs_parent = up\<rparr>" if x: "x < v + l"
  proof -
    have wx: "unat w = x" using w x assms(3) by simp
    have i: "bits_vm hi lo w * 8 = of_nat (8 * (x div 2 ^ lo mod 512))"
      using bits_vm_nat [of lo hi w] assms(1,2) wx by (auto simp: mult.commute)
    have vx: "v \<le> x" using assms(6) block_end [of v lo] by (cases n) (auto simp: algebra_simps)
    have a1: "of_nat l - (w - of_nat v) = (of_nat (v + l - x) :: u64)" using vx x by (simp add: w_def of_nat_diff)
    have a2: "2 ^ lo - (w AND (2 ^ lo - 1)) = (of_nat ((x div 2 ^ lo + 1) * 2 ^ lo - x) :: u64)"
    proof -
      have "w AND (2 ^ lo - 1) = of_nat (x mod 2 ^ lo)"
      proof (rule word_unat_eq_iff [THEN iffD2])
        have "x mod 2 ^ lo < 2 ^ 64" using unat_u64_less [of w] wx by (simp add: order.strict_trans1 [OF mod_less_eq_dividend])
        then show "unat (w AND (2 ^ lo - 1)) = unat (of_nat (x mod 2 ^ lo) :: u64)"
          using low_mask(2) [of lo w] assms(2) by (simp add: wx unat_of_nat_u64)
      qed
      then show ?thesis unfolding block_gap by (simp add: of_nat_diff less_imp_le)
    qed
    have "min (of_nat l - (w - of_nat v)) (2 ^ lo - (w AND (2 ^ lo - 1))) =
        (of_nat (min (v + l) ((x div 2 ^ lo + 1) * 2 ^ lo) - x) :: u64)" unfolding a1 a2
    proof -
      have "(x div 2 ^ lo + 1) * 2 ^ lo - x \<le> 2 ^ lo" unfolding block_gap by simp
      moreover have "(2::nat) ^ lo \<le> 2 ^ 39" using assms(2) by (rule power_increasing) simp
      ultimately have "(x div 2 ^ lo + 1) * 2 ^ lo - x < 2 ^ 64" "v + l - x < 2 ^ 64" using assms(3) by auto
      then have "unat (of_nat ((x div 2 ^ lo + 1) * 2 ^ lo - x) :: u64) = (x div 2 ^ lo + 1) * 2 ^ lo - x"
          "unat (of_nat (v + l - x) :: u64) = v + l - x" by (simp_all only: unat_of_nat_u64)
      then show "min (of_nat (v + l - x)) (of_nat ((x div 2 ^ lo + 1) * 2 ^ lo - x)) = (of_nat (min (v + l) ((x div 2 ^ lo + 1) * 2 ^ lo) - x) :: u64)"
        by (simp only: min_def word_le_nat_alt) (auto simp: min_def)
    qed
    then show ?thesis using assms(7) i by (simp add: response_def w_def)
  qed
  ultimately show ?thesis using assms(3) by auto
qed

lemma split_step:
  "v < e \<Longrightarrow> split_range lo v e = (v, min e ((v div 2 ^ lo + 1) * 2 ^ lo)) # split_range lo (min e ((v div 2 ^ lo + 1) * 2 ^ lo)) e"
  "e \<le> v \<Longrightarrow> split_range lo v e = []"
  by (subst split_range.simps, simp add: Let_def)+

lemma ptes_from_split:
  assumes lo: "lo + 8 = hi" "lo \<le> 39" and l: "v + l < 2 ^ 64" "l \<le> 2 ^ 48"
    and rq: "rq = \<lparr>table_base = base, rq_vmin = of_nat v, rq_len = of_nat l, rq_parent = up\<rparr>"
    and "x = (if n = 0 then v else (v div 2 ^ lo + n) * 2 ^ lo)" "n * 2 ^ lo \<le> 2 ^ 49"
  shows "ptes_from op' hi lo rq (of_nat n) = Some (map (response op' lo rq) (split_range lo x (v + l)))"
  using assms(6,7)
proof (induction "v + l - x" arbitrary: x n rule: less_induct)
  case less
  note part = next_pte_part [OF lo l less.prems(2,1) rq, of op']
  show ?case
  proof (cases "x < v + l")
    case True
    let ?y = "(v div 2 ^ lo + Suc n) * 2 ^ lo"
    have y: "(x div 2 ^ lo + 1) * 2 ^ lo = ?y" using less.prems(1) by simp
    have "x < ?y" using block_end [of x lo] y by simp
    have "(2::nat) ^ lo \<le> 2 ^ 39" using lo(2) by (rule power_increasing) simp
    moreover have "n * 2 ^ lo \<le> l + 2 ^ lo"
    proof (cases "n = 0")
      case False
      then have "v div 2 ^ lo * 2 ^ lo + n * 2 ^ lo < v + l" using True less.prems(1) by (simp add: algebra_simps)
      then show ?thesis using block_end [of v lo] by (simp add: algebra_simps)
    qed simp
    ultimately have n: "Suc n * 2 ^ lo \<le> 2 ^ 49" using l(2) by (simp add: algebra_simps)
    have ih: "ptes_from op' hi lo rq (of_nat (Suc n)) = Some (map (response op' lo rq) (split_range lo ?y (v + l)))"
      by (rule less.hyps) (use \<open>x < ?y\<close> True n in \<open>auto simp: diff_less_mono2\<close>)
    have m: "split_range lo (min (v + l) ?y) (v + l) = split_range lo ?y (v + l)"
      by (cases "?y \<le> v + l") (simp_all add: split_step(2))
    show ?thesis
      by (subst ptes_from.simps) (use True part ih m y in \<open>simp add: split_step add.commute del: mult_Suc\<close>)
  next
    case False
    then show ?thesis by (subst ptes_from.simps) (simp add: part split_step)
  qed
qed

text \<open>The iterator yields the parts of its range.\<close>

lemma modify_ptes_split:
  assumes "lo \<le> 39" "v \<le> e" "e < 2 ^ 64" "e - v \<le> 2 ^ 48"
    and "rq = \<lparr>table_base = base, rq_vmin = of_nat v, rq_len = of_nat (e - v), rq_parent = up\<rparr>"
  shows "modify_ptes op' (lo + 8, lo) rq = Some (map (response op' lo rq) (split_range lo v e))"
  using ptes_from_split [of lo "lo + 8" v "e - v" rq base up v 0 op'] assms by (simp add: modify_ptes_def)

lemma part_block:
  fixes x e b :: nat
  assumes "x < e" "b = min e ((x div 2 ^ lo + 1) * 2 ^ lo)"
  shows "x < b" "b \<le> e" "(b - 1) div 2 ^ lo = x div 2 ^ lo" "12 \<le> lo \<Longrightarrow> b = e \<or> 4096 dvd b"
proof -
  show b: "x < b" "b \<le> e" using assms block_end [of x lo] by (auto simp: min_def)
  show "(b - 1) div 2 ^ lo = x div 2 ^ lo"
  proof (rule div_nat_eqI)
    have "2 ^ lo * (x div 2 ^ lo) \<le> x" by simp
    then show "2 ^ lo * (x div 2 ^ lo) \<le> b - 1" using b(1) by linarith
    show "b - 1 < 2 ^ lo * Suc (x div 2 ^ lo)" using b(1) assms(2) by (auto simp: algebra_simps)
  qed
  show "b = e \<or> 4096 dvd b" if "12 \<le> lo"
    using le_imp_power_dvd [OF that, of "2 :: nat"] assms(2) by (auto simp: min_def)
qed

section \<open>The tree of tables\<close>

text \<open>Entry \<open>i\<close> of the table at \<open>a\<close>, the table it refers to, and the table at the end of a path of indices.\<close>

definition pte_at :: "('s, 'a) table_ops \<Rightarrow> 's \<Rightarrow> 'a \<Rightarrow> nat \<Rightarrow> u64" where
  "pte_at op' s a i = read_entry op' s (entry_addr op' a (of_nat (8 * i)))"

definition present :: "u64 \<Rightarrow> u64 option" where
  "present pte = (if pte AND PAGE_PRESENT \<noteq> 0 then Some pte else None)"

definition next_table :: "('s, 'a) table_ops \<Rightarrow> 's \<Rightarrow> 'a \<Rightarrow> nat \<Rightarrow> 'a option" where
  "next_table op' s a i = map_option (\<lambda>pte. from_phys op' (pte AND PTE_ADDR_MASK)) (present (pte_at op' s a i))"

definition descend :: "('s, 'a) table_ops \<Rightarrow> 's \<Rightarrow> nat list \<Rightarrow> 'a option" where
  "descend op' s p = foldl (\<lambda>a i. Option.bind a (\<lambda>a. next_table op' s a i)) (Some (root_table op' s)) p"

definition leaf :: "('s, 'a) table_ops \<Rightarrow> 's \<Rightarrow> nat list \<Rightarrow> nat \<Rightarrow> u64 option" where
  "leaf op' s p i = Option.bind (descend op' s p) (\<lambda>a. present (pte_at op' s a i))"

lemma descend_simps [simp]:
  "descend op' s [] = Some (root_table op' s)" "descend op' s (p @ [i]) = Option.bind (descend op' s p) (\<lambda>a. next_table op' s a i)"
  by (simp_all add: descend_def)

lemma present_0 [simp]: "present 0 = None"
  by (simp add: present_def)

text \<open>Paths to tables: at most three indices.\<close>

definition table_path :: "nat list \<Rightarrow> bool" where
  "table_path p \<longleftrightarrow> length p \<le> 3 \<and> (\<forall>i \<in> set p. i < 512)"

lemma table_path_simps [simp]: "table_path []" "table_path (p @ [i]) \<longleftrightarrow> length p \<le> 2 \<and> i < 512 \<and> (\<forall>i \<in> set p. i < 512)"
  by (auto simp: table_path_def)

lemma table_path_snocD: "table_path (p @ [i]) \<Longrightarrow> table_path p \<and> i < 512"
  by (simp add: table_path_def)

lemmas pte_flags = PAGE_PRESENT_def PAGE_RW_def PAGE_NX_def PTE_ADDR_MASK_def PAGE_USER_ACCESS_DISABLED_def PAGE_DIRTY_SET_def
  PAGE_ACCESSED_SET_def PAGE_CACHE_ENABLED_def PAGE_WRITE_BACK_def PAGE_PAT_WB_def PTE_AVL_MASK_def PAGE_AVL_COW_def

lemma addr_mask:
  assumes "pa AND NOT PTE_ADDR_MASK = 0" "flags AND PTE_ADDR_MASK = 0"
  shows "(pa OR flags) AND PTE_ADDR_MASK = pa" "m AND PTE_ADDR_MASK = 0 \<Longrightarrow> (pa OR flags) AND m = flags AND m"
proof -
  have "pa = pa AND (PTE_ADDR_MASK OR NOT PTE_ADDR_MASK)" by simp
  then have pa: "pa AND PTE_ADDR_MASK = pa" using assms(1) by (simp only: bit.conj_disj_distrib) simp
  then show "(pa OR flags) AND PTE_ADDR_MASK = pa" using assms(2) by (simp add: bit.conj_disj_distrib2)
  assume "m AND PTE_ADDR_MASK = 0"
  moreover have "pa AND m = pa AND (PTE_ADDR_MASK AND m)" by (simp only: and.assoc [symmetric] pa)
  ultimately have "pa AND m = 0" by (simp add: and.commute)
  then show "(pa OR flags) AND m = flags AND m" by (simp add: bit.conj_disj_distrib2)
qed

locale page_store =
  fixes op' :: "('s, 'a) table_ops" and ok :: "'s \<Rightarrow> bool" and tables :: "'s \<Rightarrow> 'a set" and room :: "'s \<Rightarrow> nat"
  assumes root_ok: "ok s \<Longrightarrow> root_table op' s \<in> tables s"
    and write_ok: "ok s \<Longrightarrow> a \<in> tables s \<Longrightarrow> i < 512 \<Longrightarrow>
      \<exists>s'. write_entry op' s (entry_addr op' a (of_nat (8 * i))) e = (None, s') \<and> ok s' \<and> tables s' = tables s \<and> room s' = room s \<and>
        root_table op' s' = root_table op' s \<and>
        (\<forall>b \<in> tables s. \<forall>j < 512. pte_at op' s' b j = (if b = a \<and> j = i then e else pte_at op' s b j))"
    and alloc_ok: "ok s \<Longrightarrow> 0 < room s \<Longrightarrow>
      \<exists>a s'. alloc_table op' s = (a, s') \<and> a \<notin> tables s \<and> ok s' \<and> tables s' = insert a (tables s) \<and> Suc (room s') = room s \<and>
        root_table op' s' = root_table op' s \<and> (\<forall>j < 512. pte_at op' s' a j = 0) \<and>
        (\<forall>b \<in> tables s. \<forall>j < 512. pte_at op' s' b j = pte_at op' s b j)"
    and phys_ok: "ok s \<Longrightarrow> a \<in> tables s \<Longrightarrow> to_phys op' a AND NOT PTE_ADDR_MASK = 0 \<and> from_phys op' (to_phys op' a) = a"
begin

text \<open>Every path leads to a table of the store, and no two paths to the same one.\<close>

definition tree :: "'s \<Rightarrow> bool" where
  "tree s \<longleftrightarrow> ok s \<and> (\<forall>p a. table_path p \<longrightarrow> descend op' s p = Some a \<longrightarrow> a \<in> tables s) \<and>
     (\<forall>p q a. table_path p \<longrightarrow> table_path q \<longrightarrow> descend op' s p = Some a \<longrightarrow> descend op' s q = Some a \<longrightarrow> p = q)"

lemma treeD:
  assumes "tree s" "table_path p" "descend op' s p = Some a"
  shows "ok s" "a \<in> tables s" "table_path q \<Longrightarrow> descend op' s q = Some a \<Longrightarrow> q = p"
  using assms by (auto simp: tree_def)

lemma pte_for_table_ok:
  assumes "ok s" "a \<in> tables s"
  shows "from_phys op' (pte_for_table op' a AND PTE_ADDR_MASK) = a" "present (pte_for_table op' a) = Some (pte_for_table op' a)"
proof -
  let ?f = "PAGE_ACCESSED_SET OR PAGE_CACHE_ENABLED OR PAGE_WRITE_BACK OR PAGE_USER_ACCESS_DISABLED OR PAGE_RW OR PAGE_PRESENT"
  have p: "to_phys op' a AND NOT PTE_ADDR_MASK = 0" "?f AND PTE_ADDR_MASK = 0" using phys_ok [OF assms] by (simp_all add: pte_flags)
  have e: "pte_for_table op' a = to_phys op' a OR ?f" by (simp add: pte_for_table_def or.assoc)
  show "from_phys op' (pte_for_table op' a AND PTE_ADDR_MASK) = a" unfolding e addr_mask(1) [OF p] using phys_ok [OF assms] by simp
  have "(to_phys op' a OR ?f) AND PAGE_PRESENT = ?f AND PAGE_PRESENT" by (rule addr_mask(2) [OF p]) (simp add: pte_flags)
  then show "present (pte_for_table op' a) = Some (pte_for_table op' a)" by (simp add: present_def e) (simp add: pte_flags)
qed

text \<open>Writing an entry of the table at \<open>p\<close>.\<close>

lemma descend_write:
  assumes t: "tree s" "table_path p" "descend op' s p = Some a" "i < 512"
    and r: "root_table op' s' = root_table op' s" "\<forall>b \<in> tables s. \<forall>j < 512. pte_at op' s' b j = (if b = a \<and> j = i then e else pte_at op' s b j)"
  shows "table_path q \<Longrightarrow> take (Suc (length p)) q \<noteq> p @ [i] \<Longrightarrow> descend op' s' q = descend op' s q"
proof (induction q rule: rev_induct)
  case (snoc j q)
  have q: "table_path q" "j < 512" using table_path_snocD [OF snoc.prems(1)] by auto
  have "take (Suc (length p)) q \<noteq> p @ [i]" using snoc.prems(2) by (auto simp: take_Cons' split: if_splits)
  then have ih: "descend op' s' q = descend op' s q" using snoc.IH q by simp
  have "next_table op' s' b j = next_table op' s b j" if "descend op' s q = Some b" for b
  proof -
    have "b \<in> tables s" using treeD(2) [OF t(1) q(1) that] .
    moreover have "\<not> (b = a \<and> j = i)" using treeD(3) [OF t(1,2,3) q(1)] that snoc.prems(2) by auto
    ultimately show ?thesis using r(2) q(2) by (auto simp: next_table_def)
  qed
  then show ?case using ih by (cases "descend op' s q") auto
qed (simp add: r)

end

context page_store
begin

text \<open>What an operation on the tables leaves as it was: the tree, with all the tables it had.\<close>

definition grows :: "'s \<Rightarrow> 's \<Rightarrow> bool" where
  "grows s s' \<longleftrightarrow> tree s' \<and> (\<forall>q a. table_path q \<longrightarrow> descend op' s q = Some a \<longrightarrow> descend op' s' q = Some a)"

lemma growsD: "grows s s' \<Longrightarrow> tree s'" "grows s s' \<Longrightarrow> table_path q \<Longrightarrow> descend op' s q = Some a \<Longrightarrow> descend op' s' q = Some a"
  by (simp_all add: grows_def)

lemma grows_refl: "tree s \<Longrightarrow> grows s s"
  by (simp add: grows_def)

lemma grows_trans: "grows s s' \<Longrightarrow> grows s' s'' \<Longrightarrow> grows s s''"
  by (simp add: grows_def)

lemma leaf_write:
  assumes t: "tree s" "table_path p" "descend op' s p = Some a" "i < 512" "length p = 3"
    and s': "s' = write_entry_updating op' up (entry_addr op' a (of_nat (8 * i))) e s"
  shows "grows s s'" "room s' = room s"
    "table_path q \<Longrightarrow> j < 512 \<Longrightarrow> leaf op' s' q j = (if q = p \<and> j = i then present e else leaf op' s q j)"
proof -
  have w: "ok s'" "tables s' = tables s" "root_table op' s' = root_table op' s" "room s' = room s"
      and pt: "\<forall>b \<in> tables s. \<forall>j < 512. pte_at op' s' b j = (if b = a \<and> j = i then e else pte_at op' s b j)"
    using write_ok [OF treeD(1,2) [OF t(1-3)] t(4), of e] by (auto simp: s' write_entry_updating_def)
  have d: "descend op' s' q = descend op' s q" if "table_path q" for q
    by (rule descend_write [OF t(1-4) w(3) pt that]) (use that t(5) in \<open>auto simp: table_path_def dest!: arg_cong [where f = length]\<close>)
  then show "grows s s'" using t(1) w by (auto simp: grows_def tree_def)
  show "room s' = room s" by (rule w)
  show "leaf op' s' q j = (if q = p \<and> j = i then present e else leaf op' s q j)" if q: "table_path q" "j < 512"
  proof (cases "descend op' s q")
    case (Some b)
    then have "pte_at op' s' b j = (if b = a \<and> j = i then e else pte_at op' s b j)" using pt treeD(2) [OF t(1) q(1)] q(2) by simp
    moreover have "b = a \<longleftrightarrow> q = p" using treeD(3) [OF t(1-3) q(1)] Some t(3) by auto
    ultimately show ?thesis using d [OF q(1)] Some by (simp add: leaf_def)
  qed (use d [OF q(1)] t(3) in \<open>auto simp: leaf_def\<close>)
qed

text \<open>The table below entry \<open>i\<close> of the table at \<open>p\<close>, allocated if there was none.\<close>

lemma link_table:
  assumes t: "tree s" "table_path (p @ [i])" "descend op' s p = Some a" "0 < room s"
    and x: "entry_ptr x = entry_addr op' a (of_nat (8 * i))"
  obtains b up s' where "alloc_pte_if_needed op' x s = (\<lparr>table_base = b, rq_vmin = rs_vmin x, rq_len = rs_len x, rq_parent = up\<rparr>, s')"
    "grows s s'" "room s \<le> Suc (room s')" "descend op' s' (p @ [i]) = Some b"
    "\<And>q j. table_path q \<Longrightarrow> length q = 3 \<Longrightarrow> j < 512 \<Longrightarrow> leaf op' s' q j = leaf op' s q j"
proof -
  have p: "table_path p" "i < 512" using table_path_snocD [OF t(2)] by auto
  have pr: "read_pte_if_present op' s (entry_ptr x) = present (pte_at op' s a i)"
    by (simp add: read_pte_if_present_def present_def pte_at_def x Let_def)
  show thesis
  proof (cases "present (pte_at op' s a i)")
    case (Some e)
    then show ?thesis using t(3) pr that [OF _ grows_refl [OF t(1)]]
      by (simp add: alloc_pte_if_needed_def next_table_def)
  next
    case None
    obtain b s1 where a1: "alloc_table op' s = (b, s1)" "b \<notin> tables s" "ok s1" "tables s1 = insert b (tables s)" "Suc (room s1) = room s"
        "root_table op' s1 = root_table op' s" "\<forall>j < 512. pte_at op' s1 b j = 0" "\<forall>c \<in> tables s. \<forall>j < 512. pte_at op' s1 c j = pte_at op' s c j"
      using alloc_ok [OF treeD(1) [OF t(1) p(1) t(3)] t(4)] by auto
    have at: "a \<in> tables s" by (rule treeD(2) [OF t(1) p(1) t(3)])
    define s2 where "s2 = write_entry_updating op' (rs_parent x) (entry_ptr x) (pte_for_table op' b) s1"
    have w: "ok s2" "tables s2 = insert b (tables s)" "root_table op' s2 = root_table op' s" "Suc (room s2) = room s"
        and pt: "\<And>c j. c \<in> insert b (tables s) \<Longrightarrow> j < 512 \<Longrightarrow>
          pte_at op' s2 c j = (if c = a \<and> j = i then pte_for_table op' b else if c = b then 0 else pte_at op' s c j)"
      using write_ok [OF a1(3) _ p(2), of a "pte_for_table op' b"] a1 at by (auto simp: s2_def write_entry_updating_def x)
    note ptb = pte_for_table_ok [OF w(1), of b]
    have nx: "next_table op' s2 a i = Some b" "next_table op' s a i = None"
      using pt [of a i] at p(2) ptb w(2) None by (simp_all add: next_table_def)
    have none: "descend op' s (p @ [i]) = None" using nx(2) t(3) by simp
    have d: "descend op' s2 q = (if q = p @ [i] then Some b else descend op' s q)" if "table_path q" for q
      using that
    proof (induction q rule: rev_induct)
      case (snoc j q)
      have q: "table_path q" "j < 512" using table_path_snocD [OF snoc.prems] by auto
      have ih: "descend op' s2 q = (if q = p @ [i] then Some b else descend op' s q)" by (rule snoc.IH [OF q(1)])
      show ?case
      proof (cases "q = p @ [i]")
        case True
        then have "descend op' s2 q = Some b" "descend op' s q = None" using ih none by (simp_all only: refl if_True)
        moreover have "next_table op' s2 b j = None" using pt [of b j] q(2) a1(2) at by (auto simp: next_table_def)
        moreover have "q @ [j] \<noteq> p @ [i]" using True by simp
        ultimately show ?thesis by simp
      next
        case False
        have "next_table op' s2 c j = (if q @ [j] = p @ [i] then Some b else next_table op' s c j)" if c: "descend op' s q = Some c" for c
        proof -
          have "c \<in> tables s" by (rule treeD(2) [OF t(1) q(1) c])
          moreover have "c = a \<longleftrightarrow> q = p" using treeD(3) [OF t(1) p(1) t(3) q(1)] c t(3) by auto
          ultimately show ?thesis using nx(1) pt [of c j] q(2) a1(2) by (auto simp: next_table_def)
        qed
        then show ?thesis using ih False t(3) by (cases "descend op' s q") auto
      qed
    qed (simp add: w)
    have in_s: "c \<in> tables s" if "table_path q" "descend op' s q = Some c" for q c by (rule treeD(2) [OF t(1) that])
    have "tree s2" unfolding tree_def
      using w(1,2) d in_s a1(2) treeD(3) [OF t(1)] by (auto split: if_splits)
    then have g: "grows s s2" using d none by (auto simp: grows_def)
    have "leaf op' s2 q j = leaf op' s q j" if q: "table_path q" "length q = 3" "j < 512" for q j
    proof (cases "q = p @ [i]")
      case True
      then have "descend op' s2 q = Some b" "descend op' s q = None" using d [OF q(1)] none by (simp_all only: refl if_True)
      then show ?thesis using pt [of b j] q(3) a1(2) at by (auto simp: leaf_def)
    next
      case False
      have "q \<noteq> p" using q(2) t(2) by auto
      then have "pte_at op' s2 c j = pte_at op' s c j" if "descend op' s q = Some c" for c
        using treeD(3) [OF t(1) p(1) t(3) q(1)] in_s [OF q(1) that] pt [of c j] q(3) a1(2) that by auto
      then show ?thesis using d [OF q(1)] False by (cases "descend op' s q") (simp_all add: leaf_def)
    qed
    then show ?thesis using that [OF _ g] w(4) d [OF t(2)] pr None a1(1)
      by (auto simp: alloc_pte_if_needed_def Let_def s2_def)
  qed
qed

end

section \<open>Addresses\<close>

text \<open>The indices of an address in the tables of the first \<open>d\<close> levels, and its page within the 48 bits that are translated.\<close>

definition va_path :: "nat \<Rightarrow> nat \<Rightarrow> nat list" where
  "va_path d x = map (\<lambda>lo. x div 2 ^ lo mod 512) (take d [39, 30, 21, 12])"

definition page_no :: "nat \<Rightarrow> nat" where
  "page_no x = x div 4096 mod 2 ^ 36"

lemma va_path_0 [simp]: "va_path 0 x = []"
  by (simp add: va_path_def)

lemma va_path_Suc: "d < 4 \<Longrightarrow> va_path (Suc d) x = va_path d x @ [x div 2 ^ (39 - 9 * d) mod 512]"
proof -
  assume d: "d < 4"
  then have n: "[39, 30, 21, 12] ! d = 39 - 9 * d" by (auto simp: less_Suc_eq numeral_eq_Suc)
  have "take (Suc d) [39, 30, 21, 12 :: nat] = take d [39, 30, 21, 12] @ [[39, 30, 21, 12] ! d]"
    by (rule take_Suc_conv_app_nth) (use d in simp)
  then show ?thesis by (simp only: va_path_def n map_append list.map)
qed

lemma va_path_table: "d \<le> 3 \<Longrightarrow> table_path (va_path d x)"
  by (auto simp: table_path_def va_path_def)

lemma length_va_path: "d \<le> 4 \<Longrightarrow> length (va_path d x) = d"
  by (simp add: va_path_def)

text \<open>Addresses in the same block of a table at level \<open>d\<close> have the same path to it.\<close>

lemma va_path_block:
  "d \<le> 4 \<Longrightarrow> x div 2 ^ (48 - 9 * d) = y div 2 ^ (48 - 9 * d) \<Longrightarrow> va_path d x = va_path d y"
proof (induction d)
  case (Suc d)
  have d: "d < 4" "48 - 9 * Suc d = 39 - 9 * d" "39 - 9 * d + 9 = 48 - 9 * d" using Suc.prems(1) by auto
  have b: "z div 2 ^ (48 - 9 * d) = z div 2 ^ (39 - 9 * d) div 2 ^ 9" for z :: nat
    by (simp only: d(3) [symmetric] power_add div_mult2_eq)
  have e: "x div 2 ^ (39 - 9 * d) = y div 2 ^ (39 - 9 * d)" using Suc.prems(2) d(2) by simp
  then have "va_path d x = va_path d y" by (intro Suc.IH) (use Suc.prems(1) in \<open>simp_all add: b\<close>)
  then show ?case using e by (simp add: va_path_Suc d(1))
qed simp

lemma page_no_path: "va_path 4 x = va_path 4 y \<longleftrightarrow> page_no x = page_no y"
proof -
  have digits: "z mod 2 ^ 36 = w mod 2 ^ 36 \<longleftrightarrow> z mod 512 = w mod 512 \<and> z div 512 mod 512 = w div 512 mod 512 \<and>
      z div 512 div 512 mod 512 = w div 512 div 512 mod 512 \<and>
      z div 512 div 512 div 512 mod 512 = w div 512 div 512 div 512 mod 512" for z w :: nat
  proof -
    have s: "z mod (512 * k) = w mod (512 * k) \<longleftrightarrow> z mod 512 = w mod 512 \<and> z div 512 mod k = w div 512 mod k" if "0 < k" for k z w :: nat
    proof -
      have "x mod (512 * k) mod 512 = x mod 512" "x mod (512 * k) div 512 = x div 512 mod k" for x
        by (simp_all add: mod_mod_cancel mod_mult2_eq)
      then show ?thesis by (metis mod_mult2_eq)
    qed
    have "(2::nat) ^ 36 = 512 * (512 * (512 * 512))" by simp
    then show ?thesis by (simp only: s)
  qed
  have d: "x div 2 ^ 39 = x div 4096 div 512 div 512 div 512" "x div 2 ^ 30 = x div 4096 div 512 div 512" "x div 2 ^ 21 = x div 4096 div 512"
    for x :: nat by (simp_all add: div_mult2_eq [symmetric])
  have p: "va_path 4 x = [x div 2 ^ 39 mod 512, x div 2 ^ 30 mod 512, x div 2 ^ 21 mod 512, x div 4096 mod 512]" for x
    by (simp add: va_path_def)
  show ?thesis unfolding page_no_def digits p d by auto
qed

text \<open>Distinct pages of a range that stays within 48 bits.\<close>

lemma page_no_inj:
  assumes "x div 2 ^ 48 = y div 2 ^ 48" "4096 dvd x" "4096 dvd y" "page_no x = page_no y"
  shows "x = y"
proof -
  have "z div 4096 div 2 ^ 36 = z div 2 ^ 48" for z :: nat by (simp add: div_mult2_eq [symmetric])
  then have "x div 4096 = y div 4096" using assms(1,4) unfolding page_no_def by (metis div_mult_mod_eq)
  then show ?thesis using assms(2,3) by (metis dvd_div_mult_self)
qed

lemma div_between: "a \<le> x \<Longrightarrow> x \<le> b \<Longrightarrow> a div n = b div n \<Longrightarrow> x div n = a div n" for n :: nat
  by (metis div_le_mono le_antisym)

definition leaf_at :: "('s, 'a) table_ops \<Rightarrow> 's \<Rightarrow> nat \<Rightarrow> u64 option" where
  "leaf_at op' s x = leaf op' s (va_path 3 x) (x div 4096 mod 512)"

context page_store
begin

text \<open>The pages from \<open>v\<close> to \<open>e\<close> are mapped as \<open>m\<close> says, and no other page changes.\<close>

definition mapped :: "vm_mapping \<Rightarrow> nat \<Rightarrow> nat \<Rightarrow> 's \<Rightarrow> 's \<Rightarrow> bool" where
  "mapped m v e s s' \<longleftrightarrow> grows s s' \<and>
     (\<forall>y. v \<le> y \<longrightarrow> y < e \<longrightarrow> 4096 dvd y \<longrightarrow> leaf_at op' s' y = present (leaf_pte m (of_nat y))) \<and>
     (\<forall>x. (\<forall>y. v \<le> y \<longrightarrow> y < e \<longrightarrow> 4096 dvd y \<longrightarrow> page_no y \<noteq> page_no x) \<longrightarrow> leaf_at op' s' x = leaf_at op' s x)"

lemma mapped_refl: "tree s \<Longrightarrow> mapped m v v s s"
  by (simp add: mapped_def grows_refl)

lemma mapped_grows: "mapped m v e s s' \<Longrightarrow> grows s s'"
  by (simp add: mapped_def)

lemma mapped_trans:
  assumes "mapped m v b s s'" "mapped m b e s' s''" "v \<le> b" "b \<le> e" "v < e \<Longrightarrow> v div 2 ^ 48 = (e - 1) div 2 ^ 48"
  shows "mapped m v e s s''"
proof -
  have blk: "y div 2 ^ 48 = v div 2 ^ 48" if "v \<le> y" "y < e" for y
    by (rule div_between [of v y "e - 1"]) (use that assms(5) in auto)
  have "leaf_at op' s'' y = present (leaf_pte m (of_nat y))" if y: "v \<le> y" "y < e" "4096 dvd y" for y
  proof (cases "b \<le> y")
    case False
    have "page_no z \<noteq> page_no y" if "b \<le> z" "z < e" "4096 dvd z" for z
      using page_no_inj [of z y] blk [of z] blk [of y] that y False assms(3) by auto
    then have "leaf_at op' s'' y = leaf_at op' s' y" using assms(2) by (simp add: mapped_def)
    then show ?thesis using assms(1) y False by (simp add: mapped_def)
  qed (use assms(2) y in \<open>simp add: mapped_def\<close>)
  moreover have "leaf_at op' s'' x = leaf_at op' s x" if "\<forall>y. v \<le> y \<longrightarrow> y < e \<longrightarrow> 4096 dvd y \<longrightarrow> page_no y \<noteq> page_no x" for x
    using assms that unfolding mapped_def by (metis le_trans less_le_trans)
  ultimately show ?thesis using grows_trans assms(1,2) unfolding mapped_def by blast
qed

text \<open>A loop over the parts of a range, each of which takes at most \<open>c\<close> new tables per page.\<close>

lemma for_parts:
  assumes part: "\<And>a b s. v \<le> a \<Longrightarrow> a < b \<Longrightarrow> b \<le> e \<Longrightarrow> a div 2 ^ lo = (b - 1) div 2 ^ lo \<Longrightarrow> 4096 dvd a \<Longrightarrow> 4096 dvd b \<Longrightarrow>
      grows s0 s \<Longrightarrow> c * ((b - a) div 4096) \<le> room s \<Longrightarrow>
      \<exists>s'. f (a, b) s = Some s' \<and> mapped m a b s s' \<and> room s \<le> room s' + c * ((b - a) div 4096)"
    and e: "4096 dvd e" "12 \<le> lo" "v < e \<Longrightarrow> v div 2 ^ 48 = (e - 1) div 2 ^ 48"
  shows "v \<le> x \<Longrightarrow> x \<le> e \<Longrightarrow> 4096 dvd x \<Longrightarrow> grows s0 s \<Longrightarrow> c * ((e - x) div 4096) \<le> room s \<Longrightarrow>
    \<exists>s'. for_each f (split_range lo x e) s = Some s' \<and> mapped m x e s s' \<and> room s \<le> room s' + c * ((e - x) div 4096)"
proof (induction "e - x" arbitrary: x s rule: less_induct)
  case less
  show ?case
  proof (cases "x < e")
    case True
    define b where "b = min e ((x div 2 ^ lo + 1) * 2 ^ lo)"
    have b: "x < b" "b \<le> e" "4096 dvd b" "(b - 1) div 2 ^ lo = x div 2 ^ lo" using part_block [OF True b_def] e(1,2) by auto
    have len: "(e - x) div 4096 = (b - x) div 4096 + (e - b) div 4096"
    proof -
      have "4096 dvd b - x" using b(3) less.prems(3) by (rule dvd_diff_nat)
      then have "(b - x + (e - b)) div 4096 = (b - x) div 4096 + (e - b) div 4096" by (rule div_plus_div_distrib_dvd_left)
      then show ?thesis using b(1,2) by simp
    qed
    obtain s1 where s1: "f (x, b) s = Some s1" "mapped m x b s s1" "room s \<le> room s1 + c * ((b - x) div 4096)"
      using part [of x b s] b less.prems len by (auto simp: algebra_simps)
    have "\<exists>s'. for_each f (split_range lo b e) s1 = Some s' \<and> mapped m b e s1 s' \<and> room s1 \<le> room s' + c * ((e - b) div 4096)"
    proof (rule less.hyps)
      show "grows s0 s1" by (rule grows_trans [OF less.prems(4) mapped_grows [OF s1(2)]])
      show "c * ((e - b) div 4096) \<le> room s1" using less.prems(5) s1(3) unfolding len by (simp add: add_mult_distrib2)
    qed (use b less.prems(1) in auto)
    then obtain s' where s': "for_each f (split_range lo b e) s1 = Some s'" "mapped m b e s1 s'" "room s1 \<le> room s' + c * ((e - b) div 4096)"
      by blast
    have "mapped m x e s s'"
      by (rule mapped_trans [OF s1(2) s'(2)]) (use b True e(3) less.prems(1) div_between [of v x "e - 1" "2 ^ 48"] in auto)
    moreover have "for_each f (split_range lo x e) s = Some s'" 
      unfolding split_step(1) [OF True] b_def [symmetric] using s1(1) s'(1) by simp
    ultimately show ?thesis using s1(3) s'(3) len by (auto simp: algebra_simps)
  next
    case False
    then have "x = e" using less.prems(2) by simp
    then show ?thesis using mapped_refl growsD(1) [OF less.prems(4)] by (simp add: split_step)
  qed
qed

end

lemma for_each_map: "for_each f (map g xs) s = for_each (\<lambda>x. f (g x)) xs s"
  by (induction xs arbitrary: s) (auto split: bind_split)

lemma page_no_leaf:
  "va_path 3 x = va_path 3 y \<and> x div 4096 mod 512 = y div 4096 mod 512 \<longleftrightarrow> page_no x = page_no y"
proof -
  have "va_path 4 z = va_path 3 z @ [z div 4096 mod 512]" for z using va_path_Suc [of 3 z] by simp
  then show ?thesis by (simp flip: page_no_path)
qed

lemma block_48:
  fixes x y :: nat
  assumes "d \<le> 4" "x div 2 ^ (48 - 9 * d) = y div 2 ^ (48 - 9 * d)"
  shows "x div 2 ^ 48 = y div 2 ^ 48" "x \<le> y \<Longrightarrow> y - x < 2 ^ 48"
proof -
  have k: "48 - 9 * d + 9 * d = 48" using assms(1) by simp
  have "(2::nat) ^ 48 = 2 ^ (48 - 9 * d) * 2 ^ (9 * d)" unfolding power_add [symmetric] k ..
  then have "z div 2 ^ 48 = z div 2 ^ (48 - 9 * d) div 2 ^ (9 * d)" for z :: nat by (simp only: div_mult2_eq)
  then show d: "x div 2 ^ 48 = y div 2 ^ 48" by (simp only: assms(2))
  show "y - x < 2 ^ 48" if "x \<le> y"
  proof -
    have "y < (x div 2 ^ 48 + 1) * 2 ^ 48" using block_end [of y 48] d by simp
    moreover have "x div 2 ^ 48 * 2 ^ 48 \<le> x" by simp
    ultimately show ?thesis by (simp add: algebra_simps)
  qed
qed

text \<open>The bounds of a range that a table at level \<open>d\<close> covers.\<close>

lemma range_bounds:
  fixes v e :: nat
  assumes "d \<le> 4" "v < e \<longrightarrow> v div 2 ^ (48 - 9 * d) = (e - 1) div 2 ^ (48 - 9 * d)"
  shows "e - v \<le> 2 ^ 48" "v < e \<Longrightarrow> v div 2 ^ 48 = (e - 1) div 2 ^ 48"
    "v \<le> x \<Longrightarrow> x < e \<Longrightarrow> va_path d x = va_path d v"
proof -
  show "e - v \<le> 2 ^ 48"
  proof (cases "v < e")
    case True
    then have "e - 1 - v < 2 ^ 48" by (intro block_48(2) [OF assms(1)]) (use assms(2) in auto)
    then show ?thesis by simp
  qed simp
  show "v < e \<Longrightarrow> v div 2 ^ 48 = (e - 1) div 2 ^ 48" using block_48(1) [OF assms(1)] assms(2) by blast
  show "va_path d x = va_path d v" if "v \<le> x" "x < e"
    by (rule va_path_block [OF assms(1)]) (use that assms(2) div_between [of v x "e - 1" "2 ^ (48 - 9 * d)"] in auto)
qed

context page_store
begin

text \<open>The levels from \<open>d\<close> on map a range that one table at level \<open>d\<close> covers.\<close>

definition maps :: "vm_mapping \<Rightarrow> nat \<Rightarrow> bool" where
  "maps m d \<longleftrightarrow> (\<forall>s v e base up. tree s \<longrightarrow> v \<le> e \<longrightarrow> e < 2 ^ 64 \<longrightarrow> 4096 dvd v \<longrightarrow> 4096 dvd e \<longrightarrow>
     (v < e \<longrightarrow> v div 2 ^ (48 - 9 * d) = (e - 1) div 2 ^ (48 - 9 * d)) \<longrightarrow> descend op' s (va_path d v) = Some base \<longrightarrow>
     (3 - d) * ((e - v) div 4096) \<le> room s \<longrightarrow>
     (\<exists>s'. map_levels op' m (drop d pt_levels) \<lparr>table_base = base, rq_vmin = of_nat v, rq_len = of_nat (e - v), rq_parent = up\<rparr> s = Some s' \<and>
        mapped m v e s s' \<and> room s \<le> room s' + (3 - d) * ((e - v) div 4096)))"

lemma maps_leaf: "maps m 3"
  unfolding maps_def
proof (intro allI impI)
  fix s v e base up
  assume a: "tree s" "v \<le> e" "e < 2 ^ 64" "4096 dvd v" "4096 dvd e" "v < e \<longrightarrow> v div 2 ^ (48 - 9 * 3) = (e - 1) div 2 ^ (48 - 9 * 3)"
    "descend op' s (va_path 3 v) = Some base" "(3 - 3) * ((e - v) div 4096) \<le> room s"
  let ?rq = "\<lparr>table_base = base, rq_vmin = of_nat v, rq_len = of_nat (e - v), rq_parent = up\<rparr>"
  have part: "\<exists>s'. Some (map_page op' m (response op' 12 ?rq (x, b)) s1) = Some s' \<and> mapped m x b s1 s' \<and> room s1 \<le> room s' + 0 * ((b - x) div 4096)"
    if x: "v \<le> x" "x < b" "b \<le> e" "x div 2 ^ 12 = (b - 1) div 2 ^ 12" "4096 dvd x" "4096 dvd b" "grows s s1" for x b s1
  proof -
    have p: "va_path 3 x = va_path 3 v" by (rule range_bounds(3) [OF _ a(6)]) (use x in auto)
    have base: "descend op' s1 (va_path 3 x) = Some base" unfolding p by (rule growsD(2) [OF x(7) va_path_table a(7)]) simp
    have b: "y = x" if "x \<le> y" "y < b" "4096 dvd y" for y
    proof -
      have "y div 4096 = x div 4096" using div_between [of x y "b - 1" 4096] that x(4) by simp
      then show ?thesis using x(5) that(3) by (metis dvd_div_mult_self)
    qed
    let ?s' = "map_page op' m (response op' 12 ?rq (x, b)) s1"
    have w: "?s' = write_entry_updating op' up (entry_addr op' base (of_nat (8 * (x div 4096 mod 512)))) (leaf_pte m (of_nat x)) s1"
      by (simp add: map_page_def response_def)
    note lw = leaf_write [OF growsD(1) [OF x(7)] va_path_table base _ length_va_path w, simplified]
    have "leaf_at op' ?s' z = (if page_no z = page_no x then present (leaf_pte m (of_nat x)) else leaf_at op' s1 z)" for z
      using lw(3) [of "va_path 3 z" "z div 4096 mod 512"] page_no_leaf [of z x] by (simp add: leaf_at_def va_path_table)
    then show ?thesis using lw(1,2) b x by (auto simp: mapped_def)
  qed
  show "\<exists>s'. map_levels op' m (drop 3 pt_levels) ?rq s = Some s' \<and> mapped m v e s s' \<and> room s \<le> room s' + (3 - 3) * ((e - v) div 4096)"
  proof -
    note rb = range_bounds [OF _ a(6)]
    have "modify_ptes op' (20, 12) ?rq = Some (map (response op' 12 ?rq) (split_range 12 v e))"
      using modify_ptes_split [of 12 v e ?rq base up op'] a(2,3) rb(1) by simp
    then have "map_levels op' m (drop 3 pt_levels) ?rq s = for_each (\<lambda>ab s. Some (map_page op' m (response op' 12 ?rq ab) s)) (split_range 12 v e) s"
      by (simp add: pt_levels_def for_each_map)
    moreover have "\<exists>s'. for_each (\<lambda>ab s. Some (map_page op' m (response op' 12 ?rq ab) s)) (split_range 12 v e) s = Some s' \<and>
        mapped m v e s s' \<and> room s \<le> room s' + 0 * ((e - v) div 4096)"
      by (rule for_parts [where v = v and ?s0.0 = s, OF part]) (use a(1,2,4,5) rb(2) grows_refl in auto)
    ultimately show ?thesis by simp
  qed
qed

end

lemma map_levels_Cons:
  "ls \<noteq> [] \<Longrightarrow> map_levels op' m (l # ls) rq s = Option.bind (modify_ptes op' l rq) (\<lambda>rs.
      for_each (\<lambda>r s. let (rq', s) = alloc_pte_if_needed op' r s in map_levels op' m ls rq' s) rs s)"
  by (cases ls) simp_all

lemma drop_levels:
  assumes "d < 3"
  shows "drop d pt_levels = (39 - 9 * d + 8, 39 - 9 * d) # drop (Suc d) pt_levels" "drop (Suc d) pt_levels \<noteq> []"
proof -
  consider "d = 0" | "d = 1" | "d = 2" using assms by linarith
  then show "drop d pt_levels = (39 - 9 * d + 8, 39 - 9 * d) # drop (Suc d) pt_levels" "drop (Suc d) pt_levels \<noteq> []"
    by (cases, simp_all add: pt_levels_def)+
qed

lemma levels_step:
  assumes "d < 3"
  shows "map_levels op' m (drop d pt_levels) rq s =
    Option.bind (modify_ptes op' (39 - 9 * d + 8, 39 - 9 * d) rq) (\<lambda>rs.
      for_each (\<lambda>r s. let (rq', s) = alloc_pte_if_needed op' r s in map_levels op' m (drop (Suc d) pt_levels) rq' s) rs s)"
  by (simp only: drop_levels [OF assms] map_levels_Cons not_False_eq_True)

context page_store
begin

lemma maps_inner:
  assumes d: "d < 3" and ih: "maps m (Suc d)"
  shows "maps m d"
  unfolding maps_def
proof (intro allI impI)
  fix s v e base up
  assume a: "tree s" "v \<le> e" "e < 2 ^ 64" "4096 dvd v" "4096 dvd e" "v < e \<longrightarrow> v div 2 ^ (48 - 9 * d) = (e - 1) div 2 ^ (48 - 9 * d)"
    "descend op' s (va_path d v) = Some base" "(3 - d) * ((e - v) div 4096) \<le> room s"
  let ?rq = "\<lparr>table_base = base, rq_vmin = of_nat v, rq_len = of_nat (e - v), rq_parent = up\<rparr>" and ?lo = "39 - 9 * d"
  let ?f = "\<lambda>ab s. let (rq', s) = alloc_pte_if_needed op' (response op' ?lo ?rq ab) s in map_levels op' m (drop (Suc d) pt_levels) rq' s"
  have d4: "d \<le> 4" "d < 4" "Suc d \<le> 3" "48 - 9 * Suc d = ?lo" using d by auto
  note rb = range_bounds [OF d4(1) a(6)]
  have part: "\<exists>s'. ?f (x, b) s1 = Some s' \<and> mapped m x b s1 s' \<and> room s1 \<le> room s' + (3 - d) * ((b - x) div 4096)"
    if x: "v \<le> x" "x < b" "b \<le> e" "x div 2 ^ ?lo = (b - 1) div 2 ^ ?lo" "4096 dvd x" "4096 dvd b" "grows s s1"
      "(3 - d) * ((b - x) div 4096) \<le> room s1" for x b s1
  proof -
    let ?n = "(b - x) div 4096" and ?i = "x div 2 ^ ?lo mod 512"
    have p: "va_path (Suc d) x = va_path d v @ [?i]" using va_path_Suc [OF d4(2)] rb(3) [of x] x by simp
    have tp: "table_path (va_path d v @ [?i])" unfolding p [symmetric] by (rule va_path_table [OF d4(3)])
    have base: "descend op' s1 (va_path d v) = Some base" by (rule growsD(2) [OF x(7) va_path_table a(7)]) (use d in simp)
    have "4096 dvd b - x" "0 < b - x" using x(2,5,6) by auto
    then have n: "1 \<le> ?n" by (auto elim!: dvdE)
    have n3: "(3 - d) * ?n = ?n + (3 - Suc d) * ?n" 
    proof -
      have "3 - d = Suc (3 - Suc d)" using d by simp
      then show ?thesis by (simp only: mult_Suc)
    qed
    obtain b' up' s2 where al: "alloc_pte_if_needed op' (response op' ?lo ?rq (x, b)) s1 =
        (\<lparr>table_base = b', rq_vmin = of_nat x, rq_len = of_nat (b - x), rq_parent = up'\<rparr>, s2)"
      "grows s1 s2" "room s1 \<le> Suc (room s2)" "descend op' s2 (va_path d v @ [?i]) = Some b'"
      "\<And>q j. table_path q \<Longrightarrow> length q = 3 \<Longrightarrow> j < 512 \<Longrightarrow> leaf op' s2 q j = leaf op' s1 q j"
      by (rule link_table [OF growsD(1) [OF x(7)] tp base, of "response op' ?lo ?rq (x, b)"])
        (use n n3 x(8) in \<open>auto simp: response_def\<close>)
    have "\<exists>s'. map_levels op' m (drop (Suc d) pt_levels) \<lparr>table_base = b', rq_vmin = of_nat x, rq_len = of_nat (b - x), rq_parent = up'\<rparr> s2 = Some s' \<and>
        mapped m x b s2 s' \<and> room s2 \<le> room s' + (3 - Suc d) * ?n"
    proof (rule ih [unfolded maps_def, rule_format])
      show "descend op' s2 (va_path (Suc d) x) = Some b'" unfolding p by (rule al(4))
      show "x div 2 ^ (48 - 9 * Suc d) = (b - 1) div 2 ^ (48 - 9 * Suc d)" unfolding d4(4) by (rule x(4))
      show "(3 - Suc d) * ?n \<le> room s2" using n n3 x(8) al(3) by linarith
    qed (use x a(3) growsD(1) [OF al(2)] in auto)
    then obtain s' where s': "map_levels op' m (drop (Suc d) pt_levels) \<lparr>table_base = b', rq_vmin = of_nat x, rq_len = of_nat (b - x), rq_parent = up'\<rparr> s2 = Some s'"
        "mapped m x b s2 s'" "room s2 \<le> room s' + (3 - Suc d) * ?n" by blast
    have "leaf_at op' s2 z = leaf_at op' s1 z" for z by (simp add: leaf_at_def al(5) va_path_table length_va_path)
    then have "mapped m x b s1 s'" using s'(2) grows_trans [OF al(2)] by (simp add: mapped_def)
    then show ?thesis using al(1,3) s'(1,3) n n3 by simp
  qed
  have "modify_ptes op' (?lo + 8, ?lo) ?rq = Some (map (response op' ?lo ?rq) (split_range ?lo v e))"
    by (rule modify_ptes_split [OF _ a(2,3) rb(1) refl]) simp
  then have "map_levels op' m (drop d pt_levels) ?rq s = for_each ?f (split_range ?lo v e) s"
    by (simp add: levels_step [OF d] for_each_map)
  moreover have "\<exists>s'. for_each ?f (split_range ?lo v e) s = Some s' \<and> mapped m v e s s' \<and> room s \<le> room s' + (3 - d) * ((e - v) div 4096)"
    by (rule for_parts [where v = v and ?s0.0 = s, OF part]) (use a(1,2,4,5,8) d rb(2) grows_refl in auto)
  ultimately show "\<exists>s'. map_levels op' m (drop d pt_levels) ?rq s = Some s' \<and> mapped m v e s s' \<and> room s \<le> room s' + (3 - d) * ((e - v) div 4096)"
    by simp
qed

theorem map_all_levels: "maps m 0"
  using maps_leaf [of m] maps_inner [of 2 m] maps_inner [of 1 m] maps_inner [of 0 m] by (simp add: numeral_3_eq_3 numeral_2_eq_2)

end

section \<open>Walking the tables\<close>

text \<open>The pages of a range that starts at a page.\<close>

definition page_list :: "nat \<Rightarrow> nat \<Rightarrow> nat list" where
  "page_list v e = map (\<lambda>k. v + 4096 * k) [0..<div_ceil (e - v) 4096]"

lemma page_list_append:
  assumes "4096 dvd v" "4096 dvd b" "v \<le> b" "b \<le> e"
  shows "page_list v e = page_list v b @ page_list b e"
proof -
  have "4096 dvd b - v" using assms(1,2) by (simp add: dvd_diff_nat)
  then obtain j where j: "b = v + 4096 * j" using assms(3) by (metis dvdE le_add_diff_inverse)
  have n: "div_ceil (e - v) 4096 = j + div_ceil (e - b) 4096" "div_ceil (b - v) 4096 = j"
    using assms(4) j by (auto simp: div_ceil_def)
  have "map (\<lambda>k. v + 4096 * k) [j..<j + m] = map (\<lambda>k. b + 4096 * k) [0..<m]" for m
    by (intro nth_equalityI) (simp_all add: j algebra_simps)
  then show ?thesis unfolding page_list_def n upt_add_eq_append [OF le0] map_append by simp
qed

lemma page_list_Nil [simp]: "page_list v v = []"
  by (simp add: page_list_def div_ceil_def)

lemma page_list_parts:
  assumes "4096 dvd x" "12 \<le> lo" "x < e" "b = min e ((x div 2 ^ lo + 1) * 2 ^ lo)"
  shows "page_list x e = page_list x b @ page_list b e"
proof (cases "b = e")
  case False
  then show ?thesis using part_block [OF assms(3,4)] assms(1,2) by (intro page_list_append) auto
qed simp

lemma split_pages: "4096 dvd x \<Longrightarrow> map fst (split_range 12 x e) = page_list x e"
proof (induction "e - x" arbitrary: x rule: less_induct)
  case less
  show ?case
  proof (cases "x < e")
    case True
    define b where "b = min e ((x div 2 ^ 12 + 1) * 2 ^ 12)"
    have b: "x < b" "b \<le> e" "b \<le> x + 4096" using True block_end [of x 12] less.prems by (auto simp: b_def min_def)
    have "page_list x b = [x]" using b 
    proof -
      have "div_ceil (b - x) 4096 = 1" unfolding div_ceil_def by (rule div_nat_eqI) (use b in auto)
      then show ?thesis by (simp add: page_list_def)
    qed
    moreover have "map fst (split_range 12 b e) = page_list b e"
    proof (cases "b = e")
      case False
      then have "4096 dvd b" using part_block(4) [OF True b_def] by simp
      then show ?thesis using less.hyps [of b] b by auto
    qed (simp add: split_step)
    ultimately show ?thesis using page_list_parts [OF less.prems _ True b_def] by (simp only: split_step(1) [OF True] b_def [symmetric]) simp
  qed (simp add: split_step page_list_def div_ceil_def)
qed

lemma map_filter_append: "List.map_filter f (xs @ ys) = List.map_filter f xs @ List.map_filter f ys"
  by (simp add: List.map_filter_def)

lemma map_filter_map: "List.map_filter f (map g xs) = List.map_filter (\<lambda>x. f (g x)) xs"
  by (simp add: List.map_filter_def filter_map o_def)

lemma map_filter_None: "(\<And>x. x \<in> set xs \<Longrightarrow> f x = None) \<Longrightarrow> List.map_filter f xs = []"
  by (simp add: List.map_filter_def)

lemma map_filter_cong: "(\<And>x. x \<in> set xs \<Longrightarrow> f x = g x) \<Longrightarrow> List.map_filter f xs = List.map_filter g xs"
  by (simp add: List.map_filter_def cong: filter_cong)

lemma page_list_range: "y \<in> set (page_list v e) \<Longrightarrow> v \<le> y \<and> y < e"
proof -
  assume "y \<in> set (page_list v e)"
  then obtain k where k: "y = v + 4096 * k" "Suc k \<le> (e - v + 4095) div 4096" by (auto simp: page_list_def div_ceil_def)
  have "Suc k * 4096 \<le> e - v + 4095" using k(2) by (simp add: less_eq_div_iff_mult_less_eq)
  then show ?thesis using k(1) by auto
qed

lemma collect_map: "collect_all f (map g xs) = collect_all (\<lambda>x. f (g x)) xs"
  by (induction xs) (auto split: bind_split)

text \<open>The mappings that a walk over pages finds.\<close>

definition found :: "('s, 'a) table_ops \<Rightarrow> 's \<Rightarrow> nat list \<Rightarrow> vm_mapping list" where
  "found op' s ys = List.map_filter (\<lambda>y. map_option (leaf_mapping (of_nat y)) (leaf_at op' s y)) ys"

lemma found_simps [simp]: "found op' s [] = []" "found op' s (xs @ ys) = found op' s xs @ found op' s ys"
  by (simp_all add: found_def map_filter_append)

lemma collect_parts:
  assumes part: "\<And>a b. v \<le> a \<Longrightarrow> a < b \<Longrightarrow> b \<le> e \<Longrightarrow> a div 2 ^ lo = (b - 1) div 2 ^ lo \<Longrightarrow> 4096 dvd a \<Longrightarrow>
      f (a, b) = Some (found op' s (page_list a b))"
    and "12 \<le> lo"
  shows "v \<le> x \<Longrightarrow> x \<le> e \<Longrightarrow> 4096 dvd x \<Longrightarrow> collect_all f (split_range lo x e) = Some (found op' s (page_list x e))"
proof (induction "e - x" arbitrary: x rule: less_induct)
  case less
  show ?case
  proof (cases "x < e")
    case True
    define b where "b = min e ((x div 2 ^ lo + 1) * 2 ^ lo)"
    note b = part_block [OF True b_def]
    have "f (x, b) = Some (found op' s (page_list x b))" using part [of x b] b less.prems by simp
    moreover have "collect_all f (split_range lo b e) = Some (found op' s (page_list b e))"
    proof (cases "b = e")
      case False
      then have "4096 dvd b" using b(4) [OF assms(2)] by simp
      then show ?thesis using less.hyps [of b] b less.prems by auto
    qed (simp add: split_step)
    ultimately show ?thesis unfolding split_step(1) [OF True] b_def [symmetric] page_list_parts [OF less.prems(3) assms(2) True b_def] by simp
  qed (use less.prems in \<open>simp add: split_step\<close>)
qed

lemma descend_None: "descend op' s p = None \<Longrightarrow> descend op' s (p @ q) = None"
proof (induction q rule: rev_induct)
  case (snoc i q)
  then show ?case by (simp flip: append_assoc)
qed simp

lemma va_path_prefix: "k \<le> d \<Longrightarrow> \<exists>r. va_path d x = va_path k x @ r"
proof -
  assume k: "k \<le> d"
  let ?l = "[39, 30, 21, 12] :: nat list"
  have "take d ?l = take k (take d ?l) @ drop k (take d ?l)" by (rule append_take_drop_id [symmetric])
  also have "take k (take d ?l) = take k ?l" unfolding take_take min_absorb1 [OF k] ..
  finally have "va_path d x = va_path k x @ map (\<lambda>lo. x div 2 ^ lo mod 512) (drop k (take d ?l))"
    unfolding va_path_def map_append [symmetric] by (rule arg_cong)
  then show ?thesis by blast
qed

lemma leaf_at_None:
  assumes "k \<le> 3" "descend op' s (va_path k y) = None"
  shows "leaf_at op' s y = None"
proof -
  obtain r where "va_path 3 y = va_path k y @ r" using va_path_prefix [OF assms(1)] by blast
  then show ?thesis using descend_None [OF assms(2)] by (simp add: leaf_at_def leaf_def)
qed

definition walks :: "('s, 'a) table_ops \<Rightarrow> 's \<Rightarrow> nat \<Rightarrow> bool" where
  "walks op' s d \<longleftrightarrow> (\<forall>v e base up. v \<le> e \<longrightarrow> e < 2 ^ 64 \<longrightarrow> 4096 dvd v \<longrightarrow>
     (v < e \<longrightarrow> v div 2 ^ (48 - 9 * d) = (e - 1) div 2 ^ (48 - 9 * d)) \<longrightarrow> descend op' s (va_path d v) = Some base \<longrightarrow>
     walk_levels op' s (drop d pt_levels) \<lparr>table_base = base, rq_vmin = of_nat v, rq_len = of_nat (e - v), rq_parent = up\<rparr> =
       Some (found op' s (page_list v e)))"

lemma read_response:
  "read_pte_if_present op' s (entry_ptr (response op' lo rq ab)) = present (pte_at op' s (table_base rq) (fst ab div 2 ^ lo mod 512))"
  by (simp add: read_pte_if_present_def present_def pte_at_def response_def Let_def)

lemma walks_leaf: "walks op' s 3"
  unfolding walks_def
proof (intro allI impI)
  fix v e base up
  assume a: "v \<le> e" "e < 2 ^ 64" "4096 dvd v" "v < e \<longrightarrow> v div 2 ^ (48 - 9 * 3) = (e - 1) div 2 ^ (48 - 9 * 3)"
    "descend op' s (va_path 3 v) = Some base"
  let ?rq = "\<lparr>table_base = base, rq_vmin = of_nat v, rq_len = of_nat (e - v), rq_parent = up\<rparr>"
  let ?h = "\<lambda>y. map_option (leaf_mapping (of_nat y)) (leaf_at op' s y)"
  note rb = range_bounds [OF _ a(4)]
  have m: "modify_ptes op' (20, 12) ?rq = Some (map (response op' 12 ?rq) (split_range 12 v e))"
    using modify_ptes_split [of 12 v e ?rq base up op'] a(1,2) rb(1) by simp
  have "map_option (leaf_mapping (rs_vmin (response op' 12 ?rq ab))) (read_pte_if_present op' s (entry_ptr (response op' 12 ?rq ab))) = ?h (fst ab)"
    if "ab \<in> set (split_range 12 v e)" for ab
  proof -
    have "fst ab \<in> set (page_list v e)" using that split_pages [OF a(3), of e] by (metis image_eqI list.set_map)
    then have "va_path 3 (fst ab) = va_path 3 v" using page_list_range by (intro rb(3)) auto
    then show ?thesis unfolding read_response using a(5) by (simp add: leaf_at_def leaf_def) (simp add: response_def)
  qed
  then have "List.map_filter (\<lambda>r. map_option (leaf_mapping (rs_vmin r)) (read_pte_if_present op' s (entry_ptr r)))
      (map (response op' 12 ?rq) (split_range 12 v e)) = found op' s (map fst (split_range 12 v e))"
    unfolding found_def map_filter_map by (rule map_filter_cong)
  then show "walk_levels op' s (drop 3 pt_levels) ?rq = Some (found op' s (page_list v e))"
    by (simp add: pt_levels_def m split_pages [OF a(3)])
qed

lemma walk_levels_Cons:
  "ls \<noteq> [] \<Longrightarrow> walk_levels op' s (l # ls) rq = Option.bind (modify_ptes op' l rq) (collect_all (\<lambda>r.
       case require_pte_exist op' s r of None \<Rightarrow> Some [] | Some rq' \<Rightarrow> walk_levels op' s ls rq'))"
  by (cases ls) auto

lemma walks_inner:
  assumes d: "d < 3" and ih: "walks op' s (Suc d)"
  shows "walks op' s d"
  unfolding walks_def
proof (intro allI impI)
  fix v e base up
  assume a: "v \<le> e" "e < 2 ^ 64" "4096 dvd v" "v < e \<longrightarrow> v div 2 ^ (48 - 9 * d) = (e - 1) div 2 ^ (48 - 9 * d)"
    "descend op' s (va_path d v) = Some base"
  let ?rq = "\<lparr>table_base = base, rq_vmin = of_nat v, rq_len = of_nat (e - v), rq_parent = up\<rparr>" and ?lo = "39 - 9 * d"
  let ?f = "\<lambda>ab. case require_pte_exist op' s (response op' ?lo ?rq ab) of None \<Rightarrow> Some [] | Some rq' \<Rightarrow> walk_levels op' s (drop (Suc d) pt_levels) rq'"
  have d4: "d \<le> 4" "d < 4" "Suc d \<le> 3" "48 - 9 * Suc d = ?lo" "Suc d \<le> 4" using d by auto
  note rb = range_bounds [OF d4(1) a(4)]
  have part: "?f (x, b) = Some (found op' s (page_list x b))"
    if x: "v \<le> x" "x < b" "b \<le> e" "x div 2 ^ ?lo = (b - 1) div 2 ^ ?lo" "4096 dvd x" for x b
  proof -
    have blk: "x < b \<longrightarrow> x div 2 ^ (48 - 9 * Suc d) = (b - 1) div 2 ^ (48 - 9 * Suc d)" using x(4) d4(4) by simp
    have n: "descend op' s (va_path (Suc d) x) = next_table op' s base (x div 2 ^ ?lo mod 512)"
      using va_path_Suc [OF d4(2)] rb(3) [of x] x a(5) by simp
    show ?thesis
    proof (cases "present (pte_at op' s base (x div 2 ^ ?lo mod 512))")
      case None
      then have dn: "descend op' s (va_path (Suc d) x) = None" by (simp add: n next_table_def)
      have "leaf_at op' s y = None" if "y \<in> set (page_list x b)" for y
        using page_list_range [OF that] range_bounds(3) [OF d4(5) blk, of y] dn by (intro leaf_at_None [OF d4(3)]) simp
      then have "found op' s (page_list x b) = []" by (simp add: found_def map_filter_None)
      then show ?thesis using None by (simp add: require_pte_exist_def read_response)
    next
      case (Some pte)
      then have "descend op' s (va_path (Suc d) x) = Some (from_phys op' (pte AND PTE_ADDR_MASK))" by (simp add: n next_table_def)
      then show ?thesis using Some ih [unfolded walks_def, rule_format, of x b] x a(2) blk
        by (simp add: require_pte_exist_def read_response) (simp add: response_def)
    qed
  qed
  have "modify_ptes op' (?lo + 8, ?lo) ?rq = Some (map (response op' ?lo ?rq) (split_range ?lo v e))"
    by (rule modify_ptes_split [OF _ a(1,2) rb(1) refl]) simp
  then have "walk_levels op' s (drop d pt_levels) ?rq = collect_all ?f (split_range ?lo v e)"
    unfolding drop_levels(1) [OF d] walk_levels_Cons [OF drop_levels(2) [OF d]] by (simp add: collect_map)
  also have "\<dots> = Some (found op' s (page_list v e))"
    by (rule collect_parts [where v = v, OF part]) (use a(1,3) d in auto)
  finally show "walk_levels op' s (drop d pt_levels) ?rq = Some (found op' s (page_list v e))" .
qed

lemma walk_all_levels: "walks op' s 0"
  using walks_leaf [of op' s] walks_inner [of 2 op' s] walks_inner [of 1 op' s] walks_inner [of 0 op' s]
  by (simp add: numeral_3_eq_3 numeral_2_eq_2)

lemma virt_to_phys_found:
  assumes "unat address mod 2 ^ 48 + unat len < 2 ^ 64"
  defines "v \<equiv> unat address mod 2 ^ 48 div 4096 * 4096" and "e \<equiv> min (unat address mod 2 ^ 48 + unat len) (2 ^ 48)"
  shows "virt_to_phys op' s address len = Some (found op' s (page_list v e))"
proof -
  let ?A = "unat address mod 2 ^ 48"
  have A: "?A < 2 ^ 48" by simp
  define addr where "addr = address AND (2 ^ 48 - 1)"
  have addr: "unat addr = ?A" using low_mask(2) [of 48 address] by (simp add: addr_def)
  have v: "addr AND NOT (of_nat PAGE_SIZE_vm - 1) = of_nat v"
  proof (rule word_unat_eq_iff [THEN iffD2])
    have "unat (addr AND NOT (2 ^ 12 - 1)) = ?A div 2 ^ 12 * 2 ^ 12" using low_mask(1) [of 12 addr] by (simp add: addr)
    moreover have "unat (of_nat v :: u64) = v"
      using A by (intro unat_of_nat_u64) (simp add: v_def)
    ultimately show "unat (addr AND NOT (of_nat PAGE_SIZE_vm - 1)) = unat (of_nat v :: u64)" by (simp add: PAGE_SIZE_vm_def v_def)
  qed
  have ve: "v \<le> e" "e < 2 ^ 64" using A by (auto simp: v_def e_def)
  have sum: "unat (addr + len) = ?A + unat len" using assms(1) addr by (simp add: unat_word_ariths)
  have e: "min (addr + len) (2 ^ 48) = of_nat e"
    using ve(2) sum by (intro word_unat_eq_iff [THEN iffD2]) (auto simp: min_def e_def word_le_nat_alt unat_of_nat_u64)
  have w: "(push_bit VA_BITS 1 :: u64) = 2 ^ 48" by (simp add: VA_BITS_def)
  have "virt_to_phys op' s address len = walk_levels op' s (drop 0 pt_levels)
      \<lparr>table_base = root_table op' s, rq_vmin = of_nat v, rq_len = of_nat (e - v), rq_parent = Parent_None\<rparr>"
    unfolding virt_to_phys_def Let_def w addr_def [symmetric] v e using ve(1) by (simp add: of_nat_diff)
  also have "\<dots> = Some (found op' s (page_list v e))"
    by (rule walk_all_levels [unfolded walks_def, rule_format, of v e]) (use ve in \<open>auto simp: v_def e_def\<close>)
  finally show ?thesis .
qed

context page_store
begin

lemma map_vm_ok:
  assumes "tree s" "4096 dvd unat (virt_base m)" "4096 dvd unat (map_len m)"
    "unat (virt_base m) + unat (map_len m) < 2 ^ 64"
    "0 < unat (map_len m) \<Longrightarrow> unat (virt_base m) div 2 ^ 48 = (unat (virt_base m) + unat (map_len m) - 1) div 2 ^ 48"
    "3 * (unat (map_len m) div 4096) \<le> room s"
  shows "\<exists>s'. map_vm op' up m s = Some s' \<and> mapped m (unat (virt_base m)) (unat (virt_base m) + unat (map_len m)) s s' \<and>
    room s \<le> room s' + 3 * (unat (map_len m) div 4096)"
  using map_all_levels [of m, unfolded maps_def, rule_format, of s "unat (virt_base m)" "unat (virt_base m) + unat (map_len m)" "root_table op' s" up]
    assms by (simp add: map_vm_def)

end

section \<open>The buffer is a page store\<close>

definition buffer_ok :: "pt_buffer \<Rightarrow> bool" where
  "buffer_ok b \<longleftrightarrow> 4096 dvd unat (pt_phys_base b) \<and> 4096 dvd length (pt_bytes b) \<and> unat (pt_phys_base b) + length (pt_bytes b) \<le> 2 ^ 52 \<and>
     pt_root b = pt_phys_base b \<and> pt_bytes b \<noteq> []"

definition buffer_table :: "pt_buffer \<Rightarrow> nat \<Rightarrow> u64" where
  "buffer_table b k = pt_phys_base b + of_nat (4096 * k)"

definition buffer_tables :: "pt_buffer \<Rightarrow> u64 set" where
  "buffer_tables b = buffer_table b ` {k. 4096 * k < length (pt_bytes b)}"

definition buffer_room :: "pt_buffer \<Rightarrow> nat" where
  "buffer_room b = (2 ^ 52 - (unat (pt_phys_base b) + length (pt_bytes b))) div 4096"

lemma buffer_entry:
  assumes "buffer_ok b" "4096 * k < length (pt_bytes b)" "i < 512"
  shows "pt_offset b (buffer_table b k + of_nat (8 * i)) = 4096 * k + 8 * i" "4096 * k + 8 * i + 8 \<le> length (pt_bytes b)"
    "unat (buffer_table b k) = unat (pt_phys_base b) + 4096 * k"
proof -
  obtain n where n: "length (pt_bytes b) = 4096 * n" using assms(1) by (auto simp: buffer_ok_def)
  have l: "length (pt_bytes b) \<le> 2 ^ 52" "unat (pt_phys_base b) + length (pt_bytes b) \<le> 2 ^ 52" using assms(1) by (auto simp: buffer_ok_def)
  show le: "4096 * k + 8 * i + 8 \<le> length (pt_bytes b)" using assms(2,3) n by simp
  have "buffer_table b k + of_nat (8 * i) - pt_phys_base b = of_nat (4096 * k + 8 * i)" by (simp add: buffer_table_def)
  then show "pt_offset b (buffer_table b k + of_nat (8 * i)) = 4096 * k + 8 * i"
    using le l by (simp only: pt_offset_def) (intro unat_of_nat_u64, simp)
  have "unat (of_nat (4096 * k) :: u64) = 4096 * k" using le l by (intro unat_of_nat_u64) simp
  then show "unat (buffer_table b k) = unat (pt_phys_base b) + 4096 * k"
    using l assms(2) by (simp add: buffer_table_def unat_word_ariths del: of_nat_mult)
qed

lemma buffer_table_inj:
  assumes "buffer_ok b" "4096 * k < length (pt_bytes b)" "4096 * j < length (pt_bytes b)"
  shows "buffer_table b k = buffer_table b j \<longleftrightarrow> k = j"
  using buffer_entry(3) [OF assms(1,2), of 0] buffer_entry(3) [OF assms(1,3), of 0] by (auto simp: word_unat_eq_iff)

lemma buffer_pte_at:
  assumes "buffer_ok b" "4096 * k < length (pt_bytes b)" "i < 512"
  shows "pte_at buffer_ops b (buffer_table b k) i = from_le_bytes (take 8 (drop (4096 * k + 8 * i) (pt_bytes b)))"
  using buffer_entry [OF assms] by (simp add: pte_at_def buffer_ops_def del: of_nat_mult)

lemma read_beside_slice:
  assumes "p + length ys \<le> length xs" "q + n \<le> length xs" "q + n \<le> p \<or> p + length ys \<le> q"
  shows "take n (drop q (write_slice xs p ys)) = take n (drop q xs)"
  by (rule nth_equalityI) (use assms in \<open>auto simp: nth_write_slice\<close>)

lemma buffer_write:
  assumes "buffer_ok b" "a \<in> buffer_tables b" "i < 512"
  shows "\<exists>b'. write_entry buffer_ops b (entry_addr buffer_ops a (of_nat (8 * i))) e = (None, b') \<and> buffer_ok b' \<and>
    buffer_tables b' = buffer_tables b \<and> buffer_room b' = buffer_room b \<and> root_table buffer_ops b' = root_table buffer_ops b \<and>
    (\<forall>c \<in> buffer_tables b. \<forall>j < 512. pte_at buffer_ops b' c j = (if c = a \<and> j = i then e else pte_at buffer_ops b c j))"
proof -
  obtain k where k: "4096 * k < length (pt_bytes b)" "a = buffer_table b k" using assms(2) by (auto simp: buffer_tables_def)
  note be = buffer_entry [OF assms(1) k(1) assms(3)]
  let ?x = "write_slice (pt_bytes b) (4096 * k + 8 * i) (to_le_bytes 8 e)"
  let ?b = "b\<lparr>pt_bytes := ?x\<rparr>"
  have len: "length ?x = length (pt_bytes b)" using be(2) by simp
  have same: "buffer_ok ?b" "buffer_tables ?b = buffer_tables b" "buffer_room ?b = buffer_room b" "\<And>j. buffer_table ?b j = buffer_table b j"
    using assms(1) len by (auto simp: buffer_ok_def buffer_tables_def buffer_room_def buffer_table_def fun_eq_iff image_def)
  have "pte_at buffer_ops ?b (buffer_table b c) j = (if buffer_table b c = a \<and> j = i then e else pte_at buffer_ops b (buffer_table b c) j)"
    if c: "4096 * c < length (pt_bytes b)" "j < 512" for c j
  proof -
    have r: "pte_at buffer_ops ?b (buffer_table b c) j = from_le_bytes (take 8 (drop (4096 * c + 8 * j) ?x))"
      using buffer_pte_at [OF same(1), of c j] c len same(4) by simp
    show ?thesis
    proof (cases "c = k \<and> j = i")
      case True
      then show ?thesis using r k read_write_slice [of "4096 * k + 8 * i" "to_le_bytes 8 e" "pt_bytes b"] be(2) by (simp add: from_to_le_bytes)
    next
      case False
      have "4096 * c + 8 * j + 8 \<le> 4096 * k + 8 * i \<or> 4096 * k + 8 * i + 8 \<le> 4096 * c + 8 * j"
        using False c(2) assms(3) by (cases c k rule: linorder_cases; cases j i rule: linorder_cases) auto
      then have "take 8 (drop (4096 * c + 8 * j) ?x) = take 8 (drop (4096 * c + 8 * j) (pt_bytes b))"
        using be(2) buffer_entry(2) [OF assms(1) c] by (intro read_beside_slice) auto
      then show ?thesis using False r k buffer_pte_at [OF assms(1) c] buffer_table_inj [OF assms(1) c(1) k(1)] by auto
    qed
  qed
  then show ?thesis using same be k(2) by (intro exI [of _ ?b]) (auto simp: buffer_ops_def buffer_tables_def)
qed

lemma from_le_bytes_zeros: "from_le_bytes (replicate 8 0) = (0 :: u64)"
  by (simp add: from_le_bytes_def numeral_eq_Suc)

lemma buffer_table_bytes [simp]: "buffer_table (b\<lparr>pt_bytes := x\<rparr>) k = buffer_table b k"
  by (simp add: buffer_table_def)

lemma buffer_alloc:
  assumes ok: "buffer_ok b" "0 < buffer_room b"
  shows "\<exists>a b'. alloc_table buffer_ops b = (a, b') \<and> a \<notin> buffer_tables b \<and> buffer_ok b' \<and> buffer_tables b' = insert a (buffer_tables b) \<and>
    Suc (buffer_room b') = buffer_room b \<and> root_table buffer_ops b' = root_table buffer_ops b \<and> (\<forall>j < 512. pte_at buffer_ops b' a j = 0) \<and>
    (\<forall>c \<in> buffer_tables b. \<forall>j < 512. pte_at buffer_ops b' c j = pte_at buffer_ops b c j)"
proof -
  let ?x = "resize (pt_bytes b) (length (pt_bytes b) + 4096) 0"
  let ?b = "b\<lparr>pt_bytes := ?x\<rparr>"
  obtain n m where n: "length (pt_bytes b) = 4096 * n" "unat (pt_phys_base b) = 4096 * m" "m + n \<le> 2 ^ 40"
  proof -
    obtain n m where "length (pt_bytes b) = 4096 * n" "unat (pt_phys_base b) = 4096 * m" using ok(1) by (auto simp: buffer_ok_def elim!: dvdE)
    then show thesis using ok(1) by (intro that) (auto simp: buffer_ok_def)
  qed
  have "(2 ^ 52 - 4096 * k) div 4096 = 2 ^ 40 - k" for k :: nat by (simp add: div_mult_self1_is_m flip: diff_mult_distrib2 [of 4096 "2 ^ 40" k, simplified])
  from this [of "m + n"] this [of "m + Suc n"] have room: "buffer_room b = 2 ^ 40 - (m + n)" "buffer_room ?b = 2 ^ 40 - (m + Suc n)"
    by (simp_all add: buffer_room_def n add_mult_distrib2)
  have b: "buffer_ok ?b" "\<And>k. buffer_table ?b k = buffer_table b k" using ok n room by (auto simp: buffer_ok_def buffer_table_def resize_def)
  have t: "buffer_tables ?b = insert (buffer_table b n) (buffer_tables b)"
  proof -
    have "{k. 4096 * k < length ?x} = insert n {k. 4096 * k < length (pt_bytes b)}" by (auto simp: n)
    moreover have "buffer_table ?b = buffer_table b" by (simp add: fun_eq_iff b(2))
    ultimately show ?thesis by (simp add: buffer_tables_def del: length_resize)
  qed
  have "buffer_table b n \<noteq> buffer_table b k" if "k < n" for k using buffer_table_inj [OF b(1), of n k] that by (simp add: n)
  then have new: "buffer_table b n \<notin> buffer_tables b" by (auto simp: buffer_tables_def n)
  have pte: "pte_at buffer_ops ?b (buffer_table b k) j = from_le_bytes (take 8 (drop (4096 * k + 8 * j) ?x))" if "k \<le> n" "j < 512" for k j
    using buffer_pte_at [OF b(1), of k j] that b(2) by (simp add: n)
  have "take 8 (drop (4096 * n + 8 * j) ?x) = replicate 8 0" if "j < 512" for j
    by (rule nth_equalityI) (use that n in \<open>auto simp: nth_resize\<close>)
  then have zero: "pte_at buffer_ops ?b (buffer_table b n) j = 0" if "j < 512" for j using pte [of n j] that from_le_bytes_zeros by simp
  have "take 8 (drop (4096 * k + 8 * j) ?x) = take 8 (drop (4096 * k + 8 * j) (pt_bytes b))" if "k < n" "j < 512" for k j
    by (rule nth_equalityI) (use that n in \<open>auto simp: nth_resize\<close>)
  then have keep: "pte_at buffer_ops ?b c j = pte_at buffer_ops b c j" if "c \<in> buffer_tables b" "j < 512" for c j
    using that pte buffer_pte_at [OF ok(1)] by (auto simp: buffer_tables_def n)
  show ?thesis using b t new zero keep room ok(2) n
    by (intro exI [of _ "buffer_table b n"] exI [of _ ?b]) (auto simp: buffer_ops_def buffer_table_def PAGE_TABLE_SIZE_def)
qed

lemma phys_mask:
  assumes "4096 dvd unat w" "unat w < 2 ^ 52"
  shows "w AND NOT PTE_ADDR_MASK = 0"
proof -
  have "take_bit 12 w = 0" using assms(1) by (simp add: word_unat_eq_iff unsigned_take_bit_eq take_bit_eq_mod [where 'a = nat])
  moreover have t: "take_bit 52 w = w" using assms(2) by (simp add: word_unat_eq_iff unsigned_take_bit_eq take_bit_nat_eq_self)
  moreover have p: "PTE_ADDR_MASK = mask 52 AND NOT (mask 12)" by (simp add: PTE_ADDR_MASK_def mask_eq_exp_minus_1)
  moreover have "w AND NOT (mask 52) = take_bit 52 w AND NOT (mask 52)" by (simp only: t)
  then have "w AND NOT (mask 52) = 0" by (simp only: take_bit_eq_mask and.assoc) simp
  ultimately show ?thesis by (simp only: p bit.de_Morgan_conj bit.double_compl bit.conj_disj_distrib take_bit_eq_mask) simp
qed

interpretation buffer: page_store buffer_ops buffer_ok buffer_tables buffer_room
proof
  fix b assume "buffer_ok b"
  then show "root_table buffer_ops b \<in> buffer_tables b"
    by (auto simp: buffer_ops_def buffer_tables_def buffer_ok_def buffer_table_def intro!: image_eqI [of _ _ 0])
next
  fix b a assume a: "buffer_ok b" "a \<in> buffer_tables b"
  then obtain k where k: "4096 * k < length (pt_bytes b)" "a = buffer_table b k" by (auto simp: buffer_tables_def)
  have "4096 dvd unat a" "unat a < 2 ^ 52" using buffer_entry(3) [OF a(1) k(1), of 0] k a(1) by (auto simp: buffer_ok_def)
  then show "to_phys buffer_ops a AND NOT PTE_ADDR_MASK = 0 \<and> from_phys buffer_ops (to_phys buffer_ops a) = a"
    using phys_mask by (simp add: buffer_ops_def)
qed (use buffer_write buffer_alloc in blast)+

lemma buffer_new_ok:
  assumes "4096 dvd unat base" "unat base + 4096 \<le> 2 ^ 52"
  shows "buffer.tree (buffer_new base)" "leaf_at buffer_ops (buffer_new base) x = None"
    "buffer_room (buffer_new base) = 2 ^ 40 - Suc (unat base div 4096)"
proof -
  let ?b = "buffer_new base"
  have ok: "buffer_ok ?b" using assms by (simp add: buffer_ok_def buffer_new_def PAGE_TABLE_SIZE_def)
  have root: "root_table buffer_ops ?b = buffer_table ?b 0" by (simp add: buffer_ops_def buffer_new_def buffer_table_def)
  have "take 8 (drop (8 * i) (replicate 4096 0)) = (replicate 8 0 :: bytes)" if "i < 512" for i using that by (simp add: min_def)
  then have zero: "pte_at buffer_ops ?b (buffer_table ?b 0) i = 0" if "i < 512" for i
    using buffer_pte_at [OF ok, of 0 i] that from_le_bytes_zeros by (simp add: buffer_new_def PAGE_TABLE_SIZE_def del: drop_replicate take_replicate)
  have none: "descend buffer_ops ?b p = (if p = [] then Some (buffer_table ?b 0) else None)" if "table_path p" for p
    using that
  proof (induction p rule: rev_induct)
    case (snoc i p)
    then show ?case using table_path_snocD [OF snoc.prems] zero [of i] by (auto simp: next_table_def)
  qed (simp add: root)
  show "buffer.tree ?b" using ok none buffer.root_ok [OF ok] by (auto simp: buffer.tree_def root split: if_splits)
  have "table_path (va_path 3 x)" "va_path 3 x \<noteq> []" using va_path_table [of 3 x] length_va_path [of 3 x] by auto
  then show "leaf_at buffer_ops ?b x = None" using none by (simp add: leaf_at_def leaf_def)
  show "buffer_room ?b = 2 ^ 40 - Suc (unat base div 4096)" using assms by (auto simp: buffer_room_def buffer_new_def PAGE_TABLE_SIZE_def)
qed

section \<open>What a sequence of mappings means\<close>

text \<open>A mapping that fits: whole pages, within one sign-extension of the 48-bit space, to physical addresses below \<open>2\<^sup>5\<^sup>2\<close>.\<close>

definition mapping_ok :: "vm_mapping \<Rightarrow> bool" where
  "mapping_ok m \<longleftrightarrow> 4096 dvd unat (virt_base m) \<and> 4096 dvd unat (map_len m) \<and> 4096 dvd unat (phys_base m) \<and>
     unat (virt_base m) mod 2 ^ 48 + unat (map_len m) \<le> 2 ^ 48 \<and> unat (virt_base m) + unat (map_len m) < 2 ^ 64 \<and>
     unat (phys_base m) + unat (map_len m) \<le> 2 ^ 52"

definition covers :: "vm_mapping \<Rightarrow> nat \<Rightarrow> bool" where
  "covers m y \<longleftrightarrow> unat (virt_base m) mod 2 ^ 48 \<le> y \<and> y < unat (virt_base m) mod 2 ^ 48 + unat (map_len m)"

text \<open>The canonical address of a page, and the page as a mapping of its own.\<close>

definition canonical :: "nat \<Rightarrow> u64" where
  "canonical y = of_nat (if y < 2 ^ 47 then y else y + (2 ^ 64 - 2 ^ 48))"

definition page_of :: "vm_mapping \<Rightarrow> nat \<Rightarrow> vm_mapping option" where
  "page_of m y =
     (let pg = \<lambda>k. Some \<lparr>phys_base = phys_base m + of_nat (y - unat (virt_base m) mod 2 ^ 48), virt_base = canonical y,
        map_len = 4096, map_kind = k, user_accessible = False\<rparr> in
      case map_kind m of Basic bm \<Rightarrow> pg (Basic (bm\<lparr>bm_readable := True\<rparr>)) | Cow cm \<Rightarrow> pg (Cow (cm\<lparr>cm_readable := True\<rparr>)) | Unmapped \<Rightarrow> None)"

definition page_view :: "vm_mapping list \<Rightarrow> nat \<Rightarrow> vm_mapping option" where
  "page_view ms y = Option.bind (find (\<lambda>m. covers m y) (rev ms)) (\<lambda>m. page_of m y)"

lemma canonical_sign:
  assumes "y < 2 ^ 48"
  shows "push_bit 48 (0 - drop_bit 47 (of_nat y)) OR of_nat y = canonical y"
proof -
  have y: "unat (of_nat y :: u64) = y" using assms by (intro unat_of_nat_u64) simp
  have d: "drop_bit 47 (of_nat y :: u64) = of_nat (y div 2 ^ 47)"
    by (rule word_unat_eq_iff [THEN iffD2]) (use assms in \<open>simp add: unsigned_drop_bit_eq y drop_bit_eq_div [where 'a = nat] unat_of_nat_u64 take_bit_nat_eq_self\<close>)
  show ?thesis
  proof (cases "y < 2 ^ 47")
    case False
    then have "y div 2 ^ 47 = 1" using assms by (simp add: div_nat_eqI)
    moreover have "take_bit 48 (of_nat y :: u64) = of_nat y"
      by (rule word_unat_eq_iff [THEN iffD2]) (use assms in \<open>simp add: unsigned_take_bit_eq y take_bit_nat_eq_self\<close>)
    then have "push_bit 48 (- 1) AND (of_nat y :: u64) = push_bit 48 (- 1) AND take_bit 48 (of_nat y)" by simp
    then have "push_bit 48 (- 1) AND (of_nat y :: u64) = 0" by (simp only:) (rule bit_word_eqI, auto simp: bit_simps)
    then have "push_bit 48 (- 1) OR (of_nat y :: u64) = push_bit 48 (- 1) + of_nat y" by (simp add: disjunctive_add_eq_or)
    ultimately show ?thesis using False d by (simp add: canonical_def push_bit_eq_mult)
  qed (use d in \<open>simp add: canonical_def\<close>)
qed

text \<open>A leaf reads back as the page it was written for.\<close>

lemma leaf_flags:
  assumes "pa AND NOT PTE_ADDR_MASK = 0"
  shows "flags AND PTE_ADDR_MASK = 0 \<Longrightarrow> flags AND PAGE_PRESENT \<noteq> 0 \<Longrightarrow>
    map_option (leaf_mapping vmin) (present (pa OR flags)) =
      Some \<lparr>phys_base = pa, virt_base = push_bit 48 (0 - drop_bit 47 vmin) OR vmin, map_len = 4096,
        map_kind = (if flags AND PTE_AVL_MASK = PAGE_AVL_COW then Cow \<lparr>cm_readable = True, cm_executable = flags AND PAGE_NX = 0\<rparr>
          else Basic \<lparr>bm_readable = True, bm_writable = flags AND PAGE_RW \<noteq> 0, bm_executable = flags AND PAGE_NX = 0\<rparr>), user_accessible = False\<rparr>"
proof -
  assume f: "flags AND PTE_ADDR_MASK = 0" "flags AND PAGE_PRESENT \<noteq> 0"
  have m: "PAGE_PRESENT AND PTE_ADDR_MASK = 0" "PAGE_NX AND PTE_ADDR_MASK = 0" "PAGE_RW AND PTE_ADDR_MASK = 0" "PTE_AVL_MASK AND PTE_ADDR_MASK = 0"
    by (simp_all add: pte_flags)
  show ?thesis using f(2) by (simp add: present_def leaf_mapping_def addr_mask(1) [OF assms f(1)] addr_mask(2) [OF assms f(1)] m VA_BITS_def PAGE_SIZE_vm_def)
qed

lemma leaf_page:
  assumes m: "mapping_ok m" "covers m y" and y: "4096 dvd y" "y < 2 ^ 48"
  shows "map_option (leaf_mapping (of_nat y)) (present (leaf_pte m (virt_base m + of_nat (y - unat (virt_base m) mod 2 ^ 48)))) = page_of m y"
proof -
  define k where "k = y - unat (virt_base m) mod 2 ^ 48"
  define pa where "pa = phys_base m + of_nat k"
  have V: "4096 dvd unat (virt_base m) mod 2 ^ 48" using m(1) by (auto simp: mapping_ok_def dvd_mod_iff)
  have k: "k < unat (map_len m)" "4096 dvd k" using m(2) y(1) V by (auto simp: covers_def k_def)
  have l: "unat (phys_base m) + unat (map_len m) \<le> 2 ^ 52" "4096 dvd unat (phys_base m)" using m(1) by (auto simp: mapping_ok_def)
  have "unat (of_nat k :: u64) = k" using k l by (intro unat_of_nat_u64) simp
  then have "unat pa = unat (phys_base m) + k" using k l by (simp add: pa_def unat_word_ariths)
  then have pa: "pa AND NOT PTE_ADDR_MASK = 0" using k l by (intro phys_mask) auto
  show ?thesis
  proof (cases "map_kind m")
    case (Basic bm)
    let ?f = "page_nx_flag (bm_executable bm) OR PAGE_PAT_WB OR PAGE_DIRTY_SET OR PAGE_ACCESSED_SET
          OR PAGE_CACHE_ENABLED OR PAGE_WRITE_BACK OR PAGE_USER_ACCESS_DISABLED OR page_rw_flag (bm_writable bm) OR PAGE_PRESENT"
    have "?f AND PTE_ADDR_MASK = 0" "?f AND PAGE_PRESENT \<noteq> 0" "(?f AND PAGE_NX = 0) = bm_executable bm" "(?f AND PAGE_RW = 0) = (\<not> bm_writable bm)"
      "?f AND PTE_AVL_MASK \<noteq> PAGE_AVL_COW"
      by (cases "bm_executable bm"; cases "bm_writable bm"; simp add: pte_flags page_nx_flag_def page_rw_flag_def)+
    note f = this
    have e: "leaf_pte m (virt_base m + of_nat k) = pa OR ?f" by (simp add: leaf_pte_def Basic pa_def or.assoc)
    show ?thesis unfolding k_def [symmetric] e leaf_flags [OF pa f(1,2)] canonical_sign [OF y(2)]
      by (simp add: f page_of_def Basic pa_def k_def)
  next
    case (Cow cm)
    let ?f = "page_nx_flag (cm_executable cm) OR PAGE_AVL_COW OR PAGE_PAT_WB OR PAGE_DIRTY_SET OR PAGE_ACCESSED_SET
          OR PAGE_CACHE_ENABLED OR PAGE_WRITE_BACK OR PAGE_USER_ACCESS_DISABLED OR PAGE_PRESENT"
    have "?f AND PTE_ADDR_MASK = 0" "?f AND PAGE_PRESENT \<noteq> 0" "(?f AND PAGE_NX = 0) = cm_executable cm" "?f AND PTE_AVL_MASK = PAGE_AVL_COW"
      by (cases "cm_executable cm"; simp add: pte_flags page_nx_flag_def page_rw_flag_def)+
    note f = this
    have e: "leaf_pte m (virt_base m + of_nat k) = pa OR ?f" by (simp add: leaf_pte_def Cow pa_def or.assoc)
    show ?thesis unfolding k_def [symmetric] e leaf_flags [OF pa f(1,2)] canonical_sign [OF y(2)]
      by (simp add: f page_of_def Cow pa_def k_def)
  qed (simp add: leaf_pte_def page_of_def Let_def)
qed

definition map_all :: "vm_mapping list \<Rightarrow> pt_buffer \<Rightarrow> pt_buffer option" where
  "map_all ms b = for_each (map_vm buffer_ops Parent_None) ms b"

lemma for_each_append: "for_each f (xs @ ys) s = Option.bind (for_each f xs s) (for_each f ys)"
  by (induction xs arbitrary: s) (auto simp: bind_assoc split: bind_splits)

lemma leaf_at_page_no: "page_no x = page_no y \<Longrightarrow> leaf_at op' s x = leaf_at op' s y"
  unfolding leaf_at_def using page_no_leaf [of x y] by simp

lemma mapped_pages:
  assumes m: "mapping_ok m" and y: "4096 dvd y" "y < 2 ^ 48"
    and b: "buffer.mapped m (unat (virt_base m)) (unat (virt_base m) + unat (map_len m)) b b'"
  shows "map_option (leaf_mapping (of_nat y)) (leaf_at buffer_ops b' y) =
    (if covers m y then page_of m y else map_option (leaf_mapping (of_nat y)) (leaf_at buffer_ops b y))"
proof -
  let ?v = "unat (virt_base m)" and ?l = "unat (map_len m)"
  define V where "V = ?v mod 2 ^ 48"
  define H where "H = ?v div 2 ^ 48"
  have v: "?v = 2 ^ 48 * H + V" "V < 2 ^ 48" "V + ?l \<le> 2 ^ 48" "?v + ?l < 2 ^ 64" "4096 dvd ?v"
    using m by (auto simp: mapping_ok_def V_def H_def)
  have pn: "page_no (2 ^ 48 * H + z) = page_no z" for z
  proof -
    have "(z + 2 ^ 36 * H * 4096) div 4096 = 2 ^ 36 * H + z div 4096" by (rule div_mult_self1) simp
    then show ?thesis by (simp add: page_no_def algebra_simps)
  qed
  show ?thesis
  proof (cases "covers m y")
    case True
    let ?y = "?v + (y - V)"
    have c: "V \<le> y" "y < V + ?l" using True by (auto simp: covers_def V_def)
    have e: "?y = 2 ^ 48 * H + y" using v(1) c(1) by simp
    have "4096 dvd ?y" unfolding e using y(1) by simp
    then have "leaf_at buffer_ops b' ?y = present (leaf_pte m (of_nat ?y))" using b c by (simp add: buffer.mapped_def)
    moreover have "leaf_at buffer_ops b' y = leaf_at buffer_ops b' ?y" by (rule leaf_at_page_no) (simp only: e pn)
    ultimately show ?thesis using True leaf_page [OF m True y] by (simp add: V_def)
  next
    case False
    have "page_no z \<noteq> page_no y" if z: "?v \<le> z" "z < ?v + ?l" "4096 dvd z" for z
    proof
      assume p: "page_no z = page_no y"
      define w where "w = z - 2 ^ 48 * H"
      have w: "z = 2 ^ 48 * H + w" "V \<le> w" "w < V + ?l" using z v(1) by (auto simp: w_def)
      have "4096 dvd w" using z(3) w(1) by (simp add: dvd_add_right_iff)
      moreover have "page_no w = page_no y" using p pn [of w] w(1) by (simp only:)
      moreover have "w div 2 ^ 48 = y div 2 ^ 48" using w(3) v(3) y(2) by simp
      ultimately have "w = y" by (intro page_no_inj [OF _ _ y(1)])
      then show False using False w by (simp add: covers_def V_def)
    qed
    then show ?thesis using False b by (simp add: buffer.mapped_def)
  qed
qed

lemma page_view_snoc: "page_view (ms @ [m]) y = (if covers m y then page_of m y else page_view ms y)"
  by (simp add: page_view_def)

definition pages_in :: "vm_mapping list \<Rightarrow> nat" where
  "pages_in ms = (\<Sum>m\<leftarrow>ms. unat (map_len m) div 4096)"

lemma map_all_ok:
  assumes base: "4096 dvd unat base" "unat base + 4096 \<le> 2 ^ 52"
  shows "list_all mapping_ok ms \<Longrightarrow> 3 * pages_in ms \<le> buffer_room (buffer_new base) \<Longrightarrow>
    \<exists>b. map_all ms (buffer_new base) = Some b \<and> buffer.tree b \<and> buffer_room (buffer_new base) \<le> buffer_room b + 3 * pages_in ms \<and>
      (\<forall>y. 4096 dvd y \<longrightarrow> y < 2 ^ 48 \<longrightarrow> map_option (leaf_mapping (of_nat y)) (leaf_at buffer_ops b y) = page_view ms y)"
proof (induction ms rule: rev_induct)
  case Nil
  then show ?case using buffer_new_ok [OF base] by (simp add: map_all_def pages_in_def page_view_def)
next
  case (snoc m ms)
  have p: "pages_in (ms @ [m]) = pages_in ms + unat (map_len m) div 4096" by (simp add: pages_in_def)
  have m: "mapping_ok m" and ms: "list_all mapping_ok ms" "3 * pages_in ms \<le> buffer_room (buffer_new base)" using snoc.prems p by auto
  obtain b where b: "map_all ms (buffer_new base) = Some b" "buffer.tree b" "buffer_room (buffer_new base) \<le> buffer_room b + 3 * pages_in ms"
    "\<forall>y. 4096 dvd y \<longrightarrow> y < 2 ^ 48 \<longrightarrow> map_option (leaf_mapping (of_nat y)) (leaf_at buffer_ops b y) = page_view ms y"
    using snoc.IH [OF ms] by blast
  have "unat (virt_base m) div 2 ^ 48 = (unat (virt_base m) + unat (map_len m) - 1) div 2 ^ 48" if "0 < unat (map_len m)"
  proof -
    have "unat (virt_base m) + unat (map_len m) - 1 = unat (virt_base m) div 2 ^ 48 * 2 ^ 48 + (unat (virt_base m) mod 2 ^ 48 + unat (map_len m) - 1)"
      using that div_mult_mod_eq [of "unat (virt_base m)" "2 ^ 48"] by linarith
    moreover have "unat (virt_base m) mod 2 ^ 48 + unat (map_len m) - 1 < 2 ^ 48" using m that by (auto simp: mapping_ok_def)
    ultimately show ?thesis by simp
  qed
  then obtain b' where b': "map_vm buffer_ops Parent_None m b = Some b'"
    "buffer.mapped m (unat (virt_base m)) (unat (virt_base m) + unat (map_len m)) b b'" "buffer_room b \<le> buffer_room b' + 3 * (unat (map_len m) div 4096)"
    using buffer.map_vm_ok [OF b(2), of m Parent_None] m b(3) snoc.prems(2) p by (auto simp: mapping_ok_def)
  have "map_all (ms @ [m]) (buffer_new base) = Some b'" using b(1) b'(1) by (simp add: map_all_def for_each_append)
  moreover have "buffer.tree b'" using buffer.growsD(1) [OF buffer.mapped_grows [OF b'(2)]] .
  moreover have "buffer_room (buffer_new base) \<le> buffer_room b' + 3 * pages_in (ms @ [m])" using b(3) b'(3) p by simp
  ultimately show ?case using mapped_pages [OF m _ _ b'(2)] b(4) by (intro exI [of _ b']) (simp add: page_view_snoc)
qed

lemma page_list_dvd: "y \<in> set (page_list v e) \<Longrightarrow> 4096 dvd v \<Longrightarrow> 4096 dvd y"
  by (auto simp: page_list_def)

text \<open>C16: After any sequence of page-aligned mappings into a fresh table buffer with room for their tables, every mapping has been
  entered, and a translation of any range lists, page by page in order, exactly the pages whose last covering mapping is not
  \<open>Unmapped\<close>, each with that mapping's physical address, permissions and kind, under its canonical virtual address.\<close>

theorem translate_after_map:
  assumes "4096 dvd unat base" "list_all mapping_ok ms" "unat base div 4096 + 3 * pages_in ms < 2 ^ 40"
  shows "\<exists>b. map_all ms (buffer_new base) = Some b \<and>
    (\<forall>address len. unat address mod 2 ^ 48 + unat len < 2 ^ 64 \<longrightarrow>
       virt_to_phys buffer_ops b address len =
         Some (List.map_filter (page_view ms)
           (page_list (unat address mod 2 ^ 48 div 4096 * 4096) (min (unat address mod 2 ^ 48 + unat len) (2 ^ 48)))))"
proof -
  have base: "unat base + 4096 \<le> 2 ^ 52" using assms(1,3) by (auto elim!: dvdE)
  have room: "3 * pages_in ms \<le> buffer_room (buffer_new base)" unfolding buffer_new_ok(3) [OF assms(1) base] using assms(3) by simp
  obtain b where b: "map_all ms (buffer_new base) = Some b"
    "\<And>y. 4096 dvd y \<Longrightarrow> y < 2 ^ 48 \<Longrightarrow> map_option (leaf_mapping (of_nat y)) (leaf_at buffer_ops b y) = page_view ms y"
    using map_all_ok [OF assms(1) base assms(2) room] by blast
  have "found buffer_ops b (page_list v e) = List.map_filter (page_view ms) (page_list v e)" if "4096 dvd v" "e \<le> 2 ^ 48" for v e
    unfolding found_def
  proof (rule map_filter_cong)
    fix y
    assume y: "y \<in> set (page_list v e)"
    show "map_option (leaf_mapping (of_nat y)) (leaf_at buffer_ops b y) = page_view ms y"
      using page_list_range [OF y] that(2) by (intro b(2) page_list_dvd [OF y that(1)]) simp
  qed
  then show ?thesis using b(1) virt_to_phys_found [of _ _ buffer_ops b] by auto
qed

definition ex_mapping :: vm_mapping where
  "ex_mapping = \<lparr>phys_base = 0x8000, virt_base = 0xFFFF800000001000, map_len = 0x2000,
     map_kind = Basic \<lparr>bm_readable = True, bm_writable = True, bm_executable = False\<rparr>, user_accessible = False\<rparr>"

theorem translate_after_map_witness:
  "\<exists>b. map_all [ex_mapping] (buffer_new 0) = Some b \<and>
     virt_to_phys buffer_ops b 0xFFFF800000002004 0x2000 =
       Some [\<lparr>phys_base = 0x9000, virt_base = 0xFFFF800000002000, map_len = 4096,
         map_kind = Basic \<lparr>bm_readable = True, bm_writable = True, bm_executable = False\<rparr>, user_accessible = False\<rparr>]"
proof -
  obtain b where b: "map_all [ex_mapping] (buffer_new 0) = Some b"
    "\<forall>address len. unat address mod 2 ^ 48 + unat len < 2 ^ 64 \<longrightarrow> virt_to_phys buffer_ops b address len =
         Some (List.map_filter (page_view [ex_mapping])
           (page_list (unat address mod 2 ^ 48 div 4096 * 4096) (min (unat address mod 2 ^ 48 + unat len) (2 ^ 48))))"
    using translate_after_map [of 0 "[ex_mapping]"] by (auto simp: mapping_ok_def ex_mapping_def pages_in_def)
  have "page_list 0x800000002000 0x800000004004 = [0x800000002000, 0x800000003000, 0x800000004000]"
    by (simp add: page_list_def div_ceil_def upt_rec)
  then show ?thesis using b(1) b(2) [rule_format, of "0xFFFF800000002004" "0x2000"]
    by (simp add: List.map_filter_def page_view_def covers_def page_of_def canonical_def ex_mapping_def)
qed

text \<open>A range that ends with the address space: \<open>vmin + len\<close> wraps to 0, and nothing is mapped.\<close>

lemma map_to_top_does_nothing: "unat (virt_base m) + unat (map_len m) = 2 ^ 64 \<Longrightarrow> map_vm op' up m s = Some s"
proof -
  assume "unat (virt_base m) + unat (map_len m) = 2 ^ 64"
  then have "virt_base m + map_len m = 0" by (simp add: word_unat_eq_iff unat_word_ariths)
  then show ?thesis
    by (simp add: map_vm_def pt_levels_def modify_ptes_def next_pte_def ptes_from.simps [of _ _ _ _ 0])
qed

end
