(* ===== verification/Genesis_Scoring.thy ===== *)
theory Genesis_Scoring
  imports Prelude
begin

text \<open>
  The Genesis protocol, which scores the commits of the repository: the types of \<open>spec/Genesis/Types.lean\<close> and the scoring
  and ranking of \<open>spec/Genesis/Scoring.lean\<close>, one definition per Lean function with its name. A class instance
  \<open>GenesisVariant\<close> is an argument \<open>gv\<close>. \<open>Array.qsort\<close> is not stable, so the order of equal elements is open: a record
  \<open>Q\<close> gives a sorting function for each type that is sorted, and the laws of the other theories hold for every such record.
\<close>

section \<open>Types\<close>

text \<open>\<open>GenesisConfig\<close>, the parameters of a protocol version, and the three versions.\<close>

record genesis_variant =
  gv_name :: string
  reviewerThreshold :: nat
  minReviews :: nat
  rankingSize :: nat
  quantileNum :: nat
  quantileDen :: nat
  designWeight :: nat
  numWeightedDimensions :: nat
  useRankedTargets :: bool
  useBradleyTerry :: bool
  btInitialVariance :: nat

definition variant_v1 :: genesis_variant where
  "variant_v1 = \<lparr>gv_name = ''genesis_v1'', reviewerThreshold = 500, minReviews = 1, rankingSize = 7, quantileNum = 1,
     quantileDen = 3, designWeight = 3, numWeightedDimensions = 5, useRankedTargets = False, useBradleyTerry = False,
     btInitialVariance = 0\<rparr>"

definition variant_v2 :: genesis_variant where
  "variant_v2 = \<lparr>gv_name = ''genesis_v2'', reviewerThreshold = 500, minReviews = 1, rankingSize = 7, quantileNum = 1,
     quantileDen = 3, designWeight = 3, numWeightedDimensions = 5, useRankedTargets = True, useBradleyTerry = False,
     btInitialVariance = 0\<rparr>"

definition variant_v3 :: genesis_variant where
  "variant_v3 = \<lparr>gv_name = ''genesis_v3'', reviewerThreshold = 500, minReviews = 1, rankingSize = 7, quantileNum = 1,
     quantileDen = 3, designWeight = 3, numWeightedDimensions = 5, useRankedTargets = True, useBradleyTerry = True,
     btInitialVariance = 25000000\<rparr>"

type_synonym contributor_id = string
type_synonym pr_id = nat
type_synonym epoch = nat

text \<open>\<open>CommitId\<close> with its equality, which no invalid id satisfies, not even with itself. Lists of ids are compared and
  searched with it.\<close>

datatype commit_id = Valid_Id string | Invalid_Id

fun ceq :: "commit_id \<Rightarrow> commit_id \<Rightarrow> bool" where
  "ceq (Valid_Id a) (Valid_Id b) \<longleftrightarrow> a = b"
| "ceq _ _ \<longleftrightarrow> False"

definition commit_string :: "commit_id \<Rightarrow> string" where
  "commit_string c = (case c of Valid_Id h \<Rightarrow> h | Invalid_Id \<Rightarrow> ''invalid'')"

definition has_id :: "commit_id list \<Rightarrow> commit_id \<Rightarrow> bool" where
  "has_id cs c \<longleftrightarrow> list_ex (ceq c) cs"

definition same_ids :: "commit_id list \<Rightarrow> commit_id list \<Rightarrow> bool" where
  "same_ids as bs \<longleftrightarrow> list_all2 ceq as bs"

primrec find_id :: "commit_id list \<Rightarrow> commit_id \<Rightarrow> nat option" where
  "find_id [] c = None"
| "find_id (x # xs) c = (if ceq x c then Some 0 else map_option Suc (find_id xs c))"

text \<open>\<open>cs[i]!\<close>, with the default of \<open>CommitId\<close> out of range.\<close>

definition id_at :: "commit_id list \<Rightarrow> nat \<Rightarrow> commit_id" where
  "id_at cs i = (if i < length cs then cs ! i else Invalid_Id)"

datatype verdict = Verdict_Merge | Verdict_NotMerge

record embedded_review =
  reviewer :: contributor_id
  difficultyRanking :: "commit_id list"
  noveltyRanking :: "commit_id list"
  designQualityRanking :: "commit_id list"
  review_verdict :: verdict

record meta_review =
  metaReviewer :: contributor_id
  targetReviewer :: contributor_id
  approve :: bool

record commit_score =
  sc_difficulty :: nat
  sc_novelty :: nat
  sc_designQuality :: nat

definition weighted :: "genesis_variant \<Rightarrow> commit_score \<Rightarrow> nat" where
  "weighted gv s = (sc_difficulty s + sc_novelty s + designWeight gv * sc_designQuality s) div numWeightedDimensions gv"

record signed_commit =
  sg_id :: commit_id
  sg_prId :: pr_id
  sg_author :: contributor_id
  sg_mergeEpoch :: epoch
  sg_prCreatedAt :: epoch
  sg_targets :: "commit_id list"
  sg_reviews :: "embedded_review list"
  sg_metaReviews :: "meta_review list"
  sg_founderOverride :: bool

record contributor =
  ct_id :: contributor_id
  ct_balance :: nat
  ct_weight :: nat
  ct_isReviewer :: bool

text \<open>The sorting function, at each type it is used at: \<open>as.qsort lt\<close> is \<open>q lt as\<close>.\<close>

record qsorts =
  q_entries :: "(nat \<times> nat \<Rightarrow> nat \<times> nat \<Rightarrow> bool) \<Rightarrow> (nat \<times> nat) list \<Rightarrow> (nat \<times> nat) list"
  q_ranked :: "(commit_id \<times> nat \<Rightarrow> commit_id \<times> nat \<Rightarrow> bool) \<Rightarrow> (commit_id \<times> nat) list \<Rightarrow> (commit_id \<times> nat) list"
  q_reviews :: "(embedded_review \<times> nat \<times> nat \<Rightarrow> embedded_review \<times> nat \<times> nat \<Rightarrow> bool) \<Rightarrow>
    (embedded_review \<times> nat \<times> nat) list \<Rightarrow> (embedded_review \<times> nat \<times> nat) list"
  q_netWins :: "((commit_id \<times> int) \<times> nat \<Rightarrow> (commit_id \<times> int) \<times> nat \<Rightarrow> bool) \<Rightarrow>
    ((commit_id \<times> int) \<times> nat) list \<Rightarrow> ((commit_id \<times> int) \<times> nat) list"
  q_scored :: "(commit_id \<times> int \<times> nat \<Rightarrow> commit_id \<times> int \<times> nat \<Rightarrow> bool) \<Rightarrow> (commit_id \<times> int \<times> nat) list \<Rightarrow> (commit_id \<times> int \<times> nat) list"

section \<open>Comparison targets, by time\<close>

definition prIdHash :: "pr_id \<Rightarrow> nat" where
  "prIdHash p = (let a = 2654435761 in (p * a) mod 2 ^ 32)"

definition eligible_before :: "epoch \<Rightarrow> (commit_id \<times> epoch) list \<Rightarrow> (commit_id \<times> epoch) list" where
  "eligible_before t cs = filter (\<lambda>(_, e). e < t) cs"

text \<open>The pick of bucket \<open>i\<close> of \<open>k\<close>, as the selections by time and by rank make it.\<close>

definition bucket_pick :: "commit_id list \<Rightarrow> nat \<Rightarrow> nat \<Rightarrow> nat \<Rightarrow> commit_id" where
  "bucket_pick cs k hash i =
     (let n = length cs;
          bucketStart = n * i div k;
          bucketEnd = n * (i + 1) div k;
          bucketSize = bucketEnd - bucketStart in
      if bucketSize = 0 then id_at cs bucketStart
      else id_at cs (bucketStart + (hash + i * 7) mod bucketSize))"

definition selectComparisonTargets :: "(commit_id \<times> epoch) list \<Rightarrow> nat \<Rightarrow> pr_id \<Rightarrow> epoch \<Rightarrow> commit_id list" where
  "selectComparisonTargets scoredCommits numTargets prId prCreatedAt =
     (let pastCommitIds = map fst (eligible_before prCreatedAt scoredCommits);
          n = length pastCommitIds in
      if n = 0 then []
      else
        let k = min numTargets n;
            hash = prIdHash prId in
        map (bucket_pick pastCommitIds k hash) [0..<k])"

section \<open>Reviews and scores\<close>

definition metaReviewNet :: "meta_review list \<Rightarrow> contributor_id \<Rightarrow> (contributor_id \<Rightarrow> nat) \<Rightarrow> int" where
  "metaReviewNet metaReviews target getWeight =
     foldl (\<lambda>acc mr.
       if targetReviewer mr = target then
         let w = int (getWeight (metaReviewer mr)) in if approve mr then acc + w else acc - w
       else acc) 0 metaReviews"

definition filterReviews :: "embedded_review list \<Rightarrow> meta_review list \<Rightarrow> (contributor_id \<Rightarrow> nat) \<Rightarrow> embedded_review list" where
  "filterReviews reviews metaReviews getWeight = filter (\<lambda>r. metaReviewNet metaReviews (reviewer r) getWeight \<ge> 0) reviews"

definition percentileFromRanking :: "commit_id list \<Rightarrow> commit_id \<Rightarrow> nat" where
  "percentileFromRanking ranking currentPR =
     (let n = length ranking in
      if n \<le> 1 then 100
      else case find_id ranking currentPR of None \<Rightarrow> 0 | Some pos \<Rightarrow> (n - 1 - pos) * 100 div (n - 1))"

definition scoreFromReview :: "embedded_review \<Rightarrow> commit_id \<Rightarrow> commit_score" where
  "scoreFromReview review currentPR =
     \<lparr>sc_difficulty = percentileFromRanking (difficultyRanking review) currentPR,
      sc_novelty = percentileFromRanking (noveltyRanking review) currentPR,
      sc_designQuality = percentileFromRanking (designQualityRanking review) currentPR\<rparr>"

text \<open>The walk that stops at the quantile: the last element before which no more than \<open>target\<close> has been accumulated.\<close>

definition quantile_walk :: "('a \<Rightarrow> nat) \<Rightarrow> ('a \<Rightarrow> 'b) \<Rightarrow> nat \<Rightarrow> 'b \<Rightarrow> 'a list \<Rightarrow> 'b" where
  "quantile_walk w f target best xs =
     snd (foldl (\<lambda>(cumWeight, best) x. if cumWeight \<le> target then (cumWeight + w x, f x) else (cumWeight + w x, best)) (0, best) xs)"

definition weightedQuantile :: "qsorts \<Rightarrow> nat \<Rightarrow> nat \<Rightarrow> (nat \<times> nat) list \<Rightarrow> nat" where
  "weightedQuantile Q qNum qDen entries =
     (if entries = [] then 0
      else
        let sorted = q_entries Q (\<lambda>a b. snd a < snd b) entries;
            totalWeight = foldl (\<lambda>acc (w, _). acc + w) 0 sorted in
        if totalWeight = 0 then 0
        else quantile_walk fst snd (totalWeight * qNum div qDen) (snd (hd sorted)) sorted)"

definition zero_score :: commit_score where
  "zero_score = \<lparr>sc_difficulty = 0, sc_novelty = 0, sc_designQuality = 0\<rparr>"

definition deriveScore :: "qsorts \<Rightarrow> genesis_variant \<Rightarrow> embedded_review list \<Rightarrow> commit_id \<Rightarrow> (contributor_id \<Rightarrow> nat) \<Rightarrow> commit_score" where
  "deriveScore Q gv reviews currentPR getWeight =
     (let weightedScores = List.map_filter (\<lambda>r.
            let w = getWeight (reviewer r) in if w = 0 then None else Some (w, scoreFromReview r currentPR)) reviews in
      if weightedScores = [] then zero_score
      else
        let quantile = \<lambda>f. weightedQuantile Q (quantileNum gv) (quantileDen gv) (map (\<lambda>(w, s). (w, f s)) weightedScores) in
        \<lparr>sc_difficulty = quantile sc_difficulty, sc_novelty = quantile sc_novelty, sc_designQuality = quantile sc_designQuality\<rparr>)"

section \<open>Pairwise evidence\<close>

definition position_in :: "commit_id list \<Rightarrow> commit_id \<Rightarrow> nat" where
  "position_in ranking c = (case find_id ranking c of None \<Rightarrow> length ranking | Some pos \<Rightarrow> pos)"

definition aggregateReviewRanking :: "genesis_variant \<Rightarrow> embedded_review \<Rightarrow> (commit_id \<times> nat) list" where
  "aggregateReviewRanking gv review =
     map (\<lambda>c. (c, position_in (difficultyRanking review) c + position_in (noveltyRanking review) c +
       designWeight gv * position_in (designQualityRanking review) c)) (designQualityRanking review)"

definition extractPairwise :: "qsorts \<Rightarrow> genesis_variant \<Rightarrow> embedded_review \<Rightarrow> (commit_id \<times> commit_id) list" where
  "extractPairwise Q gv review =
     (let sorted = q_ranked Q (\<lambda>a b. snd a < snd b) (aggregateReviewRanking gv review);
          commits = map fst sorted;
          indexed = zip commits [0..<length commits] in
      foldl (\<lambda>acc (winner, i). acc @ map (\<lambda>loser. (winner, loser)) (drop (i + 1) commits)) [] indexed)"

definition accumulatePairwiseFromReview ::
    "qsorts \<Rightarrow> genesis_variant \<Rightarrow> embedded_review \<Rightarrow> (commit_id \<times> commit_id list) list \<Rightarrow> (commit_id \<times> commit_id list) list" where
  "accumulatePairwiseFromReview Q gv review existing =
     foldl (\<lambda>acc (winner, loser).
       case find (\<lambda>(c, _). ceq c winner) acc of
         Some (_, losers) \<Rightarrow>
           if has_id losers loser then acc
           else map (\<lambda>(c, ls). if ceq c winner then (c, ls @ [loser]) else (c, ls)) acc
       | None \<Rightarrow> acc @ [(winner, [loser])]) existing (extractPairwise Q gv review)"

definition selectQuantileReviewer ::
    "qsorts \<Rightarrow> genesis_variant \<Rightarrow> embedded_review list \<Rightarrow> (contributor_id \<Rightarrow> nat) \<Rightarrow> commit_id \<Rightarrow> embedded_review option" where
  "selectQuantileReviewer Q gv reviews getWeight commitId =
     (let weighted = List.map_filter (\<lambda>r. let w = getWeight (reviewer r) in if w = 0 then None else Some (r, w)) reviews in
      if weighted = [] then None
      else
        let withPos = map (\<lambda>(r, w).
              let commits = map fst (q_ranked Q (\<lambda>a b. snd a < snd b) (aggregateReviewRanking gv r)) in
              (r, w, position_in commits commitId)) weighted;
            sorted = q_reviews Q (\<lambda>(_, _, p1) (_, _, p2). p1 > p2) withPos;
            totalWeight = foldl (\<lambda>acc (_, w, _). acc + w) 0 sorted in
        quantile_walk (\<lambda>(_, w, _). w) (\<lambda>(r, _, _). Some r) (totalWeight * quantileNum gv div quantileDen gv) None sorted)"

section \<open>Ranking by net wins\<close>

definition computeNetWins :: "commit_id list \<Rightarrow> (commit_id \<times> commit_id list) list \<Rightarrow> (commit_id \<times> int) list" where
  "computeNetWins commits wins =
     map (\<lambda>c.
       let beaten = (case find (\<lambda>(w, _). ceq w c) wins of
             Some (_, losers) \<Rightarrow> length (filter (has_id commits) losers) | None \<Rightarrow> 0);
           lostTo = foldl (\<lambda>acc other. case find (\<lambda>(w, _). ceq w other) wins of
             Some (_, losers) \<Rightarrow> if has_id losers c then acc + 1 else acc | None \<Rightarrow> acc) 0 commits in
       (c, int beaten - int lostTo)) commits"

record ranking_ctx =
  rc_variant :: genesis_variant
  rc_getWeight :: "contributor_id \<Rightarrow> nat"

definition computeRankingNetWins :: "qsorts \<Rightarrow> signed_commit list \<Rightarrow> ranking_ctx list \<Rightarrow> commit_id list" where
  "computeRankingNetWins Q signedCommits contexts =
     (let allCommitIds = map sg_id signedCommits;
          pairwiseWins = foldl (\<lambda>acc (commit, ctx).
            case selectQuantileReviewer Q (rc_variant ctx) (sg_reviews commit) (rc_getWeight ctx) (sg_id commit) of
              Some review \<Rightarrow> accumulatePairwiseFromReview Q (rc_variant ctx) review acc | None \<Rightarrow> acc) [] (zip signedCommits contexts);
          netWins = computeNetWins allCommitIds pairwiseWins;
          indexed = zip netWins [0..<length netWins];
          sorted = q_netWins Q (\<lambda>((_, nw1), i1) ((_, nw2), i2). if nw1 \<noteq> nw2 then nw1 > nw2 else i1 < i2) indexed in
      map (\<lambda>((c, _), _). c) sorted)"

section \<open>Bradley-Terry ranking\<close>

definition BT_SCALE :: nat where "BT_SCALE = 1000000"
definition PI_SQUARED_SCALED :: nat where "PI_SQUARED_SCALED = 9869604"
definition BT_VARIANCE_FLOOR :: nat where "BT_VARIANCE_FLOOR = BT_SCALE div 10"

definition sigmoidTable :: "nat list" where
  "sigmoidTable = [45, 123, 335, 911, 2473, 6693, 17986, 47426, 119203, 268941, 500000,
     731059, 880797, 952574, 982014, 993307, 997527, 999089, 999665, 999877, 999955]"

definition fpSigmoid :: "int \<Rightarrow> nat" where
  "fpSigmoid diff =
     (let shifted = diff + 10 * int BT_SCALE in
      if shifted \<le> 0 then sigmoidTable ! 0
      else if shifted \<ge> 20 * int BT_SCALE then sigmoidTable ! 20
      else
        let idx = nat (shifted div int BT_SCALE);
            frac = nat (shifted mod int BT_SCALE) in
        if idx \<ge> 20 then sigmoidTable ! 20
        else
          let lo = sigmoidTable ! idx;
              hi = sigmoidTable ! (idx + 1) in
          if hi \<ge> lo then lo + (hi - lo) * frac div BT_SCALE
          else lo - (lo - hi) * frac div BT_SCALE)"

record bt_entry =
  bt_mu :: int
  bt_sigma2 :: nat

type_synonym bt_state = "(commit_id \<times> bt_entry) list"

definition btPhantom :: commit_id where
  "btPhantom = Valid_Id ''0000000000000000000000000000000000000000''"

definition btLookup :: "bt_state \<Rightarrow> commit_id \<Rightarrow> bt_entry" where
  "btLookup state c = (case find (\<lambda>(x, _). ceq x c) state of Some (_, e) \<Rightarrow> e | None \<Rightarrow> \<lparr>bt_mu = 0, bt_sigma2 = BT_SCALE\<rparr>)"

definition btHas :: "bt_state \<Rightarrow> commit_id \<Rightarrow> bool" where
  "btHas state c \<longleftrightarrow> list_ex (\<lambda>(x, _). ceq x c) state"

definition btSet :: "bt_state \<Rightarrow> commit_id \<Rightarrow> bt_entry \<Rightarrow> bt_state" where
  "btSet state c e = (if btHas state c then map (\<lambda>(x, v). if ceq x c then (x, e) else (x, v)) state else state @ [(c, e)])"

definition isqrt :: "nat \<Rightarrow> nat" where
  "isqrt n =
     (if n \<le> 1 then n
      else
        let x = ((\<lambda>x. (x + n div x) div 2) ^^ 20) n in
        if (x + 1) * (x + 1) \<le> n then x + 1 else x)"

definition bt_gamma :: "nat \<Rightarrow> nat \<Rightarrow> nat" where
  "bt_gamma s1 s2 = isqrt (BT_SCALE * BT_SCALE + 3 * (s1 + s2) * BT_SCALE div PI_SQUARED_SCALED * BT_SCALE)"

text \<open>The variance after an observation of probability \<open>p\<close>.\<close>

definition shrink_variance :: "nat \<Rightarrow> nat \<Rightarrow> nat \<Rightarrow> nat" where
  "shrink_variance gamma p s =
     (let surprise = BT_SCALE - p;
          var_reduction = s * s * p * surprise div (gamma * gamma * BT_SCALE) in
      if s > var_reduction + BT_VARIANCE_FLOOR then s - var_reduction else BT_VARIANCE_FLOOR)"

definition btUpdate :: "bt_state \<Rightarrow> commit_id \<Rightarrow> commit_id \<Rightarrow> bt_state" where
  "btUpdate state winner loser =
     (let ew = btLookup state winner;
          el = btLookup state loser;
          gamma = bt_gamma (bt_sigma2 ew) (bt_sigma2 el) in
      if gamma = 0 then state
      else
        let scaledDiff = (bt_mu ew - bt_mu el) * int BT_SCALE div int gamma;
            p = fpSigmoid scaledDiff;
            surprise = BT_SCALE - p;
            delta_w = int (bt_sigma2 ew * surprise div gamma);
            delta_l = int (bt_sigma2 el * surprise div gamma);
            state = btSet state winner \<lparr>bt_mu = bt_mu ew + delta_w, bt_sigma2 = shrink_variance gamma p (bt_sigma2 ew)\<rparr> in
        btSet state loser \<lparr>bt_mu = bt_mu el - delta_l, bt_sigma2 = shrink_variance gamma p (bt_sigma2 el)\<rparr>)"

definition btEnsure :: "bt_state \<Rightarrow> commit_id \<Rightarrow> nat \<Rightarrow> bt_state" where
  "btEnsure state c initialVariance = (if btHas state c then state else state @ [(c, \<lparr>bt_mu = 0, bt_sigma2 = initialVariance\<rparr>)])"

text \<open>The variant in force is the one of the context: \<open>gv\<close> and \<open>ctx.variant\<close> are the same instance at the only call.\<close>

definition btProcessCommit :: "qsorts \<Rightarrow> signed_commit \<Rightarrow> ranking_ctx \<Rightarrow> bt_state \<Rightarrow> bt_state" where
  "btProcessCommit Q commit ctx state =
     (let gv = rc_variant ctx;
          iv = btInitialVariance gv;
          state = btEnsure state (sg_id commit) iv;
          state = btEnsure state btPhantom iv;
          state = btUpdate state (sg_id commit) btPhantom;
          state = btUpdate state btPhantom (sg_id commit) in
      case selectQuantileReviewer Q gv (sg_reviews commit) (rc_getWeight ctx) (sg_id commit) of
        None \<Rightarrow> state
      | Some review \<Rightarrow>
          foldl (\<lambda>s (w, l). let s = btEnsure s w iv; s = btEnsure s l iv in btUpdate s w l) state (extractPairwise Q gv review))"

definition computeRankingBTWithState :: "qsorts \<Rightarrow> signed_commit list \<Rightarrow> ranking_ctx list \<Rightarrow> commit_id list \<times> bt_state" where
  "computeRankingBTWithState Q signedCommits contexts =
     (let allCommitIds = map sg_id signedCommits;
          finalState = foldl (\<lambda>state (commit, ctx). btProcessCommit Q commit ctx state) [] (zip signedCommits contexts);
          indexed = zip allCommitIds [0..<length allCommitIds];
          withMu = map (\<lambda>(c, i). (c, bt_mu (btLookup finalState c), i)) indexed;
          sorted = q_scored Q (\<lambda>(_, m1, i1) (_, m2, i2). if m1 \<noteq> m2 then m1 > m2 else i1 < i2) withMu in
      (map (\<lambda>(c, _, _). c) sorted, filter (\<lambda>(c, _). \<not> ceq c btPhantom) finalState))"

definition computeRankingBT :: "qsorts \<Rightarrow> signed_commit list \<Rightarrow> ranking_ctx list \<Rightarrow> commit_id list" where
  "computeRankingBT Q signedCommits contexts = fst (computeRankingBTWithState Q signedCommits contexts)"

definition uses_bt :: "ranking_ctx list \<Rightarrow> bool" where
  "uses_bt contexts = (contexts \<noteq> [] \<and> useBradleyTerry (rc_variant (last contexts)))"

definition computeRanking :: "qsorts \<Rightarrow> signed_commit list \<Rightarrow> ranking_ctx list \<Rightarrow> commit_id list" where
  "computeRanking Q signedCommits contexts =
     (if uses_bt contexts then computeRankingBT Q signedCommits contexts else computeRankingNetWins Q signedCommits contexts)"

section \<open>Comparison targets, by rank\<close>

definition ranked_eligible :: "commit_id list \<Rightarrow> (commit_id \<times> epoch) list \<Rightarrow> epoch \<Rightarrow> commit_id list" where
  "ranked_eligible ranking eligibleEpochs prCreatedAt =
     (let eligibleIds = map fst (eligible_before prCreatedAt eligibleEpochs) in filter (has_id eligibleIds) ranking)"

definition selectComparisonTargetsRanked :: "commit_id list \<Rightarrow> (commit_id \<times> epoch) list \<Rightarrow> nat \<Rightarrow> pr_id \<Rightarrow> epoch \<Rightarrow> commit_id list" where
  "selectComparisonTargetsRanked ranking eligibleEpochs numTargets prId prCreatedAt =
     (let rankedEligible = ranked_eligible ranking eligibleEpochs prCreatedAt;
          n = length rankedEligible in
      if n = 0 then []
      else
        let k = min numTargets n;
            hash = prIdHash prId in
        map (bucket_pick rankedEligible k hash) [0..<k])"

definition getVar :: "(commit_id \<times> nat) list \<Rightarrow> commit_id \<Rightarrow> nat" where
  "getVar variances c = (case find (\<lambda>(x, _). ceq x c) variances of Some (_, v) \<Rightarrow> v | None \<Rightarrow> BT_SCALE)"

text \<open>The walk along the cumulative weights of a bucket.\<close>

definition variance_walk :: "(commit_id \<Rightarrow> nat) \<Rightarrow> nat \<Rightarrow> commit_id list \<Rightarrow> commit_id" where
  "variance_walk var target bucketCommits =
     snd (foldl (\<lambda>(cumWeight, sel) c.
       let newCum = cumWeight + var c in if cumWeight \<le> target \<and> target < newCum then (newCum, c) else (newCum, sel))
       (0, hd bucketCommits) bucketCommits)"

definition variance_pick :: "(commit_id \<times> nat) list \<Rightarrow> commit_id list \<Rightarrow> nat \<Rightarrow> nat \<Rightarrow> nat \<Rightarrow> commit_id" where
  "variance_pick variances cs k hash i =
     (let n = length cs;
          bucketStart = n * i div k;
          bucketEnd = n * (i + 1) div k;
          bucketSize = bucketEnd - bucketStart in
      if bucketSize = 0 then id_at cs bucketStart
      else if bucketSize = 1 then id_at cs bucketStart
      else
        let bucketCommits = map (\<lambda>j. id_at cs (bucketStart + j)) [0..<bucketSize];
            totalWeight = foldl (\<lambda>acc c. acc + getVar variances c) 0 bucketCommits in
        if totalWeight = 0 then id_at cs bucketStart
        else variance_walk (getVar variances) ((hash + i * 7) mod totalWeight) bucketCommits)"

definition selectComparisonTargetsVariance ::
    "commit_id list \<Rightarrow> (commit_id \<times> nat) list \<Rightarrow> (commit_id \<times> epoch) list \<Rightarrow> nat \<Rightarrow> pr_id \<Rightarrow> epoch \<Rightarrow> commit_id list" where
  "selectComparisonTargetsVariance ranking variances eligibleEpochs numTargets prId prCreatedAt =
     (let rankedEligible = ranked_eligible ranking eligibleEpochs prCreatedAt;
          n = length rankedEligible in
      if n = 0 then []
      else
        let k = min numTargets n;
            hash = prIdHash prId in
        map (variance_pick variances rankedEligible k hash) [0..<k])"

section \<open>Validation and the score of a commit\<close>

definition validateComparisonTargets ::
    "genesis_variant \<Rightarrow> signed_commit \<Rightarrow> (commit_id \<times> epoch) list \<Rightarrow> commit_id list option \<Rightarrow> (commit_id \<times> nat) list option \<Rightarrow> bool" where
  "validateComparisonTargets gv commit scoredCommits ranking variances =
     (let eligible = eligible_before (sg_prCreatedAt commit) scoredCommits;
          num = min (rankingSize gv) (length eligible) in
      if eligible = [] then sg_targets commit = []
      else if useBradleyTerry gv then
        (case (ranking, variances) of
           (Some r, Some v) \<Rightarrow>
             same_ids (sg_targets commit) (selectComparisonTargetsVariance r v scoredCommits num (sg_prId commit) (sg_prCreatedAt commit))
         | _ \<Rightarrow> False)
      else if useRankedTargets gv then
        (case ranking of
           Some r \<Rightarrow> same_ids (sg_targets commit) (selectComparisonTargetsRanked r scoredCommits num (sg_prId commit) (sg_prCreatedAt commit))
         | None \<Rightarrow> False)
      else same_ids (sg_targets commit) (selectComparisonTargets scoredCommits num (sg_prId commit) (sg_prCreatedAt commit)))"

definition commitScore ::
    "qsorts \<Rightarrow> genesis_variant \<Rightarrow> signed_commit \<Rightarrow> (commit_id \<times> epoch) list \<Rightarrow> commit_id list option \<Rightarrow>
     (contributor_id \<Rightarrow> nat) \<Rightarrow> (commit_id \<times> nat) list option \<Rightarrow> commit_score" where
  "commitScore Q gv commit scoredCommits ranking getWeight variances =
     (if \<not> validateComparisonTargets gv commit scoredCommits ranking variances then zero_score
      else
        let approvedReviews = filterReviews (sg_reviews commit) (sg_metaReviews commit) getWeight;
            weightedReviews = filter (\<lambda>r. getWeight (reviewer r) > 0) approvedReviews in
        if length weightedReviews < minReviews gv then zero_score
        else deriveScore Q gv weightedReviews (sg_id commit) getWeight)"

text \<open>A warning is its kind with the values that its text shows.\<close>

datatype review_warning =
    Wrong_Length contributor_id string nat nat
  | Unknown_Hash contributor_id string commit_id
  | Missing_PR contributor_id string
  | Targets_Invalid
  | Too_Few_Reviews nat nat

definition checkRanking :: "contributor_id \<Rightarrow> commit_id \<Rightarrow> commit_id list \<Rightarrow> string \<Rightarrow> commit_id list \<Rightarrow> review_warning list" where
  "checkRanking who currentPR expected dimName ranking =
     (if length ranking \<noteq> length expected then [Wrong_Length who dimName (length ranking) (length expected)] else []) @
     map (Unknown_Hash who dimName) (filter (\<lambda>h. \<not> has_id expected h) ranking) @
     (if \<not> has_id ranking currentPR then [Missing_PR who dimName] else [])"

definition validateReview :: "embedded_review \<Rightarrow> commit_id \<Rightarrow> commit_id list \<Rightarrow> review_warning list" where
  "validateReview review currentPR comparisonTargets =
     (let check = checkRanking (reviewer review) currentPR (comparisonTargets @ [currentPR]) in
      check ''difficulty'' (difficultyRanking review) @ check ''novelty'' (noveltyRanking review) @
      check ''design'' (designQualityRanking review))"

definition commitScoreWithWarnings ::
    "qsorts \<Rightarrow> genesis_variant \<Rightarrow> signed_commit \<Rightarrow> (commit_id \<times> epoch) list \<Rightarrow> commit_id list option \<Rightarrow>
     (contributor_id \<Rightarrow> nat) \<Rightarrow> (commit_id \<times> nat) list option \<Rightarrow> commit_score \<times> review_warning list" where
  "commitScoreWithWarnings Q gv commit scoredCommits ranking getWeight variances =
     (if \<not> validateComparisonTargets gv commit scoredCommits ranking variances then (zero_score, [Targets_Invalid])
      else
        let reviewWarnings = foldl (\<lambda>acc r. acc @ validateReview r (sg_id commit) (sg_targets commit)) [] (sg_reviews commit);
            approvedReviews = filterReviews (sg_reviews commit) (sg_metaReviews commit) getWeight;
            weightedReviews = filter (\<lambda>r. getWeight (reviewer r) > 0) approvedReviews in
        if length weightedReviews < minReviews gv then
          (zero_score, reviewWarnings @ [Too_Few_Reviews (length weightedReviews) (minReviews gv)])
        else (deriveScore Q gv weightedReviews (sg_id commit) getWeight, reviewWarnings))"

end
