(* ===== verification/Genesis_State.thy ===== *)
theory Genesis_State
  imports Genesis_Scoring
begin

text \<open>
  The state of the Genesis protocol (\<open>spec/Genesis/State.lean\<close>): the schedule of protocol versions, the contributors with
  their weights, the evaluation of a signed commit and of a history, and the decisions of the command-line tools
  (\<open>spec/Genesis/Cli\<close>) as functions of their decoded inputs. Reading and writing JSON is a library of Lean and left out.
\<close>

section \<open>Constants and schedule\<close>

definition founder :: contributor_id where "founder = ''sorpaas''"
definition founderWeight :: nat where "founderWeight = 1"

definition genesisSchedule :: "(epoch \<times> genesis_variant) list" where
  "genesisSchedule = [(0, variant_v1), (1774188000, variant_v2), (1775829600, variant_v3)]"

definition activeVariant :: "epoch \<Rightarrow> genesis_variant" where
  "activeVariant t =
     (let applicable = filter (\<lambda>(e, _). e \<le> t) genesisSchedule in
      if applicable = [] then variant_v1 else snd (last applicable))"

section \<open>State\<close>

record commit_index =
  ix_commitHash :: commit_id
  ix_epoch :: epoch
  ix_score :: commit_score
  ix_contributor :: contributor_id
  ix_weightDelta :: nat
  ix_reviewers :: "contributor_id list"
  ix_metaReviews :: "meta_review list"
  ix_mergeVotes :: "contributor_id list"
  ix_rejectVotes :: "contributor_id list"
  ix_founderOverride :: bool

record eval_state =
  es_contributors :: "contributor list"
  es_scoredCommits :: "(commit_id \<times> epoch) list"

definition upsertContributor :: "contributor list \<Rightarrow> contributor \<Rightarrow> contributor list" where
  "upsertContributor cs updated =
     (if list_ex (\<lambda>c. ct_id c = ct_id updated) cs then map (\<lambda>c. if ct_id c = ct_id updated then updated else c) cs
      else cs @ [updated])"

definition initEvalState :: eval_state where
  "initEvalState =
     \<lparr>es_contributors = [\<lparr>ct_id = founder, ct_balance = 0, ct_weight = founderWeight, ct_isReviewer = True\<rparr>], es_scoredCommits = []\<rparr>"

definition stepState :: "genesis_variant \<Rightarrow> eval_state \<Rightarrow> commit_index \<Rightarrow> eval_state" where
  "stepState gv state idx =
     (let contributors =
        (if ix_weightDelta idx = 0 then es_contributors state
         else
           let c = (case find (\<lambda>c. ct_id c = ix_contributor idx) (es_contributors state) of
                      Some c \<Rightarrow> c
                    | None \<Rightarrow> \<lparr>ct_id = ix_contributor idx, ct_balance = 0, ct_weight = 0, ct_isReviewer = False\<rparr>);
               newWeight = ct_weight c + ix_weightDelta idx;
               meetsThreshold = newWeight \<ge> reviewerThreshold gv in
           upsertContributor (es_contributors state)
             \<lparr>ct_id = ct_id c, ct_balance = ct_balance c, ct_weight = newWeight, ct_isReviewer = ct_isReviewer c \<or> meetsThreshold\<rparr>) in
      \<lparr>es_contributors = contributors, es_scoredCommits = es_scoredCommits state @ [(ix_commitHash idx, ix_epoch idx)]\<rparr>)"

definition reviewerWeight :: "eval_state \<Rightarrow> contributor_id \<Rightarrow> nat" where
  "reviewerWeight s i =
     (case find (\<lambda>c. ct_id c = i) (es_contributors s) of
        Some c \<Rightarrow> if ct_isReviewer c then ct_weight c else 0
      | None \<Rightarrow> 0)"

section \<open>Evaluation\<close>

text \<open>The index that both evaluations build from a score.\<close>

definition index_of :: "genesis_variant \<Rightarrow> eval_state \<Rightarrow> signed_commit \<Rightarrow> commit_score \<Rightarrow> commit_index" where
  "index_of gv state commit score =
     (let approved = filterReviews (sg_reviews commit) (sg_metaReviews commit) (reviewerWeight state) in
      \<lparr>ix_commitHash = sg_id commit, ix_epoch = sg_mergeEpoch commit, ix_score = score, ix_contributor = sg_author commit,
       ix_weightDelta = weighted gv score,
       ix_reviewers = map reviewer (filter (\<lambda>r. reviewerWeight state (reviewer r) > 0) approved),
       ix_metaReviews = sg_metaReviews commit,
       ix_mergeVotes = map reviewer (filter (\<lambda>r. review_verdict r = Verdict_Merge) (sg_reviews commit)),
       ix_rejectVotes = map reviewer (filter (\<lambda>r. review_verdict r = Verdict_NotMerge) (sg_reviews commit)),
       ix_founderOverride = sg_founderOverride commit\<rparr>)"

definition evaluateWithState ::
    "qsorts \<Rightarrow> genesis_variant \<Rightarrow> eval_state \<Rightarrow> signed_commit \<Rightarrow> commit_id list option \<Rightarrow> (commit_id \<times> nat) list option \<Rightarrow> commit_index" where
  "evaluateWithState Q gv state commit ranking variances =
     index_of gv state commit (commitScore Q gv commit (es_scoredCommits state) ranking (reviewerWeight state) variances)"

definition evaluateWithStateAndWarnings ::
    "qsorts \<Rightarrow> genesis_variant \<Rightarrow> eval_state \<Rightarrow> signed_commit \<Rightarrow> commit_id list option \<Rightarrow> (commit_id \<times> nat) list option \<Rightarrow>
     commit_index \<times> review_warning list" where
  "evaluateWithStateAndWarnings Q gv state commit ranking variances =
     (let (score, warnings) = commitScoreWithWarnings Q gv commit (es_scoredCommits state) ranking (reviewerWeight state) variances in
      (index_of gv state commit score, warnings))"

definition reconstructState :: "commit_index list \<Rightarrow> eval_state" where
  "reconstructState pastIndices = foldl (\<lambda>state idx. stepState (activeVariant (ix_epoch idx)) state idx) initEvalState pastIndices"

definition evaluate ::
    "qsorts \<Rightarrow> commit_index list \<Rightarrow> signed_commit \<Rightarrow> commit_id list option \<Rightarrow> (commit_id \<times> nat) list option \<Rightarrow> commit_index" where
  "evaluate Q pastIndices commit ranking variances =
     evaluateWithState Q (activeVariant (sg_prCreatedAt commit)) (reconstructState pastIndices) commit ranking variances"

definition evaluateWithWarnings ::
    "qsorts \<Rightarrow> commit_index list \<Rightarrow> signed_commit \<Rightarrow> commit_id list option \<Rightarrow> (commit_id \<times> nat) list option \<Rightarrow>
     commit_index \<times> review_warning list" where
  "evaluateWithWarnings Q pastIndices commit ranking variances =
     evaluateWithStateAndWarnings Q (activeVariant (sg_prCreatedAt commit)) (reconstructState pastIndices) commit ranking variances"

definition evaluateAll :: "qsorts \<Rightarrow> signed_commit list \<Rightarrow> commit_index list" where
  "evaluateAll Q signedCommits = foldl (\<lambda>indices commit. indices @ [evaluate Q indices commit None None]) [] signedCommits"

definition addToWeight :: "(contributor_id \<times> nat) list \<Rightarrow> contributor_id \<Rightarrow> nat \<Rightarrow> (contributor_id \<times> nat) list" where
  "addToWeight acc i amount =
     (if amount = 0 then acc
      else case find (\<lambda>(cid, _). cid = i) acc of
        Some _ \<Rightarrow> map (\<lambda>(cid, w). if cid = i then (cid, w + amount) else (cid, w)) acc
      | None \<Rightarrow> acc @ [(i, amount)])"

definition finalWeights :: "commit_index list \<Rightarrow> (contributor_id \<times> nat) list" where
  "finalWeights indices =
     foldl (\<lambda>acc idx. if ix_weightDelta idx = 0 then acc else addToWeight acc (ix_contributor idx) (ix_weightDelta idx))
       [(founder, founderWeight)] indices"

section \<open>Decisions of the command-line tools\<close>

record merge_decision =
  md_ready :: bool
  md_mergeWeight :: nat
  md_rejectWeight :: nat
  md_totalWeight :: nat

definition checkMerge :: "embedded_review list \<Rightarrow> meta_review list \<Rightarrow> commit_index list \<Rightarrow> merge_decision" where
  "checkMerge reviews metaReviews indices =
     (let state = reconstructState indices;
          approved = filterReviews reviews metaReviews (reviewerWeight state);
          mergeWeight = foldl (\<lambda>acc r. if review_verdict r = Verdict_Merge then acc + reviewerWeight state (reviewer r) else acc) 0 approved;
          rejectWeight = foldl (\<lambda>acc r. if review_verdict r = Verdict_NotMerge then acc + reviewerWeight state (reviewer r) else acc) 0 approved;
          totalWeight = foldl (\<lambda>acc c. if ct_isReviewer c then acc + ct_weight c else acc) 0 (es_contributors state) in
      \<lparr>md_ready = (mergeWeight * 2 > totalWeight), md_mergeWeight = mergeWeight, md_rejectWeight = rejectWeight, md_totalWeight = totalWeight\<rparr>)"

text \<open>\<open>selectTargetsMain\<close>: a missing field is an error.\<close>

definition selectTargets ::
    "pr_id \<Rightarrow> epoch \<Rightarrow> commit_index list \<Rightarrow> commit_id list option \<Rightarrow> (commit_id \<times> nat) list option \<Rightarrow> commit_id list option" where
  "selectTargets prId prCreatedAt indices ranking variances =
     (let scoredCommits = map (\<lambda>idx. (ix_commitHash idx, ix_epoch idx)) indices;
          v = activeVariant prCreatedAt;
          num = min (rankingSize v) (length (eligible_before prCreatedAt scoredCommits)) in
      if useBradleyTerry v then
        Option.bind ranking (\<lambda>r. map_option (\<lambda>vs. selectComparisonTargetsVariance r vs scoredCommits num prId prCreatedAt) variances)
      else if useRankedTargets v then
        map_option (\<lambda>r. selectComparisonTargetsRanked r scoredCommits num prId prCreatedAt) ranking
      else Some (selectComparisonTargets scoredCommits num prId prCreatedAt))"

text \<open>\<open>rankingMainWith\<close>: the contexts of the commits, and the ranking with the scores that go with it.\<close>

definition resolveVariantName :: "string \<Rightarrow> genesis_variant option" where
  "resolveVariantName name =
     (if name = ''v1'' then Some variant_v1 else if name = ''v2'' then Some variant_v2 else if name = ''v3'' then Some variant_v3 else None)"

definition ranking_contexts :: "string option \<Rightarrow> signed_commit list \<Rightarrow> commit_index list \<Rightarrow> ranking_ctx list" where
  "ranking_contexts forced signedCommits indices =
     (let globalV = (case Option.bind forced resolveVariantName of Some v \<Rightarrow> v | None \<Rightarrow> activeVariant (if indices = [] then 0 else ix_epoch (last indices))) in
      fst (foldl (\<lambda>(ctxs, state) (_, idx).
        (ctxs @ [\<lparr>rc_variant = globalV, rc_getWeight = reviewerWeight state\<rparr>], stepState (activeVariant (ix_epoch idx)) state idx))
        ([], initEvalState) (zip signedCommits indices)))"

definition ranking_main ::
    "qsorts \<Rightarrow> string option \<Rightarrow> signed_commit list \<Rightarrow> commit_index list \<Rightarrow> commit_id list \<times> (commit_id \<times> bt_entry) list option" where
  "ranking_main Q forced signedCommits indices =
     (let contexts = ranking_contexts forced signedCommits indices in
      if uses_bt contexts then
        let (ranking, btState) = computeRankingBTWithState Q signedCommits contexts in
        (ranking, Some (map (\<lambda>c. (c, btLookup btState c)) ranking))
      else (computeRanking Q signedCommits contexts, None))"

text \<open>\<open>validateMain\<close>. The maps from a commit to the ranking and the scores recorded with it are functions of its hash.\<close>

definition prior_hash :: "commit_index list \<Rightarrow> epoch \<Rightarrow> string option" where
  "prior_hash pastIndices prCreatedAt =
     (let prior = filter (\<lambda>idx. ix_epoch idx < prCreatedAt) pastIndices in
      if prior = [] then None else Some (commit_string (ix_commitHash (last prior))))"

datatype validation_error = No_Ranking commit_id | Hash_Mismatch commit_id | Score_Mismatch commit_id | Delta_Mismatch commit_id
  | Contributor_Mismatch commit_id | Count_Mismatch nat nat

definition validate_one ::
    "qsorts \<Rightarrow> (string \<Rightarrow> commit_id list option) \<Rightarrow> (string \<Rightarrow> (commit_id \<times> nat) list option) \<Rightarrow> commit_index list \<Rightarrow>
     commit_index \<Rightarrow> signed_commit \<Rightarrow> validation_error list" where
  "validate_one Q rankings scores pastIndices idx commit =
     (let v = activeVariant (sg_prCreatedAt commit);
          at_prior = prior_hash pastIndices (sg_prCreatedAt commit);
          ranking = Option.bind at_prior rankings in
      if useRankedTargets v \<and> ranking = None then [No_Ranking (ix_commitHash idx)]
      else
        let variances = (if useBradleyTerry v then Some (case Option.bind at_prior scores of Some vs \<Rightarrow> vs | None \<Rightarrow> []) else None);
            expected = evaluate Q pastIndices commit ranking variances in
        (if \<not> ceq (ix_commitHash expected) (ix_commitHash idx) then [Hash_Mismatch (ix_commitHash idx)] else []) @
        (if ix_score expected \<noteq> ix_score idx then [Score_Mismatch (ix_commitHash idx)] else []) @
        (if ix_weightDelta expected \<noteq> ix_weightDelta idx then [Delta_Mismatch (ix_commitHash idx)] else []) @
        (if ix_contributor expected \<noteq> ix_contributor idx then [Contributor_Mismatch (ix_commitHash idx)] else []))"

definition validate_history ::
    "qsorts \<Rightarrow> (string \<Rightarrow> commit_id list option) \<Rightarrow> (string \<Rightarrow> (commit_id \<times> nat) list option) \<Rightarrow> commit_index list \<Rightarrow>
     signed_commit list \<Rightarrow> validation_error list" where
  "validate_history Q rankings scores indices signedCommits =
     (if length indices \<noteq> length signedCommits then [Count_Mismatch (length indices) (length signedCommits)]
      else
        fst (foldl (\<lambda>(errors, past) (idx, commit). (errors @ validate_one Q rankings scores past idx commit, past @ [idx]))
          ([], []) (zip indices signedCommits)))"

end
