(* ===== verification/Genesis_Laws.thy ===== *)
theory Genesis_Laws
  imports Genesis_State "HOL-Library.Multiset"
begin

text \<open>
  The Genesis protocol keeps its promises, whatever sorting function it is run with. The weighted quantile is characterised
  exactly, which gives the bounds on what a coalition of reviewers can do to a score. Targets are distinct past commits, one per
  bucket, and a signed commit validates with the selected ones only. Rankings are permutations of the commits. Weights are sums
  of what was earned, and merging takes an absolute majority. A history that validates is one that evaluation produces.
\<close>

section \<open>Sorting\<close>

text \<open>A sorting function permutes its list into order, for every strict weak order.\<close>

definition weak_order :: "('a \<Rightarrow> 'a \<Rightarrow> bool) \<Rightarrow> bool" where
  "weak_order lt \<longleftrightarrow> (\<forall>a b c. \<not> lt a a \<and> (lt a b \<longrightarrow> lt b c \<longrightarrow> lt a c) \<and> (\<not> lt a b \<longrightarrow> \<not> lt b c \<longrightarrow> \<not> lt a c))"

definition sorts :: "(('a \<Rightarrow> 'a \<Rightarrow> bool) \<Rightarrow> 'a list \<Rightarrow> 'a list) \<Rightarrow> bool" where
  "sorts q \<longleftrightarrow> (\<forall>lt xs. weak_order lt \<longrightarrow> mset (q lt xs) = mset xs \<and> sorted_wrt (\<lambda>a b. \<not> lt b a) (q lt xs))"

definition lawful :: "qsorts \<Rightarrow> bool" where
  "lawful Q \<longleftrightarrow> sorts (q_entries Q) \<and> sorts (q_ranked Q) \<and> sorts (q_reviews Q) \<and> sorts (q_netWins Q) \<and> sorts (q_scored Q)"

lemma sortsD:
  assumes "sorts q" "weak_order lt"
  shows "mset (q lt xs) = mset xs" "sorted_wrt (\<lambda>a b. \<not> lt b a) (q lt xs)"
  using assms by (auto simp: sorts_def)

lemma lawfulD:
  assumes "lawful Q"
  shows "sorts (q_entries Q)" "sorts (q_ranked Q)" "sorts (q_reviews Q)" "sorts (q_netWins Q)" "sorts (q_scored Q)"
  using assms by (auto simp: lawful_def)

lemma weak_order_key: "weak_order (\<lambda>a b. (f a :: 'b :: linorder) < f b)"
  by (auto simp: weak_order_def)

text \<open>Insertion sort is one.\<close>

fun insert_by :: "('a \<Rightarrow> 'a \<Rightarrow> bool) \<Rightarrow> 'a \<Rightarrow> 'a list \<Rightarrow> 'a list" where
  "insert_by lt x [] = [x]"
| "insert_by lt x (y # ys) = (if lt y x then y # insert_by lt x ys else x # y # ys)"

definition insertion_sort :: "('a \<Rightarrow> 'a \<Rightarrow> bool) \<Rightarrow> 'a list \<Rightarrow> 'a list" where
  "insertion_sort lt xs = foldr (insert_by lt) xs []"

lemma mset_insert_by: "mset (insert_by lt x ys) = add_mset x (mset ys)"
  by (induction ys) auto

lemma set_insert_by: "set (insert_by lt x ys) = insert x (set ys)"
  by (induction ys) auto

lemma sorted_insert_by:
  assumes "weak_order lt"
  shows "sorted_wrt (\<lambda>a b. \<not> lt b a) ys \<Longrightarrow> sorted_wrt (\<lambda>a b. \<not> lt b a) (insert_by lt x ys)"
proof (induction ys)
  case (Cons y ys)
  have "\<not> lt z x" if "\<not> lt y x" "z \<in> set ys" for z
  proof -
    have "\<not> lt z y" using Cons.prems that(2) by simp
    then show ?thesis using assms that(1) unfolding weak_order_def by blast
  qed
  moreover have "\<not> lt x y" if "lt y x" using assms that unfolding weak_order_def by blast
  ultimately show ?case using Cons by (auto simp: set_insert_by)
qed simp

lemma sorts_insertion_sort: "sorts insertion_sort"
proof -
  have "mset (insertion_sort lt xs) = mset xs" for lt :: "'a \<Rightarrow> 'a \<Rightarrow> bool" and xs
    unfolding insertion_sort_def by (induction xs) (auto simp: mset_insert_by)
  moreover have "sorted_wrt (\<lambda>a b. \<not> lt b a) (insertion_sort lt xs)" if "weak_order lt" for lt :: "'a \<Rightarrow> 'a \<Rightarrow> bool" and xs
    unfolding insertion_sort_def by (induction xs) (auto simp: sorted_insert_by [OF that])
  ultimately show ?thesis by (simp add: sorts_def)
qed

definition insertion_qsorts :: qsorts where
  "insertion_qsorts = \<lparr>q_entries = insertion_sort, q_ranked = insertion_sort, q_reviews = insertion_sort, q_netWins = insertion_sort,
     q_scored = insertion_sort\<rparr>"

lemma lawful_insertion [simp]: "lawful insertion_qsorts"
  by (simp add: lawful_def insertion_qsorts_def sorts_insertion_sort)

section \<open>The weighted quantile\<close>

definition weight_of :: "('a \<Rightarrow> nat) \<Rightarrow> ('a \<Rightarrow> bool) \<Rightarrow> 'a list \<Rightarrow> nat" where
  "weight_of w P xs = sum_list (map w (filter P xs))"

lemma weight_of_simps [simp]:
  "weight_of w P [] = 0" "weight_of w P (x # xs) = (if P x then w x else 0) + weight_of w P xs"
  by (simp_all add: weight_of_def)

lemma weight_of_mono: "(\<And>x. x \<in> set xs \<Longrightarrow> P x \<Longrightarrow> R x) \<Longrightarrow> weight_of w P xs \<le> weight_of w R xs"
  by (induction xs) (auto simp: add_mono)

lemma weight_of_perm: "mset xs = mset ys \<Longrightarrow> weight_of w P xs = weight_of w P ys"
proof -
  assume "mset xs = mset ys"
  then have "mset (map w (filter P xs)) = mset (map w (filter P ys))" by simp
  then show ?thesis unfolding weight_of_def by (metis sum_mset_sum_list)
qed

lemma foldl_weight: "foldl (\<lambda>acc x. acc + w x) a xs = a + weight_of w (\<lambda>_. True) xs"
  by (induction xs arbitrary: a) auto

text \<open>The walk from a sum \<open>c\<close>.\<close>

definition walk_from :: "('a \<Rightarrow> nat) \<Rightarrow> ('a \<Rightarrow> 'b) \<Rightarrow> nat \<Rightarrow> nat \<Rightarrow> 'b \<Rightarrow> 'a list \<Rightarrow> 'b" where
  "walk_from w f t c best xs = snd (foldl (\<lambda>(cw, best) x. if cw \<le> t then (cw + w x, f x) else (cw + w x, best)) (c, best) xs)"

lemma walk_from_simps [simp]:
  "walk_from w f t c best [] = best"
  "walk_from w f t c best (x # xs) = walk_from w f t (c + w x) (if c \<le> t then f x else best) xs"
  by (simp_all add: walk_from_def)

lemma walk_from_past: "c > t \<Longrightarrow> walk_from w f t c best xs = best"
  by (induction xs arbitrary: c) auto

lemma walk_from_quantile:
  assumes "sorted_wrt (\<lambda>a b. k a \<le> (k b :: nat)) xs" "c \<le> t" "xs \<noteq> []"
  shows "\<exists>x \<in> set xs. walk_from w f t c best xs = f x \<and> c + weight_of w (\<lambda>y. k y < k x) xs \<le> t \<and>
       (t < c + weight_of w (\<lambda>y. k y \<le> k x) xs \<or> (\<forall>y \<in> set xs. k y \<le> k x))"
  using assms
proof (induction xs arbitrary: c best)
  case (Cons y ys)
  have le: "k y \<le> k z" if "z \<in> set ys" for z using Cons.prems(1) that by auto
  have "filter (\<lambda>z. k z < k y) ys = []" using le by (auto simp: filter_empty_conv not_less)
  then have none: "weight_of w (\<lambda>z. k z < k y) ys = 0" by (simp add: weight_of_def)
  show ?case
  proof (cases "ys = [] \<or> c + w y > t")
    case True
    then have "walk_from w f t (c + w y) (f y) ys = f y" using walk_from_past [of t "c + w y"] by auto
    then show ?thesis using Cons.prems True none by (intro bexI [of _ y]) auto
  next
    case False
    then obtain x where x: "x \<in> set ys" "walk_from w f t (c + w y) (f y) ys = f x" "c + w y + weight_of w (\<lambda>z. k z < k x) ys \<le> t"
      "t < c + w y + weight_of w (\<lambda>z. k z \<le> k x) ys \<or> (\<forall>z \<in> set ys. k z \<le> k x)"
      using Cons.IH [of "c + w y" "f y"] Cons.prems(1) by auto
    then show ?thesis using Cons.prems(2) le [of x] by (intro bexI [of _ x]) auto
  qed
qed simp

lemma weightedQuantile_exact:
  assumes Q: "sorts (q_entries Q)" and n: "qNum < qDen" and W: "weight_of fst (\<lambda>_. True) es > 0"
  defines "t \<equiv> weight_of fst (\<lambda>_. True) es * qNum div qDen" and "v \<equiv> weightedQuantile Q qNum qDen es"
  shows "v \<in> snd ` set es" "weight_of fst (\<lambda>e. snd e < v) es \<le> t" "t < weight_of fst (\<lambda>e. snd e \<le> v) es"
proof -
  define xs where "xs = q_entries Q (\<lambda>a b. snd a < snd b) es"
  note srt = sortsD [OF Q weak_order_key [of snd], of es, folded xs_def]
  have wt: "weight_of fst P xs = weight_of fst P es" for P by (rule weight_of_perm) (rule srt)
  have ne: "es \<noteq> []" "xs \<noteq> []" using W wt [of "\<lambda>_. True"] by auto
  have fw: "foldl (\<lambda>acc (w, _). acc + w) 0 xs = weight_of fst (\<lambda>_. True) es"
    using foldl_weight [of fst 0 xs] wt [of "\<lambda>_. True"] by (simp add: case_prod_unfold)
  have v: "v = walk_from fst snd t 0 (snd (hd xs)) xs"
    using ne(1) W by (simp add: v_def weightedQuantile_def quantile_walk_def walk_from_def t_def fw Let_def flip: xs_def)
  have "sorted_wrt (\<lambda>a b. snd a \<le> snd b) xs" using srt(2) by (simp add: not_less)
  then obtain x where x: "x \<in> set xs" "v = snd x" "weight_of fst (\<lambda>y. snd y < snd x) xs \<le> t"
    "t < weight_of fst (\<lambda>y. snd y \<le> snd x) xs \<or> (\<forall>y \<in> set xs. snd y \<le> snd x)"
    using walk_from_quantile [of snd xs 0 t fst snd "snd (hd xs)"] ne(2) unfolding v by auto
  have set: "set xs = set es" using srt(1) by (rule mset_eq_setD)
  show "v \<in> snd ` set es" using x set by auto
  show "weight_of fst (\<lambda>e. snd e < v) es \<le> t" using x wt by simp
  have "t < weight_of fst (\<lambda>_. True) es"
    unfolding t_def using W n by (simp add: div_less_iff_less_mult order_le_less_trans)
  moreover have "weight_of fst (\<lambda>_. True) es = weight_of fst (\<lambda>e. snd e \<le> v) es" if "\<forall>y \<in> set xs. snd y \<le> snd x"
    unfolding weight_of_def using that x(2) set by (metis (mono_tags, lifting) filter_cong)
  ultimately show "t < weight_of fst (\<lambda>e. snd e \<le> v) es" using x wt by auto
qed

section \<open>Scores\<close>

lemma percentile_le: "percentileFromRanking ranking c \<le> 100"
proof -
  have "(n - 1 - pos) * 100 div (n - 1) \<le> 100" for n pos :: nat
  proof -
    have "(n - 1 - pos) * 100 div (n - 1) \<le> (n - 1) * 100 div (n - 1)" by (rule div_le_mono) simp
    also have "\<dots> \<le> 100" by simp
    finally show ?thesis .
  qed
  then show ?thesis by (auto simp: percentileFromRanking_def Let_def split: option.splits)
qed

text \<open>The dimensions of a score.\<close>

definition dims :: "(commit_score \<Rightarrow> nat) set" where
  "dims = {sc_difficulty, sc_novelty, sc_designQuality}"

lemma dims_cases: "f \<in> dims \<Longrightarrow> (f = sc_difficulty \<Longrightarrow> P sc_difficulty) \<Longrightarrow> (f = sc_novelty \<Longrightarrow> P sc_novelty) \<Longrightarrow>
    (f = sc_designQuality \<Longrightarrow> P sc_designQuality) \<Longrightarrow> P f"
  by (auto simp: dims_def)

lemma dim_zero [simp]: "f \<in> dims \<Longrightarrow> f zero_score = 0"
  by (auto simp: dims_def zero_score_def)

lemma dim_review: "f \<in> dims \<Longrightarrow> f (scoreFromReview r c) \<le> 100"
  by (auto simp: dims_def scoreFromReview_def percentile_le)

text \<open>The weighted scores of reviews that all have weight.\<close>

definition review_entries :: "(contributor_id \<Rightarrow> nat) \<Rightarrow> commit_id \<Rightarrow> (commit_score \<Rightarrow> nat) \<Rightarrow> embedded_review list \<Rightarrow> (nat \<times> nat) list" where
  "review_entries W c f rs = map (\<lambda>r. (W (reviewer r), f (scoreFromReview r c))) rs"

lemma deriveScore_dim:
  assumes "f \<in> dims" "\<forall>r \<in> set rs. W (reviewer r) > 0" "rs \<noteq> []"
  shows "f (deriveScore Q gv rs c W) = weightedQuantile Q (quantileNum gv) (quantileDen gv) (review_entries W c f rs)"
proof -
  have "List.map_filter (\<lambda>r. let w = W (reviewer r) in if w = 0 then None else Some (w, scoreFromReview r c)) rs =
      map (\<lambda>r. (W (reviewer r), scoreFromReview r c)) rs"
    using assms(2) by (induction rs) (auto simp: List.map_filter_simps Let_def)
  then show ?thesis using assms(1,3) by (auto simp: deriveScore_def Let_def dims_def review_entries_def comp_def)
qed

lemma weight_of_map: "weight_of w P (map g xs) = weight_of (\<lambda>x. w (g x)) (\<lambda>x. P (g x)) xs"
  by (induction xs) auto

text \<open>The weight of the reviews with a property.\<close>

definition review_weight :: "(contributor_id \<Rightarrow> nat) \<Rightarrow> (embedded_review \<Rightarrow> bool) \<Rightarrow> embedded_review list \<Rightarrow> nat" where
  "review_weight W P rs = weight_of (\<lambda>r. W (reviewer r)) P rs"

lemma deriveScore_bounds:
  fixes c
  assumes Q: "lawful Q" and gv: "quantileNum gv < quantileDen gv" and f: "f \<in> dims"
    and rs: "\<forall>r \<in> set rs. W (reviewer r) > 0" "rs \<noteq> []"
  defines "T \<equiv> review_weight W (\<lambda>_. True) rs * quantileNum gv div quantileDen gv" and "v \<equiv> f (deriveScore Q gv rs c W)"
  shows "\<exists>r \<in> set rs. v = f (scoreFromReview r c)"
    "T < review_weight W P rs \<Longrightarrow> (\<And>r. r \<in> set rs \<Longrightarrow> P r \<Longrightarrow> f (scoreFromReview r c) \<le> h) \<Longrightarrow> v \<le> h"
    "review_weight W P rs \<le> T \<Longrightarrow> (\<And>r. r \<in> set rs \<Longrightarrow> \<not> P r \<Longrightarrow> l \<le> f (scoreFromReview r c)) \<Longrightarrow> l \<le> v"
proof -
  let ?es = "review_entries W c f rs"
  have wt: "weight_of fst R ?es = review_weight W (\<lambda>r. R (W (reviewer r), f (scoreFromReview r c))) rs" for R
    by (simp add: review_entries_def weight_of_map review_weight_def)
  have "weight_of fst (\<lambda>_. True) ?es > 0" using rs by (cases rs) (auto simp: review_entries_def)
  note ex = weightedQuantile_exact [OF lawfulD(1) [OF Q] gv this, folded deriveScore_dim [OF f rs], folded v_def, unfolded wt, folded T_def]
  show "\<exists>r \<in> set rs. v = f (scoreFromReview r c)" using ex(1) by (auto simp: review_entries_def)
  {
    assume T: "T < review_weight W P rs" and h: "\<And>r. r \<in> set rs \<Longrightarrow> P r \<Longrightarrow> f (scoreFromReview r c) \<le> h"
    show "v \<le> h"
    proof (rule ccontr)
      assume "\<not> v \<le> h"
      then have "review_weight W P rs \<le> review_weight W (\<lambda>r. f (scoreFromReview r c) < v) rs"
        unfolding review_weight_def using h by (intro weight_of_mono) force
      then show False using T ex(2) by simp
    qed
  next
    assume T: "review_weight W P rs \<le> T" and l: "\<And>r. r \<in> set rs \<Longrightarrow> \<not> P r \<Longrightarrow> l \<le> f (scoreFromReview r c)"
    show "l \<le> v"
    proof (rule ccontr)
      assume "\<not> l \<le> v"
      then have "review_weight W (\<lambda>r. f (scoreFromReview r c) \<le> v) rs \<le> review_weight W P rs"
        unfolding review_weight_def using l by (intro weight_of_mono) force
      then show False using T ex(3) by simp
    qed
  }
qed

section \<open>Evaluation\<close>

lemma activeVariant_cases: "activeVariant t \<in> {variant_v1, variant_v2, variant_v3}"
  by (simp add: activeVariant_def genesisSchedule_def)

lemma activeVariant_consts:
  "quantileNum (activeVariant t) = 1" "quantileDen (activeVariant t) = 3" "minReviews (activeVariant t) = 1"
  "designWeight (activeVariant t) = 3" "numWeightedDimensions (activeVariant t) = 5" "reviewerThreshold (activeVariant t) = 500"
  "rankingSize (activeVariant t) = 7"
  using activeVariant_cases [of t] by (auto simp: variant_v1_def variant_v2_def variant_v3_def)

text \<open>The reviews that count: not voted down, and by a reviewer with weight.\<close>

definition counted_reviews :: "eval_state \<Rightarrow> signed_commit \<Rightarrow> embedded_review list" where
  "counted_reviews state commit =
     filter (\<lambda>r. reviewerWeight state (reviewer r) > 0) (filterReviews (sg_reviews commit) (sg_metaReviews commit) (reviewerWeight state))"

lemma counted_weight: "\<forall>r \<in> set (counted_reviews state commit). reviewerWeight state (reviewer r) > 0"
  by (simp add: counted_reviews_def)

definition targets_ok :: "commit_index list \<Rightarrow> signed_commit \<Rightarrow> commit_id list option \<Rightarrow> (commit_id \<times> nat) list option \<Rightarrow> bool" where
  "targets_ok past commit ranking variances \<longleftrightarrow>
     validateComparisonTargets (activeVariant (sg_prCreatedAt commit)) commit (es_scoredCommits (reconstructState past)) ranking variances"

lemma evaluate_score:
  "ix_score (evaluate Q past commit ranking variances) =
     (let state = reconstructState past; rs = counted_reviews state commit in
      if targets_ok past commit ranking variances \<and> rs \<noteq> []
      then deriveScore Q (activeVariant (sg_prCreatedAt commit)) rs (sg_id commit) (reviewerWeight state) else zero_score)"
proof -
  have "length xs < Suc 0 \<longleftrightarrow> xs = []" for xs :: "embedded_review list" by auto
  then show ?thesis
    by (simp add: evaluate_def evaluateWithState_def index_of_def commitScore_def targets_ok_def counted_reviews_def Let_def activeVariant_consts)
qed

lemma evaluate_delta:
  "ix_weightDelta (evaluate Q past commit ranking variances) =
     weighted (activeVariant (sg_prCreatedAt commit)) (ix_score (evaluate Q past commit ranking variances))"
  by (simp add: evaluate_def evaluateWithState_def index_of_def Let_def)

lemma evaluate_dim_le:
  assumes "lawful Q" "f \<in> dims"
  shows "f (ix_score (evaluate Q past commit ranking variances)) \<le> 100"
proof -
  let ?st = "reconstructState past"
  have "f (deriveScore Q (activeVariant (sg_prCreatedAt commit)) (counted_reviews ?st commit) (sg_id commit) (reviewerWeight ?st)) \<le> 100"
    if "counted_reviews ?st commit \<noteq> []"
    using deriveScore_bounds(1) [OF assms(1) _ assms(2) counted_weight that, of "activeVariant (sg_prCreatedAt commit)" "sg_id commit"]
      dim_review [OF assms(2)] by (auto simp: activeVariant_consts)
  then show ?thesis using assms(2) by (simp add: evaluate_score Let_def)
qed

text \<open>C18: The guardrails of an evaluation. Every dimension of a score and the weight it gives its author are at most 100. A commit
  whose comparison targets do not validate, or that no reviewer with weight has reviewed without being voted down, gives none.\<close>

theorem evaluate_guardrails:
  fixes past commit ranking variances
  assumes "lawful Q"
  defines "idx \<equiv> evaluate Q past commit ranking variances"
  shows "sc_difficulty (ix_score idx) \<le> 100 \<and> sc_novelty (ix_score idx) \<le> 100 \<and> sc_designQuality (ix_score idx) \<le> 100 \<and> ix_weightDelta idx \<le> 100 \<and>
    (\<not> targets_ok past commit ranking variances \<or> counted_reviews (reconstructState past) commit = [] \<longrightarrow> ix_weightDelta idx = 0)"
proof -
  have d: "f (ix_score idx) \<le> 100" if "f \<in> dims" for f unfolding idx_def by (rule evaluate_dim_le [OF assms(1) that])
  then have "sc_difficulty (ix_score idx) \<le> 100" "sc_novelty (ix_score idx) \<le> 100" "sc_designQuality (ix_score idx) \<le> 100" by (simp_all add: dims_def)
  then show ?thesis unfolding idx_def
    by (auto simp: evaluate_delta weighted_def activeVariant_consts) (auto simp: evaluate_score Let_def zero_score_def)
qed

text \<open>C17: Sybil resistance. If the reviewers outside a set hold less than two thirds of the weight of the reviews that count, no
  dimension of the score is above what all reviewers of the set support; if they hold at most one third, none is below either.\<close>

theorem evaluate_sybil_bounds:
  fixes past commit ranking variances honest
  assumes Q: "lawful Q" and f: "f \<in> {sc_difficulty, sc_novelty, sc_designQuality}"
  defines "W \<equiv> reviewerWeight (reconstructState past)" and "rs \<equiv> counted_reviews (reconstructState past) commit"
    and "s \<equiv> f (ix_score (evaluate Q past commit ranking variances))"
  shows "(3 * review_weight W (\<lambda>r. \<not> honest (reviewer r)) rs < 2 * review_weight W (\<lambda>_. True) rs \<longrightarrow>
      (\<forall>r \<in> set rs. honest (reviewer r) \<longrightarrow> f (scoreFromReview r (sg_id commit)) \<le> hi) \<longrightarrow> s \<le> hi) \<and>
    (3 * review_weight W (\<lambda>r. \<not> honest (reviewer r)) rs \<le> review_weight W (\<lambda>_. True) rs \<longrightarrow> targets_ok past commit ranking variances \<longrightarrow> rs \<noteq> [] \<longrightarrow>
      (\<forall>r \<in> set rs. honest (reviewer r) \<longrightarrow> lo \<le> f (scoreFromReview r (sg_id commit))) \<longrightarrow> lo \<le> s)"
proof -
  let ?gv = "activeVariant (sg_prCreatedAt commit)"
  have f': "f \<in> dims" using f by (simp add: dims_def)
  have split: "review_weight W (\<lambda>_. True) rs = review_weight W (\<lambda>r. honest (reviewer r)) rs + review_weight W (\<lambda>r. \<not> honest (reviewer r)) rs"
    unfolding review_weight_def by (induction rs) auto
  have pos: "\<forall>r \<in> set rs. W (reviewer r) > 0" unfolding rs_def W_def by (rule counted_weight)
  have s: "s = (if targets_ok past commit ranking variances \<and> rs \<noteq> [] then f (deriveScore Q ?gv rs (sg_id commit) W) else 0)"
    using f' by (simp add: s_def evaluate_score rs_def W_def Let_def)
  have gv: "quantileNum ?gv < quantileDen ?gv" by (simp add: activeVariant_consts)
  note b = deriveScore_bounds [OF Q gv f' pos, where c = "sg_id commit"]
  have "s \<le> hi" if "3 * review_weight W (\<lambda>r. \<not> honest (reviewer r)) rs < 2 * review_weight W (\<lambda>_. True) rs"
    "\<forall>r \<in> set rs. honest (reviewer r) \<longrightarrow> f (scoreFromReview r (sg_id commit)) \<le> hi"
    using b(2) [of "\<lambda>r. honest (reviewer r)" hi] that split by (auto simp: s activeVariant_consts div_less_iff_less_mult)
  moreover have "lo \<le> s" if "3 * review_weight W (\<lambda>r. \<not> honest (reviewer r)) rs \<le> review_weight W (\<lambda>_. True) rs"
    "targets_ok past commit ranking variances" "rs \<noteq> []" "\<forall>r \<in> set rs. honest (reviewer r) \<longrightarrow> lo \<le> f (scoreFromReview r (sg_id commit))"
    using b(3) [of "\<lambda>r. \<not> honest (reviewer r)" lo] that by (auto simp: s activeVariant_consts less_eq_div_iff_mult_less_eq)
  ultimately show ?thesis by blast
qed

subsection \<open>Examples\<close>

definition ex_index :: "string \<Rightarrow> string \<Rightarrow> nat \<Rightarrow> commit_index" where
  "ex_index h who delta = \<lparr>ix_commitHash = Valid_Id h, ix_epoch = 1, ix_score = zero_score, ix_contributor = who, ix_weightDelta = delta,
     ix_reviewers = [], ix_metaReviews = [], ix_mergeVotes = [], ix_rejectVotes = [], ix_founderOverride = False\<rparr>"

definition ex_past :: "commit_index list" where
  "ex_past = [ex_index ''p'' ''alice'' 600, ex_index ''q'' ''bob'' 600, ex_index ''r'' ''mallory'' 500]"

definition ex_review :: "string \<Rightarrow> commit_id list \<Rightarrow> embedded_review" where
  "ex_review who rk = \<lparr>reviewer = who, difficultyRanking = rk, noveltyRanking = rk, designQualityRanking = rk, review_verdict = Verdict_Merge\<rparr>"

definition ex_commit :: "embedded_review list \<Rightarrow> signed_commit" where
  "ex_commit rs = \<lparr>sg_id = Valid_Id ''c'', sg_prId = 7, sg_author = ''carol'', sg_mergeEpoch = 2, sg_prCreatedAt = 0, sg_targets = [],
     sg_reviews = rs, sg_metaReviews = [], sg_founderOverride = False\<rparr>"

lemmas ex_genesis = ex_past_def ex_index_def ex_review_def ex_commit_def reconstructState_def initEvalState_def stepState_def
  upsertContributor_def activeVariant_consts founder_def founderWeight_def

lemma ex_state:
  "es_contributors (reconstructState ex_past) =
     [\<lparr>ct_id = ''sorpaas'', ct_balance = 0, ct_weight = 1, ct_isReviewer = True\<rparr>,
      \<lparr>ct_id = ''alice'', ct_balance = 0, ct_weight = 600, ct_isReviewer = True\<rparr>,
      \<lparr>ct_id = ''bob'', ct_balance = 0, ct_weight = 600, ct_isReviewer = True\<rparr>,
      \<lparr>ct_id = ''mallory'', ct_balance = 0, ct_weight = 500, ct_isReviewer = True\<rparr>]"
  by (simp add: ex_genesis)

lemma ex_weights:
  "reviewerWeight (reconstructState ex_past) ''alice'' = 600" "reviewerWeight (reconstructState ex_past) ''bob'' = 600"
  "reviewerWeight (reconstructState ex_past) ''mallory'' = 500" "reviewerWeight (reconstructState ex_past) ''dave'' = 0"
  by (simp_all add: reviewerWeight_def ex_state)

lemma ex_targets_ok: "targets_ok past (ex_commit rs) ranking variances"
  by (simp add: targets_ok_def validateComparisonTargets_def eligible_before_def ex_commit_def Let_def)

lemma ex_counted:
  "counted_reviews st (ex_commit rs) = filter (\<lambda>r. reviewerWeight st (reviewer r) > 0) rs"
  by (simp add: counted_reviews_def filterReviews_def metaReviewNet_def ex_commit_def)

theorem evaluate_guardrails_witness:
  "ix_weightDelta (evaluate insertion_qsorts ex_past (ex_commit [ex_review ''dave'' [Valid_Id ''c'']]) None None) = 0"
  using evaluate_guardrails [OF lawful_insertion, of ex_past "ex_commit [ex_review ''dave'' [Valid_Id ''c'']]" None None]
  by (simp add: ex_counted ex_weights ex_review_def)

definition ex_reviews :: "embedded_review list" where
  "ex_reviews = [ex_review ''alice'' [Valid_Id ''p'', Valid_Id ''c'', Valid_Id ''q''], ex_review ''mallory'' [Valid_Id ''c'', Valid_Id ''p'', Valid_Id ''q''],
      ex_review ''bob'' [Valid_Id ''q'', Valid_Id ''c'', Valid_Id ''p'']]"

lemma ex_sg_id: "sg_id (ex_commit rs) = Valid_Id ''c''"
  by (simp add: ex_commit_def)

theorem evaluate_sybil_bounds_witness:
  "sc_novelty (ix_score (evaluate insertion_qsorts ex_past (ex_commit ex_reviews) None None)) = 50"
  using evaluate_sybil_bounds [OF lawful_insertion, of sc_novelty ex_past "\<lambda>i. i \<noteq> ''mallory''" "ex_commit ex_reviews" 50 None None 50]
  by (simp add: ex_counted ex_weights ex_targets_ok ex_reviews_def ex_review_def review_weight_def scoreFromReview_def percentileFromRanking_def ex_sg_id flip: numeral_2_eq_2)

text \<open>The bounds are sharp. With exactly two thirds of the weight a coalition sets the score, although the comments promise the
  value of an honest reviewer there; with two fifths it can push the score to zero, where \<open>GENESIS.md\<close> sees no effect up to one half.
  The target is the first value whose cumulative weight exceeds a third, not the first that reaches it.\<close>

lemma quantile_two_thirds_inflates: "lawful Q \<Longrightarrow> weightedQuantile Q 1 3 [(1, 10), (2, 100)] = 100"
  using weightedQuantile_exact [OF lawfulD(1), of Q 1 3 "[(1, 10), (2, 100)]"] by auto

lemma quantile_two_fifths_deflates: "lawful Q \<Longrightarrow> weightedQuantile Q 1 3 [(2, 0), (3, 100)] = 0"
  using weightedQuantile_exact [OF lawfulD(1), of Q 1 3 "[(2, 0), (3, 100)]"] by auto

text \<open>A review with an empty ranking gives full marks, although the commit is not in it.\<close>

lemma percentile_empty_full: "percentileFromRanking [] c = 100 \<and> find_id [] c = None"
  by (simp add: percentileFromRanking_def)

text \<open>A commit evaluated without a ranking after the switch to ranked targets scores zero once there is a commit to compare with.\<close>

lemma evaluateAll_ignores_ranking:
  assumes "useRankedTargets (activeVariant (sg_prCreatedAt commit))"
    "eligible_before (sg_prCreatedAt commit) (es_scoredCommits (reconstructState past)) \<noteq> []"
  shows "ix_weightDelta (evaluate Q past commit None None) = 0"
  using assms by (auto simp: evaluate_delta evaluate_score targets_ok_def validateComparisonTargets_def Let_def weighted_def zero_score_def)

section \<open>Comparison targets\<close>

lemma bucket_step: "0 < k \<Longrightarrow> k \<le> n \<Longrightarrow> n * i div k < n * (i + 1) div k" for n k i :: nat
proof -
  assume k: "0 < k" "k \<le> n"
  have "n * i div k < (n * i + k) div k" using k(1) by (simp add: div_add_self2)
  also have "\<dots> \<le> n * (i + 1) div k" using k by (intro div_le_mono) simp
  finally show ?thesis .
qed

lemma bucket_mono: "i \<le> j \<Longrightarrow> n * i div k \<le> n * j div k" for n k i j :: nat
  by (simp add: div_le_mono)

lemma bucket_end: "0 < k \<Longrightarrow> i < k \<Longrightarrow> n * (i + 1) div k \<le> n" for n k i :: nat
  using bucket_mono [of "i + 1" k n k] by simp

text \<open>A choice of one element per bucket is a choice of distinct positions.\<close>

definition one_per_bucket :: "'a list \<Rightarrow> nat \<Rightarrow> (nat \<Rightarrow> 'a) \<Rightarrow> bool" where
  "one_per_bucket cs k p \<longleftrightarrow> (\<forall>i < k. \<exists>j. length cs * i div k \<le> j \<and> j < length cs * (i + 1) div k \<and> p i = cs ! j)"

lemma one_per_bucket_distinct:
  assumes "one_per_bucket cs k p" "distinct cs"
  shows "distinct (map p [0..<k])" "set (map p [0..<k]) \<subseteq> set cs"
proof -
  obtain j where j: "\<And>i. i < k \<Longrightarrow> length cs * i div k \<le> j i \<and> j i < length cs * (i + 1) div k \<and> p i = cs ! j i"
    using assms(1) unfolding one_per_bucket_def by metis
  have b: "j i < length cs" if "i < k" for i using j [OF that] bucket_end [of k i "length cs"] that by simp
  then show "set (map p [0..<k]) \<subseteq> set cs" using j by auto
  have "j a < j b" if "a < b" "b < k" for a b
    using j [of a] j [of b] bucket_mono [of "a + 1" b "length cs" k] that by linarith
  then have "p a \<noteq> p b" if "a < b" "b < k" for a b
    using that j [of a] j [of b] b [of a] b [of b] assms(2) by (auto simp: nth_eq_iff_index_eq) (metis less_irrefl)
  then show "distinct (map p [0..<k])" by (auto simp: distinct_conv_nth) (metis nat_neq_iff)
qed

lemma bucket_pick_one: "k \<le> length cs \<Longrightarrow> one_per_bucket cs k (bucket_pick cs k hash)"
  unfolding one_per_bucket_def
proof (intro allI impI)
  fix i
  assume k: "k \<le> length cs" "i < k"
  let ?s = "length cs * i div k" and ?e = "length cs * (i + 1) div k"
  have s: "?s < ?e" "?e \<le> length cs" using bucket_step [of k "length cs" i] bucket_end [of k i "length cs"] k by auto
  have "(hash + i * 7) mod (?e - ?s) < ?e - ?s" using s by simp
  then have "?s + (hash + i * 7) mod (?e - ?s) < ?e" by simp
  then show "\<exists>j. ?s \<le> j \<and> j < ?e \<and> bucket_pick cs k hash i = cs ! j"
    using s by (intro exI [of _ "?s + (hash + i * 7) mod (?e - ?s)"]) (simp add: bucket_pick_def Let_def id_at_def)
qed

definition var_from :: "(commit_id \<Rightarrow> nat) \<Rightarrow> nat \<Rightarrow> nat \<times> commit_id \<Rightarrow> commit_id list \<Rightarrow> nat \<times> commit_id" where
  "var_from var t st cs = foldl (\<lambda>(cw, sel) c. let nc = cw + var c in if cw \<le> t \<and> t < nc then (nc, c) else (nc, sel)) st cs"

lemma var_from_simps [simp]:
  "var_from var t st [] = st"
  "var_from var t (a, s) (c # cs) = var_from var t (a + var c, if a \<le> t \<and> t < a + var c then c else s) cs"
  "var_from var t st (cs @ ds) = var_from var t (var_from var t st cs) ds"
  by (simp_all add: var_from_def Let_def)

lemma var_from_walk:
  "fst (var_from var t (a, s) cs) = a + weight_of var (\<lambda>_. True) cs" "snd (var_from var t (a, s) cs) \<in> insert s (set cs)"
  "t < a \<Longrightarrow> snd (var_from var t (a, s) cs) = s"
  "a \<le> t \<Longrightarrow> t < a + weight_of var (\<lambda>_. True) cs \<Longrightarrow> snd (var_from var t (a, s) cs) \<in> set cs"
proof (induction cs arbitrary: a s)
  case (Cons c cs)
  {
    case 1 then show ?case using Cons.IH(1) by simp
  next
    case 2 then show ?case using Cons.IH(2) [of "a + var c" "if a \<le> t \<and> t < a + var c then c else s"] by auto
  next
    case 3 then show ?case using Cons.IH(3) [of "a + var c" s] by simp
  next
    case 4
    then show ?case using Cons.IH(3) [of "a + var c" c] Cons.IH(4) [of "a + var c" s] by (cases "t < a + var c") auto
  }
qed auto

lemma variance_walk_from: "variance_walk var t cs = snd (var_from var t (0, hd cs) cs)"
  by (simp add: variance_walk_def var_from_def)

lemma variance_walk_in: "cs \<noteq> [] \<Longrightarrow> variance_walk var t cs \<in> set cs"
  using var_from_walk(2) [of var t 0 "hd cs" cs] by (auto simp: variance_walk_from)

lemma variance_pick_one: "k \<le> length cs \<Longrightarrow> one_per_bucket cs k (variance_pick variances cs k hash)"
  unfolding one_per_bucket_def
proof (intro allI impI)
  fix i
  assume k: "k \<le> length cs" "i < k"
  let ?s = "length cs * i div k" and ?e = "length cs * (i + 1) div k"
  have s: "?s < ?e" "?e \<le> length cs" using bucket_step [of k "length cs" i] bucket_end [of k i "length cs"] k by auto
  let ?b = "map (\<lambda>j. id_at cs (?s + j)) [0..<?e - ?s]"
  have first: "id_at cs ?s = cs ! ?s" using s by (simp add: id_at_def)
  have b: "\<exists>j. ?s \<le> j \<and> j < ?e \<and> c = cs ! j" if c: "c \<in> set ?b" for c
  proof -
    obtain j where "j < ?e - ?s" "c = id_at cs (?s + j)" using c by auto
    then show ?thesis using s by (intro exI [of _ "?s + j"]) (auto simp: id_at_def)
  qed
  have "variance_walk (getVar variances) t ?b \<in> set ?b" for t using s by (intro variance_walk_in) simp
  then have "\<exists>j. ?s \<le> j \<and> j < ?e \<and> variance_walk (getVar variances) t ?b = cs ! j" for t by (rule b)
  then show "\<exists>j. ?s \<le> j \<and> j < ?e \<and> variance_pick variances cs k hash i = cs ! j"
    using s first by (auto simp: variance_pick_def Let_def)
qed

text \<open>Within a bucket the targets for the sampling number are shared out in proportion to the variances: of the numbers below
  the total variance, a commit is chosen by exactly as many as its own variance.\<close>

theorem variance_sampling_fair:
  assumes "distinct cs" "c \<in> set cs"
  shows "card {t. t < foldl (\<lambda>acc c. acc + var c) 0 cs \<and> variance_walk var t cs = c} = var c"
proof -
  obtain xs ys where cs: "cs = xs @ c # ys" using split_list [OF assms(2)] by blast
  let ?W = "weight_of var (\<lambda>_. True)"
  have app: "?W (as @ bs) = ?W as + ?W bs" for as bs by (induction as) auto
  have tot: "foldl (\<lambda>acc c. acc + var c) 0 cs = ?W xs + var c + ?W ys" by (simp only: foldl_weight cs app) simp
  have walk: "variance_walk var t cs = c \<longleftrightarrow> ?W xs \<le> t \<and> t < ?W xs + var c" if t: "t < ?W xs + var c + ?W ys" for t
  proof -
    obtain s where s: "var_from var t (0, hd cs) xs = (?W xs, s)" using var_from_walk(1) [of var t 0 "hd cs" xs] by (cases "var_from var t (0, hd cs) xs") auto
    have w: "variance_walk var t cs = snd (var_from var t (?W xs + var c, if ?W xs \<le> t \<and> t < ?W xs + var c then c else s) ys)"
      unfolding variance_walk_from by (simp only: cs var_from_simps s [unfolded cs])
    consider "t < ?W xs" | "?W xs \<le> t" "t < ?W xs + var c" | "?W xs + var c \<le> t" by linarith
    then show ?thesis
    proof cases
      case 1
      then have "s \<in> set xs" using var_from_walk(4) [of 0 t var xs "hd cs"] s by simp
      moreover have "variance_walk var t cs = s" using w 1 var_from_walk(3) [of t "?W xs + var c"] by simp
      ultimately show ?thesis using 1 assms(1) cs by auto
    next
      case 2
      then show ?thesis using w var_from_walk(3) [of t "?W xs + var c"] by simp
    next
      case 3
      then have "variance_walk var t cs \<in> set ys" using w t var_from_walk(4) [of "?W xs + var c" t var ys] by simp
      then show ?thesis using 3 assms(1) cs by auto
    qed
  qed
  have "{t. t < ?W xs + var c + ?W ys \<and> variance_walk var t cs = c} = {t. t < ?W xs + var c + ?W ys \<and> ?W xs \<le> t \<and> t < ?W xs + var c}"
    by (rule Collect_cong) (rule conj_cong [OF refl walk])
  also have "\<dots> = {?W xs..<?W xs + var c}" by auto
  finally have "{t. t < ?W xs + var c + ?W ys \<and> variance_walk var t cs = c} = {?W xs..<?W xs + var c}" .
  then show ?thesis by (simp add: tot)
qed

definition ex_ids :: "commit_id list" where
  "ex_ids = [Valid_Id ''p'', Valid_Id ''q'']"

theorem variance_sampling_fair_witness:
  "card {t. t < foldl (\<lambda>acc c. acc + getVar [(Valid_Id ''q'', 5)] c) 0 ex_ids \<and> variance_walk (getVar [(Valid_Id ''q'', 5)]) t ex_ids = Valid_Id ''q''} = 5"
  by (subst variance_sampling_fair) (simp_all add: ex_ids_def getVar_def)

lemma ceqD: "ceq a b \<Longrightarrow> a = b \<and> a \<noteq> Invalid_Id"
  by (cases a; cases b) auto

lemma ceq_refl: "a \<noteq> Invalid_Id \<Longrightarrow> ceq a a"
  by (cases a) auto

lemma has_id_iff: "has_id cs c \<longleftrightarrow> c \<in> set cs \<and> c \<noteq> Invalid_Id"
  using ceqD ceq_refl by (fastforce simp: has_id_def list_ex_iff)

lemma same_ids_iff: "Invalid_Id \<notin> set bs \<Longrightarrow> same_ids as bs \<longleftrightarrow> as = bs"
proof
  assume "same_ids as bs"
  then show "as = bs" unfolding same_ids_def by (induction rule: list_all2_induct) (auto dest: ceqD)
next
  show "Invalid_Id \<notin> set bs \<Longrightarrow> as = bs \<Longrightarrow> same_ids as bs" by (auto simp: same_ids_def list_all2_same intro: ceq_refl)
qed

lemma scored_reconstruct: "es_scoredCommits (reconstructState indices) = map (\<lambda>idx. (ix_commitHash idx, ix_epoch idx)) indices"
  by (induction indices rule: rev_induct) (simp_all add: reconstructState_def initEvalState_def stepState_def Let_def)

lemma eligible_ids:
  "map fst (eligible_before t (map (\<lambda>idx. (ix_commitHash idx, ix_epoch idx)) indices)) = map ix_commitHash (filter (\<lambda>idx. ix_epoch idx < t) indices)"
  by (simp add: eligible_before_def filter_map comp_def)

text \<open>The list the targets are taken from.\<close>

definition target_pool :: "epoch \<Rightarrow> commit_index list \<Rightarrow> commit_id list option \<Rightarrow> commit_id list" where
  "target_pool t indices ranking =
     (let eligible = map ix_commitHash (filter (\<lambda>idx. ix_epoch idx < t) indices) in
      if useRankedTargets (activeVariant t) then filter (has_id eligible) (the ranking) else eligible)"

lemma pool_props:
  assumes "distinct (map ix_commitHash indices)" "Invalid_Id \<notin> ix_commitHash ` set indices"
    "useRankedTargets (activeVariant t) \<Longrightarrow> distinct (the ranking) \<and> (\<forall>idx \<in> set indices. ix_epoch idx < t \<longrightarrow> ix_commitHash idx \<in> set (the ranking))"
  shows "distinct (target_pool t indices ranking)" "set (target_pool t indices ranking) = ix_commitHash ` {idx \<in> set indices. ix_epoch idx < t}"
    "length (target_pool t indices ranking) = length (filter (\<lambda>idx. ix_epoch idx < t) indices)"
proof -
  let ?el = "map ix_commitHash (filter (\<lambda>idx. ix_epoch idx < t) indices)"
  have valid: "ix_commitHash idx \<noteq> Invalid_Id" if "idx \<in> set indices" for idx using assms(2) that by force
  have d: "distinct ?el" using assms(1) by (simp add: distinct_map_filter)
  show 1: "distinct (target_pool t indices ranking)" using d assms(3) by (simp add: target_pool_def Let_def)
  show 2: "set (target_pool t indices ranking) = ix_commitHash ` {idx \<in> set indices. ix_epoch idx < t}"
    using assms(3) valid by (auto simp: target_pool_def has_id_iff Let_def)
  have "card (set (target_pool t indices ranking)) = card (set ?el)" using 2 by simp
  then show "length (target_pool t indices ranking) = length (filter (\<lambda>idx. ix_epoch idx < t) indices)"
    using distinct_card [OF 1] distinct_card [OF d] by simp
qed

lemma bt_is_ranked: "useBradleyTerry (activeVariant t) \<Longrightarrow> useRankedTargets (activeVariant t)"
  using activeVariant_cases [of t] by (auto simp: variant_v1_def variant_v2_def variant_v3_def)

lemma selectTargets_buckets:
  assumes "selectTargets prId t indices ranking variances = Some ts"
  defines "cs \<equiv> target_pool t indices ranking"
    and "k \<equiv> min (min 7 (length (filter (\<lambda>idx. ix_epoch idx < t) indices))) (length (target_pool t indices ranking))"
  shows "useRankedTargets (activeVariant t) \<Longrightarrow> \<exists>r. ranking = Some r" "\<exists>p. one_per_bucket cs k p \<and> ts = map p [0..<k]"
proof -
  let ?sc = "map (\<lambda>idx. (ix_commitHash idx, ix_epoch idx)) indices" and ?num = "min 7 (length (filter (\<lambda>idx. ix_epoch idx < t) indices))"
  show r: "\<exists>r. ranking = Some r" if "useRankedTargets (activeVariant t)"
    using assms(1) that by (cases ranking) (auto simp: selectTargets_def Let_def split: if_splits)
  have len: "length (eligible_before t ?sc) = length (filter (\<lambda>idx. ix_epoch idx < t) indices)"
    using arg_cong [OF eligible_ids [of t indices], of length] by simp
  have pool: "cs = (if useRankedTargets (activeVariant t) then ranked_eligible (the ranking) ?sc t else map fst (eligible_before t ?sc))"
    by (simp add: cs_def target_pool_def ranked_eligible_def eligible_ids Let_def)
  have kle: "k \<le> length cs" "k = min ?num (length cs)" by (simp_all add: k_def cs_def)
  consider vs where "useBradleyTerry (activeVariant t)" "variances = Some vs" "ts = selectComparisonTargetsVariance (the ranking) vs ?sc ?num prId t"
    | "\<not> useBradleyTerry (activeVariant t)" "useRankedTargets (activeVariant t)" "ts = selectComparisonTargetsRanked (the ranking) ?sc ?num prId t"
    | "\<not> useRankedTargets (activeVariant t)" "ts = selectComparisonTargets ?sc ?num prId t"
    using assms(1) bt_is_ranked [of t] by (auto simp: selectTargets_def Let_def len activeVariant_consts bind_eq_Some_conv split: if_splits)
  then show "\<exists>p. one_per_bucket cs k p \<and> ts = map p [0..<k]"
  proof cases
    case 1
    have "cs = ranked_eligible (the ranking) ?sc t" using pool bt_is_ranked 1 by simp
    then have "ts = map (variance_pick vs cs k (prIdHash prId)) [0..<k]" using 1(3) kle(2) by (simp add: selectComparisonTargetsVariance_def Let_def)
    then show ?thesis using variance_pick_one [OF kle(1)] by blast
  next
    case 2
    then have "ts = map (bucket_pick cs k (prIdHash prId)) [0..<k]" using pool kle(2) by (simp add: selectComparisonTargetsRanked_def Let_def)
    then show ?thesis using bucket_pick_one [OF kle(1)] by blast
  next
    case 3
    then have "ts = map (bucket_pick cs k (prIdHash prId)) [0..<k]" using pool kle(2) by (simp add: selectComparisonTargets_def Let_def)
    then show ?thesis using bucket_pick_one [OF kle(1)] by blast
  qed
qed

lemma targets_ok_selected:
  assumes "selectTargets (sg_prId commit) (sg_prCreatedAt commit) indices ranking variances = Some ts" "Invalid_Id \<notin> set ts"
  shows "targets_ok indices commit ranking variances \<longleftrightarrow> sg_targets commit = ts"
proof (cases "eligible_before (sg_prCreatedAt commit) (map (\<lambda>idx. (ix_commitHash idx, ix_epoch idx)) indices) = []")
  case True
  have "ts = []"
    using assms(1) True by (auto simp: selectTargets_def Let_def selectComparisonTargets_def selectComparisonTargetsRanked_def
        selectComparisonTargetsVariance_def ranked_eligible_def has_id_def bind_eq_Some_conv split: if_splits)
  then show ?thesis using True by (simp add: targets_ok_def validateComparisonTargets_def scored_reconstruct)
next
  case False
  then show ?thesis using assms same_ids_iff [OF assms(2), of "sg_targets commit"]
    by (auto simp: targets_ok_def validateComparisonTargets_def scored_reconstruct selectTargets_def Let_def bind_eq_Some_conv split: if_splits)
qed

text \<open>C20: The comparison targets the tool selects for a pull request, under each protocol version: as many as seven or all commits
  merged before it was opened, all of them such commits, no two the same. A signed commit validates with these targets and no
  others.\<close>

theorem selected_targets:
  assumes sel: "selectTargets prId t indices ranking variances = Some ts"
    and ids: "distinct (map ix_commitHash indices)" "Invalid_Id \<notin> ix_commitHash ` set indices"
    and rk: "\<forall>r. ranking = Some r \<longrightarrow> distinct r \<and> (\<forall>idx \<in> set indices. ix_epoch idx < t \<longrightarrow> ix_commitHash idx \<in> set r)"
  shows "length ts = min 7 (length (filter (\<lambda>idx. ix_epoch idx < t) indices)) \<and> distinct ts \<and>
    set ts \<subseteq> ix_commitHash ` {idx \<in> set indices. ix_epoch idx < t} \<and>
    (\<forall>commit. sg_prId commit = prId \<longrightarrow> sg_prCreatedAt commit = t \<longrightarrow> (targets_ok indices commit ranking variances \<longleftrightarrow> sg_targets commit = ts))"
proof -
  let ?cs = "target_pool t indices ranking"
  have rk': "distinct (the ranking) \<and> (\<forall>idx \<in> set indices. ix_epoch idx < t \<longrightarrow> ix_commitHash idx \<in> set (the ranking))"
    if "useRankedTargets (activeVariant t)"
    using selectTargets_buckets(1) [OF sel that] rk by auto
  note pool = pool_props [OF ids rk']
  obtain p where p: "one_per_bucket ?cs (min 7 (length ?cs)) p" "ts = map p [0..<min 7 (length ?cs)]"
    using selectTargets_buckets(2) [OF sel] pool(3) by (auto simp: min.assoc)
  have d: "distinct ts" "set ts \<subseteq> set ?cs" using one_per_bucket_distinct [OF p(1) pool(1)] p(2) by auto
  have "length ts = min 7 (length (filter (\<lambda>idx. ix_epoch idx < t) indices))" using p(2) pool(3) by simp
  moreover have "Invalid_Id \<notin> set ts" using d(2) pool(2) ids(2) by auto
  ultimately show ?thesis using d pool(2) sel targets_ok_selected by blast
qed

theorem selected_targets_witness:
  "\<exists>ts. selectTargets 7 5 ex_past None None = Some ts \<and> length ts = 3 \<and> distinct ts \<and> set ts \<subseteq> {Valid_Id ''p'', Valid_Id ''q'', Valid_Id ''r''}"
proof -
  have "\<not> useRankedTargets (activeVariant 5) \<and> \<not> useBradleyTerry (activeVariant 5)"
    by (simp add: activeVariant_def genesisSchedule_def variant_v1_def)
  then obtain ts where ts: "selectTargets 7 5 ex_past None None = Some ts" by (simp add: selectTargets_def Let_def)
  have "distinct (map ix_commitHash ex_past)" "Invalid_Id \<notin> ix_commitHash ` set ex_past" by (simp_all add: ex_past_def ex_index_def)
  from selected_targets [OF ts this] ts show ?thesis by (auto simp: ex_past_def ex_index_def)
qed

section \<open>The integer square root\<close>

lemma newton_not_below: "n < ((x + n div x) div 2 + 1)\<^sup>2" if "x > 0" for n x :: nat
proof -
  define q where "q = n div x + 1"
  define y where "y = (x + n div x) div 2 + 1"
  have n: "n < x * q" using that dividend_less_times_div [of x n] by (simp add: q_def algebra_simps)
  have "x + q \<le> 2 * y" by (simp add: q_def y_def)
  then have "(x + q)\<^sup>2 \<le> (2 * y)\<^sup>2" by (rule power_mono) simp
  moreover have "4 * (x * q) \<le> (x + q)\<^sup>2"
  proof -
    have "0 \<le> (int x - int q)\<^sup>2" by simp
    then have "int (4 * (x * q)) \<le> int ((x + q)\<^sup>2)" by (simp add: power2_eq_square algebra_simps)
    then show ?thesis by linarith
  qed
  ultimately have "4 * n < 4 * y\<^sup>2" using n by (simp add: power_mult_distrib)
  then show ?thesis by (simp add: y_def)
qed

lemma newton_pos: "n > 0 \<Longrightarrow> x > 0 \<Longrightarrow> (x + n div x) div 2 > 0" for n x :: nat
  by (cases "x = 1") auto

lemma isqrt_not_below: "n < (isqrt n + 1)\<^sup>2"
proof (cases "n \<le> 1")
  case True
  then show ?thesis by (simp add: isqrt_def power2_eq_square)
next
  case False
  let ?f = "\<lambda>x. (x + n div x) div 2"
  have pos: "(?f ^^ k) n > 0" for k
  proof (induction k)
    case (Suc k)
    then show ?case using newton_pos [of n "(?f ^^ k) n"] False by simp
  qed (use False in simp)
  have iter: "n < ((?f ^^ Suc k) n + 1)\<^sup>2" for k using newton_not_below [OF pos [of k], of n] by simp
  define x where "x = (?f ^^ 20) n"
  have "Suc 19 = 20" by simp
  then have x: "n < (x + 1)\<^sup>2" using iter [of 19] unfolding x_def by (simp only:)
  have "isqrt n = (if (x + 1) * (x + 1) \<le> n then x + 1 else x)" unfolding isqrt_def x_def using False by (simp only: Let_def if_False)
  then show ?thesis using x by (simp add: power2_eq_square)
qed

text \<open>Twenty rounds of Newton's method from \<open>n\<close> do not reach the root of the numbers at hand, and the last step only
  corrects upwards: the scale of the first comparison of two new commits is four times too large.\<close>

definition newton :: "nat \<Rightarrow> nat \<Rightarrow> nat" where
  "newton n x = (x + n div x) div 2"

lemma newton_iterate:
  "(newton n ^^ numeral k) x = (newton n ^^ pred_numeral k) (newton n x)" "(newton n ^^ Suc k') x = (newton n ^^ k') (newton n x)" "(newton n ^^ 0) x = x"
  by (simp_all add: numeral_eq_Suc funpow_swap1)

lemma isqrt_newton: "isqrt n = (if n \<le> 1 then n else let x = (newton n ^^ 20) n in if (x + 1) * (x + 1) \<le> n then x + 1 else x)"
  by (simp only: isqrt_def newton_def [abs_def])

lemma isqrt_eight: "isqrt 8 = 3"
  by (simp add: isqrt_newton newton_iterate newton_def del: funpow.simps)

lemma bt_gamma_too_large:
  "bt_gamma 25000000 25000000 = 15795739 \<and> bt_gamma 25000000 25000000 = isqrt 16198178000000 \<and> 4024696\<^sup>2 \<le> (16198178000000 :: nat) \<and> (16198178000000 :: nat) < 4024697\<^sup>2"
  by (simp add: bt_gamma_def isqrt_newton newton_iterate newton_def BT_SCALE_def PI_SQUARED_SCALED_def del: funpow.simps)

section \<open>Rankings\<close>

lemma bt_gamma_pos: "bt_gamma a b > 0"
proof -
  have "0 < isqrt n" if "n > 0" for n
  proof (rule ccontr)
    assume "\<not> 0 < isqrt n"
    then have "n = 1" using isqrt_not_below [of n] that by simp
    then show False using \<open>\<not> 0 < isqrt n\<close> by (simp add: isqrt_def)
  qed
  then show ?thesis by (simp add: bt_gamma_def BT_SCALE_def)
qed

text \<open>The variances stay between the floor and the initial variance.\<close>

definition var_ok :: "nat \<Rightarrow> bool" where
  "var_ok s \<longleftrightarrow> BT_VARIANCE_FLOOR \<le> s \<and> s \<le> 25000000"

definition bt_ok :: "bt_state \<Rightarrow> bool" where
  "bt_ok st \<longleftrightarrow> (\<forall>x \<in> set st. var_ok (bt_sigma2 (snd x)))"

lemma var_ok_default [simp]: "var_ok BT_SCALE" "var_ok 25000000"
  by (simp_all add: var_ok_def BT_VARIANCE_FLOOR_def BT_SCALE_def)

lemma shrink_ok: "var_ok s \<Longrightarrow> var_ok (shrink_variance g p s)"
  by (auto simp: var_ok_def shrink_variance_def Let_def)

lemma find_SomeD: "find P xs = Some x \<Longrightarrow> x \<in> set xs \<and> P x"
  by (auto simp: find_Some_iff)

lemma btLookup_ok: "bt_ok st \<Longrightarrow> var_ok (bt_sigma2 (btLookup st c))"
  by (auto simp: btLookup_def bt_ok_def dest!: find_SomeD split: option.splits)

lemma btSet_ok: "bt_ok st \<Longrightarrow> var_ok (bt_sigma2 e) \<Longrightarrow> bt_ok (btSet st c e)"
  by (auto simp: btSet_def bt_ok_def split: if_splits)

lemma btEnsure_ok: "bt_ok st \<Longrightarrow> var_ok iv \<Longrightarrow> bt_ok (btEnsure st c iv)"
  by (auto simp: btEnsure_def bt_ok_def)

lemma btUpdate_ok: "bt_ok st \<Longrightarrow> bt_ok (btUpdate st w l)"
  by (auto simp: btUpdate_def Let_def intro!: btSet_ok shrink_ok btLookup_ok)

lemma foldl_invariant: "P s \<Longrightarrow> (\<And>s x. x \<in> set xs \<Longrightarrow> P s \<Longrightarrow> P (f s x)) \<Longrightarrow> P (foldl f s xs)"
  by (induction xs arbitrary: s) auto

lemma btProcessCommit_ok: "bt_ok st \<Longrightarrow> var_ok (btInitialVariance (rc_variant ctx)) \<Longrightarrow> bt_ok (btProcessCommit Q commit ctx st)"
  by (auto simp: btProcessCommit_def Let_def split: option.splits intro!: btUpdate_ok btEnsure_ok foldl_invariant [of bt_ok])

lemma bt_final_ok:
  assumes "\<forall>ctx \<in> set ctxs. btInitialVariance (rc_variant ctx) = 25000000"
  shows "bt_ok (foldl (\<lambda>state (commit, ctx). btProcessCommit Q commit ctx state) [] (zip commits ctxs))"
  using assms by (intro foldl_invariant [of bt_ok]) (auto simp: bt_ok_def [of "[]"] dest!: set_zip_rightD intro!: btProcessCommit_ok)

text \<open>The contexts of a ranking all have the one variant that is in force.\<close>

lemma resolveVariantName_cases: "resolveVariantName n = Some v \<Longrightarrow> v \<in> {variant_v1, variant_v2, variant_v3}"
  by (auto simp: resolveVariantName_def split: if_splits)

lemma ranking_contexts_variant:
  "\<exists>v \<in> {variant_v1, variant_v2, variant_v3}. \<forall>ctx \<in> set (ranking_contexts forced commits indices). rc_variant ctx = v"
proof -
  define v where "v = (case Option.bind forced resolveVariantName of Some v \<Rightarrow> v | None \<Rightarrow> activeVariant (if indices = [] then 0 else ix_epoch (last indices)))"
  have "v \<in> {variant_v1, variant_v2, variant_v3}"
    using activeVariant_cases resolveVariantName_cases by (auto simp: v_def bind_eq_Some_conv split: option.splits)
  moreover have "\<forall>ctx \<in> set (ranking_contexts forced commits indices). rc_variant ctx = v"
    unfolding ranking_contexts_def Let_def v_def [symmetric]
    by (rule foldl_invariant [where P = "\<lambda>s. \<forall>ctx \<in> set (fst s). rc_variant ctx = v"]) (auto split: prod.splits)
  ultimately show ?thesis by blast
qed

lemma netWins_order: "weak_order (\<lambda>((_, nw1), i1) ((_, nw2), i2). if nw1 \<noteq> nw2 then nw1 > (nw2 :: int) else i1 < (i2 :: nat))"
  by (auto simp: weak_order_def split: prod.splits if_splits)

lemma scored_order: "weak_order (\<lambda>(_, m1, i1) (_, m2, i2). if m1 \<noteq> m2 then m1 > (m2 :: int) else i1 < (i2 :: nat))"
  by (auto simp: weak_order_def split: prod.splits if_splits)

lemma mset_rankingNetWins:
  assumes "lawful Q"
  shows "mset (computeRankingNetWins Q commits ctxs) = mset (map sg_id commits)"
proof -
  define lt where "lt = (\<lambda>((_ :: commit_id, nw1), i1) ((_ :: commit_id, nw2), i2). if nw1 \<noteq> nw2 then nw1 > (nw2 :: int) else i1 < (i2 :: nat))"
  have m: "mset (q_netWins Q lt xs) = mset xs" for xs
    using sortsD(1) [OF lawfulD(4) [OF assms]] netWins_order unfolding lt_def by blast
  have wins: "map fst (computeNetWins cs w) = cs" for cs w by (simp add: computeNetWins_def Let_def comp_def)
  have "mset (map (\<lambda>((c, _), _). c) (q_netWins Q lt (zip ws [0..<length ws]))) = mset (map fst ws)" for ws
  proof -
    have "image_mset (\<lambda>((c, _), _). c) (mset (zip ws [0..<length ws])) = image_mset (fst \<circ> fst) (mset (zip ws [0..<length ws]))"
      by (rule image_mset_cong) auto
    also have "\<dots> = mset (map fst (map fst (zip ws [0..<length ws])))" by (simp only: mset_map image_mset.compositionality)
    finally show ?thesis by (simp only: mset_map m map_fst_zip length_upt diff_zero)
  qed
  then show ?thesis unfolding computeRankingNetWins_def Let_def lt_def [symmetric] by (simp only: wins)
qed

lemma btLookup_clean: "\<not> ceq c btPhantom \<Longrightarrow> btLookup (filter (\<lambda>(c, _). \<not> ceq c btPhantom) st) c = btLookup st c"
proof -
  assume c: "\<not> ceq c btPhantom"
  have "find (\<lambda>(x, _). ceq x c) (filter (\<lambda>(c, _). \<not> ceq c btPhantom) st) = find (\<lambda>(x, _). ceq x c) st"
    using c by (induction st) (auto dest: ceqD)
  then show ?thesis by (simp add: btLookup_def)
qed

lemma rankingBT_props:
  assumes Q: "lawful Q" and R: "computeRankingBTWithState Q commits ctxs = (ranking, st)"
    and ph: "\<forall>c \<in> sg_id ` set commits. c \<noteq> btPhantom"
  shows "mset ranking = mset (map sg_id commits)" "sorted_wrt (\<lambda>a b. bt_mu (btLookup st b) \<le> bt_mu (btLookup st a)) ranking"
    "(\<forall>ctx \<in> set ctxs. btInitialVariance (rc_variant ctx) = 25000000) \<Longrightarrow> bt_ok st"
proof -
  define lt where "lt = (\<lambda>(_ :: commit_id, m1, i1) (_ :: commit_id, m2, i2). if m1 \<noteq> m2 then m1 > (m2 :: int) else i1 < (i2 :: nat))"
  define fs where "fs = foldl (\<lambda>state (commit, ctx). btProcessCommit Q commit ctx state) [] (zip commits ctxs)"
  define ws where "ws = map (\<lambda>(c, i). (c, bt_mu (btLookup fs c), i)) (zip (map sg_id commits) [0..<length (map sg_id commits)])"
  have "weak_order lt" unfolding lt_def by (rule scored_order)
  note srt = sortsD [OF lawfulD(5) [OF Q] this, of ws]
  have rk: "ranking = map (\<lambda>(c, _, _). c) (q_scored Q lt ws)" "st = filter (\<lambda>(c, _). \<not> ceq c btPhantom) fs"
    using R by (auto simp: computeRankingBTWithState_def Let_def lt_def fs_def ws_def)
  have fstf: "(\<lambda>(c, _, _). c) = (fst :: commit_id \<times> int \<times> nat \<Rightarrow> commit_id)" by auto
  have "map fst ws = map sg_id commits" by (simp add: ws_def comp_def case_prod_unfold)
  then have mr: "mset ranking = mset (map sg_id commits)" unfolding rk fstf by (metis mset_map srt(1))
  then show "mset ranking = mset (map sg_id commits)" .
  have in_ws: "fst (snd x) = bt_mu (btLookup st (fst x))" if "x \<in> set (q_scored Q lt ws)" for x
  proof -
    have x: "x \<in> set ws" using srt(1) that by (metis mset_eq_setD)
    then have "fst x \<in> sg_id ` set commits" "fst (snd x) = bt_mu (btLookup fs (fst x))" by (auto simp: ws_def dest!: set_zip_leftD)
    then show ?thesis using ph ceqD unfolding rk(2) by (subst btLookup_clean) auto
  qed
  have "sorted_wrt (\<lambda>a b. fst (snd b) \<le> fst (snd a)) (q_scored Q lt ws)"
    by (rule sorted_wrt_mono_rel [OF _ srt(2)]) (auto simp: lt_def split: prod.splits if_splits)
  then show "sorted_wrt (\<lambda>a b. bt_mu (btLookup st b) \<le> bt_mu (btLookup st a)) ranking"
    unfolding rk(1) fstf sorted_wrt_map by (rule sorted_wrt_mono_rel [rotated]) (simp add: in_ws)
  assume "\<forall>ctx \<in> set ctxs. btInitialVariance (rc_variant ctx) = 25000000"
  then show "bt_ok st" using bt_final_ok [of ctxs Q commits] unfolding rk(2) fs_def [symmetric] by (auto simp: bt_ok_def)
qed

text \<open>C21: The ranking tool ranks every commit exactly once. Under Bradley-Terry the scores it publishes go with the ranking, do
  not increase along it, and have variances between the floor and the initial variance.\<close>

theorem ranking_sound:
  assumes Q: "lawful Q" and ph: "\<forall>commit \<in> set commits. sg_id commit \<noteq> btPhantom"
  shows "mset (fst (ranking_main Q forced commits indices)) = mset (map sg_id commits) \<and>
    (\<forall>scores. snd (ranking_main Q forced commits indices) = Some scores \<longrightarrow>
       map fst scores = fst (ranking_main Q forced commits indices) \<and> sorted_wrt (\<lambda>a b. bt_mu (snd b) \<le> bt_mu (snd a)) scores \<and>
       (\<forall>x \<in> set scores. BT_VARIANCE_FLOOR \<le> bt_sigma2 (snd x) \<and> bt_sigma2 (snd x) \<le> 25000000))"
proof (cases "uses_bt (ranking_contexts forced commits indices)")
  case False
  then show ?thesis using mset_rankingNetWins [OF Q] by (simp add: ranking_main_def computeRanking_def Let_def)
next
  case True
  let ?ctxs = "ranking_contexts forced commits indices"
  obtain ranking st where R: "computeRankingBTWithState Q commits ?ctxs = (ranking, st)" by fastforce
  have "\<forall>ctx \<in> set ?ctxs. btInitialVariance (rc_variant ctx) = 25000000"
    using ranking_contexts_variant [of forced commits indices] True
    by (auto simp: uses_bt_def variant_v1_def variant_v2_def variant_v3_def dest!: last_in_set)
  then have ok: "bt_ok st" using rankingBT_props(3) [OF Q R] ph by auto
  have main: "ranking_main Q forced commits indices = (ranking, Some (map (\<lambda>c. (c, btLookup st c)) ranking))"
    using True R by (simp add: ranking_main_def)
  show ?thesis unfolding main using rankingBT_props(1,2) [OF Q R] ph btLookup_ok [OF ok]
    by (auto simp: var_ok_def comp_def sorted_wrt_map)
qed

theorem ranking_sound_witness:
  "mset (fst (ranking_main insertion_qsorts (Some ''v3'') [ex_commit ex_reviews] [ex_index ''c'' ''carol'' 50])) = {#Valid_Id ''c''#}"
  using ranking_sound [OF lawful_insertion, of "[ex_commit ex_reviews]" "Some ''v3''" "[ex_index ''c'' ''carol'' 50]"]
  by (simp add: ex_commit_def btPhantom_def)

section \<open>Weights\<close>

text \<open>What a contributor has earned in a history.\<close>

definition earned :: "commit_index list \<Rightarrow> contributor_id \<Rightarrow> nat" where
  "earned ixs i = (if i = founder then founderWeight else 0) + (\<Sum>idx\<leftarrow>ixs. if ix_contributor idx = i then ix_weightDelta idx else 0)"

lemma earned_simps [simp]:
  "earned [] i = (if i = founder then founderWeight else 0)"
  "earned (ixs @ [idx]) i = earned ixs i + (if ix_contributor idx = i then ix_weightDelta idx else 0)"
  by (simp_all add: earned_def)

lemma find_upsert:
  "find (\<lambda>c. ct_id c = j) (upsertContributor cs u) = (if j = ct_id u then Some u else find (\<lambda>c. ct_id c = j) cs)"
proof -
  have "find (\<lambda>c. ct_id c = j) (map (\<lambda>c. if ct_id c = ct_id u then u else c) cs) =
      (if j = ct_id u \<and> list_ex (\<lambda>c. ct_id c = ct_id u) cs then Some u else find (\<lambda>c. ct_id c = j) cs)"
    by (induction cs) auto
  moreover have "find (\<lambda>c. ct_id c = j) (cs @ [u]) = (case find (\<lambda>c. ct_id c = j) cs of Some c \<Rightarrow> Some c | None \<Rightarrow> if ct_id u = j then Some u else None)"
    by (induction cs) auto
  moreover have "find (\<lambda>c. ct_id c = ct_id u) cs = None" if "\<not> list_ex (\<lambda>c. ct_id c = ct_id u) cs" using that by (induction cs) auto
  ultimately show ?thesis by (auto simp: upsertContributor_def split: option.splits)
qed

lemma find_contributor:
  "find (\<lambda>c. ct_id c = i) (es_contributors (reconstructState ixs)) =
     (if i = founder \<or> earned ixs i > 0
      then Some \<lparr>ct_id = i, ct_balance = 0, ct_weight = earned ixs i, ct_isReviewer = (i = founder \<or> 500 \<le> earned ixs i)\<rparr> else None)"
proof (induction ixs arbitrary: i rule: rev_induct)
  case (snoc idx ixs)
  have step: "reconstructState (ixs @ [idx]) = stepState (activeVariant (ix_epoch idx)) (reconstructState ixs) idx" by (simp add: reconstructState_def)
  show ?case
  proof (cases "ix_weightDelta idx = 0")
    case True
    then show ?thesis using snoc.IH [of i] by (simp add: step stepState_def)
  next
    case False
    then show ?thesis using snoc.IH [of i] snoc.IH [of "ix_contributor idx"]
      by (auto simp: step stepState_def Let_def find_upsert activeVariant_consts)
  qed
qed (simp add: reconstructState_def initEvalState_def founderWeight_def)

lemma reviewerWeight_earned:
  "reviewerWeight (reconstructState ixs) i = (if i = founder \<or> 500 \<le> earned ixs i then earned ixs i else 0)"
  by (simp add: reviewerWeight_def find_contributor)

lemma map_of_addToWeight: "map_of (addToWeight acc i a) j =
    (if a \<noteq> 0 \<and> j = i then Some (a + (case map_of acc i of Some w \<Rightarrow> w | None \<Rightarrow> 0)) else map_of acc j)"
proof -
  have f: "find (\<lambda>(cid, _). cid = i) acc = map_option (\<lambda>w. (i, w)) (map_of acc i)" by (induction acc) auto
  have "map_of (map (\<lambda>(cid, w). if cid = i then (cid, w + a) else (cid, w)) acc) j =
      (if j = i then map_option (\<lambda>w. w + a) (map_of acc j) else map_of acc j)" by (induction acc) auto
  then show ?thesis by (auto simp: addToWeight_def f map_add_def split: option.splits)
qed

lemma finalWeights_earned: "(case map_of (finalWeights ixs) i of Some w \<Rightarrow> w | None \<Rightarrow> 0) = earned ixs i"
proof (induction ixs arbitrary: i rule: rev_induct)
  case (snoc idx ixs)
  have step: "finalWeights (ixs @ [idx]) =
      (if ix_weightDelta idx = 0 then finalWeights ixs else addToWeight (finalWeights ixs) (ix_contributor idx) (ix_weightDelta idx))"
    by (simp add: finalWeights_def)
  show ?case using snoc.IH [of i] by (auto simp: step map_of_addToWeight)
qed (simp add: finalWeights_def)

text \<open>C22: Weights are what was earned. The weight a reviewer votes with, rebuilt step by step under the version in force at each
  step, is the sum of the weights of the author's commits (with the one of the founder), from the threshold of 500 on; the final
  weights list the same sums; and the weight of a vote never falls as the history grows.\<close>

theorem weights_earned:
  "reviewerWeight (reconstructState ixs) i = (if i = founder \<or> 500 \<le> earned ixs i then earned ixs i else 0) \<and>
   (case map_of (finalWeights ixs) i of Some w \<Rightarrow> w | None \<Rightarrow> 0) = earned ixs i \<and>
   reviewerWeight (reconstructState ixs) i \<le> reviewerWeight (reconstructState (ixs @ js)) i"
proof -
  have "earned ixs i \<le> earned (ixs @ js) i" by (simp add: earned_def)
  then show ?thesis using finalWeights_earned [of ixs i] by (auto simp: reviewerWeight_earned)
qed

section \<open>The merge decision\<close>

lemma contributors_distinct: "distinct (map ct_id (es_contributors (reconstructState ixs)))"
proof (induction ixs rule: rev_induct)
  case (snoc idx ixs)
  have "distinct (map ct_id (upsertContributor cs u))" if "distinct (map ct_id cs)" for cs u
  proof -
    have "map ct_id (map (\<lambda>c. if ct_id c = ct_id u then u else c) cs) = map ct_id cs" by simp
    then show ?thesis using that by (auto simp: upsertContributor_def list_ex_iff simp del: map_map)
  qed
  then show ?case using snoc by (simp add: reconstructState_def stepState_def Let_def)
qed (simp add: reconstructState_def initEvalState_def)

lemma total_reviewer_weight:
  fixes st :: eval_state
  assumes "distinct (map ct_id (es_contributors st))"
  shows "foldl (\<lambda>acc c. if ct_isReviewer c then acc + ct_weight c else acc) 0 (es_contributors st) =
    (\<Sum>i \<in> ct_id ` set (es_contributors st). reviewerWeight st i)"
    "i \<notin> ct_id ` set (es_contributors st) \<Longrightarrow> reviewerWeight st i = 0"
proof -
  let ?cs = "es_contributors st"
  have fnd: "find (\<lambda>d. ct_id d = ct_id c) cs = Some c" if "c \<in> set cs" "distinct (map ct_id cs)" for c cs
    using that by (induction cs) (auto simp: image_iff)
  have w: "reviewerWeight st (ct_id c) = (if ct_isReviewer c then ct_weight c else 0)" if "c \<in> set ?cs" for c
    using fnd [OF that assms] by (simp add: reviewerWeight_def)
  have "foldl (\<lambda>acc c. if ct_isReviewer c then acc + ct_weight c else acc) a cs = a + (\<Sum>c\<leftarrow>cs. if ct_isReviewer c then ct_weight c else 0)" for a and cs :: "contributor list"
    by (induction cs arbitrary: a) auto
  moreover have "(\<Sum>c\<leftarrow>?cs. if ct_isReviewer c then ct_weight c else 0) = (\<Sum>i\<leftarrow>map ct_id ?cs. reviewerWeight st i)"
    by (simp add: comp_def) (rule arg_cong [where f = sum_list], simp add: w)
  ultimately show "foldl (\<lambda>acc c. if ct_isReviewer c then acc + ct_weight c else acc) 0 ?cs = (\<Sum>i \<in> ct_id ` set ?cs. reviewerWeight st i)"
    using sum_list_distinct_conv_sum_set [OF assms] by simp
  show "reviewerWeight st i = 0" if "i \<notin> ct_id ` set ?cs"
    using that by (auto simp: reviewerWeight_def find_Some_iff split: option.splits)
qed

lemma foldl_verdict:
  fixes w :: "contributor_id \<Rightarrow> nat"
  shows "foldl (\<lambda>acc r. if review_verdict r = v then acc + w (reviewer r) else acc) a rs = a + (\<Sum>i\<leftarrow>map reviewer (filter (\<lambda>r. review_verdict r = v) rs). w i)"
  by (induction rs arbitrary: a) auto



section \<open>Validation of a history\<close>

lemma foldl_validate:
  "foldl (\<lambda>(errors, past) (idx, commit). (errors @ V past idx commit, past @ [idx])) ([], []) zs =
     (concat (map (\<lambda>n. V (map fst (take n zs)) (fst (zs ! n)) (snd (zs ! n))) [0..<length zs]), map fst zs)"
proof (induction zs rule: rev_induct)
  case (snoc z zs)
  let ?F = "\<lambda>zs n. V (map fst (take n zs)) (fst (zs ! n)) (snd (zs ! n))"
  have u: "[0..<length (zs @ [z])] = [0..<length zs] @ [length zs]" by simp
  have a: "map (?F (zs @ [z])) [0..<length zs] = map (?F zs) [0..<length zs]" by (rule map_cong) (auto simp: nth_append)
  have "concat (map (?F (zs @ [z])) [0..<length (zs @ [z])]) = concat (map (?F zs) [0..<length zs]) @ V (map fst zs) (fst z) (snd z)"
    unfolding u map_append a by simp
  then show ?case using snoc by (simp only: foldl_append foldl.simps case_prod_unfold fst_conv snd_conv map_append list.map)
qed simp

lemma validate_history_all:
  assumes "validate_history Q rankings scores indices commits = []"
  shows "length indices = length commits" "n < length commits \<Longrightarrow> validate_one Q rankings scores (take n indices) (indices ! n) (commits ! n) = []"
proof -
  show l: "length indices = length commits" using assms by (auto simp: validate_history_def split: if_splits)
  let ?z = "zip indices commits"
  have "concat (map (\<lambda>n. validate_one Q rankings scores (map fst (take n ?z)) (fst (?z ! n)) (snd (?z ! n))) [0..<length ?z]) = []"
    using assms l by (simp add: validate_history_def foldl_validate)
  then have "validate_one Q rankings scores (map fst (take n ?z)) (fst (?z ! n)) (snd (?z ! n)) = []" if "n < length commits"
    using that l by (auto simp: concat_eq_Nil_conv)
  moreover have "map fst (take n ?z) = take n indices" if "n < length commits" using that l by (simp add: take_zip)
  ultimately show "n < length commits \<Longrightarrow> validate_one Q rankings scores (take n indices) (indices ! n) (commits ! n) = []" using l by simp
qed

lemma validate_one_matches:
  assumes "validate_one Q rankings scores past idx commit = []"
  shows "\<exists>ranking variances. let e = evaluate Q past commit ranking variances in
    ix_commitHash idx = sg_id commit \<and> ix_score idx = ix_score e \<and> ix_weightDelta idx = ix_weightDelta e \<and> ix_contributor idx = sg_author commit"
proof -
  have "ix_commitHash (evaluate Q past commit r v) = sg_id commit" "ix_contributor (evaluate Q past commit r v) = sg_author commit" for r v
    by (simp_all add: evaluate_def evaluateWithState_def index_of_def Let_def)
  note e = this
  define r where "r = Option.bind (prior_hash past (sg_prCreatedAt commit)) rankings"
  define v where "v = (if useBradleyTerry (activeVariant (sg_prCreatedAt commit))
    then Some (case Option.bind (prior_hash past (sg_prCreatedAt commit)) scores of Some vs \<Rightarrow> vs | None \<Rightarrow> []) else None)"
  have "ceq (sg_id commit) (ix_commitHash idx)" "ix_score (evaluate Q past commit r v) = ix_score idx"
    "ix_weightDelta (evaluate Q past commit r v) = ix_weightDelta idx" "sg_author commit = ix_contributor idx"
    using assms unfolding validate_one_def Let_def r_def [symmetric] v_def [symmetric] by (simp_all add: e split: if_splits)
  then show ?thesis using ceqD [of "sg_id commit" "ix_commitHash idx"] by (intro exI [of _ r] exI [of _ v]) (simp add: Let_def)
qed

lemma earned_capped:
  assumes "list_all2 (\<lambda>idx c. ix_contributor idx = sg_author c \<and> ix_weightDelta idx \<le> 100) indices commits"
  shows "(\<Sum>idx\<leftarrow>indices. if ix_contributor idx = i then ix_weightDelta idx else 0) \<le> 100 * length (filter (\<lambda>c. sg_author c = i) commits)"
  using assms by (induction rule: list_all2_induct) auto


definition ex_evaluated :: commit_index where
  "ex_evaluated = evaluate insertion_qsorts [] (ex_commit [ex_review ''sorpaas'' [Valid_Id ''c'']]) None None"


lemma evaluate_warnings: "fst (evaluateWithWarnings Q past commit ranking variances) = evaluate Q past commit ranking variances"
proof -
  have "fst (commitScoreWithWarnings Q gv commit sc ranking W variances) = commitScore Q gv commit sc ranking W variances" for gv sc W
    by (simp add: commitScoreWithWarnings_def commitScore_def Let_def)
  then show ?thesis
    by (simp add: evaluateWithWarnings_def evaluateWithStateAndWarnings_def evaluate_def evaluateWithState_def case_prod_unfold)
qed

end
