(* ===== verification/Spec2Isabelle.thy ===== *)
theory Spec2Isabelle
  imports Encode Arch_Local Poseidon2 Radix_Laws Javm_Laws Vmem_Laws Genesis_Laws
begin

text \<open>
  \<^bold>\<open>A verification of JAR\<close>: the execution engine of its virtual machine, the capability kernel on top of it, its
  hashed data structures and codecs, and the Genesis protocol that scores commits.

  \<^bold>\<open>The program.\<close> A guest program is a blob (\<open>nub/nub-program\<close>): code for a RISC-V subset, data regions and
  endpoints. A backend lowers it to an address space. The interpreter (\<open>nub/nub-exec\<close>) decodes the code once, splits it into
  blocks, and charges gas per block and per page at its first write. \<open>nub/nub-arch-local\<close> runs blobs in
  the process of the host. In production the same code runs recompiled to native code, under a guest kernel in a virtual
  machine. There the unit is an instance: an image, memory and a cnode of capabilities (\<open>rust/javm-cap\<close>). The kernel keeps a
  stack of instances that call, return and yield to each other (\<open>rust/javm-guest-x86\<close>), inside a task that is polled by
  the scheduler of a lane (\<open>nub/nub-arch-x86\<close>). Capabilities are addressed by Merkle roots and travel in SSZ
  (\<open>rust/ssz\<close>). The host builds the page tables of the guest (\<open>nub/nub-host-common\<close>). The Genesis protocol
  (\<open>spec/Genesis\<close>, in Lean) turns reviews of pull requests into scores, rankings and weights.

  \<^bold>\<open>Conventions.\<close> An integer of Rust is a word of its width, so arithmetic wraps where a release build wraps; \<open>usize\<close>
  is \<open>nat\<close>. A struct is a record and an enum a datatype. \<open>Result\<close> is a sum with the error on the left, a panic is
  \<open>Panics\<close> (\<open>KPanic\<close> in the kernel), a trait is a record of functions, \<open>&mut self\<close> is a state that is
  returned. A loop whose end is a theorem is a \<open>partial_function\<close> into options, where \<open>None\<close> means that it does not
  return; no definition has a fuel argument, and the theorems on such loops state that they return. Definitions have
  the names of the source, with a suffix or prefix where two of them clash. Digests, the native engine, the table of published caps
  and sorting functions are code outside the sources: they are parameters, and what a theorem needs of one is a
  hypothesis of it.

  \<^bold>\<open>Prelude.\<close> \<open>Prelude\<close> (words, bytes, checked arithmetic, panics), \<open>Sorted_Vec\<close> (binary search, sorted
  vectors, and the locale \<open>canonical_map\<close>, a finite map whose representation its contents determine) and \<open>Btree_Map\<close>.

  \<^bold>\<open>Execution engine\<close>, \<open>nub/nub-exec/src\<close>.
  \<^item> \<open>Instruction\<close> is \<open>instruction.rs\<close>, the decoder, and \<open>Encode\<close> is \<open>rust/javm-fuzz/src/encode.rs\<close>. \<open>Decoder\<close>
    shows that decoding is total and yields well-formed instructions only; \<open>Encode\<close> that it inverts the encoder.
  \<^item> \<open>Regs\<close> (\<open>regs.rs\<close>, locale \<open>register_file\<close>), \<open>Alu\<close> (the arithmetic arms of \<open>Interpreter::run\<close>, equal to
    integer arithmetic), \<open>Gas\<close> (\<open>gas.rs\<close>, \<open>gas_const.rs\<close>), \<open>Gas_Sim\<close> (\<open>gas_sim.rs\<close>), \<open>Gas_Cost\<close>
    (\<open>gas_cost.rs\<close>). The fast simulator of the pipeline equals the reference, and the cost of a block that of an
    abstract pipeline with unbounded counters.
  \<^item> \<open>Predecode\<close> is \<open>predecode.rs\<close>: the pass ends, and its tables describe exactly the instructions of the code.
  \<^item> \<open>Mat\<close> (\<open>mat.rs\<close>), \<open>Memory\<close> (\<open>mem.rs\<close>), \<open>Memory_Laws\<close> and \<open>Load_Store\<close>. The locale
    \<open>memory_backend\<close> is the contract of \<open>trait Memory\<close>, with the potential that pays for first writes; the copying memory
    satisfies it (\<open>cm\<close>).
  \<^item> \<open>Interp\<close> is \<open>interp.rs\<close> with \<open>exit.rs\<close> and \<open>ecall.rs\<close>. \<open>Interp_Laws\<close> treats one iteration for
    every lawful memory and ecall handler (locales \<open>ecall_contract\<close> and \<open>interpreter\<close>), \<open>Interp_Run\<close> the loop: a run
    ends without a panic, does not change protected memory, and can be resumed after it ran out of gas. The measure
    of the loop is the gas left, then the distance to the end of the code: a block costs at least one unit.

  \<^bold>\<open>Programs\<close>. \<open>Program_Blob\<close> (\<open>nub/nub-program/src/abi.rs\<close>, \<open>blob.rs\<close>) and \<open>Codec\<close>
  (\<open>codec.rs\<close>): validation accepts exactly the documented blobs
  unless the sum of their pages overflows, and a blob decodes from its encoding to itself. \<open>X86_Abi\<close> has shared
  constants and the exit record. \<open>Arch_Local\<close> (\<open>nub/nub-arch-local\<close>) composes all of the above: a valid blob runs to a
  result, its address space is the described one, its read-only data never change. \<open>Goldilocks\<close> and
  \<open>Poseidon2\<close> (\<open>nub/programs/goldilocks-poseidon2\<close>) are a guest program:
  multiplication, powers and inverses in the field are exact on all operands, sums and differences unless they wrap twice.

  \<^bold>\<open>Hashed data\<close>, \<open>rust/ssz/src\<close>. \<open>Ssz\<close> (traits, integers, lists, vectors, merkleization) and \<open>Ssz_Laws\<close>
  (locales \<open>ssz_codec\<close> and \<open>strict_codec\<close>, kept by lists over any lawful element). \<open>Radix\<close> and \<open>Radix_Laws\<close> are
  \<open>radix.rs\<close>: a finite map with a root that commits to its contents, proofs that are sound and complete, and an exact
  wire form. Statements about a digest are disjunctions: the property, or two given strings that collide.

  \<^bold>\<open>Capabilities\<close>, \<open>rust/javm-cap/src\<close>. \<open>Data_Cap\<close> and \<open>Data_Cap_Laws\<close> (\<open>cap/page.rs\<close>,
  \<open>cap/data.rs\<close>): a data cap is an array of bytes. \<open>Cap\<close>: slots, references, cnodes, images, instances and kernel handles.

  \<^bold>\<open>Kernel.\<close> \<open>Task\<close> is \<open>nub/nub-arch-x86/src/task.rs\<close> and \<open>personality.rs\<close>: the gas bank, the poll of a task
  and the scheduler. \<open>Task_Laws\<close> has the contract of a personality (locale \<open>guest_personality\<close>) and what follows from
  it. \<open>Kernel_Frame\<close> and \<open>Call_Loop\<close> are \<open>rust/javm-guest-x86/src/cached_cap.rs\<close> and \<open>call_loop.rs\<close>, the frame
  and the stack. \<open>Kernel_Frame_Laws\<close> and \<open>Call_Loop_Laws\<close> have the invariant \<open>stack_ok\<close> and the
  interpretation \<open>javm_task\<close>; \<open>Javm_Laws\<close> has the guarantees to instances: isolation of gas, lending, routing of yields, return,
  and answers of the scheduler. The engine that runs a frame is an arbitrary function there, so they hold whatever guest code does.

  \<^bold>\<open>Page tables.\<close> \<open>Vmem\<close> is \<open>nub/nub-host-common/src/vmem.rs\<close> with \<open>arch/amd64/vmem.rs\<close>, and the buffer of
  \<open>nub/nub-host-kvm/src/mem/mgr.rs\<close>. \<open>Vmem_Laws\<close> treats every store of tables (locale \<open>page_store\<close>) and then the
  buffer: a translation finds what the last mapping says.

  \<^bold>\<open>Genesis\<close>, \<open>spec/Genesis\<close>. \<open>Genesis_Scoring\<close> (\<open>Types.lean\<close>, \<open>Scoring.lean\<close>), \<open>Genesis_State\<close>
  (\<open>State.lean\<close> and the decisions of \<open>Cli\<close>) and \<open>Genesis_Laws\<close>: bounds on what a coalition of reviewers can do,
  targets, rankings, weights, majorities and histories, for every sorting function.

  \<^bold>\<open>Not modelled.\<close>
  \<^item> The recompiler \<open>nub-recompiler-x86\<close> apart from its exit codes, the machine layer of \<open>nub-arch-x86\<close>,
    \<open>nub-arch-guestbin\<close> and the hypervisor \<open>nub-host-kvm\<close>: native code, inline assembly, page faults, system calls and
    shared memory, for which there is no semantics in the sources. The kernel model takes the engine as a parameter.
  \<^item> \<open>ssz-derive\<close>, \<open>nub-rt-macro\<close> and the archived forms of rkyv: code generated at build time.
  \<^item> The SSZ instances that no modelled component uses: bit lists, sparse lists, unions, small vectors, and
    the wire forms of caps that the derive macro generates.
  \<^item> The entry points of the guest kernel and the host front end \<open>javm\<close> (remote calls and statics around the call loop);
    the linker, the transpiler, the fuzzer apart from its encoder, benchmarks, sample programs and
    \<open>tools/jar-genesis\<close>: tools around a toolchain, git or GitHub.
  \<^item> \<open>spec/Jar\<close>, the specification of the machine in Lean, and the JSON input and output of the Genesis tools.
\<close>

end
